(* ===== verification/Prelude.thy ===== *)
theory Prelude
  imports Main "HOL-Library.Char_ord" "HOL-Library.List_Lexorder" "HOL-Library.Sublist"
begin

text \<open>
  Shared vocabulary of the development: JavaScript errors as values, sequencing of
  operations that may throw, the character classes and string predicates behind the
  regular expressions of the sources, \<open>Number.isSafeInteger\<close>, the generic list facts that
  the component theories use, and two locales for transition systems.

  A JavaScript string is modelled as \<^typ>\<open>string\<close>: a list of UTF-16 code units below
  256, ordered by code unit as \<open>Array.prototype.sort\<close> orders strings.
\<close>

named_theorems js_simps \<open>unfolding rules for JavaScript primitives\<close>
named_theorems guard_simps \<open>unfolding rules for the guards of the sources\<close>

section \<open>Errors as values\<close>

text \<open>A thrown exception. The message is the one the source passes to the constructor.\<close>

datatype js_error =
    TypeError string
  | RangeError string
  | SyntaxError string
  | ExternalError string
    \<comment> \<open>an exception raised by a host callback or by an injected client\<close>

type_synonym 'a throws = "js_error + 'a"

definition andThen :: "'a throws \<Rightarrow> ('a \<Rightarrow> 'b throws) \<Rightarrow> 'b throws" where
  "andThen m f = (case m of Inl e \<Rightarrow> Inl e | Inr x \<Rightarrow> f x)"

lemma andThen_simps [simp]:
  "andThen (Inl e) f = Inl e"
  "andThen (Inr x) f = f x"
  by (simp_all add: andThen_def)

lemma andThen_Inr_iff: "andThen m f = Inr y \<longleftrightarrow> (\<exists>x. m = Inr x \<and> f x = Inr y)"
  by (cases m) simp_all

lemma andThen_Inr_E [elim!]:
  assumes "andThen m f = Inr y"
  obtains x where "m = Inr x" and "f x = Inr y"
  using assms by (auto simp: andThen_Inr_iff)

lemma andThen_cong [fundef_cong]:
  assumes "m = m'" and "\<And>x. m' = Inr x \<Longrightarrow> f x = g x"
  shows "andThen m f = andThen m' g"
  using assms by (cases m') simp_all

text \<open>\<open>throwUnless p e\<close> is the guard \<open>if (!p) throw e\<close>.\<close>

definition throwUnless :: "bool \<Rightarrow> js_error \<Rightarrow> unit throws" where
  "throwUnless p e = (if p then Inr () else Inl e)"

lemma throwUnless_Inr [simp]: "throwUnless p e = Inr u \<longleftrightarrow> p"
  by (simp add: throwUnless_def)

lemma throwUnless_True [simp]: "throwUnless True e = Inr ()"
  and throwUnless_False [simp]: "throwUnless False e = Inl e"
  by (simp_all add: throwUnless_def)

lemma andThen_throwUnless:
  "andThen (throwUnless p e) f = (if p then f () else Inl e)"
  by (simp add: throwUnless_def)

text \<open>The values of a list of operations run in order: the first error wins.\<close>

fun collect :: "'a throws list \<Rightarrow> 'a list throws" where
  "collect [] = Inr []"
| "collect (m # ms) = andThen m (\<lambda>x. andThen (collect ms) (\<lambda>xs. Inr (x # xs)))"

lemma collect_Inr_iff: "collect ms = Inr xs \<longleftrightarrow> ms = map Inr xs"
  by (induction ms arbitrary: xs) (auto simp: andThen_Inr_iff)

lemma collect_map_Inr [simp]: "collect (map Inr xs) = Inr xs"
  by (simp add: collect_Inr_iff)

section \<open>Characters and strings\<close>

definition code_unit :: "char \<Rightarrow> nat" where
  "code_unit c = (of_char c :: nat)"

definition is_digit :: "char \<Rightarrow> bool" where
  "is_digit c \<longleftrightarrow> CHR ''0'' \<le> c \<and> c \<le> CHR ''9''"

definition is_lower :: "char \<Rightarrow> bool" where
  "is_lower c \<longleftrightarrow> CHR ''a'' \<le> c \<and> c \<le> CHR ''z''"

definition is_upper :: "char \<Rightarrow> bool" where
  "is_upper c \<longleftrightarrow> CHR ''A'' \<le> c \<and> c \<le> CHR ''Z''"

text \<open>The class \<open>[a-f0-9]\<close>.\<close>

definition is_hex_lower :: "char \<Rightarrow> bool" where
  "is_hex_lower c \<longleftrightarrow> is_digit c \<or> (CHR ''a'' \<le> c \<and> c \<le> CHR ''f'')"

lemmas char_classes [js_simps] =
  is_digit_def is_lower_def is_upper_def is_hex_lower_def less_eq_char_def

text \<open>White space removed by \<open>String.prototype.trim\<close> (code units below 256).\<close>

definition is_js_space :: "char \<Rightarrow> bool" where
  "is_js_space c \<longleftrightarrow> code_unit c \<in> {9, 10, 11, 12, 13, 32, 160}"

text \<open>\<open>value.trim().length === 0\<close>\<close>

definition blank :: "string \<Rightarrow> bool" where
  "blank s \<longleftrightarrow> list_all is_js_space s"

lemma blank_Nil [simp]: "blank []"
  by (simp add: blank_def)

lemma not_blank_nonempty: "\<not> blank s \<Longrightarrow> s \<noteq> []"
  by auto

text \<open>\<open>/^[a-f0-9]{64}$/\<close> and \<open>/^sha256:[a-f0-9]{64}$/\<close>.\<close>

definition is_hex64 :: "string \<Rightarrow> bool" where
  "is_hex64 s \<longleftrightarrow> length s = 64 \<and> list_all is_hex_lower s"

definition is_sha256_digest :: "string \<Rightarrow> bool" where
  "is_sha256_digest s \<longleftrightarrow> prefix ''sha256:'' s \<and> is_hex64 (drop 7 s)"

lemma is_sha256_digest_prefixed [simp]: "is_sha256_digest (''sha256:'' @ s) \<longleftrightarrow> is_hex64 s"
  by (simp add: is_sha256_digest_def)

text \<open>\<open>/^[A-Za-z0-9._:-]{1,n}$/\<close>\<close>

definition is_id_char :: "char \<Rightarrow> bool" where
  "is_id_char c \<longleftrightarrow> is_upper c \<or> is_lower c \<or> is_digit c \<or> c \<in> set ''._:-''"

definition id_pattern :: "nat \<Rightarrow> string \<Rightarrow> bool" where
  "id_pattern n s \<longleftrightarrow> 1 \<le> length s \<and> length s \<le> n \<and> list_all is_id_char s"

text \<open>ASCII case folding, as the \<open>i\<close> flag of a regular expression applies it.\<close>

definition to_lower :: "char \<Rightarrow> char" where
  "to_lower c = (if is_upper c then char_of (code_unit c + 32) else c)"

definition NUL :: char where
  "NUL = CHR 0x00"

section \<open>Safe integers\<close>

text \<open>\<open>Number.MAX_SAFE_INTEGER\<close> is \<open>2 ^ 53 - 1\<close>.\<close>

definition max_safe_integer :: int where
  "max_safe_integer = 9007199254740991"

definition is_safe_int :: "int \<Rightarrow> bool" where
  "is_safe_int i \<longleftrightarrow> - max_safe_integer \<le> i \<and> i \<le> max_safe_integer"

section \<open>Lists\<close>

lemma filter_eq_append_conv:
  "filter P xs = ys @ [y] \<Longrightarrow> \<exists>us vs. xs = us @ y # vs \<and> filter P us = ys \<and> P y \<and> filter P vs = []"
proof (induction xs rule: rev_induct)
  case Nil
  then show ?case by simp
next
  case (snoc x xs)
  show ?case
  proof (cases "P x")
    case True
    with snoc.prems show ?thesis by (intro exI [of _ xs] exI [of _ "[]"]) simp
  next
    case False
    with snoc.prems have "filter P xs = ys @ [y]" by simp
    from snoc.IH [OF this] obtain us vs where
      "xs = us @ y # vs" "filter P us = ys" "P y" "filter P vs = []" by blast
    with False show ?thesis by (intro exI [of _ us] exI [of _ "vs @ [x]"]) simp
  qed
qed

lemma sorted_wrt_distinct_keys_unique:
  assumes "sorted (map fst xs)" "sorted (map fst ys)"
    and "distinct (map fst xs)" "distinct (map fst ys)" "set xs = set ys"
  shows "xs = ys"
  using assms by (metis distinct_map map_sorted_distinct_set_unique sup.idem)

lemma separator_unique:
  "xs @ x # us = ys @ x # vs \<Longrightarrow> x \<notin> set xs \<Longrightarrow> x \<notin> set ys \<Longrightarrow> xs = ys \<and> us = vs"
proof (induction xs arbitrary: ys)
  case Nil
  then show ?case by (cases ys) auto
next
  case (Cons z zs)
  then show ?case by (cases ys) auto
qed

section \<open>Transition systems\<close>

text \<open>An invariant of the initial states that every step keeps holds in all reachable states.\<close>

locale invariant_system =
  fixes init :: "'s \<Rightarrow> bool" and step :: "'s \<Rightarrow> 's \<Rightarrow> bool" and inv :: "'s \<Rightarrow> bool"
  assumes init_inv: "init s \<Longrightarrow> inv s" and step_inv: "inv s \<Longrightarrow> step s s' \<Longrightarrow> inv s'"
begin

lemma steps_inv: "step\<^sup>*\<^sup>* s s' \<Longrightarrow> inv s \<Longrightarrow> inv s'"
  by (induction rule: rtranclp_induct) (auto intro: step_inv)

lemma reachable_inv: "init s \<Longrightarrow> step\<^sup>*\<^sup>* s s' \<Longrightarrow> inv s'"
  by (blast intro: steps_inv init_inv)

end

text \<open>A preorder that every step from an invariant state respects relates the ends of every run.\<close>

locale monotone_system = invariant_system init step inv
  for init :: "'s \<Rightarrow> bool" and step and inv +
  fixes before :: "'s \<Rightarrow> 's \<Rightarrow> bool"
  assumes before_refl: "before s s" and before_trans: "before s t \<Longrightarrow> before t u \<Longrightarrow> before s u"
    and step_before: "inv s \<Longrightarrow> step s s' \<Longrightarrow> before s s'"
begin

lemma steps_before: "step\<^sup>*\<^sup>* s s' \<Longrightarrow> inv s \<Longrightarrow> before s s'"
proof (induction rule: rtranclp_induct)
  case (step y z)
  then show ?case using steps_inv step_before before_trans by blast
qed (rule before_refl)

end

end
