(* ===== verification/JsDate.thy ===== *)
theory JsDate
  imports Prelude
begin

text \<open>
  \<open>Date\<close> values of ECMAScript as far as the sources use them: a date is its time
  value in milliseconds since the epoch, \<^typ>\<open>int option\<close> with \<^term>\<open>None\<close> for an
  invalid date, and \<open>toISOString\<close> is \<open>iso_of_ms\<close>. The calendar functions follow
  the standard's \<open>DayFromYear\<close> and \<open>YearFromTime\<close>.
\<close>

section \<open>Decimal numerals\<close>

definition digit_char :: "nat \<Rightarrow> char" where
  "digit_char d = char_of (48 + d)"

fun show_nat :: "nat \<Rightarrow> string" where
  "show_nat n = (if n < 10 then [digit_char n] else show_nat (n div 10) @ [digit_char (n mod 10)])"

declare show_nat.simps [simp del]

definition show_int :: "int \<Rightarrow> string" where
  "show_int i = (if i < 0 then CHR ''-'' # show_nat (nat (- i)) else show_nat (nat i))"

definition nat_of_digits :: "string \<Rightarrow> nat" where
  "nat_of_digits s = foldl (\<lambda>a c. 10 * a + (code_unit c - 48)) 0 s"

lemma nat_of_digits_snoc [simp]: "nat_of_digits (s @ [c]) = 10 * nat_of_digits s + (code_unit c - 48)"
  by (simp add: nat_of_digits_def)

lemma code_unit_digit_char [simp]: "d < 10 \<Longrightarrow> code_unit (digit_char d) = 48 + d"
  by (simp add: code_unit_def digit_char_def)

lemma is_digit_code_unit: "is_digit c \<longleftrightarrow> 48 \<le> code_unit c \<and> code_unit c \<le> 57"
  by (simp add: is_digit_def less_eq_char_def code_unit_def)

lemma is_digit_digit_char [simp]: "d < 10 \<Longrightarrow> is_digit (digit_char d)"
  by (simp add: is_digit_code_unit)

lemma digit_char_inject: "d < 10 \<Longrightarrow> e < 10 \<Longrightarrow> digit_char d = digit_char e \<longleftrightarrow> d = e"
  by (metis add_left_cancel code_unit_digit_char)

lemma show_nat_digits: "list_all is_digit (show_nat n)"
proof (induction n rule: show_nat.induct)
  case (1 n)
  then show ?case by (subst show_nat.simps) simp
qed

lemma show_nat_nonempty [simp]: "show_nat n \<noteq> []"
  by (subst show_nat.simps) simp

lemma nat_of_digits_show_nat [simp]: "nat_of_digits (show_nat n) = n"
proof (induction n rule: show_nat.induct)
  case (1 n)
  then show ?case
    by (subst show_nat.simps) (simp add: nat_of_digits_def)
qed

lemma show_nat_inject: "show_nat m = show_nat n \<longleftrightarrow> m = n"
  by (metis nat_of_digits_show_nat)

text \<open>\<open>String(n).padStart(w, "0")\<close>\<close>

definition pad_nat :: "nat \<Rightarrow> nat \<Rightarrow> string" where
  "pad_nat w n = (let s = show_nat n in replicate (w - length s) (CHR ''0'') @ s)"

section \<open>The proleptic Gregorian calendar\<close>

definition day_from_year :: "int \<Rightarrow> int" where
  "day_from_year y =
     365 * (y - 1970) + (y - 1969) div 4 - (y - 1901) div 100 + (y - 1601) div 400"

lemma int_div_step:
  fixes a n :: int
  assumes "0 < n"
  shows "(a + 1) div n = a div n + (if n dvd a + 1 then 1 else 0)"
proof -
  define q where "q = a div n"
  define r where "r = a mod n"
  have a: "a = n * q + r" by (simp add: q_def r_def)
  have r: "0 \<le> r" "r < n" using assms by (simp_all add: r_def)
  show ?thesis
  proof (cases "r + 1 < n")
    case True
    with a r have "(a + 1) div n = q" "(a + 1) mod n = r + 1"
      by (auto intro!: int_div_pos_eq int_mod_pos_eq [where q = q])
    with r show ?thesis by (simp add: q_def dvd_eq_mod_eq_0)
  next
    case False
    with r have "r + 1 = n" by simp
    with a have "a + 1 = n * (q + 1)" by (simp add: algebra_simps)
    with assms show ?thesis by (simp add: q_def)
  qed
qed

lemma day_from_year_step:
  "day_from_year y + 365 \<le> day_from_year (y + 1)" "day_from_year (y + 1) \<le> day_from_year y + 366"
proof -
  have e: "day_from_year (y + 1) = day_from_year y + 365
      + (if 4 dvd y - 1969 + 1 then 1 else 0) - (if 100 dvd y - 1901 + 1 then 1 else 0)
      + (if 400 dvd y - 1601 + 1 then 1 else 0)"
    using int_div_step [of 4 "y - 1969"] int_div_step [of 100 "y - 1901"] int_div_step [of 400 "y - 1601"]
    by (simp add: day_from_year_def algebra_simps)
  have l: "4 dvd y - 1969 + 1" if "100 dvd y - 1901 + 1"
  proof -
    from that obtain k where "y - 1901 + 1 = 100 * k" by (elim dvdE)
    then have "y - 1969 + 1 = 4 * (25 * k - 17)" by simp
    then show ?thesis by (rule dvdI)
  qed
  have m: "100 dvd y - 1901 + 1" if "400 dvd y - 1601 + 1"
  proof -
    from that obtain k where "y - 1601 + 1 = 400 * k" by (elim dvdE)
    then have "y - 1901 + 1 = 100 * (4 * k - 3)" by simp
    then show ?thesis by (rule dvdI)
  qed
  show "day_from_year y + 365 \<le> day_from_year (y + 1)" using e l by (auto split: if_splits)
  show "day_from_year (y + 1) \<le> day_from_year y + 366" using e m by (auto split: if_splits)
qed

text \<open>\<open>YearFromTime\<close>: the largest year that starts no later than the given day.\<close>

function year_search :: "int \<Rightarrow> int \<Rightarrow> int" where
  "year_search d y = (if day_from_year (y + 1) \<le> d then year_search d (y + 1) else y)"
  by pat_completeness auto
termination
proof (relation "measure (\<lambda>(d, y). nat (d - day_from_year y))")
  fix d y :: int
  assume "day_from_year (y + 1) \<le> d"
  then show "((d, y + 1), (d, y)) \<in> measure (\<lambda>(d, y). nat (d - day_from_year y))"
    using day_from_year_step (1) [of y] by simp
qed simp

declare year_search.simps [simp del]

definition year_from_day :: "int \<Rightarrow> int" where
  "year_from_day d = year_search d (1970 + (if 0 \<le> d then d div 366 else d div 365))"

definition is_leap_year :: "int \<Rightarrow> bool" where
  "is_leap_year y \<longleftrightarrow> (y mod 4 = 0 \<and> y mod 100 \<noteq> 0) \<or> y mod 400 = 0"

definition month_lengths :: "int \<Rightarrow> int list" where
  "month_lengths y = [31, if is_leap_year y then 29 else 28, 31, 30, 31, 30, 31, 31, 30, 31, 30, 31]"

text \<open>Month (from 1) and day of the month (from 1) of a day of the year (from 0).\<close>

fun month_of_day :: "int list \<Rightarrow> int \<Rightarrow> int \<Rightarrow> int \<times> int" where
  "month_of_day [] m d = (m, d + 1)"
| "month_of_day (l # ls) m d = (if d < l then (m, d + 1) else month_of_day ls (m + 1) (d - l))"

section \<open>\<open>Date.prototype.toISOString\<close>\<close>

definition iso_year :: "int \<Rightarrow> string" where
  "iso_year y =
     (if 0 \<le> y \<and> y \<le> 9999 then pad_nat 4 (nat y)
      else (if y < 0 then ''-'' else ''+'') @ pad_nat 6 (nat \<bar>y\<bar>))"

definition iso_of_ms :: "int \<Rightarrow> string" where
  "iso_of_ms t =
     (let d = t div 86400000; r = t mod 86400000;
          y = year_from_day d;
          (m, dom) = month_of_day (month_lengths y) 1 (d - day_from_year y)
      in iso_year y @ ''-'' @ pad_nat 2 (nat m) @ ''-'' @ pad_nat 2 (nat dom) @ ''T''
         @ pad_nat 2 (nat (r div 3600000)) @ '':''
         @ pad_nat 2 (nat (r div 60000 mod 60)) @ '':''
         @ pad_nat 2 (nat (r div 1000 mod 60)) @ ''.''
         @ pad_nat 3 (nat (r mod 1000)) @ ''Z'')"

text \<open>\<open>toISOString\<close> on a date object throws on an invalid time value.\<close>

definition toISOString :: "int option \<Rightarrow> string throws" where
  "toISOString d =
     (case d of None \<Rightarrow> Inl (RangeError ''Invalid time value'') | Some t \<Rightarrow> Inr (iso_of_ms t))"

lemma year_search_spec:
  assumes "day_from_year y \<le> d"
  shows "day_from_year (year_search d y) \<le> d \<and> d < day_from_year (year_search d y + 1)"
  using assms
proof (induction d y rule: year_search.induct)
  case (1 d y)
  then show ?case by (subst (1 2) year_search.simps) auto
qed

lemma day_from_year_estimate:
  "0 \<le> q \<Longrightarrow> day_from_year (1970 + q) \<le> 366 * q"
  "q \<le> 0 \<Longrightarrow> day_from_year (1970 + q) \<le> 365 * q"
proof -
  show "day_from_year (1970 + q) \<le> 366 * q" if "0 \<le> q"
    using that
  proof (induction q rule: int_ge_induct)
    case base
    then show ?case by (simp add: day_from_year_def)
  next
    case (step q)
    then show ?case using day_from_year_step (2) [of "1970 + q"] by (simp add: add.assoc)
  qed
  show "day_from_year (1970 + q) \<le> 365 * q" if "q \<le> 0"
    using that
  proof (induction q rule: int_le_induct)
    case base
    then show ?case by (simp add: day_from_year_def)
  next
    case (step q)
    then show ?case using day_from_year_step (1) [of "1970 + q - 1"] by (simp add: algebra_simps)
  qed
qed

text \<open>Every day lies in exactly the year that \<open>year_from_day\<close> finds.\<close>

lemma year_from_day_spec:
  "day_from_year (year_from_day d) \<le> d" "d < day_from_year (year_from_day d + 1)"
proof -
  let ?q = "if 0 \<le> d then d div 366 else d div 365"
  have "day_from_year (1970 + ?q) \<le> d"
  proof (cases "0 \<le> d")
    case True
    then have "day_from_year (1970 + d div 366) \<le> 366 * (d div 366)"
      by (intro day_from_year_estimate (1)) simp
    also have "\<dots> \<le> d" by simp
    finally show ?thesis using True by simp
  next
    case False
    then have "day_from_year (1970 + d div 365) \<le> 365 * (d div 365)"
      by (intro day_from_year_estimate (2)) auto
    also have "\<dots> \<le> d" by simp
    finally show ?thesis using False by simp
  qed
  from year_search_spec [OF this] show "day_from_year (year_from_day d) \<le> d"
    and "d < day_from_year (year_from_day d + 1)"
    by (simp_all add: year_from_day_def)
qed

end
