(* ===== verification/JsValue.thy ===== *)
theory JsValue
  imports JsDate
begin

text \<open>
  JavaScript values, the enumeration order of object properties, and
  \<open>JSON.stringify\<close>. The last section proves that \<open>JSON.stringify\<close> is injective on
  JSON values, by reading the text back: this is what lets the hash chain theories
  turn equal hash inputs into equal records.
\<close>

section \<open>Values\<close>

text \<open>
  A number is an integer with an exact decimal rendering, another finite number (given by
  the decimal literal \<open>Number::toString\<close> prints for it, which determines it), or one of
  the non-finite values. Both zeros are \<open>NInt 0\<close>: \<open>===\<close> identifies them and both
  print as \<open>0\<close>.
\<close>

datatype jsnumber = NInt int | NDec string | NNaN | NInf | NNegInf

text \<open>
  A value of type \<open>unknown\<close>. \<open>JObj\<close> lists the own enumerable string-keyed properties
  in enumeration order; a hole of an array is \<open>JUndefined\<close>; \<open>JOther t s\<close> is a function,
  symbol or bigint with \<open>typeof\<close> \<open>t\<close> and \<open>String(value)\<close> \<open>s\<close>.
\<close>

datatype jsval =
    JUndefined
  | JNull
  | JBool bool
  | JNum jsnumber
  | JStr string
  | JArr "jsval list"
  | JObj "(string \<times> jsval) list"
  | JDate "int option"
  | JOther string string

definition is_finite_number :: "jsnumber \<Rightarrow> bool" where
  "is_finite_number n \<longleftrightarrow> n \<notin> {NNaN, NInf, NNegInf}"

definition is_integer :: "jsnumber \<Rightarrow> bool" where
  "is_integer n \<longleftrightarrow> (case n of NInt _ \<Rightarrow> True | _ \<Rightarrow> False)"

text \<open>\<open>Number.isSafeInteger(n) && n >= lo\<close>\<close>

definition is_safe_integer_from :: "int \<Rightarrow> jsnumber \<Rightarrow> bool" where
  "is_safe_integer_from lo n \<longleftrightarrow> (case n of NInt i \<Rightarrow> is_safe_int i \<and> lo \<le> i | _ \<Rightarrow> False)"

text \<open>\<open>value?.key\<close> on an object; a missing property is \<open>undefined\<close>.\<close>

definition get_prop :: "(string \<times> jsval) list \<Rightarrow> string \<Rightarrow> jsval" where
  "get_prop kvs k = (case map_of kvs k of None \<Rightarrow> JUndefined | Some v \<Rightarrow> v)"

definition has_own :: "(string \<times> jsval) list \<Rightarrow> string \<Rightarrow> bool" where
  "has_own kvs k \<longleftrightarrow> k \<in> fst ` set kvs"

section \<open>Enumeration order of properties\<close>

text \<open>
  \<open>OrdinaryOwnPropertyKeys\<close>: array indices (canonical decimal numerals up to
  \<open>2 ^ 32 - 2\<close>) in ascending numeric order, then the other keys in creation order.
\<close>

definition is_array_index :: "string \<Rightarrow> bool" where
  "is_array_index k \<longleftrightarrow>
     k \<noteq> [] \<and> list_all is_digit k \<and> (k = ''0'' \<or> hd k \<noteq> CHR ''0'') \<and> int (nat_of_digits k) \<le> 4294967294"

definition own_key_order :: "(string \<times> 'a) list \<Rightarrow> (string \<times> 'a) list" where
  "own_key_order kvs =
     sort_key (\<lambda>kv. nat_of_digits (fst kv)) (filter (\<lambda>kv. is_array_index (fst kv)) kvs)
     @ filter (\<lambda>kv. \<not> is_array_index (fst kv)) kvs"

text \<open>
  The object that starting from \<open>{}\<close> and assigning \<open>result[k] = v\<close> for each pair in turn
  gives, for pairwise different keys. Assigning to \<open>__proto__\<close> calls the setter of
  \<open>Object.prototype\<close> and makes no own property.
\<close>

definition proto_key :: string where
  "proto_key = ''__proto__''"

definition assign_all :: "(string \<times> 'a) list \<Rightarrow> (string \<times> 'a) list" where
  "assign_all kvs = own_key_order (filter (\<lambda>kv. fst kv \<noteq> proto_key) kvs)"

lemma set_own_key_order [simp]: "set (own_key_order kvs) = set kvs"
  by (auto simp: own_key_order_def)

lemma distinct_own_key_order:
  assumes "distinct (map fst kvs)"
  shows "distinct (map fst (own_key_order kvs))"
proof -
  have "distinct kvs" and inj: "inj_on fst (set kvs)" using assms by (auto simp: distinct_map)
  have "distinct (own_key_order kvs)"
    using \<open>distinct kvs\<close> by (auto simp: own_key_order_def)
  moreover have "inj_on fst (set (own_key_order kvs))" using inj by simp
  ultimately show ?thesis by (simp add: distinct_map)
qed

lemma set_assign_all: "set (assign_all kvs) = {kv \<in> set kvs. fst kv \<noteq> proto_key}"
  by (auto simp: assign_all_def)

lemma distinct_assign_all: "distinct (map fst kvs) \<Longrightarrow> distinct (map fst (assign_all kvs))"
  by (simp add: assign_all_def distinct_own_key_order distinct_map_filter)

section \<open>\<open>JSON.stringify\<close>\<close>

definition DQ :: char where "DQ = CHR 0x22"
definition BS :: char where "BS = CHR 0x5C"

definition hex_char :: "nat \<Rightarrow> char" where
  "hex_char n = (if n < 10 then char_of (48 + n) else char_of (87 + n))"

definition quote_char :: "char \<Rightarrow> string" where
  "quote_char c =
     (if c = DQ then [BS, DQ]
      else if c = BS then [BS, BS]
      else if c = CHR 0x08 then [BS, CHR ''b'']
      else if c = CHR 0x09 then [BS, CHR ''t'']
      else if c = CHR 0x0A then [BS, CHR ''n'']
      else if c = CHR 0x0C then [BS, CHR ''f'']
      else if c = CHR 0x0D then [BS, CHR ''r'']
      else if code_unit c < 32
        then BS # ''u00'' @ [hex_char (code_unit c div 16), hex_char (code_unit c mod 16)]
      else [c])"

definition quote_string :: "string \<Rightarrow> string" where
  "quote_string s = DQ # concat (map quote_char s) @ [DQ]"

definition show_number :: "jsnumber \<Rightarrow> string" where
  "show_number n =
     (case n of NInt i \<Rightarrow> show_int i | NDec l \<Rightarrow> l | NNaN \<Rightarrow> ''null'' | NInf \<Rightarrow> ''null'' | NNegInf \<Rightarrow> ''null'')"

text \<open>Values that \<open>JSON.stringify\<close> omits from objects and prints as \<open>null\<close> in arrays.\<close>

fun is_omitted :: "jsval \<Rightarrow> bool" where
  "is_omitted JUndefined = True"
| "is_omitted (JOther _ _) = True"
| "is_omitted _ = False"

fun join :: "string \<Rightarrow> string list \<Rightarrow> string" where
  "join sep [] = []"
| "join sep [x] = x"
| "join sep (x # y # xs) = x @ sep @ join sep (y # xs)"

fun stringify :: "jsval \<Rightarrow> string"
  and stringify_elems :: "jsval list \<Rightarrow> string list"
  and stringify_members :: "(string \<times> jsval) list \<Rightarrow> string list" where
  "stringify JUndefined = ''undefined''"
| "stringify JNull = ''null''"
| "stringify (JBool b) = (if b then ''true'' else ''false'')"
| "stringify (JNum n) = show_number n"
| "stringify (JStr s) = quote_string s"
| "stringify (JArr vs) = ''['' @ join '','' (stringify_elems vs) @ '']''"
| "stringify (JObj kvs) = ''{'' @ join '','' (stringify_members kvs) @ ''}''"
| "stringify (JDate d) = (case d of None \<Rightarrow> ''null'' | Some t \<Rightarrow> quote_string (iso_of_ms t))"
| "stringify (JOther t s) = ''undefined''"
| "stringify_elems [] = []"
| "stringify_elems (v # vs) = (if is_omitted v then ''null'' else stringify v) # stringify_elems vs"
| "stringify_members [] = []"
| "stringify_members ((k, v) # kvs) =
     (if is_omitted v then stringify_members kvs
      else (quote_string k @ '':'' @ stringify v) # stringify_members kvs)"

section \<open>JSON values\<close>

text \<open>The literal of a finite number that is not printed as a plain integer.\<close>

definition is_number_char :: "char \<Rightarrow> bool" where
  "is_number_char c \<longleftrightarrow> is_digit c \<or> c \<in> set ''-+.e''"

definition is_decimal_literal :: "string \<Rightarrow> bool" where
  "is_decimal_literal l \<longleftrightarrow>
     l \<noteq> [] \<and> list_all is_number_char l \<and> (CHR ''.'' \<in> set l \<or> CHR ''e'' \<in> set l)"

text \<open>Values of type \<open>JsonValue\<close> with finite numbers.\<close>

fun is_json :: "jsval \<Rightarrow> bool"
  and is_json_elems :: "jsval list \<Rightarrow> bool"
  and is_json_members :: "(string \<times> jsval) list \<Rightarrow> bool" where
  "is_json JUndefined = False"
| "is_json JNull = True"
| "is_json (JBool b) = True"
| "is_json (JNum n) = (case n of NInt _ \<Rightarrow> True | NDec l \<Rightarrow> is_decimal_literal l | _ \<Rightarrow> False)"
| "is_json (JStr s) = True"
| "is_json (JArr vs) = is_json_elems vs"
| "is_json (JObj kvs) = (distinct (map fst kvs) \<and> is_json_members kvs)"
| "is_json (JDate d) = False"
| "is_json (JOther t s) = False"
| "is_json_elems [] = True"
| "is_json_elems (v # vs) = (is_json v \<and> is_json_elems vs)"
| "is_json_members [] = True"
| "is_json_members ((k, v) # kvs) = (is_json v \<and> is_json_members kvs)"

lemma is_json_elems_iff: "is_json_elems vs \<longleftrightarrow> (\<forall>v \<in> set vs. is_json v)"
  by (induction vs) auto

lemma is_json_members_iff: "is_json_members kvs \<longleftrightarrow> (\<forall>kv \<in> set kvs. is_json (snd kv))"
  by (induction kvs) auto

lemma is_json_not_omitted: "is_json v \<Longrightarrow> \<not> is_omitted v"
  by (cases v) auto

section \<open>\<open>JSON.stringify\<close> is injective on JSON values\<close>

lemma code_unit_hex_char: "k < 16 \<Longrightarrow> code_unit (hex_char k) = (if k < 10 then 48 + k else 87 + k)"
  by (simp add: hex_char_def code_unit_def)

lemma hex_char_inject:
  assumes "m < 16" "n < 16"
  shows "hex_char m = hex_char n \<longleftrightarrow> m = n"
proof
  assume "hex_char m = hex_char n"
  then have "code_unit (hex_char m) = code_unit (hex_char n)" by (rule arg_cong)
  then have "(if m < 10 then 48 + m else 87 + m) = (if n < 10 then 48 + n else 87 + n)"
    by (simp only: code_unit_hex_char [OF assms(1)] code_unit_hex_char [OF assms(2)])
  then show "m = n" using assms by (simp split: if_splits)
qed simp

lemma code_unit_inject: "code_unit c = code_unit d \<longleftrightarrow> c = d"
  by (simp add: code_unit_def)

text \<open>The escapes form a prefix code, and none of them starts with a quotation mark.\<close>

lemma quote_char_cases:
  obtains (plain) "quote_char c = [c]" "c \<noteq> DQ" "c \<noteq> BS" "32 \<le> code_unit c"
  | (short) e where "quote_char c = [BS, e]" "e \<noteq> CHR ''u''"
  | (long) "quote_char c = BS # ''u00'' @ [hex_char (code_unit c div 16), hex_char (code_unit c mod 16)]"
      "code_unit c < 32"
proof -
  consider "c \<in> {DQ, BS, CHR 0x08, CHR 0x09, CHR 0x0A, CHR 0x0C, CHR 0x0D}"
    | "c \<notin> {DQ, BS, CHR 0x08, CHR 0x09, CHR 0x0A, CHR 0x0C, CHR 0x0D}" "code_unit c < 32"
    | "c \<notin> {DQ, BS, CHR 0x08, CHR 0x09, CHR 0x0A, CHR 0x0C, CHR 0x0D}" "32 \<le> code_unit c"
    by linarith
  then show thesis
  proof cases
    case 1
    then have "quote_char c = [BS, last (quote_char c)]" "last (quote_char c) \<noteq> CHR ''u''"
      by (auto simp: quote_char_def DQ_def BS_def)
    then show thesis by (rule short)
  next
    case 2
    then show thesis by (intro long) (simp_all add: quote_char_def)
  next
    case 3
    then show thesis by (intro plain) (simp_all add: quote_char_def)
  qed
qed

lemma quote_char_short_inject: "quote_char c = [BS, e] \<Longrightarrow> quote_char d = [BS, e] \<Longrightarrow> c = d"
  by (auto simp: quote_char_def DQ_def BS_def split: if_splits)

lemma hd_quote_char: "quote_char c \<noteq> []" "hd (quote_char c) \<noteq> DQ"
  by (auto simp: quote_char_def DQ_def BS_def)

lemma quote_char_prefix_code:
  assumes "quote_char c @ r = quote_char d @ s"
  shows "c = d \<and> r = s"
proof (cases c rule: quote_char_cases)
  case plain
  with assms show ?thesis by (cases d rule: quote_char_cases) auto
next
  case (short e)
  with assms show ?thesis
    by (cases d rule: quote_char_cases) (auto dest: quote_char_short_inject)
next
  case long
  show ?thesis
  proof (cases d rule: quote_char_cases)
    case long': long
    from assms long(1) long'(1)
    have "hex_char (code_unit c div 16) = hex_char (code_unit d div 16)"
      "hex_char (code_unit c mod 16) = hex_char (code_unit d mod 16)" "r = s" by simp_all
    then have "code_unit c div 16 = code_unit d div 16" "code_unit c mod 16 = code_unit d mod 16"
      using long(2) long'(2) by (simp_all add: hex_char_inject)
    then have "code_unit c = code_unit d" by (metis div_mult_mod_eq)
    with \<open>r = s\<close> show ?thesis by (simp add: code_unit_inject)
  qed (use assms long in auto)
qed

lemma quote_chars_prefix_code:
  "concat (map quote_char s) @ DQ # r = concat (map quote_char t) @ DQ # r' \<Longrightarrow> s = t \<and> r = r'"
proof (induction s arbitrary: t)
  case Nil
  then show ?case
  proof (cases t)
    case (Cons d t')
    with Nil show ?thesis using hd_quote_char [of d] by (cases "quote_char d") auto
  qed simp
next
  case (Cons c s)
  show ?case
  proof (cases t)
    case Nil
    with Cons.prems show ?thesis using hd_quote_char [of c] by (cases "quote_char c") auto
  next
    case (Cons d t')
    with Cons.prems have "quote_char c @ (concat (map quote_char s) @ DQ # r)
        = quote_char d @ (concat (map quote_char t') @ DQ # r')" by simp
    from quote_char_prefix_code [OF this] Cons.IH [of t'] Cons show ?thesis by simp
  qed
qed

lemma quote_string_inject: "quote_string s @ r = quote_string t @ r' \<Longrightarrow> s = t \<and> r = r'"
  using quote_chars_prefix_code [of s r t r'] by (simp add: quote_string_def)

text \<open>Number tokens: maximal runs of number characters.\<close>

definition delimited :: "string \<Rightarrow> bool" where
  "delimited r \<longleftrightarrow> r = [] \<or> \<not> is_number_char (hd r)"

lemma number_run_inject:
  assumes "list_all is_number_char a" "list_all is_number_char b" "delimited r" "delimited s" "a @ r = b @ s"
  shows "a = b \<and> r = s"
proof -
  have "takeWhile is_number_char (a @ r) = a" "takeWhile is_number_char (b @ s) = b"
    using assms(1-4) by (auto simp: delimited_def list_all_iff takeWhile_append2 takeWhile_eq_Nil_iff)
  with assms(5) show ?thesis by auto
qed

lemma show_int_number_chars: "list_all is_number_char (show_int i)" "show_int i \<noteq> []"
  using show_nat_digits [of "nat i"] show_nat_digits [of "nat (- i)"]
  by (auto simp: show_int_def is_number_char_def list_all_iff)

lemma show_nat_no_minus: "show_nat n \<noteq> CHR ''-'' # s"
proof
  assume "show_nat n = CHR ''-'' # s"
  with show_nat_digits [of n] have "is_digit (CHR ''-'')" by simp
  then show False by (simp add: is_digit_code_unit code_unit_def)
qed

lemma show_int_inject: "show_int i = show_int j \<longleftrightarrow> i = j"
  using show_nat_no_minus by (auto simp: show_int_def show_nat_inject split: if_splits)
    (metis show_nat_no_minus)+

lemma show_int_not_decimal: "\<not> is_decimal_literal (show_int i)"
proof -
  have "c \<in> set (show_int i) \<Longrightarrow> is_digit c \<or> c = CHR ''-''" for c
    using show_nat_digits [of "nat i"] show_nat_digits [of "nat (- i)"]
    by (auto simp: show_int_def list_all_iff split: if_splits)
  from this [of "CHR ''.''"] this [of "CHR ''e''"] show ?thesis
    by (auto simp: is_decimal_literal_def is_digit_code_unit code_unit_def)
qed


lemma show_number_chars:
  "is_json (JNum n) \<Longrightarrow> list_all is_number_char (show_number n) \<and> show_number n \<noteq> []"
  by (auto simp: show_number_def show_int_number_chars is_decimal_literal_def split: jsnumber.splits)

lemma show_number_inject:
  "is_json (JNum m) \<Longrightarrow> is_json (JNum n) \<Longrightarrow> show_number m = show_number n \<Longrightarrow> m = n"
  using show_int_not_decimal
  by (auto simp: show_number_def show_int_inject split: jsnumber.splits)

text \<open>The first character of a text tells the kind of value it starts with.\<close>

fun text_kind :: "jsval \<Rightarrow> nat" where
  "text_kind JNull = 0"
| "text_kind (JBool b) = (if b then 1 else 2)"
| "text_kind (JNum n) = 3"
| "text_kind (JStr s) = 4"
| "text_kind (JArr vs) = 5"
| "text_kind (JObj kvs) = 6"
| "text_kind _ = 7"

definition kind_of_char :: "char \<Rightarrow> nat" where
  "kind_of_char c =
     (if is_number_char c then 3 else if c = CHR ''n'' then 0 else if c = CHR ''t'' then 1
      else if c = CHR ''f'' then 2 else if c = DQ then 4 else if c = CHR ''['' then 5
      else if c = CHR ''{'' then 6 else 8)"

lemma not_number_chars [simp]:
  "\<not> is_number_char (CHR ''n'')" "\<not> is_number_char (CHR ''t'')" "\<not> is_number_char (CHR ''f'')"
  "\<not> is_number_char DQ" "\<not> is_number_char (CHR ''['')" "\<not> is_number_char (CHR ''{'')"
  "\<not> is_number_char (CHR '']'')" "\<not> is_number_char (CHR ''}'')" "\<not> is_number_char (CHR '','')"
  by (simp_all add: is_number_char_def is_digit_code_unit code_unit_def DQ_def)

lemma DQ_neq:
  "DQ \<noteq> CHR ''n''" "DQ \<noteq> CHR ''t''" "DQ \<noteq> CHR ''f''" "DQ \<noteq> CHR ''}''"
  "CHR ''['' \<noteq> DQ" "CHR ''{'' \<noteq> DQ" "CHR ''}'' \<noteq> DQ"
  by (simp_all add: DQ_def)

lemma delimited_simps [simp]:
  "delimited []" "delimited (CHR '']'' # r)" "delimited (CHR ''}'' # r)" "delimited (CHR '','' # r)"
  by (simp_all add: delimited_def)

lemma stringify_hd:
  assumes "is_json v"
  shows "stringify v \<noteq> []" "kind_of_char (hd (stringify v)) = text_kind v"
proof -
  have "stringify v \<noteq> [] \<and> kind_of_char (hd (stringify v)) = text_kind v"
  proof (cases v)
    case (JNum n)
    with assms show_number_chars [of n] show ?thesis
      by (cases "show_number n") (auto simp: kind_of_char_def)
  qed (use assms in \<open>auto simp: kind_of_char_def quote_string_def DQ_neq\<close>)
  then show "stringify v \<noteq> []" "kind_of_char (hd (stringify v)) = text_kind v" by auto
qed

lemma stringify_same_kind:
  assumes "is_json v" "is_json w" "stringify v @ r = stringify w @ s"
  shows "text_kind v = text_kind w"
  using assms stringify_hd [of v] stringify_hd [of w] by (metis hd_append2)

lemma kind_of_close [simp]:
  "kind_of_char (CHR '']'') = 8" "kind_of_char (CHR ''}'') = 8"
  by (simp_all add: kind_of_char_def DQ_def)

lemma join_Cons: "join sep (x # xs) = x @ (if xs = [] then [] else sep @ join sep xs)"
  by (cases xs) auto

lemma stringify_elems_Nil_iff [simp]: "stringify_elems vs = [] \<longleftrightarrow> vs = []"
  by (cases vs) auto

lemma stringify_members_Nil_iff [simp]:
  "is_json_members kvs \<Longrightarrow> stringify_members kvs = [] \<longleftrightarrow> kvs = []"
  by (cases kvs) (auto simp: is_json_not_omitted)

lemma stringify_not_close:
  assumes "is_json v"
  shows "stringify v @ r \<noteq> CHR '']'' # s"
proof
  assume "stringify v @ r = CHR '']'' # s"
  with stringify_hd [OF assms] have "text_kind v = 8" by (metis hd_append2 kind_of_close(1) list.sel(1))
  then show False by (cases v) (auto split: if_splits)
qed

lemma stringify_unique:
  shows "\<And>w r s. is_json v \<Longrightarrow> is_json w \<Longrightarrow> delimited r \<Longrightarrow> delimited s \<Longrightarrow>
      stringify v @ r = stringify w @ s \<Longrightarrow> v = w \<and> r = s"
    and "\<And>ws r s. is_json_elems vs \<Longrightarrow> is_json_elems ws \<Longrightarrow>
      join '','' (stringify_elems vs) @ CHR '']'' # r = join '','' (stringify_elems ws) @ CHR '']'' # s \<Longrightarrow>
      vs = ws \<and> r = s"
    and "\<And>lws r s. is_json_members kvs \<Longrightarrow> is_json_members lws \<Longrightarrow>
      join '','' (stringify_members kvs) @ CHR ''}'' # r = join '','' (stringify_members lws) @ CHR ''}'' # s \<Longrightarrow>
      kvs = lws \<and> r = s"
proof (induction v and vs and kvs rule: stringify_stringify_elems_stringify_members.induct)
  case 2
  from stringify_same_kind [OF 2(1,2,5)] have "w = JNull" by (cases w) (auto split: if_splits)
  with 2(5) show ?case by simp
next
  case (3 b)
  from stringify_same_kind [OF 3(1,2,5)] have "w = JBool b" by (cases w) (auto split: if_splits)
  with 3(5) show ?case by (simp split: if_splits)
next
  case (4 n)
  from stringify_same_kind [OF 4(1,2,5)] obtain m where w: "w = JNum m" by (cases w) (auto split: if_splits)
  with 4 show ?case
    using number_run_inject [of "show_number n" "show_number m" r s] show_number_inject [of n m]
      show_number_chars [of n] show_number_chars [of m] by auto
next
  case (5 t)
  from stringify_same_kind [OF 5(1,2,5)] obtain u where w: "w = JStr u" by (cases w) (auto split: if_splits)
  with 5 show ?case using quote_string_inject [of t r u s] by simp
next
  case (6 vs)
  from stringify_same_kind [OF 6(2,3,6)] obtain us where w: "w = JArr us" by (cases w) (auto split: if_splits)
  with 6(2,3,6) show ?case using 6(1) [of us r s] by simp
next
  case (7 kvs)
  from stringify_same_kind [OF 7(2,3,6)] obtain us where w: "w = JObj us" by (cases w) (auto split: if_splits)
  with 7(2,3,6) show ?case using 7(1) [of us r s] by simp
next
  case 10
  show ?case
  proof (cases ws)
    case (Cons w ws')
    with 10(2) have "is_json w" by simp
    then obtain x where "join '','' (stringify_elems ws) = stringify w @ x"
      using Cons by (simp add: join_Cons is_json_not_omitted)
    with 10(3) stringify_not_close [OF \<open>is_json w\<close>, of "x @ CHR '']'' # s" r] show ?thesis by simp
  qed (use 10 in simp)
next
  case (11 v vs)
  show ?case
  proof (cases ws)
    case Nil
    with 11(3,5) stringify_not_close [of v] show ?thesis
      by (simp add: join_Cons is_json_not_omitted)
  next
    case (Cons w ws')
    let ?r = "if vs = [] then CHR '']'' # r else CHR '','' # join '','' (stringify_elems vs) @ CHR '']'' # r"
    let ?s = "if ws' = [] then CHR '']'' # s else CHR '','' # join '','' (stringify_elems ws') @ CHR '']'' # s"
    have j: "is_json v" "is_json w" "is_json_elems vs" "is_json_elems ws'"
      using 11(3,4) Cons by simp_all
    have "stringify v @ ?r = stringify w @ ?s"
      using 11(5) Cons j by (simp add: join_Cons is_json_not_omitted split: if_splits)
    then have "v = w \<and> ?r = ?s"
      using is_json_not_omitted [OF j(1)] j by (intro 11(1)) (simp_all add: delimited_simps)
    moreover have "vs = ws' \<and> r = s" if "?r = ?s"
      using that 11(2) [of ws' r s] j by (auto split: if_splits)
    ultimately show ?thesis using Cons by simp
  qed
next
  case 12
  then show ?case by (cases lws) (auto simp: join_Cons is_json_not_omitted quote_string_def DQ_neq dest: sym)
next
  case (13 k v kvs)
  show ?case
  proof (cases lws)
    case Nil
    with 13(4,6) show ?thesis by (simp add: join_Cons is_json_not_omitted quote_string_def DQ_neq)
  next
    case (Cons lw lws')
    obtain l w where lw: "lw = (l, w)" by (cases lw)
    let ?r = "if kvs = [] then CHR ''}'' # r else CHR '','' # join '','' (stringify_members kvs) @ CHR ''}'' # r"
    let ?s = "if lws' = [] then CHR ''}'' # s else CHR '','' # join '','' (stringify_members lws') @ CHR ''}'' # s"
    have j: "is_json v" "is_json w" "is_json_members kvs" "is_json_members lws'"
      using 13(4,5) Cons lw by simp_all
    have "quote_string k @ CHR '':'' # stringify v @ ?r = quote_string l @ CHR '':'' # stringify w @ ?s"
      using 13(6) Cons lw j by (simp add: join_Cons is_json_not_omitted split: if_splits)
    from quote_string_inject [OF this] have "k = l" "stringify v @ ?r = stringify w @ ?s" by simp_all
    then have "v = w \<and> ?r = ?s"
      using is_json_not_omitted [OF j(1)] j by (intro 13(2)) (simp_all add: delimited_simps)
    moreover have "kvs = lws' \<and> r = s" if "?r = ?s"
      using that 13(3) [of lws' r s] is_json_not_omitted [OF j(1)] j by (auto split: if_splits)
    ultimately show ?thesis using Cons lw \<open>k = l\<close> by simp
  qed
qed simp_all

lemma stringify_inject: "is_json v \<Longrightarrow> is_json w \<Longrightarrow> stringify v = stringify w \<Longrightarrow> v = w"
  using stringify_unique (1) [of v w "[]" "[]"] by simp

end
