(* ===== verification/Canonical.thy ===== *)
theory Canonical
  imports JsValue "HOL-Library.Multiset"
begin

text \<open>
  The canonical JSON layer of \<^verbatim>\<open>sdks/typescript/src/index.ts\<close>: \<open>normalizeForJson\<close>
  and \<open>canonicalJson\<close>, on which every hash of the protocol is computed, and the metadata
  redaction \<open>redactMetadata\<close>, \<open>redactAny\<close>, \<open>sanitizeDigestEnvelope\<close>.

  Shown here: the normal form is a JSON value and normalisation is idempotent; the text
  does not depend on the order of properties and determines the normal form; redaction
  leaves no sensitive key with an unprotected value and its output is its own normal form.
\<close>

section \<open>Canonical JSON\<close>

definition null_if_undefined :: "jsval \<Rightarrow> jsval" where
  "null_if_undefined v = (if v = JUndefined then JNull else v)"

text \<open>
  \<open>normalize_elems\<close> and \<open>normalize_members\<close> are the recursive calls on the elements of an
  array and on the property values of an object; the object case runs them in sorted key
  order, so that the first error in that order is the one thrown.
\<close>

definition in_key_order :: "(string \<times> 'a throws) list \<Rightarrow> (string \<times> 'a) list throws" where
  "in_key_order kms =
     collect (map (\<lambda>(k, m). andThen m (\<lambda>v. Inr (k, v))) (sort_key fst kms))"

fun normalizeForJson :: "jsval \<Rightarrow> jsval throws"
  and normalize_elems :: "jsval list \<Rightarrow> jsval throws list"
  and normalize_members :: "(string \<times> jsval) list \<Rightarrow> (string \<times> jsval throws) list" where
  "normalizeForJson JUndefined = Inr JUndefined"
| "normalizeForJson JNull = Inr JNull"
| "normalizeForJson (JStr s) = Inr (JStr s)"
| "normalizeForJson (JBool b) = Inr (JBool b)"
| "normalizeForJson (JNum n) =
     (if is_finite_number n then Inr (JNum n) else Inl (TypeError ''JSON numbers must be finite''))"
| "normalizeForJson (JArr vs) =
     andThen (collect (normalize_elems vs)) (\<lambda>ws. Inr (JArr (map null_if_undefined ws)))"
| "normalizeForJson (JDate d) = andThen (toISOString d) (\<lambda>s. Inr (JStr s))"
| "normalizeForJson (JObj kvs) =
     andThen (in_key_order (normalize_members kvs))
       (\<lambda>kws. Inr (JObj (assign_all (filter (\<lambda>kw. snd kw \<noteq> JUndefined) kws))))"
| "normalizeForJson (JOther t s) = Inl (TypeError (''unsupported JSON value type: '' @ t))"
| "normalize_elems [] = []"
| "normalize_elems (v # vs) = normalizeForJson v # normalize_elems vs"
| "normalize_members [] = []"
| "normalize_members ((k, v) # kvs) = (k, normalizeForJson v) # normalize_members kvs"

text \<open>
  \<open>JSON.stringify(undefined)\<close> is \<open>undefined\<close>, not a text. Every caller in the sources
  passes an object, so the case is an error value here.
\<close>

definition canonicalJson :: "jsval \<Rightarrow> string throws" where
  "canonicalJson v =
     andThen (normalizeForJson v)
       (\<lambda>w. if w = JUndefined then Inl (TypeError ''undefined has no JSON text'') else Inr (stringify w))"

section \<open>Redaction of metadata\<close>

fun contains :: "string \<Rightarrow> string \<Rightarrow> bool" where
  "contains w [] = (w = [])"
| "contains w (c # s) = (prefix w (c # s) \<or> contains w s)"

definition sensitive_words :: "string list" where
  "sensitive_words =
     [''password'', ''secret'', ''token'', ''apikey'', ''api_key'', ''api-key'',
      ''authorization'', ''email'', ''phone'', ''ssn'']"

text \<open>\<open>SENSITIVE_KEY_PATTERN.test(key)\<close>\<close>

definition sensitive_key :: "string \<Rightarrow> bool" where
  "sensitive_key k \<longleftrightarrow> (let l = map to_lower k in list_ex (\<lambda>w. contains w l) sensitive_words)"

definition capture_modes :: "string list" where
  "capture_modes = [''content_digest'', ''randomized_digest'', ''reference'', ''redact'', ''encrypt'']"

fun sanitizeDigestEnvelope :: "jsval \<Rightarrow> jsval option" where
  "sanitizeDigestEnvelope (JObj envelope) =
     (case get_prop envelope ''digest'' of
        JStr digest \<Rightarrow>
          if \<not> is_sha256_digest digest then None
          else if has_own envelope ''canonicalization'' \<or> has_own envelope ''schemaRef''
            \<or> has_own envelope ''fieldSetRef'' \<or> has_own envelope ''fields'' then None
          else if get_prop envelope ''algorithm'' = JStr ''hmac-sha256'' then
            (case get_prop envelope ''keyVersion'' of
               JStr kv \<Rightarrow>
                 if \<not> blank kv
                 then Some (JObj [(''algorithm'', JStr ''hmac-sha256''), (''digest'', JStr digest),
                                  (''keyVersion'', JStr kv)])
                 else None
             | _ \<Rightarrow> None)
          else if get_prop envelope ''algorithm'' = JStr ''sha256'' then
            Some (JObj [(''algorithm'', JStr ''sha256''), (''digest'', JStr digest)])
          else
            (case get_prop envelope ''captureMode'' of
               JStr m \<Rightarrow>
                 if m \<in> set capture_modes
                 then Some (JObj [(''captureMode'', JStr m), (''digest'', JStr digest)])
                 else None
             | _ \<Rightarrow> None)
      | _ \<Rightarrow> None)"
| "sanitizeDigestEnvelope _ = None"

definition redacted :: jsval where
  "redacted = JStr ''[redacted]''"

fun redactAny :: "jsval \<Rightarrow> string \<Rightarrow> jsval throws"
  and redact_elems :: "jsval list \<Rightarrow> string \<Rightarrow> jsval throws list"
  and redact_members :: "(string \<times> jsval) list \<Rightarrow> (string \<times> jsval throws) list" where
  "redactAny value key =
     (if sensitive_key key then
        (case sanitizeDigestEnvelope value of Some envelope \<Rightarrow> Inr envelope | None \<Rightarrow> Inr redacted)
      else
        (case value of
           JUndefined \<Rightarrow> Inr JNull
         | JNull \<Rightarrow> Inr JNull
         | JStr s \<Rightarrow> Inr (JStr s)
         | JBool b \<Rightarrow> Inr (JBool b)
         | JNum n \<Rightarrow>
             if is_finite_number n then Inr (JNum n) else Inl (TypeError ''metadata numbers must be finite'')
         | JArr vs \<Rightarrow> andThen (collect (redact_elems vs key)) (\<lambda>ws. Inr (JArr ws))
         | JDate d \<Rightarrow> andThen (toISOString d) (\<lambda>s. Inr (JStr s))
         | JObj kvs \<Rightarrow>
             (case sanitizeDigestEnvelope (JObj kvs) of
                Some envelope \<Rightarrow> Inr envelope
              | None \<Rightarrow> andThen (in_key_order (redact_members kvs)) (\<lambda>kws. Inr (JObj (assign_all kws))))
         | JOther t s \<Rightarrow> Inr (JStr s)))"
| "redact_elems [] key = []"
| "redact_elems (v # vs) key = redactAny v key # redact_elems vs key"
| "redact_members [] = []"
| "redact_members ((k, v) # kvs) =
     (if v = JUndefined then redact_members kvs else (k, redactAny v k) # redact_members kvs)"

definition redactMetadata :: "(string \<times> jsval) list \<Rightarrow> jsval throws" where
  "redactMetadata value = redactAny (JObj value) []"

section \<open>Basic facts\<close>

lemma sort_key_fst_map:
  assumes "\<And>x. fst (g x) = fst x"
  shows "sort_key fst (map g xs) = map g (sort_key fst xs)"
proof -
  have i: "insort_key fst (g x) (map g ys) = map g (insort_key fst x ys)" for x ys
    by (induction ys) (auto simp: assms)
  show ?thesis by (induction xs) (simp_all add: i)
qed

lemma normalize_elems_map: "normalize_elems vs = map normalizeForJson vs"
  by (induction vs) simp_all

lemma normalize_members_map: "normalize_members kvs = map (\<lambda>(k, v). (k, normalizeForJson v)) kvs"
  by (induction kvs) auto

lemma collect_map_iff:
  "collect (map f xs) = Inr ys \<longleftrightarrow> list_all2 (\<lambda>x y. f x = Inr y) xs ys"
proof (induction xs arbitrary: ys)
  case Nil
  then show ?case by auto
next
  case (Cons x xs)
  show ?case
    by (cases ys) (auto simp: andThen_Inr_iff Cons.IH)
qed

lemma list_all2_source: "list_all2 P xs ys \<Longrightarrow> y \<in> set ys \<Longrightarrow> \<exists>x \<in> set xs. P x y"
  by (induction rule: list_all2_induct) auto

definition member_results :: "(jsval \<Rightarrow> jsval throws) \<Rightarrow> (string \<times> jsval) list \<Rightarrow> (string \<times> jsval) list \<Rightarrow> bool" where
  "member_results f kvs kws \<longleftrightarrow> list_all2 (\<lambda>kv kw. fst kv = fst kw \<and> f (snd kv) = Inr (snd kw)) kvs kws"

lemma in_key_order_map:
  "in_key_order (map (\<lambda>(k, v). (k, f v)) kvs) = Inr kws \<longleftrightarrow> member_results f (sort_key fst kvs) kws"
proof -
  have "sort_key fst (map (\<lambda>(k, v). (k, f v)) kvs) = map (\<lambda>(k, v). (k, f v)) (sort_key fst kvs)"
    by (rule sort_key_fst_map) auto
  then show ?thesis
    by (auto simp: in_key_order_def collect_map_iff member_results_def list.rel_map andThen_Inr_iff
        elim!: list_all2_mono)
qed

lemma normalize_object_iff:
  "normalizeForJson (JObj kvs) = Inr w \<longleftrightarrow>
     (\<exists>kws. member_results normalizeForJson (sort_key fst kvs) kws \<and>
        w = JObj (assign_all (filter (\<lambda>kw. snd kw \<noteq> JUndefined) kws)))"
  by (auto simp: normalize_members_map andThen_Inr_iff in_key_order_map)

lemma normalize_array_iff:
  "normalizeForJson (JArr vs) = Inr w \<longleftrightarrow>
     (\<exists>ws. list_all2 (\<lambda>v x. normalizeForJson v = Inr x) vs ws \<and> w = JArr (map null_if_undefined ws))"
  by (auto simp: normalize_elems_map andThen_Inr_iff collect_map_iff)

lemma member_results_keys: "member_results f kvs kws \<Longrightarrow> map fst kws = map fst kvs"
  unfolding member_results_def by (induction rule: list_all2_induct) auto

lemma member_results_set:
  "member_results f kvs kws \<Longrightarrow> kw \<in> set kws \<Longrightarrow> \<exists>v. (fst kw, v) \<in> set kvs \<and> f v = Inr (snd kw)"
  unfolding member_results_def by (induction rule: list_all2_induct) auto

section \<open>The normal form\<close>

text \<open>Values as programs build them: distinct keys, literals of finite numbers.\<close>

fun wf_value :: "jsval \<Rightarrow> bool"
  and wf_elems :: "jsval list \<Rightarrow> bool"
  and wf_members :: "(string \<times> jsval) list \<Rightarrow> bool" where
  "wf_value (JNum n) = (case n of NDec l \<Rightarrow> is_decimal_literal l | _ \<Rightarrow> True)"
| "wf_value (JArr vs) = wf_elems vs"
| "wf_value (JObj kvs) = (distinct (map fst kvs) \<and> wf_members kvs)"
| "wf_value _ = True"
| "wf_elems [] = True"
| "wf_elems (v # vs) = (wf_value v \<and> wf_elems vs)"
| "wf_members [] = True"
| "wf_members ((k, v) # kvs) = (wf_value v \<and> wf_members kvs)"

lemma wf_elems_iff: "wf_elems vs \<longleftrightarrow> (\<forall>v \<in> set vs. wf_value v)"
  by (induction vs) auto

lemma wf_members_iff: "wf_members kvs \<longleftrightarrow> (\<forall>kv \<in> set kvs. wf_value (snd kv))"
  by (induction kvs) auto

lemma is_json_wf: 
   "is_json v \<Longrightarrow> wf_value v" "is_json_elems vs \<Longrightarrow> wf_elems vs" "is_json_members kvs \<Longrightarrow> wf_members kvs"
  by (induction v and vs and kvs rule: is_json_is_json_elems_is_json_members.induct)
    (auto split: jsnumber.splits)

text \<open>Induction over values with membership premises.\<close>

lemma jsval_induct [case_names Undefined Null Bool Num Str Arr Obj Date Other]:
  assumes "P JUndefined" "P JNull" "\<And>b. P (JBool b)" "\<And>n. P (JNum n)" "\<And>s. P (JStr s)"
    and "\<And>vs. (\<And>v. v \<in> set vs \<Longrightarrow> P v) \<Longrightarrow> P (JArr vs)"
    and "\<And>kvs. (\<And>k v. (k, v) \<in> set kvs \<Longrightarrow> P v) \<Longrightarrow> P (JObj kvs)"
    and "\<And>d. P (JDate d)" "\<And>t s. P (JOther t s)"
  shows "P v"
  by (induction v) (use assms in \<open>auto\<close>)

lemma normalize_is_json:
  assumes "wf_value v" "normalizeForJson v = Inr w" "w \<noteq> JUndefined"
  shows "is_json w"
  using assms
proof (induction v arbitrary: w rule: jsval_induct)
  case (Num n)
  then show ?case by (cases n) (auto simp: is_finite_number_def split: if_splits)
next
  case (Arr vs)
  from Arr.prems(2) obtain ws where ws: "list_all2 (\<lambda>v x. normalizeForJson v = Inr x) vs ws"
    and w: "w = JArr (map null_if_undefined ws)" unfolding normalize_array_iff by blast
  have "is_json (null_if_undefined x)" if "x \<in> set ws" for x
  proof -
    from list_all2_source [OF ws that] obtain v where "v \<in> set vs" "normalizeForJson v = Inr x" by blast
    with Arr.IH [of v x] Arr.prems(1) show ?thesis
      by (auto simp: null_if_undefined_def wf_elems_iff)
  qed
  with w show ?case by (simp add: is_json_elems_iff)
next
  case (Obj kvs)
  from Obj.prems(2) obtain kws where kws: "member_results normalizeForJson (sort_key fst kvs) kws"
    and w: "w = JObj (assign_all (filter (\<lambda>kw. snd kw \<noteq> JUndefined) kws))"
    unfolding normalize_object_iff by blast
  from member_results_keys [OF kws] Obj.prems(1) have "distinct (map fst kws)"
    by (simp add: distinct_map inj_on_def)
  then have "distinct (map fst (assign_all (filter (\<lambda>kw. snd kw \<noteq> JUndefined) kws)))"
    by (simp add: distinct_assign_all distinct_map_filter)
  moreover have "is_json (snd kw)" if "kw \<in> set kws" "snd kw \<noteq> JUndefined" for kw
  proof -
    from member_results_set [OF kws that(1)] obtain v where "(fst kw, v) \<in> set kvs" "normalizeForJson v = Inr (snd kw)"
      by auto
    with Obj.IH [of "fst kw" v "snd kw"] Obj.prems(1) that(2) show ?thesis by (auto simp: wf_members_iff)
  qed
  ultimately show ?case using w by (auto simp: is_json_members_iff set_assign_all)
qed (auto simp: andThen_Inr_iff)

lemma canonicalJson_InrE:
  assumes "canonicalJson v = Inr t"
  obtains w where "normalizeForJson v = Inr w" "w \<noteq> JUndefined" "t = stringify w"
  using assms by (auto simp: canonicalJson_def split: if_splits)

lemma canonicalJson_determines:
  assumes "wf_value v" "wf_value w" "canonicalJson v = Inr t" "canonicalJson w = Inr t"
  shows "normalizeForJson v = normalizeForJson w"
proof -
  from assms(3) obtain a where a: "normalizeForJson v = Inr a" "a \<noteq> JUndefined" "t = stringify a"
    by (rule canonicalJson_InrE)
  from assms(4) obtain b where b: "normalizeForJson w = Inr b" "b \<noteq> JUndefined" "t = stringify b"
    by (rule canonicalJson_InrE)
  have "a = b"
    using normalize_is_json [OF assms(1) a(1,2)] normalize_is_json [OF assms(2) b(1,2)] a(3) b(3)
    by (auto intro: stringify_inject)
  with a b show ?thesis by simp
qed

lemma canonicalJson_eq_normal:
  "normalizeForJson v = normalizeForJson w \<Longrightarrow> canonicalJson v = canonicalJson w"
  by (simp add: canonicalJson_def)

section \<open>Property order and idempotence\<close>

lemma sort_key_fst_unique:
  assumes "distinct (map fst kvs)" "mset kvs = mset kvs'"
  shows "sort_key fst kvs = sort_key fst kvs'"
proof (rule sorted_wrt_distinct_keys_unique)
  have "distinct (map fst kvs')" using assms by (metis mset_map mset_eq_imp_distinct_iff)
  then show "distinct (map fst (sort_key fst kvs'))" "distinct (map fst (sort_key fst kvs))"
    using assms(1) by (auto simp: distinct_map inj_on_def)
  show "set (sort_key fst kvs) = set (sort_key fst kvs')" using assms(2) by (metis set_mset_mset set_sort)
qed simp_all

lemma normalize_member_order:
  assumes "distinct (map fst kvs)" "mset kvs = mset kvs'"
  shows "normalizeForJson (JObj kvs) = normalizeForJson (JObj kvs')"
proof -
  let ?g = "\<lambda>(k, v). (k, normalizeForJson v)"
  have "sort_key fst (map ?g kvs) = sort_key fst (map ?g kvs')"
    using sort_key_fst_unique [OF assms]
    by (subst (1 2) sort_key_fst_map) auto
  then show ?thesis by (simp add: normalize_members_map in_key_order_def)
qed

lemma sort_own_key_order:
  assumes "sorted (map fst kvs)" "distinct (map fst kvs)"
  shows "sort_key fst (own_key_order kvs) = kvs"
proof -
  have "mset (own_key_order kvs) = mset kvs"
    by (simp add: own_key_order_def)
  then have "sort_key fst (own_key_order kvs) = sort_key fst kvs"
    using assms(2) by (intro sort_key_fst_unique) (auto intro: distinct_own_key_order)
  also have "\<dots> = kvs" using assms(1) by (simp add: sorted_sort_id sort_key_id_if_sorted)
  finally show ?thesis .
qed

lemma assign_all_sort_assign_all:
  assumes "sorted (map fst kvs)" "distinct (map fst kvs)"
  shows "assign_all (sort_key fst (assign_all kvs)) = assign_all kvs"
proof -
  let ?f = "filter (\<lambda>kv. fst kv \<noteq> proto_key) kvs"
  have "sorted (map fst ?f)" "distinct (map fst ?f)"
    using assms by (auto simp: sorted_filter distinct_map_filter)
  then show ?thesis by (simp add: assign_all_def sort_own_key_order)
qed

lemma member_results_id:
  "(\<And>kv. kv \<in> set kvs \<Longrightarrow> f (snd kv) = Inr (snd kv)) \<Longrightarrow> member_results f kvs kws \<longleftrightarrow> kws = kvs"
proof (induction kvs arbitrary: kws)
  case Nil
  then show ?case by (auto simp: member_results_def)
next
  case (Cons kv kvs)
  show ?case
  proof (cases kws)
    case (Cons kw kws')
    with Cons.IH [of kws'] Cons.prems show ?thesis
      by (auto simp: member_results_def prod_eq_iff)
  qed (auto simp: member_results_def)
qed

lemma normalize_idempotent:
  assumes "wf_value v" "normalizeForJson v = Inr w"
  shows "normalizeForJson w = Inr w"
  using assms
proof (induction v arbitrary: w rule: jsval_induct)
  case (Arr vs)
  from Arr.prems(2) obtain ws where ws: "list_all2 (\<lambda>v x. normalizeForJson v = Inr x) vs ws"
    and w: "w = JArr (map null_if_undefined ws)" unfolding normalize_array_iff by blast
  have "normalizeForJson (null_if_undefined x) = Inr (null_if_undefined x) \<and> null_if_undefined x \<noteq> JUndefined"
    if "x \<in> set ws" for x
  proof -
    from list_all2_source [OF ws that] obtain v where "v \<in> set vs" "normalizeForJson v = Inr x" by blast
    with Arr.IH [of v x] Arr.prems(1) show ?thesis by (auto simp: null_if_undefined_def wf_elems_iff)
  qed
  then have "list_all2 (\<lambda>v x. normalizeForJson v = Inr x) (map null_if_undefined ws) (map null_if_undefined ws)"
    and "map null_if_undefined (map null_if_undefined ws) = map null_if_undefined ws"
    by (auto simp: list.rel_map list_all2_same) (simp add: null_if_undefined_def)
  then show ?case unfolding w normalize_array_iff by metis
next
  case (Obj kvs)
  from Obj.prems(2) obtain kws where kws: "member_results normalizeForJson (sort_key fst kvs) kws"
    and w: "w = JObj (assign_all (filter (\<lambda>kw. snd kw \<noteq> JUndefined) kws))"
    unfolding normalize_object_iff by blast
  let ?f = "filter (\<lambda>kw. snd kw \<noteq> JUndefined) kws"
  have "distinct (map fst (sort_key fst kvs))" using Obj.prems(1) by (auto simp: distinct_map inj_on_def)
  with member_results_keys [OF kws] have k: "sorted (map fst kws)" "distinct (map fst kws)" by simp_all
  then have f: "sorted (map fst ?f)" "distinct (map fst ?f)"
    by (auto simp: sorted_filter distinct_map_filter)
  have id: "normalizeForJson (snd kw) = Inr (snd kw)" if "kw \<in> set kws" for kw
  proof -
    from member_results_set [OF kws that] obtain v where
      "(fst kw, v) \<in> set kvs" "normalizeForJson v = Inr (snd kw)" by auto
    with Obj.IH [of "fst kw" v "snd kw"] Obj.prems(1) show ?thesis by (auto simp: wf_members_iff)
  qed
  have "member_results normalizeForJson (sort_key fst (assign_all ?f)) (sort_key fst (assign_all ?f))"
    by (subst member_results_id) (auto simp: set_assign_all intro: id)
  moreover have "filter (\<lambda>kw. snd kw \<noteq> JUndefined) (sort_key fst (assign_all ?f)) = sort_key fst (assign_all ?f)"
    by (auto simp: filter_id_conv set_assign_all)
  ultimately show ?case
    unfolding w normalize_object_iff using assign_all_sort_assign_all [OF f] by metis
qed (auto simp: andThen_Inr_iff split: if_splits)

section \<open>Redaction lemmas\<close>

declare redactAny.simps [simp del]

lemma redact_elems_map: "redact_elems vs key = map (\<lambda>v. redactAny v key) vs"
  by (induction vs) simp_all

lemma redact_members_map:
  "redact_members kvs = map (\<lambda>(k, v). (k, redactAny v k)) (filter (\<lambda>kv. snd kv \<noteq> JUndefined) kvs)"
  by (induction kvs) auto

lemma in_key_order_InrD:
  assumes "in_key_order kms = Inr kws"
  shows "map (\<lambda>(k, v). (k, Inr v)) kws = sort_key fst kms"
proof -
  from assms have "list_all2 (\<lambda>km kw. km = (fst kw, Inr (snd kw))) (sort_key fst kms) kws"
    by (auto simp: in_key_order_def collect_map_iff andThen_Inr_iff elim!: list_all2_mono)
  then show ?thesis by (induction rule: list_all2_induct) auto
qed

lemma in_key_order_facts:
  assumes "in_key_order kms = Inr kws"
  shows "sorted (map fst kws)" "set (map fst kws) = set (map fst kms)"
    and "distinct (map fst kms) \<Longrightarrow> distinct (map fst kws)"
    and "kw \<in> set kws \<Longrightarrow> (fst kw, Inr (snd kw)) \<in> set kms"
proof -
  let ?g = "\<lambda>(k, v). (k, Inr v :: js_error + _)"
  note e = in_key_order_InrD [OF assms]
  have m: "map fst kws = map fst (sort_key fst kms)"
    by (simp add: e [symmetric]) (simp add: case_prod_unfold comp_def)
  then show "sorted (map fst kws)" by simp
  from m show "set (map fst kws) = set (map fst kms)" by (metis set_map set_sort)
  show "distinct (map fst kws)" if "distinct (map fst kms)"
    using that by (simp add: m distinct_map inj_on_def)
  show "(fst kw, Inr (snd kw)) \<in> set kms" if "kw \<in> set kws"
  proof -
    from imageI [OF that, of ?g] have "?g kw \<in> set (map ?g kws)" by (simp only: list.set_map)
    then have "?g kw \<in> set kms" by (simp only: e set_sort)
    then show ?thesis by (cases kw) simp
  qed
qed

lemma redact_object_cases:
  assumes "redactAny (JObj kvs) key = Inr w" "\<not> sensitive_key key"
  obtains (envelope) "sanitizeDigestEnvelope (JObj kvs) = Some w"
  | (members) kws where "sanitizeDigestEnvelope (JObj kvs) = None"
      "in_key_order (redact_members kvs) = Inr kws" "w = JObj (assign_all kws)"
  using assms by (auto simp: redactAny.simps split: option.splits)

subsection \<open>Digest envelopes\<close>

lemma sanitize_shape:
  assumes "sanitizeDigestEnvelope v = Some e"
  obtains (hmac) d kv where "is_sha256_digest d" "\<not> blank kv"
      "e = JObj [(''algorithm'', JStr ''hmac-sha256''), (''digest'', JStr d), (''keyVersion'', JStr kv)]"
  | (sha) d where "is_sha256_digest d" "e = JObj [(''algorithm'', JStr ''sha256''), (''digest'', JStr d)]"
  | (capture) d m where "is_sha256_digest d" "m \<in> set capture_modes"
      "e = JObj [(''captureMode'', JStr m), (''digest'', JStr d)]"
proof (cases v)
  case (JObj kvs)
  obtain d where d: "get_prop kvs ''digest'' = JStr d"
    using assms JObj by (cases "get_prop kvs ''digest''") simp_all
  then have d2: "is_sha256_digest d" using assms JObj by (simp split: if_splits)
  consider "get_prop kvs ''algorithm'' = JStr ''hmac-sha256''"
    | "get_prop kvs ''algorithm'' = JStr ''sha256''"
    | "get_prop kvs ''algorithm'' \<notin> {JStr ''hmac-sha256'', JStr ''sha256''}" by blast
  then show thesis
  proof cases
    case 1
    then show thesis using assms JObj d d2
      by (cases "get_prop kvs ''keyVersion''") (simp_all split: if_splits add: hmac)
  next
    case 2
    then show thesis using assms JObj d d2 by (simp split: if_splits add: sha)
  next
    case 3
    then show thesis using assms JObj d d2
      by (cases "get_prop kvs ''captureMode''") (simp_all split: if_splits add: capture)
  qed
qed (use assms in simp_all)

lemma sanitize_idem: "sanitizeDigestEnvelope v = Some e \<Longrightarrow> sanitizeDigestEnvelope e = Some e"
  by (erule sanitize_shape) (auto simp: get_prop_def has_own_def)

lemma sanitize_canonical:
  assumes "sanitizeDigestEnvelope v = Some e"
  shows "is_json e" "normalizeForJson e = Inr e"
proof -
  have o: "assign_all kvs = kvs" if "list_all (\<lambda>kv. \<not> is_array_index (fst kv) \<and> fst kv \<noteq> proto_key) kvs" for kvs :: "(string \<times> jsval) list"
    using that by (auto simp: assign_all_def own_key_order_def list_all_iff filter_id_conv filter_empty_conv)
  have i: "\<not> is_array_index (c # s)" if "\<not> is_digit c" for c s
    using that by (simp add: is_array_index_def)
  show "is_json e" using assms by (rule sanitize_shape) auto
  show "normalizeForJson e = Inr e" using assms
    by (rule sanitize_shape)
      (simp_all add: in_key_order_def o i proto_key_def is_digit_code_unit code_unit_def less_list_code)
qed


subsection \<open>No sensitive key keeps an unprotected value\<close>

fun no_leak :: "jsval \<Rightarrow> bool"
  and no_leak_elems :: "jsval list \<Rightarrow> bool"
  and no_leak_members :: "(string \<times> jsval) list \<Rightarrow> bool" where
  "no_leak (JArr vs) = no_leak_elems vs"
| "no_leak (JObj kvs) = no_leak_members kvs"
| "no_leak _ = True"
| "no_leak_elems [] = True"
| "no_leak_elems (v # vs) = (no_leak v \<and> no_leak_elems vs)"
| "no_leak_members [] = True"
| "no_leak_members ((k, v) # kvs) =
     ((if sensitive_key k then v = redacted \<or> sanitizeDigestEnvelope v = Some v else no_leak v)
      \<and> no_leak_members kvs)"

lemma no_leak_elems_iff: "no_leak_elems vs \<longleftrightarrow> (\<forall>v \<in> set vs. no_leak v)"
  by (induction vs) auto

lemma no_leak_members_iff:
  "no_leak_members kvs \<longleftrightarrow>
     (\<forall>kv \<in> set kvs.
        (sensitive_key (fst kv) \<longrightarrow> snd kv = redacted \<or> sanitizeDigestEnvelope (snd kv) = Some (snd kv)) \<and>
        (\<not> sensitive_key (fst kv) \<longrightarrow> no_leak (snd kv)))"
proof (induction kvs)
  case (Cons kv kvs)
  then show ?case by (cases kv) simp
qed simp

lemma redact_sensitive:
  "sensitive_key key \<Longrightarrow> redactAny v key = Inr w \<Longrightarrow> w = redacted \<or> sanitizeDigestEnvelope w = Some w"
  by (auto simp: redactAny.simps sanitize_idem split: option.splits)

lemma envelope_keys_not_sensitive [simp]:
  "\<not> sensitive_key ''algorithm''" "\<not> sensitive_key ''digest''" "\<not> sensitive_key ''keyVersion''"
  "\<not> sensitive_key ''captureMode''" "\<not> sensitive_key []"
  by (simp_all add: sensitive_key_def sensitive_words_def to_lower_def is_upper_def less_eq_char_def
      code_unit_def)

lemma redactAny_no_leak:
  assumes "redactAny v key = Inr w" "\<not> sensitive_key key"
  shows "no_leak w"
  using assms
proof (induction v arbitrary: w key rule: jsval_induct)
  case (Arr vs)
  then obtain ws where ws: "list_all2 (\<lambda>v x. redactAny v key = Inr x) vs ws" and w: "w = JArr ws"
    by (auto simp: redactAny.simps redact_elems_map collect_map_iff)
  have "no_leak x" if "x \<in> set ws" for x
    using list_all2_source [OF ws that] Arr.IH Arr.prems(2) by blast
  with w show ?case by (simp add: no_leak_elems_iff)
next
  case (Obj kvs)
  from Obj.prems show ?case
  proof (cases rule: redact_object_cases)
    case envelope
    then show ?thesis by (rule sanitize_shape) simp_all
  next
    case (members kws)
    have "(sensitive_key k \<longrightarrow> x = redacted \<or> sanitizeDigestEnvelope x = Some x) \<and> (\<not> sensitive_key k \<longrightarrow> no_leak x)"
      if "(k, x) \<in> set kws" for k x
    proof -
      from in_key_order_facts(4) [OF members(2) that] obtain v where
        v: "(k, v) \<in> set kvs" "redactAny v k = Inr x" by (auto simp: redact_members_map)
      then show ?thesis using redact_sensitive [of k v x] Obj.IH [of k v k x] by auto
    qed
    with members(3) show ?thesis by (auto simp: no_leak_members_iff set_assign_all)
  qed
qed (auto simp: redactAny.simps andThen_Inr_iff split: if_splits)

subsection \<open>The output is its own normal form\<close>

lemma redact_sensitive_canonical:
  "sensitive_key key \<Longrightarrow> redactAny v key = Inr w \<Longrightarrow> is_json w \<and> normalizeForJson w = Inr w"
  by (auto simp: redactAny.simps redacted_def sanitize_canonical split: option.splits)

lemma redactAny_canonical:
  assumes "wf_value v" "redactAny v key = Inr w"
  shows "is_json w \<and> normalizeForJson w = Inr w"
proof (cases "sensitive_key key")
  case True
  from redact_sensitive_canonical [OF this assms(2)] show ?thesis .
next
  case False
  then show ?thesis using assms
  proof (induction v arbitrary: w key rule: jsval_induct)
    case (Num n)
    then show ?case
      by (cases n) (auto simp: redactAny.simps is_finite_number_def split: if_splits)
  next
    case (Arr vs)
    then obtain ws where ws: "list_all2 (\<lambda>v x. redactAny v key = Inr x) vs ws" and w: "w = JArr ws"
      by (auto simp: redactAny.simps redact_elems_map collect_map_iff)
    have x: "is_json x \<and> normalizeForJson x = Inr x" if "x \<in> set ws" for x
      using list_all2_source [OF ws that] Arr.IH [OF _ Arr.prems(1)] Arr.prems(2) by (auto simp: wf_elems_iff)
    then have "list_all2 (\<lambda>v x. normalizeForJson v = Inr x) ws ws" by (simp add: list_all2_same)
    moreover have "map null_if_undefined ws = ws"
      using x by (force simp: null_if_undefined_def intro!: map_idI)
    ultimately have "normalizeForJson (JArr ws) = Inr (JArr ws)" unfolding normalize_array_iff by metis
    with w x show ?case by (simp add: is_json_elems_iff)
  next
    case (Obj kvs)
    from Obj.prems(3,1) show ?case
    proof (cases rule: redact_object_cases)
      case envelope
      from sanitize_canonical [OF this] show ?thesis by simp
    next
      case (members kws)
      have "distinct (map fst (redact_members kvs))"
        using Obj.prems(2) by (auto simp: redact_members_map case_prod_unfold comp_def distinct_map_filter)
      with in_key_order_facts [OF members(2)] have k: "sorted (map fst kws)" "distinct (map fst kws)" by simp_all
      have x: "is_json (snd kw) \<and> normalizeForJson (snd kw) = Inr (snd kw)" if kw: "kw \<in> set kws" for kw
      proof -
        from in_key_order_facts(4) [OF members(2) kw] obtain v where
          v: "(fst kw, v) \<in> set kvs" "redactAny v (fst kw) = Inr (snd kw)" by (auto simp: redact_members_map)
        then show ?thesis
          using Obj.IH [OF v(1), of "fst kw" "snd kw"] Obj.prems(2)
            redact_sensitive_canonical [OF _ v(2)]
          by (cases "sensitive_key (fst kw)") (auto simp: wf_members_iff)
      qed
      have "member_results normalizeForJson (sort_key fst (assign_all kws)) (sort_key fst (assign_all kws))"
        using x by (subst member_results_id) (auto simp: set_assign_all)
      moreover have "filter (\<lambda>kw. snd kw \<noteq> JUndefined) (sort_key fst (assign_all kws)) = sort_key fst (assign_all kws)"
        using x by (force simp: filter_id_conv set_assign_all)
      ultimately have "normalizeForJson w = Inr w"
        unfolding members(3) normalize_object_iff using assign_all_sort_assign_all [OF k] by metis
      moreover have "is_json w"
        using x k members(3) by (auto simp: is_json_members_iff set_assign_all distinct_assign_all)
      ultimately show ?thesis by simp
    qed
  qed (auto simp: redactAny.simps andThen_Inr_iff)
qed

subsection \<open>Sensitive values do not influence the output\<close>

text \<open>Equal up to the values under sensitive keys (and what digest envelopes they hold).\<close>

fun same_but_sensitive :: "jsval \<Rightarrow> jsval \<Rightarrow> bool"
  and same_elems :: "jsval list \<Rightarrow> jsval list \<Rightarrow> bool"
  and same_members :: "(string \<times> jsval) list \<Rightarrow> (string \<times> jsval) list \<Rightarrow> bool" where
  "same_but_sensitive (JArr vs) w = (case w of JArr ws \<Rightarrow> same_elems vs ws | _ \<Rightarrow> False)"
| "same_but_sensitive (JObj kvs) w = (case w of JObj lws \<Rightarrow> same_members kvs lws | _ \<Rightarrow> False)"
| "same_but_sensitive v w = (v = w)"
| "same_elems [] ws = (ws = [])"
| "same_elems (v # vs) ws = (case ws of [] \<Rightarrow> False | w # ws' \<Rightarrow> same_but_sensitive v w \<and> same_elems vs ws')"
| "same_members [] lws = (lws = [])"
| "same_members ((k, v) # kvs) lws =
     (case lws of
        [] \<Rightarrow> False
      | (l, w) # lws' \<Rightarrow>
          k = l
          \<and> (if sensitive_key k
              then (v = JUndefined \<longleftrightarrow> w = JUndefined) \<and> sanitizeDigestEnvelope v = sanitizeDigestEnvelope w
              else same_but_sensitive v w)
          \<and> same_members kvs lws')"

lemma same_str: "same_but_sensitive v w \<Longrightarrow> v = JStr s \<longleftrightarrow> w = JStr s"
  by (cases v) (auto split: jsval.splits)

lemma same_undefined: "same_but_sensitive v w \<Longrightarrow> v = JUndefined \<longleftrightarrow> w = JUndefined"
  by (cases v) (auto split: jsval.splits)

lemma same_members_keys: "same_members kvs lws \<Longrightarrow> map fst kvs = map fst lws"
proof (induction kvs arbitrary: lws)
  case (Cons kv kvs)
  then show ?case by (cases kv; cases lws) (auto split: prod.splits)
qed simp

lemma same_members_get:
  "same_members kvs lws \<Longrightarrow> \<not> sensitive_key k \<Longrightarrow> get_prop kvs k = JStr s \<longleftrightarrow> get_prop lws k = JStr s"
proof (induction kvs arbitrary: lws)
  case (Cons kv kvs)
  obtain l v where kv: "kv = (l, v)" by (cases kv)
  with Cons.prems(1) obtain w lws' where lws: "lws = (l, w) # lws'" by (cases lws) (auto split: prod.splits)
  show ?case
  proof (cases "l = k")
    case True
    with Cons.prems kv lws have "same_but_sensitive v w" by simp
    with True kv lws show ?thesis using same_str [of v w s] by (simp add: get_prop_def)
  next
    case False
    with Cons kv lws show ?thesis by (simp add: get_prop_def)
  qed
qed simp

lemma same_members_sanitize:
  assumes "same_members kvs lws"
  shows "sanitizeDigestEnvelope (JObj kvs) = sanitizeDigestEnvelope (JObj lws)"
proof -
  note k = envelope_keys_not_sensitive
  have h: "has_own kvs k = has_own lws k" for k
    using same_members_keys [OF assms] by (metis has_own_def set_map)
  have g: "get_prop kvs k = JStr s \<longleftrightarrow> get_prop lws k = JStr s" if "\<not> sensitive_key k" for k s
    using same_members_get [OF assms that] .
  have n: "(case v of JStr s \<Rightarrow> f s | _ \<Rightarrow> None) = None" if "\<And>s. v \<noteq> JStr s" for v and f :: "string \<Rightarrow> jsval option"
    using that by (cases v) auto
  have s: "(case get_prop kvs k of JStr s \<Rightarrow> f s | _ \<Rightarrow> None) = (case get_prop lws k of JStr s \<Rightarrow> f s | _ \<Rightarrow> None)"
    if ns: "\<not> sensitive_key k" for k and f :: "string \<Rightarrow> jsval option"
  proof (cases "\<exists>s. get_prop kvs k = JStr s")
    case True
    then obtain s where "get_prop kvs k = JStr s" "get_prop lws k = JStr s" using g [OF ns] by metis
    then show ?thesis by simp
  next
    case False
    with g [OF ns] show ?thesis by (simp add: n)
  qed
  show ?thesis
    unfolding sanitizeDigestEnvelope.simps h s [OF k(2)] s [OF k(3)] s [OF k(4)] g [OF k(1)] ..
qed


lemma same_elems_iff: "same_elems vs ws \<longleftrightarrow> list_all2 same_but_sensitive vs ws"
  by (induction vs arbitrary: ws) (auto simp: list_all2_Cons1 split: list.splits)

lemma redactAny_same:
  "same_but_sensitive v w \<Longrightarrow> redactAny v key = redactAny w key"
proof (induction v arbitrary: w key rule: jsval_induct)
  case (Arr vs)
  then obtain ws where w: "w = JArr ws" "list_all2 same_but_sensitive vs ws"
    by (auto simp: same_elems_iff split: jsval.splits)
  from w(2) Arr.IH have "map (\<lambda>v. redactAny v key) vs = map (\<lambda>v. redactAny v key) ws"
    by (induction rule: list_all2_induct) auto
  with w(1) show ?case
    by (simp add: redactAny.simps [of "JArr _"] redact_elems_map)
next
  case (Obj kvs)
  then obtain lws where w: "w = JObj lws" "same_members kvs lws" by (auto split: jsval.splits)
  have "redact_members kvs = redact_members lws"
    using w(2) Obj.IH
  proof (induction kvs arbitrary: lws)
    case (Cons kv kvs)
    obtain k v where kv: "kv = (k, v)" by (cases kv)
    with Cons.prems(1) obtain x lws' where lws: "lws = (k, x) # lws'" by (cases lws) (auto split: prod.splits)
    have IH: "redact_members kvs = redact_members lws'"
      using Cons.prems kv lws by (intro Cons.IH) (auto intro: Cons.prems(2))
    have "redactAny v k = redactAny x k \<and> (v = JUndefined \<longleftrightarrow> x = JUndefined)"
    proof (cases "sensitive_key k")
      case True
      with Cons.prems(1) kv lws show ?thesis by (simp add: redactAny.simps)
    next
      case False
      with Cons.prems kv lws show ?thesis using Cons.prems(2) [of k v x k] same_undefined [of v x] by simp
    qed
    with kv lws IH show ?case by simp
  qed simp
  then show ?case using same_members_sanitize [OF w(2)] w(1)
    by (simp only: redactAny.simps [of "JObj _"] jsval.simps)
qed (simp_all split: jsval.splits)

section \<open>Properties\<close>

text \<open>C7. The canonical text determines the normal form and is determined by it: two values have the same canonical JSON text exactly when \<open>normalizeForJson\<close> maps them to the same JSON value, so a hash input has one reading.\<close>

theorem canonicalJson_injective:
  assumes "wf_value v" "wf_value w" "canonicalJson v = Inr t"
  shows "canonicalJson w = Inr t \<longleftrightarrow> normalizeForJson w = normalizeForJson v"
proof
  assume "canonicalJson w = Inr t"
  from canonicalJson_determines [OF assms(2,1) this assms(3)]
  show "normalizeForJson w = normalizeForJson v" .
next
  assume "normalizeForJson w = normalizeForJson v"
  from canonicalJson_eq_normal [OF this] assms(3) show "canonicalJson w = Inr t" by simp
qed

definition sample_object :: jsval where
  "sample_object = JObj [(''b'', JNum (NInt 1)), (''a'', JStr ''x'')]"

definition sample_reordered :: jsval where
  "sample_reordered = JObj [(''a'', JStr ''x''), (''b'', JNum (NInt 1))]"

lemma sample_texts:
  "canonicalJson sample_object = Inr (''{'' @ quote_string ''a'' @ '':'' @ quote_string ''x'' @ '','' @ quote_string ''b'' @ '':1}'')"
  by code_simp

theorem canonicalJson_injective_witness:
  "canonicalJson sample_reordered = canonicalJson sample_object \<and> sample_reordered \<noteq> sample_object"
proof -
  have n: "normalizeForJson sample_reordered = normalizeForJson sample_object" by code_simp
  have "canonicalJson sample_reordered = Inr (''{'' @ quote_string ''a'' @ '':'' @ quote_string ''x'' @ '','' @ quote_string ''b'' @ '':1}'')"
    using canonicalJson_injective [of sample_object sample_reordered, OF _ _ sample_texts] n
    by (simp add: sample_object_def sample_reordered_def)
  then show ?thesis by (simp add: sample_texts) (simp add: sample_object_def sample_reordered_def)
qed

lemma insort_key_split: "\<exists>us vs. xs = us @ vs \<and> insort_key f x xs = us @ x # vs"
proof (induction xs)
  case (Cons y ys)
  then obtain us vs where "ys = us @ vs" "insort_key f x ys = us @ x # vs" by blast
  then show ?case
    by (cases "f x \<le> f y") (auto intro: exI [of _ "[]"] exI [of _ "y # us"])
qed simp

text \<open>C12. An own property named \<open>__proto__\<close> (as \<open>JSON.parse\<close> creates it) never enters the canonical text: adding or changing it leaves the hash input unchanged, because \<open>result[key] = normalized\<close> calls the prototype setter.\<close>

theorem canonicalJson_ignores_proto:
  assumes "canonicalJson (JObj kvs) = Inr t" "normalizeForJson v = Inr x"
  shows "canonicalJson (JObj ((''__proto__'', v) # kvs)) = Inr t"
proof -
  from assms(1) obtain w where w: "normalizeForJson (JObj kvs) = Inr w" "w \<noteq> JUndefined" "t = stringify w"
    by (rule canonicalJson_InrE)
  from w(1) obtain kws where kws: "member_results normalizeForJson (sort_key fst kvs) kws"
    and wk: "w = JObj (assign_all (filter (\<lambda>kw. snd kw \<noteq> JUndefined) kws))"
    unfolding normalize_object_iff by blast
  obtain us vs where uv: "sort_key fst kvs = us @ vs"
    "insort_key fst (''__proto__'', v) (sort_key fst kvs) = us @ (''__proto__'', v) # vs"
    using insort_key_split by metis
  from kws uv(1) obtain ku kv where k: "kws = ku @ kv" "member_results normalizeForJson us ku"
    "member_results normalizeForJson vs kv"
    by (auto simp: member_results_def list_all2_append1)
  let ?kws = "ku @ (''__proto__'', x) # kv"
  have "member_results normalizeForJson (sort_key fst ((''__proto__'', v) # kvs)) ?kws"
    using uv(2) k(2,3) assms(2) by (simp add: member_results_def list_all2_appendI)
  moreover have "w = JObj (assign_all (filter (\<lambda>kw. snd kw \<noteq> JUndefined) ?kws))"
    by (simp add: wk k(1) assign_all_def proto_key_def)
  ultimately have "normalizeForJson (JObj ((''__proto__'', v) # kvs)) = Inr w"
    unfolding normalize_object_iff by blast
  with w(2,3) show ?thesis by (simp add: canonicalJson_def)
qed

theorem canonicalJson_ignores_proto_witness:
  "canonicalJson (JObj [(''__proto__'', JStr ''forged''), (''a'', JNull)]) = canonicalJson (JObj [(''a'', JNull)])"
proof -
  have "canonicalJson (JObj [(''a'', JNull)]) = Inr (''{'' @ quote_string ''a'' @ '':null}'')" by code_simp
  from canonicalJson_ignores_proto [OF this, of "JStr ''forged''" "JStr ''forged''"] this
  show ?thesis by simp
qed

text \<open>The property order of the normal form: array-index keys first, in ascending numeric order, then all other keys in code-unit order. So keys are recursively sorted in the documented sense only for objects without array-index keys.\<close>

theorem canonicalJson_key_order:
  assumes "normalizeForJson (JObj kvs) = Inr (JObj ms)"
  shows "\<exists>is os. map fst ms = is @ os \<and> list_all is_array_index is \<and> sorted (map nat_of_digits is)
    \<and> list_all (\<lambda>k. \<not> is_array_index k) os \<and> sorted os"
proof -
  from assms obtain kws where kws: "member_results normalizeForJson (sort_key fst kvs) kws"
    and ms: "ms = assign_all (filter (\<lambda>kw. snd kw \<noteq> JUndefined) kws)"
    unfolding normalize_object_iff by blast
  let ?f = "filter (\<lambda>kw. fst kw \<noteq> proto_key) (filter (\<lambda>kw. snd kw \<noteq> JUndefined) kws)"
  let ?is = "sort_key (\<lambda>kv. nat_of_digits (fst kv)) (filter (\<lambda>kv. is_array_index (fst kv)) ?f)"
  let ?os = "filter (\<lambda>kv. \<not> is_array_index (fst kv)) ?f"
  have "sorted (map fst kws)" using member_results_keys [OF kws] by simp
  then have "sorted (map fst ?os)" by (simp add: sorted_filter)
  moreover have "sorted (map nat_of_digits (map fst ?is))" by (simp only: map_map comp_def) simp
  moreover have "map fst ms = map fst ?is @ map fst ?os"
    by (simp add: ms assign_all_def own_key_order_def)
  ultimately show ?thesis
    by (intro exI [of _ "map fst ?is"] exI [of _ "map fst ?os"]) (auto simp: list_all_iff)
qed

theorem canonicalJson_key_order_witness:
  "\<exists>is os. map fst [(''9'', JNull), (''10'', JNull), (''a'', JNull)] = is @ os \<and> list_all is_array_index is
    \<and> sorted (map nat_of_digits is) \<and> list_all (\<lambda>k. \<not> is_array_index k) os \<and> sorted os"
  by (rule canonicalJson_key_order [of "[(''a'', JNull), (''10'', JNull), (''9'', JNull)]"]) code_simp

text \<open>After redaction every property with a sensitive key, at any depth, holds the redaction marker or a minimised digest envelope and nothing else.\<close>

theorem redactMetadata_protects:
  assumes "redactMetadata m = Inr r"
  shows "no_leak r"
  using assms redactAny_no_leak [of "JObj m" "[]"] by (simp add: redactMetadata_def)

text \<open>C9. Redaction is non-interfering: metadata that agree except in the values under sensitive keys (and agree in the digest envelopes these may hold) are redacted to the same result, so no raw sensitive value can be recovered from an event.\<close>

theorem redactMetadata_noninterference:
  assumes "same_members m m'"
  shows "redactMetadata m = redactMetadata m'"
  using assms redactAny_same [of "JObj m" "JObj m'"] by (simp add: redactMetadata_def)

text \<open>Redacted metadata is a JSON value and its own normal form: hashing it later cannot throw and cannot change it.\<close>

theorem redactMetadata_canonical:
  assumes "distinct (map fst m)" "wf_members m" "redactMetadata m = Inr r"
  shows "is_json r \<and> normalizeForJson r = Inr r"
  using assms redactAny_canonical [of "JObj m"] by (simp add: redactMetadata_def)

definition sample_metadata :: "(string \<times> jsval) list" where
  "sample_metadata = [(''role'', JStr ''viewer''), (''userEmail'', JStr ''a@b.c''),
     (''nested'', JArr [JObj [(''API_KEY'', JNum (NInt 7)), (''n'', JNum (NInt 2))]])]"

definition sample_redacted :: jsval where
  "sample_redacted = JObj [(''nested'', JArr [JObj [(''API_KEY'', JStr ''[redacted]''), (''n'', JNum (NInt 2))]]),
     (''role'', JStr ''viewer''), (''userEmail'', JStr ''[redacted]'')]"

lemma sample_redaction: "redactMetadata sample_metadata = Inr sample_redacted"
  by code_simp

theorem redactMetadata_protects_witness:
  "redactMetadata sample_metadata = Inr sample_redacted \<and> no_leak sample_redacted"
  using redactMetadata_protects [OF sample_redaction] sample_redaction by simp

theorem redactMetadata_noninterference_witness:
  "redactMetadata [(''role'', JNull), (''password'', JStr ''a'')] = redactMetadata [(''role'', JNull), (''password'', JStr ''b'')]"
  by (rule redactMetadata_noninterference) code_simp

theorem redactMetadata_canonical_witness:
  "is_json sample_redacted \<and> normalizeForJson sample_redacted = Inr sample_redacted"
  by (rule redactMetadata_canonical [OF _ _ sample_redaction]) code_simp+

end
