(* ===== verification/JsonText.thy ===== *)
theory JsonText
  imports Canonical
begin

text \<open>
  \<open>JSON.parse\<close>: a scanner from text to tokens and a stack machine over tokens, both total.
  The number that a literal denotes is the parameter \<open>numberOf\<close> (the conversion of ECMAScript);
  the escape of a code unit above 255, which the modelled strings cannot hold, is refused.
  The round trip of \<open>JSON.stringify\<close> and \<open>JSON.parse\<close> is proved on writable values.
\<close>

section \<open>Tokens\<close>

datatype token = OpenObj | CloseObj | OpenArr | CloseArr | Colon | Comma | Scalar jsval

definition is_json_space :: "char \<Rightarrow> bool" where
  "is_json_space c \<longleftrightarrow> code_unit c \<in> {9, 10, 13, 32}"

text \<open>The characters of numbers and of \<open>true\<close>, \<open>false\<close>, \<open>null\<close>.\<close>

definition is_literal_char :: "char \<Rightarrow> bool" where
  "is_literal_char c \<longleftrightarrow> is_number_char c \<or> is_upper c \<or> is_lower c"

definition hex_value :: "char \<Rightarrow> nat option" where
  "hex_value c =
     (let u = code_unit c in
      if 48 \<le> u \<and> u \<le> 57 then Some (u - 48) else if 97 \<le> u \<and> u \<le> 102 then Some (u - 87)
      else if 65 \<le> u \<and> u \<le> 70 then Some (u - 55) else None)"

text \<open>\<open>\uXXXX\<close> from its four digits.\<close>

definition unicode_escape :: "char \<Rightarrow> char \<Rightarrow> char \<Rightarrow> char \<Rightarrow> char option" where
  "unicode_escape a b c d =
     (case (hex_value a, hex_value b, hex_value c, hex_value d) of
        (Some i, Some j, Some k, Some l) \<Rightarrow> if i = 0 \<and> j = 0 then Some (char_of (16 * k + l)) else None
      | _ \<Rightarrow> None)"

definition short_escape :: "char \<Rightarrow> char option" where
  "short_escape e =
     (if e = DQ \<or> e = BS \<or> e = CHR ''/'' then Some e
      else if e = CHR ''b'' then Some (CHR 0x08) else if e = CHR ''t'' then Some (CHR 0x09)
      else if e = CHR ''n'' then Some (CHR 0x0A) else if e = CHR ''f'' then Some (CHR 0x0C)
      else if e = CHR ''r'' then Some (CHR 0x0D) else None)"

text \<open>The text after an opening quotation mark: the string it denotes and the rest.\<close>

definition put_char :: "char option \<Rightarrow> (string \<times> string) option \<Rightarrow> (string \<times> string) option" where
  "put_char c r = (case (c, r) of (Some x, Some (s, rest)) \<Rightarrow> Some (x # s, rest) | _ \<Rightarrow> None)"

fun scan_string :: "string \<Rightarrow> (string \<times> string) option" where
  "scan_string [] = None"
| "scan_string (c # s) =
     (if c = DQ then Some ([], s)
      else if c = BS then
        (case s of
           [] \<Rightarrow> None
         | e # s1 \<Rightarrow>
             if e = CHR ''u'' then
               (case s1 of
                  h1 # h2 # h3 # h4 # s2 \<Rightarrow> put_char (unicode_escape h1 h2 h3 h4) (scan_string s2)
                | _ \<Rightarrow> None)
             else put_char (short_escape e) (scan_string s1))
      else if code_unit c < 32 then None
      else put_char (Some c) (scan_string s))"

text \<open>\<open>-?(0|[1-9][0-9]*)(\.[0-9]+)?([eE][+-]?[0-9]+)?\<close>, read from the left.\<close>

definition drop_digits :: "string \<Rightarrow> string" where
  "drop_digits = dropWhile is_digit"

definition starts_digit :: "string \<Rightarrow> bool" where
  "starts_digit s \<longleftrightarrow> s \<noteq> [] \<and> is_digit (hd s)"

definition valid_exponent :: "string \<Rightarrow> bool" where
  "valid_exponent s \<longleftrightarrow>
     (case s of
        [] \<Rightarrow> True
      | c # r \<Rightarrow> (c = CHR ''e'' \<or> c = CHR ''E'') \<and>
          (let r' = (if r \<noteq> [] \<and> (hd r = CHR ''+'' \<or> hd r = CHR ''-'') then tl r else r)
           in starts_digit r' \<and> drop_digits r' = []))"

definition valid_fraction :: "string \<Rightarrow> bool" where
  "valid_fraction s \<longleftrightarrow>
     (case s of
        c # r \<Rightarrow> if c = CHR ''.'' then starts_digit r \<and> valid_exponent (drop_digits r) else valid_exponent s
      | [] \<Rightarrow> True)"

definition valid_number :: "string \<Rightarrow> bool" where
  "valid_number s \<longleftrightarrow>
     (let m = (if s \<noteq> [] \<and> hd s = CHR ''-'' then tl s else s)
      in starts_digit m \<and> valid_fraction (if hd m = CHR ''0'' then tl m else drop_digits m))"

definition read_literal :: "(string \<Rightarrow> jsnumber) \<Rightarrow> string \<Rightarrow> jsval option" where
  "read_literal numberOf s =
     (if s = ''null'' then Some JNull else if s = ''true'' then Some (JBool True)
      else if s = ''false'' then Some (JBool False)
      else if valid_number s then Some (JNum (numberOf s)) else None)"

definition put_token :: "token \<Rightarrow> token list option \<Rightarrow> token list option" where
  "put_token t = map_option (Cons t)"

definition punctuation :: "char \<Rightarrow> token option" where
  "punctuation c =
     (if c = CHR ''{'' then Some OpenObj else if c = CHR ''}'' then Some CloseObj
      else if c = CHR ''['' then Some OpenArr else if c = CHR '']'' then Some CloseArr
      else if c = CHR '':'' then Some Colon else if c = CHR '','' then Some Comma else None)"

lemma scan_string_shorter: "scan_string s = Some (t, r) \<Longrightarrow> length r < length s"
proof (induction s arbitrary: t r rule: scan_string.induct)
  case (2 c s)
  then show ?case
    by (fastforce simp: put_char_def split: if_splits option.splits list.splits)
qed simp

function tokenize :: "(string \<Rightarrow> jsnumber) \<Rightarrow> string \<Rightarrow> token list option" where
  "tokenize numberOf [] = Some []"
| "tokenize numberOf (c # s) =
     (if is_json_space c then tokenize numberOf s
      else case punctuation c of
        Some t \<Rightarrow> put_token t (tokenize numberOf s)
      | None \<Rightarrow>
          if c = DQ then
            (case scan_string s of
               None \<Rightarrow> None
             | Some (text, rest) \<Rightarrow> put_token (Scalar (JStr text)) (tokenize numberOf rest))
          else if is_literal_char c then
            (case read_literal numberOf (c # takeWhile is_literal_char s) of
               None \<Rightarrow> None
             | Some v \<Rightarrow> put_token (Scalar v) (tokenize numberOf (dropWhile is_literal_char s)))
          else None)"
  by pat_completeness auto
termination
  by (relation "measure (\<lambda>(f, s). length s)")
    (auto dest: scan_string_shorter simp: le_imp_less_Suc length_dropWhile_le)

section \<open>The machine\<close>

text \<open>An open container: the elements of an array so far, or the members of an object so far with
  the key whose value is being read. The mode says which token may follow.\<close>

datatype frame = InArr "jsval list" | InObj "(string \<times> jsval) list" string

datatype mode =
    NeedValue
  | FirstElem
  | AfterElem "jsval list"
  | FirstKey
  | NeedKey "(string \<times> jsval) list"
  | NeedColon "(string \<times> jsval) list" string
  | AfterMember "(string \<times> jsval) list"
  | Complete jsval

text \<open>A repeated key keeps its place and takes the later value.\<close>

fun put_member :: "(string \<times> jsval) list \<Rightarrow> string \<Rightarrow> jsval \<Rightarrow> (string \<times> jsval) list" where
  "put_member [] k v = [(k, v)]"
| "put_member ((l, w) # kvs) k v = (if l = k then (l, v) # kvs else (l, w) # put_member kvs k v)"

fun deliver :: "jsval \<Rightarrow> frame list \<Rightarrow> mode \<times> frame list" where
  "deliver v [] = (Complete v, [])"
| "deliver v (InArr vs # st) = (AfterElem (vs @ [v]), st)"
| "deliver v (InObj kvs k # st) = (AfterMember (put_member kvs k v), st)"

fun start_value :: "token \<Rightarrow> frame list \<Rightarrow> (mode \<times> frame list) option" where
  "start_value OpenObj st = Some (FirstKey, st)"
| "start_value OpenArr st = Some (FirstElem, InArr [] # st)"
| "start_value (Scalar v) st = Some (deliver v st)"
| "start_value _ st = None"

fun parse_step :: "mode \<Rightarrow> frame list \<Rightarrow> token \<Rightarrow> (mode \<times> frame list) option" where
  "parse_step NeedValue st t = start_value t st"
| "parse_step FirstElem st t =
     (if t = CloseArr then (case st of InArr [] # st' \<Rightarrow> Some (deliver (JArr []) st') | _ \<Rightarrow> None)
      else start_value t st)"
| "parse_step (AfterElem vs) st t =
     (if t = Comma then Some (NeedValue, InArr vs # st)
      else if t = CloseArr then Some (deliver (JArr vs) st) else None)"
| "parse_step FirstKey st t =
     (case t of Scalar (JStr k) \<Rightarrow> Some (NeedColon [] k, st)
      | CloseObj \<Rightarrow> Some (deliver (JObj []) st) | _ \<Rightarrow> None)"
| "parse_step (NeedKey kvs) st t =
     (case t of Scalar (JStr k) \<Rightarrow> Some (NeedColon kvs k, st) | _ \<Rightarrow> None)"
| "parse_step (NeedColon kvs k) st t = (if t = Colon then Some (NeedValue, InObj kvs k # st) else None)"
| "parse_step (AfterMember kvs) st t =
     (if t = Comma then Some (NeedKey kvs, st)
      else if t = CloseObj then Some (deliver (JObj (own_key_order kvs)) st) else None)"
| "parse_step (Complete v) st t = None"

fun parse_tokens :: "mode \<times> frame list \<Rightarrow> token list \<Rightarrow> jsval option" where
  "parse_tokens (m, st) [] = (case m of Complete v \<Rightarrow> Some v | _ \<Rightarrow> None)"
| "parse_tokens (m, st) (t # ts) = (case parse_step m st t of None \<Rightarrow> None | Some c \<Rightarrow> parse_tokens c ts)"

definition json_parse :: "(string \<Rightarrow> jsnumber) \<Rightarrow> string \<Rightarrow> jsval throws" where
  "json_parse numberOf text =
     (case Option.bind (tokenize numberOf text) (parse_tokens (NeedValue, [])) of
        None \<Rightarrow> Inl (SyntaxError ''Unexpected token in JSON'') | Some v \<Rightarrow> Inr v)"

section \<open>Reading back strings and integers\<close>

lemma hex_value_char: "k < 16 \<Longrightarrow> hex_value (hex_char k) = Some k"
  by (simp add: hex_value_def Let_def code_unit_hex_char)

lemma char_of_code_unit: "char_of (code_unit c) = c"
  by (simp add: code_unit_def)

lemma escape_long:
  assumes "code_unit c < 32"
  shows "unicode_escape (CHR ''0'') (CHR ''0'') (hex_char (code_unit c div 16)) (hex_char (code_unit c mod 16)) = Some c"
proof -
  have "code_unit c div 16 < 16" using assms by simp
  moreover have "hex_value (CHR ''0'') = Some 0" by (simp add: hex_value_def code_unit_def Let_def)
  ultimately show ?thesis by (simp add: unicode_escape_def hex_value_char char_of_code_unit)
qed

lemma escape_short: "quote_char c = [BS, e] \<Longrightarrow> short_escape e = Some c"
  by (auto simp: quote_char_def short_escape_def DQ_def BS_def split: if_splits)

lemma scan_quote_char: "scan_string (quote_char c @ s) = put_char (Some c) (scan_string s)"
proof (cases c rule: quote_char_cases)
  case (short e)
  then show ?thesis using escape_short [OF short(1)] by (simp add: DQ_def BS_def)
next
  case long
  then show ?thesis using escape_long [OF long(2)] by (simp add: DQ_def BS_def)
qed simp

lemma scan_quote_string: "scan_string (concat (map quote_char s) @ DQ # r) = Some (s, r)"
  by (induction s) (simp_all add: scan_quote_char put_char_def del: scan_string.simps(2), simp)

lemma show_nat_leading: "hd (show_nat n) = CHR ''0'' \<Longrightarrow> show_nat n = ''0''"
proof (induction n rule: show_nat.induct)
  case (1 n)
  show ?case
  proof (cases "n < 10")
    case True
    then have s: "show_nat n = [digit_char n]" by (subst show_nat.simps) simp
    with 1 show ?thesis by simp
  next
    case False
    then have s: "show_nat n = show_nat (n div 10) @ [digit_char (n mod 10)]" by (subst show_nat.simps) simp
    with 1 False have "show_nat (n div 10) = ''0''" by simp
    then have "nat_of_digits (show_nat (n div 10)) = 0" by (simp add: nat_of_digits_def code_unit_def)
    with False show ?thesis by simp
  qed
qed

lemma show_nat_starts: "is_digit (hd (show_nat n))" "drop_digits (show_nat n) = []"
proof -
  have "show_nat n \<noteq> []" "list_all is_digit (show_nat n)" by (simp_all add: show_nat_digits)
  then show "is_digit (hd (show_nat n))" by (cases "show_nat n") simp_all
  show "drop_digits (show_nat n) = []" using show_nat_digits [of n] by (simp add: drop_digits_def list_all_iff)
qed

lemma valid_number_show_int: "valid_number (show_int i)"
proof -
  have n: "starts_digit (show_nat n)" for n
    using show_nat_starts (1) [of n] by (simp add: starts_digit_def)
  have v: "valid_fraction (if hd (show_nat n) = CHR ''0'' then tl (show_nat n) else drop_digits (show_nat n))" for n
    using show_nat_starts (2) [of n] show_nat_leading [of n] by (cases "hd (show_nat n) = CHR ''0''") (simp_all add: valid_fraction_def)
  have m: "hd (show_nat n) \<noteq> CHR ''-''" for n
    using show_nat_starts(1) [of n] by (auto simp: is_digit_code_unit code_unit_def)
  show ?thesis
    using n [of "nat i"] n [of "nat (- i)"] v [of "nat i"] v [of "nat (- i)"] m [of "nat i"]
    by (simp add: valid_number_def show_int_def Let_def split: if_splits)
qed

section \<open>The round trip\<close>

text \<open>Values that \<open>JSON.stringify\<close> prints so that \<open>JSON.parse\<close> reads them back: numbers whose
  literal denotes them, and objects listed in enumeration order.\<close>

fun writable :: "(string \<Rightarrow> jsnumber) \<Rightarrow> jsval \<Rightarrow> bool"
  and writable_elems :: "(string \<Rightarrow> jsnumber) \<Rightarrow> jsval list \<Rightarrow> bool"
  and writable_members :: "(string \<Rightarrow> jsnumber) \<Rightarrow> (string \<times> jsval) list \<Rightarrow> bool" where
  "writable f JNull = True"
| "writable f (JBool b) = True"
| "writable f (JNum n) = (is_finite_number n \<and> list_all is_number_char (show_number n) \<and>
      valid_number (show_number n) \<and> f (show_number n) = n)"
| "writable f (JStr s) = True"
| "writable f (JArr vs) = writable_elems f vs"
| "writable f (JObj kvs) = (distinct (map fst kvs) \<and> own_key_order kvs = kvs \<and> writable_members f kvs)"
| "writable f _ = False"
| "writable_elems f [] = True"
| "writable_elems f (v # vs) = (writable f v \<and> writable_elems f vs)"
| "writable_members f [] = True"
| "writable_members f ((k, v) # kvs) = (writable f v \<and> writable_members f kvs)"

lemma writable_elems_iff: "writable_elems f vs \<longleftrightarrow> (\<forall>v \<in> set vs. writable f v)"
  by (induction vs) auto

lemma writable_members_iff: "writable_members f kvs \<longleftrightarrow> (\<forall>kv \<in> set kvs. writable f (snd kv))"
  by (induction kvs) auto

lemma writable_not_omitted: "writable f v \<Longrightarrow> \<not> is_omitted v"
  by (cases v) auto

fun separated :: "token list list \<Rightarrow> token list" where
  "separated [] = []"
| "separated [x] = x"
| "separated (x # y # xs) = x @ Comma # separated (y # xs)"

fun tokens_of :: "jsval \<Rightarrow> token list"
  and tokens_elems :: "jsval list \<Rightarrow> token list list"
  and tokens_members :: "(string \<times> jsval) list \<Rightarrow> token list list" where
  "tokens_of (JArr vs) = OpenArr # separated (tokens_elems vs) @ [CloseArr]"
| "tokens_of (JObj kvs) = OpenObj # separated (tokens_members kvs) @ [CloseObj]"
| "tokens_of v = [Scalar v]"
| "tokens_elems [] = []"
| "tokens_elems (v # vs) = tokens_of v # tokens_elems vs"
| "tokens_members [] = []"
| "tokens_members ((k, v) # kvs) = (Scalar (JStr k) # Colon # tokens_of v) # tokens_members kvs"

text \<open>A text that does not continue a literal.\<close>

definition literal_end :: "string \<Rightarrow> bool" where
  "literal_end r \<longleftrightarrow> r = [] \<or> \<not> is_literal_char (hd r)"

lemma literal_end_simps [simp]:
  "literal_end []" "literal_end (CHR '']'' # r)" "literal_end (CHR ''}'' # r)" "literal_end (CHR '','' # r)"
  by (simp_all add: literal_end_def is_literal_char_def is_lower_def is_upper_def less_eq_char_def)

definition tokens_then :: "token list \<Rightarrow> token list option \<Rightarrow> token list option" where
  "tokens_then ts r = map_option ((@) ts) r"

lemma tokens_then_simps [simp]:
  "tokens_then [] r = r" "put_token t (tokens_then ts r) = tokens_then (t # ts) r"
  "tokens_then ts (tokens_then us r) = tokens_then (ts @ us) r" "put_token t r = tokens_then [t] r"
  by (cases r; simp add: tokens_then_def put_token_def)+

lemma tokenize_punctuation:
  "tokenize f (CHR ''{'' # s) = tokens_then [OpenObj] (tokenize f s)"
  "tokenize f (CHR ''}'' # s) = tokens_then [CloseObj] (tokenize f s)"
  "tokenize f (CHR ''['' # s) = tokens_then [OpenArr] (tokenize f s)"
  "tokenize f (CHR '']'' # s) = tokens_then [CloseArr] (tokenize f s)"
  "tokenize f (CHR '':'' # s) = tokens_then [Colon] (tokenize f s)"
  "tokenize f (CHR '','' # s) = tokens_then [Comma] (tokenize f s)"
  by (simp_all add: is_json_space_def code_unit_def punctuation_def)

lemma tokenize_string: "tokenize f (quote_string s @ r) = tokens_then [Scalar (JStr s)] (tokenize f r)"
  using scan_quote_string [of s r]
  by (simp add: quote_string_def is_json_space_def code_unit_def punctuation_def DQ_def)

lemma not_literal_char [simp]:
  "\<not> is_literal_char (CHR ''{'')" "\<not> is_literal_char (CHR ''}'')" "\<not> is_literal_char (CHR ''['')"
  "\<not> is_literal_char (CHR '']'')" "\<not> is_literal_char (CHR '':'')" "\<not> is_literal_char (CHR '','')"
  "\<not> is_literal_char DQ"
  by (simp_all add: is_literal_char_def is_number_char_def is_digit_def is_lower_def is_upper_def less_eq_char_def DQ_def)

lemma is_literal_code_unit: "is_literal_char c \<Longrightarrow> 43 \<le> code_unit c"
  by (auto simp: is_literal_char_def is_number_char_def is_digit_def is_lower_def is_upper_def less_eq_char_def code_unit_def)

lemma literal_char_plain:
  assumes "is_literal_char c"
  shows "\<not> is_json_space c" "punctuation c = None" "c \<noteq> DQ"
  using assms is_literal_code_unit [OF assms] by (auto simp: is_json_space_def punctuation_def)

lemma tokenize_literal:
  assumes "l \<noteq> []" "list_all is_literal_char l" "read_literal f l = Some v" "literal_end r"
  shows "tokenize f (l @ r) = tokens_then [Scalar v] (tokenize f r)"
proof -
  obtain c s where l: "l = c # s" using assms(1) by (cases l) auto
  with assms(2) have c: "is_literal_char c" "\<forall>x \<in> set s. is_literal_char x" by (simp_all add: list_all_iff)
  have "takeWhile is_literal_char (s @ r) = s" "dropWhile is_literal_char (s @ r) = r"
    using c(2) assms(4) by (cases r; simp add: literal_end_def)+
  then show ?thesis using assms(3) l literal_char_plain [OF c(1)] c(1) by simp
qed

lemma number_literal_chars: "list_all is_number_char l \<Longrightarrow> list_all is_literal_char l"
  by (auto simp: list_all_iff is_literal_char_def)

lemma valid_number_word: "valid_number l \<Longrightarrow> l \<noteq> [] \<and> l \<notin> {''null'', ''true'', ''false''}"
  by (auto simp: valid_number_def starts_digit_def Let_def is_digit_code_unit code_unit_def)

lemma tokenize_scalar:
  assumes "writable f v" "\<forall>vs. v \<noteq> JArr vs" "\<forall>kvs. v \<noteq> JObj kvs" "literal_end r"
  shows "tokenize f (stringify v @ r) = tokens_then [Scalar v] (tokenize f r)"
proof (cases v)
  case JNull
  with assms(4) show ?thesis using tokenize_literal [of "''null''" f JNull r]
    by (simp add: read_literal_def is_literal_char_def is_lower_def less_eq_char_def)
next
  case (JBool b)
  with assms(4) show ?thesis
    using tokenize_literal [of "''true''" f "JBool True" r] tokenize_literal [of "''false''" f "JBool False" r]
    by (simp add: read_literal_def is_literal_char_def is_lower_def less_eq_char_def del: tokenize.simps)
next
  case (JNum n)
  with assms(1) have "read_literal f (show_number n) = Some v" "show_number n \<noteq> []"
      "list_all is_literal_char (show_number n)"
    using valid_number_word [of "show_number n"] number_literal_chars by (auto simp: read_literal_def)
  with tokenize_literal [OF this(2,3,1) assms(4)] JNum show ?thesis by simp
qed (use assms in \<open>simp_all add: tokenize_string del: tokenize.simps\<close>)

lemma separated_Cons: "separated (x # xs) = x @ (if xs = [] then [] else Comma # separated xs)"
  by (cases xs) auto

lemma tokens_elems_Nil_iff [simp]: "tokens_elems vs = [] \<longleftrightarrow> vs = []"
  by (cases vs) auto

lemma tokens_members_Nil_iff [simp]: "tokens_members kvs = [] \<longleftrightarrow> kvs = []"
  by (cases kvs) auto

lemma stringify_writable_Nil_iff [simp]: "writable_members f kvs \<Longrightarrow> stringify_members kvs = [] \<longleftrightarrow> kvs = []"
  by (cases kvs) (auto simp: writable_not_omitted)

lemma tokenize_stringify:
  shows "\<And>r. writable f v \<Longrightarrow> literal_end r \<Longrightarrow> tokenize f (stringify v @ r) = tokens_then (tokens_of v) (tokenize f r)"
    and "\<And>r. writable_elems f vs \<Longrightarrow> tokenize f (join '','' (stringify_elems vs) @ CHR '']'' # r)
        = tokens_then (separated (tokens_elems vs)) (tokenize f (CHR '']'' # r))"
    and "\<And>r. writable_members f kvs \<Longrightarrow> tokenize f (join '','' (stringify_members kvs) @ CHR ''}'' # r)
        = tokens_then (separated (tokens_members kvs)) (tokenize f (CHR ''}'' # r))"
proof (induction v and vs and kvs rule: stringify_stringify_elems_stringify_members.induct)
  case (6 vs)
  then show ?case by (simp add: tokenize_punctuation del: tokenize.simps)
next
  case (7 kvs)
  then show ?case by (simp add: tokenize_punctuation del: tokenize.simps)
next
  case (11 v vs)
  let ?r = "if vs = [] then CHR '']'' # r else CHR '','' # join '','' (stringify_elems vs) @ CHR '']'' # r"
  have "tokenize f (stringify v @ ?r) = tokens_then (tokens_of v) (tokenize f ?r)"
    using 11(3) writable_not_omitted by (intro 11(1)) auto
  then show ?case using 11(2,3) writable_not_omitted [of f v]
    by (auto simp: join_Cons separated_Cons tokenize_punctuation simp del: tokenize.simps split: if_splits)
next
  case (13 k v kvs)
  let ?r = "if kvs = [] then CHR ''}'' # r else CHR '','' # join '','' (stringify_members kvs) @ CHR ''}'' # r"
  have "tokenize f (stringify v @ ?r) = tokens_then (tokens_of v) (tokenize f ?r)"
    using 13(4) writable_not_omitted by (intro 13(2)) auto
  then show ?case using 13(3,4) writable_not_omitted [of f v]
    by (auto simp: join_Cons separated_Cons tokenize_punctuation tokenize_string simp del: tokenize.simps split: if_splits)
qed (use tokenize_scalar in \<open>simp_all del: tokenize.simps stringify.simps\<close>)

lemma put_member_fresh: "k \<notin> fst ` set kvs \<Longrightarrow> put_member kvs k v = kvs @ [(k, v)]"
  by (induction kvs) auto

lemma parse_first_elem:
  assumes "writable f v"
  shows "parse_tokens (FirstElem, st) (tokens_of v @ ts) = parse_tokens (NeedValue, st) (tokens_of v @ ts)"
  using assms by (cases v) auto

lemma parse_tokens_of:
  shows "\<And>st ts. writable f v \<Longrightarrow> parse_tokens (NeedValue, st) (tokens_of v @ ts) = parse_tokens (deliver v st) ts"
    and "\<And>us st ts. writable_elems f vs \<Longrightarrow> vs \<noteq> [] \<Longrightarrow>
      parse_tokens (NeedValue, InArr us # st) (separated (tokens_elems vs) @ CloseArr # ts)
        = parse_tokens (deliver (JArr (us @ vs)) st) ts"
    and "\<And>ms st ts. writable_members f kvs \<Longrightarrow> kvs \<noteq> [] \<Longrightarrow> distinct (map fst (ms @ kvs)) \<Longrightarrow>
      parse_tokens (NeedKey ms, st) (separated (tokens_members kvs) @ CloseObj # ts)
        = parse_tokens (deliver (JObj (own_key_order (ms @ kvs))) st) ts"
proof (induction v and vs and kvs rule: stringify_stringify_elems_stringify_members.induct)
  case (6 vs)
  show ?case
  proof (cases vs)
    case (Cons v ws)
    then have v: "writable f v" using 6(2) by simp
    have "parse_tokens (NeedValue, st) (tokens_of (JArr vs) @ ts)
        = parse_tokens (FirstElem, InArr [] # st) (separated (tokens_elems vs) @ CloseArr # ts)" by simp
    also have "\<dots> = parse_tokens (NeedValue, InArr [] # st) (separated (tokens_elems vs) @ CloseArr # ts)"
      using parse_first_elem [OF v] Cons by (simp add: separated_Cons)
    finally show ?thesis using 6(1) [of "[]" st ts] 6(2) Cons by simp
  qed simp
next
  case (7 kvs)
  show ?case
  proof (cases kvs)
    case (Cons kv ws)
    obtain k v where kv: "kv = (k, v)" by (cases kv)
    have "parse_tokens (NeedValue, st) (tokens_of (JObj kvs) @ ts)
        = parse_tokens (FirstKey, st) (separated (tokens_members kvs) @ CloseObj # ts)" by simp
    also have "\<dots> = parse_tokens (NeedKey [], st) (separated (tokens_members kvs) @ CloseObj # ts)"
      using Cons kv by (simp add: separated_Cons)
    finally show ?thesis using 7(1) [of "[]" st ts] 7(2) Cons by simp
  qed simp
next
  case (11 v vs)
  then show ?case using writable_not_omitted [of f v] by (cases "vs = []") (simp_all add: separated_Cons)
next
  case (13 k v kvs)
  have "k \<notin> fst ` set ms" using 13(6) by auto
  then show ?case using 13 writable_not_omitted [of f v]
    by (cases "kvs = []") (simp_all add: separated_Cons put_member_fresh)
qed simp_all

text \<open>\<open>JSON.parse(JSON.stringify(v))\<close> is \<open>v\<close>.\<close>

theorem json_parse_stringify:
  assumes "writable numberOf v"
  shows "json_parse numberOf (stringify v) = Inr v"
  using tokenize_stringify(1) [OF assms, of "[]"] parse_tokens_of(1) [OF assms, of "[]" "[]"]
  by (simp add: json_parse_def tokens_then_def)

end
