(* ===== verification/Events.thy ===== *)
theory Events
  imports Canonical
begin

text \<open>
  The data model of \<^verbatim>\<open>sdks/typescript/src/index.ts\<close>: principals, resources, scopes,
  audit events, evidence edges and their record envelopes, with the constructors
  \<open>createAuditEvent\<close> and \<open>createEvidenceEdge\<close> and the hash functions over canonical JSON.

  Node's SHA-256 is the parameter \<open>sha\<close>: a function from the hashed text to the lowercase
  hex digest. The runtime (clock, random identifiers and \<open>Date.parse\<close>, which is
  implementation-defined outside the ISO format) is the record \<open>host\<close>. An absent optional
  property is \<^const>\<open>JUndefined\<close> in the JSON view, which the canonical form omits.
\<close>

section \<open>Constants and vocabularies\<close>

definition SCHEMA_VERSION :: string where "SCHEMA_VERSION = ''2026-06-10''"
definition EDGE_SCHEMA_VERSION :: string where "EDGE_SCHEMA_VERSION = ''2026-06-13''"
definition EVIDENCE_COMMIT_SCHEMA_VERSION :: string where "EVIDENCE_COMMIT_SCHEMA_VERSION = ''2026-06-23''"
definition HASH_ALGORITHM :: string where "HASH_ALGORITHM = ''sha256''"
definition EVIDENCE_COMMIT_TREE_ALGORITHM :: string where
  "EVIDENCE_COMMIT_TREE_ALGORITHM = ''veritio-merkle-v1''"
definition CANONICALIZATION :: string where "CANONICALIZATION = ''veritio-json-v1''"

definition EVIDENCE_ENTITY_TYPES :: "string list" where
  "EVIDENCE_ENTITY_TYPES =
     [''tenant'', ''principal'', ''actor'', ''activity'', ''change'', ''revision'', ''assertion'',
      ''record'', ''evidence_commit'', ''data_subject'', ''resource'', ''data_category'', ''purpose'',
      ''policy'', ''consent'', ''processor'', ''system'', ''repository'', ''branch'', ''commit'',
      ''pull_request'', ''file'', ''diff_hunk'', ''agent_session'', ''activity_episode'', ''tool_call'',
      ''ci_run'', ''artifact'', ''deployment'', ''runtime_event'', ''subject_request'', ''export_bundle'']"

definition EVIDENCE_EDGE_RELATIONS :: "string list" where
  "EVIDENCE_EDGE_RELATIONS =
     [''caused_by'', ''part_of'', ''read'', ''modified'', ''created'', ''deleted'', ''derived_from'',
      ''reviewed_by'', ''approved_by'', ''waived_by'', ''built_by'', ''deployed_as'', ''observed_in'',
      ''attests_to'', ''exports'', ''satisfies_policy'', ''violates_policy'', ''subject_of'',
      ''processed_for'', ''retained_under'', ''sent_to'', ''has_activity'', ''has_input'', ''has_output'',
      ''has_assertion'', ''resulted_in'', ''performed_by'', ''used'', ''generated'', ''based_on'',
      ''asserts_about'', ''retracts'', ''corrects'', ''supersedes'', ''disputes'', ''confirms'',
      ''compensates'']"

section \<open>Data\<close>

record principal =
  principal_type :: string
  principal_id :: string
  principal_display :: "string option"

record resource =
  resource_type :: string
  resource_id :: string
  resource_display :: "string option"

record evidence_scope =
  tenantId :: "string option"
  workspaceId :: "string option"
  environment :: "string option"

record evidence_entity =
  entity_type :: string
  entity_id :: string
  entity_actorType :: "string option"
  entity_resourceType :: "string option"
  entity_version :: "string option"
  entity_pathHash :: "string option"

text \<open>\<open>string | Date\<close>\<close>

datatype date_input = DateString string | DateObject "int option"

record host =
  parseDate :: "string \<Rightarrow> int option"
  now :: int
  randomUUID :: string

record audit_event_input =
  in_id :: "string option"
  in_occurredAt :: "date_input option"
  in_actor :: principal
  in_action :: string
  in_target :: resource
  in_scope :: "evidence_scope option"
  in_requestId :: "string option"
  in_purpose :: "string option"
  in_lawfulBasis :: "string option"
  in_dataCategories :: "string list option"
  in_retention :: "string option"
  in_metadata :: "(string \<times> jsval) list option"

record audit_event =
  event_id :: string
  event_schemaVersion :: string
  event_occurredAt :: string
  event_actor :: principal
  event_action :: string
  event_target :: resource
  event_scope :: "evidence_scope option"
  event_requestId :: "string option"
  event_purpose :: "string option"
  event_lawfulBasis :: "string option"
  event_dataCategories :: "string list option"
  event_retention :: "string option"
  event_metadata :: jsval

record evidence_edge_input =
  in_edge_id :: "string option"
  in_edge_occurredAt :: "date_input option"
  in_edge_scope :: "evidence_scope option"
  in_edge_from :: evidence_entity
  in_edge_relation :: string
  in_edge_to :: evidence_entity
  in_edge_metadata :: "(string \<times> jsval) list option"

record evidence_edge =
  edge_id :: string
  edge_schemaVersion :: string
  edge_occurredAt :: string
  edge_scope :: "evidence_scope option"
  edge_from :: evidence_entity
  edge_relation :: string
  edge_to :: evidence_entity
  edge_metadata :: jsval

record audit_record =
  rec_event :: audit_event
  rec_sequence :: int
  rec_previousHash :: "string option"
  rec_hash :: string
  rec_hashAlgorithm :: string
  rec_canonicalization :: string
  rec_appendedAt :: string
  rec_idempotencyKeyHash :: string

record evidence_edge_record =
  erec_edge :: evidence_edge
  erec_sequence :: int
  erec_previousHash :: "string option"
  erec_hash :: string
  erec_hashAlgorithm :: string
  erec_canonicalization :: string
  erec_appendedAt :: string
  erec_idempotencyKeyHash :: string

section \<open>Guards and cleaning\<close>

definition assertNonEmpty :: "string \<Rightarrow> string \<Rightarrow> unit throws" where
  "assertNonEmpty value field = throwUnless (\<not> blank value) (TypeError (field @ '' is required''))"

definition normalizeDate :: "host \<Rightarrow> date_input \<Rightarrow> string throws" where
  "normalizeDate h value =
     (case (case value of DateString s \<Rightarrow> parseDate h s | DateObject d \<Rightarrow> d) of
        None \<Rightarrow> Inl (TypeError ''occurredAt must be a valid date'')
      | Some t \<Rightarrow> Inr (iso_of_ms t))"

text \<open>A string property that is copied only when truthy: absent and empty are dropped.\<close>

definition truthy :: "string option \<Rightarrow> string option" where
  "truthy v = (case v of Some (c # s) \<Rightarrow> Some (c # s) | _ \<Rightarrow> None)"

definition cleanPrincipal :: "principal \<Rightarrow> principal" where
  "cleanPrincipal value = \<lparr>principal_type = principal_type value, principal_id = principal_id value,
     principal_display = truthy (principal_display value)\<rparr>"

definition cleanResource :: "resource \<Rightarrow> resource" where
  "cleanResource value = \<lparr>resource_type = resource_type value, resource_id = resource_id value,
     resource_display = truthy (resource_display value)\<rparr>"

definition isEvidenceEntityType :: "string \<Rightarrow> bool" where
  "isEvidenceEntityType value \<longleftrightarrow> value \<in> set EVIDENCE_ENTITY_TYPES"

definition isEvidenceEdgeRelation :: "string \<Rightarrow> bool" where
  "isEvidenceEdgeRelation value \<longleftrightarrow> value \<in> set EVIDENCE_EDGE_RELATIONS"

definition cleanEvidenceEntity :: "evidence_entity \<Rightarrow> string \<Rightarrow> evidence_entity throws" where
  "cleanEvidenceEntity value field =
     andThen (assertNonEmpty (entity_type value) (field @ ''.type'')) (\<lambda>_.
     andThen (assertNonEmpty (entity_id value) (field @ ''.id'')) (\<lambda>_.
     andThen (throwUnless (isEvidenceEntityType (entity_type value))
        (TypeError (field @ ''.type must be a supported evidence graph entity type''))) (\<lambda>_.
     Inr \<lparr>entity_type = entity_type value, entity_id = entity_id value,
          entity_actorType = truthy (entity_actorType value),
          entity_resourceType = truthy (entity_resourceType value),
          entity_version = truthy (entity_version value),
          entity_pathHash = truthy (entity_pathHash value)\<rparr>)))"

definition cleanScope :: "evidence_scope \<Rightarrow> evidence_scope option" where
  "cleanScope value =
     (let scope = \<lparr>tenantId = truthy (tenantId value), workspaceId = truthy (workspaceId value),
                   environment = truthy (environment value)\<rparr>
      in if tenantId scope = None \<and> workspaceId scope = None \<and> environment scope = None
         then None else Some scope)"

text \<open>\<open>/^[a-z][a-z0-9]*(\.[a-z][a-z0-9]*)+$/\<close>: at least two dot-separated segments.\<close>

fun split_on :: "char \<Rightarrow> string \<Rightarrow> string list" where
  "split_on d [] = [[]]"
| "split_on d (c # s) =
     (if c = d then [] # split_on d s
      else (case split_on d s of [] \<Rightarrow> [[c]] | seg # segs \<Rightarrow> (c # seg) # segs))"

fun action_segment :: "string \<Rightarrow> bool" where
  "action_segment [] = False"
| "action_segment (c # s) = (is_lower c \<and> list_all (\<lambda>x. is_lower x \<or> is_digit x) s)"

definition ACTION_PATTERN :: "string \<Rightarrow> bool" where
  "ACTION_PATTERN s \<longleftrightarrow> (let segs = split_on (CHR ''.'') s in 2 \<le> length segs \<and> list_all action_segment segs)"

section \<open>Constructors of events and edges\<close>

definition createAuditEvent :: "host \<Rightarrow> audit_event_input \<Rightarrow> audit_event throws" where
  "createAuditEvent h input =
     andThen (assertNonEmpty (principal_id (in_actor input)) ''actor.id'') (\<lambda>_.
     andThen (assertNonEmpty (principal_type (in_actor input)) ''actor.type'') (\<lambda>_.
     andThen (assertNonEmpty (in_action input) ''action'') (\<lambda>_.
     andThen (assertNonEmpty (resource_id (in_target input)) ''target.id'') (\<lambda>_.
     andThen (assertNonEmpty (resource_type (in_target input)) ''target.type'') (\<lambda>_.
     andThen (throwUnless (ACTION_PATTERN (in_action input))
        (TypeError ''action must use dotted lowercase protocol form'')) (\<lambda>_.
     andThen (normalizeDate h (case in_occurredAt input of Some d \<Rightarrow> d | None \<Rightarrow> DateObject (Some (now h)))) (\<lambda>at.
     andThen (redactMetadata (case in_metadata input of Some m \<Rightarrow> m | None \<Rightarrow> [])) (\<lambda>metadata.
     Inr \<lparr>event_id = (case in_id input of Some i \<Rightarrow> i | None \<Rightarrow> ''evt_'' @ randomUUID h),
          event_schemaVersion = SCHEMA_VERSION,
          event_occurredAt = at,
          event_actor = cleanPrincipal (in_actor input),
          event_action = in_action input,
          event_target = cleanResource (in_target input),
          event_scope = (case in_scope input of Some s \<Rightarrow> cleanScope s | None \<Rightarrow> None),
          event_requestId = truthy (in_requestId input),
          event_purpose = truthy (in_purpose input),
          event_lawfulBasis = truthy (in_lawfulBasis input),
          event_dataCategories =
            (case in_dataCategories input of
               Some (c # cs) \<Rightarrow> Some (sort (remdups (c # cs))) | _ \<Rightarrow> None),
          event_retention = truthy (in_retention input),
          event_metadata = metadata\<rparr>))))))))"

definition createEvidenceEdge :: "host \<Rightarrow> evidence_edge_input \<Rightarrow> evidence_edge throws" where
  "createEvidenceEdge h input =
     andThen (cleanEvidenceEntity (in_edge_from input) ''from'') (\<lambda>from.
     andThen (cleanEvidenceEntity (in_edge_to input) ''to'') (\<lambda>to.
     andThen (throwUnless (isEvidenceEdgeRelation (in_edge_relation input))
        (TypeError ''relation must be a supported evidence graph relation'')) (\<lambda>_.
     andThen (normalizeDate h (case in_edge_occurredAt input of Some d \<Rightarrow> d | None \<Rightarrow> DateObject (Some (now h)))) (\<lambda>at.
     andThen (redactMetadata (case in_edge_metadata input of Some m \<Rightarrow> m | None \<Rightarrow> [])) (\<lambda>metadata.
     Inr \<lparr>edge_id = (case in_edge_id input of Some i \<Rightarrow> i | None \<Rightarrow> ''edge_'' @ randomUUID h),
          edge_schemaVersion = EDGE_SCHEMA_VERSION,
          edge_occurredAt = at,
          edge_scope = (case in_edge_scope input of Some s \<Rightarrow> cleanScope s | None \<Rightarrow> None),
          edge_from = from,
          edge_relation = in_edge_relation input,
          edge_to = to,
          edge_metadata = metadata\<rparr>)))))"

section \<open>JSON views\<close>

definition opt_json :: "string option \<Rightarrow> jsval" where
  "opt_json v = (case v of None \<Rightarrow> JUndefined | Some s \<Rightarrow> JStr s)"

definition nullable_json :: "string option \<Rightarrow> jsval" where
  "nullable_json v = (case v of None \<Rightarrow> JNull | Some s \<Rightarrow> JStr s)"

definition principal_json :: "principal \<Rightarrow> jsval" where
  "principal_json p = JObj [(''type'', JStr (principal_type p)), (''id'', JStr (principal_id p)),
     (''display'', opt_json (principal_display p))]"

definition resource_json :: "resource \<Rightarrow> jsval" where
  "resource_json r = JObj [(''type'', JStr (resource_type r)), (''id'', JStr (resource_id r)),
     (''display'', opt_json (resource_display r))]"

definition scope_json :: "evidence_scope option \<Rightarrow> jsval" where
  "scope_json s =
     (case s of
        None \<Rightarrow> JUndefined
      | Some sc \<Rightarrow> JObj [(''tenantId'', opt_json (tenantId sc)), (''workspaceId'', opt_json (workspaceId sc)),
                       (''environment'', opt_json (environment sc))])"

definition entity_json :: "evidence_entity \<Rightarrow> jsval" where
  "entity_json e = JObj [(''type'', JStr (entity_type e)), (''id'', JStr (entity_id e)),
     (''actorType'', opt_json (entity_actorType e)), (''resourceType'', opt_json (entity_resourceType e)),
     (''version'', opt_json (entity_version e)), (''pathHash'', opt_json (entity_pathHash e))]"

definition categories_json :: "string list option \<Rightarrow> jsval" where
  "categories_json c = (case c of None \<Rightarrow> JUndefined | Some cs \<Rightarrow> JArr (map JStr cs))"

definition event_json :: "audit_event \<Rightarrow> jsval" where
  "event_json e = JObj [
     (''id'', JStr (event_id e)), (''schemaVersion'', JStr (event_schemaVersion e)),
     (''occurredAt'', JStr (event_occurredAt e)), (''actor'', principal_json (event_actor e)),
     (''action'', JStr (event_action e)), (''target'', resource_json (event_target e)),
     (''metadata'', event_metadata e), (''scope'', scope_json (event_scope e)),
     (''requestId'', opt_json (event_requestId e)), (''purpose'', opt_json (event_purpose e)),
     (''lawfulBasis'', opt_json (event_lawfulBasis e)),
     (''dataCategories'', categories_json (event_dataCategories e)),
     (''retention'', opt_json (event_retention e))]"

definition edge_json :: "evidence_edge \<Rightarrow> jsval" where
  "edge_json e = JObj [
     (''id'', JStr (edge_id e)), (''schemaVersion'', JStr (edge_schemaVersion e)),
     (''occurredAt'', JStr (edge_occurredAt e)), (''from'', entity_json (edge_from e)),
     (''relation'', JStr (edge_relation e)), (''to'', entity_json (edge_to e)),
     (''metadata'', edge_metadata e), (''scope'', scope_json (edge_scope e))]"

text \<open>The record without its \<open>hash\<close> property.\<close>

definition record_body_json :: "audit_record \<Rightarrow> jsval" where
  "record_body_json r = JObj [
     (''event'', event_json (rec_event r)), (''sequence'', JNum (NInt (rec_sequence r))),
     (''previousHash'', nullable_json (rec_previousHash r)),
     (''hashAlgorithm'', JStr (rec_hashAlgorithm r)), (''canonicalization'', JStr (rec_canonicalization r)),
     (''appendedAt'', JStr (rec_appendedAt r)), (''idempotencyKeyHash'', JStr (rec_idempotencyKeyHash r))]"

definition edge_record_body_json :: "evidence_edge_record \<Rightarrow> jsval" where
  "edge_record_body_json r = JObj [
     (''edge'', edge_json (erec_edge r)), (''sequence'', JNum (NInt (erec_sequence r))),
     (''previousHash'', nullable_json (erec_previousHash r)),
     (''hashAlgorithm'', JStr (erec_hashAlgorithm r)), (''canonicalization'', JStr (erec_canonicalization r)),
     (''appendedAt'', JStr (erec_appendedAt r)), (''idempotencyKeyHash'', JStr (erec_idempotencyKeyHash r))]"

section \<open>Hashes\<close>

type_synonym digest = "string \<Rightarrow> string"

definition sha256Hex :: "digest \<Rightarrow> string \<Rightarrow> string" where
  "sha256Hex sha value = sha value"

definition prefixedSha256 :: "digest \<Rightarrow> string \<Rightarrow> string" where
  "prefixedSha256 sha value = ''sha256:'' @ sha256Hex sha value"

definition hashAuditEvent :: "digest \<Rightarrow> audit_event \<Rightarrow> string option \<Rightarrow> string throws" where
  "hashAuditEvent sha event previousHash =
     andThen (canonicalJson (JObj [(''event'', event_json event), (''previousHash'', nullable_json previousHash)]))
       (\<lambda>t. Inr (sha256Hex sha t))"

definition hashEvidenceEdge :: "digest \<Rightarrow> evidence_edge \<Rightarrow> string option \<Rightarrow> string throws" where
  "hashEvidenceEdge sha edge previousHash =
     andThen (canonicalJson (JObj [(''edge'', edge_json edge), (''previousHash'', nullable_json previousHash)]))
       (\<lambda>t. Inr (sha256Hex sha t))"

definition hashAuditRecord :: "digest \<Rightarrow> audit_record \<Rightarrow> string throws" where
  "hashAuditRecord sha r = andThen (canonicalJson (record_body_json r)) (\<lambda>t. Inr (sha256Hex sha t))"

definition hashEvidenceEdgeRecord :: "digest \<Rightarrow> evidence_edge_record \<Rightarrow> string throws" where
  "hashEvidenceEdgeRecord sha r =
     andThen (canonicalJson (edge_record_body_json r)) (\<lambda>t. Inr (sha256Hex sha t))"

definition hashIdempotencyKey :: "digest \<Rightarrow> string \<Rightarrow> string \<Rightarrow> string throws" where
  "hashIdempotencyKey sha tenant idempotencyKey =
     andThen (assertNonEmpty tenant ''tenantId'') (\<lambda>_.
     andThen (assertNonEmpty idempotencyKey ''idempotencyKey'') (\<lambda>_.
     Inr (sha256Hex sha (tenant @ [NUL] @ idempotencyKey))))"

definition requireTenantId :: "audit_event \<Rightarrow> string throws" where
  "requireTenantId event =
     (case Option.bind (event_scope event) tenantId of
        None \<Rightarrow> Inl (TypeError ''scope.tenantId is required'')
      | Some t \<Rightarrow> andThen (throwUnless (\<not> blank t) (TypeError ''scope.tenantId is required'')) (\<lambda>_. Inr t))"

text \<open>\<open>record.event.scope?.tenantId\<close> as the verifiers read it: absent and empty are falsy.\<close>

definition event_tenant :: "audit_event \<Rightarrow> string option" where
  "event_tenant e = truthy (Option.bind (event_scope e) tenantId)"

definition edge_tenant :: "evidence_edge \<Rightarrow> string option" where
  "edge_tenant e = truthy (Option.bind (edge_scope e) tenantId)"

section \<open>Equal canonical texts have equal fields\<close>

lemma object_field_lookup:
  assumes "distinct (map fst kvs)" "normalizeForJson (JObj kvs) = Inr (JObj ms)" "(k, v) \<in> set kvs" "k \<noteq> proto_key"
  obtains a where "normalizeForJson v = Inr a" "get_prop ms k = a"
proof -
  from assms(2) obtain kws where kws: "member_results normalizeForJson (sort_key fst kvs) kws"
    and ms: "ms = assign_all (filter (\<lambda>kw. snd kw \<noteq> JUndefined) kws)"
    unfolding normalize_object_iff by blast
  have d: "distinct (map fst kws)"
    using member_results_keys [OF kws] assms(1) by (simp add: distinct_map inj_on_def)
  then have dm: "distinct (map fst ms)"
    unfolding ms by (intro distinct_assign_all) (simp add: distinct_map_filter)
  have "list_all2 (\<lambda>kv kw. fst kv = fst kw \<and> normalizeForJson (snd kv) = Inr (snd kw)) (sort_key fst kvs) kws"
    using kws by (simp add: member_results_def)
  moreover from assms(3) have "(k, v) \<in> set (sort_key fst kvs)" by simp
  ultimately obtain a where a: "(k, a) \<in> set kws" "normalizeForJson v = Inr a"
    by (induction rule: list_all2_induct) auto
  have "get_prop ms k = a"
  proof (cases "a = JUndefined")
    case True
    have "map_of ms k = None"
    proof (rule ccontr)
      assume "map_of ms k \<noteq> None"
      then obtain b where "(k, b) \<in> set ms" by (auto dest: map_of_SomeD)
      then have "(k, b) \<in> set kws" "b \<noteq> JUndefined" by (auto simp: ms set_assign_all)
      with a(1) d True show False by (metis eq_key_imp_eq_value)
    qed
    with True show ?thesis by (simp add: get_prop_def)
  next
    case False
    with a(1) assms(4) have "(k, a) \<in> set ms" by (simp add: ms set_assign_all)
    with dm show ?thesis by (simp add: get_prop_def)
  qed
  with a(2) show thesis by (rule that)
qed

lemma object_field_eq:
  assumes "distinct (map fst kvs)" "distinct (map fst lws)" "(k, v) \<in> set kvs" "(k, w) \<in> set lws" "k \<noteq> proto_key"
    and "normalizeForJson (JObj kvs) = Inr x" "normalizeForJson (JObj lws) = Inr x"
  shows "normalizeForJson v = normalizeForJson w"
proof -
  from assms(6) obtain ms where ms: "x = JObj ms" unfolding normalize_object_iff by blast
  from object_field_lookup [OF assms(1) assms(6) [unfolded ms] assms(3,5)] obtain a where
    a: "normalizeForJson v = Inr a" "get_prop ms k = a" .
  from object_field_lookup [OF assms(2) assms(7) [unfolded ms] assms(4,5)] obtain b where
    b: "normalizeForJson w = Inr b" "get_prop ms k = b" .
  from a b show ?thesis by simp
qed

lemma object_fields_eq:
  assumes "normalizeForJson (JObj kvs) = Inr x" "normalizeForJson (JObj lws) = Inr x"
    and "map fst kvs = map fst lws" "distinct (map fst kvs)" "proto_key \<notin> fst ` set kvs"
  shows "list_all2 (\<lambda>kv lw. normalizeForJson (snd kv) = normalizeForJson (snd lw)) kvs lws"
proof (rule list_all2_all_nthI)
  show len: "length kvs = length lws" using assms(3) by (metis length_map)
  fix i assume i: "i < length kvs"
  have k: "fst (kvs ! i) = fst (lws ! i)" using assms(3) i len by (metis nth_map)
  show "normalizeForJson (snd (kvs ! i)) = normalizeForJson (snd (lws ! i))"
    using object_field_eq [of kvs lws "fst (kvs ! i)" "snd (kvs ! i)" "snd (lws ! i)" x] assms i len k
    by (metis image_eqI nth_mem prod.collapse)
qed

declare normalizeForJson.simps [simp del]

lemma normalize_leaves [simp]:
  "normalizeForJson (JStr s) = Inr (JStr s)"
  "normalizeForJson (opt_json v) = Inr (opt_json v)"
  "normalizeForJson (nullable_json v) = Inr (nullable_json v)"
  by (auto simp: opt_json_def nullable_json_def normalizeForJson.simps split: option.splits)

lemma leaves_inject [simp]:
  "opt_json v = opt_json w \<longleftrightarrow> v = w"
  "nullable_json v = nullable_json w \<longleftrightarrow> v = w"
  by (auto simp: opt_json_def nullable_json_def split: option.splits)

lemma normalize_int [simp]: "normalizeForJson (JNum (NInt i)) = Inr (JNum (NInt i))"
  by (simp add: is_finite_number_def normalizeForJson.simps)

lemma normalize_strings [simp]: "normalizeForJson (JArr (map JStr cs)) = Inr (JArr (map JStr cs))"
proof -
  have "list_all2 (\<lambda>v x. normalizeForJson v = Inr x) (map JStr cs) (map JStr cs)"
    by (simp add: list_all2_same)
  moreover have "map null_if_undefined (map JStr cs) = map JStr cs"
    by (simp add: null_if_undefined_def)
  ultimately show ?thesis unfolding normalize_array_iff by metis
qed

lemma map_JStr_inject [simp]: "map JStr xs = map JStr ys \<longleftrightarrow> xs = ys"
  by (simp add: inj_map_eq_map inj_on_def)

lemma normalize_object_defined [simp]: "normalizeForJson (JObj kvs) \<noteq> Inr JUndefined"
  unfolding normalize_object_iff by blast

lemma member_results_exist:
  assumes "\<forall>kv\<in>set kvs. \<exists>x. f (snd kv) = Inr x"
  shows "\<exists>kws. member_results f kvs kws"
  using assms
proof (induction kvs)
  case Nil
  show ?case by (simp add: member_results_def)
next
  case (Cons kv kvs)
  then obtain x kws where "f (snd kv) = Inr x" "member_results f kvs kws" by auto
  then have "member_results f (kv # kvs) ((fst kv, x) # kws)" by (simp add: member_results_def)
  then show ?case by blast
qed

lemma normalize_object_total:
  assumes "\<forall>kv\<in>set kvs. \<exists>x. normalizeForJson (snd kv) = Inr x"
  shows "\<exists>x. normalizeForJson (JObj kvs) = Inr x"
proof -
  from assms have "\<forall>kv\<in>set (sort_key fst kvs). \<exists>x. normalizeForJson (snd kv) = Inr x" by simp
  from member_results_exist [OF this] obtain kws where "member_results normalizeForJson (sort_key fst kvs) kws" ..
  then show ?thesis unfolding normalize_object_iff by blast
qed

text \<open>Two objects of one shape whose members normalise have equal normal forms only if their
  members have.\<close>

lemma normalize_shape_eq:
  assumes "normalizeForJson (JObj kvs) = normalizeForJson (JObj lws)"
    and "\<forall>kv\<in>set kvs. \<exists>x. normalizeForJson (snd kv) = Inr x"
    and "map fst kvs = map fst lws" "distinct (map fst kvs)" "proto_key \<notin> fst ` set kvs"
  shows "list_all2 (\<lambda>kv lw. normalizeForJson (snd kv) = normalizeForJson (snd lw)) kvs lws"
proof -
  from normalize_object_total [OF assms(2)] obtain x where "normalizeForJson (JObj kvs) = Inr x" ..
  with assms show ?thesis by (metis object_fields_eq)
qed

lemma principal_json_total [simp]: "\<exists>x. normalizeForJson (principal_json p) = Inr x"
  unfolding principal_json_def by (rule normalize_object_total) simp

lemma principal_json_eq [simp]:
  "normalizeForJson (principal_json p) = normalizeForJson (principal_json q) \<longleftrightarrow> p = q" (is "?l \<longleftrightarrow> _")
proof
  assume ?l
  from normalize_shape_eq [OF this [unfolded principal_json_def]] show "p = q"
    by (simp add: proto_key_def)
qed simp

lemma resource_json_total [simp]: "\<exists>x. normalizeForJson (resource_json p) = Inr x"
  unfolding resource_json_def by (rule normalize_object_total) simp

lemma resource_json_eq [simp]:
  "normalizeForJson (resource_json p) = normalizeForJson (resource_json q) \<longleftrightarrow> p = q" (is "?l \<longleftrightarrow> _")
proof
  assume ?l
  from normalize_shape_eq [OF this [unfolded resource_json_def]] show "p = q"
    by (simp add: proto_key_def)
qed simp

lemma entity_json_total [simp]: "\<exists>x. normalizeForJson (entity_json p) = Inr x"
  unfolding entity_json_def by (rule normalize_object_total) simp

lemma entity_json_eq [simp]:
  "normalizeForJson (entity_json p) = normalizeForJson (entity_json q) \<longleftrightarrow> p = q" (is "?l \<longleftrightarrow> _")
proof
  assume ?l
  from normalize_shape_eq [OF this [unfolded entity_json_def]] show "p = q"
    by (simp add: proto_key_def)
qed simp

lemma scope_json_total [simp]: "\<exists>x. normalizeForJson (scope_json p) = Inr x"
proof (cases p)
  case None
  then show ?thesis by (simp add: scope_json_def normalizeForJson.simps)
next
  case (Some sc)
  then show ?thesis unfolding scope_json_def by simp (rule normalize_object_total, simp)
qed

lemma scope_json_eq [simp]:
  "normalizeForJson (scope_json p) = normalizeForJson (scope_json q) \<longleftrightarrow> p = q" (is "?l \<longleftrightarrow> _")
proof
  assume l: ?l
  show "p = q"
  proof (cases p)
    case None
    with l show ?thesis
      using normalize_object_defined by (cases q) (fastforce simp: scope_json_def normalizeForJson.simps(1))+
  next
    case p: (Some sc)
    show ?thesis
    proof (cases q)
      case None
      with l p show ?thesis
        using normalize_object_defined by (fastforce simp: scope_json_def normalizeForJson.simps(1))
    next
      case q: (Some sd)
      from normalize_shape_eq [OF l [unfolded scope_json_def p q option.case]] show ?thesis
        by (simp add: proto_key_def p q)
    qed
  qed
qed simp

lemma categories_json_normal [simp]: "normalizeForJson (categories_json c) = Inr (categories_json c)"
  by (cases c) (simp_all add: categories_json_def normalizeForJson.simps(1))

lemma categories_json_inject [simp]: "categories_json c = categories_json d \<longleftrightarrow> c = d"
  by (cases c; cases d) (simp_all add: categories_json_def)

section \<open>Events that hash alike\<close>

definition same_event :: "audit_event \<Rightarrow> audit_event \<Rightarrow> bool" where
  "same_event e f \<longleftrightarrow>
     e\<lparr>event_metadata := JUndefined\<rparr> = f\<lparr>event_metadata := JUndefined\<rparr> \<and>
     normalizeForJson (event_metadata e) = normalizeForJson (event_metadata f)"

lemma event_json_total:
  assumes "normalizeForJson (event_metadata e) = Inr m"
  shows "\<exists>x. normalizeForJson (event_json e) = Inr x"
  unfolding event_json_def using assms by (intro normalize_object_total) simp

lemma event_json_eq:
  assumes "normalizeForJson (event_json e) = Inr x" "normalizeForJson (event_json f) = Inr x"
  shows "same_event e f"
  using object_fields_eq [OF assms [unfolded event_json_def]]
  by (simp add: proto_key_def same_event_def)

lemma event_json_defined [simp]: "normalizeForJson (event_json e) \<noteq> Inr JUndefined"
  by (simp add: event_json_def)

definition same_edge :: "evidence_edge \<Rightarrow> evidence_edge \<Rightarrow> bool" where
  "same_edge e f \<longleftrightarrow>
     e\<lparr>edge_metadata := JUndefined\<rparr> = f\<lparr>edge_metadata := JUndefined\<rparr> \<and>
     normalizeForJson (edge_metadata e) = normalizeForJson (edge_metadata f)"

lemma edge_json_total:
  assumes "normalizeForJson (edge_metadata e) = Inr m"
  shows "\<exists>x. normalizeForJson (edge_json e) = Inr x"
  unfolding edge_json_def using assms by (intro normalize_object_total) simp

lemma edge_json_eq:
  assumes "normalizeForJson (edge_json e) = Inr x" "normalizeForJson (edge_json f) = Inr x"
  shows "same_edge e f"
  using object_fields_eq [OF assms [unfolded edge_json_def]]
  by (simp add: proto_key_def same_edge_def)

definition same_record_body :: "audit_record \<Rightarrow> audit_record \<Rightarrow> bool" where
  "same_record_body r s \<longleftrightarrow>
     same_event (rec_event r) (rec_event s) \<and>
     rec_sequence r = rec_sequence s \<and> rec_previousHash r = rec_previousHash s \<and>
     rec_hashAlgorithm r = rec_hashAlgorithm s \<and> rec_canonicalization r = rec_canonicalization s \<and>
     rec_appendedAt r = rec_appendedAt s \<and> rec_idempotencyKeyHash r = rec_idempotencyKeyHash s"

definition same_edge_record_body :: "evidence_edge_record \<Rightarrow> evidence_edge_record \<Rightarrow> bool" where
  "same_edge_record_body r s \<longleftrightarrow>
     same_edge (erec_edge r) (erec_edge s) \<and>
     erec_sequence r = erec_sequence s \<and> erec_previousHash r = erec_previousHash s \<and>
     erec_hashAlgorithm r = erec_hashAlgorithm s \<and> erec_canonicalization r = erec_canonicalization s \<and>
     erec_appendedAt r = erec_appendedAt s \<and> erec_idempotencyKeyHash r = erec_idempotencyKeyHash s"

lemma normalize_member_ok:
  assumes "normalizeForJson (JObj kvs) = Inr x" "kv \<in> set kvs"
  shows "\<exists>y. normalizeForJson (snd kv) = Inr y"
proof -
  from assms(1) obtain kws where "member_results normalizeForJson (sort_key fst kvs) kws"
    unfolding normalize_object_iff by blast
  moreover from assms(2) have "kv \<in> set (sort_key fst kvs)" by simp
  ultimately show ?thesis
    unfolding member_results_def by (induction rule: list_all2_induct) auto
qed

lemma record_body_json_eq:
  assumes "normalizeForJson (record_body_json r) = Inr x" "normalizeForJson (record_body_json s) = Inr x"
  shows "same_record_body r s"
proof -
  from object_fields_eq [OF assms [unfolded record_body_json_def]]
  have f: "normalizeForJson (event_json (rec_event r)) = normalizeForJson (event_json (rec_event s))"
    "rec_sequence r = rec_sequence s" "rec_previousHash r = rec_previousHash s"
    "rec_hashAlgorithm r = rec_hashAlgorithm s" "rec_canonicalization r = rec_canonicalization s"
    "rec_appendedAt r = rec_appendedAt s" "rec_idempotencyKeyHash r = rec_idempotencyKeyHash s"
    by (simp_all add: proto_key_def)
  from normalize_member_ok [OF assms(1) [unfolded record_body_json_def], of "(''event'', event_json (rec_event r))"]
  obtain y where "normalizeForJson (event_json (rec_event r)) = Inr y" by auto
  with f(1) have "same_event (rec_event r) (rec_event s)" by (metis event_json_eq)
  with f show ?thesis by (simp add: same_record_body_def)
qed

lemma edge_record_body_json_eq:
  assumes "normalizeForJson (edge_record_body_json r) = Inr x" "normalizeForJson (edge_record_body_json s) = Inr x"
  shows "same_edge_record_body r s"
proof -
  from object_fields_eq [OF assms [unfolded edge_record_body_json_def]]
  have f: "normalizeForJson (edge_json (erec_edge r)) = normalizeForJson (edge_json (erec_edge s))"
    "erec_sequence r = erec_sequence s" "erec_previousHash r = erec_previousHash s"
    "erec_hashAlgorithm r = erec_hashAlgorithm s" "erec_canonicalization r = erec_canonicalization s"
    "erec_appendedAt r = erec_appendedAt s" "erec_idempotencyKeyHash r = erec_idempotencyKeyHash s"
    by (simp_all add: proto_key_def)
  from normalize_member_ok [OF assms(1) [unfolded edge_record_body_json_def], of "(''edge'', edge_json (erec_edge r))"]
  obtain y where "normalizeForJson (edge_json (erec_edge r)) = Inr y" by auto
  with f(1) have "same_edge (erec_edge r) (erec_edge s)" by (metis edge_json_eq)
  with f show ?thesis by (simp add: same_edge_record_body_def)
qed

section \<open>Documents bound by their canonical hash\<close>

text \<open>Two texts that are different and have one digest.\<close>

definition collision :: "digest \<Rightarrow> string throws \<Rightarrow> string throws \<Rightarrow> bool" where
  "collision sha m n \<longleftrightarrow> (\<exists>t u. m = Inr t \<and> n = Inr u \<and> t \<noteq> u \<and> sha t = sha u)"

lemma collision_prefixed [simp]: "collision (prefixedSha256 sha) m n \<longleftrightarrow> collision sha m n"
  by (simp add: collision_def prefixedSha256_def sha256Hex_def)

lemma collision_sha256Hex [simp]: "collision (sha256Hex sha) m n \<longleftrightarrow> collision sha m n"
  by (simp add: collision_def sha256Hex_def)

text \<open>The contract of a hashed document type: its JSON view is a value programs can build,
  and equal normal forms identify the documents.\<close>

locale hashed_document =
  fixes body :: "'r \<Rightarrow> jsval" and wf :: "'r \<Rightarrow> bool" and same :: "'r \<Rightarrow> 'r \<Rightarrow> bool"
  assumes body_wf: "wf r \<Longrightarrow> wf_value (body r)"
    and body_eq: "normalizeForJson (body r) = Inr x \<Longrightarrow> normalizeForJson (body s) = Inr x \<Longrightarrow> same r s"
begin

lemma text_determines:
  assumes "wf r" "wf s" "canonicalJson (body r) = Inr t" "canonicalJson (body s) = Inr t"
  shows "same r s"
proof -
  from canonicalJson_determines [OF body_wf body_wf, OF assms]
  have "normalizeForJson (body r) = normalizeForJson (body s)" .
  moreover from assms(3) obtain x where "normalizeForJson (body r) = Inr x" by (rule canonicalJson_InrE)
  ultimately show ?thesis by (metis body_eq)
qed

lemma hash_binds:
  assumes "wf r" "wf s"
    and "andThen (canonicalJson (body r)) (\<lambda>t. Inr (f t)) = Inr h"
    and "andThen (canonicalJson (body s)) (\<lambda>t. Inr (f t)) = Inr h"
  shows "same r s \<or> collision f (canonicalJson (body r)) (canonicalJson (body s))"
proof -
  from assms(3) obtain t where t: "canonicalJson (body r) = Inr t" "h = f t" by auto
  from assms(4) obtain u where u: "canonicalJson (body s) = Inr u" "h = f u" by auto
  from t u show ?thesis
    using text_determines [OF assms(1,2)] by (cases "t = u") (auto simp: collision_def)
qed

end

lemma wf_leaves [simp]: "wf_value (opt_json v)" "wf_value (nullable_json v)" "wf_value (JArr (map JStr cs))"
  "wf_value (principal_json p)" "wf_value (resource_json q)" "wf_value (entity_json e)" "wf_value (scope_json sc)"
  "wf_value (categories_json c)"
  by (simp_all add: opt_json_def nullable_json_def wf_elems_iff principal_json_def resource_json_def
      entity_json_def scope_json_def categories_json_def split: option.splits)

lemma wf_event_json [simp]: "wf_value (event_json e) \<longleftrightarrow> wf_value (event_metadata e)"
  by (simp add: event_json_def)

lemma wf_edge_json [simp]: "wf_value (edge_json e) \<longleftrightarrow> wf_value (edge_metadata e)"
  by (simp add: edge_json_def)

interpretation audit_doc: hashed_document record_body_json
  "\<lambda>r. wf_value (event_metadata (rec_event r))" same_record_body
  by unfold_locales (simp add: record_body_json_def, rule record_body_json_eq)

interpretation edge_doc: hashed_document edge_record_body_json
  "\<lambda>r. wf_value (edge_metadata (erec_edge r))" same_edge_record_body
  by unfold_locales (simp add: edge_record_body_json_def, rule edge_record_body_json_eq)

lemma hashAuditRecord_binds:
  assumes "wf_value (event_metadata (rec_event r))" "wf_value (event_metadata (rec_event s))"
    and "hashAuditRecord sha r = Inr h" "hashAuditRecord sha s = Inr h"
  shows "same_record_body r s \<or> collision sha (canonicalJson (record_body_json r)) (canonicalJson (record_body_json s))"
  using audit_doc.hash_binds [of r s "sha256Hex sha" h] assms by (simp add: hashAuditRecord_def)

lemma hashEvidenceEdgeRecord_binds:
  assumes "wf_value (edge_metadata (erec_edge r))" "wf_value (edge_metadata (erec_edge s))"
    and "hashEvidenceEdgeRecord sha r = Inr h" "hashEvidenceEdgeRecord sha s = Inr h"
  shows "same_edge_record_body r s
    \<or> collision sha (canonicalJson (edge_record_body_json r)) (canonicalJson (edge_record_body_json s))"
  using edge_doc.hash_binds [of r s "sha256Hex sha" h] assms by (simp add: hashEvidenceEdgeRecord_def)

section \<open>Created events and edges are valid\<close>

definition set_optional :: "string option \<Rightarrow> bool" where
  "set_optional v \<longleftrightarrow> v \<noteq> Some []"

lemma set_optional_truthy [simp]: "set_optional (truthy v)"
  by (auto simp: set_optional_def truthy_def split: option.splits list.splits)

definition clean_metadata :: "jsval \<Rightarrow> bool" where
  "clean_metadata m \<longleftrightarrow> is_json m \<and> normalizeForJson m = Inr m \<and> no_leak m"

definition valid_scope :: "evidence_scope option \<Rightarrow> bool" where
  "valid_scope s \<longleftrightarrow> (case s of None \<Rightarrow> True | Some sc \<Rightarrow>
     set_optional (tenantId sc) \<and> set_optional (workspaceId sc) \<and> set_optional (environment sc) \<and>
     (tenantId sc \<noteq> None \<or> workspaceId sc \<noteq> None \<or> environment sc \<noteq> None))"

definition valid_event :: "audit_event \<Rightarrow> bool" where
  "valid_event e \<longleftrightarrow>
     event_schemaVersion e = SCHEMA_VERSION \<and>
     \<not> blank (principal_id (event_actor e)) \<and> \<not> blank (principal_type (event_actor e)) \<and>
     set_optional (principal_display (event_actor e)) \<and>
     \<not> blank (resource_id (event_target e)) \<and> \<not> blank (resource_type (event_target e)) \<and>
     set_optional (resource_display (event_target e)) \<and>
     ACTION_PATTERN (event_action e) \<and> valid_scope (event_scope e) \<and>
     set_optional (event_requestId e) \<and> set_optional (event_purpose e) \<and>
     set_optional (event_lawfulBasis e) \<and> set_optional (event_retention e) \<and>
     (case event_dataCategories e of None \<Rightarrow> True | Some cs \<Rightarrow> cs \<noteq> [] \<and> sorted cs \<and> distinct cs) \<and>
     clean_metadata (event_metadata e)"

definition valid_entity :: "evidence_entity \<Rightarrow> bool" where
  "valid_entity e \<longleftrightarrow> isEvidenceEntityType (entity_type e) \<and> \<not> blank (entity_id e) \<and>
     set_optional (entity_actorType e) \<and> set_optional (entity_resourceType e) \<and>
     set_optional (entity_version e) \<and> set_optional (entity_pathHash e)"

definition valid_edge :: "evidence_edge \<Rightarrow> bool" where
  "valid_edge e \<longleftrightarrow>
     edge_schemaVersion e = EDGE_SCHEMA_VERSION \<and> valid_entity (edge_from e) \<and> valid_entity (edge_to e) \<and>
     isEvidenceEdgeRelation (edge_relation e) \<and> valid_scope (edge_scope e) \<and>
     clean_metadata (edge_metadata e)"

definition wf_metadata :: "(string \<times> jsval) list option \<Rightarrow> bool" where
  "wf_metadata m \<longleftrightarrow> (case m of None \<Rightarrow> True | Some kvs \<Rightarrow> wf_value (JObj kvs))"

lemma valid_cleanScope [simp]: "valid_scope (cleanScope s)"
  by (auto simp: valid_scope_def cleanScope_def Let_def)

lemma redacted_clean_metadata:
  assumes "wf_metadata m" "redactMetadata (case m of Some kvs \<Rightarrow> kvs | None \<Rightarrow> []) = Inr r"
  shows "clean_metadata r"
  using assms redactAny_canonical [of "JObj (case m of Some kvs \<Rightarrow> kvs | None \<Rightarrow> [])" "[]" r]
    redactAny_no_leak [of "JObj (case m of Some kvs \<Rightarrow> kvs | None \<Rightarrow> [])" "[]" r]
  by (cases m) (simp_all add: clean_metadata_def redactMetadata_def wf_metadata_def)

lemma valid_cleanEvidenceEntity: "cleanEvidenceEntity v f = Inr e \<Longrightarrow> valid_entity e"
  by (auto simp: cleanEvidenceEntity_def valid_entity_def assertNonEmpty_def)

lemma sorted_categories:
  "sorted (sort (remdups cs)) \<and> distinct (sort (remdups cs)) \<and> (cs \<noteq> [] \<longrightarrow> sort (remdups cs) \<noteq> [])"
proof -
  have "set (sort (remdups cs)) = set cs" by simp
  then show ?thesis by (auto simp del: set_sort)
qed

lemma createAuditEvent_valid_event:
  assumes "wf_metadata (in_metadata input)" "createAuditEvent h input = Inr e"
  shows "valid_event e"
proof -
  from assms(2) obtain at m where e:
    "redactMetadata (case in_metadata input of Some kvs \<Rightarrow> kvs | None \<Rightarrow> []) = Inr m"
    "\<not> blank (principal_id (in_actor input))" "\<not> blank (principal_type (in_actor input))"
    "\<not> blank (resource_id (in_target input))" "\<not> blank (resource_type (in_target input))"
    "ACTION_PATTERN (in_action input)"
    "event_schemaVersion e = SCHEMA_VERSION" "event_actor e = cleanPrincipal (in_actor input)"
    "event_target e = cleanResource (in_target input)" "event_action e = in_action input"
    "event_scope e = (case in_scope input of Some s \<Rightarrow> cleanScope s | None \<Rightarrow> None)"
    "event_requestId e = truthy (in_requestId input)" "event_purpose e = truthy (in_purpose input)"
    "event_lawfulBasis e = truthy (in_lawfulBasis input)" "event_retention e = truthy (in_retention input)"
    "event_dataCategories e = (case in_dataCategories input of
               Some (c # cs) \<Rightarrow> Some (sort (remdups (c # cs))) | _ \<Rightarrow> None)"
    "event_metadata e = m"
    by (auto simp: createAuditEvent_def assertNonEmpty_def simp del: remdups.simps)
  have "valid_scope (event_scope e)"
    unfolding e(11) by (simp add: valid_scope_def [of None] split: option.split)
  moreover have "case event_dataCategories e of None \<Rightarrow> True | Some cs \<Rightarrow> cs \<noteq> [] \<and> sorted cs \<and> distinct cs"
    unfolding e(16) using sorted_categories by (auto split: option.split list.split simp del: remdups.simps)
  ultimately show ?thesis
    using redacted_clean_metadata [OF assms(1) e(1)] e(2-10,12-15,17)
    by (simp add: valid_event_def cleanPrincipal_def cleanResource_def)
qed

lemma createEvidenceEdge_valid_edge:
  assumes "wf_metadata (in_edge_metadata input)" "createEvidenceEdge h input = Inr e"
  shows "valid_edge e"
  using assms(2) redacted_clean_metadata [OF assms(1)] valid_cleanEvidenceEntity
  by (auto simp: createEvidenceEdge_def valid_edge_def valid_scope_def [of None] split: option.splits)

lemma normalize_nullable_pair:
  assumes "normalizeForJson v = Inr x"
  shows "\<exists>t. canonicalJson (JObj [(k, v), (''previousHash'', nullable_json p)]) = Inr t"
proof -
  from normalize_object_total [of "[(k, v), (''previousHash'', nullable_json p)]"] assms
  obtain y where "normalizeForJson (JObj [(k, v), (''previousHash'', nullable_json p)]) = Inr y" by auto
  moreover then have "y \<noteq> JUndefined" by auto
  ultimately show ?thesis by (simp add: canonicalJson_def)
qed

lemma valid_event_hashable:
  assumes "clean_metadata (event_metadata e)"
  shows "\<exists>d. hashAuditEvent sha e p = Inr d"
proof -
  from assms event_json_total obtain x where "normalizeForJson (event_json e) = Inr x"
    unfolding clean_metadata_def by blast
  from normalize_nullable_pair [OF this, of "''event''" p] show ?thesis by (auto simp: hashAuditEvent_def)
qed

lemma valid_edge_hashable:
  assumes "clean_metadata (edge_metadata e)"
  shows "\<exists>d. hashEvidenceEdge sha e p = Inr d"
proof -
  from assms edge_json_total obtain x where "normalizeForJson (edge_json e) = Inr x"
    unfolding clean_metadata_def by blast
  from normalize_nullable_pair [OF this, of "''edge''" p] show ?thesis by (auto simp: hashEvidenceEdge_def)
qed

lemma canonical_object_total:
  assumes "\<forall>kv\<in>set kvs. \<exists>x. normalizeForJson (snd kv) = Inr x"
  shows "\<exists>t. canonicalJson (JObj kvs) = Inr t"
proof -
  from normalize_object_total [OF assms] obtain y where "normalizeForJson (JObj kvs) = Inr y" ..
  moreover then have "y \<noteq> JUndefined" by auto
  ultimately show ?thesis by (simp add: canonicalJson_def)
qed

lemma valid_record_hashable:
  assumes "normalizeForJson (event_metadata (rec_event r)) = Inr m"
  shows "\<exists>d. hashAuditRecord sha r = Inr d"
proof -
  from event_json_total [OF assms] have "\<exists>t. canonicalJson (record_body_json r) = Inr t"
    unfolding record_body_json_def by (intro canonical_object_total) simp
  then show ?thesis by (auto simp: hashAuditRecord_def)
qed

lemma valid_edge_record_hashable:
  assumes "normalizeForJson (edge_metadata (erec_edge r)) = Inr m"
  shows "\<exists>d. hashEvidenceEdgeRecord sha r = Inr d"
proof -
  from edge_json_total [OF assms] have "\<exists>t. canonicalJson (edge_record_body_json r) = Inr t"
    unfolding edge_record_body_json_def by (intro canonical_object_total) simp
  then show ?thesis by (auto simp: hashEvidenceEdgeRecord_def)
qed

section \<open>Properties\<close>

text \<open>C8. Every event that \<open>createAuditEvent\<close> returns is valid: the required identifiers are not blank, the action has the dotted form, empty optional fields are dropped, the data categories are sorted without duplicates, and the metadata is redacted, in normal form and free of unprotected sensitive values. Hashing such an event does not throw.\<close>

theorem createAuditEvent_valid:
  assumes "wf_metadata (in_metadata input)" "createAuditEvent h input = Inr e"
  shows "valid_event e \<and> (\<forall>previousHash. \<exists>d. hashAuditEvent sha e previousHash = Inr d)"
  using createAuditEvent_valid_event [OF assms] valid_event_hashable by (simp add: valid_event_def)

text \<open>Every edge that \<open>createEvidenceEdge\<close> returns connects entities of supported types by a supported relation, with cleaned optional fields and redacted metadata in normal form; hashing it does not throw.\<close>

theorem createEvidenceEdge_valid:
  assumes "wf_metadata (in_edge_metadata input)" "createEvidenceEdge h input = Inr e"
  shows "valid_edge e \<and> (\<forall>previousHash. \<exists>d. hashEvidenceEdge sha e previousHash = Inr d)"
  using createEvidenceEdge_valid_edge [OF assms] valid_edge_hashable by (simp add: valid_edge_def)

text \<open>The stored idempotency hash separates tenants and keys: for tenant identifiers without U+0000, two equal hashes come from the same tenant and key, or exhibit two texts with the same digest.\<close>

theorem hashIdempotencyKey_separates:
  assumes "NUL \<notin> set tenant" "NUL \<notin> set tenant'"
    and "hashIdempotencyKey sha tenant key = Inr d" "hashIdempotencyKey sha tenant' key' = Inr d"
  shows "(tenant = tenant' \<and> key = key')
    \<or> collision sha (Inr (tenant @ [NUL] @ key)) (Inr (tenant' @ [NUL] @ key'))"
proof -
  from assms(3,4) have "sha (tenant @ [NUL] @ key) = sha (tenant' @ [NUL] @ key')"
    by (auto simp: hashIdempotencyKey_def sha256Hex_def)
  moreover have "tenant = tenant' \<and> key = key'" if "tenant @ NUL # key = tenant' @ NUL # key'"
    using that assms(1,2) by (rule separator_unique)
  ultimately show ?thesis by (auto simp: collision_def)
qed

text \<open>Without that condition the separation fails: two different tenants share an idempotency hash, whatever the digest function, when an identifier contains U+0000.\<close>

theorem hashIdempotencyKey_nul_collision:
  "hashIdempotencyKey sha ''a'' (''b'' @ [NUL] @ ''c'') = hashIdempotencyKey sha (''a'' @ [NUL] @ ''b'') ''c''
   \<and> (\<exists>d. hashIdempotencyKey sha ''a'' (''b'' @ [NUL] @ ''c'') = Inr d)"
proof -
  have "\<not> blank ''a''" "\<not> blank ''c''" "\<not> blank (''b'' @ [NUL] @ ''c'')" "\<not> blank (''a'' @ [NUL] @ ''b'')"
    by code_simp+
  then show ?thesis by (simp add: hashIdempotencyKey_def assertNonEmpty_def)
qed

section \<open>Concrete documents\<close>

definition sample_host :: host where
  "sample_host = \<lparr>parseDate = (\<lambda>_. None), now = 0, randomUUID = ''0''\<rparr>"

definition sample_event_input :: audit_event_input where
  "sample_event_input = \<lparr>in_id = Some ''evt_1'', in_occurredAt = None,
     in_actor = \<lparr>principal_type = ''user'', principal_id = ''u1'', principal_display = Some []\<rparr>,
     in_action = ''doc.read'',
     in_target = \<lparr>resource_type = ''doc'', resource_id = ''d1'', resource_display = None\<rparr>,
     in_scope = Some \<lparr>tenantId = Some ''t1'', workspaceId = None, environment = None\<rparr>,
     in_requestId = None, in_purpose = None, in_lawfulBasis = None,
     in_dataCategories = Some [''b'', ''a'', ''b''], in_retention = None,
     in_metadata = Some [(''note'', JStr ''n''), (''password'', JStr ''p'')]\<rparr>"

definition sample_event :: audit_event where
  "sample_event = \<lparr>event_id = ''evt_1'', event_schemaVersion = ''2026-06-10'',
     event_occurredAt = ''1970-01-01T00:00:00.000Z'',
     event_actor = \<lparr>principal_type = ''user'', principal_id = ''u1'', principal_display = None\<rparr>,
     event_action = ''doc.read'',
     event_target = \<lparr>resource_type = ''doc'', resource_id = ''d1'', resource_display = None\<rparr>,
     event_scope = Some \<lparr>tenantId = Some ''t1'', workspaceId = None, environment = None\<rparr>,
     event_requestId = None, event_purpose = None, event_lawfulBasis = None,
     event_dataCategories = Some [''a'', ''b''], event_retention = None,
     event_metadata = JObj [(''note'', JStr ''n''), (''password'', JStr ''[redacted]'')]\<rparr>"

definition sample_edge_input :: evidence_edge_input where
  "sample_edge_input = \<lparr>in_edge_id = None, in_edge_occurredAt = None, in_edge_scope = None,
     in_edge_from = \<lparr>entity_type = ''actor'', entity_id = ''u1'', entity_actorType = Some ''user'',
        entity_resourceType = None, entity_version = None, entity_pathHash = None\<rparr>,
     in_edge_relation = ''modified'',
     in_edge_to = \<lparr>entity_type = ''file'', entity_id = ''f1'', entity_actorType = None,
        entity_resourceType = None, entity_version = Some [], entity_pathHash = None\<rparr>,
     in_edge_metadata = None\<rparr>"

definition sample_edge :: evidence_edge where
  "sample_edge = \<lparr>edge_id = ''edge_0'', edge_schemaVersion = ''2026-06-13'',
     edge_occurredAt = ''1970-01-01T00:00:00.000Z'', edge_scope = None,
     edge_from = \<lparr>entity_type = ''actor'', entity_id = ''u1'', entity_actorType = Some ''user'',
        entity_resourceType = None, entity_version = None, entity_pathHash = None\<rparr>,
     edge_relation = ''modified'',
     edge_to = \<lparr>entity_type = ''file'', entity_id = ''f1'', entity_actorType = None,
        entity_resourceType = None, entity_version = None, entity_pathHash = None\<rparr>,
     edge_metadata = JObj []\<rparr>"

lemma sample_event_created: "createAuditEvent sample_host sample_event_input = Inr sample_event"
  by code_simp

lemma sample_edge_created: "createEvidenceEdge sample_host sample_edge_input = Inr sample_edge"
  by code_simp

theorem createAuditEvent_valid_witness:
  "createAuditEvent sample_host sample_event_input = Inr sample_event \<and> valid_event sample_event"
proof -
  have "wf_metadata (in_metadata sample_event_input)" by code_simp
  from createAuditEvent_valid [OF this sample_event_created] sample_event_created show ?thesis by simp
qed

theorem createEvidenceEdge_valid_witness:
  "createEvidenceEdge sample_host sample_edge_input = Inr sample_edge \<and> valid_edge sample_edge"
proof -
  have "wf_metadata (in_edge_metadata sample_edge_input)" by code_simp
  from createEvidenceEdge_valid [OF this sample_edge_created] sample_edge_created show ?thesis by simp
qed

theorem hashIdempotencyKey_separates_witness:
  "hashIdempotencyKey (\<lambda>_. ''0'') ''t'' ''k'' = Inr ''0'' \<and> hashIdempotencyKey (\<lambda>_. ''0'') ''u'' ''k'' = Inr ''0''
   \<and> collision (\<lambda>_. ''0'') (Inr (''t'' @ [NUL] @ ''k'')) (Inr (''u'' @ [NUL] @ ''k''))"
proof -
  have h: "hashIdempotencyKey (\<lambda>_. ''0'') ''t'' ''k'' = Inr ''0''"
    and h': "hashIdempotencyKey (\<lambda>_. ''0'') ''u'' ''k'' = Inr ''0''" by code_simp+
  have n: "NUL \<notin> set ''t''" "NUL \<notin> set ''u''" by (simp_all add: NUL_def)
  from hashIdempotencyKey_separates [OF n h h'] h h' show ?thesis by simp
qed

end
