(* ===== verification/AuditChain.thy ===== *)
theory AuditChain
  imports Events
begin

text \<open>
  The hash-chain verifiers of \<^verbatim>\<open>sdks/typescript/src/index.ts\<close> (\<open>verifyAuditRecords\<close>,
  \<open>verifyEvidenceEdgeRecords\<close>) and of \<^verbatim>\<open>export-bundle-chain-modes.ts\<close>
  (\<open>verifyScopedChain\<close> for the windowed and filtered scopes), with the adapters of
  \<^verbatim>\<open>export-bundle-deps.ts\<close>.

  The two strict verifiers are loops over a map from tenants to the last link; the locale
  \<open>chain_walk\<close> states what such a loop does per record and proves, once for both record
  families, that it accepts exactly the lists whose tenants each form an unbroken chain and
  that it reports the first violation. The locale \<open>sealed_chain\<close> adds the hash binding of
  \<open>hashed_document\<close>: the last hash of a tenant determines the whole chain.
\<close>

section \<open>Results and link state\<close>

datatype verification_reason =
    missing_tenant_scope
  | unsupported_hash_algorithm
  | unsupported_canonicalization
  | unsupported_tree_algorithm
  | sequence_mismatch
  | previous_hash_mismatch
  | record_count_mismatch
  | records_root_mismatch
  | hash_mismatch
  | invalid_member_manifest

datatype verification_result = VerOk | VerFail nat verification_reason

record chain_link =
  link_previousHash :: "string option"
  link_sequence :: int

type_synonym chain_state = "string \<rightharpoonup> chain_link"

text \<open>\<open>tenantState.get(tenantId) ?? { previousHash: null, sequence: 0 }\<close>\<close>

definition genesis :: chain_link where
  "genesis = \<lparr>link_previousHash = None, link_sequence = 0\<rparr>"

definition link_of :: "chain_state \<Rightarrow> string \<Rightarrow> chain_link" where
  "link_of st t = (case st t of Some l \<Rightarrow> l | None \<Rightarrow> genesis)"

section \<open>The strict verifiers\<close>

fun verifyAuditRecords_from :: "digest \<Rightarrow> chain_state \<Rightarrow> nat \<Rightarrow> audit_record list \<Rightarrow> verification_result throws" where
  "verifyAuditRecords_from sha tenantState index [] = Inr VerOk"
| "verifyAuditRecords_from sha tenantState index (record # rest) =
     (case event_tenant (rec_event record) of
        None \<Rightarrow> Inr (VerFail index missing_tenant_scope)
      | Some tenant \<Rightarrow>
          if rec_hashAlgorithm record \<noteq> HASH_ALGORITHM then Inr (VerFail index unsupported_hash_algorithm)
          else if rec_canonicalization record \<noteq> CANONICALIZATION then Inr (VerFail index unsupported_canonicalization)
          else if rec_sequence record \<noteq> link_sequence (link_of tenantState tenant) + 1
            then Inr (VerFail index sequence_mismatch)
          else if rec_previousHash record \<noteq> link_previousHash (link_of tenantState tenant)
            then Inr (VerFail index previous_hash_mismatch)
          else andThen (hashAuditRecord sha record) (\<lambda>expectedHash.
            if rec_hash record \<noteq> expectedHash then Inr (VerFail index hash_mismatch)
            else verifyAuditRecords_from sha
              (tenantState(tenant \<mapsto> \<lparr>link_previousHash = Some (rec_hash record), link_sequence = rec_sequence record\<rparr>))
              (Suc index) rest))"

definition verifyAuditRecords :: "digest \<Rightarrow> audit_record list \<Rightarrow> verification_result throws" where
  "verifyAuditRecords sha records = verifyAuditRecords_from sha (\<lambda>_. None) 0 records"

fun verifyEvidenceEdgeRecords_from ::
  "digest \<Rightarrow> chain_state \<Rightarrow> nat \<Rightarrow> evidence_edge_record list \<Rightarrow> verification_result throws" where
  "verifyEvidenceEdgeRecords_from sha tenantState index [] = Inr VerOk"
| "verifyEvidenceEdgeRecords_from sha tenantState index (record # rest) =
     (case edge_tenant (erec_edge record) of
        None \<Rightarrow> Inr (VerFail index missing_tenant_scope)
      | Some tenant \<Rightarrow>
          if erec_hashAlgorithm record \<noteq> HASH_ALGORITHM then Inr (VerFail index unsupported_hash_algorithm)
          else if erec_canonicalization record \<noteq> CANONICALIZATION then Inr (VerFail index unsupported_canonicalization)
          else if erec_sequence record \<noteq> link_sequence (link_of tenantState tenant) + 1
            then Inr (VerFail index sequence_mismatch)
          else if erec_previousHash record \<noteq> link_previousHash (link_of tenantState tenant)
            then Inr (VerFail index previous_hash_mismatch)
          else andThen (hashEvidenceEdgeRecord sha record) (\<lambda>expectedHash.
            if erec_hash record \<noteq> expectedHash then Inr (VerFail index hash_mismatch)
            else verifyEvidenceEdgeRecords_from sha
              (tenantState(tenant \<mapsto> \<lparr>link_previousHash = Some (erec_hash record), link_sequence = erec_sequence record\<rparr>))
              (Suc index) rest))"

definition verifyEvidenceEdgeRecords :: "digest \<Rightarrow> evidence_edge_record list \<Rightarrow> verification_result throws" where
  "verifyEvidenceEdgeRecords sha records = verifyEvidenceEdgeRecords_from sha (\<lambda>_. None) 0 records"

section \<open>Envelope accessors and the scoped walker\<close>

record 'r envelope =
  env_tenantId :: "'r \<Rightarrow> string option"
  env_hashAlgorithm :: "'r \<Rightarrow> string"
  env_canonicalization :: "'r \<Rightarrow> string"
  env_hash :: "'r \<Rightarrow> string"
  env_previousHash :: "'r \<Rightarrow> string option"
  env_sequence :: "'r \<Rightarrow> int"
  env_recomputeHash :: "'r \<Rightarrow> string throws"

definition auditEnvelope :: "digest \<Rightarrow> audit_record envelope" where
  "auditEnvelope sha = \<lparr>env_tenantId = (\<lambda>r. Option.bind (event_scope (rec_event r)) tenantId),
     env_hashAlgorithm = rec_hashAlgorithm, env_canonicalization = rec_canonicalization, env_hash = rec_hash,
     env_previousHash = rec_previousHash, env_sequence = rec_sequence, env_recomputeHash = hashAuditRecord sha\<rparr>"

definition edgeEnvelope :: "digest \<Rightarrow> evidence_edge_record envelope" where
  "edgeEnvelope sha = \<lparr>env_tenantId = (\<lambda>r. Option.bind (edge_scope (erec_edge r)) tenantId),
     env_hashAlgorithm = erec_hashAlgorithm, env_canonicalization = erec_canonicalization, env_hash = erec_hash,
     env_previousHash = erec_previousHash, env_sequence = erec_sequence, env_recomputeHash = hashEvidenceEdgeRecord sha\<rparr>"

datatype chain_scope = Full | Windowed | Filtered

datatype chain_issue =
    ReasonIssue verification_reason
  | CoreIssue nat verification_reason
  | VerifierThrew
  | MalformedRecord

datatype chain_verification = Valid | Invalid "chain_issue list"

record scoped_link =
  scoped_previousHash :: string
  scoped_sequence :: int

text \<open>One record of the loop: \<open>None\<close> lets the walk continue, \<open>Some reason\<close> ends it.\<close>

definition scoped_check ::
  "chain_scope \<Rightarrow> 'r envelope \<Rightarrow> scoped_link option \<Rightarrow> 'r \<Rightarrow> verification_reason option throws" where
  "scoped_check scope envelope state record =
     (if env_hashAlgorithm envelope record \<noteq> HASH_ALGORITHM then Inr (Some unsupported_hash_algorithm)
      else if env_canonicalization envelope record \<noteq> CANONICALIZATION then Inr (Some unsupported_canonicalization)
      else if env_sequence envelope record < 1 then Inr (Some sequence_mismatch)
      else andThen (env_recomputeHash envelope record) (\<lambda>recomputed.
        if recomputed \<noteq> env_hash envelope record then Inr (Some hash_mismatch)
        else (case state of
            None \<Rightarrow>
              if env_sequence envelope record = 1 \<and> env_previousHash envelope record \<noteq> None
                then Inr (Some previous_hash_mismatch)
              else if env_sequence envelope record > 1 \<and> env_previousHash envelope record = None
                then Inr (Some previous_hash_mismatch)
              else Inr None
          | Some st \<Rightarrow>
              if env_sequence envelope record = scoped_sequence st + 1 then
                (if env_previousHash envelope record \<noteq> Some (scoped_previousHash st)
                 then Inr (Some previous_hash_mismatch) else Inr None)
              else if scope = Windowed then Inr (Some sequence_mismatch)
              else if env_sequence envelope record \<le> scoped_sequence st then Inr (Some sequence_mismatch)
              else if env_previousHash envelope record = None then Inr (Some previous_hash_mismatch)
              else Inr None)))"

fun verifyScopedChain ::
  "chain_scope \<Rightarrow> 'r envelope \<Rightarrow> (string \<rightharpoonup> scoped_link) \<Rightarrow> 'r list \<Rightarrow> chain_verification throws" where
  "verifyScopedChain scope envelope tenantState [] = Inr Valid"
| "verifyScopedChain scope envelope tenantState (record # rest) =
     (case truthy (env_tenantId envelope record) of
        None \<Rightarrow> Inr (Invalid [ReasonIssue missing_tenant_scope])
      | Some tenant \<Rightarrow>
          andThen (scoped_check scope envelope (tenantState tenant) record) (\<lambda>verdict.
            case verdict of
              Some reason \<Rightarrow> Inr (Invalid [ReasonIssue reason])
            | None \<Rightarrow> verifyScopedChain scope envelope
                (tenantState(tenant \<mapsto> \<lparr>scoped_previousHash = env_hash envelope record,
                                        scoped_sequence = env_sequence envelope record\<rparr>)) rest))"

definition toChainResult :: "verification_result \<Rightarrow> chain_verification" where
  "toChainResult result = (case result of VerOk \<Rightarrow> Valid | VerFail index reason \<Rightarrow> Invalid [CoreIssue index reason])"

definition runChainVerifier :: "verification_result throws \<Rightarrow> chain_verification" where
  "runChainVerifier run = (case run of Inr result \<Rightarrow> toChainResult result | Inl e \<Rightarrow> Invalid [VerifierThrew])"

definition verifyAuditChain :: "digest \<Rightarrow> audit_record list \<Rightarrow> chain_verification" where
  "verifyAuditChain sha records = runChainVerifier (verifyAuditRecords sha records)"


definition fail_closed :: "chain_verification throws \<Rightarrow> chain_verification" where
  "fail_closed run = (case run of Inr result \<Rightarrow> result | Inl e \<Rightarrow> Invalid [MalformedRecord])"

definition verifyAuditChainScoped :: "digest \<Rightarrow> audit_record list \<Rightarrow> chain_scope \<Rightarrow> chain_verification" where
  "verifyAuditChainScoped sha records scope =
     (if scope = Full then verifyAuditChain sha records
      else fail_closed (verifyScopedChain scope (auditEnvelope sha) (\<lambda>_. None) records))"


section \<open>What a chain is\<close>

definition tenant_of :: "'r envelope \<Rightarrow> 'r \<Rightarrow> string option" where
  "tenant_of env r = truthy (env_tenantId env r)"

definition chain_of :: "'r envelope \<Rightarrow> string \<Rightarrow> 'r list \<Rightarrow> 'r list" where
  "chain_of env t rs = filter (\<lambda>r. tenant_of env r = Some t) rs"

text \<open>The envelope of a record names the supported algorithms and carries its own hash.\<close>

definition sealed :: "'r envelope \<Rightarrow> 'r \<Rightarrow> bool" where
  "sealed env r \<longleftrightarrow> tenant_of env r \<noteq> None \<and> env_hashAlgorithm env r = HASH_ALGORITHM \<and>
     env_canonicalization env r = CANONICALIZATION \<and> env_recomputeHash env r = Inr (env_hash env r)"

definition link_after :: "'r envelope \<Rightarrow> 'r \<Rightarrow> chain_link" where
  "link_after env r = \<lparr>link_previousHash = Some (env_hash env r), link_sequence = env_sequence env r\<rparr>"

definition links :: "'r envelope \<Rightarrow> chain_link \<Rightarrow> 'r \<Rightarrow> bool" where
  "links env l r \<longleftrightarrow> env_sequence env r = link_sequence l + 1 \<and> env_previousHash env r = link_previousHash l"

fun linked_from :: "'r envelope \<Rightarrow> chain_link \<Rightarrow> 'r list \<Rightarrow> bool" where
  "linked_from env l [] = True"
| "linked_from env l (r # rs) = (links env l r \<and> linked_from env (link_after env r) rs)"

definition unbroken :: "'r envelope \<Rightarrow> 'r list \<Rightarrow> bool" where
  "unbroken env c \<longleftrightarrow> (\<forall>i < length c. env_sequence env (c ! i) = int i + 1 \<and>
     env_previousHash env (c ! i) = (if i = 0 then None else Some (env_hash env (c ! (i - 1)))))"

definition chains_ok :: "('r \<Rightarrow> bool) \<Rightarrow> 'r envelope \<Rightarrow> 'r list \<Rightarrow> bool" where
  "chains_ok accept env rs \<longleftrightarrow>
     (\<forall>r \<in> set rs. accept r \<and> tenant_of env r \<noteq> None) \<and> (\<forall>t. unbroken env (chain_of env t rs))"

definition chain_ok :: "'r envelope \<Rightarrow> 'r list \<Rightarrow> bool" where
  "chain_ok env rs \<longleftrightarrow> (\<forall>r \<in> set rs. sealed env r) \<and> (\<forall>t. unbroken env (chain_of env t rs))"

lemma chain_ok_chains_ok: "chain_ok env rs \<longleftrightarrow> chains_ok (sealed env) env rs"
  by (auto simp: chain_ok_def chains_ok_def sealed_def)

lemma linked_from_snoc:
  "linked_from env l (rs @ [r]) \<longleftrightarrow>
     linked_from env l rs \<and> links env (if rs = [] then l else link_after env (last rs)) r"
  by (induction rs arbitrary: l) auto

lemma unbroken_snoc:
  "unbroken env (c @ [r]) \<longleftrightarrow> unbroken env c \<and> env_sequence env r = int (length c) + 1 \<and>
     env_previousHash env r = (if c = [] then None else Some (env_hash env (last c)))"
proof -
  have "unbroken env (c @ [r]) \<longleftrightarrow> unbroken env c \<and> env_sequence env ((c @ [r]) ! length c) = int (length c) + 1 \<and>
     env_previousHash env ((c @ [r]) ! length c) = (if length c = 0 then None else Some (env_hash env ((c @ [r]) ! (length c - 1))))"
    unfolding unbroken_def by (simp add: less_Suc_eq nth_append all_conj_distrib imp_conjL disj_imp) (auto simp: nth_append)
  then show ?thesis by (simp add: nth_append last_conv_nth)
qed

lemma unbroken_Nil [simp]: "unbroken env []"
  by (simp add: unbroken_def)

lemma unbroken_last_sequence: "unbroken env c \<Longrightarrow> c \<noteq> [] \<Longrightarrow> env_sequence env (last c) = int (length c)"
  by (cases c) (auto simp: unbroken_def last_conv_nth)

lemma unbroken_iff_linked: "unbroken env c \<longleftrightarrow> linked_from env genesis c"
proof (induction c rule: rev_induct)
  case (snoc r c)
  show ?case
    unfolding unbroken_snoc linked_from_snoc snoc [symmetric]
    using unbroken_last_sequence [of env c]
    by (auto simp: links_def genesis_def link_after_def)
qed simp

lemma chain_of_simps [simp]:
  "chain_of env t [] = []"
  "chain_of env t (r # rs) = (if tenant_of env r = Some t then r # chain_of env t rs else chain_of env t rs)"
  "chain_of env t (xs @ ys) = chain_of env t xs @ chain_of env t ys"
  by (simp_all add: chain_of_def)

lemma set_chain_of: "set (chain_of env t rs) = {r \<in> set rs. tenant_of env r = Some t}"
  by (simp add: chain_of_def)

lemma chains_ok_Nil [simp]: "chains_ok accept env []"
  by (simp add: chains_ok_def)

text \<open>A record that carries its hash and continues its tenant's chain keeps the list valid.\<close>

lemma chains_ok_snoc:
  "chains_ok accept env (rs @ [r]) \<longleftrightarrow> chains_ok accept env rs \<and> accept r \<and>
     (\<exists>t. tenant_of env r = Some t \<and>
        env_sequence env r = int (length (chain_of env t rs)) + 1 \<and>
        env_previousHash env r = (if chain_of env t rs = [] then None else Some (env_hash env (last (chain_of env t rs)))))"
  by (auto simp: chains_ok_def unbroken_snoc)

lemma chains_ok_prefix: "chains_ok accept env (xs @ ys) \<Longrightarrow> chains_ok accept env xs"
proof (induction ys rule: rev_induct)
  case (snoc y ys)
  then show ?case using chains_ok_snoc [of accept env "xs @ ys" y] by simp
qed simp

section \<open>The contract of the strict walk\<close>

definition strict_verdict :: "'r envelope \<Rightarrow> chain_state \<Rightarrow> 'r \<Rightarrow> verification_reason option throws" where
  "strict_verdict env st r =
     (case tenant_of env r of
        None \<Rightarrow> Inr (Some missing_tenant_scope)
      | Some t \<Rightarrow>
          if env_hashAlgorithm env r \<noteq> HASH_ALGORITHM then Inr (Some unsupported_hash_algorithm)
          else if env_canonicalization env r \<noteq> CANONICALIZATION then Inr (Some unsupported_canonicalization)
          else if env_sequence env r \<noteq> link_sequence (link_of st t) + 1 then Inr (Some sequence_mismatch)
          else if env_previousHash env r \<noteq> link_previousHash (link_of st t) then Inr (Some previous_hash_mismatch)
          else andThen (env_recomputeHash env r) (\<lambda>h. Inr (if env_hash env r \<noteq> h then Some hash_mismatch else None)))"

definition enter :: "'r envelope \<Rightarrow> chain_state \<Rightarrow> 'r \<Rightarrow> chain_state" where
  "enter env st r = (case tenant_of env r of None \<Rightarrow> st | Some t \<Rightarrow> st(t \<mapsto> link_after env r))"

lemma strict_verdict_None_iff:
  "strict_verdict env st r = Inr None \<longleftrightarrow>
     sealed env r \<and> (\<forall>t. tenant_of env r = Some t \<longrightarrow> links env (link_of st t) r)"
  by (auto simp: strict_verdict_def sealed_def links_def andThen_Inr_iff split: option.splits)

lemma link_of_enter:
  "link_of (enter env st r) t = (if tenant_of env r = Some t then link_after env r else link_of st t)"
  by (auto simp: link_of_def enter_def split: option.splits)

text \<open>
  \<open>walk\<close> is a verifier loop started at a link state and an index: the verdict on a record
  lets it continue exactly when the record is acceptable by itself and continues the chain of
  its key.
\<close>

locale keyed_walk =
  fixes env :: "'r envelope" and accept :: "'r \<Rightarrow> bool"
    and verdict :: "chain_state \<Rightarrow> 'r \<Rightarrow> verification_reason option throws"
    and walk :: "chain_state \<Rightarrow> nat \<Rightarrow> 'r list \<Rightarrow> verification_result throws"
  assumes walk_Nil: "walk st i [] = Inr VerOk"
    and walk_Cons: "walk st i (r # rs) =
      andThen (verdict st r) (\<lambda>v. case v of
        Some reason \<Rightarrow> Inr (VerFail i reason) | None \<Rightarrow> walk (enter env st r) (Suc i) rs)"
    and verdict_None: "verdict st r = Inr None \<longleftrightarrow>
      accept r \<and> (\<exists>t. tenant_of env r = Some t \<and> links env (link_of st t) r)"
begin

lemma walk_Cons_ok_iff:
  "walk st i (r # rs) = Inr VerOk \<longleftrightarrow> verdict st r = Inr None \<and> walk (enter env st r) (Suc i) rs = Inr VerOk"
  by (cases "verdict st r") (auto simp: walk_Cons split: option.splits)

lemma walk_ok_iff:
  "walk st i rs = Inr VerOk \<longleftrightarrow>
     (\<forall>r \<in> set rs. accept r \<and> tenant_of env r \<noteq> None) \<and> (\<forall>t. linked_from env (link_of st t) (chain_of env t rs))"
proof (induction rs arbitrary: st i)
  case (Cons r rs)
  show ?case
    unfolding walk_Cons_ok_iff Cons verdict_None link_of_enter
    by (auto split: if_splits)
qed (simp add: walk_Nil)

lemma verify_iff_chains: "walk (\<lambda>_. None) 0 rs = Inr VerOk \<longleftrightarrow> chains_ok accept env rs"
  by (simp add: walk_ok_iff chains_ok_def unbroken_iff_linked link_of_def)

text \<open>A failure names the first record that does not continue its chain.\<close>

lemma walk_first_failure:
  assumes "walk st i rs = Inr (VerFail j reason)"
  shows "i \<le> j \<and> j < i + length rs \<and> walk st i (take (j - i) rs) = Inr VerOk \<and>
    verdict (foldl (enter env) st (take (j - i) rs)) (rs ! (j - i)) = Inr (Some reason)"
  using assms
proof (induction rs arbitrary: st i)
  case (Cons r rs)
  from Cons.prems obtain v where v: "verdict st r = Inr v" by (auto simp: walk_Cons)
  show ?case
  proof (cases v)
    case None
    with v Cons.prems have "walk (enter env st r) (Suc i) rs = Inr (VerFail j reason)" by (simp add: walk_Cons)
    from Cons.IH [OF this] obtain k where "j = Suc (i + k)" "k < length rs"
      "walk (enter env st r) (Suc i) (take k rs) = Inr VerOk"
      "verdict (foldl (enter env) (enter env st r) (take k rs)) (rs ! k) = Inr (Some reason)"
      by (metis Suc_le_lessD add_Suc add_diff_cancel_left' le_Suc_ex less_imp_add_positive nat_add_left_cancel_less)
    with v None show ?thesis by (auto simp: walk_Cons_ok_iff Suc_diff_le)
  next
    case (Some x)
    with v Cons.prems show ?thesis by (simp add: walk_Cons walk_Nil)
  qed
qed (simp add: walk_Nil)

end

text \<open>The strict verdict, with the checks in the order the two record verifiers make them.\<close>

locale chain_walk =
  fixes env :: "'r envelope" and walk :: "chain_state \<Rightarrow> nat \<Rightarrow> 'r list \<Rightarrow> verification_result throws"
  assumes strict_Nil: "walk st i [] = Inr VerOk"
    and strict_Cons: "walk st i (r # rs) =
      andThen (strict_verdict env st r) (\<lambda>v. case v of
        Some reason \<Rightarrow> Inr (VerFail i reason) | None \<Rightarrow> walk (enter env st r) (Suc i) rs)"

sublocale chain_walk \<subseteq> keyed_walk env "sealed env" "strict_verdict env" walk
  by unfold_locales (auto simp: strict_Nil strict_Cons strict_verdict_None_iff sealed_def)

context chain_walk
begin

lemma verify_iff: "walk (\<lambda>_. None) 0 rs = Inr VerOk \<longleftrightarrow> chain_ok env rs"
  by (simp add: verify_iff_chains chain_ok_chains_ok)

end

text \<open>
  A family of hashed documents whose recomputed hash is the digest of the canonical text, and
  whose identity includes the link fields.
\<close>

locale sealed_chain = chain_walk env walk + hashed_document body wf same
  for env :: "'r envelope" and walk and body wf same +
  fixes digest_text :: "string \<Rightarrow> string"
  assumes recompute: "env_recomputeHash env r = andThen (canonicalJson (body r)) (\<lambda>t. Inr (digest_text t))"
    and same_links: "same r s \<Longrightarrow> env_sequence env r = env_sequence env s \<and> env_previousHash env r = env_previousHash env s"
begin

lemma sealed_same:
  assumes "sealed env r" "sealed env s" "wf r" "wf s" "env_hash env r = env_hash env s"
  shows "same r s \<or> collision digest_text (canonicalJson (body r)) (canonicalJson (body s))"
  using hash_binds [OF assms(3,4), of digest_text "env_hash env r"] assms(1,2,5)
  by (simp add: sealed_def recompute)

lemma head_binds_chain:
  assumes "unbroken env c" "unbroken env d" "c \<noteq> []" "d \<noteq> []" "env_hash env (last c) = env_hash env (last d)"
    and "\<forall>r \<in> set c \<union> set d. sealed env r \<and> wf r"
  shows "list_all2 same c d
    \<or> (\<exists>r \<in> set c. \<exists>s \<in> set d. collision digest_text (canonicalJson (body r)) (canonicalJson (body s)))"
  using assms
proof (induction c arbitrary: d rule: rev_induct)
  case (snoc r c)
  from snoc.prems(4) obtain e s where d: "d = e @ [s]" by (metis rev_exhaust)
  with snoc.prems sealed_same [of r s] consider
    (col) "collision digest_text (canonicalJson (body r)) (canonicalJson (body s))" | (eq) "same r s" by auto
  then show ?case
  proof cases
    case col
    then show ?thesis by (auto simp: d)
  next
    case eq
    note u = snoc.prems(1,2) [unfolded d unbroken_snoc]
    have len: "length c = length e" and prev: "env_previousHash env r = env_previousHash env s"
      using same_links [OF eq] u by auto
    show ?thesis
    proof (cases "c = []")
      case True
      with len eq show ?thesis by (simp add: d)
    next
      case False
      with len have ne: "e \<noteq> []" by auto
      have "env_hash env (last c) = env_hash env (last e)" using u prev False ne by auto
      from snoc.IH [OF _ _ False ne this] u snoc.prems(6) eq show ?thesis
        by (auto simp: d intro: list_all2_appendI)
    qed
  qed
qed simp

text \<open>Two verified lists with the same last hash for a tenant hold the same chain for it.\<close>

lemma verified_head_binds:
  assumes "walk (\<lambda>_. None) 0 rs = Inr VerOk" "walk (\<lambda>_. None) 0 ss = Inr VerOk"
    and "chain_of env t rs \<noteq> []" "chain_of env t ss \<noteq> []"
    and "env_hash env (last (chain_of env t rs)) = env_hash env (last (chain_of env t ss))"
    and "\<forall>r \<in> set rs \<union> set ss. wf r"
  shows "list_all2 same (chain_of env t rs) (chain_of env t ss)
    \<or> (\<exists>r \<in> set rs. \<exists>s \<in> set ss. collision digest_text (canonicalJson (body r)) (canonicalJson (body s)))"
proof -
  from assms(1,2) have ok: "chain_ok env rs" "chain_ok env ss" by (simp_all add: verify_iff)
  have "\<forall>r \<in> set (chain_of env t rs) \<union> set (chain_of env t ss). sealed env r \<and> wf r"
    using ok assms(6) by (auto simp: chain_ok_def set_chain_of)
  from head_binds_chain [OF _ _ assms(3-5) this] ok show ?thesis
    by (auto simp: chain_ok_def set_chain_of)
qed

end

lemma tenant_of_accessors [simp]:
  "tenant_of (auditEnvelope sha) r = event_tenant (rec_event r)"
  "tenant_of (edgeEnvelope sha) s = edge_tenant (erec_edge s)"
  by (simp_all add: tenant_of_def auditEnvelope_def edgeEnvelope_def event_tenant_def edge_tenant_def)

interpretation audit_chain: sealed_chain "auditEnvelope sha" "verifyAuditRecords_from sha" record_body_json
  "\<lambda>r. wf_value (event_metadata (rec_event r))" same_record_body "sha256Hex sha" for sha
proof
  fix st :: chain_state and i r rs
  show "verifyAuditRecords_from sha st i (r # rs) =
      andThen (strict_verdict (auditEnvelope sha) st r) (\<lambda>v. case v of
        Some reason \<Rightarrow> Inr (VerFail i reason)
      | None \<Rightarrow> verifyAuditRecords_from sha (enter (auditEnvelope sha) st r) (Suc i) rs)"
    by (cases "hashAuditRecord sha r")
      (auto simp: strict_verdict_def enter_def link_after_def auditEnvelope_def tenant_of_def event_tenant_def
        split: option.split)
qed (auto simp: auditEnvelope_def hashAuditRecord_def same_record_body_def)

interpretation edge_chain: sealed_chain "edgeEnvelope sha" "verifyEvidenceEdgeRecords_from sha" edge_record_body_json
  "\<lambda>r. wf_value (edge_metadata (erec_edge r))" same_edge_record_body "sha256Hex sha" for sha
proof
  fix st :: chain_state and i r rs
  show "verifyEvidenceEdgeRecords_from sha st i (r # rs) =
      andThen (strict_verdict (edgeEnvelope sha) st r) (\<lambda>v. case v of
        Some reason \<Rightarrow> Inr (VerFail i reason)
      | None \<Rightarrow> verifyEvidenceEdgeRecords_from sha (enter (edgeEnvelope sha) st r) (Suc i) rs)"
    by (cases "hashEvidenceEdgeRecord sha r")
      (auto simp: strict_verdict_def enter_def link_after_def edgeEnvelope_def tenant_of_def edge_tenant_def
        split: option.split)
qed (auto simp: edgeEnvelope_def hashEvidenceEdgeRecord_def same_edge_record_body_def)

section \<open>What the scoped walk accepts\<close>

definition scoped_after :: "'r envelope \<Rightarrow> 'r \<Rightarrow> scoped_link" where
  "scoped_after env r = \<lparr>scoped_previousHash = env_hash env r, scoped_sequence = env_sequence env r\<rparr>"

definition follows :: "chain_scope \<Rightarrow> 'r envelope \<Rightarrow> 'r \<Rightarrow> 'r \<Rightarrow> bool" where
  "follows scope env r s \<longleftrightarrow>
     (if env_sequence env s = env_sequence env r + 1 then env_previousHash env s = Some (env_hash env r)
      else scope = Filtered \<and> env_sequence env r < env_sequence env s)"

definition well_numbered :: "'r envelope \<Rightarrow> 'r \<Rightarrow> bool" where
  "well_numbered env r \<longleftrightarrow> 1 \<le> env_sequence env r \<and> (env_sequence env r = 1 \<longleftrightarrow> env_previousHash env r = None)"

definition scoped_ok :: "chain_scope \<Rightarrow> 'r envelope \<Rightarrow> 'r list \<Rightarrow> bool" where
  "scoped_ok scope env rs \<longleftrightarrow> (\<forall>r \<in> set rs. sealed env r \<and> well_numbered env r) \<and>
     (\<forall>t. successively (follows scope env) (chain_of env t rs))"

definition scoped_next :: "chain_scope \<Rightarrow> 'r envelope \<Rightarrow> scoped_link option \<Rightarrow> 'r \<Rightarrow> bool" where
  "scoped_next scope env st r \<longleftrightarrow> 1 \<le> env_sequence env r \<and>
     (case st of
        None \<Rightarrow> env_sequence env r = 1 \<longleftrightarrow> env_previousHash env r = None
      | Some l \<Rightarrow>
          if env_sequence env r = scoped_sequence l + 1 then env_previousHash env r = Some (scoped_previousHash l)
          else scope \<noteq> Windowed \<and> scoped_sequence l < env_sequence env r \<and> env_previousHash env r \<noteq> None)"

fun scoped_from :: "chain_scope \<Rightarrow> 'r envelope \<Rightarrow> scoped_link option \<Rightarrow> 'r list \<Rightarrow> bool" where
  "scoped_from scope env st [] = True"
| "scoped_from scope env st (r # rs) = (scoped_next scope env st r \<and> scoped_from scope env (Some (scoped_after env r)) rs)"

lemma scoped_check_None_iff:
  "tenant_of env r \<noteq> None \<Longrightarrow> scoped_check scope env st r = Inr None \<longleftrightarrow> sealed env r \<and> scoped_next scope env st r"
  by (cases st) (auto simp: scoped_check_def sealed_def scoped_next_def andThen_Inr_iff)

lemma verifyScopedChain_iff:
  "verifyScopedChain scope env st rs = Inr Valid \<longleftrightarrow>
     (\<forall>r \<in> set rs. sealed env r) \<and> (\<forall>t. scoped_from scope env (st t) (chain_of env t rs))"
proof (induction rs arbitrary: st)
  case (Cons r rs)
  show ?case
  proof (cases "tenant_of env r")
    case None
    then show ?thesis by (simp add: tenant_of_def sealed_def)
  next
    case (Some t)
    have "verifyScopedChain scope env st (r # rs) = Inr Valid \<longleftrightarrow>
        scoped_check scope env (st t) r = Inr None \<and>
        verifyScopedChain scope env (st(t \<mapsto> scoped_after env r)) rs = Inr Valid"
      using Some by (cases "scoped_check scope env (st t) r") (auto simp: tenant_of_def scoped_after_def split: option.splits)
    also have "\<dots> \<longleftrightarrow> (\<forall>r \<in> set (r # rs). sealed env r) \<and>
        (\<forall>u. scoped_from scope env (st u) (chain_of env u (r # rs)))"
      unfolding Cons using scoped_check_None_iff [of env r scope "st t"] Some by auto
    finally show ?thesis .
  qed
qed simp

lemma scoped_from_Some:
  assumes "scope \<noteq> Full" "1 \<le> env_sequence env r"
  shows "scoped_from scope env (Some (scoped_after env r)) rs \<longleftrightarrow>
    successively (follows scope env) (r # rs) \<and> (\<forall>s \<in> set rs. well_numbered env s)"
  using assms(2)
proof (induction rs arbitrary: r)
  case (Cons s rs)
  have "scoped_next scope env (Some (scoped_after env r)) s \<longleftrightarrow> follows scope env r s \<and> well_numbered env s"
    using Cons.prems assms(1)
    by (cases scope) (auto simp: scoped_next_def follows_def well_numbered_def scoped_after_def)
  moreover have "well_numbered env s \<Longrightarrow> 1 \<le> env_sequence env s" by (simp add: well_numbered_def)
  ultimately show ?case using Cons.IH [of s] by (auto simp: successively_Cons)
qed simp

lemma scoped_from_None:
  assumes "scope \<noteq> Full"
  shows "scoped_from scope env None c \<longleftrightarrow>
    successively (follows scope env) c \<and> (\<forall>s \<in> set c. well_numbered env s)"
proof (cases c)
  case (Cons r rs)
  have "scoped_next scope env None r \<longleftrightarrow> well_numbered env r" by (simp add: scoped_next_def well_numbered_def)
  then show ?thesis using Cons scoped_from_Some [OF assms, of env r rs] by (auto simp: well_numbered_def)
qed simp

lemma verifyScopedChain_ok_iff:
  assumes "scope \<noteq> Full"
  shows "verifyScopedChain scope env (\<lambda>_. None) rs = Inr Valid \<longleftrightarrow> scoped_ok scope env rs"
proof -
  have "(\<forall>t. \<forall>s \<in> set (chain_of env t rs). well_numbered env s) \<longleftrightarrow> (\<forall>s \<in> set rs. well_numbered env s)"
    if "\<forall>r \<in> set rs. sealed env r"
    using that by (fastforce simp: set_chain_of sealed_def)
  then show ?thesis
    by (auto simp: verifyScopedChain_iff scoped_from_None [OF assms] scoped_ok_def)
qed

lemma unbroken_scoped:
  assumes "unbroken env c"
  shows "successively (follows scope env) c \<and> (\<forall>s \<in> set c. well_numbered env s)"
proof -
  have "successively (follows scope env) c"
    using assms by (auto simp: successively_conv_nth follows_def unbroken_def)
  moreover have "well_numbered env (c ! i)" if "i < length c" for i
    using assms that by (cases i) (auto simp: well_numbered_def unbroken_def)
  ultimately show ?thesis by (auto simp: in_set_conv_nth)
qed

lemma chain_ok_scoped: "chain_ok env rs \<Longrightarrow> scoped_ok scope env rs"
  using unbroken_scoped [of env _ scope]
  by (fastforce simp: chain_ok_def scoped_ok_def set_chain_of sealed_def)

lemma scoped_ok_mono:
  assumes "scoped_ok Windowed env rs"
  shows "scoped_ok Filtered env rs"
proof -
  have "successively (follows Filtered env) c" if "successively (follows Windowed env) c" for c
    using that by (rule successively_mono) (auto simp: follows_def split: if_splits)
  with assms show ?thesis by (simp add: scoped_ok_def)
qed

section \<open>Properties\<close>

text \<open>C1. \<open>verifyAuditRecords\<close> decides exactly this: every record names a tenant and the supported algorithms and carries the hash of its own canonical text, and the records of each tenant, in list order, are numbered 1, 2, 3, ... without gaps and each points to the hash of its predecessor, the first to null.\<close>

theorem verifyAuditRecords_iff:
  "verifyAuditRecords sha records = Inr VerOk \<longleftrightarrow> chain_ok (auditEnvelope sha) records"
  by (simp add: verifyAuditRecords_def audit_chain.verify_iff)

text \<open>\<open>verifyEvidenceEdgeRecords\<close> decides the same property of the edge records, independently of the audit chain.\<close>

theorem verifyEvidenceEdgeRecords_iff:
  "verifyEvidenceEdgeRecords sha records = Inr VerOk \<longleftrightarrow> chain_ok (edgeEnvelope sha) records"
  by (simp add: verifyEvidenceEdgeRecords_def edge_chain.verify_iff)

text \<open>A failure report is exact: the records before the reported index verify, and the record at that index breaks its tenant's chain for the reported reason in the state the earlier records leave.\<close>

theorem verifyAuditRecords_first_failure:
  assumes "verifyAuditRecords sha records = Inr (VerFail index reason)"
  shows "index < length records \<and> verifyAuditRecords sha (take index records) = Inr VerOk \<and>
    strict_verdict (auditEnvelope sha) (foldl (enter (auditEnvelope sha)) (\<lambda>_. None) (take index records)) (records ! index)
      = Inr (Some reason)"
  using audit_chain.walk_first_failure [OF assms [unfolded verifyAuditRecords_def]] by (simp add: verifyAuditRecords_def)

text \<open>C2. Tamper evidence: two verified record lists that agree in the last hash of a tenant hold the same chain for that tenant (same events, sequence numbers and envelope fields, metadata equal up to canonical form), or two of their records have different canonical texts with the same SHA-256 digest. So nothing can be changed, removed, inserted or reordered below a known head hash.\<close>

theorem verifyAuditRecords_tamper_evident:
  assumes "verifyAuditRecords sha rs = Inr VerOk" "verifyAuditRecords sha ss = Inr VerOk"
    and "chain_of (auditEnvelope sha) t rs \<noteq> []" "chain_of (auditEnvelope sha) t ss \<noteq> []"
    and "rec_hash (last (chain_of (auditEnvelope sha) t rs)) = rec_hash (last (chain_of (auditEnvelope sha) t ss))"
    and "\<forall>r \<in> set rs \<union> set ss. wf_value (event_metadata (rec_event r))"
  shows "list_all2 same_record_body (chain_of (auditEnvelope sha) t rs) (chain_of (auditEnvelope sha) t ss)
    \<or> (\<exists>r \<in> set rs. \<exists>s \<in> set ss. collision sha (canonicalJson (record_body_json r)) (canonicalJson (record_body_json s)))"
  using audit_chain.verified_head_binds [of sha rs ss t] assms
  by (simp add: verifyAuditRecords_def auditEnvelope_def)

text \<open>The same tamper evidence for chains of evidence edges.\<close>

theorem verifyEvidenceEdgeRecords_tamper_evident:
  assumes "verifyEvidenceEdgeRecords sha rs = Inr VerOk" "verifyEvidenceEdgeRecords sha ss = Inr VerOk"
    and "chain_of (edgeEnvelope sha) t rs \<noteq> []" "chain_of (edgeEnvelope sha) t ss \<noteq> []"
    and "erec_hash (last (chain_of (edgeEnvelope sha) t rs)) = erec_hash (last (chain_of (edgeEnvelope sha) t ss))"
    and "\<forall>r \<in> set rs \<union> set ss. wf_value (edge_metadata (erec_edge r))"
  shows "list_all2 same_edge_record_body (chain_of (edgeEnvelope sha) t rs) (chain_of (edgeEnvelope sha) t ss)
    \<or> (\<exists>r \<in> set rs. \<exists>s \<in> set ss.
         collision sha (canonicalJson (edge_record_body_json r)) (canonicalJson (edge_record_body_json s)))"
  using edge_chain.verified_head_binds [of sha rs ss t] assms
  by (simp add: verifyEvidenceEdgeRecords_def edgeEnvelope_def)

lemma fail_closed_Valid [simp]: "fail_closed m = Valid \<longleftrightarrow> m = Inr Valid"
  by (cases m) (simp_all add: fail_closed_def)

lemma runChainVerifier_Valid [simp]: "runChainVerifier m = Valid \<longleftrightarrow> m = Inr VerOk"
  by (cases m) (auto simp: runChainVerifier_def toChainResult_def split: verification_result.splits)

lemma verifyAuditChainScoped_Valid:
  "verifyAuditChainScoped sha rs scope = Valid \<longleftrightarrow>
     (if scope = Full then chain_ok (auditEnvelope sha) rs else scoped_ok scope (auditEnvelope sha) rs)"
  by (simp add: verifyAuditChainScoped_def verifyAuditChain_def verifyScopedChain_ok_iff
      verifyAuditRecords_def audit_chain.verify_iff)



text \<open>The scopes are ordered by strength: a bundle that verifies as full verifies as windowed, and one that verifies as windowed verifies as filtered.\<close>

theorem verifyAuditChainScoped_hierarchy:
  "(verifyAuditChainScoped sha records Full = Valid \<longrightarrow> verifyAuditChainScoped sha records Windowed = Valid) \<and>
   (verifyAuditChainScoped sha records Windowed = Valid \<longrightarrow> verifyAuditChainScoped sha records Filtered = Valid)"
  by (simp add: verifyAuditChainScoped_Valid chain_ok_scoped scoped_ok_mono)

section \<open>Concrete chains\<close>

definition zero_digest :: digest where
  "zero_digest s = replicate 64 (CHR ''0'')"

definition sample_record :: "string \<Rightarrow> int \<Rightarrow> string option \<Rightarrow> audit_record" where
  "sample_record i n p = \<lparr>rec_event = sample_event\<lparr>event_id := i\<rparr>, rec_sequence = n, rec_previousHash = p,
     rec_hash = zero_digest [], rec_hashAlgorithm = ''sha256'', rec_canonicalization = ''veritio-json-v1'',
     rec_appendedAt = ''1970-01-01T00:00:00.000Z'', rec_idempotencyKeyHash = ''k''\<rparr>"

definition sample_edge_record :: "string \<Rightarrow> int \<Rightarrow> string option \<Rightarrow> evidence_edge_record" where
  "sample_edge_record i n p = \<lparr>erec_edge = sample_edge\<lparr>edge_id := i,
       edge_scope := Some \<lparr>tenantId = Some ''t1'', workspaceId = None, environment = None\<rparr>\<rparr>,
     erec_sequence = n, erec_previousHash = p,
     erec_hash = zero_digest [], erec_hashAlgorithm = ''sha256'', erec_canonicalization = ''veritio-json-v1'',
     erec_appendedAt = ''1970-01-01T00:00:00.000Z'', erec_idempotencyKeyHash = ''k''\<rparr>"

abbreviation sample_chain :: "string \<Rightarrow> audit_record list" where
  "sample_chain i \<equiv> [sample_record ''evt_1'' 1 None, sample_record i 2 (Some (zero_digest []))]"

lemma sample_chain_verified:
  "verifyAuditRecords zero_digest (sample_chain ''evt_2'') = Inr VerOk"
  "verifyAuditRecords zero_digest (sample_chain ''evt_3'') = Inr VerOk"
  by code_simp+

theorem verifyAuditRecords_first_failure_witness:
  "verifyAuditRecords zero_digest [sample_record ''evt_1'' 1 None, sample_record ''evt_2'' 3 None] = Inr (VerFail 1 sequence_mismatch)
   \<and> verifyAuditRecords zero_digest (take 1 [sample_record ''evt_1'' 1 None, sample_record ''evt_2'' 3 None]) = Inr VerOk"
proof -
  have f: "verifyAuditRecords zero_digest [sample_record ''evt_1'' 1 None, sample_record ''evt_2'' 3 None]
      = Inr (VerFail 1 sequence_mismatch)" by code_simp
  from verifyAuditRecords_first_failure [OF f] f show ?thesis by simp
qed

theorem verifyAuditRecords_tamper_evident_witness:
  "\<exists>r \<in> set (sample_chain ''evt_2''). \<exists>s \<in> set (sample_chain ''evt_3'').
     collision zero_digest (canonicalJson (record_body_json r)) (canonicalJson (record_body_json s))"
proof -
  let ?c = "chain_of (auditEnvelope zero_digest) ''t1''"
  have ne: "?c (sample_chain ''evt_2'') \<noteq> []" "?c (sample_chain ''evt_3'') \<noteq> []" by code_simp+
  have h: "rec_hash (last (?c (sample_chain ''evt_2''))) = rec_hash (last (?c (sample_chain ''evt_3'')))" by code_simp
  have w: "\<forall>r \<in> set (sample_chain ''evt_2'') \<union> set (sample_chain ''evt_3''). wf_value (event_metadata (rec_event r))"
    by code_simp
  have "\<not> list_all2 same_record_body (?c (sample_chain ''evt_2'')) (?c (sample_chain ''evt_3''))" by code_simp
  with verifyAuditRecords_tamper_evident [OF sample_chain_verified ne h w] show ?thesis by blast
qed

theorem verifyEvidenceEdgeRecords_tamper_evident_witness:
  "\<exists>r \<in> set [sample_edge_record ''e1'' 1 None]. \<exists>s \<in> set [sample_edge_record ''e2'' 1 None].
     collision zero_digest (canonicalJson (edge_record_body_json r)) (canonicalJson (edge_record_body_json s))"
proof -
  let ?c = "chain_of (edgeEnvelope zero_digest) ''t1''"
  have v: "verifyEvidenceEdgeRecords zero_digest [sample_edge_record ''e1'' 1 None] = Inr VerOk"
    "verifyEvidenceEdgeRecords zero_digest [sample_edge_record ''e2'' 1 None] = Inr VerOk" by code_simp+
  have ne: "?c [sample_edge_record ''e1'' 1 None] \<noteq> []" "?c [sample_edge_record ''e2'' 1 None] \<noteq> []" by code_simp+
  have h: "erec_hash (last (?c [sample_edge_record ''e1'' 1 None])) = erec_hash (last (?c [sample_edge_record ''e2'' 1 None]))"
    by code_simp
  have w: "\<forall>r \<in> set [sample_edge_record ''e1'' 1 None] \<union> set [sample_edge_record ''e2'' 1 None]. wf_value (edge_metadata (erec_edge r))"
    by code_simp
  have "\<not> list_all2 same_edge_record_body (?c [sample_edge_record ''e1'' 1 None]) (?c [sample_edge_record ''e2'' 1 None])"
    by code_simp
  with verifyEvidenceEdgeRecords_tamper_evident [OF v ne h w] show ?thesis by blast
qed

theorem verifyAuditChainScoped_hierarchy_witness:
  "verifyAuditChainScoped zero_digest (sample_chain ''evt_2'') Full = Valid \<and>
   verifyAuditChainScoped zero_digest (sample_chain ''evt_2'') Windowed = Valid \<and>
   verifyAuditChainScoped zero_digest (sample_chain ''evt_2'') Filtered = Valid"
proof -
  have "verifyAuditChainScoped zero_digest (sample_chain ''evt_2'') Full = Valid" by code_simp
  then show ?thesis using verifyAuditChainScoped_hierarchy [of zero_digest "sample_chain ''evt_2''"] by blast
qed

end
