(* ===== verification/Commits.thy ===== *)
theory Commits
  imports AuditChain "HOL-Library.Multiset"
begin

text \<open>
  Evidence commits of \<^verbatim>\<open>sdks/typescript/src/index.ts\<close>: the member manifest
  (\<open>normalizeCommitMembers\<close>, \<open>cleanCommitMember\<close>), the Merkle root over it
  (\<open>computeRecordsRoot\<close>, \<open>commitLeafHash\<close>), \<open>createEvidenceCommit\<close>, \<open>hashEvidenceCommit\<close> and
  the per-stream verifier \<open>verifyEvidenceCommits\<close>.

  Shown here: the accepted manifests, that the root determines the manifest although odd
  levels duplicate their last hash, that created commits verify, and that the last commit
  hash of a stream determines its whole history.
\<close>

section \<open>Data\<close>

record commit_member =
  cm_index :: jsnumber
  cm_recordType :: string
  cm_recordId :: string
  cm_recordHash :: string

record evidence_commit_input =
  in_commitId :: string
  in_streamId :: string
  in_sequence :: jsnumber
  in_previousCommitHash :: "string option"
  in_members :: "commit_member list"
  in_committedAt :: "date_input option"

record evidence_commit =
  ec_recordType :: string
  ec_schemaVersion :: string
  ec_commitId :: string
  ec_streamId :: string
  ec_sequence :: jsnumber
  ec_previousCommitHash :: "string option"
  ec_members :: "commit_member list"
  ec_recordCount :: int
  ec_recordsRoot :: string
  ec_canonicalization :: string
  ec_hashAlgorithm :: string
  ec_treeAlgorithm :: string
  ec_committedAt :: string
  ec_hash :: string

section \<open>The member manifest\<close>

definition assertPositiveInteger :: "jsnumber \<Rightarrow> string \<Rightarrow> unit throws" where
  "assertPositiveInteger value field =
     throwUnless (case value of NInt i \<Rightarrow> 1 \<le> i | _ \<Rightarrow> False) (TypeError (field @ '' must be a positive integer''))"

definition member_record_types :: "string list" where
  "member_record_types = [''audit.record'', ''evidence.edge.record'', ''entity.revision.record'',
     ''activity.record'', ''assertion.record'', ''change.record'']"

definition isEvidenceCommitMemberRecordType :: "string \<Rightarrow> bool" where
  "isEvidenceCommitMemberRecordType value \<longleftrightarrow> value \<in> set member_record_types"

definition cleanCommitMember :: "commit_member \<Rightarrow> commit_member throws" where
  "cleanCommitMember member =
     andThen (throwUnless (case cm_index member of NInt i \<Rightarrow> 0 \<le> i | _ \<Rightarrow> False)
        (TypeError ''member index must be a non-negative integer'')) (\<lambda>_.
     andThen (throwUnless (isEvidenceCommitMemberRecordType (cm_recordType member))
        (TypeError ''recordType must be a supported commit member record type'')) (\<lambda>_.
     andThen (assertNonEmpty (cm_recordId member) ''recordId'') (\<lambda>_.
     andThen (throwUnless (is_sha256_digest (cm_recordHash member))
        (TypeError ''recordHash must be a sha256 digest'')) (\<lambda>_.
     Inr \<lparr>cm_index = cm_index member, cm_recordType = cm_recordType member,
          cm_recordId = cm_recordId member, cm_recordHash = cm_recordHash member\<rparr>))))"

text \<open>The integer that the comparator \<open>left.index - right.index\<close> and the contiguity test read; the
  cleaned members have integer indices.\<close>

definition index_of :: "commit_member \<Rightarrow> int" where
  "index_of m = (case cm_index m of NInt i \<Rightarrow> i | _ \<Rightarrow> 0)"

definition member_identity :: "commit_member \<Rightarrow> string" where
  "member_identity m = cm_recordType m @ [NUL] @ cm_recordId m"

fun check_members :: "int \<Rightarrow> string list \<Rightarrow> commit_member list \<Rightarrow> unit throws" where
  "check_members expectedIndex identities [] = Inr ()"
| "check_members expectedIndex identities (member # rest) =
     (if index_of member \<noteq> expectedIndex then Inl (TypeError ''member indices must be contiguous from zero'')
      else if member_identity member \<in> set identities then Inl (TypeError ''duplicate commit member'')
      else check_members (expectedIndex + 1) (member_identity member # identities) rest)"

definition normalizeCommitMembers :: "commit_member list \<Rightarrow> commit_member list throws" where
  "normalizeCommitMembers members =
     andThen (throwUnless (members \<noteq> []) (TypeError ''members must not be empty'')) (\<lambda>_.
     andThen (collect (map cleanCommitMember members)) (\<lambda>cleaned.
     let sorted = sort_key index_of cleaned in
     andThen (check_members 0 [] sorted) (\<lambda>_. Inr sorted)))"

section \<open>The Merkle root\<close>

definition leaf_json :: "commit_member \<Rightarrow> jsval" where
  "leaf_json member = JObj [(''domain'', JStr ''veritio-record-leaf-v1''), (''index'', JNum (cm_index member)),
     (''recordType'', JStr (cm_recordType member)), (''recordId'', JStr (cm_recordId member)),
     (''recordHash'', JStr (cm_recordHash member))]"

definition node_json :: "string \<Rightarrow> string \<Rightarrow> jsval" where
  "node_json left right = JObj [(''domain'', JStr ''veritio-merkle-node-v1''), (''left'', JStr left), (''right'', JStr right)]"

definition commitLeafHash :: "digest \<Rightarrow> commit_member \<Rightarrow> string throws" where
  "commitLeafHash sha member = andThen (canonicalJson (leaf_json member)) (\<lambda>t. Inr (prefixedSha256 sha t))"

definition node_hash :: "digest \<Rightarrow> string \<Rightarrow> string \<Rightarrow> string throws" where
  "node_hash sha left right = andThen (canonicalJson (node_json left right)) (\<lambda>t. Inr (prefixedSha256 sha t))"

text \<open>The \<open>for\<close> loop over a level: the last hash of an odd level is its own right sibling.\<close>

fun level_pairs :: "string list \<Rightarrow> (string \<times> string) list" where
  "level_pairs [] = []"
| "level_pairs [left] = [(left, left)]"
| "level_pairs (left # right # rest) = (left, right) # level_pairs rest"

definition next_level :: "digest \<Rightarrow> string list \<Rightarrow> string list throws" where
  "next_level sha level = collect (map (\<lambda>(left, right). node_hash sha left right) (level_pairs level))"

lemma length_level_pairs: "2 * length (level_pairs xs) \<le> Suc (length xs)"
  by (induction xs rule: level_pairs.induct) auto

lemma next_level_shorter: "next_level sha level = Inr up \<Longrightarrow> 1 < length level \<Longrightarrow> length up < length level"
  using length_level_pairs [of level]
  by (auto simp: next_level_def collect_Inr_iff dest: arg_cong [where f = length])

text \<open>The \<open>while\<close> loop. The callers pass a nonempty manifest; \<open>level[0]!\<close> of an empty one is no hash.\<close>

function reduce_levels :: "digest \<Rightarrow> string list \<Rightarrow> string throws" where
  "reduce_levels sha level =
     (if 1 < length level then andThen (next_level sha level) (reduce_levels sha)
      else case level of [] \<Rightarrow> Inl (TypeError ''no commit members'') | root # _ \<Rightarrow> Inr root)"
  by pat_completeness auto
termination
  by (relation "measure (\<lambda>(sha, level). length level)") (auto simp: next_level_shorter)

declare reduce_levels.simps [simp del]

definition computeRecordsRoot :: "digest \<Rightarrow> commit_member list \<Rightarrow> string throws" where
  "computeRecordsRoot sha members =
     andThen (collect (map (commitLeafHash sha) members)) (reduce_levels sha)"

section \<open>Commits\<close>

definition member_json :: "commit_member \<Rightarrow> jsval" where
  "member_json m = JObj [(''index'', JNum (cm_index m)), (''recordType'', JStr (cm_recordType m)),
     (''recordId'', JStr (cm_recordId m)), (''recordHash'', JStr (cm_recordHash m))]"

text \<open>The commit without its \<open>hash\<close> property, under the domain marker.\<close>

definition commit_body_json :: "evidence_commit \<Rightarrow> jsval" where
  "commit_body_json c = JObj [
     (''recordType'', JStr (ec_recordType c)), (''schemaVersion'', JStr (ec_schemaVersion c)),
     (''commitId'', JStr (ec_commitId c)), (''streamId'', JStr (ec_streamId c)),
     (''sequence'', JNum (ec_sequence c)), (''previousCommitHash'', nullable_json (ec_previousCommitHash c)),
     (''members'', JArr (map member_json (ec_members c))), (''recordCount'', JNum (NInt (ec_recordCount c))),
     (''recordsRoot'', JStr (ec_recordsRoot c)), (''canonicalization'', JStr (ec_canonicalization c)),
     (''hashAlgorithm'', JStr (ec_hashAlgorithm c)), (''treeAlgorithm'', JStr (ec_treeAlgorithm c)),
     (''committedAt'', JStr (ec_committedAt c))]"

definition commit_json :: "evidence_commit \<Rightarrow> jsval" where
  "commit_json c = JObj [(''domain'', JStr ''veritio-commit-v1''), (''commit'', commit_body_json c)]"

definition hashEvidenceCommit :: "digest \<Rightarrow> evidence_commit \<Rightarrow> string throws" where
  "hashEvidenceCommit sha commit = andThen (canonicalJson (commit_json commit)) (\<lambda>t. Inr (prefixedSha256 sha t))"

definition createEvidenceCommit :: "host \<Rightarrow> digest \<Rightarrow> evidence_commit_input \<Rightarrow> evidence_commit throws" where
  "createEvidenceCommit h sha input =
     andThen (assertNonEmpty (in_commitId input) ''commitId'') (\<lambda>_.
     andThen (assertNonEmpty (in_streamId input) ''streamId'') (\<lambda>_.
     andThen (assertPositiveInteger (in_sequence input) ''sequence'') (\<lambda>_.
     andThen (throwUnless (case in_previousCommitHash input of None \<Rightarrow> True | Some d \<Rightarrow> is_sha256_digest d)
        (TypeError ''previousCommitHash must be null or sha256 digest'')) (\<lambda>_.
     andThen (normalizeCommitMembers (in_members input)) (\<lambda>members.
     andThen (computeRecordsRoot sha members) (\<lambda>recordsRoot.
     andThen (normalizeDate h (case in_committedAt input of Some d \<Rightarrow> d | None \<Rightarrow> DateObject (Some (now h)))) (\<lambda>committedAt.
     let commitWithoutHash = \<lparr>ec_recordType = ''evidence.commit'', ec_schemaVersion = EVIDENCE_COMMIT_SCHEMA_VERSION,
           ec_commitId = in_commitId input, ec_streamId = in_streamId input, ec_sequence = in_sequence input,
           ec_previousCommitHash = in_previousCommitHash input, ec_members = members,
           ec_recordCount = int (length members), ec_recordsRoot = recordsRoot,
           ec_canonicalization = CANONICALIZATION, ec_hashAlgorithm = HASH_ALGORITHM,
           ec_treeAlgorithm = EVIDENCE_COMMIT_TREE_ALGORITHM, ec_committedAt = committedAt, ec_hash = []\<rparr>
     in andThen (hashEvidenceCommit sha commitWithoutHash) (\<lambda>d. Inr (commitWithoutHash\<lparr>ec_hash := d\<rparr>)))))))))"

fun verifyEvidenceCommits_from :: "digest \<Rightarrow> chain_state \<Rightarrow> nat \<Rightarrow> evidence_commit list \<Rightarrow> verification_result throws" where
  "verifyEvidenceCommits_from sha streamState index [] = Inr VerOk"
| "verifyEvidenceCommits_from sha streamState index (commit # rest) =
     (if ec_hashAlgorithm commit \<noteq> HASH_ALGORITHM then Inr (VerFail index unsupported_hash_algorithm)
      else if ec_canonicalization commit \<noteq> CANONICALIZATION then Inr (VerFail index unsupported_canonicalization)
      else if ec_treeAlgorithm commit \<noteq> EVIDENCE_COMMIT_TREE_ALGORITHM then Inr (VerFail index unsupported_tree_algorithm)
      else if ec_streamId commit = [] then Inr (VerFail index invalid_member_manifest)
      else if ec_previousCommitHash commit \<noteq> link_previousHash (link_of streamState (ec_streamId commit))
        then Inr (VerFail index previous_hash_mismatch)
      else if ec_sequence commit \<noteq> NInt (link_sequence (link_of streamState (ec_streamId commit)) + 1)
        then Inr (VerFail index sequence_mismatch)
      else (case normalizeCommitMembers (ec_members commit) of
          Inl e \<Rightarrow> Inr (VerFail index invalid_member_manifest)
        | Inr members \<Rightarrow>
            if ec_recordCount commit \<noteq> int (length members) then Inr (VerFail index record_count_mismatch)
            else andThen (computeRecordsRoot sha members) (\<lambda>root.
              if ec_recordsRoot commit \<noteq> root then Inr (VerFail index records_root_mismatch)
              else andThen (hashEvidenceCommit sha commit) (\<lambda>d.
                if ec_hash commit \<noteq> d then Inr (VerFail index hash_mismatch)
                else verifyEvidenceCommits_from sha
                  (streamState(ec_streamId commit \<mapsto> \<lparr>link_previousHash = Some (ec_hash commit),
                     link_sequence = (case ec_sequence commit of NInt i \<Rightarrow> i | _ \<Rightarrow> 0)\<rparr>))
                  (Suc index) rest))))"

definition verifyEvidenceCommits :: "digest \<Rightarrow> evidence_commit list \<Rightarrow> verification_result throws" where
  "verifyEvidenceCommits sha commits = verifyEvidenceCommits_from sha (\<lambda>_. None) 0 commits"

section \<open>Accepted manifests\<close>

definition valid_member :: "commit_member \<Rightarrow> bool" where
  "valid_member m \<longleftrightarrow> (\<exists>i \<ge> 0. cm_index m = NInt i) \<and> isEvidenceCommitMemberRecordType (cm_recordType m) \<and>
     \<not> blank (cm_recordId m) \<and> is_sha256_digest (cm_recordHash m)"

definition member_key :: "commit_member \<Rightarrow> string \<times> string" where
  "member_key m = (cm_recordType m, cm_recordId m)"

definition manifest :: "commit_member list \<Rightarrow> bool" where
  "manifest ms \<longleftrightarrow> ms \<noteq> [] \<and> (\<forall>m \<in> set ms. valid_member m) \<and>
     (\<forall>i < length ms. cm_index (ms ! i) = NInt (int i)) \<and> distinct (map member_key ms)"

lemma cleanCommitMember_iff: "cleanCommitMember m = Inr n \<longleftrightarrow> valid_member m \<and> n = m"
  by (auto simp: cleanCommitMember_def valid_member_def assertNonEmpty_def andThen_Inr_iff split: jsnumber.splits)

lemma collect_clean_iff:
  "collect (map cleanCommitMember ms) = Inr ns \<longleftrightarrow> (\<forall>m \<in> set ms. valid_member m) \<and> ns = ms"
proof (induction ms arbitrary: ns)
  case (Cons m ms)
  then show ?case by (auto simp: andThen_Inr_iff cleanCommitMember_iff)
qed auto

lemma member_types_NUL: "isEvidenceCommitMemberRecordType s \<Longrightarrow> NUL \<notin> set s"
  by (auto simp: isEvidenceCommitMemberRecordType_def member_record_types_def NUL_def)

lemma member_identity_inject:
  assumes "valid_member m" "valid_member n"
  shows "member_identity m = member_identity n \<longleftrightarrow> member_key m = member_key n"
proof
  assume "member_identity m = member_identity n"
  then show "member_key m = member_key n"
    using separator_unique [of "cm_recordType m" NUL "cm_recordId m" "cm_recordType n" "cm_recordId n"] assms member_types_NUL
    by (simp add: member_identity_def member_key_def valid_member_def)
qed (simp add: member_identity_def member_key_def)

lemma check_members_iff:
  "check_members k seen ms = Inr u \<longleftrightarrow>
     (\<forall>i < length ms. index_of (ms ! i) = k + int i) \<and> distinct (map member_identity ms) \<and>
     set (map member_identity ms) \<inter> set seen = {}"
proof (induction ms arbitrary: k seen)
  case (Cons m ms)
  have "(\<forall>i < length (m # ms). index_of ((m # ms) ! i) = k + int i) \<longleftrightarrow>
      index_of m = k \<and> (\<forall>i < length ms. index_of (ms ! i) = k + 1 + int i)"
    by (auto simp: less_Suc_eq_0_disj)
  then show ?case using Cons by auto
qed simp

lemma distinct_identities:
  assumes "\<forall>m \<in> set ms. valid_member m"
  shows "distinct (map member_identity ms) \<longleftrightarrow> distinct (map member_key ms)"
  using assms
proof (induction ms)
  case (Cons m ms)
  have "member_identity m \<in> member_identity ` set ms \<longleftrightarrow> member_key m \<in> member_key ` set ms"
    using Cons.prems member_identity_inject by (auto simp: image_iff)
  with Cons show ?case by simp
qed simp

lemma valid_index: "valid_member m \<Longrightarrow> cm_index m = NInt (index_of m)"
  by (auto simp: valid_member_def index_of_def)

lemma manifest_sorted:
  assumes "manifest ms"
  shows "sorted (map index_of ms)"
proof -
  have "map index_of ms = map int [0..<length ms]"
    using assms by (intro nth_equalityI) (auto simp: manifest_def index_of_def)
  then show ?thesis by (simp add: sorted_iff_nth_mono)
qed

lemma manifest_index_inj:
  assumes "manifest ms"
  shows "inj_on index_of (set ms)"
proof (rule inj_onI)
  fix x y assume "x \<in> set ms" "y \<in> set ms" "index_of x = index_of y"
  then show "x = y" using assms by (auto simp: manifest_def in_set_conv_nth index_of_def)
qed

lemma normalizeCommitMembers_iff:
  "normalizeCommitMembers ms = Inr ss \<longleftrightarrow> manifest ss \<and> mset ss = mset ms"
proof
  assume "normalizeCommitMembers ms = Inr ss"
  then have ms: "ms \<noteq> []" "\<forall>m \<in> set ms. valid_member m" and ss: "ss = sort_key index_of ms"
    and chk: "check_members 0 [] (sort_key index_of ms) = Inr ()"
    by (auto simp: normalizeCommitMembers_def Let_def andThen_Inr_iff collect_clean_iff)
  have v: "\<forall>m \<in> set ss. valid_member m" using ms ss by simp
  have "\<forall>i < length ss. cm_index (ss ! i) = NInt (int i)"
    using chk v valid_index [OF v [rule_format, OF nth_mem]] by (simp add: check_members_iff ss)
  moreover have "distinct (map member_key ss)"
    using chk distinct_identities [OF v] by (simp add: check_members_iff ss)
  moreover have "ss \<noteq> []" using ms(1) ss by (metis length_0_conv length_sort)
  ultimately show "manifest ss \<and> mset ss = mset ms" using v ss by (simp add: manifest_def)
next
  assume a: "manifest ss \<and> mset ss = mset ms"
  then have m: "manifest ss" and eq: "mset ss = mset ms" by auto
  have srt: "sort_key index_of ms = ss"
    using eq manifest_sorted [OF m] manifest_index_inj [OF m] mset_eq_setD [OF eq]
    by (intro sort_key_inj_key_eq) simp_all
  have "\<forall>m \<in> set ms. valid_member m" using m mset_eq_setD [OF eq] by (simp add: manifest_def)
  moreover have "ms \<noteq> []" using m eq by (auto simp: manifest_def)
  moreover have "check_members 0 [] ss = Inr ()"
    using m distinct_identities [of ss] by (simp add: check_members_iff manifest_def index_of_def)
  ultimately show "normalizeCommitMembers ms = Inr ss"
    by (simp add: normalizeCommitMembers_def Let_def srt collect_clean_iff andThen_Inr_iff)
qed

section \<open>The root determines the manifest\<close>

lemma normalize_number_eq:
  "normalizeForJson (JNum a) = Inr x \<Longrightarrow> normalizeForJson (JNum b) = Inr x \<Longrightarrow> a = b"
  by (auto simp: normalizeForJson.simps split: if_splits)

lemma leaf_json_eq:
  assumes "normalizeForJson (leaf_json m) = Inr x" "normalizeForJson (leaf_json n) = Inr x"
  shows "m = n"
proof -
  from object_fields_eq [OF assms [unfolded leaf_json_def]]
  have f: "normalizeForJson (JNum (cm_index m)) = normalizeForJson (JNum (cm_index n))"
    "cm_recordType m = cm_recordType n" "cm_recordId m = cm_recordId n" "cm_recordHash m = cm_recordHash n"
    by (simp_all add: proto_key_def)
  from normalize_member_ok [OF assms(1) [unfolded leaf_json_def], of "(''index'', JNum (cm_index m))"]
  obtain y where "normalizeForJson (JNum (cm_index m)) = Inr y" by auto
  with f(1) have "cm_index m = cm_index n" by (metis normalize_number_eq)
  with f(2-) show ?thesis by simp
qed

lemma node_json_eq:
  assumes "normalizeForJson (node_json l r) = Inr x" "normalizeForJson (node_json l' r') = Inr x"
  shows "l = l' \<and> r = r'"
  using object_fields_eq [OF assms [unfolded node_json_def]] by (simp add: proto_key_def)

lemma leaf_not_node:
  assumes "normalizeForJson (leaf_json m) = Inr x"
  shows "normalizeForJson (node_json l r) \<noteq> Inr x"
proof
  assume "normalizeForJson (node_json l r) = Inr x"
  from object_field_eq [OF _ _ _ _ _ assms [unfolded leaf_json_def] this [unfolded node_json_def],
      of "''domain''" "JStr ''veritio-record-leaf-v1''" "JStr ''veritio-merkle-node-v1''"]
  show False by (simp add: proto_key_def)
qed

text \<open>The tree's values as one document type: leaves and inner nodes never share a text.\<close>

datatype tree_value = Leaf commit_member | Node string string

fun tree_json :: "tree_value \<Rightarrow> jsval" where
  "tree_json (Leaf m) = leaf_json m"
| "tree_json (Node l r) = node_json l r"

fun wf_tree_value :: "tree_value \<Rightarrow> bool" where
  "wf_tree_value (Leaf m) = (\<exists>i. cm_index m = NInt i)"
| "wf_tree_value (Node l r) = True"

interpretation tree_doc: hashed_document tree_json wf_tree_value "(=)"
proof
  show "wf_value (tree_json v)" if "wf_tree_value v" for v
    using that by (cases v) (auto simp: leaf_json_def node_json_def)
  show "v = w" if "normalizeForJson (tree_json v) = Inr x" "normalizeForJson (tree_json w) = Inr x" for v w x
    using that by (cases v; cases w) (auto dest: leaf_json_eq node_json_eq leaf_not_node)
qed

definition tree_hash :: "digest \<Rightarrow> tree_value \<Rightarrow> string" where
  "tree_hash sha v = projr (andThen (canonicalJson (tree_json v)) (\<lambda>t. Inr (prefixedSha256 sha t)))"

lemma tree_hash_total:
  assumes "wf_tree_value v"
  shows "andThen (canonicalJson (tree_json v)) (\<lambda>t. Inr (prefixedSha256 sha t)) = Inr (tree_hash sha v)"
proof -
  have "\<exists>t. canonicalJson (tree_json v) = Inr t"
    using assms by (cases v) (auto simp: leaf_json_def node_json_def intro!: canonical_object_total)
  then show ?thesis by (auto simp: tree_hash_def)
qed

lemma tree_hash_inj:
  assumes "wf_tree_value v" "wf_tree_value w" "tree_hash sha v = tree_hash sha w"
  shows "v = w \<or> collision sha (canonicalJson (tree_json v)) (canonicalJson (tree_json w))"
  using tree_doc.hash_binds [OF assms(1,2), of "prefixedSha256 sha" "tree_hash sha v"]
    tree_hash_total [OF assms(1)] tree_hash_total [OF assms(2)] assms(3) by simp

lemma node_hash_eq: "node_hash sha l r = Inr (tree_hash sha (Node l r))"
  using tree_hash_total [of "Node l r" sha] by (simp add: node_hash_def)

lemma commitLeafHash_eq: "\<exists>i. cm_index m = NInt i \<Longrightarrow> commitLeafHash sha m = Inr (tree_hash sha (Leaf m))"
  using tree_hash_total [of "Leaf m" sha] by (simp add: commitLeafHash_def)

definition up :: "digest \<Rightarrow> string list \<Rightarrow> string list" where
  "up sha level = map (\<lambda>(l, r). tree_hash sha (Node l r)) (level_pairs level)"

lemma next_level_eq: "next_level sha level = Inr (up sha level)"
proof -
  have "map (\<lambda>(l, r). node_hash sha l r) (level_pairs level) = map Inr (up sha level)"
    by (auto simp: up_def node_hash_eq)
  then show ?thesis by (simp add: next_level_def)
qed

lemma set_level_pairs: "set level = fst ` set (level_pairs level) \<union> snd ` set (level_pairs level)"
  by (induction level rule: level_pairs.induct) auto

lemma level_pairs_Nil_iff [simp]: "level_pairs xs = [] \<longleftrightarrow> xs = []"
  by (cases xs rule: level_pairs.cases) auto

lemma up_Nil_iff [simp]: "up sha xs = [] \<longleftrightarrow> xs = []"
  by (simp add: up_def)

lemma up_shorter: "Suc 0 < length level \<Longrightarrow> length (up sha level) < length level"
  using length_level_pairs [of level] by (simp add: up_def)

text \<open>All inner nodes that the reduction of a level hashes.\<close>

function level_nodes :: "digest \<Rightarrow> string list \<Rightarrow> (string \<times> string) list" where
  "level_nodes sha level = (if 1 < length level then level_pairs level @ level_nodes sha (up sha level) else [])"
  by pat_completeness auto
termination
  by (relation "measure (\<lambda>(sha, level). length level)") (simp_all add: up_shorter)

declare level_nodes.simps [simp del]

definition leaf_hashes :: "digest \<Rightarrow> commit_member list \<Rightarrow> string list" where
  "leaf_hashes sha ms = map (\<lambda>m. tree_hash sha (Leaf m)) ms"

definition tree_values :: "digest \<Rightarrow> commit_member list \<Rightarrow> tree_value list" where
  "tree_values sha ms = map Leaf ms @
     map (\<lambda>(l, r). Node l r) (level_nodes sha (leaf_hashes sha ms))"

lemma reduce_levels_iterates:
  assumes "level \<noteq> []"
  shows "\<exists>k root. reduce_levels sha level = Inr root \<and> (up sha ^^ k) level = [root] \<and>
    (\<forall>j < k. set (level_pairs ((up sha ^^ j) level)) \<subseteq> set (level_nodes sha level))"
  using assms
proof (induction sha level rule: level_nodes.induct)
  case (1 sha level)
  show ?case
  proof (cases "1 < length level")
    case True
    with 1 obtain k root where k: "reduce_levels sha (up sha level) = Inr root" "(up sha ^^ k) (up sha level) = [root]"
      "\<forall>j < k. set (level_pairs ((up sha ^^ j) (up sha level))) \<subseteq> set (level_nodes sha (up sha level))" by auto
    have "set (level_pairs ((up sha ^^ j) level)) \<subseteq> set (level_nodes sha level)" if "j < Suc k" for j
      using that True k(3) by (cases j) (auto simp: level_nodes.simps [of sha level] funpow_swap1)
    with k True show ?thesis
      by (intro exI [of _ "Suc k"] exI [of _ root])
        (simp add: reduce_levels.simps [of sha level] next_level_eq funpow_swap1)
  next
    case False
    with 1 have "level = [hd level]" by (cases level) auto
    with False show ?thesis
      by (intro exI [of _ 0] exI [of _ "hd level"]) (auto simp: reduce_levels.simps [of sha level] split: list.splits)
  qed
qed

text \<open>The values whose hashes form the level at height \<open>j\<close>.\<close>

definition values_at :: "digest \<Rightarrow> commit_member list \<Rightarrow> nat \<Rightarrow> tree_value set" where
  "values_at sha ms j = (case j of 0 \<Rightarrow> Leaf ` set ms
     | Suc i \<Rightarrow> (\<lambda>(l, r). Node l r) ` set (level_pairs ((up sha ^^ i) (leaf_hashes sha ms))))"

lemma level_values: "set ((up sha ^^ j) (leaf_hashes sha ms)) = tree_hash sha ` values_at sha ms j"
  by (cases j) (auto simp: values_at_def leaf_hashes_def up_def image_iff)

lemma same_pairs: "set (level_pairs xs) = set (level_pairs ys) \<Longrightarrow> set xs = set ys"
  by (metis set_level_pairs)

lemma values_at_wf: "\<forall>m \<in> set ms. \<exists>i. cm_index m = NInt i \<Longrightarrow> v \<in> values_at sha ms j \<Longrightarrow> wf_tree_value v"
  by (cases j) (auto simp: values_at_def)

lemma inj_image_same:
  assumes "\<forall>v \<in> A. \<forall>w \<in> B. f v = f w \<longrightarrow> v = w" "f ` A = f ` B"
  shows "A = B"
proof (intro equalityI subsetI)
  fix v assume v: "v \<in> A"
  then have "f v \<in> f ` B" using assms(2) by auto
  with v assms(1) show "v \<in> B" by auto
next
  fix w assume w: "w \<in> B"
  then have "f w \<in> f ` A" using assms(2) by auto
  then obtain v where "v \<in> A" "f w = f v" by auto
  with w assms(1) show "w \<in> A" by metis
qed

lemma equal_levels_descend:
  assumes inj: "\<forall>a \<le> j. \<forall>b \<le> k. \<forall>v \<in> values_at sha ms a. \<forall>w \<in> values_at sha ns b.
      tree_hash sha v = tree_hash sha w \<longrightarrow> v = w"
    and ne: "ms \<noteq> []" "ns \<noteq> []"
    and eq: "set ((up sha ^^ j) (leaf_hashes sha ms)) = set ((up sha ^^ k) (leaf_hashes sha ns))"
  shows "set ms = set ns"
  using inj eq
proof (induction j arbitrary: k)
  case 0
  have vals: "values_at sha ms 0 = values_at sha ns k"
    by (rule inj_image_same [OF _ 0(2) [unfolded level_values]]) (use 0(1) in blast)
  show ?case
  proof (cases k)
    case 0
    with vals show ?thesis by (auto simp: values_at_def inj_image_eq_iff inj_def)
  next
    case (Suc i)
    from ne(1) obtain m where "m \<in> set ms" by (cases ms) auto
    with vals Suc show ?thesis by (auto simp: values_at_def)
  qed
next
  case (Suc j)
  have vals: "values_at sha ms (Suc j) = values_at sha ns k"
    by (rule inj_image_same [OF _ Suc.prems(2) [unfolded level_values]]) (use Suc.prems(1) order_refl in blast)
  show ?case
  proof (cases k)
    case 0
    from ne(2) obtain m where "m \<in> set ns" by (cases ns) auto
    with vals 0 show ?thesis by (auto simp: values_at_def)
  next
    case k: (Suc i)
    have "inj (\<lambda>(l, r). Node l r)" by (auto simp: inj_def)
    with vals k have "set (level_pairs ((up sha ^^ j) (leaf_hashes sha ms))) = set (level_pairs ((up sha ^^ i) (leaf_hashes sha ns)))"
      by (simp add: values_at_def inj_image_eq_iff)
    moreover have "\<forall>a \<le> j. \<forall>b \<le> i. \<forall>v \<in> values_at sha ms a. \<forall>w \<in> values_at sha ns b.
        tree_hash sha v = tree_hash sha w \<longrightarrow> v = w" using Suc.prems(1) k le_SucI by blast
    ultimately show ?thesis using Suc.IH same_pairs by blast
  qed
qed

lemma manifests_equal:
  assumes "manifest ms" "manifest ns" "set ms = set ns"
  shows "ms = ns"
proof -
  have d: "distinct ms" "distinct ns" using assms(1,2) by (simp_all add: manifest_def distinct_map)
  then have len: "length ms = length ns" using assms(3) by (metis distinct_card)
  show ?thesis
  proof (rule nth_equalityI [OF len])
    fix i assume i: "i < length ms"
    then have "ms ! i \<in> set ns" using assms(3) nth_mem by metis
    then obtain j where "j < length ns" "ns ! j = ms ! i" by (auto simp: in_set_conv_nth)
    with assms(1,2) i show "ms ! i = ns ! i" by (simp add: manifest_def) (metis jsnumber.inject(1) of_nat_eq_iff)
  qed
qed

lemma computeRecordsRoot_eq:
  assumes "manifest ms"
  shows "computeRecordsRoot sha ms = reduce_levels sha (leaf_hashes sha ms)"
proof -
  have "map (commitLeafHash sha) ms = map Inr (leaf_hashes sha ms)"
    using assms commitLeafHash_eq by (auto simp: leaf_hashes_def manifest_def valid_member_def)
  then show ?thesis by (simp add: computeRecordsRoot_def)
qed

lemma computeRecordsRoot_levels:
  assumes "manifest ms"
  shows "\<exists>k root. computeRecordsRoot sha ms = Inr root \<and> (up sha ^^ k) (leaf_hashes sha ms) = [root] \<and>
    (\<forall>j \<le> k. values_at sha ms j \<subseteq> set (tree_values sha ms))"
proof -
  have "leaf_hashes sha ms \<noteq> []" using assms by (simp add: leaf_hashes_def manifest_def)
  from reduce_levels_iterates [OF this, of sha] obtain k root where
    k: "reduce_levels sha (leaf_hashes sha ms) = Inr root" "(up sha ^^ k) (leaf_hashes sha ms) = [root]"
    "\<forall>j < k. set (level_pairs ((up sha ^^ j) (leaf_hashes sha ms))) \<subseteq> set (level_nodes sha (leaf_hashes sha ms))"
    by blast
  have "values_at sha ms j \<subseteq> set (tree_values sha ms)" if "j \<le> k" for j
  proof (cases j)
    case (Suc i)
    with that k(3) have "set (level_pairs ((up sha ^^ i) (leaf_hashes sha ms))) \<subseteq> set (level_nodes sha (leaf_hashes sha ms))"
      by simp
    with Suc show ?thesis by (auto simp: values_at_def tree_values_def)
  qed (auto simp: values_at_def tree_values_def)
  with k assms show ?thesis by (auto simp: computeRecordsRoot_eq)
qed

lemma root_binds_manifest:
  assumes "manifest ms" "manifest ns" "computeRecordsRoot sha ms = computeRecordsRoot sha ns"
  shows "ms = ns \<or> (\<exists>v \<in> set (tree_values sha ms). \<exists>w \<in> set (tree_values sha ns).
    collision sha (canonicalJson (tree_json v)) (canonicalJson (tree_json w)))"
proof (rule disjCI)
  assume nc: "\<not> (\<exists>v \<in> set (tree_values sha ms). \<exists>w \<in> set (tree_values sha ns).
    collision sha (canonicalJson (tree_json v)) (canonicalJson (tree_json w)))"
  obtain j r where j: "computeRecordsRoot sha ms = Inr r" "(up sha ^^ j) (leaf_hashes sha ms) = [r]"
    "\<And>i. i \<le> j \<Longrightarrow> values_at sha ms i \<subseteq> set (tree_values sha ms)"
    using computeRecordsRoot_levels [OF assms(1), of sha] by blast
  obtain k s where k: "computeRecordsRoot sha ns = Inr s" "(up sha ^^ k) (leaf_hashes sha ns) = [s]"
    "\<And>i. i \<le> k \<Longrightarrow> values_at sha ns i \<subseteq> set (tree_values sha ns)"
    using computeRecordsRoot_levels [OF assms(2), of sha] by blast
  have wf: "\<forall>m \<in> set ms. \<exists>i. cm_index m = NInt i" "\<forall>m \<in> set ns. \<exists>i. cm_index m = NInt i"
    using assms(1,2) by (auto simp: manifest_def valid_member_def)
  have inj: "v = w" if "a \<le> j" "b \<le> k" "v \<in> values_at sha ms a" "w \<in> values_at sha ns b" "tree_hash sha v = tree_hash sha w"
    for a b v w
    using tree_hash_inj [OF values_at_wf [OF wf(1) that(3)] values_at_wf [OF wf(2) that(4)] that(5)]
      nc j(3) [OF that(1)] k(3) [OF that(2)] that(3,4) by blast
  have "set ms = set ns"
    using assms j(1,2) k(1,2) inj by (intro equal_levels_descend [of j k sha]) (auto simp: manifest_def)
  then show "ms = ns" by (rule manifests_equal [OF assms(1,2)])
qed

section \<open>The commit chain of a stream\<close>

definition commitEnvelope :: "digest \<Rightarrow> evidence_commit envelope" where
  "commitEnvelope sha = \<lparr>env_tenantId = (\<lambda>c. Some (ec_streamId c)), env_hashAlgorithm = ec_hashAlgorithm,
     env_canonicalization = ec_canonicalization, env_hash = ec_hash, env_previousHash = ec_previousCommitHash,
     env_sequence = (\<lambda>c. case ec_sequence c of NInt i \<Rightarrow> i | _ \<Rightarrow> 0), env_recomputeHash = hashEvidenceCommit sha\<rparr>"

text \<open>What the verifier asks of a commit apart from its place in the stream.\<close>

definition commit_ok :: "digest \<Rightarrow> evidence_commit \<Rightarrow> bool" where
  "commit_ok sha c \<longleftrightarrow> ec_hashAlgorithm c = HASH_ALGORITHM \<and> ec_canonicalization c = CANONICALIZATION \<and>
     ec_treeAlgorithm c = EVIDENCE_COMMIT_TREE_ALGORITHM \<and> is_integer (ec_sequence c) \<and>
     (\<exists>members. manifest members \<and> mset members = mset (ec_members c) \<and>
        ec_recordCount c = int (length members) \<and> computeRecordsRoot sha members = Inr (ec_recordsRoot c)) \<and>
     hashEvidenceCommit sha c = Inr (ec_hash c)"

definition commit_verdict :: "digest \<Rightarrow> chain_state \<Rightarrow> evidence_commit \<Rightarrow> verification_reason option throws" where
  "commit_verdict sha st c =
     (if ec_hashAlgorithm c \<noteq> HASH_ALGORITHM then Inr (Some unsupported_hash_algorithm)
      else if ec_canonicalization c \<noteq> CANONICALIZATION then Inr (Some unsupported_canonicalization)
      else if ec_treeAlgorithm c \<noteq> EVIDENCE_COMMIT_TREE_ALGORITHM then Inr (Some unsupported_tree_algorithm)
      else if ec_streamId c = [] then Inr (Some invalid_member_manifest)
      else if ec_previousCommitHash c \<noteq> link_previousHash (link_of st (ec_streamId c))
        then Inr (Some previous_hash_mismatch)
      else if ec_sequence c \<noteq> NInt (link_sequence (link_of st (ec_streamId c)) + 1) then Inr (Some sequence_mismatch)
      else (case normalizeCommitMembers (ec_members c) of
          Inl e \<Rightarrow> Inr (Some invalid_member_manifest)
        | Inr members \<Rightarrow>
            if ec_recordCount c \<noteq> int (length members) then Inr (Some record_count_mismatch)
            else andThen (computeRecordsRoot sha members) (\<lambda>root.
              if ec_recordsRoot c \<noteq> root then Inr (Some records_root_mismatch)
              else andThen (hashEvidenceCommit sha c) (\<lambda>d. Inr (if ec_hash c \<noteq> d then Some hash_mismatch else None)))))"

lemma stream_of [simp]: "tenant_of (commitEnvelope sha) c = (if ec_streamId c = [] then None else Some (ec_streamId c))"
  by (auto simp: tenant_of_def commitEnvelope_def truthy_def split: list.split)

lemma commit_accessors [simp]:
  "env_sequence (commitEnvelope sha) c = (case ec_sequence c of NInt i \<Rightarrow> i | _ \<Rightarrow> 0)"
  "env_previousHash (commitEnvelope sha) c = ec_previousCommitHash c"
  "env_hash (commitEnvelope sha) c = ec_hash c"
  by (simp_all add: commitEnvelope_def)

lemma commit_verdict_None:
  "commit_verdict sha st c = Inr None \<longleftrightarrow>
     commit_ok sha c \<and> (\<exists>t. tenant_of (commitEnvelope sha) c = Some t \<and> links (commitEnvelope sha) (link_of st t) c)"
proof -
  have seq: "ec_sequence c = NInt (l + 1) \<longleftrightarrow> is_integer (ec_sequence c) \<and> (case ec_sequence c of NInt i \<Rightarrow> i | _ \<Rightarrow> 0) = l + 1" for l
    by (auto simp: is_integer_def split: jsnumber.splits)
  show ?thesis
  proof (cases "normalizeCommitMembers (ec_members c)")
    case (Inl e)
    then have "\<nexists>ms. manifest ms \<and> mset ms = mset (ec_members c)"
      using normalizeCommitMembers_iff [of "ec_members c"] by auto
    with Inl show ?thesis by (auto simp: commit_verdict_def commit_ok_def)
  next
    case (Inr ms)
    then have m: "manifest ns \<and> mset ns = mset (ec_members c) \<longleftrightarrow> ns = ms" for ns
      using normalizeCommitMembers_iff [of "ec_members c" ns] by (auto simp: Inr)
    have e: "(\<exists>ns. manifest ns \<and> mset ns = mset (ec_members c) \<and> ec_recordCount c = int (length ns) \<and>
        computeRecordsRoot sha ns = Inr (ec_recordsRoot c)) \<longleftrightarrow>
        ec_recordCount c = int (length ms) \<and> computeRecordsRoot sha ms = Inr (ec_recordsRoot c)"
      using m by metis
    show ?thesis unfolding commit_ok_def e
      by (auto simp: commit_verdict_def links_def andThen_Inr_iff seq Inr)
  qed
qed

interpretation commit_chain: keyed_walk "commitEnvelope sha" "commit_ok sha" "commit_verdict sha"
  "verifyEvidenceCommits_from sha" for sha
proof
  fix st :: chain_state and i c cs
  show "verifyEvidenceCommits_from sha st i (c # cs) =
      andThen (commit_verdict sha st c) (\<lambda>v. case v of
        Some reason \<Rightarrow> Inr (VerFail i reason)
      | None \<Rightarrow> verifyEvidenceCommits_from sha (enter (commitEnvelope sha) st c) (Suc i) cs)"
    by (cases "normalizeCommitMembers (ec_members c)"; cases "hashEvidenceCommit sha c";
        cases "computeRecordsRoot sha (projr (normalizeCommitMembers (ec_members c)))")
      (auto simp: commit_verdict_def enter_def link_after_def commitEnvelope_def tenant_of_def truthy_def
        split: list.splits)
qed (simp_all add: commit_verdict_None)

section \<open>Commits bound by their hash\<close>

definition same_commit :: "evidence_commit \<Rightarrow> evidence_commit \<Rightarrow> bool" where
  "same_commit c d \<longleftrightarrow> c\<lparr>ec_hash := []\<rparr> = d\<lparr>ec_hash := []\<rparr>"

definition wf_commit :: "evidence_commit \<Rightarrow> bool" where
  "wf_commit c \<longleftrightarrow> wf_value (JNum (ec_sequence c)) \<and> (\<forall>m \<in> set (ec_members c). wf_value (JNum (cm_index m)))"

lemma member_json_eq:
  assumes "normalizeForJson (member_json m) = Inr x" "normalizeForJson (member_json n) = Inr x"
  shows "m = n"
proof -
  from object_fields_eq [OF assms [unfolded member_json_def]]
  have f: "normalizeForJson (JNum (cm_index m)) = normalizeForJson (JNum (cm_index n))"
    "cm_recordType m = cm_recordType n" "cm_recordId m = cm_recordId n" "cm_recordHash m = cm_recordHash n"
    by (simp_all add: proto_key_def)
  from normalize_member_ok [OF assms(1) [unfolded member_json_def], of "(''index'', JNum (cm_index m))"]
  obtain y where "normalizeForJson (JNum (cm_index m)) = Inr y" by auto
  with f(1) have "cm_index m = cm_index n" by (metis normalize_number_eq)
  with f(2-) show ?thesis by simp
qed

lemma members_json_eq:
  assumes "normalizeForJson (JArr (map member_json ms)) = Inr x" "normalizeForJson (JArr (map member_json ns)) = Inr x"
  shows "ms = ns"
proof -
  have nd: "normalizeForJson (member_json m) \<noteq> Inr JUndefined" for m by (simp add: member_json_def)
  have null: "null_if_undefined v = v" if "normalizeForJson (member_json m) = Inr v" for m v
    using nd that by (auto simp: null_if_undefined_def)
  have norm: "list_all2 (\<lambda>m v. normalizeForJson (member_json m) = Inr v) ks (map null_if_undefined vs)"
    if "list_all2 (\<lambda>v x. normalizeForJson v = Inr x) (map member_json ks) vs" for ks vs
    using that null by (auto simp: list_all2_conv_all_nth)
  from assms obtain vs ws where "list_all2 (\<lambda>v x. normalizeForJson v = Inr x) (map member_json ms) vs"
    "list_all2 (\<lambda>v x. normalizeForJson v = Inr x) (map member_json ns) ws"
    "x = JArr (map null_if_undefined vs)" "x = JArr (map null_if_undefined ws)"
    unfolding normalize_array_iff by blast
  then have "list_all2 (\<lambda>m v. normalizeForJson (member_json m) = Inr v) ms (map null_if_undefined vs)"
    "list_all2 (\<lambda>m v. normalizeForJson (member_json m) = Inr v) ns (map null_if_undefined vs)"
    using norm [of ms vs] norm [of ns ws] by simp_all
  then show ?thesis
    by (intro nth_equalityI) (auto simp: list_all2_conv_all_nth intro: member_json_eq)
qed

lemma commit_body_json_eq:
  assumes "normalizeForJson (commit_body_json c) = Inr x" "normalizeForJson (commit_body_json d) = Inr x"
  shows "same_commit c d"
proof -
  note ok = normalize_member_ok [OF assms(1) [unfolded commit_body_json_def]]
  from object_fields_eq [OF assms [unfolded commit_body_json_def]]
  have f: "normalizeForJson (JNum (ec_sequence c)) = normalizeForJson (JNum (ec_sequence d))"
    "normalizeForJson (JArr (map member_json (ec_members c))) = normalizeForJson (JArr (map member_json (ec_members d)))"
    "c\<lparr>ec_hash := [], ec_sequence := NNaN, ec_members := []\<rparr> = d\<lparr>ec_hash := [], ec_sequence := NNaN, ec_members := []\<rparr>"
    by (simp_all add: proto_key_def)
  from ok [of "(''sequence'', JNum (ec_sequence c))"] f(1) have "ec_sequence c = ec_sequence d"
    by (auto intro: normalize_number_eq)
  moreover from ok [of "(''members'', JArr (map member_json (ec_members c)))"] f(2) have "ec_members c = ec_members d"
    by (auto intro: members_json_eq)
  ultimately show ?thesis using f(3) by (cases c; cases d) (simp add: same_commit_def)
qed

lemma commit_json_eq:
  assumes "normalizeForJson (commit_json c) = Inr x" "normalizeForJson (commit_json d) = Inr x"
  shows "same_commit c d"
proof -
  from object_fields_eq [OF assms [unfolded commit_json_def]]
  have f: "normalizeForJson (commit_body_json c) = normalizeForJson (commit_body_json d)"
    by (simp add: proto_key_def)
  from normalize_member_ok [OF assms(1) [unfolded commit_json_def], of "(''commit'', commit_body_json c)"]
  obtain y where "normalizeForJson (commit_body_json c) = Inr y" by auto
  with f show ?thesis by (metis commit_body_json_eq)
qed

interpretation commit_doc: hashed_document commit_json wf_commit same_commit
  by unfold_locales
    (auto simp: commit_json_def commit_body_json_def wf_commit_def wf_elems_iff member_json_def intro: commit_json_eq)

lemma commit_ok_sequence: "commit_ok sha c \<Longrightarrow> \<exists>i. ec_sequence c = NInt i"
  by (auto simp: commit_ok_def is_integer_def split: jsnumber.splits)

lemma commit_ok_wf:
  assumes "commit_ok sha c"
  shows "wf_commit c"
proof -
  from assms obtain ms where ms: "manifest ms" "mset ms = mset (ec_members c)" by (auto simp: commit_ok_def)
  from mset_eq_setD [OF ms(2)] ms(1) have "\<forall>m \<in> set (ec_members c). \<exists>i. cm_index m = NInt i"
    by (auto simp: manifest_def valid_member_def)
  then show ?thesis using commit_ok_sequence [OF assms] by (auto simp: wf_commit_def)
qed

lemma commit_hash_binds:
  assumes "commit_ok sha c" "commit_ok sha d" "ec_hash c = ec_hash d"
  shows "same_commit c d \<or> collision sha (canonicalJson (commit_json c)) (canonicalJson (commit_json d))"
  using commit_doc.hash_binds [OF commit_ok_wf commit_ok_wf, OF assms(1,2), of "prefixedSha256 sha" "ec_hash c"] assms
  by (simp add: commit_ok_def hashEvidenceCommit_def)

lemma commit_head_binds:
  assumes "unbroken (commitEnvelope sha) c" "unbroken (commitEnvelope sha) d" "c \<noteq> []" "d \<noteq> []"
    and "ec_hash (last c) = ec_hash (last d)" "\<forall>x \<in> set c \<union> set d. commit_ok sha x"
  shows "c = d \<or> (\<exists>x \<in> set c. \<exists>y \<in> set d. collision sha (canonicalJson (commit_json x)) (canonicalJson (commit_json y)))"
  using assms
proof (induction c arbitrary: d rule: rev_induct)
  case (snoc x c)
  from snoc.prems(4) obtain e y where d: "d = e @ [y]" by (metis rev_exhaust)
  with snoc.prems commit_hash_binds [of sha x y] consider
    (col) "collision sha (canonicalJson (commit_json x)) (canonicalJson (commit_json y))" | (eq) "same_commit x y" by auto
  then show ?case
  proof cases
    case col
    then show ?thesis by (auto simp: d)
  next
    case eq
    with snoc.prems(5) d have xy: "x = y" by (cases x; cases y) (simp add: same_commit_def)
    note u = snoc.prems(1,2) [unfolded d unbroken_snoc]
    have len: "length c = length e" using u xy by auto
    show ?thesis
    proof (cases "c = []")
      case True
      with len xy show ?thesis by (simp add: d)
    next
      case False
      with len have ne: "e \<noteq> []" by auto
      have "ec_hash (last c) = ec_hash (last e)" using u xy False ne by (auto simp: commitEnvelope_def)
      from snoc.IH [OF _ _ False ne this] u snoc.prems(6) xy show ?thesis by (auto simp: d)
    qed
  qed
qed simp

lemma createEvidenceCommit_facts:
  assumes "createEvidenceCommit h sha input = Inr c"
  shows "commit_ok sha c \<and> ec_streamId c = in_streamId input \<and> ec_streamId c \<noteq> [] \<and>
    ec_sequence c = in_sequence input \<and> ec_previousCommitHash c = in_previousCommitHash input"
proof -
  from assms obtain ms root at where c: "normalizeCommitMembers (in_members input) = Inr ms"
    "computeRecordsRoot sha ms = Inr root" "\<not> blank (in_streamId input)" "is_integer (in_sequence input)"
    "ec_recordsRoot c = root" "ec_members c = ms" "ec_recordCount c = int (length ms)"
    "ec_streamId c = in_streamId input" "ec_sequence c = in_sequence input"
    "ec_previousCommitHash c = in_previousCommitHash input"
    "ec_hashAlgorithm c = HASH_ALGORITHM" "ec_canonicalization c = CANONICALIZATION"
    "ec_treeAlgorithm c = EVIDENCE_COMMIT_TREE_ALGORITHM"
    "hashEvidenceCommit sha (c\<lparr>ec_hash := []\<rparr>) = Inr (ec_hash c)"
    by (auto simp: createEvidenceCommit_def assertNonEmpty_def assertPositiveInteger_def is_integer_def Let_def
        split: jsnumber.splits)
  have "hashEvidenceCommit sha (c\<lparr>ec_hash := []\<rparr>) = hashEvidenceCommit sha c"
    by (simp add: hashEvidenceCommit_def commit_json_def commit_body_json_def)
  moreover have "manifest ms" using c(1) by (simp add: normalizeCommitMembers_iff)
  ultimately show ?thesis using c not_blank_nonempty by (auto simp: commit_ok_def)
qed

section \<open>Properties\<close>

text \<open>\<open>normalizeCommitMembers\<close> accepts a member list exactly when it can be ordered into a manifest: nonempty, every member valid, index \<open>i\<close> at position \<open>i\<close>, no two members with the same record type and identifier. The result is that manifest, whatever the order of the input.\<close>

theorem normalizeCommitMembers_spec:
  "normalizeCommitMembers members = Inr ms \<longleftrightarrow> manifest ms \<and> mset ms = mset members"
  by (rule normalizeCommitMembers_iff)

text \<open>C4. The Merkle root determines the manifest: two manifests with the same root are equal, or two of the leaf and node values hashed for them have different canonical texts with the same digest. Duplicating the last hash of an odd level therefore admits no second manifest, because every leaf carries its index.\<close>

theorem computeRecordsRoot_binds:
  assumes "manifest ms" "manifest ns" "computeRecordsRoot sha ms = computeRecordsRoot sha ns"
  shows "ms = ns \<or> (\<exists>v \<in> set (tree_values sha ms). \<exists>w \<in> set (tree_values sha ns).
    collision sha (canonicalJson (tree_json v)) (canonicalJson (tree_json w)))"
  using assms by (rule root_binds_manifest)

text \<open>\<open>verifyEvidenceCommits\<close> decides: every commit is well-formed (algorithms, an orderable manifest with the stated count and Merkle root, the hash of its own content) and the commits of each stream are numbered 1, 2, 3, ... each pointing to its predecessor's hash.\<close>

theorem verifyEvidenceCommits_iff:
  "verifyEvidenceCommits sha commits = Inr VerOk \<longleftrightarrow> chains_ok (commit_ok sha) (commitEnvelope sha) commits"
  by (simp add: verifyEvidenceCommits_def commit_chain.verify_iff_chains)

text \<open>C6. Created commits verify: a commit that \<open>createEvidenceCommit\<close> returns for the next sequence number and the last hash of its stream extends a verified list to a verified list.\<close>

theorem createEvidenceCommit_verifies:
  assumes "verifyEvidenceCommits sha commits = Inr VerOk" "createEvidenceCommit h sha input = Inr c"
    and "in_sequence input = NInt (int (length (chain_of (commitEnvelope sha) (in_streamId input) commits)) + 1)"
    and "in_previousCommitHash input =
      (case rev (chain_of (commitEnvelope sha) (in_streamId input) commits) of [] \<Rightarrow> None | p # _ \<Rightarrow> Some (ec_hash p))"
  shows "verifyEvidenceCommits sha (commits @ [c]) = Inr VerOk"
proof -
  let ?c = "chain_of (commitEnvelope sha) (in_streamId input) commits"
  have last: "(case rev ?c of [] \<Rightarrow> None | p # _ \<Rightarrow> Some (ec_hash p)) = (if ?c = [] then None else Some (ec_hash (last ?c)))"
    by (cases ?c rule: rev_cases) auto
  from assms(1) have "chains_ok (commit_ok sha) (commitEnvelope sha) commits"
    by (simp add: verifyEvidenceCommits_def commit_chain.verify_iff_chains)
  then show ?thesis
    using createEvidenceCommit_facts [OF assms(2)] assms(3,4)
    by (auto simp: verifyEvidenceCommits_def commit_chain.verify_iff_chains chains_ok_snoc last)
qed

text \<open>C5. The last commit hash of a stream determines the stream's whole history, members included: two verified commit lists with the same last hash hold equal commit sequences for the stream, or exhibit two commits with different canonical texts and the same digest.\<close>

theorem verifyEvidenceCommits_tamper_evident:
  assumes "verifyEvidenceCommits sha cs = Inr VerOk" "verifyEvidenceCommits sha ds = Inr VerOk"
    and "chain_of (commitEnvelope sha) s cs \<noteq> []" "chain_of (commitEnvelope sha) s ds \<noteq> []"
    and "ec_hash (last (chain_of (commitEnvelope sha) s cs)) = ec_hash (last (chain_of (commitEnvelope sha) s ds))"
  shows "chain_of (commitEnvelope sha) s cs = chain_of (commitEnvelope sha) s ds
    \<or> (\<exists>c \<in> set cs. \<exists>d \<in> set ds. collision sha (canonicalJson (commit_json c)) (canonicalJson (commit_json d)))"
proof -
  from assms(1,2) have ok: "chains_ok (commit_ok sha) (commitEnvelope sha) cs" "chains_ok (commit_ok sha) (commitEnvelope sha) ds"
    by (simp_all add: verifyEvidenceCommits_def commit_chain.verify_iff_chains)
  then have "\<forall>x \<in> set (chain_of (commitEnvelope sha) s cs) \<union> set (chain_of (commitEnvelope sha) s ds). commit_ok sha x"
    by (auto simp: chains_ok_def set_chain_of)
  from commit_head_binds [OF _ _ assms(3-5) this] ok show ?thesis
    by (auto simp: chains_ok_def set_chain_of)
qed

section \<open>Concrete commits\<close>

definition sample_member :: "int \<Rightarrow> string \<Rightarrow> commit_member" where
  "sample_member i r = \<lparr>cm_index = NInt i, cm_recordType = ''audit.record'', cm_recordId = r,
     cm_recordHash = ''sha256:'' @ zero_digest []\<rparr>"

definition sample_commit_input :: "int \<Rightarrow> string option \<Rightarrow> commit_member list \<Rightarrow> evidence_commit_input" where
  "sample_commit_input n p ms = \<lparr>in_commitId = ''c'', in_streamId = ''s'', in_sequence = NInt n,
     in_previousCommitHash = p, in_members = ms, in_committedAt = None\<rparr>"

definition sample_commit :: "string \<Rightarrow> evidence_commit" where
  "sample_commit i = \<lparr>ec_recordType = ''evidence.commit'', ec_schemaVersion = ''2026-06-23'', ec_commitId = i,
     ec_streamId = ''s'', ec_sequence = NInt 1, ec_previousCommitHash = None,
     ec_members = [sample_member 0 ''a'', sample_member 1 ''b'', sample_member 2 ''c''], ec_recordCount = 3,
     ec_recordsRoot = ''sha256:'' @ zero_digest [], ec_canonicalization = ''veritio-json-v1'',
     ec_hashAlgorithm = ''sha256'', ec_treeAlgorithm = ''veritio-merkle-v1'',
     ec_committedAt = ''1970-01-01T00:00:00.000Z'', ec_hash = ''sha256:'' @ zero_digest []\<rparr>"

lemma sample_commit_created:
  "createEvidenceCommit sample_host zero_digest
     (sample_commit_input 1 None [sample_member 1 ''b'', sample_member 2 ''c'', sample_member 0 ''a'']) = Inr (sample_commit ''c'')"
  by code_simp

lemma sample_commits_verified:
  "verifyEvidenceCommits zero_digest [sample_commit ''c''] = Inr VerOk"
  "verifyEvidenceCommits zero_digest [sample_commit ''d''] = Inr VerOk"
  by code_simp+

lemma sample_manifests:
  "manifest [sample_member 0 ''a'', sample_member 1 ''b'']" "manifest [sample_member 0 ''b'']"
proof -
  have "normalizeCommitMembers [sample_member 0 ''a'', sample_member 1 ''b''] = Inr [sample_member 0 ''a'', sample_member 1 ''b'']"
    "normalizeCommitMembers [sample_member 0 ''b''] = Inr [sample_member 0 ''b'']" by code_simp+
  then show "manifest [sample_member 0 ''a'', sample_member 1 ''b'']" "manifest [sample_member 0 ''b'']"
    unfolding normalizeCommitMembers_iff by blast+
qed

theorem computeRecordsRoot_binds_witness:
  "\<exists>v \<in> set (tree_values zero_digest [sample_member 0 ''a'', sample_member 1 ''b'']).
   \<exists>w \<in> set (tree_values zero_digest [sample_member 0 ''b'']).
     collision zero_digest (canonicalJson (tree_json v)) (canonicalJson (tree_json w))"
proof -
  have r: "computeRecordsRoot zero_digest [sample_member 0 ''a'', sample_member 1 ''b''] = computeRecordsRoot zero_digest [sample_member 0 ''b'']"
    by code_simp
  from computeRecordsRoot_binds [OF sample_manifests r] show ?thesis by auto
qed

theorem createEvidenceCommit_verifies_witness:
  "verifyEvidenceCommits zero_digest ([] @ [sample_commit ''c'']) = Inr VerOk"
  by (rule createEvidenceCommit_verifies [OF _ sample_commit_created]) code_simp+

theorem verifyEvidenceCommits_tamper_evident_witness:
  "\<exists>c \<in> set [sample_commit ''c'']. \<exists>d \<in> set [sample_commit ''d''].
     collision zero_digest (canonicalJson (commit_json c)) (canonicalJson (commit_json d))"
proof -
  let ?c = "chain_of (commitEnvelope zero_digest) ''s''"
  have ne: "?c [sample_commit ''c''] \<noteq> []" "?c [sample_commit ''d''] \<noteq> []" by code_simp+
  have h: "ec_hash (last (?c [sample_commit ''c''])) = ec_hash (last (?c [sample_commit ''d'']))" by code_simp
  have "?c [sample_commit ''c''] \<noteq> ?c [sample_commit ''d'']" by code_simp
  with verifyEvidenceCommits_tamper_evident [OF sample_commits_verified ne h] show ?thesis by blast
qed

end
