(* ===== verification/Retention.thy ===== *)
theory Retention
  imports AuditChain
begin

text \<open>
  Retention checkpoints and disposition receipts, \<^verbatim>\<open>sdks/typescript/src/retention.ts\<close>:
  construction, hashing, the verification of untrusted values of type \<open>unknown\<close>, the
  checkpoint chain, the verification of retained records from a checkpoint anchor, and the
  detached signature gate with its injected verifier.

  An untrusted input is a \<^typ>\<open>jsval\<close>; the checks read its properties as the code does, and
  \<open>RegExp.prototype.test\<close> converts its argument to a string first. Typed checkpoints and
  receipts are the records \<open>retention_checkpoint\<close> and \<open>retention_disposition\<close>, embedded in the
  untrusted values by \<open>checkpoint_value\<close> and \<open>disposition_value\<close>.
\<close>

section \<open>Constants and data\<close>

definition RETENTION_SCHEMA_VERSION :: string where "RETENTION_SCHEMA_VERSION = ''1.0''"
definition RETENTION_CANONICALIZATION :: string where "RETENTION_CANONICALIZATION = ''veritio-json-v1''"
definition RETENTION_HASH_ALGORITHM :: string where "RETENTION_HASH_ALGORITHM = ''sha256''"

definition CHECKPOINT_RECORD_KEYS :: "string list" where
  "CHECKPOINT_RECORD_KEYS = [''recordType'', ''schemaVersion'', ''checkpointId'', ''tenantId'', ''chainKind'',
     ''epoch'', ''fromSequence'', ''fromPreviousHash'', ''throughSequence'', ''throughHash'', ''recordCount'',
     ''archiveRootHash'', ''previousCheckpointHash'', ''createdAt'', ''canonicalization'', ''hashAlgorithm'',
     ''signaturePublicKeyFingerprint'', ''hash'', ''signature'']"

definition DISPOSITION_RECORD_KEYS :: "string list" where
  "DISPOSITION_RECORD_KEYS = [''recordType'', ''schemaVersion'', ''dispositionId'', ''tenantId'', ''chainKind'',
     ''checkpointHash'', ''fromSequence'', ''throughSequence'', ''archiveRootHash'', ''method'',
     ''policyReference'', ''disposedAt'', ''canonicalization'', ''hashAlgorithm'',
     ''signaturePublicKeyFingerprint'', ''hash'', ''signature'']"

definition SIGNATURE_KEYS :: "string list" where
  "SIGNATURE_KEYS = [''algorithm'', ''publicKeyFingerprint'', ''signature'']"

record retention_signature =
  sig_algorithm :: string
  sig_publicKeyFingerprint :: string
  sig_signature :: string

record retention_checkpoint =
  cp_recordType :: string
  cp_schemaVersion :: string
  cp_checkpointId :: string
  cp_tenantId :: string
  cp_chainKind :: string
  cp_epoch :: int
  cp_fromSequence :: int
  cp_fromPreviousHash :: "string option"
  cp_throughSequence :: int
  cp_throughHash :: string
  cp_recordCount :: int
  cp_archiveRootHash :: string
  cp_previousCheckpointHash :: "string option"
  cp_createdAt :: string
  cp_canonicalization :: string
  cp_hashAlgorithm :: string
  cp_fingerprint :: "string option"
  cp_hash :: string
  cp_signature :: "retention_signature option"

record retention_disposition =
  dp_recordType :: string
  dp_schemaVersion :: string
  dp_dispositionId :: string
  dp_tenantId :: string
  dp_chainKind :: string
  dp_checkpointHash :: string
  dp_fromSequence :: int
  dp_throughSequence :: int
  dp_archiveRootHash :: string
  dp_method :: string
  dp_policyReference :: string
  dp_disposedAt :: string
  dp_canonicalization :: string
  dp_hashAlgorithm :: string
  dp_fingerprint :: "string option"
  dp_hash :: string
  dp_signature :: "retention_signature option"

datatype signature_status = SigValid | SigInvalid | SigSkipped | SigAbsent

datatype retention_reason =
    invalid_checkpoint
  | invalid_disposition
  | unsupported_protocol
  | ret_hash_mismatch
  | signature_fingerprint_mismatch
  | signature_invalid
  | signature_required
  | tenant_mismatch
  | chain_kind_mismatch
  | epoch_mismatch
  | range_mismatch
  | previous_checkpoint_hash_mismatch
  | ret_missing_tenant_scope
  | ret_unsupported_hash_algorithm
  | ret_unsupported_canonicalization
  | ret_sequence_mismatch
  | ret_previous_hash_mismatch
  | record_hash_mismatch
  | checkpoint_mismatch

datatype retention_result = RetOk signature_status | RetFail nat retention_reason signature_status

text \<open>
  The caller's options: a trusted public key (its bytes) and the injected verifier, which may
  throw. \<open>re_sha_bytes\<close> is SHA-256 of raw bytes, \<open>re_sha\<close> of a text.
\<close>

record retention_options =
  opt_trustedPublicKey :: "string option"
  opt_requireSignature :: bool
  opt_signatureVerifier :: "(string \<Rightarrow> string \<Rightarrow> string \<Rightarrow> bool throws) option"

record retention_env =
  re_host :: host
  re_sha :: digest
  re_sha_bytes :: digest

section \<open>Reading untrusted values\<close>

definition isPlainObject :: "jsval \<Rightarrow> bool" where
  "isPlainObject v = (case v of JObj _ \<Rightarrow> True | JDate _ \<Rightarrow> True | _ \<Rightarrow> False)"

definition own_keys :: "jsval \<Rightarrow> string list" where
  "own_keys v = (case v of JObj kvs \<Rightarrow> map fst kvs | _ \<Rightarrow> [])"

definition hasOnlyKeys :: "jsval \<Rightarrow> string list \<Rightarrow> bool" where
  "hasOnlyKeys v allowed \<longleftrightarrow> list_all (\<lambda>k. k \<in> set allowed) (own_keys v)"

text \<open>\<open>value.key\<close> on a value that is neither null nor undefined\<close>

definition js_prop :: "jsval \<Rightarrow> string \<Rightarrow> jsval" where
  "js_prop v k = (case v of JObj kvs \<Rightarrow> get_prop kvs k | _ \<Rightarrow> JUndefined)"

definition is_truthy :: "jsval \<Rightarrow> bool" where
  "is_truthy v = (case v of JUndefined \<Rightarrow> False | JNull \<Rightarrow> False | JBool b \<Rightarrow> b
     | JNum n \<Rightarrow> n \<noteq> NInt 0 \<and> n \<noteq> NNaN | JStr s \<Rightarrow> s \<noteq> [] | _ \<Rightarrow> True)"

text \<open>The conversion \<open>RegExp.prototype.test\<close> applies to its argument. The text of a date starts
  with a weekday and contains blanks, which none of the patterns accepts.\<close>

fun to_js_string :: "jsval \<Rightarrow> string" where
  "to_js_string JUndefined = ''undefined''"
| "to_js_string JNull = ''null''"
| "to_js_string (JBool b) = (if b then ''true'' else ''false'')"
| "to_js_string (JNum n) = (case n of NNaN \<Rightarrow> ''NaN'' | NInf \<Rightarrow> ''Infinity'' | NNegInf \<Rightarrow> ''-Infinity'' | _ \<Rightarrow> show_number n)"
| "to_js_string (JStr s) = s"
| "to_js_string (JArr vs) =
     join '','' (map (\<lambda>v. case v of JUndefined \<Rightarrow> [] | JNull \<Rightarrow> [] | _ \<Rightarrow> to_js_string v) vs)"
| "to_js_string (JObj kvs) = ''[object Object]''"
| "to_js_string (JDate d) = ''Thu Jan 01 1970 00:00:00 GMT+0000''"
| "to_js_string (JOther t s) = s"

definition HASH_PATTERN :: "jsval \<Rightarrow> bool" where
  "HASH_PATTERN v = is_hex64 (to_js_string v)"

definition is_base64_char :: "char \<Rightarrow> bool" where
  "is_base64_char c \<longleftrightarrow> is_upper c \<or> is_lower c \<or> is_digit c \<or> c = CHR ''+'' \<or> c = CHR ''/''"

text \<open>\<open>/^[A-Za-z0-9+/]{86}==$/\<close>\<close>

definition BASE64_SIGNATURE_PATTERN :: "string \<Rightarrow> bool" where
  "BASE64_SIGNATURE_PATTERN s \<longleftrightarrow> length s = 88 \<and> list_all is_base64_char (take 86 s) \<and> drop 86 s = ''==''"

definition TIMESTAMP_PATTERN :: "string \<Rightarrow> bool" where
  "TIMESTAMP_PATTERN s \<longleftrightarrow> length s = 24 \<and>
     list_all (\<lambda>i. is_digit (s ! i)) [0, 1, 2, 3, 6, 9, 12, 15, 18, 20, 21, 22] \<and>
     s ! 4 = CHR ''-'' \<and> s ! 7 = CHR ''-'' \<and> s ! 10 = CHR ''T'' \<and> s ! 13 = CHR '':'' \<and> s ! 16 = CHR '':'' \<and>
     s ! 19 = CHR ''.'' \<and> s ! 23 = CHR ''Z'' \<and>
     (s ! 5 = CHR ''0'' \<and> s ! 6 \<noteq> CHR ''0'' \<or> s ! 5 = CHR ''1'' \<and> s ! 6 \<in> set ''012'') \<and>
     (s ! 8 \<in> set ''012'' \<or> s ! 8 = CHR ''3'' \<and> s ! 9 \<in> set ''01'') \<and>
     (s ! 11 \<in> set ''01'' \<or> s ! 11 = CHR ''2'' \<and> s ! 12 \<in> set ''0123'') \<and>
     s ! 14 \<in> set ''012345'' \<and> s ! 17 \<in> set ''012345''"

section \<open>Guards\<close>

definition assertId :: "jsval \<Rightarrow> string \<Rightarrow> unit throws" where
  "assertId value field =
     throwUnless (case value of JStr s \<Rightarrow> id_pattern 128 s | _ \<Rightarrow> False) (TypeError (field @ '' is invalid''))"

definition assertSafeInteger :: "jsval \<Rightarrow> string \<Rightarrow> unit throws" where
  "assertSafeInteger value field =
     throwUnless (case value of JNum n \<Rightarrow> is_safe_integer_from 1 n | _ \<Rightarrow> False)
       (TypeError (field @ '' must be a positive safe integer''))"

definition assertHash :: "jsval \<Rightarrow> string \<Rightarrow> unit throws" where
  "assertHash value field =
     throwUnless (case value of JStr s \<Rightarrow> is_hex64 s | _ \<Rightarrow> False) (TypeError (field @ '' must be lowercase sha256''))"

definition assertNullableHash :: "jsval \<Rightarrow> string \<Rightarrow> unit throws" where
  "assertNullableHash value field = (if value \<noteq> JNull then assertHash value field else Inr ())"

definition assertTimestamp :: "host \<Rightarrow> jsval \<Rightarrow> string \<Rightarrow> unit throws" where
  "assertTimestamp h value field =
     throwUnless (case value of
         JStr s \<Rightarrow> TIMESTAMP_PATTERN s \<and>
           (case parseDate h s of None \<Rightarrow> False | Some t \<Rightarrow> \<not> prefix ''0000-'' s \<and> iso_of_ms t = s)
       | _ \<Rightarrow> False) (TypeError (field @ '' must be exact UTC milliseconds''))"

text \<open>The value of a property that \<open>assertSafeInteger\<close> has accepted.\<close>

definition int_prop :: "jsval \<Rightarrow> string \<Rightarrow> int" where
  "int_prop v k = (case js_prop v k of JNum (NInt i) \<Rightarrow> i | _ \<Rightarrow> 0)"

definition assertFingerprint :: "jsval \<Rightarrow> unit throws" where
  "assertFingerprint v =
     (if js_prop v ''signaturePublicKeyFingerprint'' \<noteq> JUndefined
      then assertHash (js_prop v ''signaturePublicKeyFingerprint'') ''signaturePublicKeyFingerprint'' else Inr ())"

definition assertCheckpointInput :: "host \<Rightarrow> jsval \<Rightarrow> unit throws" where
  "assertCheckpointInput h input =
     andThen (assertId (js_prop input ''checkpointId'') ''checkpointId'') (\<lambda>_.
     andThen (assertId (js_prop input ''tenantId'') ''tenantId'') (\<lambda>_.
     andThen (throwUnless (js_prop input ''chainKind'' = JStr ''audit'') (TypeError ''chainKind must be audit'')) (\<lambda>_.
     andThen (assertSafeInteger (js_prop input ''epoch'') ''epoch'') (\<lambda>_.
     andThen (assertSafeInteger (js_prop input ''fromSequence'') ''fromSequence'') (\<lambda>_.
     andThen (assertSafeInteger (js_prop input ''throughSequence'') ''throughSequence'') (\<lambda>_.
     andThen (assertSafeInteger (js_prop input ''recordCount'') ''recordCount'') (\<lambda>_.
     andThen (assertHash (js_prop input ''throughHash'') ''throughHash'') (\<lambda>_.
     andThen (assertHash (js_prop input ''archiveRootHash'') ''archiveRootHash'') (\<lambda>_.
     andThen (assertNullableHash (js_prop input ''fromPreviousHash'') ''fromPreviousHash'') (\<lambda>_.
     andThen (assertNullableHash (js_prop input ''previousCheckpointHash'') ''previousCheckpointHash'') (\<lambda>_.
     andThen (assertTimestamp h (js_prop input ''createdAt'') ''createdAt'') (\<lambda>_.
     andThen (assertFingerprint input) (\<lambda>_.
     andThen (throwUnless (\<not> int_prop input ''throughSequence'' < int_prop input ''fromSequence'' \<and>
          int_prop input ''recordCount'' = int_prop input ''throughSequence'' - int_prop input ''fromSequence'' + 1)
        (TypeError ''recordCount must equal the inclusive checkpoint range'')) (\<lambda>_.
     if int_prop input ''epoch'' = 1
     then throwUnless (int_prop input ''fromSequence'' = 1 \<and> js_prop input ''fromPreviousHash'' = JNull \<and>
            js_prop input ''previousCheckpointHash'' = JNull) (TypeError ''epoch one must begin at genesis'')
     else throwUnless (js_prop input ''fromPreviousHash'' \<noteq> JNull \<and> js_prop input ''previousCheckpointHash'' \<noteq> JNull)
            (TypeError ''later epochs must link prior record and checkpoint hashes'')))))))))))))))"

definition assertDispositionInput :: "host \<Rightarrow> jsval \<Rightarrow> unit throws" where
  "assertDispositionInput h input =
     andThen (assertId (js_prop input ''dispositionId'') ''dispositionId'') (\<lambda>_.
     andThen (assertId (js_prop input ''tenantId'') ''tenantId'') (\<lambda>_.
     andThen (throwUnless (js_prop input ''chainKind'' = JStr ''audit'') (TypeError ''chainKind must be audit'')) (\<lambda>_.
     andThen (assertHash (js_prop input ''checkpointHash'') ''checkpointHash'') (\<lambda>_.
     andThen (assertSafeInteger (js_prop input ''fromSequence'') ''fromSequence'') (\<lambda>_.
     andThen (assertSafeInteger (js_prop input ''throughSequence'') ''throughSequence'') (\<lambda>_.
     andThen (throwUnless (\<not> int_prop input ''throughSequence'' < int_prop input ''fromSequence'')
        (TypeError ''disposition range must be ordered'')) (\<lambda>_.
     andThen (assertHash (js_prop input ''archiveRootHash'') ''archiveRootHash'') (\<lambda>_.
     andThen (throwUnless (id_pattern 256 (to_js_string (js_prop input ''policyReference'')))
        (TypeError ''policyReference is invalid'')) (\<lambda>_.
     andThen (assertTimestamp h (js_prop input ''disposedAt'') ''disposedAt'') (\<lambda>_.
     assertFingerprint input))))))))))"

section \<open>Construction and hashing\<close>

text \<open>The optional fingerprint property: present only when truthy.\<close>

definition fingerprint_member :: "jsval \<Rightarrow> (string \<times> jsval) list" where
  "fingerprint_member f = (if is_truthy f then [(''signaturePublicKeyFingerprint'', f)] else [])"

definition pick :: "jsval \<Rightarrow> string list \<Rightarrow> (string \<times> jsval) list" where
  "pick v ks = map (\<lambda>k. (k, js_prop v k)) ks"

definition checkpointHashPayload :: "jsval \<Rightarrow> jsval" where
  "checkpointHashPayload checkpoint =
     JObj (pick checkpoint [''recordType'', ''schemaVersion'', ''checkpointId'', ''tenantId'', ''chainKind'', ''epoch'',
         ''fromSequence'', ''fromPreviousHash'', ''throughSequence'', ''throughHash'', ''recordCount'', ''archiveRootHash'',
         ''previousCheckpointHash'', ''createdAt'', ''canonicalization'', ''hashAlgorithm'']
       @ fingerprint_member (js_prop checkpoint ''signaturePublicKeyFingerprint''))"

definition dispositionHashPayload :: "jsval \<Rightarrow> jsval" where
  "dispositionHashPayload disposition =
     JObj (pick disposition [''recordType'', ''schemaVersion'', ''dispositionId'', ''tenantId'', ''chainKind'',
         ''checkpointHash'', ''fromSequence'', ''throughSequence'', ''archiveRootHash'', ''method'', ''policyReference'',
         ''disposedAt'', ''canonicalization'', ''hashAlgorithm'']
       @ fingerprint_member (js_prop disposition ''signaturePublicKeyFingerprint''))"

definition hashRetentionCheckpoint :: "digest \<Rightarrow> jsval \<Rightarrow> string throws" where
  "hashRetentionCheckpoint sha checkpoint =
     andThen (canonicalJson (checkpointHashPayload checkpoint)) (\<lambda>t. Inr (sha256Hex sha t))"

definition hashRetentionDisposition :: "digest \<Rightarrow> jsval \<Rightarrow> string throws" where
  "hashRetentionDisposition sha disposition =
     andThen (canonicalJson (dispositionHashPayload disposition)) (\<lambda>t. Inr (sha256Hex sha t))"

definition signature_value :: "retention_signature \<Rightarrow> jsval" where
  "signature_value s = JObj [(''algorithm'', JStr (sig_algorithm s)),
     (''publicKeyFingerprint'', JStr (sig_publicKeyFingerprint s)), (''signature'', JStr (sig_signature s))]"

definition optional_member :: "string \<Rightarrow> jsval option \<Rightarrow> (string \<times> jsval) list" where
  "optional_member k v = (case v of None \<Rightarrow> [] | Some x \<Rightarrow> [(k, x)])"

definition checkpoint_value :: "retention_checkpoint \<Rightarrow> jsval" where
  "checkpoint_value c = JObj ([
     (''recordType'', JStr (cp_recordType c)), (''schemaVersion'', JStr (cp_schemaVersion c)),
     (''checkpointId'', JStr (cp_checkpointId c)), (''tenantId'', JStr (cp_tenantId c)),
     (''chainKind'', JStr (cp_chainKind c)), (''epoch'', JNum (NInt (cp_epoch c))),
     (''fromSequence'', JNum (NInt (cp_fromSequence c))), (''fromPreviousHash'', nullable_json (cp_fromPreviousHash c)),
     (''throughSequence'', JNum (NInt (cp_throughSequence c))), (''throughHash'', JStr (cp_throughHash c)),
     (''recordCount'', JNum (NInt (cp_recordCount c))), (''archiveRootHash'', JStr (cp_archiveRootHash c)),
     (''previousCheckpointHash'', nullable_json (cp_previousCheckpointHash c)), (''createdAt'', JStr (cp_createdAt c)),
     (''canonicalization'', JStr (cp_canonicalization c)), (''hashAlgorithm'', JStr (cp_hashAlgorithm c))]
     @ optional_member ''signaturePublicKeyFingerprint'' (map_option JStr (cp_fingerprint c))
     @ [(''hash'', JStr (cp_hash c))]
     @ optional_member ''signature'' (map_option signature_value (cp_signature c)))"

definition disposition_value :: "retention_disposition \<Rightarrow> jsval" where
  "disposition_value d = JObj ([
     (''recordType'', JStr (dp_recordType d)), (''schemaVersion'', JStr (dp_schemaVersion d)),
     (''dispositionId'', JStr (dp_dispositionId d)), (''tenantId'', JStr (dp_tenantId d)),
     (''chainKind'', JStr (dp_chainKind d)), (''checkpointHash'', JStr (dp_checkpointHash d)),
     (''fromSequence'', JNum (NInt (dp_fromSequence d))), (''throughSequence'', JNum (NInt (dp_throughSequence d))),
     (''archiveRootHash'', JStr (dp_archiveRootHash d)), (''method'', JStr (dp_method d)),
     (''policyReference'', JStr (dp_policyReference d)), (''disposedAt'', JStr (dp_disposedAt d)),
     (''canonicalization'', JStr (dp_canonicalization d)), (''hashAlgorithm'', JStr (dp_hashAlgorithm d))]
     @ optional_member ''signaturePublicKeyFingerprint'' (map_option JStr (dp_fingerprint d))
     @ [(''hash'', JStr (dp_hash d))]
     @ optional_member ''signature'' (map_option signature_value (dp_signature d)))"

text \<open>
  The inputs of the constructors are checkpoints and receipts whose protocol fields, hash and
  signature are not read: \<open>checkpointUnsigned\<close> and \<open>dispositionUnsigned\<close> fix them.
\<close>

definition checkpointUnsigned :: "retention_checkpoint \<Rightarrow> retention_checkpoint" where
  "checkpointUnsigned input = \<lparr>cp_recordType = ''retention.checkpoint'', cp_schemaVersion = RETENTION_SCHEMA_VERSION,
     cp_checkpointId = cp_checkpointId input, cp_tenantId = cp_tenantId input, cp_chainKind = cp_chainKind input,
     cp_epoch = cp_epoch input, cp_fromSequence = cp_fromSequence input, cp_fromPreviousHash = cp_fromPreviousHash input,
     cp_throughSequence = cp_throughSequence input, cp_throughHash = cp_throughHash input,
     cp_recordCount = cp_recordCount input, cp_archiveRootHash = cp_archiveRootHash input,
     cp_previousCheckpointHash = cp_previousCheckpointHash input, cp_createdAt = cp_createdAt input,
     cp_canonicalization = RETENTION_CANONICALIZATION, cp_hashAlgorithm = RETENTION_HASH_ALGORITHM,
     cp_fingerprint = truthy (cp_fingerprint input), cp_hash = [], cp_signature = None\<rparr>"

definition dispositionUnsigned :: "retention_disposition \<Rightarrow> retention_disposition" where
  "dispositionUnsigned input = \<lparr>dp_recordType = ''retention.disposition'', dp_schemaVersion = RETENTION_SCHEMA_VERSION,
     dp_dispositionId = dp_dispositionId input, dp_tenantId = dp_tenantId input, dp_chainKind = dp_chainKind input,
     dp_checkpointHash = dp_checkpointHash input, dp_fromSequence = dp_fromSequence input,
     dp_throughSequence = dp_throughSequence input, dp_archiveRootHash = dp_archiveRootHash input,
     dp_method = ''provider-delete'', dp_policyReference = dp_policyReference input, dp_disposedAt = dp_disposedAt input,
     dp_canonicalization = RETENTION_CANONICALIZATION, dp_hashAlgorithm = RETENTION_HASH_ALGORITHM,
     dp_fingerprint = truthy (dp_fingerprint input), dp_hash = [], dp_signature = None\<rparr>"

definition assertSignaturePair :: "string option \<Rightarrow> retention_signature option \<Rightarrow> unit throws" where
  "assertSignaturePair fingerprint signature =
     andThen (throwUnless ((truthy fingerprint \<noteq> None) = (signature \<noteq> None))
        (TypeError ''signature and fingerprint must appear together'')) (\<lambda>_.
     case signature of
       None \<Rightarrow> Inr ()
     | Some s \<Rightarrow>
         andThen (throwUnless (sig_algorithm s = ''ed25519'') (TypeError ''signature algorithm must be ed25519'')) (\<lambda>_.
         andThen (assertHash (JStr (sig_publicKeyFingerprint s)) ''signature.publicKeyFingerprint'') (\<lambda>_.
         andThen (throwUnless (Some (sig_publicKeyFingerprint s) = fingerprint)
            (TypeError ''signature public key fingerprint must match the bound fingerprint'')) (\<lambda>_.
         throwUnless (BASE64_SIGNATURE_PATTERN (sig_signature s)) (TypeError ''signature must be padded base64'')))))"

definition createRetentionCheckpoint ::
  "host \<Rightarrow> digest \<Rightarrow> retention_checkpoint \<Rightarrow> retention_signature option \<Rightarrow> retention_checkpoint throws" where
  "createRetentionCheckpoint h sha input signature =
     andThen (assertCheckpointInput h (checkpoint_value input)) (\<lambda>_.
     andThen (assertSignaturePair (cp_fingerprint input) signature) (\<lambda>_.
     let unsigned = checkpointUnsigned input in
     andThen (hashRetentionCheckpoint sha (checkpoint_value unsigned)) (\<lambda>d.
     Inr (unsigned\<lparr>cp_hash := d, cp_signature := signature\<rparr>))))"

definition createRetentionDisposition ::
  "host \<Rightarrow> digest \<Rightarrow> retention_disposition \<Rightarrow> retention_signature option \<Rightarrow> retention_disposition throws" where
  "createRetentionDisposition h sha input signature =
     andThen (assertDispositionInput h (disposition_value input)) (\<lambda>_.
     andThen (assertSignaturePair (dp_fingerprint input) signature) (\<lambda>_.
     let unsigned = dispositionUnsigned input in
     andThen (hashRetentionDisposition sha (disposition_value unsigned)) (\<lambda>d.
     Inr (unsigned\<lparr>dp_hash := d, dp_signature := signature\<rparr>))))"

section \<open>Verification\<close>

definition base64_value :: "char \<Rightarrow> nat" where
  "base64_value c = (if is_upper c then code_unit c - 65 else if is_lower c then code_unit c - 71
     else if is_digit c then code_unit c + 4 else if c = CHR ''+'' then 62 else 63)"

text \<open>\<open>Buffer.from(signature, "base64")\<close> on a text of the signature pattern.\<close>

fun base64_bytes :: "string \<Rightarrow> string" where
  "base64_bytes (a # b # c # d # rest) =
     (let n = base64_value a * 262144 + base64_value b * 4096 + base64_value c * 64 + base64_value d in
      if c = CHR ''='' then [char_of (base64_value a * 4 + base64_value b div 16)]
      else if d = CHR ''='' then [char_of (base64_value a * 4 + base64_value b div 16),
        char_of (base64_value b mod 16 * 16 + base64_value c div 4)]
      else char_of (n div 65536) # char_of (n div 256 mod 256) # char_of (n mod 256) # base64_bytes rest)"
| "base64_bytes _ = []"

definition verifyDetachedSignature ::
  "retention_env \<Rightarrow> jsval \<Rightarrow> retention_options \<Rightarrow> (signature_status \<times> retention_reason option) throws" where
  "verifyDetachedSignature env record options =
     (let fingerprint = js_prop record ''signaturePublicKeyFingerprint''; signature = js_prop record ''signature'' in
      if \<not> is_truthy fingerprint \<and> \<not> is_truthy signature
        then Inr (SigAbsent, if opt_requireSignature options then Some signature_required else None)
      else if \<not> is_truthy fingerprint \<or> \<not> is_truthy signature \<or> js_prop signature ''publicKeyFingerprint'' \<noteq> fingerprint
        then Inr (SigInvalid, Some signature_fingerprint_mismatch)
      else if \<not> isPlainObject signature \<or> \<not> hasOnlyKeys signature SIGNATURE_KEYS
        then Inr (SigInvalid, Some signature_invalid)
      else if js_prop signature ''algorithm'' \<noteq> JStr ''ed25519''
          \<or> \<not> BASE64_SIGNATURE_PATTERN (to_js_string (js_prop signature ''signature''))
        then Inr (SigInvalid, Some signature_invalid)
      else (case (opt_trustedPublicKey options, opt_signatureVerifier options) of
          (Some key, Some verifier) \<Rightarrow>
            if JStr (re_sha_bytes env key) \<noteq> fingerprint then Inr (SigInvalid, Some signature_fingerprint_mismatch)
            else (case verifier key (base64_bytes (to_js_string (js_prop signature ''signature'')))
                    (to_js_string (js_prop record ''hash'')) of
                Inr True \<Rightarrow> Inr (SigValid, None)
              | _ \<Rightarrow> Inr (SigInvalid, Some signature_invalid))
        | _ \<Rightarrow> Inr (SigSkipped, if opt_requireSignature options then Some signature_required else None)))"

definition verifyCheckpointAt ::
  "retention_env \<Rightarrow> jsval \<Rightarrow> retention_options \<Rightarrow> nat \<Rightarrow> retention_result throws" where
  "verifyCheckpointAt env checkpoint options index =
     (if \<not> isPlainObject checkpoint \<or> \<not> hasOnlyKeys checkpoint CHECKPOINT_RECORD_KEYS
        then Inr (RetFail index invalid_checkpoint SigAbsent)
      else if js_prop checkpoint ''recordType'' \<noteq> JStr ''retention.checkpoint''
          \<or> js_prop checkpoint ''schemaVersion'' \<noteq> JStr RETENTION_SCHEMA_VERSION
          \<or> js_prop checkpoint ''canonicalization'' \<noteq> JStr RETENTION_CANONICALIZATION
          \<or> js_prop checkpoint ''hashAlgorithm'' \<noteq> JStr RETENTION_HASH_ALGORITHM
        then Inr (RetFail index unsupported_protocol SigAbsent)
      else (case assertCheckpointInput (re_host env) checkpoint of
          Inl e \<Rightarrow> Inr (RetFail index invalid_checkpoint SigAbsent)
        | Inr _ \<Rightarrow>
            if \<not> HASH_PATTERN (js_prop checkpoint ''hash'') then Inr (RetFail index ret_hash_mismatch SigAbsent)
            else andThen (hashRetentionCheckpoint (re_sha env) checkpoint) (\<lambda>d.
              if js_prop checkpoint ''hash'' \<noteq> JStr d then Inr (RetFail index ret_hash_mismatch SigAbsent)
              else andThen (verifyDetachedSignature env checkpoint options) (\<lambda>(status, reason).
                Inr (case reason of Some r \<Rightarrow> RetFail index r status | None \<Rightarrow> RetOk status)))))"

definition verifyRetentionCheckpoint :: "retention_env \<Rightarrow> jsval \<Rightarrow> retention_options \<Rightarrow> retention_result throws" where
  "verifyRetentionCheckpoint env checkpoint options = verifyCheckpointAt env checkpoint options 0"

definition combineSignatureStatus :: "signature_status \<Rightarrow> signature_status \<Rightarrow> signature_status" where
  "combineSignatureStatus current next =
     (if current = SigInvalid \<or> next = SigInvalid then SigInvalid
      else if current = SigSkipped \<or> next = SigSkipped then SigSkipped
      else if current = SigAbsent \<or> next = SigAbsent then SigAbsent
      else SigValid)"

text \<open>The chain loop; \<open>previous\<close> is \<open>checkpoints[index - 1]\<close>.\<close>

fun verifyCheckpointChain_from ::
  "retention_env \<Rightarrow> retention_options \<Rightarrow> signature_status \<Rightarrow> nat \<Rightarrow> jsval \<Rightarrow> jsval list \<Rightarrow> retention_result throws" where
  "verifyCheckpointChain_from env options signature index previous [] = Inr (RetOk signature)"
| "verifyCheckpointChain_from env options signature index previous (value # rest) =
     andThen (verifyCheckpointAt env value options index) (\<lambda>verified. case verified of
       RetFail i reason status \<Rightarrow> Inr (RetFail i reason (combineSignatureStatus signature status))
     | RetOk status \<Rightarrow>
         let signature = combineSignatureStatus signature status in
         if int_prop value ''epoch'' \<noteq> int index + 1 then Inr (RetFail index epoch_mismatch signature)
         else if index = 0 then verifyCheckpointChain_from env options signature (Suc index) value rest
         else if js_prop value ''tenantId'' \<noteq> js_prop previous ''tenantId'' then Inr (RetFail index tenant_mismatch signature)
         else if js_prop value ''chainKind'' \<noteq> js_prop previous ''chainKind'' then Inr (RetFail index chain_kind_mismatch signature)
         else if int_prop value ''fromSequence'' \<noteq> int_prop previous ''throughSequence'' + 1
             \<or> js_prop value ''fromPreviousHash'' \<noteq> js_prop previous ''throughHash''
           then Inr (RetFail index range_mismatch signature)
         else if js_prop value ''previousCheckpointHash'' \<noteq> js_prop previous ''hash''
           then Inr (RetFail index previous_checkpoint_hash_mismatch signature)
         else verifyCheckpointChain_from env options signature (Suc index) value rest)"

definition verifyRetentionCheckpointChain ::
  "retention_env \<Rightarrow> jsval list \<Rightarrow> retention_options \<Rightarrow> retention_result throws" where
  "verifyRetentionCheckpointChain env checkpoints options =
     verifyCheckpointChain_from env options (if checkpoints = [] then SigAbsent else SigValid) 0 JUndefined checkpoints"

fun verifyFromAnchor ::
  "digest \<Rightarrow> jsval \<Rightarrow> signature_status \<Rightarrow> int \<Rightarrow> jsval \<Rightarrow> nat \<Rightarrow> audit_record list \<Rightarrow> retention_result throws" where
  "verifyFromAnchor sha tenant status sequence previousHash index [] = Inr (RetOk status)"
| "verifyFromAnchor sha tenant status sequence previousHash index (record # rest) =
     (case event_tenant (rec_event record) of
        None \<Rightarrow> Inr (RetFail index ret_missing_tenant_scope status)
      | Some t \<Rightarrow>
          if JStr t \<noteq> tenant then Inr (RetFail index tenant_mismatch status)
          else if rec_hashAlgorithm record \<noteq> RETENTION_HASH_ALGORITHM
            then Inr (RetFail index ret_unsupported_hash_algorithm status)
          else if rec_canonicalization record \<noteq> RETENTION_CANONICALIZATION
            then Inr (RetFail index ret_unsupported_canonicalization status)
          else if rec_sequence record \<noteq> sequence + 1 then Inr (RetFail index ret_sequence_mismatch status)
          else if nullable_json (rec_previousHash record) \<noteq> previousHash
            then Inr (RetFail index ret_previous_hash_mismatch status)
          else andThen (hashAuditRecord sha record) (\<lambda>d.
            if rec_hash record \<noteq> d then Inr (RetFail index record_hash_mismatch status)
            else verifyFromAnchor sha tenant status (rec_sequence record) (JStr (rec_hash record)) (Suc index) rest))"

definition verifyAuditRecordsFromCheckpoint ::
  "retention_env \<Rightarrow> jsval \<Rightarrow> audit_record list \<Rightarrow> retention_options \<Rightarrow> retention_result throws" where
  "verifyAuditRecordsFromCheckpoint env checkpoint records options =
     andThen (verifyRetentionCheckpoint env checkpoint options) (\<lambda>checkpointResult. case checkpointResult of
       RetFail i reason status \<Rightarrow> Inr checkpointResult
     | RetOk status \<Rightarrow> verifyFromAnchor (re_sha env) (js_prop checkpoint ''tenantId'') status
         (int_prop checkpoint ''throughSequence'') (js_prop checkpoint ''throughHash'') 0 records)"

definition verifyRetentionDisposition ::
  "retention_env \<Rightarrow> jsval \<Rightarrow> jsval \<Rightarrow> retention_options \<Rightarrow> retention_result throws" where
  "verifyRetentionDisposition env disposition checkpoint options =
     andThen (verifyRetentionCheckpoint env checkpoint (options\<lparr>opt_requireSignature := False\<rparr>)) (\<lambda>checkpointResult.
     case checkpointResult of
       RetFail i reason status \<Rightarrow> Inr checkpointResult
     | RetOk _ \<Rightarrow>
       if \<not> isPlainObject disposition \<or> \<not> hasOnlyKeys disposition DISPOSITION_RECORD_KEYS
         then Inr (RetFail 0 invalid_disposition SigAbsent)
       else if js_prop disposition ''recordType'' \<noteq> JStr ''retention.disposition''
           \<or> js_prop disposition ''schemaVersion'' \<noteq> JStr RETENTION_SCHEMA_VERSION
           \<or> js_prop disposition ''method'' \<noteq> JStr ''provider-delete''
           \<or> js_prop disposition ''canonicalization'' \<noteq> JStr RETENTION_CANONICALIZATION
           \<or> js_prop disposition ''hashAlgorithm'' \<noteq> JStr RETENTION_HASH_ALGORITHM
         then Inr (RetFail 0 unsupported_protocol SigAbsent)
       else (case assertDispositionInput (re_host env) disposition of
           Inl e \<Rightarrow> Inr (RetFail 0 invalid_disposition SigAbsent)
         | Inr _ \<Rightarrow>
             if \<not> HASH_PATTERN (js_prop disposition ''hash'') then Inr (RetFail 0 ret_hash_mismatch SigAbsent)
             else andThen (hashRetentionDisposition (re_sha env) disposition) (\<lambda>d.
               if js_prop disposition ''hash'' \<noteq> JStr d then Inr (RetFail 0 ret_hash_mismatch SigAbsent)
               else andThen (verifyDetachedSignature env disposition options) (\<lambda>(status, reason).
                 Inr (case reason of
                   Some r \<Rightarrow> RetFail 0 r status
                 | None \<Rightarrow>
                     if js_prop disposition ''tenantId'' \<noteq> js_prop checkpoint ''tenantId''
                         \<or> js_prop disposition ''chainKind'' \<noteq> js_prop checkpoint ''chainKind''
                         \<or> js_prop disposition ''checkpointHash'' \<noteq> js_prop checkpoint ''hash''
                         \<or> js_prop disposition ''fromSequence'' \<noteq> js_prop checkpoint ''fromSequence''
                         \<or> js_prop disposition ''throughSequence'' \<noteq> js_prop checkpoint ''throughSequence''
                         \<or> js_prop disposition ''archiveRootHash'' \<noteq> js_prop checkpoint ''archiveRootHash''
                       then RetFail 0 checkpoint_mismatch status
                     else RetOk status)))))"

section \<open>Typed checkpoints as untrusted values\<close>

lemma js_prop_checkpoint [simp]:
  "js_prop (checkpoint_value c) ''recordType'' = JStr (cp_recordType c)"
  "js_prop (checkpoint_value c) ''schemaVersion'' = JStr (cp_schemaVersion c)"
  "js_prop (checkpoint_value c) ''checkpointId'' = JStr (cp_checkpointId c)"
  "js_prop (checkpoint_value c) ''tenantId'' = JStr (cp_tenantId c)"
  "js_prop (checkpoint_value c) ''chainKind'' = JStr (cp_chainKind c)"
  "js_prop (checkpoint_value c) ''epoch'' = JNum (NInt (cp_epoch c))"
  "js_prop (checkpoint_value c) ''fromSequence'' = JNum (NInt (cp_fromSequence c))"
  "js_prop (checkpoint_value c) ''fromPreviousHash'' = nullable_json (cp_fromPreviousHash c)"
  "js_prop (checkpoint_value c) ''throughSequence'' = JNum (NInt (cp_throughSequence c))"
  "js_prop (checkpoint_value c) ''throughHash'' = JStr (cp_throughHash c)"
  "js_prop (checkpoint_value c) ''recordCount'' = JNum (NInt (cp_recordCount c))"
  "js_prop (checkpoint_value c) ''archiveRootHash'' = JStr (cp_archiveRootHash c)"
  "js_prop (checkpoint_value c) ''previousCheckpointHash'' = nullable_json (cp_previousCheckpointHash c)"
  "js_prop (checkpoint_value c) ''createdAt'' = JStr (cp_createdAt c)"
  "js_prop (checkpoint_value c) ''canonicalization'' = JStr (cp_canonicalization c)"
  "js_prop (checkpoint_value c) ''hashAlgorithm'' = JStr (cp_hashAlgorithm c)"
  "js_prop (checkpoint_value c) ''signaturePublicKeyFingerprint'' = opt_json (cp_fingerprint c)"
  "js_prop (checkpoint_value c) ''hash'' = JStr (cp_hash c)"
  "js_prop (checkpoint_value c) ''signature'' = (case cp_signature c of None \<Rightarrow> JUndefined | Some s \<Rightarrow> signature_value s)"
  by (simp_all add: checkpoint_value_def js_prop_def get_prop_def optional_member_def opt_json_def split: option.split)

lemma int_prop_checkpoint [simp]:
  "int_prop (checkpoint_value c) ''epoch'' = cp_epoch c"
  "int_prop (checkpoint_value c) ''fromSequence'' = cp_fromSequence c"
  "int_prop (checkpoint_value c) ''throughSequence'' = cp_throughSequence c"
  "int_prop (checkpoint_value c) ''recordCount'' = cp_recordCount c"
  by (simp_all add: int_prop_def)

lemma js_prop_signature [simp]:
  "js_prop (signature_value s) ''algorithm'' = JStr (sig_algorithm s)"
  "js_prop (signature_value s) ''publicKeyFingerprint'' = JStr (sig_publicKeyFingerprint s)"
  "js_prop (signature_value s) ''signature'' = JStr (sig_signature s)"
  by (simp_all add: signature_value_def js_prop_def get_prop_def)

lemma checkpoint_value_shape [simp]:
  "isPlainObject (checkpoint_value c)" "hasOnlyKeys (checkpoint_value c) CHECKPOINT_RECORD_KEYS"
  "isPlainObject (signature_value s)" "hasOnlyKeys (signature_value s) SIGNATURE_KEYS"
  by (auto simp: checkpoint_value_def isPlainObject_def hasOnlyKeys_def own_keys_def optional_member_def
      CHECKPOINT_RECORD_KEYS_def signature_value_def SIGNATURE_KEYS_def split: option.split)

lemma truthy_leaves [simp]:
  "is_truthy (JStr s) \<longleftrightarrow> s \<noteq> []" "\<not> is_truthy JUndefined" "is_truthy (signature_value s')"
  by (simp_all add: is_truthy_def signature_value_def)

lemma is_truthy_opt_json [simp]: "is_truthy (opt_json v) \<longleftrightarrow> truthy v \<noteq> None"
  by (cases v) (auto simp: opt_json_def truthy_def split: list.split)

lemma payload_ignores_hash [simp]:
  "checkpointHashPayload (checkpoint_value (c\<lparr>cp_hash := d, cp_signature := s\<rparr>)) = checkpointHashPayload (checkpoint_value c)"
  by (simp add: checkpointHashPayload_def pick_def)

definition signature_outcome ::
  "retention_env \<Rightarrow> retention_options \<Rightarrow> string option \<Rightarrow> retention_signature option \<Rightarrow> string \<Rightarrow>
     signature_status \<times> retention_reason option" where
  "signature_outcome env options fingerprint signature hash =
     (case signature of
        None \<Rightarrow> (SigAbsent, if opt_requireSignature options then Some signature_required else None)
      | Some s \<Rightarrow>
          (case (opt_trustedPublicKey options, opt_signatureVerifier options) of
             (Some key, Some verifier) \<Rightarrow>
               if Some (re_sha_bytes env key) \<noteq> fingerprint then (SigInvalid, Some signature_fingerprint_mismatch)
               else if verifier key (base64_bytes (sig_signature s)) hash = Inr True then (SigValid, None)
               else (SigInvalid, Some signature_invalid)
           | _ \<Rightarrow> (SigSkipped, if opt_requireSignature options then Some signature_required else None)))"

lemma detached_signature_typed:
  assumes "assertSignaturePair fp sg = Inr u"
    and "js_prop v ''signaturePublicKeyFingerprint'' = opt_json (truthy fp)"
    and "js_prop v ''signature'' = (case sg of None \<Rightarrow> JUndefined | Some s \<Rightarrow> signature_value s)"
    and "js_prop v ''hash'' = JStr hash"
  shows "verifyDetachedSignature env v options = Inr (signature_outcome env options fp sg hash)"
proof (cases sg)
  case None
  with assms(1) have "truthy fp = None" by (auto simp: assertSignaturePair_def)
  with None assms show ?thesis
    by (simp add: verifyDetachedSignature_def signature_outcome_def opt_json_def)
next
  case (Some s)
  with assms(1) have f: "fp = Some (sig_publicKeyFingerprint s)" "truthy fp = Some (sig_publicKeyFingerprint s)"
    "sig_publicKeyFingerprint s \<noteq> []" "sig_algorithm s = ''ed25519''" "BASE64_SIGNATURE_PATTERN (sig_signature s)"
    by (auto simp: assertSignaturePair_def truthy_def assertHash_def is_hex64_def split: list.splits)
  show ?thesis
  proof (cases "opt_trustedPublicKey options")
    case None
    with Some f assms(2-4) show ?thesis
      by (simp add: verifyDetachedSignature_def signature_outcome_def opt_json_def)
  next
    case key: (Some key)
    show ?thesis
    proof (cases "opt_signatureVerifier options")
      case None
      with Some key f assms(2-4) show ?thesis
        by (simp add: verifyDetachedSignature_def signature_outcome_def opt_json_def)
    next
      case ver: (Some verifier)
      show ?thesis
        by (cases "verifier key (base64_bytes (sig_signature s)) hash")
          (use Some key ver f assms(2-4) in \<open>auto simp: verifyDetachedSignature_def signature_outcome_def opt_json_def\<close>)
    qed
  qed
qed

lemma assertFingerprint_truthy:
  "assertFingerprint (checkpoint_value c) = Inr u \<Longrightarrow> truthy (cp_fingerprint c) = cp_fingerprint c"
  by (cases "cp_fingerprint c")
    (auto simp: assertFingerprint_def opt_json_def assertHash_def is_hex64_def truthy_def split: if_splits list.splits)

text \<open>The fields that the input guard reads, as a list.\<close>

definition checkpoint_fields :: "jsval \<Rightarrow> jsval list" where
  "checkpoint_fields v = map (js_prop v) [''checkpointId'', ''tenantId'', ''chainKind'', ''epoch'', ''fromSequence'',
     ''throughSequence'', ''recordCount'', ''throughHash'', ''archiveRootHash'', ''fromPreviousHash'',
     ''previousCheckpointHash'', ''createdAt'', ''signaturePublicKeyFingerprint'']"

lemma assertCheckpointInput_fields:
  assumes "checkpoint_fields v = checkpoint_fields w"
  shows "assertCheckpointInput h v = assertCheckpointInput h w"
  using assms unfolding assertCheckpointInput_def assertFingerprint_def int_prop_def checkpoint_fields_def
  by (simp only: list.map list.inject)

lemma create_checkpoint_verifies:
  assumes hex: "\<forall>s. is_hex64 (re_sha env s)"
    and c: "createRetentionCheckpoint (re_host env) (re_sha env) input sg = Inr c"
  shows "verifyCheckpointAt env (checkpoint_value c) options i =
    Inr (case signature_outcome env options (cp_fingerprint c) (cp_signature c) (cp_hash c) of
      (status, None) \<Rightarrow> RetOk status | (status, Some r) \<Rightarrow> RetFail i r status)"
proof -
  from c obtain d where a: "assertCheckpointInput (re_host env) (checkpoint_value input) = Inr ()"
    "assertSignaturePair (cp_fingerprint input) sg = Inr ()"
    "hashRetentionCheckpoint (re_sha env) (checkpoint_value (checkpointUnsigned input)) = Inr d"
    and cd: "c = (checkpointUnsigned input)\<lparr>cp_hash := d, cp_signature := sg\<rparr>"
    by (auto simp: createRetentionCheckpoint_def Let_def)
  from a(1) have fp: "truthy (cp_fingerprint input) = cp_fingerprint input"
    by (auto simp: assertCheckpointInput_def intro: assertFingerprint_truthy)
  have u: "assertCheckpointInput (re_host env) (checkpoint_value c) = Inr ()"
    using a(1) assertCheckpointInput_fields [of "checkpoint_value c" "checkpoint_value input"]
    by (simp add: checkpoint_fields_def cd checkpointUnsigned_def fp)
  have h: "hashRetentionCheckpoint (re_sha env) (checkpoint_value c) = Inr d"
    using a(3) by (simp add: hashRetentionCheckpoint_def cd)
  then have "is_hex64 d" using hex by (auto simp: hashRetentionCheckpoint_def sha256Hex_def)
  moreover have "verifyDetachedSignature env (checkpoint_value c) options =
      Inr (signature_outcome env options (cp_fingerprint c) (cp_signature c) (cp_hash c))"
    using detached_signature_typed [OF a(2), of "checkpoint_value c" d env options] fp
    by (simp add: cd checkpointUnsigned_def)
  ultimately show ?thesis
    using u h by (auto simp: verifyCheckpointAt_def cd checkpointUnsigned_def HASH_PATTERN_def split: prod.split)
qed

section \<open>What an accepted checkpoint satisfies\<close>

definition checkpoint_range_ok :: "jsval \<Rightarrow> bool" where
  "checkpoint_range_ok v \<longleftrightarrow> 1 \<le> int_prop v ''fromSequence'' \<and> int_prop v ''fromSequence'' \<le> int_prop v ''throughSequence'' \<and>
     int_prop v ''recordCount'' = int_prop v ''throughSequence'' - int_prop v ''fromSequence'' + 1 \<and>
     (int_prop v ''epoch'' = 1 \<longrightarrow> int_prop v ''fromSequence'' = 1)"

lemma assertSafeInteger_int:
  "assertSafeInteger (js_prop v k) f = Inr u \<Longrightarrow> 1 \<le> int_prop v k \<and> js_prop v k = JNum (NInt (int_prop v k))"
  by (auto simp: assertSafeInteger_def is_safe_integer_from_def int_prop_def split: jsval.splits jsnumber.splits)

lemma assertCheckpointInput_range: "assertCheckpointInput h v = Inr u \<Longrightarrow> checkpoint_range_ok v"
  by (auto simp: assertCheckpointInput_def checkpoint_range_ok_def dest!: assertSafeInteger_int split: if_splits)

lemma accepted_checkpoint:
  assumes "verifyCheckpointAt env v options i = Inr (RetOk st)"
  shows "checkpoint_range_ok v \<and>
    (\<exists>d. js_prop v ''hash'' = JStr d \<and> hashRetentionCheckpoint (re_sha env) v = Inr d) \<and>
    verifyDetachedSignature env v options = Inr (st, None)"
  using assms assertCheckpointInput_range
  by (fastforce simp: verifyCheckpointAt_def split: if_splits sum.splits option.splits)

section \<open>Checkpoint chains\<close>

definition checkpoint_follows :: "jsval \<Rightarrow> jsval \<Rightarrow> bool" where
  "checkpoint_follows p v \<longleftrightarrow>
     js_prop v ''tenantId'' = js_prop p ''tenantId'' \<and> js_prop v ''chainKind'' = js_prop p ''chainKind'' \<and>
     int_prop v ''fromSequence'' = int_prop p ''throughSequence'' + 1 \<and>
     js_prop v ''fromPreviousHash'' = js_prop p ''throughHash'' \<and>
     js_prop v ''previousCheckpointHash'' = js_prop p ''hash''"

text \<open>The statuses of the single checkpoints, combined as the loop combines them.\<close>

definition combine_all :: "signature_status \<Rightarrow> signature_status list \<Rightarrow> signature_status" where
  "combine_all = foldl combineSignatureStatus"

lemma combine_valid: "combineSignatureStatus a b = SigValid \<longleftrightarrow> a = SigValid \<and> b = SigValid"
  by (cases a; cases b) (simp_all add: combineSignatureStatus_def)

lemma combine_all_valid: "combine_all a ss = SigValid \<longleftrightarrow> a = SigValid \<and> set ss \<subseteq> {SigValid}"
  by (induction ss arbitrary: a) (auto simp: combine_all_def combine_valid)

lemma checkpoint_step:
  "verifyCheckpointChain_from env options sg i p (v # vs) = Inr (RetOk st) \<longleftrightarrow>
    (\<exists>s. verifyCheckpointAt env v options i = Inr (RetOk s) \<and> int_prop v ''epoch'' = int i + 1 \<and>
       (i = 0 \<or> checkpoint_follows p v) \<and>
       verifyCheckpointChain_from env options (combineSignatureStatus sg s) (Suc i) v vs = Inr (RetOk st))"
proof (cases "verifyCheckpointAt env v options i")
  case (Inr r)
  then show ?thesis
    by (cases r; cases "int_prop v ''epoch'' = int i + 1"; cases "i = 0"; cases "checkpoint_follows p v")
      (auto simp: checkpoint_follows_def Let_def)
qed simp

lemma checkpoint_chain_from:
  "verifyCheckpointChain_from env options sg i p vs = Inr (RetOk st) \<longleftrightarrow>
    (\<exists>ss. length ss = length vs \<and>
       (\<forall>j < length vs. verifyCheckpointAt env (vs ! j) options (i + j) = Inr (RetOk (ss ! j)) \<and>
          int_prop (vs ! j) ''epoch'' = int (i + j) + 1) \<and>
       (i = 0 \<or> vs = [] \<or> checkpoint_follows p (hd vs)) \<and> successively checkpoint_follows vs \<and>
       st = combine_all sg ss)"
proof (induction vs arbitrary: sg i p)
  case Nil
  show ?case by (auto simp: combine_all_def)
next
  case (Cons v vs)
  have nth: "(\<forall>j < length (v # vs). verifyCheckpointAt env ((v # vs) ! j) options (i + j) = Inr (RetOk ((s # ss) ! j)) \<and>
          int_prop ((v # vs) ! j) ''epoch'' = int (i + j) + 1) \<longleftrightarrow>
      verifyCheckpointAt env v options i = Inr (RetOk s) \<and> int_prop v ''epoch'' = int i + 1 \<and>
      (\<forall>j < length vs. verifyCheckpointAt env (vs ! j) options (Suc i + j) = Inr (RetOk (ss ! j)) \<and>
          int_prop (vs ! j) ''epoch'' = int (Suc i + j) + 1)" for s ss
    by (auto simp: less_Suc_eq_0_disj)
  have ex: "(\<exists>ss. length ss = length (v # vs) \<and> P ss) \<longleftrightarrow> (\<exists>s ss. length ss = length vs \<and> P (s # ss))" for P
    by (metis length_Suc_conv length_Cons)
  show ?case
    unfolding checkpoint_step Cons ex nth
    by (cases vs) (auto simp: combine_all_def)
qed

lemma checkpoint_chain_iff:
  "verifyRetentionCheckpointChain env vs options = Inr (RetOk st) \<longleftrightarrow>
    (\<exists>ss. length ss = length vs \<and>
       (\<forall>j < length vs. verifyCheckpointAt env (vs ! j) options j = Inr (RetOk (ss ! j)) \<and>
          int_prop (vs ! j) ''epoch'' = int j + 1) \<and>
       successively checkpoint_follows vs \<and> st = combine_all (if vs = [] then SigAbsent else SigValid) ss)"
  by (simp add: verifyRetentionCheckpointChain_def checkpoint_chain_from)

lemma range_sum:
  assumes "successively checkpoint_follows vs" "\<forall>v \<in> set vs. checkpoint_range_ok v"
    and "vs \<noteq> []" "int_prop (hd vs) ''fromSequence'' = 1"
  shows "sum_list (map (\<lambda>v. int_prop v ''recordCount'') vs) = int_prop (last vs) ''throughSequence'' \<and>
    (\<exists>t. \<forall>v \<in> set vs. js_prop v ''tenantId'' = t)"
  using assms
proof (induction vs rule: rev_induct)
  case (snoc v vs)
  show ?case
  proof (cases "vs = []")
    case True
    with snoc.prems show ?thesis by (simp add: checkpoint_range_ok_def)
  next
    case False
    with snoc.prems have f: "checkpoint_follows (last vs) v" "successively checkpoint_follows vs"
      by (auto simp: successively_append_iff)
    have "sum_list (map (\<lambda>v. int_prop v ''recordCount'') vs) = int_prop (last vs) ''throughSequence'' \<and>
        (\<exists>t. \<forall>v \<in> set vs. js_prop v ''tenantId'' = t)"
      by (rule snoc.IH) (use f(2) snoc.prems False in \<open>simp_all\<close>)
    then obtain t where t: "sum_list (map (\<lambda>v. int_prop v ''recordCount'') vs) = int_prop (last vs) ''throughSequence''"
      "\<forall>x \<in> set vs. js_prop x ''tenantId'' = t" by blast
    then have "js_prop v ''tenantId'' = t" using f(1) False by (simp add: checkpoint_follows_def)
    with t f(1) snoc.prems(2) show ?thesis
      by (auto simp: checkpoint_follows_def checkpoint_range_ok_def)
  qed
qed simp

section \<open>Records after a checkpoint\<close>

lemma verifyFromAnchor_iff:
  "verifyFromAnchor sha tenant st n (nullable_json p) i rs = Inr (RetOk s) \<longleftrightarrow>
     s = st \<and> (\<forall>r \<in> set rs. sealed (auditEnvelope sha) r \<and> map_option JStr (event_tenant (rec_event r)) = Some tenant) \<and>
     linked_from (auditEnvelope sha) \<lparr>link_previousHash = p, link_sequence = n\<rparr> rs"
proof (induction rs arbitrary: n p i)
  case (Cons r rs)
  have h: "JStr (rec_hash r) = nullable_json (Some (rec_hash r))" by (simp add: nullable_json_def)
  have seal: "sealed (auditEnvelope sha) r \<longleftrightarrow> event_tenant (rec_event r) \<noteq> None \<and>
      rec_hashAlgorithm r = RETENTION_HASH_ALGORITHM \<and> rec_canonicalization r = RETENTION_CANONICALIZATION \<and>
      hashAuditRecord sha r = Inr (rec_hash r)"
    by (simp add: sealed_def, simp add: auditEnvelope_def RETENTION_HASH_ALGORITHM_def HASH_ALGORITHM_def
        RETENTION_CANONICALIZATION_def CANONICALIZATION_def)
  have link: "links (auditEnvelope sha) \<lparr>link_previousHash = p, link_sequence = n\<rparr> r \<longleftrightarrow>
      rec_sequence r = n + 1 \<and> rec_previousHash r = p"
    "link_after (auditEnvelope sha) r = \<lparr>link_previousHash = Some (rec_hash r), link_sequence = rec_sequence r\<rparr>"
    by (simp_all add: links_def link_after_def auditEnvelope_def)
  have "verifyFromAnchor sha tenant st n (nullable_json p) i (r # rs) = Inr (RetOk s) \<longleftrightarrow>
      sealed (auditEnvelope sha) r \<and> map_option JStr (event_tenant (rec_event r)) = Some tenant \<and>
      links (auditEnvelope sha) \<lparr>link_previousHash = p, link_sequence = n\<rparr> r \<and>
      verifyFromAnchor sha tenant st (rec_sequence r) (nullable_json (Some (rec_hash r))) (Suc i) rs = Inr (RetOk s)"
    unfolding seal link h [symmetric]
    by (cases "event_tenant (rec_event r)"; cases "hashAuditRecord sha r") simp_all
  then show ?case unfolding Cons by (auto simp: link)
qed auto

lemma linked_from_append:
  "linked_from env l (xs @ ys) \<longleftrightarrow> linked_from env l xs \<and> linked_from env (if xs = [] then l else link_after env (last xs)) ys"
  by (induction xs arbitrary: l) auto

lemma chain_of_all: "\<forall>r \<in> set rs. tenant_of env r = Some t \<Longrightarrow> chain_of env u rs = (if u = t then rs else [])"
  by (induction rs) auto

lemma single_tenant_chain_ok:
  assumes "\<forall>r \<in> set rs. tenant_of env r = Some t"
  shows "chain_ok env rs \<longleftrightarrow> (\<forall>r \<in> set rs. sealed env r) \<and> linked_from env genesis rs"
  using chain_of_all [OF assms] by (auto simp: chain_ok_def unbroken_iff_linked)

section \<open>Signatures\<close>

text \<open>The trusted key signed the stored hash, as the injected verifier decides.\<close>

definition signed_by_trusted_key :: "retention_env \<Rightarrow> retention_options \<Rightarrow> jsval \<Rightarrow> bool" where
  "signed_by_trusted_key env options v \<longleftrightarrow>
     (\<exists>key verifier. opt_trustedPublicKey options = Some key \<and> opt_signatureVerifier options = Some verifier \<and>
        js_prop v ''signaturePublicKeyFingerprint'' = JStr (re_sha_bytes env key) \<and>
        verifier key (base64_bytes (to_js_string (js_prop (js_prop v ''signature'') ''signature'')))
          (to_js_string (js_prop v ''hash'')) = Inr True)"

lemma detached_signature_valid:
  assumes "verifyDetachedSignature env v options = Inr (SigValid, None)"
  shows "signed_by_trusted_key env options v"
  using assms unfolding verifyDetachedSignature_def signed_by_trusted_key_def Let_def
  by (auto split: if_splits option.splits sum.splits bool.splits)

lemma detached_signature_required:
  assumes "verifyDetachedSignature env v options = Inr (st, None)" "opt_requireSignature options"
  shows "st = SigValid"
  using assms unfolding verifyDetachedSignature_def Let_def
  by (auto split: if_splits option.splits sum.splits bool.splits)

section \<open>Properties\<close>

text \<open>What \<open>createRetentionCheckpoint\<close> returns verifies, at any place of a chain: shape, protocol metadata and hash are accepted, and the result is exactly the outcome of the signature gate: valid when the trusted key has the bound fingerprint and the injected verifier accepts the hash, skipped without a key or verifier, absent without a signature, and a failure when a signature is required but not established.\<close>

theorem createRetentionCheckpoint_verifies:
  assumes "\<forall>s. is_hex64 (re_sha env s)"
    and "createRetentionCheckpoint (re_host env) (re_sha env) input signature = Inr c"
  shows "verifyCheckpointAt env (checkpoint_value c) options index =
    Inr (case signature_outcome env options (cp_fingerprint c) (cp_signature c) (cp_hash c) of
      (status, None) \<Rightarrow> RetOk status | (status, Some r) \<Rightarrow> RetFail index r status)"
  using assms by (rule create_checkpoint_verifies)

text \<open>A checkpoint chain is accepted exactly when every element verifies by itself, the epochs are 1, 2, 3, ..., and each element continues the tenant, the chain kind, the record range with its hash, and the checkpoint hash of its predecessor.\<close>

theorem verifyRetentionCheckpointChain_iff:
  "verifyRetentionCheckpointChain env checkpoints options = Inr (RetOk status) \<longleftrightarrow>
    (\<exists>statuses. length statuses = length checkpoints \<and>
       (\<forall>j < length checkpoints. verifyCheckpointAt env (checkpoints ! j) options j = Inr (RetOk (statuses ! j)) \<and>
          int_prop (checkpoints ! j) ''epoch'' = int j + 1) \<and>
       successively checkpoint_follows checkpoints \<and>
       status = combine_all (if checkpoints = [] then SigAbsent else SigValid) statuses)"
  by (rule checkpoint_chain_iff)

text \<open>An accepted checkpoint chain accounts for every archived record: it starts at sequence 1, concerns one tenant, and the record counts of its checkpoints add up to the last archived sequence number, so no range is missing or counted twice.\<close>

theorem verifyRetentionCheckpointChain_covers:
  assumes "verifyRetentionCheckpointChain env checkpoints options = Inr (RetOk status)" "checkpoints \<noteq> []"
  shows "int_prop (hd checkpoints) ''fromSequence'' = 1 \<and>
    sum_list (map (\<lambda>v. int_prop v ''recordCount'') checkpoints) = int_prop (last checkpoints) ''throughSequence'' \<and>
    (\<exists>t. \<forall>v \<in> set checkpoints. js_prop v ''tenantId'' = t)"
proof -
  from assms(1) obtain ss where ss: "successively checkpoint_follows checkpoints"
    "\<And>j. j < length checkpoints \<Longrightarrow> verifyCheckpointAt env (checkpoints ! j) options j = Inr (RetOk (ss ! j)) \<and>
      int_prop (checkpoints ! j) ''epoch'' = int j + 1"
    unfolding checkpoint_chain_iff by blast
  have r: "\<forall>v \<in> set checkpoints. checkpoint_range_ok v"
    using ss(2) accepted_checkpoint by (metis in_set_conv_nth)
  have "int_prop (hd checkpoints) ''epoch'' = 1" using ss(2) [of 0] assms(2) by (simp add: hd_conv_nth)
  with r assms(2) have f: "int_prop (hd checkpoints) ''fromSequence'' = 1" by (simp add: checkpoint_range_ok_def)
  with range_sum [OF ss(1) r assms(2) f] show ?thesis by simp
qed

text \<open>C3. Cropping at a checkpoint loses no verification: when the archived records verified and the checkpoint states their tenant, their number and their last hash, the retained records verify from the checkpoint exactly when archived and retained records together verify from the genesis, for the same tenant.\<close>

theorem verifyAuditRecordsFromCheckpoint_equivalence:
  assumes "verifyRetentionCheckpoint env checkpoint options = Inr (RetOk status)"
    and "verifyAuditRecords (re_sha env) archived = Inr VerOk" "archived \<noteq> []"
    and "\<forall>r \<in> set archived. event_tenant (rec_event r) = Some tenant"
    and "js_prop checkpoint ''tenantId'' = JStr tenant"
    and "int_prop checkpoint ''throughSequence'' = int (length archived)"
    and "js_prop checkpoint ''throughHash'' = JStr (rec_hash (last archived))"
  shows "verifyAuditRecordsFromCheckpoint env checkpoint retained options = Inr (RetOk status) \<longleftrightarrow>
    verifyAuditRecords (re_sha env) (archived @ retained) = Inr VerOk \<and>
    (\<forall>r \<in> set retained. event_tenant (rec_event r) = Some tenant)"
proof -
  let ?e = "auditEnvelope (re_sha env)"
  have t: "\<forall>r \<in> set archived. tenant_of ?e r = Some tenant" using assms(4) by simp
  from assms(2) have ok: "chain_ok ?e archived" by (simp add: verifyAuditRecords_def audit_chain.verify_iff)
  then have lk: "linked_from ?e genesis archived" "\<forall>r \<in> set archived. sealed ?e r"
    by (simp_all add: single_tenant_chain_ok [OF t])
  have "unbroken ?e archived" using lk(1) by (simp add: unbroken_iff_linked)
  from unbroken_last_sequence [OF this assms(3)]
  have seq: "rec_sequence (last archived) = int (length archived)" by (simp add: auditEnvelope_def)
  have anchor: "link_after ?e (last archived) =
      \<lparr>link_previousHash = Some (rec_hash (last archived)), link_sequence = int (length archived)\<rparr>"
    by (simp add: link_after_def seq [symmetric]) (simp add: auditEnvelope_def)
  have th: "js_prop checkpoint ''throughHash'' = nullable_json (Some (rec_hash (last archived)))"
    using assms(7) by (simp add: nullable_json_def)
  have "verifyAuditRecordsFromCheckpoint env checkpoint retained options = Inr (RetOk status) \<longleftrightarrow>
      (\<forall>r \<in> set retained. sealed ?e r \<and> event_tenant (rec_event r) = Some tenant) \<and>
      linked_from ?e (link_after ?e (last archived)) retained"
    using assms(1,5,6) by (auto simp: verifyAuditRecordsFromCheckpoint_def verifyFromAnchor_iff th anchor)
  also have "\<dots> \<longleftrightarrow> chain_ok ?e (archived @ retained) \<and> (\<forall>r \<in> set retained. event_tenant (rec_event r) = Some tenant)"
  proof (cases "\<forall>r \<in> set retained. event_tenant (rec_event r) = Some tenant")
    case True
    with t have "\<forall>r \<in> set (archived @ retained). tenant_of ?e r = Some tenant" by auto
    from single_tenant_chain_ok [OF this] True lk assms(3) show ?thesis
      by (auto simp: linked_from_append)
  qed auto
  finally show ?thesis by (simp add: verifyAuditRecords_def audit_chain.verify_iff)
qed

text \<open>C11. When signatures are required, an accepted nonempty chain is valid as a whole and each of its checkpoints carries a signature of its hash that the injected verifier accepted under the trusted key of the bound fingerprint.\<close>

theorem verifyRetentionCheckpointChain_signed:
  assumes "verifyRetentionCheckpointChain env checkpoints options = Inr (RetOk status)"
    and "opt_requireSignature options" "checkpoints \<noteq> []"
  shows "status = SigValid \<and> (\<forall>v \<in> set checkpoints. signed_by_trusted_key env options v)"
proof -
  from assms(1,3) obtain ss where ss: "length ss = length checkpoints" "status = combine_all SigValid ss"
    "\<And>j. j < length checkpoints \<Longrightarrow> verifyCheckpointAt env (checkpoints ! j) options j = Inr (RetOk (ss ! j))"
    unfolding checkpoint_chain_iff by auto
  have v: "ss ! j = SigValid \<and> signed_by_trusted_key env options (checkpoints ! j)" if "j < length checkpoints" for j
    using accepted_checkpoint [OF ss(3) [OF that]] detached_signature_required [OF _ assms(2)] detached_signature_valid
    by metis
  then have "set ss \<subseteq> {SigValid}" using ss(1) by (auto simp: in_set_conv_nth)
  with v ss(2) show ?thesis by (auto simp: combine_all_valid in_set_conv_nth)
qed

section \<open>Concrete checkpoints\<close>

definition sample_env :: retention_env where
  "sample_env = \<lparr>re_host = \<lparr>parseDate = (\<lambda>_. Some 0), now = 0, randomUUID = ''0''\<rparr>,
     re_sha = zero_digest, re_sha_bytes = zero_digest\<rparr>"

definition sample_options :: retention_options where
  "sample_options = \<lparr>opt_trustedPublicKey = Some ''key'', opt_requireSignature = True,
     opt_signatureVerifier = Some (\<lambda>key signature message. Inr (message = zero_digest []))\<rparr>"

definition no_options :: retention_options where
  "no_options = \<lparr>opt_trustedPublicKey = None, opt_requireSignature = False, opt_signatureVerifier = None\<rparr>"

definition sample_signature :: retention_signature where
  "sample_signature = \<lparr>sig_algorithm = ''ed25519'', sig_publicKeyFingerprint = zero_digest [],
     sig_signature = replicate 86 (CHR ''A'') @ ''==''\<rparr>"

definition sample_checkpoint :: "int \<Rightarrow> retention_checkpoint" where
  "sample_checkpoint n = \<lparr>cp_recordType = ''retention.checkpoint'', cp_schemaVersion = ''1.0'',
     cp_checkpointId = ''c'', cp_tenantId = ''t1'', cp_chainKind = ''audit'', cp_epoch = n, cp_fromSequence = 2 * n - 1,
     cp_fromPreviousHash = (if n = 1 then None else Some (zero_digest [])), cp_throughSequence = 2 * n,
     cp_throughHash = zero_digest [], cp_recordCount = 2, cp_archiveRootHash = zero_digest [],
     cp_previousCheckpointHash = (if n = 1 then None else Some (zero_digest [])),
     cp_createdAt = ''1970-01-01T00:00:00.000Z'', cp_canonicalization = ''veritio-json-v1'',
     cp_hashAlgorithm = ''sha256'', cp_fingerprint = Some (zero_digest []), cp_hash = zero_digest [],
     cp_signature = Some sample_signature\<rparr>"

abbreviation sample_checkpoints :: "jsval list" where
  "sample_checkpoints \<equiv> [checkpoint_value (sample_checkpoint 1), checkpoint_value (sample_checkpoint 2)]"

lemma sample_hex: "\<forall>s. is_hex64 (re_sha sample_env s)"
proof -
  have "is_hex64 (zero_digest [])" by code_simp
  then show ?thesis by (simp add: sample_env_def zero_digest_def)
qed

lemma sample_checkpoint_created:
  "createRetentionCheckpoint (re_host sample_env) (re_sha sample_env) (sample_checkpoint 1) (Some sample_signature)
     = Inr (sample_checkpoint 1)"
  by code_simp

lemma sample_chain_accepted:
  "verifyRetentionCheckpointChain sample_env sample_checkpoints sample_options = Inr (RetOk SigValid)"
  by code_simp

theorem createRetentionCheckpoint_verifies_witness:
  "verifyCheckpointAt sample_env (checkpoint_value (sample_checkpoint 1)) sample_options 0 = Inr (RetOk SigValid)"
proof -
  have "signature_outcome sample_env sample_options (cp_fingerprint (sample_checkpoint 1))
    (cp_signature (sample_checkpoint 1)) (cp_hash (sample_checkpoint 1)) = (SigValid, None)" by code_simp
  with createRetentionCheckpoint_verifies [OF sample_hex sample_checkpoint_created, of sample_options 0]
  show ?thesis by simp
qed

theorem verifyRetentionCheckpointChain_iff_witness:
  "successively checkpoint_follows sample_checkpoints \<and> int_prop (sample_checkpoints ! 1) ''epoch'' = 2"
proof -
  from sample_chain_accepted obtain statuses :: "signature_status list" where
    "\<forall>j < length sample_checkpoints. int_prop (sample_checkpoints ! j) ''epoch'' = int j + 1"
    "successively checkpoint_follows sample_checkpoints"
    unfolding verifyRetentionCheckpointChain_iff by blast
  then show ?thesis by (simp add: sample_checkpoint_def)
qed

theorem verifyRetentionCheckpointChain_covers_witness:
  "sum_list (map (\<lambda>v. int_prop v ''recordCount'') sample_checkpoints) = 4 \<and>
   (\<exists>t. \<forall>v \<in> set sample_checkpoints. js_prop v ''tenantId'' = t)"
  using verifyRetentionCheckpointChain_covers [OF sample_chain_accepted] by (simp add: sample_checkpoint_def)

theorem verifyRetentionCheckpointChain_signed_witness:
  "signed_by_trusted_key sample_env sample_options (checkpoint_value (sample_checkpoint 2))"
proof -
  have "opt_requireSignature sample_options" by code_simp
  from verifyRetentionCheckpointChain_signed [OF sample_chain_accepted this] show ?thesis by simp
qed

theorem verifyAuditRecordsFromCheckpoint_equivalence_witness:
  "verifyAuditRecordsFromCheckpoint sample_env (checkpoint_value (sample_checkpoint 1))
     [sample_record ''evt_3'' 3 (Some (zero_digest []))] sample_options = Inr (RetOk SigValid)"
proof -
  have c: "verifyRetentionCheckpoint sample_env (checkpoint_value (sample_checkpoint 1)) sample_options = Inr (RetOk SigValid)"
    by code_simp
  have v: "verifyAuditRecords (re_sha sample_env) (sample_chain ''evt_2'') = Inr VerOk"
    "verifyAuditRecords (re_sha sample_env) (sample_chain ''evt_2'' @ [sample_record ''evt_3'' 3 (Some (zero_digest []))]) = Inr VerOk"
    by code_simp+
  have t: "\<forall>r \<in> set (sample_chain ''evt_2''). event_tenant (rec_event r) = Some ''t1''"
    "\<forall>r \<in> set [sample_record ''evt_3'' 3 (Some (zero_digest []))]. event_tenant (rec_event r) = Some ''t1''" by code_simp+
  have f: "js_prop (checkpoint_value (sample_checkpoint 1)) ''tenantId'' = JStr ''t1''"
    "int_prop (checkpoint_value (sample_checkpoint 1)) ''throughSequence'' = int (length (sample_chain ''evt_2''))"
    "js_prop (checkpoint_value (sample_checkpoint 1)) ''throughHash'' = JStr (rec_hash (last (sample_chain ''evt_2'')))"
    by (simp_all add: sample_checkpoint_def sample_record_def)
  from verifyAuditRecordsFromCheckpoint_equivalence [OF c v(1) _ t(1) f] v(2) t(2) show ?thesis by blast
qed

text \<open>\<open>assertDispositionInput\<close> tests the policy reference after converting it to a string, so the untrusted verifier accepts a disposition receipt that has no policy reference at all: the text \<open>undefined\<close> matches the pattern.\<close>

theorem verifyRetentionDisposition_without_policy:
  "verifyRetentionDisposition sample_env
     (JObj [(''recordType'', JStr ''retention.disposition''), (''schemaVersion'', JStr ''1.0''),
        (''dispositionId'', JStr ''d''), (''tenantId'', JStr ''t1''), (''chainKind'', JStr ''audit''),
        (''checkpointHash'', JStr (zero_digest [])), (''fromSequence'', JNum (NInt 1)),
        (''throughSequence'', JNum (NInt 2)), (''archiveRootHash'', JStr (zero_digest [])),
        (''method'', JStr ''provider-delete''), (''disposedAt'', JStr ''1970-01-01T00:00:00.000Z''),
        (''canonicalization'', JStr ''veritio-json-v1''), (''hashAlgorithm'', JStr ''sha256''),
        (''hash'', JStr (zero_digest []))])
     (checkpoint_value (sample_checkpoint 1)) no_options = Inr (RetOk SigAbsent)"
  by code_simp

end
