(* ===== verification/MemoryStore.thy ===== *)
theory MemoryStore
  imports Retention
begin

text \<open>
  \<open>MemoryAuditStore\<close> of \<^verbatim>\<open>sdks/typescript/src/index.ts\<close>, the reference implementation of
  \<open>CheckpointingAuditStore\<close>: its six private fields are the record \<open>memory_store\<close>, and each
  method is a function from the state to a result and the next state, or an error that leaves
  the state unchanged (every check precedes the first assignment). The cloning helpers copy
  through JSON and are the identity on typed records.

  Shown here: the store invariant and its preservation by every method, from which hot
  records verify at all times; idempotent replay; tenant isolation; and the disposition state
  machine as a step relation with its reachable states.
\<close>

section \<open>State\<close>

record audit_chain_state =
  authoritativeTipSequence :: int
  authoritativeTipHash :: "string option"
  minimumRetainedSequence :: int
  latestCheckpointHash :: "string option"
  retentionPolicyFence :: int

datatype attempt_status = Pending | Disposed

record disposition_attempt =
  at_attemptId :: string
  at_checkpointHash :: string
  at_policyFence :: int
  at_status :: attempt_status

record idempotency_entry =
  ie_eventCanonicalHash :: string
  ie_originalSequence :: int
  ie_originalRecordHash :: string
  ie_record :: "audit_record option"

record memory_store =
  ms_records :: "audit_record list"
  ms_idempotency :: "string \<rightharpoonup> idempotency_entry"
  ms_chainStates :: "string \<rightharpoonup> audit_chain_state"
  ms_checkpoints :: "string \<rightharpoonup> retention_checkpoint list"
  ms_attempts :: "string \<rightharpoonup> (string \<rightharpoonup> disposition_attempt)"
  ms_dispositions :: "string \<rightharpoonup> (string \<rightharpoonup> retention_disposition)"

definition empty_store :: memory_store where
  "empty_store = \<lparr>ms_records = [], ms_idempotency = Map.empty, ms_chainStates = Map.empty,
     ms_checkpoints = Map.empty, ms_attempts = Map.empty, ms_dispositions = Map.empty\<rparr>"

record append_options =
  ao_idempotencyKey :: "string option"
  ao_expectedPreviousHash :: "string option option"
    \<comment> \<open>\<open>undefined\<close> is \<open>None\<close>, \<open>null\<close> is \<open>Some None\<close>\<close>

record list_options =
  lo_afterSequence :: "jsnumber option"
  lo_limit :: "jsnumber option"

type_synonym 'a store_result = "('a \<times> memory_store) throws"

section \<open>Guards\<close>

definition assertRetentionPolicyFence :: "int \<Rightarrow> unit throws" where
  "assertRetentionPolicyFence value =
     throwUnless (is_safe_int value \<and> 0 \<le> value) (TypeError ''retention policy fence must be a non-negative safe integer'')"

definition optional_hash :: "string option \<Rightarrow> bool" where
  "optional_hash v = (case v of None \<Rightarrow> True | Some s \<Rightarrow> is_hex64 s)"

definition assertAuditChainState :: "audit_chain_state \<Rightarrow> unit throws" where
  "assertAuditChainState state =
     andThen (throwUnless
       (is_safe_int (authoritativeTipSequence state) \<and> 0 \<le> authoritativeTipSequence state \<and>
        is_safe_int (minimumRetainedSequence state) \<and> 1 \<le> minimumRetainedSequence state \<and>
        minimumRetainedSequence state \<le> authoritativeTipSequence state + 1 \<and>
        optional_hash (authoritativeTipHash state) \<and> optional_hash (latestCheckpointHash state) \<and>
        (authoritativeTipSequence state = 0) = (authoritativeTipHash state = None) \<and>
        (minimumRetainedSequence state = 1) = (latestCheckpointHash state = None))
       (TypeError ''invalid audit chain state'')) (\<lambda>_.
     assertRetentionPolicyFence (retentionPolicyFence state))"

definition auditChainStatesEqual :: "audit_chain_state \<Rightarrow> audit_chain_state \<Rightarrow> bool" where
  "auditChainStatesEqual left right \<longleftrightarrow>
     authoritativeTipSequence left = authoritativeTipSequence right \<and>
     authoritativeTipHash left = authoritativeTipHash right \<and>
     minimumRetainedSequence left = minimumRetainedSequence right \<and>
     latestCheckpointHash left = latestCheckpointHash right \<and>
     retentionPolicyFence left = retentionPolicyFence right"

definition assertDispositionAttempt :: "disposition_attempt \<Rightarrow> unit throws" where
  "assertDispositionAttempt attempt =
     andThen (throwUnless (id_pattern 128 (at_attemptId attempt)) (TypeError ''attempt.attemptId is invalid'')) (\<lambda>_.
     andThen (throwUnless (is_hex64 (at_checkpointHash attempt))
        (TypeError ''attempt.checkpointHash must be lowercase sha256'')) (\<lambda>_.
     assertRetentionPolicyFence (at_policyFence attempt)))"

definition untouched_chain :: audit_chain_state where
  "untouched_chain = \<lparr>authoritativeTipSequence = 0, authoritativeTipHash = None, minimumRetainedSequence = 1,
     latestCheckpointHash = None, retentionPolicyFence = 0\<rparr>"

definition chain_state_of :: "memory_store \<Rightarrow> string \<Rightarrow> audit_chain_state" where
  "chain_state_of s tenant = (case ms_chainStates s tenant of Some st \<Rightarrow> st | None \<Rightarrow> untouched_chain)"

definition chainState :: "memory_store \<Rightarrow> string \<Rightarrow> audit_chain_state throws" where
  "chainState s tenant =
     andThen (assertAuditChainState (chain_state_of s tenant)) (\<lambda>_. Inr (chain_state_of s tenant))"

text \<open>\<open>record.event.scope?.tenantId === tenant\<close>\<close>

definition belongs :: "string \<Rightarrow> audit_record \<Rightarrow> bool" where
  "belongs tenant r \<longleftrightarrow> Option.bind (event_scope (rec_event r)) tenantId = Some tenant"

definition checkpoints_of :: "memory_store \<Rightarrow> string \<Rightarrow> retention_checkpoint list" where
  "checkpoints_of s tenant = (case ms_checkpoints s tenant of Some cs \<Rightarrow> cs | None \<Rightarrow> [])"

definition attempts_of :: "memory_store \<Rightarrow> string \<Rightarrow> (string \<rightharpoonup> disposition_attempt)" where
  "attempts_of s tenant = (case ms_attempts s tenant of Some m \<Rightarrow> m | None \<Rightarrow> Map.empty)"

definition dispositions_of :: "memory_store \<Rightarrow> string \<Rightarrow> (string \<rightharpoonup> retention_disposition)" where
  "dispositions_of s tenant = (case ms_dispositions s tenant of Some m \<Rightarrow> m | None \<Rightarrow> Map.empty)"

section \<open>Append and list\<close>

definition append :: "retention_env \<Rightarrow> memory_store \<Rightarrow> audit_event \<Rightarrow> append_options \<Rightarrow> audit_record store_result" where
  "append env s event options =
     andThen (requireTenantId event) (\<lambda>tenantId.
     andThen (hashIdempotencyKey (re_sha env) tenantId
        (case ao_idempotencyKey options of Some k \<Rightarrow> k | None \<Rightarrow> event_id event)) (\<lambda>idempotencyKeyHash.
     andThen (canonicalJson (event_json event)) (\<lambda>eventCanonical.
     let eventCanonicalHash = sha256Hex (re_sha env) eventCanonical in
     case ms_idempotency s idempotencyKeyHash of
       Some existing \<Rightarrow>
         if ie_eventCanonicalHash existing \<noteq> eventCanonicalHash then Inl (TypeError ''idempotency conflict'')
         else (case ie_record existing of
             None \<Rightarrow> Inl (TypeError ''idempotency_history_disposed'')
           | Some record \<Rightarrow> Inr (record, s))
     | None \<Rightarrow>
         andThen (chainState s tenantId) (\<lambda>chain.
         andThen (throwUnless (case ao_expectedPreviousHash options of
              None \<Rightarrow> True | Some expected \<Rightarrow> expected = authoritativeTipHash chain)
            (TypeError ''expectedPreviousHash does not match tenant chain tip'')) (\<lambda>_.
         let recordWithoutHash = \<lparr>rec_event = event, rec_sequence = authoritativeTipSequence chain + 1,
               rec_previousHash = authoritativeTipHash chain, rec_hash = [], rec_hashAlgorithm = HASH_ALGORITHM,
               rec_canonicalization = CANONICALIZATION, rec_appendedAt = iso_of_ms (now (re_host env)),
               rec_idempotencyKeyHash = idempotencyKeyHash\<rparr> in
         andThen (hashAuditRecord (re_sha env) recordWithoutHash) (\<lambda>h.
         let record = recordWithoutHash\<lparr>rec_hash := h\<rparr> in
         Inr (record, s\<lparr>
           ms_records := ms_records s @ [record],
           ms_chainStates := (ms_chainStates s)(tenantId \<mapsto>
             chain\<lparr>authoritativeTipSequence := rec_sequence record, authoritativeTipHash := Some h\<rparr>),
           ms_idempotency := (ms_idempotency s)(idempotencyKeyHash \<mapsto>
             \<lparr>ie_eventCanonicalHash = eventCanonicalHash, ie_originalSequence = rec_sequence record,
              ie_originalRecordHash = h, ie_record = Some record\<rparr>)\<rparr>)))))))"

definition non_negative_integer :: "jsnumber option \<Rightarrow> bool" where
  "non_negative_integer v = (case v of None \<Rightarrow> True | Some (NInt i) \<Rightarrow> 0 \<le> i | Some _ \<Rightarrow> False)"

definition list_records :: "memory_store \<Rightarrow> string \<Rightarrow> list_options \<Rightarrow> audit_record list throws" where
  "list_records s tenant options =
     andThen (assertNonEmpty tenant ''scope.tenantId'') (\<lambda>_.
     andThen (throwUnless (non_negative_integer (lo_limit options)) (TypeError ''limit must be a non-negative integer'')) (\<lambda>_.
     andThen (throwUnless (non_negative_integer (lo_afterSequence options))
        (TypeError ''afterSequence must be a non-negative integer'')) (\<lambda>_.
     let afterSequence = (case lo_afterSequence options of Some (NInt i) \<Rightarrow> i | _ \<Rightarrow> 0);
         found = filter (\<lambda>r. belongs tenant r \<and> afterSequence < rec_sequence r) (ms_records s)
     in Inr (case lo_limit options of Some (NInt n) \<Rightarrow> take (nat n) found | _ \<Rightarrow> found))))"

definition getChainState :: "memory_store \<Rightarrow> string \<Rightarrow> audit_chain_state throws" where
  "getChainState s tenant = andThen (assertNonEmpty tenant ''scope.tenantId'') (\<lambda>_. chainState s tenant)"

definition advanceRetentionPolicyFence :: "memory_store \<Rightarrow> string \<Rightarrow> int \<Rightarrow> int store_result" where
  "advanceRetentionPolicyFence s tenant expectedVersion =
     andThen (assertNonEmpty tenant ''scope.tenantId'') (\<lambda>_.
     andThen (assertRetentionPolicyFence expectedVersion) (\<lambda>_.
     andThen (chainState s tenant) (\<lambda>current.
     andThen (throwUnless (retentionPolicyFence current = expectedVersion)
        (TypeError ''retention policy fence mismatch'')) (\<lambda>_.
     andThen (throwUnless (is_safe_int (retentionPolicyFence current + 1))
        (TypeError ''retention policy fence exhausted'')) (\<lambda>_.
     let next = retentionPolicyFence current + 1 in
     Inr (next, s\<lparr>ms_chainStates := (ms_chainStates s)(tenant \<mapsto> current\<lparr>retentionPolicyFence := next\<rparr>)\<rparr>))))))"

section \<open>Compaction\<close>

text \<open>The integrity loop over the covered records; the result is the last expected hash.\<close>

fun check_range :: "digest \<Rightarrow> int \<Rightarrow> string option \<Rightarrow> audit_record list \<Rightarrow> string option throws" where
  "check_range sha expectedSequence expectedPreviousHash [] = Inr expectedPreviousHash"
| "check_range sha expectedSequence expectedPreviousHash (record # rest) =
     (if rec_sequence record \<noteq> expectedSequence \<or> rec_previousHash record \<noteq> expectedPreviousHash
      then Inl (TypeError ''checkpoint range failed authoritative integrity validation'')
      else andThen (hashAuditRecord sha record) (\<lambda>h.
        if h \<noteq> rec_hash record then Inl (TypeError ''checkpoint range failed authoritative integrity validation'')
        else check_range sha (expectedSequence + 1) (Some (rec_hash record)) rest))"

definition in_range :: "retention_checkpoint \<Rightarrow> audit_record \<Rightarrow> bool" where
  "in_range checkpoint r \<longleftrightarrow> cp_fromSequence checkpoint \<le> rec_sequence r \<and> rec_sequence r \<le> cp_throughSequence checkpoint"

definition default_options :: retention_options where
  "default_options = \<lparr>opt_trustedPublicKey = None, opt_requireSignature = False, opt_signatureVerifier = None\<rparr>"

definition reason_text :: "retention_reason \<Rightarrow> string" where
  "reason_text r = (case r of
     invalid_checkpoint \<Rightarrow> ''invalid_checkpoint'' | invalid_disposition \<Rightarrow> ''invalid_disposition''
   | unsupported_protocol \<Rightarrow> ''unsupported_protocol'' | ret_hash_mismatch \<Rightarrow> ''hash_mismatch''
   | signature_fingerprint_mismatch \<Rightarrow> ''signature_fingerprint_mismatch'' | signature_invalid \<Rightarrow> ''signature_invalid''
   | signature_required \<Rightarrow> ''signature_required'' | tenant_mismatch \<Rightarrow> ''tenant_mismatch''
   | chain_kind_mismatch \<Rightarrow> ''chain_kind_mismatch'' | epoch_mismatch \<Rightarrow> ''epoch_mismatch''
   | range_mismatch \<Rightarrow> ''range_mismatch'' | previous_checkpoint_hash_mismatch \<Rightarrow> ''previous_checkpoint_hash_mismatch''
   | ret_missing_tenant_scope \<Rightarrow> ''missing_tenant_scope'' | ret_unsupported_hash_algorithm \<Rightarrow> ''unsupported_hash_algorithm''
   | ret_unsupported_canonicalization \<Rightarrow> ''unsupported_canonicalization'' | ret_sequence_mismatch \<Rightarrow> ''sequence_mismatch''
   | ret_previous_hash_mismatch \<Rightarrow> ''previous_hash_mismatch'' | record_hash_mismatch \<Rightarrow> ''record_hash_mismatch''
   | checkpoint_mismatch \<Rightarrow> ''checkpoint_mismatch'')"

text \<open>The tombstone loop: covered entries lose their record.\<close>

definition tombstone :: "(string \<rightharpoonup> idempotency_entry) \<Rightarrow> string list \<Rightarrow> (string \<rightharpoonup> idempotency_entry)" where
  "tombstone m hashes = (\<lambda>k. case m k of
     Some entry \<Rightarrow> Some (if k \<in> set hashes then entry\<lparr>ie_record := None\<rparr> else entry) | None \<Rightarrow> None)"

definition last_of :: "'a list \<Rightarrow> 'a option" where
  "last_of xs = (if xs = [] then None else Some (last xs))"

definition compactRange ::
  "retention_env \<Rightarrow> memory_store \<Rightarrow> string \<Rightarrow> retention_checkpoint \<Rightarrow> audit_chain_state \<Rightarrow> int \<Rightarrow> unit store_result" where
  "compactRange env s tenant checkpoint expected policyFence =
     andThen (assertNonEmpty tenant ''scope.tenantId'') (\<lambda>_.
     andThen (assertRetentionPolicyFence policyFence) (\<lambda>_.
     andThen (assertAuditChainState expected) (\<lambda>_.
     andThen (chainState s tenant) (\<lambda>current.
     andThen (throwUnless (auditChainStatesEqual current expected) (TypeError ''audit chain state mismatch'')) (\<lambda>_.
     andThen (throwUnless (policyFence = retentionPolicyFence current \<and> retentionPolicyFence expected = policyFence)
        (TypeError ''retention policy fence mismatch'')) (\<lambda>_.
     andThen (verifyRetentionCheckpoint env (checkpoint_value checkpoint) default_options) (\<lambda>verification.
     andThen (case verification of RetOk _ \<Rightarrow> Inr ()
        | RetFail _ reason _ \<Rightarrow> Inl (TypeError (''invalid retention checkpoint: '' @ reason_text reason))) (\<lambda>_.
     andThen (throwUnless (cp_tenantId checkpoint = tenant \<and> cp_chainKind checkpoint = ''audit'')
        (TypeError ''checkpoint tenant or chain kind mismatch'')) (\<lambda>_.
     let checkpoints = checkpoints_of s tenant; previousCheckpoint = last_of checkpoints in
     andThen (throwUnless
        (cp_epoch checkpoint = int (length checkpoints) + 1 \<and>
         cp_previousCheckpointHash checkpoint = map_option cp_hash previousCheckpoint \<and>
         cp_fromSequence checkpoint = minimumRetainedSequence current \<and>
         cp_fromPreviousHash checkpoint = map_option cp_throughHash previousCheckpoint)
        (TypeError ''checkpoint prefix or prior checkpoint mismatch'')) (\<lambda>_.
     andThen (throwUnless (cp_throughSequence checkpoint \<le> authoritativeTipSequence current)
        (TypeError ''checkpoint range exceeds authoritative tip'')) (\<lambda>_.
     let coveredRecords = sort_key rec_sequence (filter (\<lambda>r. belongs tenant r \<and> in_range checkpoint r) (ms_records s)) in
     andThen (throwUnless (int (length coveredRecords) = cp_recordCount checkpoint)
        (TypeError ''checkpoint range is not an intact hot prefix'')) (\<lambda>_.
     andThen (check_range (re_sha env) (cp_fromSequence checkpoint) (cp_fromPreviousHash checkpoint) coveredRecords) (\<lambda>boundary.
     andThen (throwUnless (boundary = Some (cp_throughHash checkpoint))
        (TypeError ''checkpoint throughHash does not match authoritative boundary'')) (\<lambda>_.
     Inr ((), s\<lparr>
       ms_records := filter (\<lambda>r. \<not> belongs tenant r \<or> \<not> in_range checkpoint r) (ms_records s),
       ms_idempotency := tombstone (ms_idempotency s) (map rec_idempotencyKeyHash coveredRecords),
       ms_checkpoints := (ms_checkpoints s)(tenant \<mapsto> checkpoints @ [checkpoint]),
       ms_chainStates := (ms_chainStates s)(tenant \<mapsto>
         current\<lparr>minimumRetainedSequence := cp_throughSequence checkpoint + 1,
                 latestCheckpointHash := Some (cp_hash checkpoint)\<rparr>)\<rparr>)))))))))))))))"

definition listCheckpoints :: "memory_store \<Rightarrow> string \<Rightarrow> retention_checkpoint list throws" where
  "listCheckpoints s tenant = andThen (assertNonEmpty tenant ''scope.tenantId'') (\<lambda>_. Inr (checkpoints_of s tenant))"

section \<open>Dispositions\<close>

definition status_text :: "attempt_status \<Rightarrow> string" where
  "status_text st = (case st of Pending \<Rightarrow> ''pending'' | Disposed \<Rightarrow> ''disposed'')"

definition attempt_json :: "disposition_attempt \<Rightarrow> jsval" where
  "attempt_json a = JObj [(''attemptId'', JStr (at_attemptId a)), (''checkpointHash'', JStr (at_checkpointHash a)),
     (''policyFence'', JNum (NInt (at_policyFence a))), (''status'', JStr (status_text (at_status a)))]"

definition find_checkpoint :: "memory_store \<Rightarrow> string \<Rightarrow> string \<Rightarrow> retention_checkpoint option" where
  "find_checkpoint s tenant checkpointHash = find (\<lambda>c. cp_hash c = checkpointHash) (checkpoints_of s tenant)"

definition prepareDisposition ::
  "memory_store \<Rightarrow> string \<Rightarrow> string \<Rightarrow> disposition_attempt \<Rightarrow> int \<Rightarrow> disposition_attempt store_result" where
  "prepareDisposition s tenant checkpointHash attempt expectedPolicyFence =
     andThen (assertNonEmpty tenant ''scope.tenantId'') (\<lambda>_.
     andThen (assertNonEmpty checkpointHash ''checkpointHash'') (\<lambda>_.
     andThen (assertDispositionAttempt attempt) (\<lambda>_.
     andThen (assertRetentionPolicyFence expectedPolicyFence) (\<lambda>_.
     andThen (chainState s tenant) (\<lambda>current.
     andThen (throwUnless (retentionPolicyFence current = expectedPolicyFence \<and> at_policyFence attempt = expectedPolicyFence)
        (TypeError ''retention policy fence mismatch'')) (\<lambda>_.
     andThen (throwUnless (at_status attempt = Pending \<and> at_checkpointHash attempt = checkpointHash)
        (TypeError ''disposition attempt binding mismatch'')) (\<lambda>_.
     andThen (throwUnless (find_checkpoint s tenant checkpointHash \<noteq> None)
        (TypeError ''disposition checkpoint not found'')) (\<lambda>_.
     andThen (throwUnless (dispositions_of s tenant checkpointHash = None)
        (TypeError ''checkpoint disposition already confirmed'')) (\<lambda>_.
     let attempts = attempts_of s tenant;
         stored = Inr (attempt, s\<lparr>ms_attempts := (ms_attempts s)(tenant \<mapsto> attempts(checkpointHash \<mapsto> attempt))\<rparr>) in
     case attempts checkpointHash of
       None \<Rightarrow> stored
     | Some existing \<Rightarrow>
         andThen (canonicalJson (attempt_json existing)) (\<lambda>old.
         andThen (canonicalJson (attempt_json attempt)) (\<lambda>new.
         if old = new then Inr (existing, s)
         else if at_status existing \<noteq> Pending \<or> at_policyFence attempt \<le> at_policyFence existing
           then Inl (TypeError ''disposition attempt conflict'')
         else stored)))))))))))"

definition confirmDisposition ::
  "retention_env \<Rightarrow> memory_store \<Rightarrow> string \<Rightarrow> retention_disposition \<Rightarrow> string \<Rightarrow> int \<Rightarrow> unit store_result" where
  "confirmDisposition env s tenant receipt expectedAttemptId expectedPolicyFence =
     andThen (assertNonEmpty tenant ''scope.tenantId'') (\<lambda>_.
     andThen (assertNonEmpty expectedAttemptId ''expectedAttemptId'') (\<lambda>_.
     andThen (assertRetentionPolicyFence expectedPolicyFence) (\<lambda>_.
     andThen (chainState s tenant) (\<lambda>current.
     andThen (throwUnless (retentionPolicyFence current = expectedPolicyFence)
        (TypeError ''retention policy fence mismatch'')) (\<lambda>_.
     let checkpointHash = dp_checkpointHash receipt in
     case attempts_of s tenant checkpointHash of
       None \<Rightarrow> Inl (TypeError ''disposition attempt mismatch'')
     | Some attempt \<Rightarrow>
       if at_attemptId attempt \<noteq> expectedAttemptId then Inl (TypeError ''disposition attempt mismatch'')
       else if at_policyFence attempt \<noteq> expectedPolicyFence \<or> at_checkpointHash attempt \<noteq> checkpointHash
         then Inl (TypeError ''disposition attempt fence mismatch'')
       else (case find_checkpoint s tenant checkpointHash of
           None \<Rightarrow> Inl (TypeError ''disposition checkpoint not found'')
         | Some checkpoint \<Rightarrow>
           (case dispositions_of s tenant checkpointHash of
             Some existing \<Rightarrow>
               andThen (canonicalJson (disposition_value existing)) (\<lambda>old.
               andThen (canonicalJson (disposition_value receipt)) (\<lambda>new.
               if at_status attempt = Disposed \<and> old = new then Inr ((), s)
               else Inl (TypeError ''conflicting disposition receipt'')))
           | None \<Rightarrow>
               if at_status attempt \<noteq> Pending then Inl (TypeError ''disposition attempt is not pending'')
               else andThen (verifyRetentionDisposition env (disposition_value receipt) (checkpoint_value checkpoint)
                   default_options) (\<lambda>verification. case verification of
                 RetFail _ reason _ \<Rightarrow> Inl (TypeError (''invalid retention disposition: '' @ reason_text reason))
               | RetOk _ \<Rightarrow>
                   Inr ((), s\<lparr>
                     ms_dispositions := (ms_dispositions s)(tenant \<mapsto>
                       (dispositions_of s tenant)(checkpointHash \<mapsto> receipt)),
                     ms_attempts := (ms_attempts s)(tenant \<mapsto>
                       (attempts_of s tenant)(checkpointHash \<mapsto> attempt\<lparr>at_status := Disposed\<rparr>))\<rparr>)))))))))"

definition listDispositions :: "memory_store \<Rightarrow> string \<Rightarrow> retention_disposition list throws" where
  "listDispositions s tenant =
     andThen (assertNonEmpty tenant ''scope.tenantId'') (\<lambda>_.
     Inr (List.map_filter (\<lambda>c. dispositions_of s tenant (cp_hash c)) (checkpoints_of s tenant)))"

section \<open>Invariant\<close>

definition hot :: "memory_store \<Rightarrow> string \<Rightarrow> audit_record list" where
  "hot s t = filter (belongs t) (ms_records s)"

definition anchor_link :: "retention_checkpoint list \<Rightarrow> chain_link" where
  "anchor_link cs = (case last_of cs of None \<Rightarrow> genesis
     | Some c \<Rightarrow> \<lparr>link_previousHash = Some (cp_throughHash c), link_sequence = cp_throughSequence c\<rparr>)"

definition checkpoints_ok :: "retention_env \<Rightarrow> string \<Rightarrow> retention_checkpoint list \<Rightarrow> bool" where
  "checkpoints_ok env t cs \<longleftrightarrow>
     (\<forall>i < length cs. (\<exists>st. verifyRetentionCheckpoint env (checkpoint_value (cs ! i)) default_options = Inr (RetOk st)) \<and>
        cp_epoch (cs ! i) = int i + 1 \<and> cp_tenantId (cs ! i) = t \<and> cp_chainKind (cs ! i) = ''audit'') \<and>
     successively (\<lambda>c d. checkpoint_follows (checkpoint_value c) (checkpoint_value d)) cs"

definition tenant_inv :: "retention_env \<Rightarrow> memory_store \<Rightarrow> string \<Rightarrow> bool" where
  "tenant_inv env s t \<longleftrightarrow>
     (let cs = checkpoints_of s t; st = chain_state_of s t; h = hot s t; l = anchor_link cs in
      (\<forall>r \<in> set h. sealed (auditEnvelope (re_sha env)) r) \<and>
      linked_from (auditEnvelope (re_sha env)) l h \<and>
      authoritativeTipSequence st = link_sequence l + int (length h) \<and>
      authoritativeTipHash st = (if h = [] then link_previousHash l else Some (rec_hash (last h))) \<and>
      minimumRetainedSequence st = link_sequence l + 1 \<and>
      latestCheckpointHash st = map_option cp_hash (last_of cs) \<and>
      checkpoints_ok env t cs)"

definition idempotency_inv :: "memory_store \<Rightarrow> bool" where
  "idempotency_inv s \<longleftrightarrow>
     (\<forall>r \<in> set (ms_records s). \<exists>e. ms_idempotency s (rec_idempotencyKeyHash r) = Some e \<and> ie_record e = Some r) \<and>
     (\<forall>k e r. ms_idempotency s k = Some e \<and> ie_record e = Some r \<longrightarrow>
        r \<in> set (ms_records s) \<and> rec_idempotencyKeyHash r = k \<and>
        rec_sequence r = ie_originalSequence e \<and> rec_hash r = ie_originalRecordHash e)"

definition disposition_inv :: "retention_env \<Rightarrow> memory_store \<Rightarrow> string \<Rightarrow> bool" where
  "disposition_inv env s t \<longleftrightarrow>
     (\<forall>k a. attempts_of s t k = Some a \<longrightarrow> at_checkpointHash a = k \<and> k \<in> cp_hash ` set (checkpoints_of s t)) \<and>
     (\<forall>k. (\<exists>a. attempts_of s t k = Some a \<and> at_status a = Disposed) \<longleftrightarrow> dispositions_of s t k \<noteq> None) \<and>
     (\<forall>k d. dispositions_of s t k = Some d \<longrightarrow> dp_checkpointHash d = k \<and>
        (\<exists>c \<in> set (checkpoints_of s t). cp_hash c = k \<and>
           (\<exists>st. verifyRetentionDisposition env (disposition_value d) (checkpoint_value c) default_options = Inr (RetOk st))))"

definition store_inv :: "retention_env \<Rightarrow> memory_store \<Rightarrow> bool" where
  "store_inv env s \<longleftrightarrow> (\<forall>t. tenant_inv env s t \<and> disposition_inv env s t) \<and> idempotency_inv s"

lemma empty_store_inv: "store_inv env empty_store"
  by (simp add: store_inv_def tenant_inv_def disposition_inv_def idempotency_inv_def empty_store_def hot_def
      checkpoints_of_def chain_state_of_def untouched_chain_def anchor_link_def last_of_def genesis_def
      checkpoints_ok_def attempts_of_def dispositions_of_def Let_def)

section \<open>Frame conditions\<close>

text \<open>What a tenant sees of the store.\<close>

definition view :: "memory_store \<Rightarrow> string \<Rightarrow>
    audit_record list \<times> audit_chain_state \<times> retention_checkpoint list \<times>
    (string \<rightharpoonup> disposition_attempt) \<times> (string \<rightharpoonup> retention_disposition)" where
  "view s t = (hot s t, chain_state_of s t, checkpoints_of s t, attempts_of s t, dispositions_of s t)"

lemma view_inv:
  "view s t = view s' t \<Longrightarrow> tenant_inv env s t \<longleftrightarrow> tenant_inv env s' t"
  "view s t = view s' t \<Longrightarrow> disposition_inv env s t \<longleftrightarrow> disposition_inv env s' t"
  by (simp_all add: view_def tenant_inv_def disposition_inv_def)

section \<open>Append\<close>

lemma requireTenantId_Inr:
  "requireTenantId e = Inr t \<longleftrightarrow> Option.bind (event_scope e) tenantId = Some t \<and> \<not> blank t"
  by (auto simp: requireTenantId_def andThen_Inr_iff split: option.splits)

lemma event_tenant_belongs:
  "\<not> blank t \<Longrightarrow> Option.bind (event_scope e) tenantId = Some t \<Longrightarrow> event_tenant e = Some t"
  by (auto simp: event_tenant_def truthy_def split: list.split)

definition fresh_record :: "retention_env \<Rightarrow> audit_chain_state \<Rightarrow> audit_event \<Rightarrow> string \<Rightarrow> audit_record" where
  "fresh_record env chain event k = \<lparr>rec_event = event, rec_sequence = authoritativeTipSequence chain + 1,
     rec_previousHash = authoritativeTipHash chain, rec_hash = [], rec_hashAlgorithm = HASH_ALGORITHM,
     rec_canonicalization = CANONICALIZATION, rec_appendedAt = iso_of_ms (now (re_host env)),
     rec_idempotencyKeyHash = k\<rparr>"

definition append_key :: "retention_env \<Rightarrow> audit_event \<Rightarrow> append_options \<Rightarrow> string \<Rightarrow> string throws" where
  "append_key env event options t =
     hashIdempotencyKey (re_sha env) t (case ao_idempotencyKey options of Some k \<Rightarrow> k | None \<Rightarrow> event_id event)"

lemma append_cases:
  assumes "append env s event options = Inr (r, s')"
  obtains (replay) t k c e where "requireTenantId event = Inr t" "append_key env event options t = Inr k"
      "canonicalJson (event_json event) = Inr c" "ms_idempotency s k = Some e"
      "ie_eventCanonicalHash e = sha256Hex (re_sha env) c" "ie_record e = Some r" "s' = s"
  | (fresh) t k c where "requireTenantId event = Inr t" "append_key env event options t = Inr k"
      "canonicalJson (event_json event) = Inr c" "ms_idempotency s k = None"
      "chainState s t = Inr (chain_state_of s t)"
      "hashAuditRecord (re_sha env) (fresh_record env (chain_state_of s t) event k) = Inr (rec_hash r)"
      "r = (fresh_record env (chain_state_of s t) event k)\<lparr>rec_hash := rec_hash r\<rparr>"
      "s' = s\<lparr>ms_records := ms_records s @ [r],
           ms_chainStates := (ms_chainStates s)(t \<mapsto>
             (chain_state_of s t)\<lparr>authoritativeTipSequence := rec_sequence r, authoritativeTipHash := Some (rec_hash r)\<rparr>),
           ms_idempotency := (ms_idempotency s)(k \<mapsto>
             \<lparr>ie_eventCanonicalHash = sha256Hex (re_sha env) c, ie_originalSequence = rec_sequence r,
              ie_originalRecordHash = rec_hash r, ie_record = Some r\<rparr>)\<rparr>"
proof -
  from assms obtain t k c where tkc: "requireTenantId event = Inr t" "append_key env event options t = Inr k"
    "canonicalJson (event_json event) = Inr c"
    by (auto simp: append_def append_key_def)
  note d = tkc [unfolded append_key_def]
  show thesis
  proof (cases "ms_idempotency s k")
    case (Some e)
    with assms d have "ie_eventCanonicalHash e = sha256Hex (re_sha env) c" "ie_record e = Some r" "s' = s"
      by (auto simp: append_def split: if_splits option.splits)
    with Some tkc replay show thesis by blast
  next
    case None
    with assms d obtain chain h where ch: "chainState s t = Inr chain"
      "hashAuditRecord (re_sha env) (fresh_record env chain event k) = Inr h"
      "r = (fresh_record env chain event k)\<lparr>rec_hash := h\<rparr>"
      "s' = s\<lparr>ms_records := ms_records s @ [r],
           ms_chainStates := (ms_chainStates s)(t \<mapsto>
             chain\<lparr>authoritativeTipSequence := rec_sequence r, authoritativeTipHash := Some h\<rparr>),
           ms_idempotency := (ms_idempotency s)(k \<mapsto>
             \<lparr>ie_eventCanonicalHash = sha256Hex (re_sha env) c, ie_originalSequence = rec_sequence r,
              ie_originalRecordHash = h, ie_record = Some r\<rparr>)\<rparr>"
      by (auto simp: append_def fresh_record_def Let_def)
    then have "chain = chain_state_of s t" by (auto simp: chainState_def)
    with ch tkc None fresh show thesis by simp
  qed
qed

lemma hashAuditRecord_ignores_hash [simp]: "hashAuditRecord sha (r\<lparr>rec_hash := h\<rparr>) = hashAuditRecord sha r"
  by (simp add: hashAuditRecord_def record_body_json_def)

lemma audit_accessors [simp]:
  "env_sequence (auditEnvelope sha) r = rec_sequence r"
  "env_previousHash (auditEnvelope sha) r = rec_previousHash r"
  "env_hash (auditEnvelope sha) r = rec_hash r"
  "env_hashAlgorithm (auditEnvelope sha) r = rec_hashAlgorithm r"
  "env_canonicalization (auditEnvelope sha) r = rec_canonicalization r"
  "env_recomputeHash (auditEnvelope sha) r = hashAuditRecord sha r"
  by (simp_all add: auditEnvelope_def)

lemma fresh_record_fields [simp]:
  "rec_event (fresh_record env ch ev k) = ev" "rec_sequence (fresh_record env ch ev k) = authoritativeTipSequence ch + 1"
  "rec_previousHash (fresh_record env ch ev k) = authoritativeTipHash ch"
  "rec_hashAlgorithm (fresh_record env ch ev k) = HASH_ALGORITHM"
  "rec_canonicalization (fresh_record env ch ev k) = CANONICALIZATION"
  "rec_idempotencyKeyHash (fresh_record env ch ev k) = k"
  by (simp_all add: fresh_record_def)

lemma last_link:
  "linked_from env l h \<Longrightarrow> h \<noteq> [] \<Longrightarrow> env_sequence env (last h) = link_sequence l + int (length h)"
proof (induction h arbitrary: l)
  case (Cons r h)
  then show ?case by (cases "h = []") (auto simp: links_def link_after_def)
qed simp

text \<open>The new record continues the hot chain of its tenant.\<close>

lemma tenant_inv_append:
  assumes inv: "tenant_inv env s t"
    and r: "sealed (auditEnvelope (re_sha env)) r" "rec_sequence r = authoritativeTipSequence (chain_state_of s t) + 1"
      "rec_previousHash r = authoritativeTipHash (chain_state_of s t)"
    and s': "hot s' t = hot s t @ [r]" "checkpoints_of s' t = checkpoints_of s t"
      "chain_state_of s' t = (chain_state_of s t)\<lparr>authoritativeTipSequence := rec_sequence r, authoritativeTipHash := Some (rec_hash r)\<rparr>"
  shows "tenant_inv env s' t"
proof -
  let ?e = "auditEnvelope (re_sha env)" and ?l = "anchor_link (checkpoints_of s t)"
  have lk: "linked_from ?e ?l (hot s t)" using inv by (simp add: tenant_inv_def Let_def)
  have "links ?e (if hot s t = [] then ?l else link_after ?e (last (hot s t))) r"
    using inv r(2,3) last_link [OF lk] by (simp add: tenant_inv_def Let_def links_def link_after_def)
  then have "linked_from ?e ?l (hot s t @ [r])" using lk by (simp add: linked_from_snoc)
  then show ?thesis using inv r(1,2) by (simp add: tenant_inv_def Let_def s')
qed

lemma idempotency_inv_append:
  assumes inv: "idempotency_inv s" and new: "ms_idempotency s k = None" "rec_idempotencyKeyHash r = k"
    and s': "ms_records s' = ms_records s @ [r]" "ms_idempotency s' = (ms_idempotency s)(k \<mapsto> e)"
    and e: "ie_record e = Some r" "ie_originalSequence e = rec_sequence r" "ie_originalRecordHash e = rec_hash r"
  shows "idempotency_inv s'"
proof -
  have old: "\<exists>e. ms_idempotency s (rec_idempotencyKeyHash x) = Some e \<and> ie_record e = Some x" if "x \<in> set (ms_records s)" for x
    using inv that by (simp add: idempotency_inv_def)
  then have ne: "rec_idempotencyKeyHash x \<noteq> k" if "x \<in> set (ms_records s)" for x
    using that new(1) by fastforce
  have "x \<in> set (ms_records s) \<and> rec_idempotencyKeyHash x = j \<and> rec_sequence x = ie_originalSequence f \<and>
      rec_hash x = ie_originalRecordHash f" if "ms_idempotency s j = Some f" "ie_record f = Some x" for j f x
    using inv that by (simp add: idempotency_inv_def)
  then show ?thesis using old ne new(2) e unfolding idempotency_inv_def s'
    by (simp add: fun_upd_apply) blast
qed

lemma append_preserves:
  assumes inv: "store_inv env s" and sha: "re_sha env' = re_sha env"
    and app: "append env' s event options = Inr (r, s')"
  shows "store_inv env s'"
  using app
proof (cases rule: append_cases)
  case (replay t k c e)
  with inv show ?thesis by simp
next
  case (fresh t k c)
  from fresh(1) have t: "Option.bind (event_scope event) tenantId = Some t" "\<not> blank t"
    by (auto simp: requireTenantId_Inr)
  have ev: "rec_event r = event" "rec_sequence r = authoritativeTipSequence (chain_state_of s t) + 1"
    "rec_previousHash r = authoritativeTipHash (chain_state_of s t)" "rec_idempotencyKeyHash r = k"
    by (subst fresh(7); simp)+
  have seal: "sealed (auditEnvelope (re_sha env)) r"
  proof -
    have "rec_hashAlgorithm r = HASH_ALGORITHM" "rec_canonicalization r = CANONICALIZATION" by (subst fresh(7); simp)+
    moreover have "hashAuditRecord (re_sha env) r = Inr (rec_hash r)"
      using fresh(6) by (subst fresh(7)) (simp add: sha)
    moreover have "event_tenant (rec_event r) \<noteq> None"
      using event_tenant_belongs [OF t(2,1)] by (simp add: ev)
    ultimately show ?thesis by (simp add: sealed_def)
  qed
  have bl: "belongs u r \<longleftrightarrow> u = t" for u using t(1) by (auto simp: belongs_def ev)
  have view: "view s' u = view s u" if "u \<noteq> t" for u
    using that by (simp add: view_def hot_def chain_state_of_def checkpoints_of_def attempts_of_def dispositions_of_def
        fresh(8) bl)
  have "tenant_inv env s' t"
    by (rule tenant_inv_append [of env s t r])
      (use inv seal ev in \<open>simp_all add: store_inv_def fresh(8) hot_def bl checkpoints_of_def chain_state_of_def\<close>)
  moreover have "disposition_inv env s' t"
    using inv by (simp add: store_inv_def disposition_inv_def attempts_of_def dispositions_of_def checkpoints_of_def fresh(8))
  ultimately have tenants: "tenant_inv env s' u \<and> disposition_inv env s' u" for u
    using inv view_inv [OF view] by (cases "u = t") (auto simp: store_inv_def)
  have "idempotency_inv s'"
    by (rule idempotency_inv_append [of s k r s' "\<lparr>ie_eventCanonicalHash = sha256Hex (re_sha env') c,
          ie_originalSequence = rec_sequence r, ie_originalRecordHash = rec_hash r, ie_record = Some r\<rparr>"])
      (use inv ev fresh(4) in \<open>simp_all add: store_inv_def fresh(8)\<close>)
  with tenants show ?thesis by (simp add: store_inv_def)
qed

section \<open>Policy fence\<close>

lemma advance_cases:
  assumes "advanceRetentionPolicyFence s t v = Inr (n, s')"
  shows "chainState s t = Inr (chain_state_of s t) \<and> retentionPolicyFence (chain_state_of s t) = v \<and> n = v + 1 \<and>
    s' = s\<lparr>ms_chainStates := (ms_chainStates s)(t \<mapsto> (chain_state_of s t)\<lparr>retentionPolicyFence := n\<rparr>)\<rparr>"
  using assms by (auto simp: advanceRetentionPolicyFence_def chainState_def Let_def)

lemma advance_preserves:
  assumes "store_inv env s" "advanceRetentionPolicyFence s t v = Inr (n, s')"
  shows "store_inv env s'"
proof -
  have s': "s' = s\<lparr>ms_chainStates := (ms_chainStates s)(t \<mapsto> (chain_state_of s t)\<lparr>retentionPolicyFence := n\<rparr>)\<rparr>"
    using advance_cases [OF assms(2)] by simp
  have "tenant_inv env s' u \<longleftrightarrow> tenant_inv env s u" for u
    by (simp add: s' tenant_inv_def Let_def hot_def checkpoints_of_def chain_state_of_def)
  moreover have "disposition_inv env s' u \<longleftrightarrow> disposition_inv env s u" for u
    by (simp add: s' disposition_inv_def attempts_of_def dispositions_of_def checkpoints_of_def)
  ultimately show ?thesis using assms(1) by (simp add: store_inv_def idempotency_inv_def s')
qed

section \<open>Compaction\<close>

lemma linked_bounds: "linked_from env l h \<Longrightarrow> \<forall>r \<in> set h. link_sequence l < env_sequence env r"
proof (induction h arbitrary: l)
  case (Cons r h)
  then show ?case by (fastforce simp: links_def link_after_def)
qed simp

lemma linked_sorted: "linked_from env l h \<Longrightarrow> sorted (map (env_sequence env) h)"
proof (induction h arbitrary: l)
  case (Cons r h)
  then show ?case using linked_bounds [of env "link_after env r" h] by (fastforce simp: link_after_def)
qed simp

text \<open>A bound on the sequence number cuts a chain into a prefix and a suffix.\<close>

lemma linked_cut:
  "linked_from env l h \<Longrightarrow>
     filter (\<lambda>r. env_sequence env r \<le> link_sequence l + int n) h = take n h \<and>
     filter (\<lambda>r. \<not> env_sequence env r \<le> link_sequence l + int n) h = drop n h"
proof (induction h arbitrary: l n)
  case (Cons r h)
  show ?case
  proof (cases n)
    case 0
    with linked_bounds [OF Cons.prems] show ?thesis by (auto simp: filter_empty_conv filter_id_conv)
  next
    case (Suc m)
    from Cons.prems have "linked_from env (link_after env r) h" "env_sequence env r = link_sequence l + 1"
      by (auto simp: links_def)
    with Cons.IH [of "link_after env r" m] Suc show ?thesis by (simp add: link_after_def algebra_simps)
  qed
qed simp

lemma check_range_boundary:
  "check_range sha n p rs = Inr b \<Longrightarrow> b = (if rs = [] then p else Some (rec_hash (last rs)))"
  by (induction rs arbitrary: n p) (auto split: if_splits)

definition covered :: "memory_store \<Rightarrow> string \<Rightarrow> retention_checkpoint \<Rightarrow> audit_record list" where
  "covered s t cp = sort_key rec_sequence (filter (\<lambda>r. belongs t r \<and> in_range cp r) (ms_records s))"

definition compacted :: "memory_store \<Rightarrow> string \<Rightarrow> retention_checkpoint \<Rightarrow> memory_store" where
  "compacted s t cp = s\<lparr>
       ms_records := filter (\<lambda>r. \<not> belongs t r \<or> \<not> in_range cp r) (ms_records s),
       ms_idempotency := tombstone (ms_idempotency s) (map rec_idempotencyKeyHash (covered s t cp)),
       ms_checkpoints := (ms_checkpoints s)(t \<mapsto> checkpoints_of s t @ [cp]),
       ms_chainStates := (ms_chainStates s)(t \<mapsto>
         (chain_state_of s t)\<lparr>minimumRetainedSequence := cp_throughSequence cp + 1,
                 latestCheckpointHash := Some (cp_hash cp)\<rparr>)\<rparr>"

lemma compact_cases:
  assumes "compactRange env s t cp expected fence = Inr (u, s')"
  shows "(\<exists>st. verifyRetentionCheckpoint env (checkpoint_value cp) default_options = Inr (RetOk st)) \<and>
    cp_tenantId cp = t \<and> cp_chainKind cp = ''audit'' \<and> \<not> blank t \<and>
    cp_epoch cp = int (length (checkpoints_of s t)) + 1 \<and>
    cp_previousCheckpointHash cp = map_option cp_hash (last_of (checkpoints_of s t)) \<and>
    cp_fromSequence cp = minimumRetainedSequence (chain_state_of s t) \<and>
    cp_fromPreviousHash cp = map_option cp_throughHash (last_of (checkpoints_of s t)) \<and>
    cp_throughSequence cp \<le> authoritativeTipSequence (chain_state_of s t) \<and>
    int (length (covered s t cp)) = cp_recordCount cp \<and>
    check_range (re_sha env) (cp_fromSequence cp) (cp_fromPreviousHash cp) (covered s t cp) = Inr (Some (cp_throughHash cp)) \<and>
    fence = retentionPolicyFence (chain_state_of s t) \<and>
    s' = compacted s t cp"
  using assms unfolding compactRange_def compacted_def covered_def
  by (auto simp: chainState_def Let_def assertNonEmpty_def split: retention_result.splits)

lemma covered_prefix:
  assumes inv: "tenant_inv env s t" and cp: "cp_fromSequence cp = minimumRetainedSequence (chain_state_of s t)"
    "cp_fromSequence cp \<le> cp_throughSequence cp"
  shows "covered s t cp = take (nat (cp_throughSequence cp - cp_fromSequence cp + 1)) (hot s t) \<and>
    filter (\<lambda>r. belongs t r \<and> \<not> in_range cp r) (ms_records s)
      = drop (nat (cp_throughSequence cp - cp_fromSequence cp + 1)) (hot s t)"
proof -
  let ?e = "auditEnvelope (re_sha env)" and ?l = "anchor_link (checkpoints_of s t)" and ?n = "nat (cp_throughSequence cp - cp_fromSequence cp + 1)"
  have lk: "linked_from ?e ?l (hot s t)" and frm: "cp_fromSequence cp = link_sequence ?l + 1"
    using inv cp(1) by (simp_all add: tenant_inv_def Let_def)
  have thr: "cp_throughSequence cp = link_sequence ?l + int ?n" using frm cp(2) by simp
  have rng: "in_range cp r \<longleftrightarrow> env_sequence ?e r \<le> link_sequence ?l + int ?n" if "r \<in> set (hot s t)" for r
    using linked_bounds [OF lk] that frm thr by (auto simp: in_range_def)
  have "filter (\<lambda>r. belongs t r \<and> in_range cp r) (ms_records s) = filter (in_range cp) (hot s t)"
    by (simp add: hot_def conj_commute)
  also have "\<dots> = take ?n (hot s t)"
    using linked_cut [OF lk, of ?n] rng by (metis (mono_tags, lifting) filter_cong)
  finally have c: "filter (\<lambda>r. belongs t r \<and> in_range cp r) (ms_records s) = take ?n (hot s t)" .
  have "filter (\<lambda>r. belongs t r \<and> \<not> in_range cp r) (ms_records s) = filter (\<lambda>r. \<not> in_range cp r) (hot s t)"
    by (simp add: hot_def conj_commute)
  also have "\<dots> = drop ?n (hot s t)"
    using linked_cut [OF lk, of ?n] rng by (metis (mono_tags, lifting) filter_cong)
  finally have d: "filter (\<lambda>r. belongs t r \<and> \<not> in_range cp r) (ms_records s) = drop ?n (hot s t)" .
  have "sorted (map rec_sequence (hot s t))" using linked_sorted [OF lk] by (simp add: auditEnvelope_def)
  then have "sorted (map rec_sequence (take ?n (hot s t)))" by (metis sorted_wrt_take take_map)
  then show ?thesis using d by (simp add: covered_def c sort_key_id_if_sorted)
qed

lemma last_of_snoc [simp]: "last_of (xs @ [x]) = Some x"
  by (simp add: last_of_def)

lemma accepted_range:
  assumes "verifyRetentionCheckpoint env (checkpoint_value cp) options = Inr (RetOk st)"
  shows "1 \<le> cp_fromSequence cp \<and> cp_fromSequence cp \<le> cp_throughSequence cp \<and>
    cp_recordCount cp = cp_throughSequence cp - cp_fromSequence cp + 1"
  using accepted_checkpoint [OF assms [unfolded verifyRetentionCheckpoint_def]] by (simp add: checkpoint_range_ok_def)

lemma belongs_unique: "belongs t r \<Longrightarrow> belongs u r \<Longrightarrow> t = u"
  by (simp add: belongs_def)

lemma checkpoints_ok_snoc:
  assumes ok: "checkpoints_ok env t cs"
    and v: "verifyRetentionCheckpoint env (checkpoint_value cp) default_options = Inr (RetOk st)"
    and cp: "cp_tenantId cp = t" "cp_chainKind cp = ''audit''" "cp_epoch cp = int (length cs) + 1"
      "cp_previousCheckpointHash cp = map_option cp_hash (last_of cs)"
      "cp_fromSequence cp = link_sequence (anchor_link cs) + 1"
      "cp_fromPreviousHash cp = map_option cp_throughHash (last_of cs)"
  shows "checkpoints_ok env t (cs @ [cp])"
proof -
  have "checkpoint_follows (checkpoint_value (last cs)) (checkpoint_value cp)" if "cs \<noteq> []"
  proof -
    from that have "cp_tenantId (last cs) = t" "cp_chainKind (last cs) = ''audit''"
      using ok by (simp_all add: checkpoints_ok_def last_conv_nth)
    with that cp show ?thesis
      by (simp add: checkpoint_follows_def last_of_def anchor_link_def nullable_json_def)
  qed
  with ok v cp(1-3) show ?thesis
    by (auto simp: checkpoints_ok_def successively_append_iff nth_append less_Suc_eq)
qed

lemma compacted_hot:
  "hot (compacted s t cp) u = (if u = t then filter (\<lambda>r. belongs t r \<and> \<not> in_range cp r) (ms_records s) else hot s u)"
  by (auto simp: hot_def compacted_def intro!: filter_cong dest: belongs_unique)

lemma tenant_inv_compacted:
  assumes inv: "tenant_inv env s t" and comp: "compactRange env s t cp expected fence = Inr (u, s')"
  shows "tenant_inv env (compacted s t cp) t"
proof -
  let ?e = "auditEnvelope (re_sha env)" and ?cs = "checkpoints_of s t"
  let ?l = "anchor_link ?cs" and ?n = "nat (cp_throughSequence cp - cp_fromSequence cp + 1)"
  note g = compact_cases [OF comp]
  from g obtain st where v: "verifyRetentionCheckpoint env (checkpoint_value cp) default_options = Inr (RetOk st)" by blast
  note r = accepted_range [OF v]
  have min: "minimumRetainedSequence (chain_state_of s t) = link_sequence ?l + 1" and lk: "linked_from ?e ?l (hot s t)"
    using inv by (simp_all add: tenant_inv_def Let_def)
  have cov: "covered s t cp = take ?n (hot s t)"
    and rest: "filter (\<lambda>r. belongs t r \<and> \<not> in_range cp r) (ms_records s) = drop ?n (hot s t)"
    using covered_prefix [OF inv] g r by simp_all
  have len: "?n \<le> length (hot s t)" "0 < ?n" using g r by (auto simp: cov)
  then have ne: "take ?n (hot s t) \<noteq> []" by auto
  have hash: "cp_throughHash cp = rec_hash (last (take ?n (hot s t)))"
    using g check_range_boundary [of "re_sha env" "cp_fromSequence cp" "cp_fromPreviousHash cp" "covered s t cp"] ne
    by (auto simp: cov)
  have parts: "linked_from ?e ?l (take ?n (hot s t))" "linked_from ?e (link_after ?e (last (take ?n (hot s t)))) (drop ?n (hot s t))"
    using lk linked_from_append [of ?e ?l "take ?n (hot s t)" "drop ?n (hot s t)"] ne by simp_all
  have seq: "rec_sequence (last (take ?n (hot s t))) = cp_throughSequence cp"
    using last_link [OF parts(1) ne] len g r min by simp
  have anchor: "anchor_link (?cs @ [cp]) = link_after ?e (last (take ?n (hot s t)))"
    by (simp add: anchor_link_def link_after_def hash seq)
  have cok: "checkpoints_ok env t (?cs @ [cp])"
    using inv g v min by (intro checkpoints_ok_snoc) (auto simp: tenant_inv_def Let_def)
  have cks: "checkpoints_of (compacted s t cp) t = ?cs @ [cp]"
    and cst: "chain_state_of (compacted s t cp) t = (chain_state_of s t)\<lparr>minimumRetainedSequence := cp_throughSequence cp + 1,
                 latestCheckpointHash := Some (cp_hash cp)\<rparr>"
    by (simp_all add: compacted_def checkpoints_of_def chain_state_of_def)
  have al: "anchor_link (?cs @ [cp]) = \<lparr>link_previousHash = Some (cp_throughHash cp), link_sequence = cp_throughSequence cp\<rparr>"
    by (simp add: anchor_link_def)
  have hot': "hot (compacted s t cp) t = drop ?n (hot s t)" by (simp add: compacted_hot rest)
  have thr: "cp_throughSequence cp = link_sequence ?l + int ?n" using g r min by simp
  have tip: "authoritativeTipSequence (chain_state_of s t) = link_sequence ?l + int (length (hot s t))"
    "authoritativeTipHash (chain_state_of s t) = Some (rec_hash (last (hot s t)))"
    using inv len by (auto simp: tenant_inv_def Let_def)
  have "\<forall>r \<in> set (drop ?n (hot s t)). sealed ?e r" using inv by (auto simp: tenant_inv_def Let_def dest: in_set_dropD)
  moreover have "authoritativeTipHash (chain_state_of s t) = (if drop ?n (hot s t) = [] then Some (cp_throughHash cp)
      else Some (rec_hash (last (drop ?n (hot s t)))))"
    by (simp add: tip(2) hash last_drop)
  ultimately show ?thesis
    unfolding tenant_inv_def Let_def cks cst hot' using parts(2) cok tip(1) thr len
    by (simp add: al) (simp add: anchor [symmetric] al)
qed

lemma tombstone_Some:
  "tombstone m ks k = Some e \<longleftrightarrow>
     (\<exists>f. m k = Some f \<and> e = (if k \<in> set ks then f\<lparr>ie_record := None\<rparr> else f))"
  by (auto simp: tombstone_def split: option.splits)

lemma idempotency_inv_compacted:
  assumes inv: "idempotency_inv s" and cov: "set (covered s t cp) = {r \<in> set (ms_records s). belongs t r \<and> in_range cp r}"
  shows "idempotency_inv (compacted s t cp)"
proof -
  let ?ks = "map rec_idempotencyKeyHash (covered s t cp)"
  have unique: "r = x" if "r \<in> set (ms_records s)" "x \<in> set (ms_records s)" "rec_idempotencyKeyHash r = rec_idempotencyKeyHash x" for r x
    using inv that unfolding idempotency_inv_def by (metis option.inject)
  have kept: "rec_idempotencyKeyHash r \<notin> set ?ks" if "r \<in> set (ms_records s)" "\<not> belongs t r \<or> \<not> in_range cp r" for r
    using that cov unique by auto
  have "\<exists>e. ms_idempotency (compacted s t cp) (rec_idempotencyKeyHash r) = Some e \<and> ie_record e = Some r"
    if "r \<in> set (ms_records (compacted s t cp))" for r
  proof -
    from that have r: "r \<in> set (ms_records s)" "\<not> belongs t r \<or> \<not> in_range cp r" by (auto simp: compacted_def)
    with inv obtain e where "ms_idempotency s (rec_idempotencyKeyHash r) = Some e" "ie_record e = Some r"
      unfolding idempotency_inv_def by blast
    with kept [OF r] show ?thesis by (auto simp: compacted_def tombstone_Some)
  qed
  moreover have "r \<in> set (ms_records (compacted s t cp)) \<and> rec_idempotencyKeyHash r = k \<and>
      rec_sequence r = ie_originalSequence e \<and> rec_hash r = ie_originalRecordHash e"
    if e: "ms_idempotency (compacted s t cp) k = Some e" "ie_record e = Some r" for k e r
  proof -
    from e have k: "ms_idempotency s k = Some e" "k \<notin> set ?ks"
      by (auto simp: compacted_def tombstone_Some split: if_splits dest: arg_cong [where f = ie_record])
    with e(2) inv have r: "r \<in> set (ms_records s)" "rec_idempotencyKeyHash r = k"
      "rec_sequence r = ie_originalSequence e" "rec_hash r = ie_originalRecordHash e"
      unfolding idempotency_inv_def by blast+
    with k(2) cov have "\<not> belongs t r \<or> \<not> in_range cp r" by auto
    with r show ?thesis by (simp add: compacted_def)
  qed
  ultimately show ?thesis unfolding idempotency_inv_def by blast
qed

lemma compact_view:
  assumes "u \<noteq> t"
  shows "view (compacted s t cp) u = view s u"
  using assms by (simp add: view_def compacted_hot)
    (simp add: compacted_def chain_state_of_def checkpoints_of_def attempts_of_def dispositions_of_def)

lemma compact_preserves:
  assumes inv: "store_inv env s" and comp: "compactRange env s t cp expected fence = Inr (u, s')"
  shows "store_inv env s'"
proof -
  have s': "s' = compacted s t cp" using compact_cases [OF comp] by simp
  have "tenant_inv env s' t" using tenant_inv_compacted [OF _ comp] inv by (simp add: s' store_inv_def)
  moreover have "disposition_inv env s' t"
    using inv by (simp add: store_inv_def disposition_inv_def s' compacted_def attempts_of_def dispositions_of_def checkpoints_of_def)
  ultimately have "tenant_inv env s' x \<and> disposition_inv env s' x" for x
    using inv view_inv [OF compact_view [of x t s cp], of env] by (cases "x = t") (auto simp: store_inv_def s')
  moreover have "idempotency_inv s'"
    using inv by (simp add: s' store_inv_def idempotency_inv_compacted covered_def)
  ultimately show ?thesis by (simp add: store_inv_def)
qed

section \<open>Dispositions\<close>

lemma prepare_cases:
  assumes "prepareDisposition s t k attempt fence = Inr (a, s')"
  shows "at_status attempt = Pending \<and> at_checkpointHash attempt = k \<and> dispositions_of s t k = None \<and>
    find_checkpoint s t k \<noteq> None \<and> retentionPolicyFence (chain_state_of s t) = fence \<and> \<not> blank t \<and>
    (s' = s \<and> attempts_of s t k = Some a \<and> canonicalJson (attempt_json a) = canonicalJson (attempt_json attempt)
     \<or> a = attempt \<and> s' = s\<lparr>ms_attempts := (ms_attempts s)(t \<mapsto> (attempts_of s t)(k \<mapsto> attempt))\<rparr> \<and>
       (\<forall>b. attempts_of s t k = Some b \<longrightarrow> at_status b = Pending \<and> at_policyFence b < at_policyFence attempt))"
  using assms unfolding prepareDisposition_def
  by (auto simp: chainState_def Let_def assertNonEmpty_def split: option.splits if_splits)

lemma find_checkpoint_Some: "find_checkpoint s t k = Some c \<Longrightarrow> c \<in> set (checkpoints_of s t) \<and> cp_hash c = k"
  by (auto simp: find_checkpoint_def find_Some_iff)

lemma prepare_preserves:
  assumes inv: "store_inv env s" and prep: "prepareDisposition s t k attempt fence = Inr (a, s')"
  shows "store_inv env s'"
proof (cases "s' = s")
  case False
  note g = prepare_cases [OF prep]
  with False have s': "s' = s\<lparr>ms_attempts := (ms_attempts s)(t \<mapsto> (attempts_of s t)(k \<mapsto> attempt))\<rparr>" by blast
  have same: "hot s' u = hot s u" "chain_state_of s' u = chain_state_of s u" "checkpoints_of s' u = checkpoints_of s u"
    "dispositions_of s' u = dispositions_of s u"
    "attempts_of s' u = (if u = t then (attempts_of s t)(k \<mapsto> attempt) else attempts_of s u)" for u
    by (simp_all add: s' hot_def chain_state_of_def checkpoints_of_def dispositions_of_def attempts_of_def)
  have "k \<in> cp_hash ` set (checkpoints_of s t)"
    using g find_checkpoint_Some by (metis imageI not_None_eq)
  then have "disposition_inv env s' u" for u
    using inv g unfolding store_inv_def disposition_inv_def same by (cases "u = t") simp_all
  moreover have "tenant_inv env s' u \<longleftrightarrow> tenant_inv env s u" for u by (simp add: tenant_inv_def same)
  ultimately show ?thesis using inv by (simp add: store_inv_def idempotency_inv_def s')
qed (use inv in simp)

lemma confirm_cases:
  assumes "confirmDisposition env s t receipt attemptId fence = Inr (u, s')"
  shows "retentionPolicyFence (chain_state_of s t) = fence \<and> \<not> blank t \<and>
    (\<exists>a c. attempts_of s t (dp_checkpointHash receipt) = Some a \<and> at_attemptId a = attemptId \<and> at_policyFence a = fence \<and>
       at_checkpointHash a = dp_checkpointHash receipt \<and>
       find_checkpoint s t (dp_checkpointHash receipt) = Some c \<and>
       (s' = s \<and> at_status a = Disposed \<and>
          (\<exists>d. dispositions_of s t (dp_checkpointHash receipt) = Some d \<and>
             canonicalJson (disposition_value d) = canonicalJson (disposition_value receipt))
        \<or> at_status a = Pending \<and> dispositions_of s t (dp_checkpointHash receipt) = None \<and>
          (\<exists>st. verifyRetentionDisposition env (disposition_value receipt) (checkpoint_value c) default_options = Inr (RetOk st)) \<and>
          s' = s\<lparr>ms_dispositions := (ms_dispositions s)(t \<mapsto>
                 (dispositions_of s t)(dp_checkpointHash receipt \<mapsto> receipt)),
               ms_attempts := (ms_attempts s)(t \<mapsto>
                 (attempts_of s t)(dp_checkpointHash receipt \<mapsto> a\<lparr>at_status := Disposed\<rparr>))\<rparr>))"
  using assms unfolding confirmDisposition_def
  by (auto simp: chainState_def Let_def assertNonEmpty_def split: option.splits if_splits retention_result.splits)

lemma confirm_preserves:
  assumes inv: "store_inv env s" and conf: "confirmDisposition env s t receipt attemptId fence = Inr (u, s')"
  shows "store_inv env s'"
proof (cases "s' = s")
  case False
  let ?k = "dp_checkpointHash receipt"
  from confirm_cases [OF conf] False obtain a c st where g: "attempts_of s t ?k = Some a" "at_checkpointHash a = ?k"
    "find_checkpoint s t ?k = Some c"
    "verifyRetentionDisposition env (disposition_value receipt) (checkpoint_value c) default_options = Inr (RetOk st)"
    "s' = s\<lparr>ms_dispositions := (ms_dispositions s)(t \<mapsto> (dispositions_of s t)(?k \<mapsto> receipt)),
            ms_attempts := (ms_attempts s)(t \<mapsto> (attempts_of s t)(?k \<mapsto> a\<lparr>at_status := Disposed\<rparr>))\<rparr>" by blast
  have same: "hot s' x = hot s x" "chain_state_of s' x = chain_state_of s x" "checkpoints_of s' x = checkpoints_of s x"
    "dispositions_of s' x = (if x = t then (dispositions_of s t)(?k \<mapsto> receipt) else dispositions_of s x)"
    "attempts_of s' x = (if x = t then (attempts_of s t)(?k \<mapsto> a\<lparr>at_status := Disposed\<rparr>) else attempts_of s x)" for x
    by (simp_all add: g(5) hot_def chain_state_of_def checkpoints_of_def dispositions_of_def attempts_of_def)
  note c = find_checkpoint_Some [OF g(3)]
  have "disposition_inv env s' x" for x
  proof (cases "x = t")
    case True
    have "disposition_inv env s t" using inv by (simp add: store_inv_def)
    with True g(1,2,4) c show ?thesis
      unfolding disposition_inv_def same by (auto simp: fun_upd_apply split: if_splits)
  next
    case False
    then show ?thesis using inv unfolding store_inv_def disposition_inv_def same by simp
  qed
  moreover have "tenant_inv env s' x \<longleftrightarrow> tenant_inv env s x" for x by (simp add: tenant_inv_def same)
  ultimately show ?thesis using inv by (simp add: store_inv_def idempotency_inv_def g(5))
qed (use inv in simp)

section \<open>Runs of the store\<close>

definition at_time :: "retention_env \<Rightarrow> int \<Rightarrow> retention_env" where
  "at_time env n = env\<lparr>re_host := (re_host env)\<lparr>now := n\<rparr>\<rparr>"

inductive store_step :: "retention_env \<Rightarrow> memory_store \<Rightarrow> memory_store \<Rightarrow> bool" for env where
  step_append: "append (at_time env n) s event options = Inr (r, s') \<Longrightarrow> store_step env s s'"
| step_fence: "advanceRetentionPolicyFence s t v = Inr (next, s') \<Longrightarrow> store_step env s s'"
| step_compact: "compactRange env s t cp expected fence = Inr (u, s') \<Longrightarrow> store_step env s s'"
| step_prepare: "prepareDisposition s t k attempt fence = Inr (a, s') \<Longrightarrow> store_step env s s'"
| step_confirm: "confirmDisposition env s t receipt attemptId fence = Inr (u, s') \<Longrightarrow> store_step env s s'"

inductive_cases store_stepE: "store_step env s s'"

definition store_reachable :: "retention_env \<Rightarrow> memory_store \<Rightarrow> bool" where
  "store_reachable env s \<longleftrightarrow> (store_step env)\<^sup>*\<^sup>* empty_store s"

lemma at_time_sha [simp]: "re_sha (at_time env n) = re_sha env"
  by (simp add: at_time_def)

lemma store_step_inv: "store_inv env s \<Longrightarrow> store_step env s s' \<Longrightarrow> store_inv env s'"
  by (erule store_stepE)
    (auto intro: append_preserves [OF _ at_time_sha] advance_preserves compact_preserves prepare_preserves confirm_preserves)

text \<open>What a run never takes back.\<close>

definition entry_kept :: "idempotency_entry \<Rightarrow> idempotency_entry \<Rightarrow> bool" where
  "entry_kept e e' \<longleftrightarrow> ie_eventCanonicalHash e' = ie_eventCanonicalHash e \<and>
     ie_originalSequence e' = ie_originalSequence e \<and> ie_originalRecordHash e' = ie_originalRecordHash e \<and>
     (ie_record e = None \<longrightarrow> ie_record e' = None)"

lemma entry_kept_refl [simp]: "entry_kept e e"
  by (simp add: entry_kept_def)

lemma entry_kept_trans: "entry_kept e f \<Longrightarrow> entry_kept f g \<Longrightarrow> entry_kept e g"
  by (simp add: entry_kept_def)

definition store_extends :: "memory_store \<Rightarrow> memory_store \<Rightarrow> bool" where
  "store_extends s s' \<longleftrightarrow>
     (\<forall>t. prefix (checkpoints_of s t) (checkpoints_of s' t) \<and>
        authoritativeTipSequence (chain_state_of s t) \<le> authoritativeTipSequence (chain_state_of s' t) \<and>
        minimumRetainedSequence (chain_state_of s t) \<le> minimumRetainedSequence (chain_state_of s' t) \<and>
        retentionPolicyFence (chain_state_of s t) \<le> retentionPolicyFence (chain_state_of s' t) \<and>
        dispositions_of s t \<subseteq>\<^sub>m dispositions_of s' t) \<and>
     (\<forall>k e. ms_idempotency s k = Some e \<longrightarrow>
        (\<exists>e'. ms_idempotency s' k = Some e' \<and> entry_kept e e'))"

lemma store_extends_refl: "store_extends s s"
  by (simp add: store_extends_def)

lemma store_extends_trans: "store_extends s t \<Longrightarrow> store_extends t u \<Longrightarrow> store_extends s u"
  unfolding store_extends_def
  by (intro conjI allI) (meson map_le_trans order_trans prefix_order.trans entry_kept_trans)+

lemma append_extends:
  assumes "append env s event options = Inr (r, s')"
  shows "store_extends s s'"
  using assms
proof (cases rule: append_cases)
  case (fresh t k c)
  have "rec_sequence r = authoritativeTipSequence (chain_state_of s t) + 1" by (subst fresh(7)) simp
  then show ?thesis using fresh(4)
    by (auto simp: store_extends_def fresh(8) checkpoints_of_def chain_state_of_def dispositions_of_def)
qed (simp add: store_extends_refl)

lemma compact_extends:
  assumes inv: "tenant_inv env s t" and comp: "compactRange env s t cp expected fence = Inr (u, s')"
  shows "store_extends s s'"
proof -
  note g = compact_cases [OF comp]
  from g obtain st where v: "verifyRetentionCheckpoint env (checkpoint_value cp) default_options = Inr (RetOk st)" by blast
  have le: "minimumRetainedSequence (chain_state_of s t) \<le> cp_throughSequence cp + 1"
    using accepted_range [OF v] g by simp
  have f: "checkpoints_of s' x = (if x = t then checkpoints_of s t @ [cp] else checkpoints_of s x)"
    "chain_state_of s' x = (if x = t then (chain_state_of s t)\<lparr>minimumRetainedSequence := cp_throughSequence cp + 1,
        latestCheckpointHash := Some (cp_hash cp)\<rparr> else chain_state_of s x)"
    "dispositions_of s' x = dispositions_of s x" for x
    using g by (simp_all add: compacted_def checkpoints_of_def chain_state_of_def dispositions_of_def)
  have "\<exists>e'. ms_idempotency s' k = Some e' \<and> entry_kept e e'" if "ms_idempotency s k = Some e" for k e
    using that g by (simp add: compacted_def tombstone_def entry_kept_def)
  with le show ?thesis by (simp add: store_extends_def f)
qed

lemma fence_extends:
  assumes "advanceRetentionPolicyFence s t v = Inr (n, s')"
  shows "store_extends s s'"
  using advance_cases [OF assms]
  by (simp add: store_extends_def checkpoints_of_def chain_state_of_def dispositions_of_def)

lemma prepare_extends:
  assumes "prepareDisposition s t k attempt fence = Inr (a, s')"
  shows "store_extends s s'"
proof (cases "s' = s")
  case False
  with prepare_cases [OF assms] have "s' = s\<lparr>ms_attempts := (ms_attempts s)(t \<mapsto> (attempts_of s t)(k \<mapsto> attempt))\<rparr>" by blast
  then show ?thesis by (simp add: store_extends_def checkpoints_of_def chain_state_of_def dispositions_of_def)
qed (simp add: store_extends_refl)

lemma confirm_extends:
  assumes "confirmDisposition env s t receipt attemptId fence = Inr (u, s')"
  shows "store_extends s s'"
proof (cases "s' = s")
  case False
  with confirm_cases [OF assms] obtain a where
    d: "dispositions_of s t (dp_checkpointHash receipt) = None" and
    s': "s' = s\<lparr>ms_dispositions := (ms_dispositions s)(t \<mapsto> (dispositions_of s t)(dp_checkpointHash receipt \<mapsto> receipt)),
       ms_attempts := (ms_attempts s)(t \<mapsto> (attempts_of s t)(dp_checkpointHash receipt \<mapsto> a))\<rparr>" by blast
  have "dispositions_of s' x = (if x = t then (dispositions_of s t)(dp_checkpointHash receipt \<mapsto> receipt) else dispositions_of s x)" for x
    by (simp add: s' dispositions_of_def)
  then show ?thesis using d
    by (simp add: store_extends_def) (auto simp: s' checkpoints_of_def chain_state_of_def map_le_def dom_def)
qed (simp add: store_extends_refl)

interpretation store: monotone_system "\<lambda>s. s = empty_store" "store_step env" "store_inv env" store_extends for env
proof unfold_locales
  show "store_inv env s" if "s = empty_store" for s using that empty_store_inv by simp
  show "store_inv env s'" if "store_inv env s" "store_step env s s'" for s s' using that by (rule store_step_inv)
  show "store_extends s s'" if "store_inv env s" "store_step env s s'" for s s'
    using that(2,1) by (cases rule: store_step.cases)
      (auto intro: append_extends fence_extends prepare_extends confirm_extends compact_extends simp: store_inv_def)
qed (auto intro: store_extends_refl store_extends_trans)

lemma reachable_store_inv: "store_reachable env s \<Longrightarrow> store_inv env s"
  using store.reachable_inv by (simp add: store_reachable_def)

section \<open>Verification of what the store holds\<close>

lemma list_all_hot:
  "list_records s t \<lparr>lo_afterSequence = None, lo_limit = None\<rparr> = Inr rs \<Longrightarrow>
     (\<forall>r \<in> set (hot s t). 0 < rec_sequence r) \<Longrightarrow> rs = hot s t \<and> \<not> blank t"
  by (auto simp: list_records_def assertNonEmpty_def hot_def Let_def intro!: filter_cong)

lemma tenant_inv_hot:
  assumes "tenant_inv env s t" "\<not> blank t"
  shows "(\<forall>r \<in> set (hot s t). sealed (auditEnvelope (re_sha env)) r \<and> event_tenant (rec_event r) = Some t) \<and>
    linked_from (auditEnvelope (re_sha env)) (anchor_link (checkpoints_of s t)) (hot s t) \<and>
    checkpoints_ok env t (checkpoints_of s t)"
  using assms event_tenant_belongs by (auto simp: tenant_inv_def Let_def hot_def belongs_def)

lemma checkpoints_ok_last:
  assumes "checkpoints_ok env t cs" "cs \<noteq> []"
  shows "(\<exists>st. verifyRetentionCheckpoint env (checkpoint_value (last cs)) default_options = Inr (RetOk st)) \<and>
    cp_tenantId (last cs) = t"
proof -
  have "length cs - 1 < length cs" using assms(2) by simp
  with assms show ?thesis unfolding checkpoints_ok_def last_conv_nth [OF assms(2)] by blast
qed

lemma anchor_nonneg:
  assumes "checkpoints_ok env t cs"
  shows "0 \<le> link_sequence (anchor_link cs)"
proof (cases "cs = []")
  case False
  then obtain st where "verifyRetentionCheckpoint env (checkpoint_value (last cs)) default_options = Inr (RetOk st)"
    using checkpoints_ok_last [OF assms] by blast
  from accepted_range [OF this] False show ?thesis by (simp add: anchor_link_def last_of_def)
qed (simp add: anchor_link_def last_of_def genesis_def)

lemma retok_index:
  "verifyCheckpointAt env v options i = Inr (RetOk st) \<Longrightarrow> verifyCheckpointAt env v options j = Inr (RetOk st)"
  by (fastforce simp: verifyCheckpointAt_def split: if_splits sum.splits option.splits)

lemma checkpoints_ok_chain:
  assumes "checkpoints_ok env t cs"
  shows "\<exists>st. verifyRetentionCheckpointChain env (map checkpoint_value cs) default_options = Inr (RetOk st)"
proof -
  have "\<exists>st. verifyCheckpointAt env (checkpoint_value (cs ! i)) default_options i = Inr (RetOk st)" if "i < length cs" for i
    using assms that retok_index unfolding checkpoints_ok_def verifyRetentionCheckpoint_def by blast
  then obtain f where f: "\<forall>i < length cs. verifyCheckpointAt env (checkpoint_value (cs ! i)) default_options i = Inr (RetOk (f i))"
    by metis
  have "length (map f [0..<length cs]) = length (map checkpoint_value cs) \<and>
      (\<forall>j < length (map checkpoint_value cs).
        verifyCheckpointAt env (map checkpoint_value cs ! j) default_options j = Inr (RetOk (map f [0..<length cs] ! j)) \<and>
        int_prop (map checkpoint_value cs ! j) ''epoch'' = int j + 1) \<and>
      successively checkpoint_follows (map checkpoint_value cs)"
    using f assms by (simp add: checkpoints_ok_def successively_map)
  then show ?thesis unfolding checkpoint_chain_iff by blast
qed

lemma hot_from_checkpoint:
  assumes inv: "tenant_inv env s t" and t: "\<not> blank t" and cs: "checkpoints_of s t \<noteq> []"
  shows "\<exists>st. verifyAuditRecordsFromCheckpoint env (checkpoint_value (last (checkpoints_of s t))) (hot s t) default_options
    = Inr (RetOk st)"
proof -
  let ?c = "last (checkpoints_of s t)"
  note h = tenant_inv_hot [OF inv t]
  from h cs obtain st where v: "verifyRetentionCheckpoint env (checkpoint_value ?c) default_options = Inr (RetOk st)"
    and tn: "cp_tenantId ?c = t" using checkpoints_ok_last by blast
  have n: "JStr (cp_throughHash ?c) = nullable_json (Some (cp_throughHash ?c))" by (simp add: nullable_json_def)
  have a: "anchor_link (checkpoints_of s t) = \<lparr>link_previousHash = Some (cp_throughHash ?c), link_sequence = cp_throughSequence ?c\<rparr>"
    using cs by (simp add: anchor_link_def last_of_def)
  have "verifyFromAnchor (re_sha env) (JStr t) st (cp_throughSequence ?c) (nullable_json (Some (cp_throughHash ?c))) 0 (hot s t)
      = Inr (RetOk st)"
    unfolding verifyFromAnchor_iff using h by (simp add: a)
  then show ?thesis using v tn by (intro exI [of _ st]) (simp add: verifyAuditRecordsFromCheckpoint_def n)
qed

lemma hot_from_genesis:
  assumes inv: "tenant_inv env s t" and t: "\<not> blank t" and cs: "checkpoints_of s t = []"
  shows "verifyAuditRecords (re_sha env) (hot s t) = Inr VerOk"
proof -
  note h = tenant_inv_hot [OF inv t]
  then have "\<forall>r \<in> set (hot s t). tenant_of (auditEnvelope (re_sha env)) r = Some t" by simp
  from single_tenant_chain_ok [OF this] h cs show ?thesis
    by (simp add: verifyAuditRecords_def audit_chain.verify_iff anchor_link_def last_of_def)
qed

section \<open>Properties\<close>

text \<open>C13. Whatever sequence of appends, fence updates, compactions and dispositions has run, the records the store lists for a tenant verify: from the genesis while nothing was compacted, and otherwise from the tenant's last checkpoint, whose checkpoint chain verifies as well.\<close>

theorem memory_store_verifies:
  assumes "store_reachable env s" "list_records s t \<lparr>lo_afterSequence = None, lo_limit = None\<rparr> = Inr rs"
  shows "(checkpoints_of s t = [] \<longrightarrow> verifyAuditRecords (re_sha env) rs = Inr VerOk) \<and>
    (checkpoints_of s t \<noteq> [] \<longrightarrow>
       (\<exists>st. verifyRetentionCheckpointChain env (map checkpoint_value (checkpoints_of s t)) default_options = Inr (RetOk st)) \<and>
       (\<exists>st. verifyAuditRecordsFromCheckpoint env (checkpoint_value (last (checkpoints_of s t))) rs default_options
          = Inr (RetOk st)))"
proof -
  have t: "\<not> blank t" using assms(2) by (auto simp: list_records_def assertNonEmpty_def)
  have inv: "tenant_inv env s t" using reachable_store_inv [OF assms(1)] by (simp add: store_inv_def)
  note h = tenant_inv_hot [OF inv t]
  have "\<forall>r \<in> set (hot s t). 0 < rec_sequence r"
    using linked_bounds [of "auditEnvelope (re_sha env)"] h anchor_nonneg [of env t] by fastforce
  with list_all_hot [OF assms(2)] have "rs = hot s t" by blast
  then show ?thesis
    using hot_from_genesis [OF inv t] hot_from_checkpoint [OF inv t] checkpoints_ok_chain h by blast
qed

text \<open>Appending is idempotent: repeating a successful append with the same event and options, at any later time, returns the same record and leaves the store unchanged.\<close>

theorem append_replays:
  assumes "append env s event options = Inr (r, s')" "re_sha env' = re_sha env"
  shows "append env' s' event options = Inr (r, s')"
  using assms(1)
proof (cases rule: append_cases)
  case (replay t k c e)
  then show ?thesis by (simp add: append_def append_key_def assms(2))
next
  case (fresh t k c)
  then have "ms_idempotency s' k = Some \<lparr>ie_eventCanonicalHash = sha256Hex (re_sha env) c, ie_originalSequence = rec_sequence r,
              ie_originalRecordHash = rec_hash r, ie_record = Some r\<rparr>" by simp
  with fresh(1-3) show ?thesis by (simp add: append_def append_key_def assms(2))
qed

text \<open>C16. Tenants are isolated: no successful operation for one tenant changes what another tenant can observe (its records, chain state, checkpoints, attempts and receipts).\<close>

theorem store_tenant_isolation:
  assumes "u \<noteq> t"
    and "(requireTenantId event = Inr t \<and> append env s event options = Inr (r, s'))
      \<or> advanceRetentionPolicyFence s t v = Inr (n, s')
      \<or> compactRange env s t cp expected fence = Inr (w, s')
      \<or> prepareDisposition s t k attempt fence = Inr (a, s')
      \<or> confirmDisposition env s t receipt attemptId fence = Inr (w, s')"
  shows "view s' u = view s u"
proof -
  consider (app) "requireTenantId event = Inr t" "append env s event options = Inr (r, s')"
    | (fence) "advanceRetentionPolicyFence s t v = Inr (n, s')"
    | (comp) "compactRange env s t cp expected fence = Inr (w, s')"
    | (prep) "prepareDisposition s t k attempt fence = Inr (a, s')"
    | (conf) "confirmDisposition env s t receipt attemptId fence = Inr (w, s')" using assms(2) by blast
  then show ?thesis
  proof cases
    case app
    from app(2) show ?thesis
    proof (cases rule: append_cases)
      case (fresh t' k' c)
      have "t' = t" using app(1) fresh(1) by simp
      moreover have "rec_event r = event" by (subst fresh(7)) simp
      then have "belongs u r \<longleftrightarrow> u = t" using app(1) by (auto simp: belongs_def requireTenantId_Inr)
      ultimately show ?thesis using assms(1)
        by (simp add: view_def hot_def chain_state_of_def checkpoints_of_def attempts_of_def dispositions_of_def fresh(8))
    qed simp
  next
    case fence
    with advance_cases [OF fence] assms(1) show ?thesis
      by (simp add: view_def hot_def chain_state_of_def checkpoints_of_def attempts_of_def dispositions_of_def)
  next
    case comp
    with compact_cases [OF comp] compact_view [OF assms(1)] show ?thesis by simp
  next
    case prep
    show ?thesis
    proof (cases "s' = s")
      case False
      with prepare_cases [OF prep] have "s' = s\<lparr>ms_attempts := (ms_attempts s)(t \<mapsto> (attempts_of s t)(k \<mapsto> attempt))\<rparr>" by blast
      with assms(1) show ?thesis
        by (simp add: view_def hot_def chain_state_of_def checkpoints_of_def attempts_of_def dispositions_of_def)
    qed simp
  next
    case conf
    show ?thesis
    proof (cases "s' = s")
      case False
      with confirm_cases [OF conf] obtain b where
        "s' = s\<lparr>ms_dispositions := (ms_dispositions s)(t \<mapsto> (dispositions_of s t)(dp_checkpointHash receipt \<mapsto> receipt)),
           ms_attempts := (ms_attempts s)(t \<mapsto> (attempts_of s t)(dp_checkpointHash receipt \<mapsto> b))\<rparr>" by blast
      with assms(1) show ?thesis
        by (simp add: view_def hot_def chain_state_of_def checkpoints_of_def attempts_of_def dispositions_of_def)
    qed simp
  qed
qed

text \<open>C14. The store never takes history back: along every run from a reachable state the checkpoint list only grows at its end, tip, retained minimum and policy fence never decrease, accepted receipts stay as they are, and an idempotency key stays bound to its event hash, sequence number and record hash, compacted or not.\<close>

theorem store_history_preserved:
  assumes "store_reachable env s" "(store_step env)\<^sup>*\<^sup>* s s'"
  shows "store_extends s s'"
  using store.steps_before [OF assms(2)] reachable_store_inv [OF assms(1)] by simp

text \<open>Compaction is exact: in a reachable state a successful \<open>compactRange\<close> removes precisely the records the checkpoint states, a prefix of the tenant's hot records that ends in the checkpoint's last hash, keeps all others in order, and does not move the chain tip.\<close>

theorem compactRange_exact:
  assumes "store_reachable env s" "compactRange env s t cp expected fence = Inr (u, s')"
  shows "\<exists>archived. hot s t = archived @ hot s' t \<and> int (length archived) = cp_recordCount cp \<and> archived \<noteq> [] \<and>
    rec_sequence (hd archived) = cp_fromSequence cp \<and> rec_hash (last archived) = cp_throughHash cp \<and>
    authoritativeTipSequence (chain_state_of s' t) = authoritativeTipSequence (chain_state_of s t) \<and>
    authoritativeTipHash (chain_state_of s' t) = authoritativeTipHash (chain_state_of s t)"
proof -
  have inv: "tenant_inv env s t" using reachable_store_inv [OF assms(1)] by (simp add: store_inv_def)
  note g = compact_cases [OF assms(2)]
  from g obtain st where v: "verifyRetentionCheckpoint env (checkpoint_value cp) default_options = Inr (RetOk st)" by blast
  note r = accepted_range [OF v]
  let ?n = "nat (cp_throughSequence cp - cp_fromSequence cp + 1)"
  have cov: "covered s t cp = take ?n (hot s t)" and rest: "hot s' t = drop ?n (hot s t)"
    using covered_prefix [OF inv] g r by (simp_all add: compacted_hot)
  have n: "int (length (take ?n (hot s t))) = cp_recordCount cp" using g unfolding cov by blast
  with r have ne: "take ?n (hot s t) \<noteq> []" by auto
  have "rec_hash (last (take ?n (hot s t))) = cp_throughHash cp"
    using g ne check_range_boundary [of "re_sha env" "cp_fromSequence cp" "cp_fromPreviousHash cp" "covered s t cp"]
    by (auto simp: cov)
  moreover have "rec_sequence (hd (take ?n (hot s t))) = cp_fromSequence cp"
    using g ne by (cases "take ?n (hot s t)") (auto simp: cov split: if_splits)
  moreover have "authoritativeTipSequence (chain_state_of s' t) = authoritativeTipSequence (chain_state_of s t) \<and>
      authoritativeTipHash (chain_state_of s' t) = authoritativeTipHash (chain_state_of s t)"
    using g by (simp add: compacted_def chain_state_of_def)
  moreover have "hot s t = take ?n (hot s t) @ hot s' t" unfolding rest by simp
  ultimately show ?thesis using n ne by blast
qed

text \<open>C15. In every reachable state each accepted receipt belongs to a checkpoint of its tenant and verifies against it, and an attempt counts as disposed exactly when its checkpoint has a receipt.\<close>

theorem dispositions_verified:
  assumes "store_reachable env s"
  shows "(\<forall>k d. dispositions_of s t k = Some d \<longrightarrow>
      (\<exists>c \<in> set (checkpoints_of s t). cp_hash c = k \<and> dp_checkpointHash d = k \<and>
         (\<exists>st. verifyRetentionDisposition env (disposition_value d) (checkpoint_value c) default_options = Inr (RetOk st)))) \<and>
    (\<forall>k. (\<exists>a. attempts_of s t k = Some a \<and> at_status a = Disposed) \<longleftrightarrow> dispositions_of s t k \<noteq> None)"
  using reachable_store_inv [OF assms] unfolding store_inv_def disposition_inv_def by blast

section \<open>A concrete run\<close>

definition no_append_options :: append_options where
  "no_append_options = \<lparr>ao_idempotencyKey = None, ao_expectedPreviousHash = None\<rparr>"

definition run_record :: audit_record where
  "run_record = \<lparr>rec_event = sample_event, rec_sequence = 1, rec_previousHash = None, rec_hash = zero_digest [],
     rec_hashAlgorithm = HASH_ALGORITHM, rec_canonicalization = CANONICALIZATION,
     rec_appendedAt = ''1970-01-01T00:00:00.000Z'', rec_idempotencyKeyHash = zero_digest []\<rparr>"

definition run_append :: memory_store where
  "run_append = empty_store\<lparr>ms_records := [run_record],
     ms_chainStates := [''t1'' \<mapsto> untouched_chain\<lparr>authoritativeTipSequence := 1, authoritativeTipHash := Some (zero_digest [])\<rparr>],
     ms_idempotency := [zero_digest [] \<mapsto> \<lparr>ie_eventCanonicalHash = zero_digest [], ie_originalSequence = 1,
       ie_originalRecordHash = zero_digest [], ie_record = Some run_record\<rparr>]\<rparr>"

definition run_checkpoint :: retention_checkpoint where
  "run_checkpoint = (sample_checkpoint 1)\<lparr>cp_throughSequence := 1, cp_recordCount := 1\<rparr>"

definition run_compact :: memory_store where
  "run_compact = compacted run_append ''t1'' run_checkpoint"

definition run_attempt :: disposition_attempt where
  "run_attempt = \<lparr>at_attemptId = ''a1'', at_checkpointHash = zero_digest [], at_policyFence = 0, at_status = Pending\<rparr>"

definition run_receipt :: retention_disposition where
  "run_receipt = \<lparr>dp_recordType = ''retention.disposition'', dp_schemaVersion = ''1.0'', dp_dispositionId = ''d1'',
     dp_tenantId = ''t1'', dp_chainKind = ''audit'', dp_checkpointHash = zero_digest [], dp_fromSequence = 1,
     dp_throughSequence = 1, dp_archiveRootHash = zero_digest [], dp_method = ''provider-delete'',
     dp_policyReference = ''p1'', dp_disposedAt = ''1970-01-01T00:00:00.000Z'', dp_canonicalization = ''veritio-json-v1'',
     dp_hashAlgorithm = ''sha256'', dp_fingerprint = None, dp_hash = zero_digest [], dp_signature = None\<rparr>"

definition run_prepare :: memory_store where
  "run_prepare = run_compact\<lparr>ms_attempts := [''t1'' \<mapsto> [zero_digest [] \<mapsto> run_attempt]]\<rparr>"

definition run_confirm :: memory_store where
  "run_confirm = run_prepare\<lparr>ms_dispositions := [''t1'' \<mapsto> [zero_digest [] \<mapsto> run_receipt]],
     ms_attempts := [''t1'' \<mapsto> [zero_digest [] \<mapsto> run_attempt\<lparr>at_status := Disposed\<rparr>]]\<rparr>"

lemma sample_digest [simp]: "sha256Hex (re_sha (at_time sample_env n)) x = zero_digest []"
  "sha256Hex (re_sha sample_env) x = zero_digest []" "sha256Hex zero_digest x = zero_digest []"
  by (simp_all add: sha256Hex_def sample_env_def at_time_def zero_digest_def)

lemma run_record_hash:
  "hashAuditRecord (re_sha sample_env) run_record = Inr (zero_digest [])"
  "hashAuditRecord (re_sha sample_env) (run_record\<lparr>rec_hash := []\<rparr>) = Inr (zero_digest [])"
proof -
  have "\<not> isl (canonicalJson (record_body_json run_record))" by code_simp
  then show a: "hashAuditRecord (re_sha sample_env) run_record = Inr (zero_digest [])"
    by (cases "canonicalJson (record_body_json run_record)") (simp_all add: hashAuditRecord_def)
  have "record_body_json (run_record\<lparr>rec_hash := []\<rparr>) = record_body_json run_record" by (simp add: record_body_json_def)
  with a show "hashAuditRecord (re_sha sample_env) (run_record\<lparr>rec_hash := []\<rparr>) = Inr (zero_digest [])"
    by (simp add: hashAuditRecord_def)
qed

lemma run_chain_ok [simp]:
  "assertAuditChainState untouched_chain = Inr ()"
  "assertAuditChainState (untouched_chain\<lparr>authoritativeTipSequence := 1, authoritativeTipHash := Some (zero_digest [])\<rparr>) = Inr ()"
  "assertAuditChainState (untouched_chain\<lparr>authoritativeTipSequence := 1, authoritativeTipHash := Some (zero_digest []),
     minimumRetainedSequence := 2, latestCheckpointHash := Some (zero_digest [])\<rparr>) = Inr ()"
  by code_simp+

lemma run_guards [simp]:
  "assertRetentionPolicyFence 0 = Inr ()" "assertNonEmpty ''t1'' ''scope.tenantId'' = Inr ()"
  "assertNonEmpty ''a1'' ''expectedAttemptId'' = Inr ()" "assertNonEmpty (zero_digest []) ''checkpointHash'' = Inr ()"
  "assertDispositionAttempt run_attempt = Inr ()" "requireTenantId sample_event = Inr ''t1''"
  by code_simp+

lemma run_fields [simp]:
  "at_attemptId run_attempt = ''a1''" "at_policyFence run_attempt = 0" "at_checkpointHash run_attempt = zero_digest []"
  "at_status run_attempt = Pending" "dp_checkpointHash run_receipt = zero_digest []"
  "cp_hash run_checkpoint = zero_digest []" "cp_throughHash run_checkpoint = zero_digest []" "cp_fromSequence run_checkpoint = 1"
  "cp_throughSequence run_checkpoint = 1" "cp_recordCount run_checkpoint = 1" "cp_epoch run_checkpoint = 1"
  "cp_previousCheckpointHash run_checkpoint = None" "cp_fromPreviousHash run_checkpoint = None"
  "cp_tenantId run_checkpoint = ''t1''" "cp_chainKind run_checkpoint = ''audit''"
  "rec_sequence run_record = 1" "rec_previousHash run_record = None" "rec_hash run_record = zero_digest []"
  "belongs ''t1'' run_record"
  by code_simp+

lemmas run_states = run_append_def run_compact_def run_prepare_def run_confirm_def empty_store_def compacted_def
  chain_state_of_def checkpoints_of_def attempts_of_def dispositions_of_def hot_def

lemma run_append_eq: "append (at_time sample_env 0) empty_store sample_event no_append_options = Inr (run_record, run_append)"
proof -
  have c: "\<exists>c. canonicalJson (event_json sample_event) = Inr c"
  proof -
    have "\<not> isl (canonicalJson (event_json sample_event))" by code_simp
    then show ?thesis by (cases "canonicalJson (event_json sample_event)") simp_all
  qed
  have k: "hashIdempotencyKey (re_sha sample_env) ''t1'' (event_id sample_event) = Inr (zero_digest [])"
  proof -
    have "assertNonEmpty (event_id sample_event) ''idempotencyKey'' = Inr ()" "assertNonEmpty ''t1'' ''tenantId'' = Inr ()" by code_simp+
    then show ?thesis by (simp add: hashIdempotencyKey_def)
  qed
  have n: "iso_of_ms (now (re_host (at_time sample_env 0))) = ''1970-01-01T00:00:00.000Z''" by code_simp
  have r: "\<lparr>rec_event = sample_event, rec_sequence = 1, rec_previousHash = None, rec_hash = [], rec_hashAlgorithm = HASH_ALGORITHM,
     rec_canonicalization = CANONICALIZATION, rec_appendedAt = ''1970-01-01T00:00:00.000Z'',
     rec_idempotencyKeyHash = zero_digest []\<rparr> = run_record\<lparr>rec_hash := []\<rparr>" by (simp add: run_record_def)
  have u: "authoritativeTipSequence untouched_chain = 0" "authoritativeTipHash untouched_chain = None"
    by (simp_all add: untouched_chain_def)
  show ?thesis using c
    by (auto simp: u append_def no_append_options_def chainState_def run_states untouched_chain_def[symmetric] k n r run_record_hash Let_def)
      (simp_all add: untouched_chain_def run_record_def)
qed

lemma js_prop_disposition:
  "js_prop (disposition_value d) ''recordType'' = JStr (dp_recordType d)"
  "js_prop (disposition_value d) ''schemaVersion'' = JStr (dp_schemaVersion d)"
  "js_prop (disposition_value d) ''tenantId'' = JStr (dp_tenantId d)"
  "js_prop (disposition_value d) ''chainKind'' = JStr (dp_chainKind d)"
  "js_prop (disposition_value d) ''checkpointHash'' = JStr (dp_checkpointHash d)"
  "js_prop (disposition_value d) ''fromSequence'' = JNum (NInt (dp_fromSequence d))"
  "js_prop (disposition_value d) ''throughSequence'' = JNum (NInt (dp_throughSequence d))"
  "js_prop (disposition_value d) ''archiveRootHash'' = JStr (dp_archiveRootHash d)"
  "js_prop (disposition_value d) ''method'' = JStr (dp_method d)"
  "js_prop (disposition_value d) ''canonicalization'' = JStr (dp_canonicalization d)"
  "js_prop (disposition_value d) ''hashAlgorithm'' = JStr (dp_hashAlgorithm d)"
  "js_prop (disposition_value d) ''hash'' = JStr (dp_hash d)"
  by (simp_all add: disposition_value_def js_prop_def get_prop_def optional_member_def split: option.split)

lemma run_payload_hashes:
  "hashRetentionCheckpoint (re_sha sample_env) (checkpoint_value run_checkpoint) = Inr (zero_digest [])"
  "hashRetentionDisposition (re_sha sample_env) (disposition_value run_receipt) = Inr (zero_digest [])"
proof -
  have "\<exists>x. normalizeForJson (checkpointHashPayload (checkpoint_value run_checkpoint)) = Inr x"
    unfolding checkpointHashPayload_def
    by (rule normalize_object_total) (simp add: pick_def fingerprint_member_def)
  moreover have "\<exists>x. normalizeForJson (dispositionHashPayload (disposition_value run_receipt)) = Inr x"
    unfolding dispositionHashPayload_def
    by (rule normalize_object_total)
      (simp add: pick_def fingerprint_member_def disposition_value_def js_prop_def get_prop_def optional_member_def run_receipt_def)
  ultimately show "hashRetentionCheckpoint (re_sha sample_env) (checkpoint_value run_checkpoint) = Inr (zero_digest [])"
    "hashRetentionDisposition (re_sha sample_env) (disposition_value run_receipt) = Inr (zero_digest [])"
    by (auto simp: hashRetentionCheckpoint_def hashRetentionDisposition_def canonicalJson_def checkpointHashPayload_def
        dispositionHashPayload_def)
qed

lemma run_verified:
  "verifyRetentionCheckpoint sample_env (checkpoint_value run_checkpoint) default_options = Inr (RetOk SigSkipped)"
  "verifyRetentionDisposition sample_env (disposition_value run_receipt) (checkpoint_value run_checkpoint) default_options
     = Inr (RetOk SigAbsent)"
proof -
  have i: "assertCheckpointInput (re_host sample_env) (checkpoint_value run_checkpoint) = Inr ()"
    "assertDispositionInput (re_host sample_env) (disposition_value run_receipt) = Inr ()" by code_simp+
  have g: "verifyDetachedSignature sample_env (checkpoint_value run_checkpoint) default_options = Inr (SigSkipped, None)"
    "verifyDetachedSignature sample_env (disposition_value run_receipt) default_options = Inr (SigAbsent, None)" by code_simp+
  have h: "HASH_PATTERN (JStr (zero_digest []))" by code_simp
  have f: "cp_recordType run_checkpoint = ''retention.checkpoint''" "cp_schemaVersion run_checkpoint = RETENTION_SCHEMA_VERSION"
    "cp_canonicalization run_checkpoint = RETENTION_CANONICALIZATION" "cp_hashAlgorithm run_checkpoint = RETENTION_HASH_ALGORITHM"
    "cp_archiveRootHash run_checkpoint = zero_digest []"
    by (simp_all add: run_checkpoint_def sample_checkpoint_def RETENTION_SCHEMA_VERSION_def RETENTION_CANONICALIZATION_def
        RETENTION_HASH_ALGORITHM_def)
  show v: "verifyRetentionCheckpoint sample_env (checkpoint_value run_checkpoint) default_options = Inr (RetOk SigSkipped)"
    by (simp add: verifyRetentionCheckpoint_def verifyCheckpointAt_def i g h f run_payload_hashes)
  have d: "default_options\<lparr>opt_requireSignature := False\<rparr> = default_options" by (simp add: default_options_def)
  have r: "dp_recordType run_receipt = ''retention.disposition''" "dp_schemaVersion run_receipt = RETENTION_SCHEMA_VERSION"
    "dp_canonicalization run_receipt = RETENTION_CANONICALIZATION" "dp_hashAlgorithm run_receipt = RETENTION_HASH_ALGORITHM"
    "dp_method run_receipt = ''provider-delete''" "dp_hash run_receipt = zero_digest []" "dp_tenantId run_receipt = ''t1''"
    "dp_chainKind run_receipt = ''audit''" "dp_fromSequence run_receipt = 1" "dp_throughSequence run_receipt = 1"
    "dp_archiveRootHash run_receipt = zero_digest []"
    by (simp_all add: run_receipt_def RETENTION_SCHEMA_VERSION_def RETENTION_CANONICALIZATION_def RETENTION_HASH_ALGORITHM_def)
  have o: "isPlainObject (disposition_value run_receipt)" "hasOnlyKeys (disposition_value run_receipt) DISPOSITION_RECORD_KEYS"
    by code_simp+
  show "verifyRetentionDisposition sample_env (disposition_value run_receipt) (checkpoint_value run_checkpoint) default_options
     = Inr (RetOk SigAbsent)"
    unfolding verifyRetentionDisposition_def d v andThen_simps retention_result.case
    by (simp add: i g h o f r run_payload_hashes js_prop_disposition)
qed

lemma run_compact_eq:
  "compactRange sample_env run_append ''t1'' run_checkpoint (chain_state_of run_append ''t1'') 0 = Inr ((), run_compact)"
proof -
  note v = run_verified(1)
  have c: "covered run_append ''t1'' run_checkpoint = [run_record]"
    by (simp add: covered_def run_append_def in_range_def)
  have st: "chain_state_of run_append ''t1'' = untouched_chain\<lparr>authoritativeTipSequence := 1, authoritativeTipHash := Some (zero_digest [])\<rparr>"
      "checkpoints_of run_append ''t1'' = []"
    by (simp_all add: run_append_def empty_store_def chain_state_of_def checkpoints_of_def)
  have u: "minimumRetainedSequence untouched_chain = 1" "retentionPolicyFence untouched_chain = 0"
    by (simp_all add: untouched_chain_def)
  show ?thesis using v
    by (auto simp: compactRange_def chainState_def run_compact_def compacted_def covered_def[symmetric] c run_record_hash st u last_of_def
      Let_def auditChainStatesEqual_def)
qed

lemma run_prepare_eq: "prepareDisposition run_compact ''t1'' (zero_digest []) run_attempt 0 = Inr (run_attempt, run_prepare)"
  by (simp add: prepareDisposition_def chainState_def find_checkpoint_def Let_def run_states)
    (simp add: untouched_chain_def)

lemma run_confirm_eq: "confirmDisposition sample_env run_prepare ''t1'' run_receipt ''a1'' 0 = Inr ((), run_confirm)"
proof -
  note v = run_verified(2)
  show ?thesis
    by (simp add: confirmDisposition_def v chainState_def find_checkpoint_def Let_def run_states)
      (simp add: untouched_chain_def)
qed

lemma run_reachable:
  "store_reachable sample_env empty_store" "store_reachable sample_env run_append" "store_reachable sample_env run_compact"
  "store_reachable sample_env run_prepare" "store_reachable sample_env run_confirm"
  using step_append [OF run_append_eq] step_compact [OF run_compact_eq] step_prepare [OF run_prepare_eq]
    step_confirm [OF run_confirm_eq]
  unfolding store_reachable_def by (meson rtranclp.intros)+

section \<open>Witnesses\<close>

lemma memory_store_verifies_witness:
  "(\<exists>st. verifyRetentionCheckpointChain sample_env (map checkpoint_value (checkpoints_of run_compact ''t1'')) default_options
      = Inr (RetOk st)) \<and>
   verifyAuditRecords (re_sha sample_env) [run_record] = Inr VerOk"
proof -
  have c: "checkpoints_of run_compact ''t1'' = [run_checkpoint]" "checkpoints_of run_append ''t1'' = []"
    by (simp_all add: run_states)
  have l: "list_records run_compact ''t1'' \<lparr>lo_afterSequence = None, lo_limit = None\<rparr> = Inr []"
    "list_records run_append ''t1'' \<lparr>lo_afterSequence = None, lo_limit = None\<rparr> = Inr [run_record]"
    by (simp_all add: list_records_def non_negative_integer_def run_states in_range_def)
  show ?thesis using memory_store_verifies [OF run_reachable(3) l(1)] memory_store_verifies [OF run_reachable(2) l(2)]
    by (simp add: c)
qed

lemma append_replays_witness:
  "append (at_time sample_env 7) run_append sample_event no_append_options = Inr (run_record, run_append)"
  by (rule append_replays [OF run_append_eq]) simp

lemma store_tenant_isolation_witness:
  "view run_append ''t2'' = view empty_store ''t2'' \<and> view run_append ''t1'' \<noteq> view empty_store ''t1''"
proof -
  have "view run_append ''t2'' = view empty_store ''t2''"
    by (rule store_tenant_isolation [OF _ disjI1, OF _ conjI, OF _ run_guards(6) run_append_eq]) simp
  moreover have "hot run_append ''t1'' \<noteq> hot empty_store ''t1''" by (simp add: run_states)
  ultimately show ?thesis by (auto simp: view_def)
qed

lemma store_history_preserved_witness:
  "store_extends run_append run_compact \<and> store_extends empty_store run_confirm"
proof -
  have "(store_step sample_env)\<^sup>*\<^sup>* run_append run_compact" using step_compact [OF run_compact_eq] by blast
  moreover have "(store_step sample_env)\<^sup>*\<^sup>* empty_store run_confirm" using run_reachable(5) by (simp add: store_reachable_def)
  ultimately show ?thesis
    using store_history_preserved [OF run_reachable(2)] store_history_preserved [OF run_reachable(1)] by blast
qed

lemma compactRange_exact_witness:
  "\<exists>archived. hot run_append ''t1'' = archived @ hot run_compact ''t1'' \<and> int (length archived) = 1"
  using compactRange_exact [OF run_reachable(2) run_compact_eq] by auto

lemma dispositions_verified_witness:
  "dispositions_of run_confirm ''t1'' (zero_digest []) = Some run_receipt \<and>
     (\<exists>c \<in> set (checkpoints_of run_confirm ''t1''). cp_hash c = zero_digest [] \<and>
        (\<exists>st. verifyRetentionDisposition sample_env (disposition_value run_receipt) (checkpoint_value c) default_options
           = Inr (RetOk st)))"
proof -
  have "dispositions_of run_confirm ''t1'' (zero_digest []) = Some run_receipt" by (simp add: run_states)
  with dispositions_verified [OF run_reachable(5), of "''t1''"] show ?thesis by blast
qed

end
