(* ===== verification/Delivery.thy ===== *)
theory Delivery
  imports Retention
begin

text \<open>
  Delivery safety of \<^verbatim>\<open>storage/src/delivery-safety.ts\<close>: the policy parser over an untrusted
  value, and the rolling window ledger of \<^verbatim>\<open>storage/src/outbox-dispatcher.ts\<close> that all dispatch
  passes of one dispatcher share. The closure \<open>sends\<close> of the ledger is the list
  \<open>ledger\<close>; every operation prunes it first, so reading operations return the pruned list
  as well. Freezing has no counterpart in a value semantics.

  Shown here: what an accepted policy guarantees, that the pruned ledger refines the complete
  history of sends, and that sends admitted by the ledger never exceed the request and byte
  ceilings in any window.
\<close>

section \<open>Policy\<close>

datatype delivery_disposition = Retry | Pause | Reject

record recommended_thresholds =
  rec_queuedBytes :: int
  rec_rollingSendBytes :: int

record hard_ceilings =
  batchBytes :: int
  queuedBytes :: int
  rollingSendBytes :: int
  rollingRequests :: int
  windowMs :: int
  automaticReplayBatches :: int

record delivery_safety_policy =
  recommended :: recommended_thresholds
  hard :: hard_ceilings

definition DEFAULT_DELIVERY_SAFETY_POLICY :: delivery_safety_policy where
  "DEFAULT_DELIVERY_SAFETY_POLICY = \<lparr>
     recommended = \<lparr>rec_queuedBytes = 5 * 1024 * 1024, rec_rollingSendBytes = 1024 * 1024\<rparr>,
     hard = \<lparr>batchBytes = 1024 * 1024, queuedBytes = 64 * 1024 * 1024, rollingSendBytes = 2 * 1024 * 1024,
       rollingRequests = 30, windowMs = 60000, automaticReplayBatches = 1\<rparr>\<rparr>"

text \<open>\<open>typeof value === "object" && value !== null && !Array.isArray(value)\<close>\<close>

definition isRecordObject :: "jsval \<Rightarrow> bool" where
  "isRecordObject value = (case value of JObj _ \<Rightarrow> True | JDate _ \<Rightarrow> True | _ \<Rightarrow> False)"

definition requireObject :: "jsval \<Rightarrow> string \<Rightarrow> jsval throws" where
  "requireObject value field =
     (if isRecordObject value then Inr value else Inl (TypeError (field @ '' must be an object'')))"

definition requirePositiveInteger :: "jsval \<Rightarrow> string \<Rightarrow> int throws" where
  "requirePositiveInteger value field = (case value of
     JNum (NInt i) \<Rightarrow> if is_safe_int i \<and> 0 < i then Inr i
       else Inl (TypeError (field @ '' must be a positive safe integer''))
   | _ \<Rightarrow> Inl (TypeError (field @ '' must be a positive safe integer'')))"

definition requireAutomaticReplayBatches :: "jsval \<Rightarrow> int throws" where
  "requireAutomaticReplayBatches value = (case value of
     JNum (NInt i) \<Rightarrow> if i = 0 \<or> i = 1 then Inr i else Inl (TypeError ''hard.automaticReplayBatches must be 0 or 1'')
   | _ \<Rightarrow> Inl (TypeError ''hard.automaticReplayBatches must be 0 or 1''))"

definition parseDeliverySafetyPolicy :: "jsval \<Rightarrow> delivery_safety_policy throws" where
  "parseDeliverySafetyPolicy input =
     (if input = JUndefined then Inr DEFAULT_DELIVERY_SAFETY_POLICY
      else
        andThen (requireObject input ''deliverySafety'') (\<lambda>root.
        andThen (requireObject (js_prop root ''recommended'') ''recommended'') (\<lambda>r.
        andThen (requireObject (js_prop root ''hard'') ''hard'') (\<lambda>h.
        andThen (requirePositiveInteger (js_prop r ''queuedBytes'') ''recommended.queuedBytes'') (\<lambda>rq.
        andThen (requirePositiveInteger (js_prop r ''rollingSendBytes'') ''recommended.rollingSendBytes'') (\<lambda>rs.
        andThen (requirePositiveInteger (js_prop h ''batchBytes'') ''hard.batchBytes'') (\<lambda>hb.
        andThen (requirePositiveInteger (js_prop h ''queuedBytes'') ''hard.queuedBytes'') (\<lambda>hq.
        andThen (requirePositiveInteger (js_prop h ''rollingSendBytes'') ''hard.rollingSendBytes'') (\<lambda>hs.
        andThen (requirePositiveInteger (js_prop h ''rollingRequests'') ''hard.rollingRequests'') (\<lambda>hr.
        andThen (requirePositiveInteger (js_prop h ''windowMs'') ''hard.windowMs'') (\<lambda>hw.
        andThen (requireAutomaticReplayBatches (js_prop h ''automaticReplayBatches'')) (\<lambda>ha.
        andThen (throwUnless (rq \<le> hq)
           (TypeError ''recommended.queuedBytes must not exceed hard.queuedBytes'')) (\<lambda>_.
        andThen (throwUnless (rs \<le> hs)
           (TypeError ''recommended.rollingSendBytes must not exceed hard.rollingSendBytes'')) (\<lambda>_.
        andThen (throwUnless (hb \<le> hs)
           (TypeError ''hard.batchBytes must not exceed hard.rollingSendBytes'')) (\<lambda>_.
        Inr \<lparr>recommended = \<lparr>rec_queuedBytes = rq, rec_rollingSendBytes = rs\<rparr>,
          hard = \<lparr>batchBytes = hb, queuedBytes = hq, rollingSendBytes = hs, rollingRequests = hr, windowMs = hw,
            automaticReplayBatches = ha\<rparr>\<rparr>)))))))))))))))"

text \<open>The object a policy is written as.\<close>

definition policy_json :: "delivery_safety_policy \<Rightarrow> jsval" where
  "policy_json p = JObj
     [(''recommended'', JObj [(''queuedBytes'', JNum (NInt (rec_queuedBytes (recommended p)))),
        (''rollingSendBytes'', JNum (NInt (rec_rollingSendBytes (recommended p))))]),
      (''hard'', JObj [(''batchBytes'', JNum (NInt (batchBytes (hard p)))), (''queuedBytes'', JNum (NInt (queuedBytes (hard p)))),
        (''rollingSendBytes'', JNum (NInt (rollingSendBytes (hard p)))), (''rollingRequests'', JNum (NInt (rollingRequests (hard p)))),
        (''windowMs'', JNum (NInt (windowMs (hard p)))),
        (''automaticReplayBatches'', JNum (NInt (automaticReplayBatches (hard p))))])]"

definition positive_safe :: "int \<Rightarrow> bool" where
  "positive_safe i \<longleftrightarrow> 0 < i \<and> is_safe_int i"

definition policy_ok :: "delivery_safety_policy \<Rightarrow> bool" where
  "policy_ok p \<longleftrightarrow>
     positive_safe (rec_queuedBytes (recommended p)) \<and> positive_safe (rec_rollingSendBytes (recommended p)) \<and>
     positive_safe (batchBytes (hard p)) \<and> positive_safe (queuedBytes (hard p)) \<and>
     positive_safe (rollingSendBytes (hard p)) \<and> positive_safe (rollingRequests (hard p)) \<and>
     positive_safe (windowMs (hard p)) \<and> automaticReplayBatches (hard p) \<in> {0, 1} \<and>
     rec_queuedBytes (recommended p) \<le> queuedBytes (hard p) \<and>
     rec_rollingSendBytes (recommended p) \<le> rollingSendBytes (hard p) \<and>
     batchBytes (hard p) \<le> rollingSendBytes (hard p)"

lemma requirePositiveInteger_Inr [simp]:
  "requirePositiveInteger v f = Inr i \<longleftrightarrow> v = JNum (NInt i) \<and> positive_safe i"
  by (auto simp: requirePositiveInteger_def positive_safe_def split: jsval.splits jsnumber.splits if_splits)

lemma requireAutomaticReplayBatches_Inr [simp]:
  "requireAutomaticReplayBatches v = Inr i \<longleftrightarrow> v = JNum (NInt i) \<and> i \<in> {0, 1}"
  by (auto simp: requireAutomaticReplayBatches_def split: jsval.splits jsnumber.splits if_splits)

lemma requireObject_Inr [simp]: "requireObject v f = Inr w \<longleftrightarrow> isRecordObject v \<and> w = v"
  by (auto simp: requireObject_def)

lemma default_policy_ok: "policy_ok DEFAULT_DELIVERY_SAFETY_POLICY"
  by (simp add: policy_ok_def positive_safe_def is_safe_int_def max_safe_integer_def DEFAULT_DELIVERY_SAFETY_POLICY_def)

lemma parse_policy_ok: "parseDeliverySafetyPolicy input = Inr p \<Longrightarrow> policy_ok p"
  unfolding parseDeliverySafetyPolicy_def
  using default_policy_ok by (auto simp: policy_ok_def split: if_splits)

lemma parse_policy_json: "policy_ok p \<Longrightarrow> parseDeliverySafetyPolicy (policy_json p) = Inr p"
  unfolding parseDeliverySafetyPolicy_def andThen_Inr_iff if_cancel
  by (simp add: policy_json_def andThen_Inr_iff js_prop_def get_prop_def isRecordObject_def policy_ok_def)

section \<open>Rolling window ledger\<close>

record send =
  sent_at :: int
  sent_bytes :: int

type_synonym ledger = "send list"

definition prune :: "delivery_safety_policy \<Rightarrow> int \<Rightarrow> ledger \<Rightarrow> ledger" where
  "prune policy t sends = filter (\<lambda>send. t - sent_at send < windowMs (hard policy)) sends"

definition remainingRequests :: "delivery_safety_policy \<Rightarrow> ledger \<Rightarrow> int \<Rightarrow> int \<times> ledger" where
  "remainingRequests policy sends t =
     (let sends = prune policy t sends in (rollingRequests (hard policy) - int (length sends), sends))"

definition remainingBytes :: "delivery_safety_policy \<Rightarrow> ledger \<Rightarrow> int \<Rightarrow> int \<times> ledger" where
  "remainingBytes policy sends t =
     (let sends = prune policy t sends in (rollingSendBytes (hard policy) - sum_list (map sent_bytes sends), sends))"

definition record_send :: "delivery_safety_policy \<Rightarrow> ledger \<Rightarrow> int \<Rightarrow> int \<Rightarrow> ledger" where
  "record_send policy sends t bytes = prune policy t sends @ [\<lparr>sent_at = t, sent_bytes = bytes\<rparr>]"

lemma prune_prune: "t \<le> t' \<Longrightarrow> prune policy t' (prune policy t sends) = prune policy t' sends"
  unfolding prune_def filter_filter by (rule filter_cong) auto

lemma prune_append [simp]: "prune policy t (xs @ ys) = prune policy t xs @ prune policy t ys"
  by (simp add: prune_def)

text \<open>From time \<open>t\<close> on the ledger answers as the complete history would.\<close>

definition ledger_refines :: "delivery_safety_policy \<Rightarrow> int \<Rightarrow> ledger \<Rightarrow> ledger \<Rightarrow> bool" where
  "ledger_refines policy t sends history \<longleftrightarrow> (\<forall>t' \<ge> t. prune policy t' sends = prune policy t' history)"

lemma ledger_refinesI: "(\<And>t'. t \<le> t' \<Longrightarrow> prune policy t' sends = prune policy t' history) \<Longrightarrow> ledger_refines policy t sends history"
  by (simp add: ledger_refines_def)

lemma ledger_refines_reads:
  assumes "ledger_refines policy t sends history" "t \<le> t'"
  shows "remainingRequests policy sends t' = (rollingRequests (hard policy) - int (length (prune policy t' history)), prune policy t' history)"
    "remainingBytes policy sends t' =
       (rollingSendBytes (hard policy) - sum_list (map sent_bytes (prune policy t' history)), prune policy t' history)"
  using assms by (simp_all add: ledger_refines_def remainingRequests_def remainingBytes_def Let_def)

lemma ledger_refines_prune: "t \<le> t' \<Longrightarrow> ledger_refines policy t' (prune policy t' history) history"
  by (rule ledger_refinesI) (rule prune_prune)

lemma ledger_refines_record:
  assumes "ledger_refines policy t sends history" "t \<le> t'"
  shows "ledger_refines policy t' (record_send policy sends t' bytes) (history @ [\<lparr>sent_at = t', sent_bytes = bytes\<rparr>])"
  using assms by (intro ledger_refinesI) (simp add: record_send_def prune_prune ledger_refines_def)

text \<open>The sends inside the window that ends at \<open>t\<close>.\<close>

definition window :: "delivery_safety_policy \<Rightarrow> int \<Rightarrow> ledger \<Rightarrow> ledger" where
  "window policy t history = filter (\<lambda>s. sent_at s \<le> t \<and> t - sent_at s < windowMs (hard policy)) history"

definition within_ceilings :: "delivery_safety_policy \<Rightarrow> ledger \<Rightarrow> bool" where
  "within_ceilings policy history \<longleftrightarrow> (\<forall>t. int (length (window policy t history)) \<le> rollingRequests (hard policy) \<and>
     sum_list (map sent_bytes (window policy t history)) \<le> rollingSendBytes (hard policy))"

definition history_ok :: "delivery_safety_policy \<Rightarrow> int \<Rightarrow> ledger \<Rightarrow> bool" where
  "history_ok policy t history \<longleftrightarrow>
     (\<forall>s \<in> set history. sent_at s \<le> t \<and> 0 \<le> sent_bytes s) \<and> within_ceilings policy history"

lemma history_ok_later: "history_ok policy t history \<Longrightarrow> t \<le> t' \<Longrightarrow> history_ok policy t' history"
  by (auto simp: history_ok_def)

lemma prune_later_smaller:
  assumes "t \<le> t'"
  shows "length (prune policy t' history) \<le> length (prune policy t history)"
  using prune_prune [OF assms, of policy history] by (metis length_filter_le prune_def)

lemma prune_later_bytes:
  assumes "t \<le> t'" "\<forall>s \<in> set history. 0 \<le> sent_bytes s"
  shows "sum_list (map sent_bytes (prune policy t' history)) \<le> sum_list (map sent_bytes (prune policy t history))"
  using assms(2)
proof (induction history)
  case (Cons s history)
  then show ?case using assms(1) by (auto simp: prune_def)
qed (simp add: prune_def)

lemma window_le_prune:
  assumes "t \<le> t'" "\<forall>s \<in> set history. 0 \<le> sent_bytes s"
  shows "length (window policy t' history) \<le> length (prune policy t history)"
    "sum_list (map sent_bytes (window policy t' history)) \<le> sum_list (map sent_bytes (prune policy t history))"
  using assms by (induction history) (auto simp: window_def prune_def)

text \<open>A send that the ledger admits keeps the history within the ceilings.\<close>

lemma admitted_send:
  assumes ok: "history_ok policy t history" and ref: "ledger_refines policy t sends history"
    and times: "t \<le> t1" "t \<le> t2" "t1 \<le> t3" "t2 \<le> t3"
    and requests: "0 < fst (remainingRequests policy sends t1)"
    and bytes: "0 \<le> bytes" "bytes \<le> fst (remainingBytes policy sends t2)"
  shows "history_ok policy t3 (history @ [\<lparr>sent_at = t3, sent_bytes = bytes\<rparr>])"
proof -
  let ?s = "\<lparr>sent_at = t3, sent_bytes = bytes\<rparr>"
  have nonneg: "\<forall>s \<in> set history. 0 \<le> sent_bytes s" and le: "\<forall>s \<in> set history. sent_at s \<le> t3"
    using ok times by (auto simp: history_ok_def)
  have n: "int (length (prune policy t1 history)) < rollingRequests (hard policy)"
    using requests ledger_refines_reads(1) [OF ref times(1)] by simp
  have b: "sum_list (map sent_bytes (prune policy t2 history)) + bytes \<le> rollingSendBytes (hard policy)"
    using bytes ledger_refines_reads(2) [OF ref times(2)] by simp
  have "int (length (window policy t' (history @ [?s]))) \<le> rollingRequests (hard policy) \<and>
      sum_list (map sent_bytes (window policy t' (history @ [?s]))) \<le> rollingSendBytes (hard policy)" for t'
  proof (cases "t3 \<le> t'")
    case True
    with times have "t1 \<le> t'" "t2 \<le> t'" by simp_all
    note window_le_prune(1) [OF this(1) nonneg, of policy] window_le_prune(2) [OF this(2) nonneg, of policy]
    with n b bytes(1) show ?thesis by (auto simp: window_def)
  next
    case False
    then have "window policy t' (history @ [?s]) = window policy t' history" by (simp add: window_def)
    with ok show ?thesis by (simp add: history_ok_def within_ceilings_def)
  qed
  with le nonneg bytes(1) show ?thesis by (simp add: history_ok_def within_ceilings_def)
qed

lemma history_ok_Nil: "policy_ok policy \<Longrightarrow> history_ok policy t []"
  by (auto simp: history_ok_def within_ceilings_def window_def policy_ok_def positive_safe_def)

lemma ledger_refines_Nil: "ledger_refines policy t [] []"
  by (simp add: ledger_refines_def)

end
