(* ===== verification/Outbox.thy ===== *)
theory Outbox
  imports Delivery
begin

text \<open>
  The delivery outbox of \<^verbatim>\<open>storage/src/outbox-shared.ts\<close> and \<^verbatim>\<open>storage/src/outbox-file.ts\<close>.
  A payload is an untrusted \<open>jsval\<close>, a row is the record \<open>outbox_entry\<close>, and the snapshot
  file is the JSON value it parses to (\<open>None\<close> when it does not exist). Every operation of the
  file adapter reads the snapshot, computes on the rows and publishes the rows it changed;
  an error leaves the snapshot as it was. The lock file and the rename make each operation
  atomic and are not represented otherwise.

  Host parameters (\<open>outbox_env\<close>): the clock, \<open>Date.parse\<close>, identifiers,
  \<open>String.prototype.localeCompare\<close> and the character U+2026, which lies outside the modelled
  code units. Sorting is the stable insertion sort by the comparator of the source.
\<close>

section \<open>Rows\<close>

text \<open>\<open>OForeign v\<close>: a stored status that is no string, though its text is one of the five names
  (such as a one-element array); no comparison of the code matches it.\<close>

datatype outbox_status = OPending | OLeased | OPaused | ODispatched | ODead | OForeign jsval

record outbox_entry =
  oe_id :: string
  oe_tenantId :: string
  oe_payload :: jsval
  oe_availableAt :: string
  oe_status :: outbox_status
  oe_attempts :: int
  oe_createdAt :: string
  oe_updatedAt :: string
  oe_dispatchedAt :: "string option"
  oe_lastError :: "string option"
  oe_leaseId :: "string option"
  oe_leaseExpiresAt :: "string option"
  oe_circuitId :: "string option"

record outbox_input =
  oi_id :: string
  oi_tenantId :: string
  oi_payload :: jsval
  oi_availableAt :: "date_input option"

record outbox_list_options =
  ol_tenantId :: "string option"
  ol_limit :: "jsnumber option"
  ol_now :: "date_input option"

record outbox_claim_options =
  cl_tenantId :: "string option"
  cl_now :: "date_input option"
  cl_leaseId :: string
  cl_leaseMs :: jsnumber
  cl_limit :: jsnumber
  cl_maxPayloadBytes :: jsnumber

record outbox_env =
  ox_host :: host
  localeCompare :: "string \<Rightarrow> string \<Rightarrow> int"
  ox_ellipsis :: char

section \<open>Shared helpers\<close>

text \<open>\<open>new Date(ms)\<close> is invalid outside the range of ECMAScript times.\<close>

definition time_clip :: "int \<Rightarrow> int option" where
  "time_clip t = (if \<bar>t\<bar> \<le> 8640000000000000 then Some t else None)"

definition normalizeTimestamp :: "host \<Rightarrow> date_input \<Rightarrow> string throws" where
  "normalizeTimestamp h value =
     (case Option.bind (case value of DateString s \<Rightarrow> parseDate h s | DateObject d \<Rightarrow> d) time_clip of
        None \<Rightarrow> Inl (TypeError ''timestamp is invalid'') | Some t \<Rightarrow> Inr (iso_of_ms t))"

text \<open>\<open>normalizeDate\<close> of a value read from JSON, which is converted by \<open>String(value)\<close>.\<close>

definition normalizeStored :: "host \<Rightarrow> jsval \<Rightarrow> string throws" where
  "normalizeStored h value = normalizeTimestamp h (case value of JDate d \<Rightarrow> DateObject d | _ \<Rightarrow> DateString (to_js_string value))"

text \<open>\<open>options.now ?? new Date()\<close>\<close>

definition date_or_now :: "host \<Rightarrow> date_input option \<Rightarrow> date_input" where
  "date_or_now h value = (case value of Some d \<Rightarrow> d | None \<Rightarrow> DateObject (Some (now h)))"

definition requireNonEmpty :: "jsval \<Rightarrow> string \<Rightarrow> string throws" where
  "requireNonEmpty value field = (case value of
     JStr s \<Rightarrow> if blank s then Inl (TypeError (field @ '' is required'')) else Inr s
   | _ \<Rightarrow> Inl (TypeError (field @ '' is required'')))"

definition assertPayloadTenant :: "jsval \<Rightarrow> string option \<Rightarrow> string throws" where
  "assertPayloadTenant tenant expected =
     andThen (requireNonEmpty tenant ''scope.tenantId'') (\<lambda>actual.
     if expected \<noteq> None \<and> expected \<noteq> Some actual then Inl (TypeError ''outbox payload tenant mismatch'') else Inr actual)"

text \<open>\<open>record.scope?.tenantId\<close>; reading a property of \<open>null\<close> or \<open>undefined\<close> throws.\<close>

definition member_tenant :: "jsval \<Rightarrow> jsval throws" where
  "member_tenant member =
     (if member = JUndefined \<or> member = JNull then Inl (TypeError ''Cannot read properties of undefined'')
      else Inr (js_prop (js_prop member ''scope'') ''tenantId''))"

fun payload_tenant :: "jsval list \<Rightarrow> string option \<Rightarrow> string option throws" where
  "payload_tenant [] seen = Inr seen"
| "payload_tenant (member # rest) seen =
     andThen (member_tenant member) (\<lambda>t.
     andThen (assertPayloadTenant t seen) (\<lambda>actual. payload_tenant rest (Some actual)))"

definition OUTBOX_SCHEMA_VERSION :: string where "OUTBOX_SCHEMA_VERSION = ''2026-06-23''"

definition elements :: "jsval \<Rightarrow> jsval list" where
  "elements v = (case v of JArr vs \<Rightarrow> vs | _ \<Rightarrow> [])"

definition is_array :: "jsval \<Rightarrow> bool" where
  "is_array v \<longleftrightarrow> (case v of JArr _ \<Rightarrow> True | _ \<Rightarrow> False)"

definition validatePayload :: "jsval \<Rightarrow> string option \<Rightarrow> unit throws" where
  "validatePayload payload expectedTenantId =
     andThen (throwUnless (isRecordObject payload) (TypeError ''outbox payload must be an object'')) (\<lambda>_.
     andThen (throwUnless (js_prop payload ''schemaVersion'' = JStr OUTBOX_SCHEMA_VERSION)
        (TypeError ''outbox payload schemaVersion is unsupported'')) (\<lambda>_.
     andThen (throwUnless (js_prop payload ''mutationBinding'' \<in>
          {JStr ''same_transaction'', JStr ''not_transaction_bound'', JStr ''best_effort''})
        (TypeError ''outbox payload mutationBinding is unsupported'')) (\<lambda>_.
     andThen (throwUnless (is_array (js_prop payload ''records'') \<and> is_array (js_prop payload ''edges''))
        (TypeError ''outbox payload records and edges are required'')) (\<lambda>_.
     andThen (payload_tenant (elements (js_prop payload ''records'')) expectedTenantId) (\<lambda>tenantId.
     andThen (payload_tenant (elements (js_prop payload ''edges'')) tenantId) (\<lambda>_. Inr ()))))))"

text \<open>UTF-8 length of a text of code units below 256.\<close>

definition utf8_length :: "string \<Rightarrow> int" where
  "utf8_length s = sum_list (map (\<lambda>c. if code_unit c < 128 then 1 else 2) s)"

definition outboxPayloadByteLength :: "jsval \<Rightarrow> int throws" where
  "outboxPayloadByteLength payload =
     andThen (validatePayload payload None) (\<lambda>_.
     Inr (utf8_length (stringify (JObj [(''events'', js_prop payload ''records''), (''edges'', js_prop payload ''edges'')]))))"

text \<open>\<open>JSON.parse(JSON.stringify(value))\<close>\<close>

fun json_clone :: "jsval \<Rightarrow> jsval"
  and clone_elems :: "jsval list \<Rightarrow> jsval list"
  and clone_members :: "(string \<times> jsval) list \<Rightarrow> (string \<times> jsval) list" where
  "json_clone (JNum n) = (if is_finite_number n then JNum n else JNull)"
| "json_clone (JArr vs) = JArr (clone_elems vs)"
| "json_clone (JObj kvs) = JObj (clone_members kvs)"
| "json_clone (JDate d) = (case d of None \<Rightarrow> JNull | Some t \<Rightarrow> JStr (iso_of_ms t))"
| "json_clone v = v"
| "clone_elems [] = []"
| "clone_elems (v # vs) = (if is_omitted v then JNull else json_clone v) # clone_elems vs"
| "clone_members [] = []"
| "clone_members ((k, v) # kvs) =
     (if is_omitted v then clone_members kvs else (k, json_clone v) # clone_members kvs)"

text \<open>\<open>/^[A-Za-z0-9_-]{1,128}$/\<close>\<close>

definition is_circuit_char :: "char \<Rightarrow> bool" where
  "is_circuit_char c \<longleftrightarrow> is_upper c \<or> is_lower c \<or> is_digit c \<or> c \<in> set ''_-''"

definition sanitizeCircuitId :: "string option \<Rightarrow> string option" where
  "sanitizeCircuitId value = (case value of
     None \<Rightarrow> None
   | Some s \<Rightarrow> if 1 \<le> length s \<and> length s \<le> 128 \<and> list_all is_circuit_char s then Some s else None)"

definition resolveCircuitId :: "host \<Rightarrow> string option \<Rightarrow> string" where
  "resolveCircuitId h value = (case sanitizeCircuitId value of Some s \<Rightarrow> s | None \<Rightarrow> ''local_'' @ randomUUID h)"

definition createPendingEntry :: "host \<Rightarrow> outbox_input \<Rightarrow> outbox_entry throws" where
  "createPendingEntry h input =
     andThen (assertNonEmpty (oi_tenantId input) ''tenantId'') (\<lambda>_.
     andThen (assertNonEmpty (oi_id input) ''id'') (\<lambda>_.
     andThen (validatePayload (oi_payload input) (Some (oi_tenantId input))) (\<lambda>_.
     andThen (normalizeTimestamp h (DateObject (Some (now h)))) (\<lambda>at.
     andThen (normalizeTimestamp h (case oi_availableAt input of Some d \<Rightarrow> d | None \<Rightarrow> DateString at)) (\<lambda>availableAt.
     Inr \<lparr>oe_id = oi_id input, oe_tenantId = oi_tenantId input, oe_payload = json_clone (oi_payload input),
       oe_availableAt = availableAt, oe_status = OPending, oe_attempts = 0, oe_createdAt = at, oe_updatedAt = at,
       oe_dispatchedAt = None, oe_lastError = None, oe_leaseId = None, oe_leaseExpiresAt = None, oe_circuitId = None\<rparr>)))))"

section \<open>Error summaries\<close>

text \<open>A thrown value: an \<open>Error\<close> with its name and message, or anything else.\<close>

datatype thrown = ThrownError string string | ThrownValue

definition thrown_of :: "js_error \<Rightarrow> thrown" where
  "thrown_of e = (case e of TypeError m \<Rightarrow> ThrownError ''TypeError'' m | RangeError m \<Rightarrow> ThrownError ''RangeError'' m
     | SyntaxError m \<Rightarrow> ThrownError ''SyntaxError'' m | ExternalError m \<Rightarrow> ThrownError ''Error'' m)"

text \<open>\<open>replace(/\s+/g, " ")\<close>; the flag says that the previous character was white space.\<close>

fun collapse_spaces :: "bool \<Rightarrow> string \<Rightarrow> string" where
  "collapse_spaces after [] = []"
| "collapse_spaces after (c # s) =
     (if is_js_space c then (if after then collapse_spaces True s else CHR '' '' # collapse_spaces True s)
      else c # collapse_spaces False s)"

definition trim :: "string \<Rightarrow> string" where
  "trim s = rev (dropWhile is_js_space (rev (dropWhile is_js_space s)))"

definition MAX_LAST_ERROR_LENGTH :: nat where "MAX_LAST_ERROR_LENGTH = 256"

definition errorMessage :: "char \<Rightarrow> thrown \<Rightarrow> string" where
  "errorMessage ellipsis error = (case error of
     ThrownValue \<Rightarrow> ''outbox dispatch failed''
   | ThrownError error_name text \<Rightarrow>
       let message = trim (collapse_spaces False text);
           name = (if blank error_name then ''Error'' else error_name);
           summary = (if message \<noteq> [] then name @ '': '' @ message else name)
       in if MAX_LAST_ERROR_LENGTH < length summary then take (MAX_LAST_ERROR_LENGTH - 1) summary @ [ellipsis] else summary)"

section \<open>Stored rows\<close>

definition status_json :: "outbox_status \<Rightarrow> jsval" where
  "status_json st = (case st of OPending \<Rightarrow> JStr ''pending'' | OLeased \<Rightarrow> JStr ''leased'' | OPaused \<Rightarrow> JStr ''paused''
     | ODispatched \<Rightarrow> JStr ''dispatched'' | ODead \<Rightarrow> JStr ''dead'' | OForeign v \<Rightarrow> v)"

definition status_of_json :: "jsval \<Rightarrow> outbox_status" where
  "status_of_json v =
     (if v = JStr ''pending'' then OPending else if v = JStr ''leased'' then OLeased
      else if v = JStr ''paused'' then OPaused else if v = JStr ''dispatched'' then ODispatched
      else if v = JStr ''dead'' then ODead else OForeign v)"

definition OUTBOX_STATUSES :: "string list" where
  "OUTBOX_STATUSES = [''pending'', ''leased'', ''paused'', ''dispatched'', ''dead'']"

definition validateStoredEntry :: "host \<Rightarrow> jsval \<Rightarrow> unit throws" where
  "validateStoredEntry h entry =
     andThen (throwUnless (isRecordObject entry) (TypeError ''stored outbox entry is invalid'')) (\<lambda>_.
     andThen (requireNonEmpty (js_prop entry ''id'') ''id'') (\<lambda>_.
     andThen (requireNonEmpty (js_prop entry ''tenantId'') ''tenantId'') (\<lambda>tenant.
     andThen (validatePayload (js_prop entry ''payload'') (Some tenant)) (\<lambda>_.
     andThen (throwUnless (to_js_string (js_prop entry ''status'') \<in> set OUTBOX_STATUSES)
        (TypeError ''stored outbox status is invalid'')) (\<lambda>_.
     andThen (throwUnless (case js_prop entry ''attempts'' of JNum (NInt i) \<Rightarrow> 0 \<le> i | _ \<Rightarrow> False)
        (TypeError ''stored outbox attempts is invalid'')) (\<lambda>_.
     andThen (normalizeStored h (js_prop entry ''availableAt'')) (\<lambda>_.
     andThen (normalizeStored h (js_prop entry ''createdAt'')) (\<lambda>_.
     andThen (normalizeStored h (js_prop entry ''updatedAt'')) (\<lambda>_.
     andThen (if js_prop entry ''dispatchedAt'' \<noteq> JUndefined then normalizeStored h (js_prop entry ''dispatchedAt'') else Inr []) (\<lambda>_.
     andThen (if js_prop entry ''status'' = JStr ''leased'' then
          andThen (requireNonEmpty (js_prop entry ''leaseId'') ''leaseId'') (\<lambda>_.
          andThen (normalizeStored h (js_prop entry ''leaseExpiresAt'')) (\<lambda>_. Inr ()))
        else throwUnless (js_prop entry ''leaseId'' = JUndefined \<and> js_prop entry ''leaseExpiresAt'' = JUndefined)
          (TypeError ''stored outbox lease metadata is invalid'')) (\<lambda>_.
     andThen (throwUnless (js_prop entry ''status'' = JStr ''paused'' \<longrightarrow>
          (case js_prop entry ''circuitId'' of JStr s \<Rightarrow> sanitizeCircuitId (Some s) \<noteq> None | _ \<Rightarrow> False))
        (TypeError ''stored paused outbox circuit id is invalid'')) (\<lambda>_.
     throwUnless (js_prop entry ''status'' \<noteq> JStr ''paused'' \<longrightarrow> js_prop entry ''circuitId'' = JUndefined)
        (TypeError ''stored outbox circuit id is invalid'')))))))))))))"

definition optional_text :: "jsval \<Rightarrow> string option" where
  "optional_text v = (if v = JUndefined then None else Some (to_js_string v))"

text \<open>A validated row, read as a record; timestamps and the last error are texts in every row
  that \<open>writeEntries\<close> has written.\<close>

definition entry_of_json :: "jsval \<Rightarrow> outbox_entry" where
  "entry_of_json v = \<lparr>oe_id = to_js_string (js_prop v ''id''), oe_tenantId = to_js_string (js_prop v ''tenantId''),
     oe_payload = js_prop v ''payload'', oe_availableAt = to_js_string (js_prop v ''availableAt''),
     oe_status = status_of_json (js_prop v ''status''),
     oe_attempts = (case js_prop v ''attempts'' of JNum (NInt i) \<Rightarrow> i | _ \<Rightarrow> 0),
     oe_createdAt = to_js_string (js_prop v ''createdAt''), oe_updatedAt = to_js_string (js_prop v ''updatedAt''),
     oe_dispatchedAt = optional_text (js_prop v ''dispatchedAt''), oe_lastError = optional_text (js_prop v ''lastError''),
     oe_leaseId = optional_text (js_prop v ''leaseId''), oe_leaseExpiresAt = optional_text (js_prop v ''leaseExpiresAt''),
     oe_circuitId = optional_text (js_prop v ''circuitId'')\<rparr>"

definition text_member :: "string \<Rightarrow> string option \<Rightarrow> (string \<times> jsval) list" where
  "text_member k v = (case v of None \<Rightarrow> [] | Some s \<Rightarrow> [(k, JStr s)])"

definition entry_json :: "outbox_entry \<Rightarrow> jsval" where
  "entry_json e = JObj
     ([(''id'', JStr (oe_id e)), (''tenantId'', JStr (oe_tenantId e)), (''payload'', oe_payload e),
       (''availableAt'', JStr (oe_availableAt e)), (''status'', status_json (oe_status e)),
       (''attempts'', JNum (NInt (oe_attempts e))), (''createdAt'', JStr (oe_createdAt e)), (''updatedAt'', JStr (oe_updatedAt e))]
      @ text_member ''dispatchedAt'' (oe_dispatchedAt e) @ text_member ''lastError'' (oe_lastError e)
      @ text_member ''leaseId'' (oe_leaseId e) @ text_member ''leaseExpiresAt'' (oe_leaseExpiresAt e)
      @ text_member ''circuitId'' (oe_circuitId e))"

section \<open>Order, filters and guards\<close>

definition compareEntries :: "outbox_env \<Rightarrow> outbox_entry \<Rightarrow> outbox_entry \<Rightarrow> int" where
  "compareEntries env left right =
     (let c = localeCompare env (oe_createdAt left) (oe_createdAt right) in
      if c \<noteq> 0 then c else localeCompare env (oe_id left) (oe_id right))"

text \<open>The stable sort of \<open>Array.prototype.sort\<close> by a comparator.\<close>

fun insert_by :: "('a \<Rightarrow> 'a \<Rightarrow> int) \<Rightarrow> 'a \<Rightarrow> 'a list \<Rightarrow> 'a list" where
  "insert_by cmp x [] = [x]"
| "insert_by cmp x (y # ys) = (if cmp x y \<le> 0 then x # y # ys else y # insert_by cmp x ys)"

definition sort_by :: "('a \<Rightarrow> 'a \<Rightarrow> int) \<Rightarrow> 'a list \<Rightarrow> 'a list" where
  "sort_by cmp xs = foldr (insert_by cmp) xs []"

definition valid_limit :: "jsnumber option \<Rightarrow> bool" where
  "valid_limit v = (case v of None \<Rightarrow> True | Some (NInt i) \<Rightarrow> 0 \<le> i | Some _ \<Rightarrow> False)"

definition validateListOptions :: "host \<Rightarrow> outbox_list_options \<Rightarrow> unit throws" where
  "validateListOptions h options =
     andThen (case ol_tenantId options of None \<Rightarrow> Inr () | Some t \<Rightarrow> assertNonEmpty t ''tenantId'') (\<lambda>_.
     andThen (throwUnless (valid_limit (ol_limit options)) (TypeError ''limit must be a non-negative integer'')) (\<lambda>_.
     case ol_now options of None \<Rightarrow> Inr () | Some d \<Rightarrow> andThen (normalizeTimestamp h d) (\<lambda>_. Inr ())))"

definition requirePositive :: "string \<Rightarrow> jsnumber \<Rightarrow> int throws" where
  "requirePositive field value = (case value of
     NInt i \<Rightarrow> if is_safe_int i \<and> 0 < i then Inr i else Inl (TypeError (field @ '' must be a positive safe integer''))
   | _ \<Rightarrow> Inl (TypeError (field @ '' must be a positive safe integer'')))"

text \<open>The validated lease time, row limit and byte bound.\<close>

definition validateClaimOptions :: "host \<Rightarrow> outbox_claim_options \<Rightarrow> (int \<times> int \<times> int) throws" where
  "validateClaimOptions h options =
     andThen (validateListOptions h \<lparr>ol_tenantId = cl_tenantId options, ol_limit = Some (cl_limit options), ol_now = cl_now options\<rparr>) (\<lambda>_.
     andThen (assertNonEmpty (cl_leaseId options) ''leaseId'') (\<lambda>_.
     andThen (requirePositive ''leaseMs'' (cl_leaseMs options)) (\<lambda>leaseMs.
     andThen (requirePositive ''limit'' (cl_limit options)) (\<lambda>limit.
     andThen (requirePositive ''maxPayloadBytes'' (cl_maxPayloadBytes options)) (\<lambda>maxPayloadBytes.
     Inr (leaseMs, limit, maxPayloadBytes))))))"

definition filterEntries :: "outbox_env \<Rightarrow> outbox_entry list \<Rightarrow> string option \<Rightarrow> jsnumber option \<Rightarrow> outbox_entry list" where
  "filterEntries env entries tenant limit =
     (let scoped = sort_by (compareEntries env)
        (case tenant of None \<Rightarrow> entries | Some t \<Rightarrow> filter (\<lambda>entry. oe_tenantId entry = t) entries)
      in case limit of Some (NInt n) \<Rightarrow> take (nat n) scoped | _ \<Rightarrow> scoped)"

definition resolveDisposition :: "bool option \<Rightarrow> delivery_disposition option \<Rightarrow> delivery_disposition throws" where
  "resolveDisposition retryable disposition =
     (let legacy = map_option (\<lambda>r. if r then Retry else Reject) retryable in
      if legacy \<noteq> None \<and> disposition \<noteq> None \<and> legacy \<noteq> disposition
      then Inl (TypeError ''retryable and disposition disagree'')
      else Inr (case disposition of Some d \<Rightarrow> d | None \<Rightarrow> (case legacy of Some d \<Rightarrow> d | None \<Rightarrow> Retry)))"

definition assertLease :: "outbox_entry \<Rightarrow> string option \<Rightarrow> unit throws" where
  "assertLease entry leaseId =
     (if oe_status entry = OLeased
      then throwUnless (leaseId \<noteq> None \<and> leaseId = oe_leaseId entry) (TypeError ''outbox lease does not match'')
      else throwUnless (leaseId = None) (TypeError ''outbox lease is no longer active''))"

definition clearLease :: "outbox_entry \<Rightarrow> outbox_entry" where
  "clearLease entry = entry\<lparr>oe_leaseId := None, oe_leaseExpiresAt := None\<rparr>"

definition sameEnqueueInput :: "outbox_entry \<Rightarrow> outbox_entry \<Rightarrow> bool throws" where
  "sameEnqueueInput left right =
     (if oe_tenantId left \<noteq> oe_tenantId right then Inr False
      else andThen (canonicalJson (oe_payload left)) (\<lambda>l.
        andThen (canonicalJson (oe_payload right)) (\<lambda>r. Inr (l = r))))"

section \<open>The file adapter\<close>

type_synonym snapshot = "jsval option"

definition readEntries :: "outbox_env \<Rightarrow> snapshot \<Rightarrow> outbox_entry list throws" where
  "readEntries env file = (case file of
     None \<Rightarrow> Inr []
   | Some (JArr rows) \<Rightarrow>
       andThen (collect (map (validateStoredEntry (ox_host env)) rows)) (\<lambda>_.
       Inr (sort_by (compareEntries env) (map entry_of_json rows)))
   | Some _ \<Rightarrow> Inl (TypeError ''outbox file is not a row array''))"

definition writeEntries :: "outbox_env \<Rightarrow> outbox_entry list \<Rightarrow> snapshot" where
  "writeEntries env entries = Some (JArr (map entry_json (sort_by (compareEntries env) entries)))"

text \<open>The constructor validates the backlog ceiling; \<open>None\<close> is unbounded.\<close>

definition createFileOutboxAdapter :: "jsnumber option \<Rightarrow> int option throws" where
  "createFileOutboxAdapter maxQueuedBytes = (case maxQueuedBytes of
     None \<Rightarrow> Inr None
   | Some n \<Rightarrow> if is_safe_integer_from 1 n then Inr (case n of NInt i \<Rightarrow> Some i | _ \<Rightarrow> None)
       else Inl (TypeError ''maxQueuedBytes must be a positive safe integer''))"

text \<open>The byte total of the undelivered rows.\<close>

fun backlog :: "outbox_entry list \<Rightarrow> int throws" where
  "backlog [] = Inr 0"
| "backlog (e # es) =
     (if oe_status e = ODispatched then backlog es
      else andThen (outboxPayloadByteLength (oe_payload e)) (\<lambda>n. andThen (backlog es) (\<lambda>total. Inr (n + total))))"

definition queue_full :: "int \<Rightarrow> js_error" where
  "queue_full maxQueuedBytes = ExternalError (''outbox backlog reached the '' @ show_int maxQueuedBytes
     @ ''-byte ceiling; drain or resume delivery before enqueueing'')"

definition enqueue ::
  "outbox_env \<Rightarrow> int option \<Rightarrow> outbox_input \<Rightarrow> outbox_entry list \<Rightarrow> (outbox_entry \<times> outbox_entry list) throws" where
  "enqueue env maxQueuedBytes input staged =
     andThen (createPendingEntry (ox_host env) input) (\<lambda>entry.
     case find (\<lambda>candidate. oe_id candidate = oe_id entry) staged of
       Some existing \<Rightarrow>
         andThen (sameEnqueueInput existing entry) (\<lambda>same.
         if same then Inr (existing, staged) else Inl (TypeError ''outbox idempotency conflict''))
     | None \<Rightarrow>
         andThen (case maxQueuedBytes of
              None \<Rightarrow> Inr ()
            | Some ceiling \<Rightarrow>
                andThen (backlog staged) (\<lambda>queued.
                andThen (outboxPayloadByteLength (oe_payload entry)) (\<lambda>n.
                throwUnless (queued + n \<le> ceiling) (queue_full ceiling)))) (\<lambda>_.
         Inr (entry, sort_by (compareEntries env) (staged @ [entry]))))"

text \<open>The host callback of \<open>transaction\<close>: it may enqueue, look at each outcome (and recover from
  a refusal) and finally return or throw.\<close>

datatype 'a host_program =
    Return 'a
  | Throw js_error
  | Enqueue outbox_input "outbox_entry throws \<Rightarrow> 'a host_program"

primrec run_program ::
  "outbox_env \<Rightarrow> int option \<Rightarrow> 'a host_program \<Rightarrow> outbox_entry list \<Rightarrow> ('a \<times> outbox_entry list) throws" where
  "run_program env ceiling (Return x) staged = Inr (x, staged)"
| "run_program env ceiling (Throw e) staged = Inl e"
| "run_program env ceiling (Enqueue input k) staged =
     (case enqueue env ceiling input staged of
        Inl e \<Rightarrow> run_program env ceiling (k (Inl e)) staged
      | Inr (entry, staged') \<Rightarrow> run_program env ceiling (k (Inr entry)) staged')"

definition transaction :: "outbox_env \<Rightarrow> int option \<Rightarrow> 'a host_program \<Rightarrow> snapshot \<Rightarrow> ('a \<times> snapshot) throws" where
  "transaction env ceiling run file =
     andThen (readEntries env file) (\<lambda>entries.
     andThen (run_program env ceiling run entries) (\<lambda>(result, staged).
     Inr (result, writeEntries env staged)))"

definition list_entries :: "outbox_env \<Rightarrow> outbox_list_options \<Rightarrow> snapshot \<Rightarrow> outbox_entry list throws" where
  "list_entries env options file =
     andThen (validateListOptions (ox_host env) options) (\<lambda>_.
     andThen (readEntries env file) (\<lambda>entries.
     Inr (filterEntries env entries (ol_tenantId options) (ol_limit options))))"

definition paused_tenants :: "outbox_entry list \<Rightarrow> string set" where
  "paused_tenants entries = set (map oe_tenantId (filter (\<lambda>e. oe_status e = OPaused) entries))"

definition listDispatchable :: "outbox_env \<Rightarrow> outbox_list_options \<Rightarrow> snapshot \<Rightarrow> outbox_entry list throws" where
  "listDispatchable env options file =
     andThen (validateListOptions (ox_host env) options) (\<lambda>_.
     andThen (normalizeTimestamp (ox_host env) (date_or_now (ox_host env) (ol_now options))) (\<lambda>at.
     andThen (readEntries env file) (\<lambda>entries.
     Inr (filterEntries env
       (filter (\<lambda>e. oe_tenantId e \<notin> paused_tenants entries \<and> oe_status e = OPending \<and> oe_availableAt e \<le> at) entries)
       (ol_tenantId options) (ol_limit options)))))"

section \<open>Claims\<close>

definition lease_expiry :: "host \<Rightarrow> string \<Rightarrow> int \<Rightarrow> string throws" where
  "lease_expiry h at leaseMs = toISOString (Option.bind (parseDate h at) (\<lambda>t. time_clip (t + leaseMs)))"

definition lease_row :: "outbox_entry \<Rightarrow> string \<Rightarrow> string \<Rightarrow> string \<Rightarrow> outbox_entry" where
  "lease_row entry leaseId expiresAt at = entry\<lparr>oe_status := OLeased, oe_leaseId := Some leaseId,
     oe_leaseExpiresAt := Some expiresAt, oe_availableAt := expiresAt, oe_updatedAt := at\<rparr>"

text \<open>Tenants with an unexpired lease.\<close>

definition leased_tenants :: "string \<Rightarrow> outbox_entry list \<Rightarrow> string set" where
  "leased_tenants at entries = set (map oe_tenantId (filter (\<lambda>e. oe_status e = OLeased \<and> at < oe_availableAt e) entries))"

definition claimable :: "string \<Rightarrow> string set \<Rightarrow> outbox_entry \<Rightarrow> bool" where
  "claimable at blocked e \<longleftrightarrow> oe_tenantId e \<notin> blocked \<and>
     (oe_status e = OPending \<and> oe_availableAt e \<le> at \<or> oe_status e = OLeased \<and> oe_availableAt e \<le> at)"

text \<open>The claiming loop. A candidate carries its position in the snapshot, where it is updated.\<close>

fun claim_loop ::
  "host \<Rightarrow> string \<Rightarrow> string \<Rightarrow> int \<Rightarrow> int \<Rightarrow> int \<Rightarrow> string set \<Rightarrow> outbox_entry list \<Rightarrow> int \<Rightarrow> outbox_entry list
     \<Rightarrow> (nat \<times> outbox_entry) list \<Rightarrow> (outbox_entry list \<times> outbox_entry list) throws" where
  "claim_loop h at leaseId leaseMs limit maxBytes blocked claims bytes entries [] = Inr (claims, entries)"
| "claim_loop h at leaseId leaseMs limit maxBytes blocked claims bytes entries ((i, entry) # rest) =
     (if limit \<le> int (length claims) then Inr (claims, entries)
      else if oe_tenantId entry \<in> blocked
        then claim_loop h at leaseId leaseMs limit maxBytes blocked claims bytes entries rest
      else andThen (outboxPayloadByteLength (oe_payload entry)) (\<lambda>entryBytes.
        if maxBytes < bytes + entryBytes then Inr (claims, entries)
        else andThen (lease_expiry h at leaseMs) (\<lambda>expiresAt.
          let leased = lease_row entry leaseId expiresAt at in
          claim_loop h at leaseId leaseMs limit maxBytes (insert (oe_tenantId entry) blocked) (claims @ [leased])
            (bytes + entryBytes) (entries[i := leased]) rest)))"

definition claim_candidates :: "outbox_env \<Rightarrow> string \<Rightarrow> string set \<Rightarrow> string option \<Rightarrow> outbox_entry list \<Rightarrow> (nat \<times> outbox_entry) list" where
  "claim_candidates env at blocked tenant entries =
     sort_by (\<lambda>a b. compareEntries env (snd a) (snd b))
       (filter (\<lambda>(i, e). claimable at blocked e \<and> (case tenant of None \<Rightarrow> True | Some t \<Rightarrow> oe_tenantId e = t))
         (zip [0..<length entries] entries))"

definition claim_rows ::
  "outbox_env \<Rightarrow> string \<Rightarrow> string option \<Rightarrow> string \<Rightarrow> int \<Rightarrow> int \<Rightarrow> int \<Rightarrow> outbox_entry list \<Rightarrow> (outbox_entry list \<times> outbox_entry list) throws" where
  "claim_rows env at tenant leaseId leaseMs limit maxBytes entries =
     (let blocked = paused_tenants entries \<union> leased_tenants at entries in
      claim_loop (ox_host env) at leaseId leaseMs limit maxBytes blocked [] 0 entries (claim_candidates env at blocked tenant entries))"

definition claimDispatchable :: "outbox_env \<Rightarrow> outbox_claim_options \<Rightarrow> snapshot \<Rightarrow> (outbox_entry list \<times> snapshot) throws" where
  "claimDispatchable env options file =
     andThen (validateClaimOptions (ox_host env) options) (\<lambda>(leaseMs, limit, maxBytes).
     andThen (readEntries env file) (\<lambda>entries.
     andThen (normalizeTimestamp (ox_host env) (date_or_now (ox_host env) (cl_now options))) (\<lambda>at.
     andThen (claim_rows env at (cl_tenantId options) (cl_leaseId options) leaseMs limit maxBytes entries) (\<lambda>(claims, entries').
     Inr (claims, if claims \<noteq> [] then writeEntries env entries' else file)))))"

section \<open>Settlement\<close>

text \<open>\<open>findEntry\<close> and an update of the row it found.\<close>

definition findEntry :: "outbox_entry list \<Rightarrow> string \<Rightarrow> outbox_entry throws" where
  "findEntry entries rowId = (case find (\<lambda>candidate. oe_id candidate = rowId) entries of
     None \<Rightarrow> Inl (TypeError ''outbox entry not found'') | Some entry \<Rightarrow> Inr entry)"

fun put_entry :: "string \<Rightarrow> outbox_entry \<Rightarrow> outbox_entry list \<Rightarrow> outbox_entry list" where
  "put_entry rowId e [] = []"
| "put_entry rowId e (x # xs) = (if oe_id x = rowId then e # xs else x # put_entry rowId e xs)"

definition dispatched_row :: "outbox_entry \<Rightarrow> string \<Rightarrow> outbox_entry" where
  "dispatched_row entry at = clearLease (entry\<lparr>oe_status := ODispatched, oe_dispatchedAt := Some at, oe_updatedAt := at,
     oe_lastError := None, oe_circuitId := None\<rparr>)"

definition dispatch_row ::
  "outbox_env \<Rightarrow> string \<Rightarrow> string option \<Rightarrow> date_input option \<Rightarrow> outbox_entry list \<Rightarrow> (outbox_entry \<times> outbox_entry list) throws" where
  "dispatch_row env rowId leaseId dispatchedAt entries =
     andThen (findEntry entries rowId) (\<lambda>entry.
     andThen (assertLease entry leaseId) (\<lambda>_.
     andThen (normalizeTimestamp (ox_host env) (date_or_now (ox_host env) dispatchedAt)) (\<lambda>at.
     let settled = dispatched_row entry at in Inr (settled, put_entry rowId settled entries))))"

definition markDispatched ::
  "outbox_env \<Rightarrow> string \<Rightarrow> string option \<Rightarrow> date_input option \<Rightarrow> snapshot \<Rightarrow> (outbox_entry \<times> snapshot) throws" where
  "markDispatched env rowId leaseId dispatchedAt file =
     andThen (assertNonEmpty rowId ''id'') (\<lambda>_.
     andThen (readEntries env file) (\<lambda>entries.
     andThen (dispatch_row env rowId leaseId dispatchedAt entries) (\<lambda>(settled, entries').
     Inr (settled, writeEntries env entries'))))"

record fail_options =
  fo_leaseId :: "string option"
  fo_now :: "date_input option"
  fo_availableAt :: "date_input option"
  fo_retryable :: "bool option"
  fo_disposition :: "delivery_disposition option"
  fo_circuitId :: "string option"

definition failed_row :: "outbox_env \<Rightarrow> thrown \<Rightarrow> fail_options \<Rightarrow> outbox_entry \<Rightarrow> outbox_entry throws" where
  "failed_row env error options entry =
     andThen (normalizeTimestamp (ox_host env) (date_or_now (ox_host env) (fo_now options))) (\<lambda>at.
     andThen (resolveDisposition (fo_retryable options) (fo_disposition options)) (\<lambda>disposition.
     let failed = entry\<lparr>oe_attempts := oe_attempts entry + 1, oe_updatedAt := at,
           oe_lastError := Some (errorMessage (ox_ellipsis env) error), oe_circuitId := None\<rparr> in
     andThen (case disposition of
         Reject \<Rightarrow> Inr (failed\<lparr>oe_status := ODead\<rparr>)
       | Pause \<Rightarrow> Inr (failed\<lparr>oe_status := OPaused,
           oe_circuitId := Some (resolveCircuitId (ox_host env) (fo_circuitId options))\<rparr>)
       | Retry \<Rightarrow>
           andThen (normalizeTimestamp (ox_host env) (case fo_availableAt options of Some d \<Rightarrow> d | None \<Rightarrow> DateString at))
             (\<lambda>availableAt. Inr (failed\<lparr>oe_status := OPending, oe_availableAt := availableAt\<rparr>))) (\<lambda>row.
     Inr (clearLease row))))"

definition fail_row ::
  "outbox_env \<Rightarrow> string \<Rightarrow> thrown \<Rightarrow> fail_options \<Rightarrow> outbox_entry list \<Rightarrow> (outbox_entry \<times> outbox_entry list) throws" where
  "fail_row env rowId error options entries =
     andThen (findEntry entries rowId) (\<lambda>entry.
     andThen (assertLease entry (fo_leaseId options)) (\<lambda>_.
     andThen (failed_row env error options entry) (\<lambda>settled. Inr (settled, put_entry rowId settled entries))))"

definition markFailed ::
  "outbox_env \<Rightarrow> string \<Rightarrow> thrown \<Rightarrow> fail_options \<Rightarrow> snapshot \<Rightarrow> (outbox_entry \<times> snapshot) throws" where
  "markFailed env rowId error options file =
     andThen (assertNonEmpty rowId ''id'') (\<lambda>_.
     andThen (readEntries env file) (\<lambda>entries.
     andThen (fail_row env rowId error options entries) (\<lambda>(settled, entries').
     Inr (settled, writeEntries env entries'))))"

text \<open>Re-arming the first \<open>n\<close> held rows of the tenant; the number of rows is the first result.\<close>

definition resumed_row :: "outbox_entry \<Rightarrow> string \<Rightarrow> outbox_entry" where
  "resumed_row entry at = entry\<lparr>oe_status := OPending, oe_availableAt := at, oe_updatedAt := at, oe_circuitId := None\<rparr>"

fun resume_loop :: "string \<Rightarrow> string \<Rightarrow> nat \<Rightarrow> outbox_entry list \<Rightarrow> nat \<times> outbox_entry list" where
  "resume_loop tenant at n [] = (0, [])"
| "resume_loop tenant at n (entry # rest) =
     (if oe_tenantId entry = tenant \<and> oe_status entry = OPaused \<and> 0 < n
      then (let (k, rest') = resume_loop tenant at (n - 1) rest in
        (Suc k, resumed_row entry at # rest'))
      else (let (k, rest') = resume_loop tenant at n rest in (k, entry # rest')))"

definition resume_rows ::
  "outbox_env \<Rightarrow> string \<Rightarrow> string \<Rightarrow> nat \<Rightarrow> date_input option \<Rightarrow> outbox_entry list \<Rightarrow> (nat \<times> outbox_entry list) throws" where
  "resume_rows env tenant expectedCircuitId limit at entries =
     andThen (throwUnless (list_all (\<lambda>entry. oe_tenantId entry = tenant \<and> oe_status entry = OPaused \<longrightarrow>
          oe_circuitId entry = Some expectedCircuitId) entries) (TypeError ''outbox circuit does not match'')) (\<lambda>_.
     andThen (normalizeTimestamp (ox_host env) (date_or_now (ox_host env) at)) (\<lambda>at.
     Inr (resume_loop tenant at limit entries)))"

definition resumePaused ::
  "outbox_env \<Rightarrow> string \<Rightarrow> string \<Rightarrow> jsnumber \<Rightarrow> date_input option \<Rightarrow> snapshot \<Rightarrow> (nat \<times> snapshot) throws" where
  "resumePaused env tenant expectedCircuitId limit at file =
     andThen (assertNonEmpty tenant ''tenantId'') (\<lambda>_.
     andThen (assertNonEmpty expectedCircuitId ''expectedCircuitId'') (\<lambda>_.
     andThen (case limit of NInt i \<Rightarrow> if is_safe_int i \<and> 0 < i then Inr (nat i) else Inl (TypeError ''limit must be positive'')
        | _ \<Rightarrow> Inl (TypeError ''limit must be positive'')) (\<lambda>n.
     andThen (readEntries env file) (\<lambda>entries.
     andThen (resume_rows env tenant expectedCircuitId n at entries) (\<lambda>(k, entries').
     Inr (k, if 0 < k then writeEntries env entries' else file))))))"

end
