(* ===== verification/OutboxQueue.thy ===== *)
theory OutboxQueue
  imports Outbox
begin

text \<open>
  The safety of the file outbox: the row invariant and the round trip of the snapshot, what a
  claim changes, exclusive leases, the runs of the adapter as a transition system (the locales
  of \<open>Prelude\<close> are interpreted on it), and its refinement of an abstract queue whose rows are
  waiting, held under a lease, stopped by a circuit, done or dropped.
\<close>

section \<open>Sorting\<close>

lemma mset_insert_by [simp]: "mset (insert_by cmp x ys) = add_mset x (mset ys)"
  by (induction ys) auto

lemma mset_sort_by [simp]: "mset (sort_by cmp xs) = mset xs"
  unfolding sort_by_def by (induction xs) simp_all

lemma set_sort_by [simp]: "set (sort_by cmp xs) = set xs"
  by (rule mset_eq_setD) simp

lemma length_sort_by [simp]: "length (sort_by cmp xs) = length xs"
  by (rule mset_eq_length) simp

lemma distinct_map_sort_by [simp]: "distinct (map f (sort_by cmp xs)) \<longleftrightarrow> distinct (map f xs)"
  by (rule mset_eq_imp_distinct_iff) simp

lemma filter_sort_by_length: "length (filter P (sort_by cmp xs)) = length (filter P xs)"
  by (metis mset_filter mset_sort_by size_mset)

section \<open>Row invariant and the snapshot round trip\<close>

definition env_ok :: "outbox_env \<Rightarrow> bool" where
  "env_ok env \<longleftrightarrow> (\<forall>t. \<bar>t\<bar> \<le> 8640000000000000 \<longrightarrow>
        (\<exists>u. parseDate (ox_host env) (iso_of_ms t) = Some u \<and> \<bar>u\<bar> \<le> 8640000000000000)) \<and>
     sanitizeCircuitId (Some (''local_'' @ randomUUID (ox_host env))) \<noteq> None"

definition iso_text :: "string \<Rightarrow> bool" where
  "iso_text s \<longleftrightarrow> (\<exists>t. \<bar>t\<bar> \<le> 8640000000000000 \<and> s = iso_of_ms t)"

definition optional :: "('a \<Rightarrow> bool) \<Rightarrow> 'a option \<Rightarrow> bool" where
  "optional P v \<longleftrightarrow> (\<forall>x. v = Some x \<longrightarrow> P x)"

lemma optional_simps [simp]: "optional P None" "optional P (Some x) \<longleftrightarrow> P x"
  by (simp_all add: optional_def)

definition phase_ok :: "outbox_entry \<Rightarrow> bool" where
  "phase_ok e \<longleftrightarrow>
     (case oe_status e of
        OLeased \<Rightarrow> (\<exists>l x. oe_leaseId e = Some l \<and> \<not> blank l \<and> oe_leaseExpiresAt e = Some x \<and> iso_text x) \<and> oe_circuitId e = None
      | OPaused \<Rightarrow> oe_leaseId e = None \<and> oe_leaseExpiresAt e = None \<and> (\<exists>c. oe_circuitId e = Some c \<and> sanitizeCircuitId (Some c) = Some c)
      | OForeign v \<Rightarrow> False
      | _ \<Rightarrow> oe_leaseId e = None \<and> oe_leaseExpiresAt e = None \<and> oe_circuitId e = None)"

definition row_ok :: "outbox_entry \<Rightarrow> bool" where
  "row_ok e \<longleftrightarrow> \<not> blank (oe_id e) \<and> \<not> blank (oe_tenantId e) \<and>
     validatePayload (oe_payload e) (Some (oe_tenantId e)) = Inr () \<and> 0 \<le> oe_attempts e \<and>
     iso_text (oe_availableAt e) \<and> iso_text (oe_createdAt e) \<and> iso_text (oe_updatedAt e) \<and>
     optional iso_text (oe_dispatchedAt e) \<and> phase_ok e"

lemma normalizeTimestamp_iso: "normalizeTimestamp h d = Inr s \<Longrightarrow> iso_text s"
  by (auto simp: normalizeTimestamp_def iso_text_def time_clip_def bind_eq_Some_conv split: option.splits if_splits)

lemma lease_expiry_iso: "lease_expiry h at ms = Inr s \<Longrightarrow> iso_text s"
  by (auto simp: lease_expiry_def toISOString_def iso_text_def time_clip_def bind_eq_Some_conv split: option.splits if_splits)

lemma iso_normalizes:
  assumes "env_ok env" "iso_text s"
  shows "\<exists>s'. normalizeStored (ox_host env) (JStr s) = Inr s'"
  using assms by (auto simp: env_ok_def iso_text_def normalizeTimestamp_def normalizeStored_def time_clip_def)

lemma sanitize_same: "sanitizeCircuitId v = Some c \<Longrightarrow> v = Some c \<and> sanitizeCircuitId (Some c) = Some c"
  by (auto simp: sanitizeCircuitId_def split: option.splits if_splits)

lemma resolveCircuitId_ok:
  assumes "env_ok env"
  shows "sanitizeCircuitId (Some (resolveCircuitId (ox_host env) v)) = Some (resolveCircuitId (ox_host env) v)"
proof (cases "sanitizeCircuitId v")
  case None
  with assms show ?thesis using sanitize_same by (auto simp: resolveCircuitId_def env_ok_def)
next
  case (Some c)
  then show ?thesis using sanitize_same [OF Some] by (simp add: resolveCircuitId_def)
qed

lemma get_prop_Cons [simp]: "get_prop ((k, v) # kvs) k' = (if k = k' then v else get_prop kvs k')"
  and get_prop_Nil [simp]: "get_prop [] k' = JUndefined"
  by (simp_all add: get_prop_def)

lemma get_prop_text_member [simp]:
  "get_prop (text_member k' v @ kvs) k = (if k = k' \<and> v \<noteq> None then JStr (the v) else get_prop kvs k)"
  "get_prop (text_member k' v) k = (if k = k' \<and> v \<noteq> None then JStr (the v) else JUndefined)"
  by (simp_all add: text_member_def split: option.split)

lemma entry_json_props [simp]:
  "js_prop (entry_json e) ''id'' = JStr (oe_id e)"
  "js_prop (entry_json e) ''tenantId'' = JStr (oe_tenantId e)"
  "js_prop (entry_json e) ''payload'' = oe_payload e"
  "js_prop (entry_json e) ''availableAt'' = JStr (oe_availableAt e)"
  "js_prop (entry_json e) ''status'' = status_json (oe_status e)"
  "js_prop (entry_json e) ''attempts'' = JNum (NInt (oe_attempts e))"
  "js_prop (entry_json e) ''createdAt'' = JStr (oe_createdAt e)"
  "js_prop (entry_json e) ''updatedAt'' = JStr (oe_updatedAt e)"
  by (simp_all add: entry_json_def js_prop_def)

lemma entry_json_optional [simp]:
  "js_prop (entry_json e) ''dispatchedAt'' = (case oe_dispatchedAt e of None \<Rightarrow> JUndefined | Some s \<Rightarrow> JStr s)"
  "js_prop (entry_json e) ''lastError'' = (case oe_lastError e of None \<Rightarrow> JUndefined | Some s \<Rightarrow> JStr s)"
  "js_prop (entry_json e) ''leaseId'' = (case oe_leaseId e of None \<Rightarrow> JUndefined | Some s \<Rightarrow> JStr s)"
  "js_prop (entry_json e) ''leaseExpiresAt'' = (case oe_leaseExpiresAt e of None \<Rightarrow> JUndefined | Some s \<Rightarrow> JStr s)"
  "js_prop (entry_json e) ''circuitId'' = (case oe_circuitId e of None \<Rightarrow> JUndefined | Some s \<Rightarrow> JStr s)"
  by (simp_all add: entry_json_def js_prop_def split: option.split)

lemma optional_text_option [simp]:
  "optional_text (case v of None \<Rightarrow> JUndefined | Some s \<Rightarrow> JStr s) = v"
  by (simp add: optional_text_def split: option.splits)

lemma status_round_trip: "(\<forall>v. st \<noteq> OForeign v) \<Longrightarrow> status_of_json (status_json st) = st"
  by (cases st) (simp_all add: status_of_json_def status_json_def)

lemma phase_ok_not_foreign: "phase_ok e \<Longrightarrow> oe_status e \<noteq> OForeign v"
  by (auto simp: phase_ok_def)

lemma entry_round_trip: "row_ok e \<Longrightarrow> entry_of_json (entry_json e) = e"
  using phase_ok_not_foreign [of e] by (simp add: entry_of_json_def status_round_trip row_ok_def)

lemma andThen_const: "\<exists>x. m = Inr x \<Longrightarrow> andThen m (\<lambda>_. r) = r"
  by auto

lemma entry_json_valid:
  assumes env: "env_ok env" and row: "row_ok e"
  shows "validateStoredEntry (ox_host env) (entry_json e) = Inr ()"
proof -
  have iso: "andThen (normalizeStored (ox_host env) (JStr s)) (\<lambda>_. r) = r" if "iso_text s" for s and r :: "unit throws"
    using iso_normalizes [OF env that] by (rule andThen_const)
  have "isRecordObject (entry_json e)" by (simp add: isRecordObject_def entry_json_def)
  then show ?thesis
    using row unfolding row_ok_def phase_ok_def
    by (cases "oe_status e")
      (auto simp: validateStoredEntry_def requireNonEmpty_def iso status_json_def OUTBOX_STATUSES_def split: option.splits)
qed

section \<open>Cloned payloads\<close>

lemma get_prop_clone:
  "get_prop kvs k = v \<Longrightarrow> \<not> is_omitted v \<Longrightarrow> get_prop (clone_members kvs) k = json_clone v"
  by (induction kvs) (auto split: if_splits)

lemma js_prop_clone: "js_prop p k = v \<Longrightarrow> \<not> is_omitted v \<Longrightarrow> js_prop (json_clone p) k = json_clone v"
  by (cases p) (auto simp: js_prop_def get_prop_clone split: option.splits)

lemma js_prop_text: "js_prop p k = JStr s \<Longrightarrow> js_prop (json_clone p) k = JStr s"
  using js_prop_clone [of p k "JStr s"] by simp

lemma js_prop_object: "js_prop p k \<noteq> JUndefined \<Longrightarrow> \<exists>kvs. p = JObj kvs"
  by (cases p) (simp_all add: js_prop_def)

lemma member_tenant_clone:
  assumes "member_tenant v = Inr (JStr s)"
  shows "\<not> is_omitted v \<and> member_tenant (json_clone v) = Inr (JStr s)"
proof -
  let ?scope = "js_prop v ''scope''"
  have t: "js_prop ?scope ''tenantId'' = JStr s" using assms by (simp add: member_tenant_def split: if_splits)
  then obtain kvs where o: "?scope = JObj kvs" using js_prop_object [of ?scope "''tenantId''"] by auto
  then obtain kws where v: "v = JObj kws" using js_prop_object [of v "''scope''"] by auto
  have "js_prop (json_clone v) ''scope'' = json_clone ?scope" using js_prop_clone [of v "''scope''"] o by auto
  then show ?thesis using js_prop_text [OF t] v by (simp add: member_tenant_def)
qed

lemma requireNonEmpty_Inr [simp]: "requireNonEmpty v f = Inr s \<longleftrightarrow> v = JStr s \<and> \<not> blank s"
  by (auto simp: requireNonEmpty_def split: jsval.splits if_splits)

lemma assertPayloadTenant_Inr [simp]:
  "assertPayloadTenant v expected = Inr s \<longleftrightarrow> v = JStr s \<and> \<not> blank s \<and> (expected = None \<or> expected = Some s)"
  by (auto simp: assertPayloadTenant_def andThen_Inr_iff)

lemma payload_tenant_clone: "payload_tenant vs seen = Inr r \<Longrightarrow> payload_tenant (clone_elems vs) seen = Inr r"
proof (induction vs arbitrary: seen)
  case (Cons v vs)
  then obtain s where s: "member_tenant v = Inr (JStr s)" "assertPayloadTenant (JStr s) seen = Inr s"
      "payload_tenant vs (Some s) = Inr r" by auto
  then have "assertPayloadTenant (JStr s) seen = Inr s" by simp
  with member_tenant_clone [OF s(1)] Cons.IH [OF s(3)] show ?case by (simp del: assertPayloadTenant_Inr)
qed simp

lemma validatePayload_clone:
  assumes "validatePayload p t = Inr ()"
  shows "validatePayload (json_clone p) t = Inr ()"
proof -
  from assms obtain seen where p: "js_prop p ''schemaVersion'' = JStr OUTBOX_SCHEMA_VERSION"
      "js_prop p ''mutationBinding'' \<in> {JStr ''same_transaction'', JStr ''not_transaction_bound'', JStr ''best_effort''}"
      "is_array (js_prop p ''records'')" "is_array (js_prop p ''edges'')"
      "payload_tenant (elements (js_prop p ''records'')) t = Inr seen"
      "\<exists>r. payload_tenant (elements (js_prop p ''edges'')) seen = Inr r"
    by (auto simp: validatePayload_def)
  have clone: "is_array (js_prop (json_clone p) k) \<and> elements (js_prop (json_clone p) k) = clone_elems (elements (js_prop p k))"
    if "is_array (js_prop p k)" for k
    using that js_prop_clone [of p k] by (auto simp: is_array_def elements_def split: jsval.splits)
  have "isRecordObject (json_clone p)" using p(1) js_prop_object [of p "''schemaVersion''"] by (auto simp: isRecordObject_def)
  moreover have "js_prop (json_clone p) ''mutationBinding'' = js_prop p ''mutationBinding''"
    using p(2) js_prop_text [of p "''mutationBinding''"] by auto
  ultimately show ?thesis
    using p(2,6) clone [OF p(3)] clone [OF p(4)] js_prop_text [OF p(1)] payload_tenant_clone [OF p(5)] payload_tenant_clone
    by (auto simp: validatePayload_def)
qed

section \<open>The invariant of the snapshot\<close>

definition rows_ok :: "outbox_entry list \<Rightarrow> bool" where
  "rows_ok es \<longleftrightarrow> (\<forall>e \<in> set es. row_ok e) \<and> distinct (map oe_id es)"

lemma rows_ok_sort [simp]: "rows_ok (sort_by cmp es) \<longleftrightarrow> rows_ok es"
  by (simp add: rows_ok_def)

definition snapshot_ok :: "outbox_env \<Rightarrow> snapshot \<Rightarrow> bool" where
  "snapshot_ok env file \<longleftrightarrow> (\<exists>es. readEntries env file = Inr es \<and> rows_ok es)"

lemma readEntries_writeEntries:
  assumes "env_ok env" "rows_ok es"
  shows "readEntries env (writeEntries env es) = Inr (sort_by (compareEntries env) (sort_by (compareEntries env) es))"
proof -
  let ?s = "sort_by (compareEntries env) es"
  have row: "\<forall>e \<in> set ?s. row_ok e" using assms(2) by (simp add: rows_ok_def)
  then have "map (validateStoredEntry (ox_host env)) (map entry_json ?s) = map Inr (replicate (length ?s) ())"
    using entry_json_valid [OF assms(1)] by (intro nth_equalityI) (simp_all add: all_set_conv_all_nth del: set_sort_by)
  moreover have "map entry_of_json (map entry_json ?s) = ?s"
    unfolding map_map using row entry_round_trip by (intro map_idI) simp
  ultimately show ?thesis by (simp only: readEntries_def writeEntries_def option.case jsval.case andThen_simps collect_map_Inr)
qed

lemma snapshot_ok_write: "env_ok env \<Longrightarrow> rows_ok es \<Longrightarrow> snapshot_ok env (writeEntries env es)"
  by (simp add: snapshot_ok_def readEntries_writeEntries)

lemma createPendingEntry_row:
  assumes "createPendingEntry h input = Inr e"
  shows "row_ok e \<and> oe_id e = oi_id input \<and> oe_tenantId e = oi_tenantId input \<and> oe_status e = OPending \<and>
    oe_payload e = json_clone (oi_payload input)"
  using assms normalizeTimestamp_iso validatePayload_clone
  by (auto simp: createPendingEntry_def row_ok_def phase_ok_def assertNonEmpty_def)

lemma enqueue_cases:
  assumes "enqueue env ceiling input es = Inr (e, es')"
  obtains (same) "es' = es" "e \<in> set es" "oe_id e = oi_id input" "oe_tenantId e = oi_tenantId input"
      "canonicalJson (oe_payload e) = canonicalJson (json_clone (oi_payload input))"
  | (fresh) "es' = sort_by (compareEntries env) (es @ [e])" "oe_id e \<notin> oe_id ` set es" "row_ok e" "oe_status e = OPending"
      "oe_id e = oi_id input" "oe_tenantId e = oi_tenantId input" "oe_payload e = json_clone (oi_payload input)"
      "\<forall>c. ceiling = Some c \<longrightarrow> (\<exists>q n. backlog es = Inr q \<and> outboxPayloadByteLength (oe_payload e) = Inr n \<and> q + n \<le> c)"
proof -
  from assms obtain e0 where e0: "createPendingEntry (ox_host env) input = Inr e0" by (auto simp: enqueue_def)
  note row = createPendingEntry_row [OF e0]
  show thesis
  proof (cases "find (\<lambda>candidate. oe_id candidate = oe_id e0) es")
    case None
    with assms e0 have "e = e0" "es' = sort_by (compareEntries env) (es @ [e])"
        "\<forall>c. ceiling = Some c \<longrightarrow> (\<exists>q n. backlog es = Inr q \<and> outboxPayloadByteLength (oe_payload e) = Inr n \<and> q + n \<le> c)"
      by (auto simp: enqueue_def andThen_Inr_iff split: option.splits)
    moreover have "oe_id e0 \<notin> oe_id ` set es" using None by (auto simp: find_None_iff)
    ultimately show thesis using row fresh by blast
  next
    case (Some x)
    with assms e0 have "e = x" "es' = es" "oe_tenantId x = oe_tenantId e0"
        "canonicalJson (oe_payload x) = canonicalJson (oe_payload e0)"
      by (auto simp: enqueue_def sameEnqueueInput_def split: if_splits)
    moreover have "x \<in> set es" "oe_id x = oe_id e0" using Some by (auto simp: find_Some_iff)
    ultimately show thesis using row same by auto
  qed
qed

lemma enqueue_rows_ok: "enqueue env ceiling input es = Inr (e, es') \<Longrightarrow> rows_ok es \<Longrightarrow> rows_ok es'"
  by (erule enqueue_cases) (auto simp: rows_ok_def)

section \<open>What a claim changes\<close>

text \<open>\<open>leased_at js\<close>: exactly the rows at the positions \<open>js\<close> were leased, at most one per tenant.\<close>

definition leased_at ::
  "string \<Rightarrow> string \<Rightarrow> string \<Rightarrow> outbox_entry list \<Rightarrow> outbox_entry list \<Rightarrow> nat list \<Rightarrow> bool" where
  "leased_at leaseId expiresAt at entries entries' js \<longleftrightarrow>
     length entries' = length entries \<and> distinct js \<and> (\<forall>j \<in> set js. j < length entries) \<and>
     distinct (map (\<lambda>j. oe_tenantId (entries ! j)) js) \<and>
     (\<forall>j < length entries. entries' ! j = (if j \<in> set js then lease_row (entries ! j) leaseId expiresAt at else entries ! j))"

lemma leased_at_Nil: "leased_at l x at es es []"
  by (simp add: leased_at_def)

lemma leased_at_Cons:
  assumes "leased_at l x at (es[i := lease_row (es ! i) l x at]) es' js" "i < length es" "i \<notin> set js"
    "oe_tenantId (es ! i) \<notin> (\<lambda>j. oe_tenantId (es ! j)) ` set js"
  shows "leased_at l x at es es' (i # js)"
proof -
  let ?m = "es[i := lease_row (es ! i) l x at]"
  have t: "oe_tenantId (?m ! j) = oe_tenantId (es ! j)" for j
    by (cases "j = i"; cases "i < length es") (simp_all add: lease_row_def list_update_beyond)
  have "map (\<lambda>j. oe_tenantId (?m ! j)) js = map (\<lambda>j. oe_tenantId (es ! j)) js" by (simp add: t)
  then have "distinct (map (\<lambda>j. oe_tenantId (es ! j)) js)" using assms(1) by (simp only: leased_at_def)
  moreover have "es' ! j = (if j \<in> set (i # js) then lease_row (es ! j) l x at else es ! j)" if "j < length es" for j
    using assms(1,3) that by (cases "j = i") (auto simp: leased_at_def)
  ultimately show ?thesis using assms by (simp add: leased_at_def)
qed

lemma claim_loop_leases:
  assumes "claim_loop h at l ms limit maxBytes blocked claims bytes es cands = Inr (claims', es')"
    and "distinct (map fst cands)" "\<forall>(i, e) \<in> set cands. i < length es \<and> es ! i = e"
  shows "\<exists>x js. leased_at l x at es es' js \<and> (js \<noteq> [] \<longrightarrow> lease_expiry h at ms = Inr x) \<and>
    claims' = claims @ map ((!) es') js \<and> set js \<subseteq> fst ` set cands \<and>
    (\<forall>j \<in> set js. oe_tenantId (es ! j) \<notin> blocked) \<and>
    (int (length claims) \<le> limit \<longrightarrow> int (length claims') \<le> limit) \<and>
    (\<exists>ns. map (\<lambda>j. outboxPayloadByteLength (oe_payload (es ! j))) js = map Inr ns \<and> (bytes \<le> maxBytes \<longrightarrow> bytes + sum_list ns \<le> maxBytes))"
  using assms
proof (induction cands arbitrary: blocked claims bytes es)
  case Nil
  then show ?case using leased_at_Nil by (intro exI [of _ "[]"]) (auto intro: leased_at_Nil)
next
  case (Cons c rest)
  obtain i e where c: "c = (i, e)" by force
  have same: "?case" if "claims' = claims" "es' = es"
    using that by (intro exI [of _ "[]"]) (auto intro: leased_at_Nil)
  have skip: "?case" if "claim_loop h at l ms limit maxBytes blocked claims bytes es rest = Inr (claims', es')"
  proof -
    have d: "distinct (map fst rest)" "\<forall>(i, e) \<in> set rest. i < length es \<and> es ! i = e" using Cons.prems by simp_all
    from Cons.IH [OF that d] show ?thesis by fastforce
  qed
  show ?case
  proof (cases "limit \<le> int (length claims)")
    case True
    with Cons.prems(1) c same show ?thesis by simp
  next
    case lim: False
    show ?thesis
    proof (cases "oe_tenantId e \<in> blocked")
      case True
      with Cons.prems(1) c lim skip show ?thesis by simp
    next
      case False
      from Cons.prems(1) c lim False obtain n where n: "outboxPayloadByteLength (oe_payload e) = Inr n" by auto
      show ?thesis
      proof (cases "maxBytes < bytes + n")
        case True
        with Cons.prems(1) c lim False n same show ?thesis by simp
      next
        case fits: False
        with Cons.prems(1) c lim False n obtain x where x: "lease_expiry h at ms = Inr x" by auto
        let ?row = "lease_row e l x at" and ?es = "es[i := lease_row e l x at]"
        have i: "i < length es" "es ! i = e" "i \<notin> fst ` set rest" using Cons.prems(2,3) c by auto
        have run: "claim_loop h at l ms limit maxBytes (insert (oe_tenantId e) blocked) (claims @ [?row]) (bytes + n) ?es rest
            = Inr (claims', es')"
          using Cons.prems(1) c lim False n fits x by (simp add: Let_def)
        have entries: "\<forall>(j, e') \<in> set rest. j < length ?es \<and> ?es ! j = e'"
        proof (rule ballI)
          fix p assume p: "p \<in> set rest"
          then have "fst p \<noteq> i" using i(3) by (metis image_eqI)
          with p Cons.prems(3) show "case p of (j, e') \<Rightarrow> j < length ?es \<and> ?es ! j = e'" by (auto simp: nth_list_update)
        qed
        from Cons.prems(2) have "distinct (map fst rest)" by simp
        from Cons.IH [OF run this entries] obtain y js where IH: "leased_at l y at ?es es' js"
            "js \<noteq> [] \<longrightarrow> lease_expiry h at ms = Inr y"
            "claims' = (claims @ [?row]) @ map ((!) es') js" "set js \<subseteq> fst ` set rest"
            "\<forall>j \<in> set js. oe_tenantId (?es ! j) \<notin> insert (oe_tenantId e) blocked"
            "int (length (claims @ [?row])) \<le> limit \<longrightarrow> int (length claims') \<le> limit"
          and "\<exists>ns. map (\<lambda>j. outboxPayloadByteLength (oe_payload (?es ! j))) js = map Inr ns \<and>
            (bytes + n \<le> maxBytes \<longrightarrow> bytes + n + sum_list ns \<le> maxBytes)" by blast
        then obtain ns where ns: "map (\<lambda>j. outboxPayloadByteLength (oe_payload (?es ! j))) js = map Inr ns"
            "bytes + n \<le> maxBytes \<longrightarrow> bytes + n + sum_list ns \<le> maxBytes" by blast
        have nij: "i \<notin> set js" using IH(4) i(3) by auto
        then have same_row: "?es ! j = es ! j" if "j \<in> set js" for j using that by (metis nth_list_update_neq)
        have "leased_at l x at ?es es' js" using IH(1,2) x by (cases "js = []") (auto simp: leased_at_def)
        then have lease: "leased_at l x at es es' (i # js)"
          using IH(5) i nij same_row by (intro leased_at_Cons) auto
        have "es' ! i = ?row" using IH(1) i nij by (simp add: leased_at_def)
        then have cl: "claims' = claims @ map ((!) es') (i # js)" using IH(3) by simp
        have bl: "\<forall>j \<in> set (i # js). oe_tenantId (es ! j) \<notin> blocked" using IH(5) same_row False i(2) by auto
        have "map (\<lambda>j. outboxPayloadByteLength (oe_payload (?es ! j))) js
            = map (\<lambda>j. outboxPayloadByteLength (oe_payload (es ! j))) js"
          by (rule map_cong [OF refl]) (simp only: same_row)
        with ns(1) have bts: "map (\<lambda>j. outboxPayloadByteLength (oe_payload (es ! j))) (i # js) = map Inr (n # ns) \<and>
            (bytes \<le> maxBytes \<longrightarrow> bytes + sum_list (n # ns) \<le> maxBytes)"
          using ns(2) n i(2) fits by simp
        have "int (length claims) \<le> limit \<longrightarrow> int (length claims') \<le> limit" using IH(6) lim by simp
        moreover have "set (i # js) \<subseteq> fst ` set (c # rest)" using IH(4) c by auto
        ultimately show ?thesis using lease cl bl bts x by blast
      qed
    qed
  qed
qed

lemma zip_upt_distinct: "distinct (map fst (filter P (zip [0..<length es] es)))"
  using distinct_map_filter [of fst "zip [0..<length es] es" P] by simp

lemma claim_rows_leases:
  assumes "claim_rows env at tenant l ms limit maxBytes es = Inr (claims, es')"
  shows "\<exists>x js. leased_at l x at es es' js \<and> (js \<noteq> [] \<longrightarrow> lease_expiry (ox_host env) at ms = Inr x) \<and>
    claims = map ((!) es') js \<and> (\<forall>j \<in> set js. claimable at (paused_tenants es \<union> leased_tenants at es) (es ! j) \<and>
      (\<forall>t. tenant = Some t \<longrightarrow> oe_tenantId (es ! j) = t)) \<and>
    (0 \<le> limit \<longrightarrow> int (length claims) \<le> limit) \<and>
    (\<exists>ns. map (\<lambda>j. outboxPayloadByteLength (oe_payload (es ! j))) js = map Inr ns \<and> (0 \<le> maxBytes \<longrightarrow> sum_list ns \<le> maxBytes))"
proof -
  let ?blocked = "paused_tenants es \<union> leased_tenants at es"
  let ?cands = "claim_candidates env at ?blocked tenant es"
  have run: "claim_loop (ox_host env) at l ms limit maxBytes ?blocked [] 0 es ?cands = Inr (claims, es')"
    using assms by (simp add: claim_rows_def Let_def)
  have mem: "i < length es \<and> es ! i = e \<and> claimable at ?blocked e \<and> (\<forall>t. tenant = Some t \<longrightarrow> oe_tenantId e = t)"
    if "(i, e) \<in> set ?cands" for i e
    using that by (auto simp: claim_candidates_def set_zip split: option.splits)
  have dist: "distinct (map fst ?cands)" using zip_upt_distinct by (simp add: claim_candidates_def)
  have "\<forall>(i, e) \<in> set ?cands. i < length es \<and> es ! i = e" using mem by blast
  from claim_loop_leases [OF run dist this] obtain x js where
    js: "leased_at l x at es es' js" "js \<noteq> [] \<longrightarrow> lease_expiry (ox_host env) at ms = Inr x"
      "claims = [] @ map ((!) es') js" "set js \<subseteq> fst ` set ?cands"
      "int (length ([] :: outbox_entry list)) \<le> limit \<longrightarrow> int (length claims) \<le> limit"
      "\<exists>ns. map (\<lambda>j. outboxPayloadByteLength (oe_payload (es ! j))) js = map Inr ns \<and> (0 \<le> maxBytes \<longrightarrow> 0 + sum_list ns \<le> maxBytes)"
    by blast
  have "claimable at ?blocked (es ! j) \<and> (\<forall>t. tenant = Some t \<longrightarrow> oe_tenantId (es ! j) = t)" if "j \<in> set js" for j
  proof -
    from that js(4) obtain e where "(j, e) \<in> set ?cands" by auto
    from mem [OF this] show ?thesis by blast
  qed
  with js show ?thesis unfolding append_Nil add_0 list.size of_nat_0 by blast
qed

section \<open>Exclusive leases\<close>

definition live :: "string \<Rightarrow> string \<Rightarrow> outbox_entry \<Rightarrow> bool" where
  "live at t e \<longleftrightarrow> oe_tenantId e = t \<and> oe_status e = OLeased \<and> at < oe_availableAt e"

definition exclusive :: "string \<Rightarrow> outbox_entry list \<Rightarrow> bool" where
  "exclusive at es \<longleftrightarrow> (\<forall>t. length (filter (live at t) es) \<le> 1)"

lemma exclusive_sort [simp]: "exclusive at (sort_by cmp es) \<longleftrightarrow> exclusive at es"
  by (simp add: exclusive_def filter_sort_by_length)

lemma exclusive_later:
  assumes "exclusive at es" "at \<le> at'"
  shows "exclusive at' es"
proof -
  have "length (filter (live at' t) es) \<le> length (filter (live at t) es)" for t
    using assms(2) by (induction es) (auto simp: live_def)
  with assms(1) show ?thesis by (meson exclusive_def le_trans)
qed

lemma leased_exclusive:
  assumes lease: "leased_at l x at es es' js" and ex: "exclusive at es"
    and free: "\<forall>j \<in> set js. oe_tenantId (es ! j) \<notin> leased_tenants at es"
  shows "exclusive at es'"
  unfolding exclusive_def
proof
  fix t
  let ?S = "\<lambda>xs. {j. j < length xs \<and> live at t (xs ! j)}"
  have len: "length es' = length es" using lease by (simp add: leased_at_def)
  have row: "es' ! j = (if j \<in> set js then lease_row (es ! j) l x at else es ! j)" if "j < length es" for j
    using lease that by (simp add: leased_at_def)
  show "length (filter (live at t) es') \<le> 1"
  proof (cases "\<exists>j \<in> set js. oe_tenantId (es ! j) = t")
    case True
    then obtain i where i: "i \<in> set js" "oe_tenantId (es ! i) = t" by blast
    have "j = i" if "j \<in> set js" "oe_tenantId (es ! j) = t" for j
      using that i lease by (auto simp: leased_at_def distinct_map inj_on_def)
    moreover have "\<not> live at t (es ! j)" if "j < length es" for j
    proof -
      from that have "es ! j \<in> set es" by simp
      then have "live at t (es ! j) \<Longrightarrow> t \<in> leased_tenants at es" by (auto simp: live_def leased_tenants_def)
      then show ?thesis using free i by blast
    qed
    ultimately have "?S es' \<subseteq> {i}" using row len by (auto simp: live_def lease_row_def split: if_splits)
    then have "card (?S es') \<le> 1" using card_mono [of "{i}"] by simp
    then show ?thesis by (simp only: length_filter_conv_card)
  next
    case False
    then have "?S es' = ?S es" using row len by (auto simp: live_def lease_row_def split: if_splits)
    then show ?thesis using ex by (simp add: exclusive_def length_filter_conv_card)
  qed
qed

lemma leased_rows_ok:
  assumes lease: "leased_at l x at es es' js" and ok: "rows_ok es" and l: "\<not> blank l" and x: "js \<noteq> [] \<longrightarrow> iso_text x" "iso_text at"
    and status: "\<forall>j \<in> set js. oe_status (es ! j) \<in> {OPending, OLeased}"
  shows "rows_ok es'"
proof -
  have len: "length es' = length es" using lease by (simp add: leased_at_def)
  have row: "es' ! j = (if j \<in> set js then lease_row (es ! j) l x at else es ! j)" if "j < length es" for j
    using lease that by (simp add: leased_at_def)
  have "row_ok (es' ! j) \<and> oe_id (es' ! j) = oe_id (es ! j)" if j: "j < length es" for j
  proof -
    have r: "row_ok (es ! j)" using ok j by (simp add: rows_ok_def)
    show ?thesis
    proof (cases "j \<in> set js")
      case True
      then have "js \<noteq> []" by auto
      with r True row [OF j] x l status show ?thesis by (auto simp: row_ok_def phase_ok_def lease_row_def)
    qed (simp add: row [OF j] r)
  qed
  moreover from this have "map oe_id es' = map oe_id es" using len by (intro nth_equalityI) simp_all
  ultimately show ?thesis using ok len by (metis (no_types, lifting) in_set_conv_nth rows_ok_def)
qed

text \<open>Updates other than a lease: the identity is kept, a leased row is an unchanged one.\<close>

definition calms :: "outbox_entry \<Rightarrow> outbox_entry \<Rightarrow> bool" where
  "calms e e' \<longleftrightarrow> oe_id e' = oe_id e \<and> oe_tenantId e' = oe_tenantId e \<and> oe_payload e' = oe_payload e \<and>
     (oe_status e' = OLeased \<longrightarrow> e' = e) \<and> (row_ok e \<longrightarrow> row_ok e')"

lemma calms_refl [simp]: "calms e e"
  by (simp add: calms_def)

lemma calms_rows_ok: "list_all2 calms es es' \<Longrightarrow> rows_ok es \<Longrightarrow> rows_ok es'"
proof -
  assume all: "list_all2 calms es es'" and ok: "rows_ok es"
  have "map oe_id es' = map oe_id es"
    using all by (induction rule: list_all2_induct) (auto simp: calms_def)
  moreover have "(\<forall>e \<in> set es. row_ok e) \<longrightarrow> (\<forall>e \<in> set es'. row_ok e)"
    using all by (induction rule: list_all2_induct) (auto simp: calms_def)
  ultimately show ?thesis using ok by (simp add: rows_ok_def)
qed

lemma calms_live: "calms e e' \<Longrightarrow> live at t e' \<Longrightarrow> live at t e"
  by (cases "oe_status e' = OLeased") (simp_all add: calms_def live_def)

lemma calms_exclusive:
  assumes "list_all2 calms es es'" "exclusive at es"
  shows "exclusive at es'"
proof -
  have "length (filter (live at t) es') \<le> length (filter (live at t) es)" for t
    using assms(1) by (induction rule: list_all2_induct) (auto dest: calms_live)
  with assms(2) show ?thesis by (meson exclusive_def le_trans)
qed

lemma put_entry_calms:
  assumes "\<forall>x \<in> set es. oe_id x = rowId \<longrightarrow> find (\<lambda>c. oe_id c = rowId) es = Some x \<longrightarrow> calms x e"
  shows "list_all2 calms es (put_entry rowId e es)"
  using assms by (induction es) (auto simp: list.rel_refl)

lemma findEntry_Inr: "findEntry es rowId = Inr e \<longleftrightarrow> find (\<lambda>c. oe_id c = rowId) es = Some e"
  by (simp add: findEntry_def split: option.splits)

lemma put_found_calms: "findEntry es rowId = Inr e \<Longrightarrow> calms e e' \<Longrightarrow> list_all2 calms es (put_entry rowId e' es)"
  by (rule put_entry_calms) (auto simp: findEntry_Inr)

lemma dispatch_row_cases:
  assumes "dispatch_row env rowId l d es = Inr (s, es')"
  obtains e at where "findEntry es rowId = Inr e" "assertLease e l = Inr ()" "s = dispatched_row e at" "iso_text at"
    "es' = put_entry rowId s es"
  using assms normalizeTimestamp_iso by (auto simp: dispatch_row_def Let_def)

lemma dispatched_row_calms: "iso_text at \<Longrightarrow> calms e (dispatched_row e at)"
  by (auto simp: calms_def dispatched_row_def clearLease_def row_ok_def phase_ok_def)

lemma dispatch_row_calms: "dispatch_row env rowId l d es = Inr (s, es') \<Longrightarrow> list_all2 calms es es'"
  by (elim dispatch_row_cases) (simp add: put_found_calms dispatched_row_calms)

lemma failed_row_cases:
  assumes "failed_row env err opts e = Inr s"
  obtains st where
    "oe_id s = oe_id e" "oe_tenantId s = oe_tenantId e" "oe_payload s = oe_payload e" "oe_status s = st"
    "oe_attempts s = oe_attempts e + 1" "oe_leaseId s = None" "oe_leaseExpiresAt s = None"
    "resolveDisposition (fo_retryable opts) (fo_disposition opts) = Inr Reject \<and> st = ODead \<and> oe_circuitId s = None
     \<or> resolveDisposition (fo_retryable opts) (fo_disposition opts) = Inr Pause \<and> st = OPaused \<and>
       oe_circuitId s = Some (resolveCircuitId (ox_host env) (fo_circuitId opts))
     \<or> resolveDisposition (fo_retryable opts) (fo_disposition opts) = Inr Retry \<and> st = OPending \<and> oe_circuitId s = None"
    "oe_createdAt s = oe_createdAt e" "oe_dispatchedAt s = oe_dispatchedAt e" "iso_text (oe_updatedAt s)"
    "oe_availableAt s = oe_availableAt e \<or> iso_text (oe_availableAt s)"
proof -
  from assms obtain at d where g:
      "normalizeTimestamp (ox_host env) (date_or_now (ox_host env) (fo_now opts)) = Inr at"
      "resolveDisposition (fo_retryable opts) (fo_disposition opts) = Inr d"
    by (auto simp: failed_row_def)
  note iso = normalizeTimestamp_iso [OF g(1)]
  show thesis
  proof (cases d)
    case Retry
    from assms g Retry obtain av where av: "normalizeTimestamp (ox_host env)
        (case fo_availableAt opts of Some d \<Rightarrow> d | None \<Rightarrow> DateString at) = Inr av"
      "s = clearLease (e\<lparr>oe_attempts := oe_attempts e + 1, oe_updatedAt := at,
         oe_lastError := Some (errorMessage (ox_ellipsis env) err), oe_circuitId := None, oe_status := OPending,
         oe_availableAt := av\<rparr>)"
      by (auto simp: failed_row_def Let_def)
    show thesis using that g(2) iso normalizeTimestamp_iso [OF av(1)] Retry
      by (simp add: av(2) clearLease_def)
  next
    case Pause
    with assms g show thesis using that iso by (auto simp: failed_row_def Let_def clearLease_def)
  next
    case Reject
    with assms g show thesis using that iso by (auto simp: failed_row_def Let_def clearLease_def)
  qed
qed

lemma fail_row_cases:
  assumes "fail_row env rowId err opts es = Inr (s, es')"
  obtains e where "findEntry es rowId = Inr e" "assertLease e (fo_leaseId opts) = Inr ()"
    "failed_row env err opts e = Inr s" "es' = put_entry rowId s es"
  using assms by (auto simp: fail_row_def)

lemma failed_row_calms:
  assumes "env_ok env" "failed_row env err opts e = Inr s"
  shows "calms e s"
  using assms(2)
proof (cases rule: failed_row_cases)
  case (1 st)
  then show ?thesis using resolveCircuitId_ok [OF assms(1)]
    by (auto simp: calms_def row_ok_def phase_ok_def)
qed

lemma fail_row_calms:
  assumes "env_ok env" "fail_row env rowId err opts es = Inr (s, es')"
  shows "list_all2 calms es es'"
  using assms(2) failed_row_calms [OF assms(1)] put_found_calms by (elim fail_row_cases) blast

lemma resumed_row_calms: "iso_text at \<Longrightarrow> oe_status e = OPaused \<Longrightarrow> calms e (resumed_row e at)"
  by (auto simp: calms_def row_ok_def phase_ok_def resumed_row_def)

lemma resume_loop_calms: "iso_text at \<Longrightarrow> list_all2 calms es (snd (resume_loop t at n es))"
  by (induction es arbitrary: n) (auto simp: split_def Let_def resumed_row_calms)

lemma resume_rows_calms:
  assumes "resume_rows env t c n d es = Inr (k, es')"
  shows "list_all2 calms es es'"
proof -
  from assms obtain at where "iso_text at" "resume_loop t at n es = (k, es')"
    using normalizeTimestamp_iso by (auto simp: resume_rows_def)
  with resume_loop_calms [of at es t n] show ?thesis by simp
qed

section \<open>Runs of the outbox\<close>

text \<open>The moment of an operation: its clock reading and the identifier it may draw.\<close>

definition moment :: "outbox_env \<Rightarrow> int \<Rightarrow> string \<Rightarrow> outbox_env" where
  "moment env n u = env\<lparr>ox_host := (ox_host env)\<lparr>now := n, randomUUID := u\<rparr>\<rparr>"

lemma moment_timestamp: "normalizeTimestamp (h\<lparr>now := n, randomUUID := u\<rparr>) d = normalizeTimestamp h d"
  by (cases d) (simp_all add: normalizeTimestamp_def)

lemma moment_normalizes: "normalizeStored (h\<lparr>now := n, randomUUID := u\<rparr>) v = normalizeStored h v"
  by (simp only: normalizeStored_def moment_timestamp)

lemma moment_host: "ox_host (moment env n u) = (ox_host env)\<lparr>now := n, randomUUID := u\<rparr>"
  by (simp add: moment_def)

lemma moment_compares: "compareEntries (moment env n u) = compareEntries env"
  by (intro ext) (simp add: moment_def compareEntries_def Let_def)

lemma moment_read [simp]: "readEntries (moment env n u) file = readEntries env file"
proof -
  have "validateStoredEntry (ox_host (moment env n u)) = validateStoredEntry (ox_host env)"
    by (rule ext) (simp only: validateStoredEntry_def moment_host moment_normalizes)
  then show ?thesis by (simp only: readEntries_def moment_compares)
qed

lemma moment_write [simp]: "writeEntries (moment env n u) es = writeEntries env es"
  by (simp only: writeEntries_def moment_compares)

lemma moment_ok: "env_ok (moment env n u) \<Longrightarrow> env_ok (moment env n' u') \<longleftrightarrow> sanitizeCircuitId (Some (''local_'' @ u')) \<noteq> None"
  by (simp add: env_ok_def moment_def)

text \<open>A state is the latest claim time and the snapshot. Claims read a clock that does not run
  backwards; the other operations may use any time, and failures change nothing.\<close>

inductive outbox_step :: "outbox_env \<Rightarrow> int option \<Rightarrow> string \<times> snapshot \<Rightarrow> string \<times> snapshot \<Rightarrow> bool" for env ceiling where
  ox_transaction: "env_ok (moment env n u) \<Longrightarrow> transaction (moment env n u) ceiling run file = Inr ((), file') \<Longrightarrow>
     outbox_step env ceiling (clock, file) (clock, file')"
| ox_claim: "env_ok (moment env n u) \<Longrightarrow> claimDispatchable (moment env n u) opts file = Inr (claims, file') \<Longrightarrow>
     normalizeTimestamp (ox_host (moment env n u)) (date_or_now (ox_host (moment env n u)) (cl_now opts)) = Inr at \<Longrightarrow>
     clock \<le> at \<Longrightarrow> outbox_step env ceiling (clock, file) (at, file')"
| ox_dispatched: "env_ok (moment env n u) \<Longrightarrow> markDispatched (moment env n u) rowId lease d file = Inr (e, file') \<Longrightarrow>
     outbox_step env ceiling (clock, file) (clock, file')"
| ox_failed: "env_ok (moment env n u) \<Longrightarrow> markFailed (moment env n u) rowId err fo file = Inr (e, file') \<Longrightarrow>
     outbox_step env ceiling (clock, file) (clock, file')"
| ox_resumed: "env_ok (moment env n u) \<Longrightarrow> resumePaused (moment env n u) tenant circuit limit d file = Inr (k, file') \<Longrightarrow>
     outbox_step env ceiling (clock, file) (clock, file')"

inductive_cases outbox_stepE: "outbox_step env ceiling s s'"

text \<open>What an operation does to the rows it read: rows of the new snapshot are the rows \<open>es'\<close> up
  to order.\<close>

definition rows_of :: "outbox_env \<Rightarrow> snapshot \<Rightarrow> outbox_entry list \<Rightarrow> bool" where
  "rows_of env file es \<longleftrightarrow> readEntries env file = Inr es \<and> rows_ok es"

lemma rows_of_write: "env_ok env \<Longrightarrow> rows_ok es \<Longrightarrow>
  rows_of env (writeEntries env es) (sort_by (compareEntries env) (sort_by (compareEntries env) es))"
  by (simp add: rows_of_def readEntries_writeEntries)

definition outbox_inv :: "outbox_env \<Rightarrow> string \<times> snapshot \<Rightarrow> bool" where
  "outbox_inv env s \<longleftrightarrow> (\<exists>es. rows_of env (snd s) es \<and> exclusive (fst s) es)"

lemma inv_write:
  assumes "env_ok env" "rows_ok es" "exclusive clock es"
  shows "outbox_inv env (clock, writeEntries env es)"
  using rows_of_write [OF assms(1,2)] assms(3) by (auto simp: outbox_inv_def)

lemma run_program_keeps:
  assumes "run_program env ceiling run es = Inr (x, es')" "rows_ok es" "exclusive clock es"
  shows "rows_ok es' \<and> exclusive clock es'"
  using assms
proof (induction run arbitrary: es)
  case (Enqueue input k)
  show ?case
  proof (cases "enqueue env ceiling input es")
    case (Inl e)
    with Enqueue.prems(1) have "run_program env ceiling (k (Inl e)) es = Inr (x, es')" by simp
    from Enqueue.IH [OF _ this Enqueue.prems(2,3)] show ?thesis by blast
  next
    case (Inr r)
    obtain e m where r: "r = (e, m)" by force
    with Inr Enqueue.prems(1) have run: "run_program env ceiling (k (Inr e)) m = Inr (x, es')" by simp
    have enq: "enqueue env ceiling input es = Inr (e, m)" using Inr r by simp
    have "exclusive clock m"
      using enq
    proof (cases rule: enqueue_cases)
      case fresh
      then have "\<not> live clock t e" for t by (simp add: live_def)
      with fresh(1) Enqueue.prems(3) show ?thesis by (simp add: exclusive_def filter_sort_by_length)
    qed (simp add: Enqueue.prems(3))
    with Enqueue.IH [OF _ run] enqueue_rows_ok [OF enq Enqueue.prems(2)] show ?thesis by blast
  qed
qed simp_all

lemma claimable_status: "claimable at blocked e \<Longrightarrow> oe_status e \<in> {OPending, OLeased} \<and> oe_tenantId e \<notin> blocked \<and> oe_availableAt e \<le> at"
  by (auto simp: claimable_def)

lemma claim_rows_keeps:
  assumes "claim_rows env at tenant l ms limit maxBytes es = Inr (claims, es')" "rows_ok es" "exclusive at es" "\<not> blank l" "iso_text at"
  shows "rows_ok es' \<and> exclusive at es'"
proof -
  from claim_rows_leases [OF assms(1)] obtain x js where
    js: "leased_at l x at es es' js" "js \<noteq> [] \<longrightarrow> lease_expiry (ox_host env) at ms = Inr x"
      "\<forall>j \<in> set js. claimable at (paused_tenants es \<union> leased_tenants at es) (es ! j)" by blast
  have st: "\<forall>j \<in> set js. oe_status (es ! j) \<in> {OPending, OLeased} \<and> oe_tenantId (es ! j) \<notin> leased_tenants at es"
    using js(3) claimable_status by blast
  have x: "js \<noteq> [] \<longrightarrow> iso_text x" using js(2) lease_expiry_iso by blast
  show ?thesis
    using leased_rows_ok [OF js(1) assms(2,4) x assms(5)] leased_exclusive [OF js(1) assms(3)] st by blast
qed

lemma claimDispatchable_cases:
  assumes "claimDispatchable env opts file = Inr (claims, file')"
  obtains ms limit maxBytes es es' at where "validateClaimOptions (ox_host env) opts = Inr (ms, limit, maxBytes)"
    "\<not> blank (cl_leaseId opts)" "0 < limit" "0 < maxBytes" "0 < ms" "readEntries env file = Inr es"
    "normalizeTimestamp (ox_host env) (date_or_now (ox_host env) (cl_now opts)) = Inr at"
    "claim_rows env at (cl_tenantId opts) (cl_leaseId opts) ms limit maxBytes es = Inr (claims, es')"
    "file' = (if claims \<noteq> [] then writeEntries env es' else file)"
  using assms
  by (auto simp: claimDispatchable_def validateClaimOptions_def requirePositive_def assertNonEmpty_def
    split: jsnumber.splits if_splits)

lemma claim_rows_none: "claim_rows env at tenant l ms limit maxBytes es = Inr ([], es') \<Longrightarrow> es' = es"
  using claim_rows_leases [of env at tenant l ms limit maxBytes es "[]" es']
  by (auto simp: leased_at_def intro: nth_equalityI)

lemma rows_of_moment [simp]: "rows_of (moment env n u) file es \<longleftrightarrow> rows_of env file es"
  by (simp add: rows_of_def)

lemma inv_write_moment:
  assumes "env_ok (moment env n u)" "rows_ok es" "exclusive clock es"
  shows "outbox_inv env (clock, writeEntries env es)"
  using inv_write [OF assms] by (simp add: outbox_inv_def)

lemma settle_keeps:
  assumes "env_ok (moment env n u)" "readEntries env file = Inr es" "outbox_inv env (clock, file)" "list_all2 calms es es'"
  shows "outbox_inv env (clock, writeEntries env es')"
proof -
  from assms(2,3) have "rows_ok es" "exclusive clock es" by (auto simp: outbox_inv_def rows_of_def)
  with assms(1,4) show ?thesis by (intro inv_write_moment [of env n u]) (auto intro: calms_rows_ok calms_exclusive)
qed

lemma outbox_step_inv:
  assumes "outbox_inv env s" "outbox_step env ceiling s s'"
  shows "outbox_inv env s'"
  using assms(2)
proof cases
  case (ox_transaction n u run fl fl' clock)
  then obtain es es' where r: "readEntries env fl = Inr es" "run_program (moment env n u) ceiling run es = Inr ((), es')"
      "fl' = writeEntries env es'" by (auto simp: transaction_def)
  from r(1) assms(1) ox_transaction(1) have "rows_ok es" "exclusive clock es" by (auto simp: outbox_inv_def rows_of_def)
  from run_program_keeps [OF r(2) this] inv_write_moment [OF ox_transaction(3)] r(3) ox_transaction(2) show ?thesis by blast
next
  case (ox_claim n u opts fl claims fl' at clock)
  show ?thesis using ox_claim(4)
  proof (cases rule: claimDispatchable_cases)
    case (1 ms limit maxBytes es es' at')
    have at': "at' = at" using 1(7) ox_claim(5) by simp
    have es: "rows_ok es" "exclusive clock es" using 1(6) assms(1) ox_claim(1) by (auto simp: outbox_inv_def rows_of_def)
    have ex: "exclusive at es" using exclusive_later [OF es(2) ox_claim(6)] .
    have k: "rows_ok es' \<and> exclusive at es'"
      using claim_rows_keeps [OF 1(8) es(1) _ 1(2)] ex at' normalizeTimestamp_iso [OF 1(7)] by simp
    show ?thesis
    proof (cases "claims = []")
      case True
      then have "fl' = fl" using 1(9) by simp
      with ex es(1) 1(6) ox_claim(2) show ?thesis by (auto simp: outbox_inv_def rows_of_def)
    next
      case False
      with 1(9) k inv_write_moment [OF ox_claim(3)] ox_claim(2) show ?thesis by simp
    qed
  qed
next
  case (ox_dispatched n u rowId lease d fl e fl' clock)
  then obtain es es' where "readEntries env fl = Inr es" "list_all2 calms es es'" "fl' = writeEntries env es'"
    using dispatch_row_calms by (fastforce simp: markDispatched_def)
  with settle_keeps [OF ox_dispatched(3)] assms(1) ox_dispatched(1,2) show ?thesis by blast
next
  case (ox_failed n u rowId err fo fl e fl' clock)
  then obtain es es' where "readEntries env fl = Inr es" "list_all2 calms es es'" "fl' = writeEntries env es'"
    using fail_row_calms by (fastforce simp: markFailed_def)
  with settle_keeps [OF ox_failed(3)] assms(1) ox_failed(1,2) show ?thesis by blast
next
  case (ox_resumed n u tenant circuit limit d fl k fl' clock)
  then obtain es es' where "readEntries env fl = Inr es" "list_all2 calms es es'" "fl' = (if 0 < k then writeEntries env es' else fl)"
    using resume_rows_calms by (fastforce simp: resumePaused_def)
  with settle_keeps [OF ox_resumed(3)] assms(1) ox_resumed(1,2) show ?thesis by (auto split: if_splits)
qed

definition outbox_start :: "string \<times> snapshot \<Rightarrow> bool" where
  "outbox_start s \<longleftrightarrow> snd s = None"

lemma outbox_start_inv: "outbox_start s \<Longrightarrow> outbox_inv env s"
  by (auto simp: outbox_start_def outbox_inv_def rows_of_def rows_ok_def exclusive_def readEntries_def)

interpretation outbox: invariant_system outbox_start "outbox_step env ceiling" "outbox_inv env" for env ceiling
  by unfold_locales (auto intro: outbox_start_inv outbox_step_inv)

section \<open>The abstract queue\<close>

datatype phase = Waiting | Held string | Stopped string | Done | Dropped

type_synonym queue = "string \<rightharpoonup> (string \<times> jsval \<times> phase)"

definition phase_of :: "outbox_entry \<Rightarrow> phase" where
  "phase_of e = (case oe_status e of OPending \<Rightarrow> Waiting | OLeased \<Rightarrow> Held (the (oe_leaseId e))
     | OPaused \<Rightarrow> Stopped (the (oe_circuitId e)) | ODispatched \<Rightarrow> Done | ODead \<Rightarrow> Dropped | OForeign v \<Rightarrow> Dropped)"

definition row_view :: "outbox_entry \<Rightarrow> string \<times> jsval \<times> phase" where
  "row_view e = (oe_tenantId e, oe_payload e, phase_of e)"

definition queue_of :: "outbox_entry list \<Rightarrow> queue" where
  "queue_of es = map_of (map (\<lambda>e. (oe_id e, row_view e)) es)"

definition set_phase :: "phase \<Rightarrow> string set \<Rightarrow> queue \<Rightarrow> queue" where
  "set_phase ph ids q = (\<lambda>i. if i \<in> ids then map_option (\<lambda>(t, p, _). (t, p, ph)) (q i) else q i)"

text \<open>New work enters waiting, under a fresh identifier.\<close>

inductive queue_submit :: "queue \<Rightarrow> queue \<Rightarrow> bool" where
  "q i = None \<Longrightarrow> queue_submit q (q(i \<mapsto> (t, p, Waiting)))"

text \<open>A lease takes at most one row per tenant, only rows that wait or were leased before, and
  none of a tenant that has a stopped row.\<close>

definition queue_lease :: "string \<Rightarrow> string set \<Rightarrow> queue \<Rightarrow> queue \<Rightarrow> bool" where
  "queue_lease l ids q q' \<longleftrightarrow> q' = set_phase (Held l) ids q \<and>
     (\<forall>i \<in> ids. \<exists>t p ph. q i = Some (t, p, ph) \<and> (ph = Waiting \<or> (\<exists>l'. ph = Held l')) \<and>
        (\<forall>j p' c. q j \<noteq> Some (t, p', Stopped c)) \<and>
        (\<forall>j \<in> ids. \<forall>p' ph'. q j = Some (t, p', ph') \<longrightarrow> j = i))"

text \<open>Settling a leased row takes its lease; settling any other row takes none.\<close>

definition queue_settle :: "string \<Rightarrow> string option \<Rightarrow> phase \<Rightarrow> queue \<Rightarrow> queue \<Rightarrow> bool" where
  "queue_settle i lease ph' q q' \<longleftrightarrow>
     (\<exists>t p ph. q i = Some (t, p, ph) \<and> q' = q(i \<mapsto> (t, p, ph')) \<and> (case ph of Held l \<Rightarrow> lease = Some l | _ \<Rightarrow> lease = None))"

text \<open>Resuming re-arms \<open>k\<close> stopped rows, provided every stopped row of the tenant names the circuit.\<close>

definition queue_resume :: "string \<Rightarrow> string \<Rightarrow> nat \<Rightarrow> queue \<Rightarrow> queue \<Rightarrow> bool" where
  "queue_resume t c k q q' \<longleftrightarrow> (\<forall>i p c'. q i = Some (t, p, Stopped c') \<longrightarrow> c' = c) \<and>
     (\<exists>ids. finite ids \<and> card ids = k \<and> (\<forall>i \<in> ids. \<exists>p. q i = Some (t, p, Stopped c)) \<and> q' = set_phase Waiting ids q)"

lemma queue_of_Nil [simp]: "queue_of [] = Map.empty"
  and queue_of_Cons [simp]: "queue_of (e # es) = (queue_of es)(oe_id e \<mapsto> row_view e)"
  by (simp_all add: queue_of_def)

lemma queue_of_None: "queue_of es i = None \<longleftrightarrow> i \<notin> oe_id ` set es"
  by (induction es) auto

lemma queue_of_Some:
  assumes "distinct (map oe_id es)"
  shows "queue_of es i = Some v \<longleftrightarrow> (\<exists>e \<in> set es. oe_id e = i \<and> row_view e = v)"
  using assms by (induction es) (auto simp: image_iff)

lemma queue_of_same_set:
  assumes "distinct (map oe_id es)" "distinct (map oe_id es')" "set es = set es'"
  shows "queue_of es = queue_of es'"
proof
  fix i
  have "queue_of es i = Some v \<longleftrightarrow> queue_of es' i = Some v" for v
    unfolding queue_of_Some [OF assms(1)] queue_of_Some [OF assms(2)] assms(3) ..
  then show "queue_of es i = queue_of es' i" by (metis not_Some_eq)
qed

lemma queue_of_sort [simp]: "distinct (map oe_id es) \<Longrightarrow> queue_of (sort_by cmp es) = queue_of es"
  by (rule queue_of_same_set) simp_all

lemma queue_of_put:
  "oe_id e = rowId \<Longrightarrow> rowId \<in> oe_id ` set es \<Longrightarrow> queue_of (put_entry rowId e es) = (queue_of es)(rowId \<mapsto> row_view e)"
  by (induction es) (auto simp: fun_upd_twist)

lemma written_queue:
  assumes "env_ok env" "rows_ok es"
  shows "\<exists>es'. rows_of env (writeEntries env es) es' \<and> queue_of es' = queue_of es"
  using rows_of_write [OF assms] assms(2) by (intro exI) (auto simp: rows_ok_def)

lemma run_program_queue:
  assumes "run_program env ceiling run es = Inr (x, es')" "rows_ok es"
  shows "queue_submit\<^sup>*\<^sup>* (queue_of es) (queue_of es') \<and> rows_ok es'"
  using assms
proof (induction run arbitrary: es)
  case (Enqueue input k)
  show ?case
  proof (cases "enqueue env ceiling input es")
    case (Inl e)
    with Enqueue.prems(1) have "run_program env ceiling (k (Inl e)) es = Inr (x, es')" by simp
    from Enqueue.IH [OF _ this Enqueue.prems(2)] show ?thesis by blast
  next
    case (Inr r)
    obtain e m where r: "r = (e, m)" by force
    with Inr Enqueue.prems(1) have run: "run_program env ceiling (k (Inr e)) m = Inr (x, es')" by simp
    have enq: "enqueue env ceiling input es = Inr (e, m)" using Inr r by simp
    note ok = enqueue_rows_ok [OF enq Enqueue.prems(2)]
    have "queue_submit\<^sup>*\<^sup>* (queue_of es) (queue_of m)"
      using enq
    proof (cases rule: enqueue_cases)
      case fresh
      have v: "row_view e = (oe_tenantId e, oe_payload e, Waiting)" using fresh(4) by (simp add: row_view_def phase_of_def)
      have n: "queue_of es (oe_id e) = None" using fresh(2) by (simp add: queue_of_None)
      have d: "distinct (map oe_id (es @ [e]))" using fresh(2) Enqueue.prems(2) by (simp add: rows_ok_def)
      have "queue_of m = queue_of (es @ [e])" unfolding fresh(1) by (rule queue_of_sort [OF d])
      also have "\<dots> = queue_of (e # es)" using d by (intro queue_of_same_set) auto
      finally have "queue_of m = (queue_of es)(oe_id e \<mapsto> (oe_tenantId e, oe_payload e, Waiting))" by (simp add: v)
      with queue_submit.intros [where q = "queue_of es" and i = "oe_id e", OF n] show ?thesis by auto
    qed simp
    moreover have "queue_submit\<^sup>*\<^sup>* (queue_of m) (queue_of es') \<and> rows_ok es'"
      using Enqueue.IH [OF _ run ok] by blast
    ultimately show ?thesis by (meson rtranclp_trans)
  qed
qed simp_all

lemma queue_of_nth: "distinct (map oe_id es) \<Longrightarrow> j < length es \<Longrightarrow> queue_of es (oe_id (es ! j)) = Some (row_view (es ! j))"
  by (auto simp: queue_of_Some)

lemma leased_at_queue:
  assumes lease: "leased_at l x at es es' js" and ok: "rows_ok es"
  shows "queue_of es' = set_phase (Held l) (oe_id ` (!) es ` set js) (queue_of es)"
    and "map oe_id es' = map oe_id es"
proof -
  have len: "length es' = length es" using lease by (simp add: leased_at_def)
  have row: "es' ! j = (if j \<in> set js then lease_row (es ! j) l x at else es ! j)" if "j < length es" for j
    using lease that by (simp add: leased_at_def)
  show ids: "map oe_id es' = map oe_id es" using len row by (intro nth_equalityI) (simp_all add: lease_row_def)
  have d: "distinct (map oe_id es)" "distinct (map oe_id es')" using ok ids by (simp_all add: rows_ok_def)
  show "queue_of es' = set_phase (Held l) (oe_id ` (!) es ` set js) (queue_of es)"
  proof
    fix i
    show "queue_of es' i = set_phase (Held l) (oe_id ` (!) es ` set js) (queue_of es) i"
    proof (cases "i \<in> oe_id ` set es")
      case False
      moreover have "oe_id ` set es' = oe_id ` set es" using ids by (metis set_map)
      ultimately have "queue_of es i = None" "queue_of es' i = None" by (simp_all add: queue_of_None)
      then show ?thesis by (simp add: set_phase_def)
    next
      case True
      then obtain j where j: "j < length es" "i = oe_id (es ! j)" by (auto simp: in_set_conv_nth)
      have same: "oe_id (es' ! j) = i" using row [OF j(1)] j(2) by (simp add: lease_row_def)
      have q: "queue_of es i = Some (row_view (es ! j))" "queue_of es' i = Some (row_view (es' ! j))"
        using queue_of_nth [OF d(1) j(1)] queue_of_nth [OF d(2), of j] j same len by simp_all
      have "i \<in> oe_id ` (!) es ` set js \<longleftrightarrow> j \<in> set js"
      proof
        assume "i \<in> oe_id ` (!) es ` set js"
        then obtain m where m: "m \<in> set js" "oe_id (es ! m) = oe_id (es ! j)" using j(2) by auto
        moreover have "m < length es" using lease m(1) by (simp add: leased_at_def)
        ultimately have "m = j" using d(1) j(1) by (metis distinct_conv_nth length_map nth_map)
        with m(1) show "j \<in> set js" by simp
      qed (use j(2) in auto)
      then show ?thesis using row [OF j(1)] by (simp add: set_phase_def q row_view_def phase_of_def lease_row_def)
    qed
  qed
qed

lemma phase_of_Stopped: "phase_of e = Stopped c \<Longrightarrow> oe_status e = OPaused \<and> c = the (oe_circuitId e)"
  by (cases "oe_status e") (simp_all add: phase_of_def)

lemma claim_rows_queue:
  assumes claim: "claim_rows env at tenant l ms limit maxBytes es = Inr (claims, es')" and ok: "rows_ok es"
  shows "queue_lease l (oe_id ` set claims) (queue_of es) (queue_of es')"
proof -
  from claim_rows_leases [OF claim] obtain x js where js: "leased_at l x at es es' js" "claims = map ((!) es') js"
      "\<forall>j \<in> set js. claimable at (paused_tenants es \<union> leased_tenants at es) (es ! j)" by blast
  have d: "distinct (map oe_id es)" using ok by (simp add: rows_ok_def)
  have bound: "j < length es" if "j \<in> set js" for j using js(1) that by (simp add: leased_at_def)
  have "map oe_id es' = map oe_id es" using leased_at_queue(2) [OF js(1) ok] .
  then have "oe_id (es' ! j) = oe_id (es ! j)" if "j \<in> set js" for j
    using bound [OF that] by (metis length_map nth_map)
  then have ids: "oe_id ` set claims = oe_id ` (!) es ` set js" by (force simp: js(2) image_image)
  have "\<exists>t p ph. queue_of es i = Some (t, p, ph) \<and> (ph = Waiting \<or> (\<exists>l'. ph = Held l')) \<and>
        (\<forall>j p' c. queue_of es j \<noteq> Some (t, p', Stopped c)) \<and>
        (\<forall>j \<in> oe_id ` set claims. \<forall>p' ph'. queue_of es j = Some (t, p', ph') \<longrightarrow> j = i)" if "i \<in> oe_id ` set claims" for i
  proof -
    from that ids obtain j where j: "j \<in> set js" "i = oe_id (es ! j)" by auto
    let ?t = "oe_tenantId (es ! j)"
    have q: "queue_of es i = Some (?t, oe_payload (es ! j), phase_of (es ! j))"
      using queue_of_nth [OF d bound [OF j(1)]] j(2) by (simp add: row_view_def)
    have c: "claimable at (paused_tenants es \<union> leased_tenants at es) (es ! j)" using js(3) j(1) by blast
    then have "phase_of (es ! j) = Waiting \<or> (\<exists>l'. phase_of (es ! j) = Held l')" by (auto simp: claimable_def phase_of_def)
    moreover have "queue_of es m \<noteq> Some (?t, p', Stopped c')" for m p' c'
    proof
      assume "queue_of es m = Some (?t, p', Stopped c')"
      then obtain e where "e \<in> set es" "oe_tenantId e = ?t" "phase_of e = Stopped c'"
        using queue_of_Some [OF d] by (auto simp: row_view_def)
      then have "?t \<in> paused_tenants es" using phase_of_Stopped [of e c'] by (auto simp: paused_tenants_def image_iff)
      with c show False by (simp add: claimable_def)
    qed
    moreover have "m = i" if "m \<in> oe_id ` set claims" "queue_of es m = Some (?t, p', ph')" for m p' ph'
    proof -
      from that(1) ids obtain k where k: "k \<in> set js" "m = oe_id (es ! k)" by auto
      then have "oe_tenantId (es ! k) = ?t" using that(2) queue_of_nth [OF d bound [OF k(1)]] by (simp add: row_view_def)
      then have "k = j" using js(1) k(1) j(1) by (auto simp: leased_at_def distinct_map inj_on_def)
      with k(2) j(2) show ?thesis by simp
    qed
    ultimately show ?thesis using q by blast
  qed
  then show ?thesis using leased_at_queue(1) [OF js(1) ok] ids by (simp add: queue_lease_def)
qed

lemma found_queue:
  assumes "findEntry es rowId = Inr e"
  shows "oe_id e = rowId" "queue_of es rowId = Some (row_view e)" "rowId \<in> oe_id ` set es"
proof -
  have "find (\<lambda>c. oe_id c = rowId) es = Some e" using assms by (simp add: findEntry_Inr)
  then show "oe_id e = rowId" "rowId \<in> oe_id ` set es" by (auto simp: find_Some_iff)
  from \<open>find (\<lambda>c. oe_id c = rowId) es = Some e\<close> show "queue_of es rowId = Some (row_view e)"
    by (induction es) (auto split: if_splits)
qed

lemma settle_queue:
  assumes found: "findEntry es rowId = Inr e" and lease: "assertLease e l = Inr ()" and ok: "phase_ok e"
    and same: "oe_id s = oe_id e" "oe_tenantId s = oe_tenantId e" "oe_payload s = oe_payload e"
  shows "queue_settle rowId l (phase_of s) (queue_of es) (queue_of (put_entry rowId s es))"
proof -
  note f = found_queue [OF found]
  have "queue_of (put_entry rowId s es) = (queue_of es)(rowId \<mapsto> (oe_tenantId e, oe_payload e, phase_of s))"
    using queue_of_put [of s rowId es] f same by (simp add: row_view_def)
  moreover have "case phase_of e of Held l' \<Rightarrow> l = Some l' | _ \<Rightarrow> l = None"
    using lease ok by (auto simp: assertLease_def phase_of_def phase_ok_def split: outbox_status.splits if_splits)
  ultimately show ?thesis using f(2) unfolding queue_settle_def row_view_def by blast
qed

lemma rows_ok_found: "findEntry es rowId = Inr e \<Longrightarrow> rows_ok es \<Longrightarrow> row_ok e"
  by (auto simp: findEntry_Inr find_Some_iff rows_ok_def)

lemma dispatch_row_queue:
  assumes "dispatch_row env rowId l d es = Inr (s, es')" "rows_ok es"
  shows "queue_settle rowId l Done (queue_of es) (queue_of es')"
  using assms(1)
proof (cases rule: dispatch_row_cases)
  case (1 e at)
  have "phase_ok e" using rows_ok_found [OF 1(1) assms(2)] by (simp add: row_ok_def)
  from settle_queue [OF 1(1,2) this, of s] show ?thesis
    using 1(3,5) by (simp add: dispatched_row_def clearLease_def phase_of_def)
qed

definition failure_phase :: "outbox_env \<Rightarrow> fail_options \<Rightarrow> phase" where
  "failure_phase env opts = (case resolveDisposition (fo_retryable opts) (fo_disposition opts) of
     Inr Retry \<Rightarrow> Waiting | Inr Pause \<Rightarrow> Stopped (resolveCircuitId (ox_host env) (fo_circuitId opts)) | _ \<Rightarrow> Dropped)"

lemma fail_row_queue:
  assumes "fail_row env rowId err opts es = Inr (s, es')" "rows_ok es"
  shows "queue_settle rowId (fo_leaseId opts) (failure_phase env opts) (queue_of es) (queue_of es')"
  using assms(1)
proof (cases rule: fail_row_cases)
  case (1 e)
  have "phase_ok e" using rows_ok_found [OF 1(1) assms(2)] by (simp add: row_ok_def)
  note settle = settle_queue [OF 1(1,2) this]
  from 1(3) show ?thesis
  proof (cases rule: failed_row_cases)
    case f: (1 st)
    from settle [OF f(1-3)] show ?thesis using 1(4) f(4,8) by (auto simp: failure_phase_def phase_of_def)
  qed
qed

lemma resume_loop_queue:
  assumes "resume_loop t at n es = (k, es')" "rows_ok es" "\<forall>e \<in> set es. oe_tenantId e = t \<and> oe_status e = OPaused \<longrightarrow> oe_circuitId e = Some c"
  shows "\<exists>ids. finite ids \<and> card ids = k \<and> ids \<subseteq> oe_id ` set es \<and> (\<forall>i \<in> ids. \<exists>p. queue_of es i = Some (t, p, Stopped c)) \<and>
    queue_of es' = set_phase Waiting ids (queue_of es) \<and> map oe_id es' = map oe_id es"
  using assms
proof (induction es arbitrary: n k es')
  case Nil
  then show ?case by (intro exI [of _ "{}"]) (auto simp: set_phase_def)
next
  case (Cons e es)
  have ok: "rows_ok es" "oe_id e \<notin> oe_id ` set es" using Cons.prems(2) by (auto simp: rows_ok_def)
  show ?case
  proof (cases "oe_tenantId e = t \<and> oe_status e = OPaused \<and> 0 < n")
    case True
    then obtain k' rest where r: "resume_loop t at (n - 1) es = (k', rest)" "k = Suc k'"
        "es' = resumed_row e at # rest"
      using Cons.prems(1) by (auto simp: split_def Let_def prod_eq_iff)
    from Cons.IH [OF r(1) ok(1)] Cons.prems(3) obtain ids where ids: "finite ids" "card ids = k'" "ids \<subseteq> oe_id ` set es"
        "\<forall>i \<in> ids. \<exists>p. queue_of es i = Some (t, p, Stopped c)" "queue_of rest = set_phase Waiting ids (queue_of es)"
        "map oe_id rest = map oe_id es" by auto
    have n: "oe_id e \<notin> ids" using ids(3) ok(2) by blast
    have v: "row_view e = (t, oe_payload e, Stopped c)" using True Cons.prems(3) by (simp add: row_view_def phase_of_def)
    have "queue_of es' = set_phase Waiting (insert (oe_id e) ids) (queue_of (e # es))"
      using v n by (auto simp: r(3) ids(5) set_phase_def row_view_def phase_of_def resumed_row_def fun_eq_iff)
    moreover have "\<forall>i \<in> insert (oe_id e) ids. \<exists>p. queue_of (e # es) i = Some (t, p, Stopped c)" using ids(4) v by simp
    moreover have "finite (insert (oe_id e) ids) \<and> card (insert (oe_id e) ids) = k \<and> insert (oe_id e) ids \<subseteq> oe_id ` set (e # es) \<and>
        map oe_id es' = map oe_id (e # es)" using ids n r(2,3) by (auto simp: resumed_row_def)
    ultimately show ?thesis by blast
  next
    case False
    then obtain rest where r: "resume_loop t at n es = (k, rest)" "es' = e # rest"
      using Cons.prems(1) by (auto simp: split_def Let_def prod_eq_iff)
    from Cons.IH [OF r(1) ok(1)] Cons.prems(3) obtain ids where ids: "finite ids" "card ids = k" "ids \<subseteq> oe_id ` set es"
        "\<forall>i \<in> ids. \<exists>p. queue_of es i = Some (t, p, Stopped c)" "queue_of rest = set_phase Waiting ids (queue_of es)"
        "map oe_id rest = map oe_id es" by auto
    have n: "oe_id e \<notin> ids" using ids(3) ok(2) by blast
    then have "queue_of es' = set_phase Waiting ids (queue_of (e # es))"
      by (auto simp: r(2) ids(5) set_phase_def fun_eq_iff)
    moreover have "\<forall>i \<in> ids. \<exists>p. queue_of (e # es) i = Some (t, p, Stopped c)" using ids(4) n by auto
    moreover have "finite ids \<and> card ids = k \<and> ids \<subseteq> oe_id ` set (e # es) \<and> map oe_id es' = map oe_id (e # es)"
      using ids n r(2) by auto
    ultimately show ?thesis by blast
  qed
qed

lemma resume_rows_queue:
  assumes "resume_rows env t c n d es = Inr (k, es')" "rows_ok es"
  shows "queue_resume t c k (queue_of es) (queue_of es')"
proof -
  from assms obtain at where r: "resume_loop t at n es = (k, es')"
      and c: "\<forall>e \<in> set es. oe_tenantId e = t \<and> oe_status e = OPaused \<longrightarrow> oe_circuitId e = Some c"
    by (auto simp: resume_rows_def list_all_iff)
  have d: "distinct (map oe_id es)" using assms(2) by (simp add: rows_ok_def)
  have "c' = c" if "queue_of es i = Some (t, p, Stopped c')" for i p c'
  proof -
    from that obtain e where "e \<in> set es" "oe_tenantId e = t" "phase_of e = Stopped c'"
      using queue_of_Some [OF d] by (auto simp: row_view_def)
    with c phase_of_Stopped [of e c'] show ?thesis by simp
  qed
  with resume_loop_queue [OF r assms(2) c] show ?thesis unfolding queue_resume_def by blast
qed

lemma written_rows:
  assumes "env_ok env" "rows_ok es"
  obtains es' where "rows_of env (writeEntries env es) es'" "queue_of es' = queue_of es"
  using written_queue [OF assms] by blast

lemma settle_rows:
  assumes "env_ok env" "rows_of env file es" "list_all2 calms es es'"
  obtains es'' where "rows_of env (writeEntries env es') es''" "queue_of es'' = queue_of es'"
  using written_rows [OF assms(1) calms_rows_ok [OF assms(3)]] assms(2) by (auto simp: rows_of_def)

lemma transaction_refines:
  assumes "env_ok env" "rows_of env file es" "transaction env ceiling run file = Inr (x, file')"
  shows "\<exists>es'. rows_of env file' es' \<and> queue_submit\<^sup>*\<^sup>* (queue_of es) (queue_of es')"
proof -
  from assms(2,3) obtain m where m: "run_program env ceiling run es = Inr (x, m)" "file' = writeEntries env m"
    by (auto simp: transaction_def rows_of_def)
  from run_program_queue [OF m(1)] assms(2) have "queue_submit\<^sup>*\<^sup>* (queue_of es) (queue_of m)" "rows_ok m"
    by (simp_all add: rows_of_def)
  with written_rows [OF assms(1)] m(2) show ?thesis by metis
qed

lemma claim_refines:
  assumes "env_ok env" "rows_of env file es" "claimDispatchable env opts file = Inr (claims, file')"
  shows "\<exists>es'. rows_of env file' es' \<and> queue_lease (cl_leaseId opts) (oe_id ` set claims) (queue_of es) (queue_of es') \<and>
    (\<exists>limit. cl_limit opts = NInt limit \<and> int (length claims) \<le> limit) \<and>
    (\<exists>maxBytes ns. cl_maxPayloadBytes opts = NInt maxBytes \<and>
       map (\<lambda>c. outboxPayloadByteLength (oe_payload c)) claims = map Inr ns \<and> sum_list ns \<le> maxBytes) \<and>
    (\<forall>t. cl_tenantId opts = Some t \<longrightarrow> (\<forall>c \<in> set claims. oe_tenantId c = t)) \<and>
    (\<forall>c \<in> set claims. c \<in> set es' \<and> oe_leaseId c = Some (cl_leaseId opts))"
  using assms(3)
proof (cases rule: claimDispatchable_cases)
  case (1 ms limit maxBytes rs rs' at)
  have rs: "rs = es" "rows_ok es" using 1(6) assms(2) by (simp_all add: rows_of_def)
  have "claim_rows env at (cl_tenantId opts) (cl_leaseId opts) ms limit maxBytes es = Inr (claims, rs')" using 1(8) rs(1) by simp
  from claim_rows_leases [OF this] obtain x js where js: "leased_at (cl_leaseId opts) x at es rs' js"
      "claims = map ((!) rs') js" "js \<noteq> [] \<longrightarrow> lease_expiry (ox_host env) at ms = Inr x"
      "\<forall>j \<in> set js. claimable at (paused_tenants es \<union> leased_tenants at es) (es ! j) \<and>
        (\<forall>t. cl_tenantId opts = Some t \<longrightarrow> oe_tenantId (es ! j) = t)"
      "0 \<le> limit \<longrightarrow> int (length claims) \<le> limit"
      "\<exists>ns. map (\<lambda>j. outboxPayloadByteLength (oe_payload (es ! j))) js = map Inr ns \<and> (0 \<le> maxBytes \<longrightarrow> sum_list ns \<le> maxBytes)"
    by blast
  then obtain ns where ns: "map (\<lambda>j. outboxPayloadByteLength (oe_payload (es ! j))) js = map Inr ns" "sum_list ns \<le> maxBytes"
    using 1(4) by auto
  have lim: "int (length claims) \<le> limit" using js(5) 1(3) by simp
  have row: "j < length es \<and> rs' ! j = lease_row (es ! j) (cl_leaseId opts) x at" if "j \<in> set js" for j
    using js(1) that by (simp add: leased_at_def)
  have "map (\<lambda>c. outboxPayloadByteLength (oe_payload c)) claims = map (\<lambda>j. outboxPayloadByteLength (oe_payload (es ! j))) js"
    unfolding js(2) map_map using row by (intro map_cong) (simp_all add: lease_row_def)
  with ns have bytes: "map (\<lambda>c. outboxPayloadByteLength (oe_payload c)) claims = map Inr ns \<and> sum_list ns \<le> maxBytes" by simp
  have opts: "cl_limit opts = NInt limit" "cl_maxPayloadBytes opts = NInt maxBytes"
    using 1(1) by (auto simp: validateClaimOptions_def requirePositive_def split: jsnumber.splits if_splits)
  have tenant: "\<forall>t. cl_tenantId opts = Some t \<longrightarrow> (\<forall>c \<in> set claims. oe_tenantId c = t)"
    using js(4) row by (auto simp: js(2) lease_row_def)
  have lease: "\<forall>c \<in> set claims. oe_leaseId c = Some (cl_leaseId opts)" using row by (auto simp: js(2) lease_row_def)
  have queue: "queue_lease (cl_leaseId opts) (oe_id ` set claims) (queue_of es) (queue_of rs')"
    using claim_rows_queue [OF 1(8)] rs by simp
  have "rs' ! j \<in> set rs'" if "j \<in> set js" for j
  proof (rule nth_mem)
    show "j < length rs'" using row [OF that] js(1) by (simp add: leased_at_def)
  qed
  then have mem: "set claims \<subseteq> set rs'" by (auto simp: js(2))
  show ?thesis
  proof (cases "claims = []")
    case True
    then have "file' = file" "rs' = es" using 1(9) claim_rows_none 1(8) rs(1) by auto
    with True queue assms(2) opts lim bytes show ?thesis by (intro exI [of _ es]) auto
  next
    case False
    have st: "\<forall>j \<in> set js. oe_status (es ! j) \<in> {OPending, OLeased}" using js(4) claimable_status by blast
    have x: "js \<noteq> [] \<longrightarrow> iso_text x" using js(3) lease_expiry_iso by blast
    have ok: "rows_ok rs'" using leased_rows_ok [OF js(1) rs(2) 1(2) x normalizeTimestamp_iso [OF 1(7)] st] .
    have "rows_of env file' (sort_by (compareEntries env) (sort_by (compareEntries env) rs'))"
      using rows_of_write [OF assms(1) ok] False 1(9) by simp
    moreover have "queue_of (sort_by (compareEntries env) (sort_by (compareEntries env) rs')) = queue_of rs'"
      using ok by (simp add: rows_ok_def)
    ultimately show ?thesis using queue opts lim bytes tenant lease mem
      by (intro exI [of _ "sort_by (compareEntries env) (sort_by (compareEntries env) rs')"]) auto
  qed
qed

lemma dispatched_refines:
  assumes "env_ok env" "rows_of env file es" "markDispatched env rowId l d file = Inr (s, file')"
  shows "\<exists>es'. rows_of env file' es' \<and> queue_settle rowId l Done (queue_of es) (queue_of es')"
proof -
  from assms(2,3) obtain m where m: "dispatch_row env rowId l d es = Inr (s, m)" "file' = writeEntries env m" "rows_ok es"
    by (auto simp: markDispatched_def rows_of_def)
  from settle_rows [OF assms(1,2) dispatch_row_calms [OF m(1)]] dispatch_row_queue [OF m(1,3)] m(2) show ?thesis by metis
qed

lemma failed_refines:
  assumes "env_ok env" "rows_of env file es" "markFailed env rowId err opts file = Inr (s, file')"
  shows "\<exists>es'. rows_of env file' es' \<and>
    queue_settle rowId (fo_leaseId opts) (failure_phase env opts) (queue_of es) (queue_of es')"
proof -
  from assms(2,3) obtain m where m: "fail_row env rowId err opts es = Inr (s, m)" "file' = writeEntries env m" "rows_ok es"
    by (auto simp: markFailed_def rows_of_def)
  from settle_rows [OF assms(1,2) fail_row_calms [OF assms(1) m(1)]] fail_row_queue [OF m(1,3)] m(2) show ?thesis by metis
qed

lemma resumed_refines:
  assumes "env_ok env" "rows_of env file es" "resumePaused env t c limit d file = Inr (k, file')"
  shows "\<exists>es'. rows_of env file' es' \<and> queue_resume t c k (queue_of es) (queue_of es')"
proof -
  from assms(2,3) obtain n m where m: "resume_rows env t c n d es = Inr (k, m)" "rows_ok es"
      "file' = (if 0 < k then writeEntries env m else file)"
    by (auto simp: resumePaused_def rows_of_def)
  note q = resume_rows_queue [OF m(1,2)]
  show ?thesis
  proof (cases "0 < k")
    case True
    with settle_rows [OF assms(1,2) resume_rows_calms [OF m(1)]] q m(3) show ?thesis by metis
  next
    case False
    then have "queue_of m = queue_of es" using q by (auto simp: queue_resume_def set_phase_def fun_eq_iff)
    with False q m(3) assms(2) show ?thesis by auto
  qed
qed

text \<open>No abstract operation removes work or changes its tenant or payload.\<close>

definition work_kept :: "queue \<Rightarrow> queue \<Rightarrow> bool" where
  "work_kept q q' \<longleftrightarrow> (\<forall>i t p ph. q i = Some (t, p, ph) \<longrightarrow> (\<exists>ph'. q' i = Some (t, p, ph')))"

lemma work_kept_refl: "work_kept q q"
  by (simp add: work_kept_def)

lemma work_kept_trans: "work_kept q r \<Longrightarrow> work_kept r s \<Longrightarrow> work_kept q s"
  unfolding work_kept_def by blast

lemma work_kept_phase: "work_kept q (set_phase ph ids q)"
  by (auto simp: work_kept_def set_phase_def)

lemma work_kept_submits: "queue_submit\<^sup>*\<^sup>* q q' \<Longrightarrow> work_kept q q'"
proof (induction rule: rtranclp_induct)
  case (step y z)
  have "work_kept y z" using step.hyps(2) by cases (auto simp: work_kept_def)
  with step.IH show ?case by (rule work_kept_trans)
qed (rule work_kept_refl)

lemma work_kept_operations:
  "queue_lease l ids q q' \<Longrightarrow> work_kept q q'"
  "queue_settle i lease ph q q' \<Longrightarrow> work_kept q q'"
  "queue_resume t c k q q' \<Longrightarrow> work_kept q q'"
  using work_kept_phase by (auto simp: queue_lease_def queue_resume_def, auto simp: queue_settle_def work_kept_def)

definition outbox_extends :: "outbox_env \<Rightarrow> string \<times> snapshot \<Rightarrow> string \<times> snapshot \<Rightarrow> bool" where
  "outbox_extends env s s' \<longleftrightarrow> fst s \<le> fst s' \<and>
     (\<forall>es. rows_of env (snd s) es \<longrightarrow> (\<exists>es'. rows_of env (snd s') es' \<and> work_kept (queue_of es) (queue_of es')))"

lemma outbox_step_extends: "outbox_step env ceiling s s' \<Longrightarrow> outbox_extends env s s'"
proof (erule outbox_stepE, goal_cases)
  case (1 n u run fl fl' clock)
  then show ?case using transaction_refines [OF 1(3) _ 1(4)] work_kept_submits by (force simp: outbox_extends_def)
next
  case (2 n u opts fl claims fl' at clock)
  then show ?case using claim_refines [OF 2(3) _ 2(4)] work_kept_operations(1) by (fastforce simp: outbox_extends_def)
next
  case (3 n u rowId lease d fl e fl' clock)
  then show ?case using dispatched_refines [OF 3(3) _ 3(4)] work_kept_operations(2) by (force simp: outbox_extends_def)
next
  case (4 n u rowId err fo fl e fl' clock)
  then show ?case using failed_refines [OF 4(3) _ 4(4)] work_kept_operations(2) by (force simp: outbox_extends_def)
next
  case (5 n u tenant circuit limit d fl k fl' clock)
  then show ?case using resumed_refines [OF 5(3) _ 5(4)] work_kept_operations(3) by (force simp: outbox_extends_def)
qed

text \<open>Every run keeps what was enqueued.\<close>

lemma outbox_extends_refl: "outbox_extends env s s"
  using work_kept_refl by (auto simp: outbox_extends_def)

lemma outbox_extends_trans: "outbox_extends env s t \<Longrightarrow> outbox_extends env t u \<Longrightarrow> outbox_extends env s u"
  unfolding outbox_extends_def using work_kept_trans order_trans by meson

interpretation outbox_history: monotone_system outbox_start "outbox_step env ceiling" "outbox_inv env" "outbox_extends env" for env ceiling
  by unfold_locales (auto intro: outbox_extends_refl outbox_extends_trans outbox_step_extends)

definition outbox_reachable :: "outbox_env \<Rightarrow> int option \<Rightarrow> string \<times> snapshot \<Rightarrow> bool" where
  "outbox_reachable env ceiling s \<longleftrightarrow> (\<exists>s0. outbox_start s0 \<and> (outbox_step env ceiling)\<^sup>*\<^sup>* s0 s)"

lemma outbox_reachable_rows:
  assumes "outbox_reachable env ceiling s"
  shows "\<exists>es. rows_of env (snd s) es \<and> exclusive (fst s) es"
proof -
  from assms obtain s0 where "outbox_start s0" "(outbox_step env ceiling)\<^sup>*\<^sup>* s0 s" by (auto simp: outbox_reachable_def)
  then have "outbox_inv env s" by (rule outbox.reachable_inv)
  then show ?thesis by (simp add: outbox_inv_def)
qed

section \<open>Properties\<close>

text \<open>C18. Mutual exclusion: in every state the file outbox reaches, the snapshot reads back as valid rows with distinct ids, and at any time from the latest claim on a tenant has at most one leased row whose lease has not expired.\<close>

theorem outbox_single_lease:
  assumes "outbox_reachable env ceiling (clock, file)"
  shows "\<exists>es. readEntries env file = Inr es \<and> rows_ok es \<and> (\<forall>at t. clock \<le> at \<longrightarrow> length (filter (live at t) es) \<le> 1)"
  using outbox_reachable_rows [OF assms] exclusive_later by (force simp: rows_of_def exclusive_def)

text \<open>C17. The file adapter refines an abstract queue: on a valid snapshot each successful operation is an abstract one. A transaction submits waiting work; a claim leases, within its row and byte limits and its tenant, at most one row per tenant, none of a tenant with a stopped row, and only rows that wait or whose lease is replaced; a settlement takes exactly the lease the row holds and moves it to the phase of its disposition; resuming re-arms as many stopped rows as it reports, under the expected circuit only.\<close>

theorem file_outbox_refines_queue:
  assumes "env_ok env" "rows_of env file es"
  shows "(transaction env ceiling run file = Inr (x, queued) \<longrightarrow>
      (\<exists>es'. rows_of env queued es' \<and> queue_submit\<^sup>*\<^sup>* (queue_of es) (queue_of es'))) \<and>
    (claimDispatchable env claim file = Inr (claims, leased) \<longrightarrow>
      (\<exists>es'. rows_of env leased es' \<and> queue_lease (cl_leaseId claim) (oe_id ` set claims) (queue_of es) (queue_of es') \<and>
        (\<exists>limit. cl_limit claim = NInt limit \<and> int (length claims) \<le> limit) \<and>
        (\<exists>maxBytes ns. cl_maxPayloadBytes claim = NInt maxBytes \<and>
           map (\<lambda>c. outboxPayloadByteLength (oe_payload c)) claims = map Inr ns \<and> sum_list ns \<le> maxBytes) \<and>
        (\<forall>t. cl_tenantId claim = Some t \<longrightarrow> (\<forall>c \<in> set claims. oe_tenantId c = t)) \<and>
        (\<forall>c \<in> set claims. c \<in> set es' \<and> oe_leaseId c = Some (cl_leaseId claim)))) \<and>
    (markDispatched env rowId lease at file = Inr (e, settled) \<longrightarrow>
      (\<exists>es'. rows_of env settled es' \<and> queue_settle rowId lease Done (queue_of es) (queue_of es'))) \<and>
    (markFailed env rowId error fo file = Inr (e, failed) \<longrightarrow>
      (\<exists>es'. rows_of env failed es' \<and> queue_settle rowId (fo_leaseId fo) (failure_phase env fo) (queue_of es) (queue_of es'))) \<and>
    (resumePaused env t circuit limit at file = Inr (k, resumed) \<longrightarrow>
      (\<exists>es'. rows_of env resumed es' \<and> queue_resume t circuit k (queue_of es) (queue_of es')))"
  using transaction_refines [OF assms] claim_refines [OF assms] dispatched_refines [OF assms] failed_refines [OF assms]
    resumed_refines [OF assms] by (intro conjI impI) simp_all

text \<open>Enqueued evidence is never lost or altered: along every run from a reachable state each row keeps its identifier, tenant and payload.\<close>

theorem outbox_keeps_evidence:
  assumes "outbox_reachable env ceiling s" "(outbox_step env ceiling)\<^sup>*\<^sup>* s s'" "readEntries env (snd s) = Inr es"
  shows "\<exists>es'. readEntries env (snd s') = Inr es' \<and>
    (\<forall>e \<in> set es. \<exists>e' \<in> set es'. oe_id e' = oe_id e \<and> oe_tenantId e' = oe_tenantId e \<and> oe_payload e' = oe_payload e)"
proof -
  have inv: "outbox_inv env s" using outbox_reachable_rows [OF assms(1)] by (simp add: outbox_inv_def)
  with assms(3) have rows: "rows_of env (snd s) es" by (auto simp: outbox_inv_def rows_of_def)
  from outbox_history.steps_before [OF assms(2) inv] rows obtain es' where
    es': "rows_of env (snd s') es'" "work_kept (queue_of es) (queue_of es')" by (auto simp: outbox_extends_def)
  have d: "distinct (map oe_id es)" "distinct (map oe_id es')" using rows es'(1) by (simp_all add: rows_of_def rows_ok_def)
  have "\<exists>e' \<in> set es'. oe_id e' = oe_id e \<and> oe_tenantId e' = oe_tenantId e \<and> oe_payload e' = oe_payload e" if "e \<in> set es" for e
  proof -
    have "queue_of es (oe_id e) = Some (oe_tenantId e, oe_payload e, phase_of e)"
      using queue_of_Some [OF d(1)] that by (auto simp: row_view_def)
    with es'(2) obtain ph where "queue_of es' (oe_id e) = Some (oe_tenantId e, oe_payload e, ph)"
      unfolding work_kept_def by blast
    then show ?thesis unfolding queue_of_Some [OF d(2)] by (auto simp: row_view_def)
  qed
  with es'(1) show ?thesis by (auto simp: rows_of_def)
qed

section \<open>Witnesses\<close>

definition sample_outbox :: outbox_env where
  "sample_outbox = \<lparr>ox_host = \<lparr>parseDate = (\<lambda>_. Some 0), now = 0, randomUUID = ''0''\<rparr>,
     localeCompare = (\<lambda>a b. if a < b then -1 else if a = b then 0 else 1), ox_ellipsis = CHR ''.''\<rparr>"

definition sample_payload :: jsval where
  "sample_payload = JObj [(''schemaVersion'', JStr ''2026-06-23''), (''mutationBinding'', JStr ''best_effort''),
     (''records'', JArr [JObj [(''scope'', JObj [(''tenantId'', JStr ''t1'')])]]), (''edges'', JArr [])]"

definition sample_program :: "unit host_program" where
  "sample_program = Enqueue \<lparr>oi_id = ''e1'', oi_tenantId = ''t1'', oi_payload = sample_payload, oi_availableAt = None\<rparr>
     (\<lambda>r. Return ())"

definition sample_claim :: outbox_claim_options where
  "sample_claim = \<lparr>cl_tenantId = Some ''t1'', cl_now = None, cl_leaseId = ''l1'', cl_leaseMs = NInt 60000, cl_limit = NInt 5,
     cl_maxPayloadBytes = NInt 1000\<rparr>"

abbreviation epoch_text :: string where "epoch_text \<equiv> ''1970-01-01T00:00:00.000Z''"

definition sample_row :: outbox_entry where
  "sample_row = \<lparr>oe_id = ''e1'', oe_tenantId = ''t1'', oe_payload = sample_payload, oe_availableAt = epoch_text,
     oe_status = OPending, oe_attempts = 0, oe_createdAt = epoch_text, oe_updatedAt = epoch_text, oe_dispatchedAt = None,
     oe_lastError = None, oe_leaseId = None, oe_leaseExpiresAt = None, oe_circuitId = None\<rparr>"

definition sample_leased :: outbox_entry where
  "sample_leased = lease_row sample_row ''l1'' ''1970-01-01T00:01:00.000Z'' epoch_text"

definition sample_queued :: snapshot where
  "sample_queued = Some (JArr [entry_json sample_row])"

definition sample_claimed :: snapshot where
  "sample_claimed = Some (JArr [entry_json sample_leased])"

lemma sample_outbox_ok: "env_ok sample_outbox" "moment sample_outbox 0 ''0'' = sample_outbox"
proof -
  have "sanitizeCircuitId (Some ''local_0'') \<noteq> None" by code_simp
  then show "env_ok sample_outbox" by (simp add: env_ok_def sample_outbox_def)
  show "moment sample_outbox 0 ''0'' = sample_outbox" by (simp add: moment_def sample_outbox_def)
qed

lemma sample_transaction: "transaction sample_outbox None sample_program None = Inr ((), sample_queued)"
  by code_simp

lemma sample_claims: "claimDispatchable sample_outbox sample_claim sample_queued = Inr ([sample_leased], sample_claimed)"
  by code_simp

lemma sample_steps:
  "outbox_step sample_outbox None ([], None) ([], sample_queued)"
  "outbox_step sample_outbox None ([], sample_queued) (epoch_text, sample_claimed)"
proof -
  note m = sample_outbox_ok(2)
  show "outbox_step sample_outbox None ([], None) ([], sample_queued)"
    using ox_transaction [of sample_outbox 0 "''0''" None sample_program None sample_queued "[]"] sample_outbox_ok sample_transaction
    by (simp add: m)
  have "normalizeTimestamp (ox_host sample_outbox) (date_or_now (ox_host sample_outbox) (cl_now sample_claim)) = Inr epoch_text"
    by code_simp
  then show "outbox_step sample_outbox None ([], sample_queued) (epoch_text, sample_claimed)"
    using ox_claim [of sample_outbox 0 "''0''" sample_claim sample_queued "[sample_leased]" sample_claimed epoch_text "[]" None]
      sample_outbox_ok sample_claims by (simp add: m)
qed

lemma sample_outbox_reachable:
  "outbox_reachable sample_outbox None ([], sample_queued)"
  "outbox_reachable sample_outbox None (epoch_text, sample_claimed)"
  using sample_steps unfolding outbox_reachable_def outbox_start_def by (meson rtranclp.intros snd_conv)+

lemma outbox_single_lease_witness:
  "\<exists>es. readEntries sample_outbox sample_claimed = Inr es \<and> rows_ok es \<and> length (filter (live epoch_text ''t1'') es) \<le> 1"
  using outbox_single_lease [OF sample_outbox_reachable(2)] by blast

lemma outbox_keeps_evidence_witness:
  "\<exists>es'. readEntries sample_outbox sample_claimed = Inr es' \<and> (\<exists>e \<in> set es'. oe_id e = ''e1'' \<and> oe_payload e = sample_payload)"
proof -
  obtain es where es: "readEntries sample_outbox sample_queued = Inr es"
    using outbox_reachable_rows [OF sample_outbox_reachable(1)] by (auto simp: rows_of_def)
  have "readEntries sample_outbox sample_queued = Inr [sample_row]" by code_simp
  then have e: "es = [sample_row]" by (simp add: es)
  have "(outbox_step sample_outbox None)\<^sup>*\<^sup>* ([], sample_queued) (epoch_text, sample_claimed)" using sample_steps(2) by blast
  from outbox_keeps_evidence [OF sample_outbox_reachable(1) this] es e show ?thesis by (auto simp: sample_row_def)
qed

lemma file_outbox_refines_queue_witness:
  "\<exists>es es'. rows_of sample_outbox sample_queued es \<and> rows_of sample_outbox sample_claimed es' \<and>
     queue_lease ''l1'' {''e1''} (queue_of es) (queue_of es')"
proof -
  obtain es where es: "rows_of sample_outbox sample_queued es"
    using outbox_reachable_rows [OF sample_outbox_reachable(1)] by auto
  note lease = file_outbox_refines_queue [OF sample_outbox_ok(1) es, where claim = sample_claim and claims = "[sample_leased]"
    and leased = sample_claimed, THEN conjunct2, THEN conjunct1, THEN mp, OF sample_claims]
  have "oe_id ` set [sample_leased] = {''e1''}" "cl_leaseId sample_claim = ''l1''"
    by (simp_all add: sample_leased_def lease_row_def sample_row_def sample_claim_def)
  then show ?thesis using lease es by (simp only:) blast
qed

end
