(* ===== verification/SqlOutbox.thy ===== *)
theory SqlOutbox
  imports OutboxQueue JsonText
begin

text \<open>
  The SQL outbox of \<^verbatim>\<open>storage/src/outbox-sql.ts\<close>: the statements it sends, with their text and
  their effect on the queue table, and the adapter's operations over them.

  A table is the list of its rows in the order of insertion. A statement is the text of one of the
  builder methods; \<open>execute\<close> gives it the meaning that the text has in SQL, with the parameters
  taken by position. Every operation runs in one transaction of the host, so an error leaves the
  table as it was, and concurrent operations are serialised. Host parameters: the collation of the
  text columns, the envelope in which the driver returns rows and the number that a JSON literal
  denotes. The members of a stored entry are written in the order of the record.
\<close>

datatype sql_dialect = Postgres | Mysql

record sql_engine =
  sq_env :: outbox_env
  sq_number :: "string \<Rightarrow> jsnumber"
  sq_compare :: "string \<Rightarrow> string \<Rightarrow> int"
  sq_result :: "jsval list \<Rightarrow> jsval"
  sq_dialect :: sql_dialect

record sql_row =
  sr_id :: string
  sr_tenant_id :: string
  sr_payload_canonical :: string
  sr_entry_json :: string
  sr_status :: string
  sr_attempts :: int
  sr_available_at :: string
  sr_created_at :: string
  sr_updated_at :: string
  sr_dispatched_at :: "string option"
  sr_last_error :: "string option"

type_synonym sql_table = "sql_row list"

section \<open>Identifiers and results\<close>

definition is_word_start :: "char \<Rightarrow> bool" where
  "is_word_start c \<longleftrightarrow> is_upper c \<or> is_lower c \<or> c = CHR ''_''"

text \<open>\<open>/^[A-Za-z_][A-Za-z0-9_]*$/\<close>\<close>

definition is_sql_identifier :: "string \<Rightarrow> bool" where
  "is_sql_identifier s \<longleftrightarrow>
     s \<noteq> [] \<and> is_word_start (hd s) \<and> list_all (\<lambda>c. is_word_start c \<or> is_digit c) (tl s)"

fun split_dots :: "string \<Rightarrow> string list" where
  "split_dots [] = [[]]"
| "split_dots (c # s) =
     (case split_dots s of
        [] \<Rightarrow> [[c]]
      | part # parts \<Rightarrow> if c = CHR ''.'' then [] # part # parts else (c # part) # parts)"

definition quoteTableName :: "string \<Rightarrow> sql_dialect \<Rightarrow> string throws" where
  "quoteTableName tableName dialect =
     (let parts = split_dots tableName;
          quote = (case dialect of Postgres \<Rightarrow> DQ | Mysql \<Rightarrow> CHR ''`'')
      in if length parts = 0 \<or> 2 < length parts \<or> \<not> list_all is_sql_identifier parts
         then Inl (TypeError ''tableName must be an identifier or schema-qualified identifier'')
         else Inr (join ''.'' (map (\<lambda>part. quote # part @ [quote]) parts)))"

definition DEFAULT_SQL_OUTBOX_TABLE :: string where
  "DEFAULT_SQL_OUTBOX_TABLE = ''veritio_outbox_entries''"

text \<open>The constructor: the quoted table name that every statement uses.\<close>

definition sqlOutboxAdapter :: "sql_dialect \<Rightarrow> string option \<Rightarrow> string throws" where
  "sqlOutboxAdapter dialect tableName =
     quoteTableName (case tableName of None \<Rightarrow> DEFAULT_SQL_OUTBOX_TABLE | Some t \<Rightarrow> t) dialect"

text \<open>The rows in a driver's result; iterating or indexing what is no array throws.\<close>

definition rowsFromResult :: "jsval \<Rightarrow> jsval list throws" where
  "rowsFromResult result =
     (let rows = (case result of
          JArr vs \<Rightarrow> if length vs = 2 \<and> is_array (vs ! 0) then vs ! 0 else JArr vs
        | _ \<Rightarrow> js_prop result ''rows'')
      in case rows of JArr vs \<Rightarrow> Inr vs | _ \<Rightarrow> Inl (TypeError ''rows is not an array''))"

definition firstRow :: "jsval \<Rightarrow> jsval option throws" where
  "firstRow result =
     andThen (rowsFromResult result) (\<lambda>rows. Inr (case rows of [] \<Rightarrow> None | row # _ \<Rightarrow> Some row))"

definition readString :: "jsval \<Rightarrow> string \<Rightarrow> string throws" where
  "readString row field =
     (case js_prop row field of JStr s \<Rightarrow> Inr s | _ \<Rightarrow> Inl (TypeError ''stored outbox entry integrity check failed''))"

definition entryFromSqlRow :: "sql_engine \<Rightarrow> jsval \<Rightarrow> outbox_entry throws" where
  "entryFromSqlRow engine row =
     andThen (readString row ''entry_json'') (\<lambda>text.
     andThen (json_parse (sq_number engine) text) (\<lambda>parsed.
     andThen (validateStoredEntry (ox_host (sq_env engine)) parsed) (\<lambda>_.
     let entry = entry_of_json parsed in
     andThen (canonicalJson (oe_payload entry)) (\<lambda>canonical.
     andThen (readString row ''payload_canonical'') (\<lambda>stored.
     if canonical \<noteq> stored then Inl (TypeError ''stored outbox entry integrity check failed'') else Inr entry)))))"

section \<open>Statements\<close>

datatype sql_statement =
    SelectById bool
  | SelectEntries bool "int option"
  | SelectDispatchable bool "int option"
  | SelectClaimable int
  | LockTenant
  | SelectPausedForUpdate
  | InsertEntry
  | UpdateEntry

definition placeholder :: "sql_dialect \<Rightarrow> nat \<Rightarrow> string" where
  "placeholder dialect index = (case dialect of Postgres \<Rightarrow> CHR ''$'' # show_nat index | Mysql \<Rightarrow> ''?'')"

definition limitSql :: "sql_dialect \<Rightarrow> nat \<Rightarrow> int option \<Rightarrow> string" where
  "limitSql dialect limitIndex limitValue = (case limitValue of
     None \<Rightarrow> ''''
   | Some n \<Rightarrow> '' LIMIT '' @ (case dialect of Mysql \<Rightarrow> show_int n | Postgres \<Rightarrow> placeholder dialect limitIndex))"

definition selectByIdSql :: "sql_dialect \<Rightarrow> string \<Rightarrow> bool \<Rightarrow> string" where
  "selectByIdSql dialect table forUpdate =
     ''SELECT payload_canonical, entry_json FROM '' @ table @ '' WHERE id = '' @ placeholder dialect 1 @ '' LIMIT 1''
     @ (if forUpdate then '' FOR UPDATE'' else '''')"

definition selectEntriesSql :: "sql_dialect \<Rightarrow> string \<Rightarrow> bool \<Rightarrow> int option \<Rightarrow> string" where
  "selectEntriesSql dialect table tenantScoped limitValue =
     ''SELECT payload_canonical, entry_json FROM '' @ table
     @ (if tenantScoped then '' WHERE tenant_id = '' @ placeholder dialect 1 else '''')
     @ '' ORDER BY created_at ASC, id ASC'' @ limitSql dialect (if tenantScoped then 2 else 1) limitValue"

definition blockerSql :: "sql_dialect \<Rightarrow> string \<Rightarrow> nat \<Rightarrow> string" where
  "blockerSql dialect table index =
     '' AND NOT EXISTS (SELECT 1 FROM '' @ table
     @ '' AS blocker WHERE blocker.tenant_id = candidate.tenant_id AND (blocker.status = '' @ placeholder dialect index
     @ '' OR (blocker.status = '' @ placeholder dialect (index + 1) @ '' AND blocker.available_at > ''
     @ placeholder dialect (index + 2) @ '')))''"

definition selectDispatchableSql :: "sql_dialect \<Rightarrow> string \<Rightarrow> bool \<Rightarrow> int option \<Rightarrow> string" where
  "selectDispatchableSql dialect table tenantScoped limitValue =
     ''SELECT candidate.payload_canonical, candidate.entry_json FROM '' @ table
     @ '' AS candidate WHERE candidate.status = '' @ placeholder dialect 1
     @ '' AND candidate.available_at <= '' @ placeholder dialect 2 @ blockerSql dialect table 3
     @ (if tenantScoped then '' AND candidate.tenant_id = '' @ placeholder dialect 6 else '''')
     @ '' ORDER BY candidate.created_at ASC, candidate.id ASC'' @ limitSql dialect (if tenantScoped then 7 else 6) limitValue"

definition selectClaimableSql :: "sql_dialect \<Rightarrow> string \<Rightarrow> int \<Rightarrow> string" where
  "selectClaimableSql dialect table limitValue =
     ''SELECT candidate.payload_canonical, candidate.entry_json FROM '' @ table
     @ '' AS candidate WHERE (candidate.status = '' @ placeholder dialect 1 @ '' OR candidate.status = '' @ placeholder dialect 2
     @ '') AND candidate.available_at <= '' @ placeholder dialect 3 @ blockerSql dialect table 4
     @ '' AND candidate.tenant_id = '' @ placeholder dialect 7
     @ '' ORDER BY candidate.created_at ASC, candidate.id ASC'' @ limitSql dialect 8 (Some limitValue)
     @ '' FOR UPDATE SKIP LOCKED''"

definition lockTenantSql :: "sql_dialect \<Rightarrow> string \<Rightarrow> string" where
  "lockTenantSql dialect table =
     ''SELECT id FROM '' @ table @ '' WHERE tenant_id = '' @ placeholder dialect 1 @ '' ORDER BY id ASC LIMIT 1 FOR UPDATE''"

definition selectPausedForUpdateSql :: "sql_dialect \<Rightarrow> string \<Rightarrow> string" where
  "selectPausedForUpdateSql dialect table =
     ''SELECT payload_canonical, entry_json FROM '' @ table @ '' WHERE tenant_id = '' @ placeholder dialect 1
     @ '' AND status = '' @ placeholder dialect 2 @ '' ORDER BY created_at ASC, id ASC FOR UPDATE''"

definition insertSql :: "sql_dialect \<Rightarrow> string \<Rightarrow> string" where
  "insertSql dialect table =
     ''INSERT INTO '' @ table @ '' (id, tenant_id, payload_canonical, entry_json, status, attempts, ''
     @ ''available_at, created_at, updated_at, dispatched_at, last_error) VALUES (''
     @ join '', '' (map (placeholder dialect) [1..<12]) @ '')''"

definition updateSql :: "sql_dialect \<Rightarrow> string \<Rightarrow> string" where
  "updateSql dialect table =
     ''UPDATE '' @ table @ '' SET entry_json = '' @ placeholder dialect 1 @ '', status = '' @ placeholder dialect 2
     @ '', attempts = '' @ placeholder dialect 3 @ '', available_at = '' @ placeholder dialect 4
     @ '', updated_at = '' @ placeholder dialect 5 @ '', dispatched_at = '' @ placeholder dialect 6
     @ '', last_error = '' @ placeholder dialect 7 @ '' WHERE id = '' @ placeholder dialect 8"

definition statement_sql :: "sql_dialect \<Rightarrow> string \<Rightarrow> sql_statement \<Rightarrow> string" where
  "statement_sql dialect table statement = (case statement of
     SelectById forUpdate \<Rightarrow> selectByIdSql dialect table forUpdate
   | SelectEntries tenantScoped limitValue \<Rightarrow> selectEntriesSql dialect table tenantScoped limitValue
   | SelectDispatchable tenantScoped limitValue \<Rightarrow> selectDispatchableSql dialect table tenantScoped limitValue
   | SelectClaimable limitValue \<Rightarrow> selectClaimableSql dialect table limitValue
   | LockTenant \<Rightarrow> lockTenantSql dialect table
   | SelectPausedForUpdate \<Rightarrow> selectPausedForUpdateSql dialect table
   | InsertEntry \<Rightarrow> insertSql dialect table
   | UpdateEntry \<Rightarrow> updateSql dialect table)"

section \<open>What the statements do\<close>

text \<open>The parameter of placeholder \<open>i\<close>, and the comparisons of a text column with it. A comparison
  with \<open>NULL\<close> is not true.\<close>

definition nth_param :: "jsval list \<Rightarrow> nat \<Rightarrow> jsval" where
  "nth_param params i = (if 1 \<le> i \<and> i \<le> length params then params ! (i - 1) else JUndefined)"

definition col_compares :: "sql_engine \<Rightarrow> (int \<Rightarrow> bool) \<Rightarrow> string \<Rightarrow> jsval \<Rightarrow> bool" where
  "col_compares engine rel col p = (case p of JStr s \<Rightarrow> rel (sq_compare engine col s) | _ \<Rightarrow> False)"

abbreviation col_eq :: "sql_engine \<Rightarrow> string \<Rightarrow> jsval \<Rightarrow> bool" where
  "col_eq engine \<equiv> col_compares engine (\<lambda>c. c = 0)"

text \<open>\<open>ORDER BY created_at ASC, id ASC\<close>\<close>

definition queue_order :: "sql_engine \<Rightarrow> sql_row \<Rightarrow> sql_row \<Rightarrow> int" where
  "queue_order engine a b =
     (let c = sq_compare engine (sr_created_at a) (sr_created_at b) in
      if c \<noteq> 0 then c else sq_compare engine (sr_id a) (sr_id b))"

text \<open>\<open>LIMIT\<close>: a placeholder in the Postgres dialect, the number itself in the MySQL dialect.\<close>

definition limit_rows :: "sql_engine \<Rightarrow> jsval list \<Rightarrow> nat \<Rightarrow> int option \<Rightarrow> 'a list \<Rightarrow> 'a list" where
  "limit_rows engine params limitIndex limitValue rows = (case limitValue of
     None \<Rightarrow> rows
   | Some n \<Rightarrow> (case sq_dialect engine of
        Mysql \<Rightarrow> take (nat n) rows
      | Postgres \<Rightarrow> (case nth_param params limitIndex of JNum (NInt m) \<Rightarrow> take (nat m) rows | _ \<Rightarrow> rows)))"

definition blocked_row :: "sql_engine \<Rightarrow> jsval list \<Rightarrow> nat \<Rightarrow> sql_table \<Rightarrow> sql_row \<Rightarrow> bool" where
  "blocked_row engine params index table candidate \<longleftrightarrow>
     list_ex (\<lambda>blocker. sq_compare engine (sr_tenant_id blocker) (sr_tenant_id candidate) = 0 \<and>
       (col_eq engine (sr_status blocker) (nth_param params index) \<or>
        col_eq engine (sr_status blocker) (nth_param params (index + 1)) \<and>
        col_compares engine (\<lambda>c. 0 < c) (sr_available_at blocker) (nth_param params (index + 2)))) table"

definition dispatchable_row :: "sql_engine \<Rightarrow> jsval list \<Rightarrow> bool \<Rightarrow> sql_table \<Rightarrow> sql_row \<Rightarrow> bool" where
  "dispatchable_row engine params tenantScoped table row \<longleftrightarrow>
     col_eq engine (sr_status row) (nth_param params 1) \<and>
     col_compares engine (\<lambda>c. c \<le> 0) (sr_available_at row) (nth_param params 2) \<and>
     \<not> blocked_row engine params 3 table row \<and>
     (tenantScoped \<longrightarrow> col_eq engine (sr_tenant_id row) (nth_param params 6))"

definition claimable_row :: "sql_engine \<Rightarrow> jsval list \<Rightarrow> sql_table \<Rightarrow> sql_row \<Rightarrow> bool" where
  "claimable_row engine params table row \<longleftrightarrow>
     (col_eq engine (sr_status row) (nth_param params 1) \<or> col_eq engine (sr_status row) (nth_param params 2)) \<and>
     col_compares engine (\<lambda>c. c \<le> 0) (sr_available_at row) (nth_param params 3) \<and>
     \<not> blocked_row engine params 4 table row \<and>
     col_eq engine (sr_tenant_id row) (nth_param params 7)"

definition selected_json :: "sql_row \<Rightarrow> jsval" where
  "selected_json row = JObj [(''payload_canonical'', JStr (sr_payload_canonical row)), (''entry_json'', JStr (sr_entry_json row))]"

text \<open>Values for the columns; a value of another type is refused.\<close>

definition text_value :: "jsval \<Rightarrow> string throws" where
  "text_value p = (case p of JStr s \<Rightarrow> Inr s | _ \<Rightarrow> Inl (ExternalError ''text column''))"

definition nullable_value :: "jsval \<Rightarrow> string option throws" where
  "nullable_value p = (case p of JStr s \<Rightarrow> Inr (Some s) | JNull \<Rightarrow> Inr None | _ \<Rightarrow> Inl (ExternalError ''text column''))"

definition integer_value :: "jsval \<Rightarrow> int throws" where
  "integer_value p = (case p of JNum (NInt i) \<Rightarrow> Inr i | _ \<Rightarrow> Inl (ExternalError ''integer column''))"

definition insert_row :: "sql_engine \<Rightarrow> jsval list \<Rightarrow> sql_table \<Rightarrow> sql_table throws" where
  "insert_row engine params table =
     andThen (collect (map (\<lambda>i. text_value (nth_param params i)) [1, 2, 3, 4, 5, 7, 8, 9])) (\<lambda>texts.
     andThen (integer_value (nth_param params 6)) (\<lambda>attempts.
     andThen (nullable_value (nth_param params 10)) (\<lambda>dispatchedAt.
     andThen (nullable_value (nth_param params 11)) (\<lambda>lastError.
     let row = \<lparr>sr_id = texts ! 0, sr_tenant_id = texts ! 1, sr_payload_canonical = texts ! 2, sr_entry_json = texts ! 3,
       sr_status = texts ! 4, sr_attempts = attempts, sr_available_at = texts ! 5, sr_created_at = texts ! 6,
       sr_updated_at = texts ! 7, sr_dispatched_at = dispatchedAt, sr_last_error = lastError\<rparr> in
     if list_ex (\<lambda>other. sq_compare engine (sr_id other) (sr_id row) = 0) table
     then Inl (ExternalError ''duplicate key'') else Inr (table @ [row])))))"

definition update_rows :: "sql_engine \<Rightarrow> jsval list \<Rightarrow> sql_table \<Rightarrow> sql_table throws" where
  "update_rows engine params table =
     andThen (collect (map (\<lambda>i. text_value (nth_param params i)) [1, 2, 4, 5])) (\<lambda>texts.
     andThen (integer_value (nth_param params 3)) (\<lambda>attempts.
     andThen (nullable_value (nth_param params 6)) (\<lambda>dispatchedAt.
     andThen (nullable_value (nth_param params 7)) (\<lambda>lastError.
     Inr (map (\<lambda>row. if col_eq engine (sr_id row) (nth_param params 8)
       then row\<lparr>sr_entry_json := texts ! 0, sr_status := texts ! 1, sr_attempts := attempts, sr_available_at := texts ! 2,
         sr_updated_at := texts ! 3, sr_dispatched_at := dispatchedAt, sr_last_error := lastError\<rparr>
       else row) table)))))"

definition execute :: "sql_engine \<Rightarrow> sql_statement \<Rightarrow> jsval list \<Rightarrow> sql_table \<Rightarrow> (jsval \<times> sql_table) throws" where
  "execute engine statement params table =
     (let selected = (\<lambda>rows. Inr (sq_result engine (map selected_json rows), table)) in
      case statement of
        SelectById _ \<Rightarrow> selected (take 1 (filter (\<lambda>row. col_eq engine (sr_id row) (nth_param params 1)) table))
      | SelectEntries tenantScoped limitValue \<Rightarrow>
          selected (limit_rows engine params (if tenantScoped then 2 else 1) limitValue (sort_by (queue_order engine)
            (filter (\<lambda>row. tenantScoped \<longrightarrow> col_eq engine (sr_tenant_id row) (nth_param params 1)) table)))
      | SelectDispatchable tenantScoped limitValue \<Rightarrow>
          selected (limit_rows engine params (if tenantScoped then 7 else 6) limitValue (sort_by (queue_order engine)
            (filter (dispatchable_row engine params tenantScoped table) table)))
      | SelectClaimable limitValue \<Rightarrow>
          selected (limit_rows engine params 8 (Some limitValue) (sort_by (queue_order engine)
            (filter (claimable_row engine params table) table)))
      | LockTenant \<Rightarrow>
          Inr (sq_result engine (map (\<lambda>row. JObj [(''id'', JStr (sr_id row))]) (take 1
            (sort_by (\<lambda>a b. sq_compare engine (sr_id a) (sr_id b))
              (filter (\<lambda>row. col_eq engine (sr_tenant_id row) (nth_param params 1)) table)))), table)
      | SelectPausedForUpdate \<Rightarrow>
          selected (sort_by (queue_order engine) (filter (\<lambda>row. col_eq engine (sr_tenant_id row) (nth_param params 1) \<and>
            col_eq engine (sr_status row) (nth_param params 2)) table))
      | InsertEntry \<Rightarrow> andThen (insert_row engine params table) (\<lambda>table'. Inr (sq_result engine [], table'))
      | UpdateEntry \<Rightarrow> andThen (update_rows engine params table) (\<lambda>table'. Inr (sq_result engine [], table')))"

section \<open>The adapter\<close>

abbreviation sql_host :: "sql_engine \<Rightarrow> host" where
  "sql_host engine \<equiv> ox_host (sq_env engine)"

text \<open>Parameters of the list statements: the limit is a parameter in the Postgres dialect only.\<close>

definition limit_param :: "sql_dialect \<Rightarrow> int option \<Rightarrow> jsval list" where
  "limit_param dialect limitValue =
     (case limitValue of Some n \<Rightarrow> if dialect = Postgres then [JNum (NInt n)] else [] | None \<Rightarrow> [])"

definition tenant_param :: "string option \<Rightarrow> jsval list" where
  "tenant_param tenant = (case tenant of None \<Rightarrow> [] | Some t \<Rightarrow> [JStr t])"

definition selectEntriesParams :: "sql_dialect \<Rightarrow> string option \<Rightarrow> int option \<Rightarrow> jsval list" where
  "selectEntriesParams dialect tenant limitValue = tenant_param tenant @ limit_param dialect limitValue"

definition dispatchableParams :: "sql_dialect \<Rightarrow> string \<Rightarrow> string option \<Rightarrow> int option \<Rightarrow> jsval list" where
  "dispatchableParams dialect at tenant limitValue =
     [JStr ''pending'', JStr at, JStr ''paused'', JStr ''leased'', JStr at] @ tenant_param tenant @ limit_param dialect limitValue"

definition claimableParams :: "sql_dialect \<Rightarrow> string \<Rightarrow> string option \<Rightarrow> int \<Rightarrow> jsval list" where
  "claimableParams dialect at tenant limitValue =
     [JStr ''pending'', JStr ''leased'', JStr at, JStr ''paused'', JStr ''leased'', JStr at,
      (case tenant of None \<Rightarrow> JUndefined | Some t \<Rightarrow> JStr t)] @ limit_param dialect (Some limitValue)"

text \<open>The limit of validated list options.\<close>

definition limit_value :: "jsnumber option \<Rightarrow> int option" where
  "limit_value limit = (case limit of Some (NInt n) \<Rightarrow> Some n | _ \<Rightarrow> None)"

definition read_entries :: "sql_engine \<Rightarrow> jsval \<Rightarrow> outbox_entry list throws" where
  "read_entries engine result = andThen (rowsFromResult result) (\<lambda>rows. collect (map (entryFromSqlRow engine) rows))"

definition sql_list :: "sql_engine \<Rightarrow> outbox_list_options \<Rightarrow> sql_table \<Rightarrow> outbox_entry list throws" where
  "sql_list engine options table =
     andThen (validateListOptions (sql_host engine) options) (\<lambda>_.
     let limit = limit_value (ol_limit options) in
     andThen (execute engine (SelectEntries (ol_tenantId options \<noteq> None) limit)
       (selectEntriesParams (sq_dialect engine) (ol_tenantId options) limit) table) (\<lambda>(result, _).
     read_entries engine result))"

definition sql_listDispatchable :: "sql_engine \<Rightarrow> outbox_list_options \<Rightarrow> sql_table \<Rightarrow> outbox_entry list throws" where
  "sql_listDispatchable engine options table =
     andThen (validateListOptions (sql_host engine) options) (\<lambda>_.
     andThen (normalizeTimestamp (sql_host engine) (date_or_now (sql_host engine) (ol_now options))) (\<lambda>at.
     let limit = limit_value (ol_limit options) in
     andThen (execute engine (SelectDispatchable (ol_tenantId options \<noteq> None) limit)
       (dispatchableParams (sq_dialect engine) at (ol_tenantId options) limit) table) (\<lambda>(result, _).
     read_entries engine result)))"

definition nullable_text :: "string option \<Rightarrow> jsval" where
  "nullable_text v = (case v of None \<Rightarrow> JNull | Some s \<Rightarrow> JStr s)"

definition updateParams :: "outbox_entry \<Rightarrow> jsval list" where
  "updateParams entry =
     [JStr (stringify (entry_json entry)), status_json (oe_status entry), JNum (NInt (oe_attempts entry)),
      JStr (oe_availableAt entry), JStr (oe_updatedAt entry), nullable_text (oe_dispatchedAt entry),
      nullable_text (oe_lastError entry), JStr (oe_id entry)]"

definition insertParams :: "outbox_entry \<Rightarrow> string \<Rightarrow> jsval list" where
  "insertParams entry canonical =
     [JStr (oe_id entry), JStr (oe_tenantId entry), JStr canonical, JStr (stringify (entry_json entry)),
      status_json (oe_status entry), JNum (NInt (oe_attempts entry)), JStr (oe_availableAt entry),
      JStr (oe_createdAt entry), JStr (oe_updatedAt entry), JNull, JNull]"

definition updateEntry :: "sql_engine \<Rightarrow> outbox_entry \<Rightarrow> sql_table \<Rightarrow> sql_table throws" where
  "updateEntry engine entry table =
     andThen (execute engine UpdateEntry (updateParams entry) table) (\<lambda>(_, table'). Inr table')"

definition loadEntryForUpdate :: "sql_engine \<Rightarrow> string \<Rightarrow> sql_table \<Rightarrow> outbox_entry throws" where
  "loadEntryForUpdate engine rowId table =
     andThen (execute engine (SelectById True) [JStr rowId] table) (\<lambda>(result, _).
     andThen (firstRow result) (\<lambda>row.
     case row of None \<Rightarrow> Inl (TypeError ''outbox entry not found'') | Some r \<Rightarrow> entryFromSqlRow engine r))"

definition sql_enqueue :: "sql_engine \<Rightarrow> outbox_input \<Rightarrow> sql_table \<Rightarrow> (outbox_entry \<times> sql_table) throws" where
  "sql_enqueue engine input table =
     andThen (createPendingEntry (sql_host engine) input) (\<lambda>entry.
     andThen (canonicalJson (oe_payload entry)) (\<lambda>canonical.
     andThen (execute engine (SelectById False) [JStr (oe_id entry)] table) (\<lambda>(result, _).
     andThen (firstRow result) (\<lambda>existing.
     case existing of
       Some row \<Rightarrow>
         andThen (readString row ''payload_canonical'') (\<lambda>stored.
         if stored \<noteq> canonical then Inl (TypeError ''outbox idempotency conflict'')
         else andThen (entryFromSqlRow engine row) (\<lambda>current.
           andThen (sameEnqueueInput current entry) (\<lambda>same.
           if same then Inr (current, table) else Inl (TypeError ''outbox idempotency conflict''))))
     | None \<Rightarrow>
         andThen (execute engine InsertEntry (insertParams entry canonical) table) (\<lambda>(_, table').
         Inr (entry, table'))))))"

primrec sql_run_program ::
  "sql_engine \<Rightarrow> 'a host_program \<Rightarrow> sql_table \<Rightarrow> ('a \<times> sql_table) throws" where
  "sql_run_program engine (Return x) table = Inr (x, table)"
| "sql_run_program engine (Throw e) table = Inl e"
| "sql_run_program engine (Enqueue input k) table =
     (case sql_enqueue engine input table of
        Inl e \<Rightarrow> sql_run_program engine (k (Inl e)) table
      | Inr (entry, table') \<Rightarrow> sql_run_program engine (k (Inr entry)) table')"

definition sql_transaction :: "sql_engine \<Rightarrow> 'a host_program \<Rightarrow> sql_table \<Rightarrow> ('a \<times> sql_table) throws" where
  "sql_transaction engine run table = sql_run_program engine run table"

text \<open>The loop over the selected rows.\<close>

fun sql_claim_loop ::
  "sql_engine \<Rightarrow> string \<Rightarrow> string \<Rightarrow> int \<Rightarrow> int \<Rightarrow> outbox_entry list \<Rightarrow> int \<Rightarrow> sql_table \<Rightarrow> jsval list
     \<Rightarrow> (outbox_entry list \<times> sql_table) throws" where
  "sql_claim_loop engine at leaseId leaseMs maxBytes claims bytes table [] = Inr (claims, table)"
| "sql_claim_loop engine at leaseId leaseMs maxBytes claims bytes table (row # rest) =
     andThen (entryFromSqlRow engine row) (\<lambda>entry.
     andThen (outboxPayloadByteLength (oe_payload entry)) (\<lambda>entryBytes.
     if maxBytes < bytes + entryBytes then Inr (claims, table)
     else andThen (lease_expiry (sql_host engine) at leaseMs) (\<lambda>expiresAt.
       let leased = lease_row entry leaseId expiresAt at in
       andThen (updateEntry engine leased table) (\<lambda>table'.
       sql_claim_loop engine at leaseId leaseMs maxBytes (claims @ [leased]) (bytes + entryBytes) table' rest))))"

definition sql_claimDispatchable ::
  "sql_engine \<Rightarrow> outbox_claim_options \<Rightarrow> sql_table \<Rightarrow> (outbox_entry list \<times> sql_table) throws" where
  "sql_claimDispatchable engine options table =
     andThen (validateClaimOptions (sql_host engine) options) (\<lambda>(leaseMs, limit, maxBytes).
     andThen (execute engine LockTenant [case cl_tenantId options of None \<Rightarrow> JUndefined | Some t \<Rightarrow> JStr t] table) (\<lambda>(_, locked).
     andThen (normalizeTimestamp (sql_host engine) (date_or_now (sql_host engine) (cl_now options))) (\<lambda>at.
     andThen (execute engine (SelectClaimable limit)
       (claimableParams (sq_dialect engine) at (cl_tenantId options) limit) locked) (\<lambda>(result, table').
     andThen (rowsFromResult result) (\<lambda>rows.
     sql_claim_loop engine at (cl_leaseId options) leaseMs maxBytes [] 0 table' rows)))))"

definition sql_markDispatched ::
  "sql_engine \<Rightarrow> string \<Rightarrow> string option \<Rightarrow> date_input option \<Rightarrow> sql_table \<Rightarrow> (outbox_entry \<times> sql_table) throws" where
  "sql_markDispatched engine rowId leaseId dispatchedAt table =
     andThen (assertNonEmpty rowId ''id'') (\<lambda>_.
     andThen (loadEntryForUpdate engine rowId table) (\<lambda>entry.
     andThen (assertLease entry leaseId) (\<lambda>_.
     andThen (normalizeTimestamp (sql_host engine) (date_or_now (sql_host engine) dispatchedAt)) (\<lambda>at.
     let settled = dispatched_row entry at in
     andThen (updateEntry engine settled table) (\<lambda>table'. Inr (settled, table'))))))"

definition sql_markFailed ::
  "sql_engine \<Rightarrow> string \<Rightarrow> thrown \<Rightarrow> fail_options \<Rightarrow> sql_table \<Rightarrow> (outbox_entry \<times> sql_table) throws" where
  "sql_markFailed engine rowId error options table =
     andThen (assertNonEmpty rowId ''id'') (\<lambda>_.
     andThen (loadEntryForUpdate engine rowId table) (\<lambda>entry.
     andThen (assertLease entry (fo_leaseId options)) (\<lambda>_.
     andThen (failed_row (sq_env engine) error options entry) (\<lambda>settled.
     andThen (updateEntry engine settled table) (\<lambda>table'. Inr (settled, table'))))))"

fun resume_selected :: "sql_engine \<Rightarrow> string \<Rightarrow> outbox_entry list \<Rightarrow> sql_table \<Rightarrow> sql_table throws" where
  "resume_selected engine at [] table = Inr table"
| "resume_selected engine at (entry # rest) table =
     andThen (updateEntry engine (resumed_row entry at) table) (\<lambda>table'. resume_selected engine at rest table')"

definition sql_resumePaused ::
  "sql_engine \<Rightarrow> string \<Rightarrow> string \<Rightarrow> jsnumber \<Rightarrow> date_input option \<Rightarrow> sql_table \<Rightarrow> (nat \<times> sql_table) throws" where
  "sql_resumePaused engine tenant expectedCircuitId limit at table =
     andThen (assertNonEmpty tenant ''tenantId'') (\<lambda>_.
     andThen (assertNonEmpty expectedCircuitId ''expectedCircuitId'') (\<lambda>_.
     andThen (case limit of NInt i \<Rightarrow> if is_safe_int i \<and> 0 < i then Inr (nat i) else Inl (TypeError ''limit must be positive'')
        | _ \<Rightarrow> Inl (TypeError ''limit must be positive'')) (\<lambda>n.
     andThen (execute engine SelectPausedForUpdate [JStr tenant, JStr ''paused''] table) (\<lambda>(result, table').
     andThen (read_entries engine result) (\<lambda>entries.
     andThen (throwUnless (list_all (\<lambda>entry. oe_circuitId entry = Some expectedCircuitId) entries)
        (TypeError ''outbox circuit does not match'')) (\<lambda>_.
     andThen (normalizeTimestamp (sql_host engine) (date_or_now (sql_host engine) at)) (\<lambda>at.
     andThen (resume_selected engine at (take n entries) table') (\<lambda>table''.
     Inr (length (take n entries), table'')))))))))"

end
