(* ===== verification/SqlQueue.thy ===== *)
theory SqlQueue
  imports SqlOutbox
begin

text \<open>
  The SQL outbox refines the row functions of the file outbox and the abstract queue: what a table
  row encodes, what each statement selects and updates on a table that shows a list of entries,
  and the outcome of every operation on it. The payload copy \<open>json_clone\<close> is justified as the
  round trip through JSON text.
\<close>

section \<open>Clones\<close>

lemma stringify_clone:
  shows "stringify (json_clone v) = stringify v"
    and "stringify_elems (clone_elems vs) = stringify_elems vs"
    and "stringify_members (clone_members kvs) = stringify_members kvs"
proof (induction v and vs and kvs rule: stringify_stringify_elems_stringify_members.induct)
  case (4 n)
  then show ?case by (cases n) (simp_all add: is_finite_number_def show_number_def)
next
  case (8 d)
  then show ?case by (cases d) simp_all
next
  case (11 v vs)
  then show ?case by (cases v) (auto simp: is_finite_number_def split: option.splits)
next
  case (13 k v kvs)
  then show ?case by (cases v) (auto simp: is_finite_number_def split: option.splits)
qed simp_all

section \<open>Rows of the table\<close>

definition engine_ok :: "sql_engine \<Rightarrow> bool" where
  "engine_ok engine \<longleftrightarrow> env_ok (sq_env engine) \<and>
     (\<forall>i. is_safe_int i \<longrightarrow> sq_number engine (show_int i) = NInt i) \<and>
     (\<forall>a b. sq_compare engine a b = 0 \<longleftrightarrow> a = b) \<and>
     (\<forall>rows. list_all (\<lambda>row. \<not> is_array row) rows \<longrightarrow> rowsFromResult (sq_result engine rows) = Inr rows)"

definition encodes :: "sql_row \<Rightarrow> outbox_entry \<Rightarrow> bool" where
  "encodes row e \<longleftrightarrow> sr_id row = oe_id e \<and> sr_tenant_id row = oe_tenantId e \<and>
     canonicalJson (oe_payload e) = Inr (sr_payload_canonical row) \<and> sr_entry_json row = stringify (entry_json e) \<and>
     JStr (sr_status row) = status_json (oe_status e) \<and> sr_attempts row = oe_attempts e \<and>
     sr_available_at row = oe_availableAt e \<and> sr_created_at row = oe_createdAt e \<and> sr_updated_at row = oe_updatedAt e \<and>
     sr_dispatched_at row = oe_dispatchedAt e \<and> sr_last_error row = oe_lastError e"

definition entry_ok :: "sql_engine \<Rightarrow> outbox_entry \<Rightarrow> bool" where
  "entry_ok engine e \<longleftrightarrow> row_ok e \<and> writable (sq_number engine) (oe_payload e) \<and> is_safe_int (oe_attempts e)"

definition table_shows :: "sql_engine \<Rightarrow> sql_table \<Rightarrow> outbox_entry list \<Rightarrow> bool" where
  "table_shows engine table es \<longleftrightarrow>
     list_all2 encodes table es \<and> list_all (entry_ok engine) es \<and> distinct (map oe_id es)"

lemma table_shows_rows_ok: "table_shows engine table es \<Longrightarrow> rows_ok es"
  by (auto simp: table_shows_def rows_ok_def list_all_iff entry_ok_def)

lemma own_key_order_plain: "\<forall>kv \<in> set kvs. \<not> is_array_index (fst kv) \<Longrightarrow> own_key_order kvs = kvs"
proof -
  assume "\<forall>kv \<in> set kvs. \<not> is_array_index (fst kv)"
  then have "filter (\<lambda>kv. is_array_index (fst kv)) kvs = []" "filter (\<lambda>kv. \<not> is_array_index (fst kv)) kvs = kvs"
    by (auto simp: filter_empty_conv intro: filter_True)
  then show ?thesis by (simp add: own_key_order_def)
qed

lemma not_array_index: "\<not> is_digit (hd k) \<Longrightarrow> \<not> is_array_index k"
  by (cases k) (auto simp: is_array_index_def)

lemma text_member_facts [simp]:
  "fst ` set (text_member k v) = (if v = None then {} else {k})" "distinct (map fst (text_member k v))"
  "writable_members f (text_member k v)"
  by (cases v; simp add: text_member_def)+

lemma in_text_member: "kv \<in> set (text_member k v) \<Longrightarrow> fst kv = k"
  by (auto simp: text_member_def split: option.splits)

lemma writable_members_append [simp]:
  "writable_members f (kvs @ lvs) \<longleftrightarrow> writable_members f kvs \<and> writable_members f lvs"
  by (auto simp: writable_members_iff)

lemma status_json_text: "phase_ok e \<Longrightarrow> \<exists>s. status_json (oe_status e) = JStr s"
  by (auto simp: phase_ok_def status_json_def split: outbox_status.splits)

lemma number_writable: "engine_ok engine \<Longrightarrow> is_safe_int i \<Longrightarrow> writable (sq_number engine) (JNum (NInt i))"
  using valid_number_show_int [of i] show_int_number_chars [of i]
  by (simp add: engine_ok_def is_finite_number_def show_number_def)

lemma entry_json_writable:
  assumes "engine_ok engine" "entry_ok engine e"
  shows "writable (sq_number engine) (entry_json e)"
proof -
  obtain s where s: "status_json (oe_status e) = JStr s"
    using assms(2) status_json_text by (auto simp: entry_ok_def row_ok_def)
  have n: "writable (sq_number engine) (JNum (NInt (oe_attempts e)))"
    using number_writable [OF assms(1)] assms(2) by (simp add: entry_ok_def)
  obtain kvs where kvs: "entry_json e = JObj kvs" by (simp add: entry_json_def)
  have "own_key_order kvs = kvs"
  proof (rule own_key_order_plain, rule ballI, rule not_array_index)
    fix kv assume "kv \<in> set kvs"
    then show "\<not> is_digit (hd (fst kv))"
      using kvs by (auto simp: entry_json_def is_digit_def less_eq_char_def dest!: in_text_member)
  qed
  moreover have "distinct (map fst kvs) \<and> writable_members (sq_number engine) kvs"
    using kvs s n assms(2) by (auto simp: entry_json_def entry_ok_def)
  ultimately show ?thesis by (simp add: kvs)
qed

lemma selected_json_props [simp]:
  "js_prop (selected_json row) ''entry_json'' = JStr (sr_entry_json row)"
  "js_prop (selected_json row) ''payload_canonical'' = JStr (sr_payload_canonical row)"
  by (simp_all add: selected_json_def js_prop_def)

lemma entry_read:
  assumes "engine_ok engine" "encodes row e" "entry_ok engine e"
  shows "entryFromSqlRow engine (selected_json row) = Inr e"
proof -
  have ok: "env_ok (sq_env engine)" "row_ok e" using assms by (simp_all add: engine_ok_def entry_ok_def)
  have "json_parse (sq_number engine) (stringify (entry_json e)) = Inr (entry_json e)"
    using json_parse_stringify [OF entry_json_writable [OF assms(1,3)]] .
  moreover have "validateStoredEntry (sql_host engine) (entry_json e) = Inr ()" using entry_json_valid [OF ok] .
  moreover have "entry_of_json (entry_json e) = e" using entry_round_trip [OF ok(2)] .
  ultimately show ?thesis using assms(2) by (simp add: entryFromSqlRow_def readString_def encodes_def)
qed

lemma rows_result: "engine_ok engine \<Longrightarrow>
  rowsFromResult (sq_result engine (map selected_json rows)) = Inr (map selected_json rows)"
  unfolding engine_ok_def by (simp add: list_all_iff selected_json_def is_array_def)

lemma entries_read:
  assumes "engine_ok engine" "list_all2 encodes table es" "list_all (entry_ok engine) es"
  shows "read_entries engine (sq_result engine (map selected_json table)) = Inr es"
proof -
  have "map (entryFromSqlRow engine) (map selected_json table) = map Inr es"
    using assms(2,3) entry_read [OF assms(1)] by (induction table es rule: list_all2_induct) auto
  then show ?thesis by (simp add: read_entries_def rows_result [OF assms(1)])
qed

section \<open>Statements on tables that show rows\<close>

lemma list_all2_filter:
  assumes "list_all2 P xs ys" "\<And>x y. x \<in> set xs \<Longrightarrow> y \<in> set ys \<Longrightarrow> P x y \<Longrightarrow> Q x = R y"
  shows "list_all2 P (filter Q xs) (filter R ys)"
  using assms by (induction xs ys rule: list_all2_induct) auto

lemma list_all2_insert_by:
  assumes "list_all2 P xs ys" "P x y" "\<And>a b c d. P a b \<Longrightarrow> P c d \<Longrightarrow> cmp a c = cmp' b d"
  shows "list_all2 P (insert_by cmp x xs) (insert_by cmp' y ys)"
  using assms by (induction xs ys rule: list_all2_induct) auto

lemma list_all2_sort_by:
  assumes "list_all2 P xs ys" "\<And>a b c d. P a b \<Longrightarrow> P c d \<Longrightarrow> cmp a c = cmp' b d"
  shows "list_all2 P (sort_by cmp xs) (sort_by cmp' ys)"
  using assms unfolding sort_by_def
  by (induction xs ys rule: list_all2_induct) (auto intro: list_all2_insert_by)

text \<open>The queue order of the database, as a comparison of entries.\<close>

definition sql_order :: "sql_engine \<Rightarrow> outbox_entry \<Rightarrow> outbox_entry \<Rightarrow> int" where
  "sql_order engine = compareEntries ((sq_env engine)\<lparr>localeCompare := sq_compare engine\<rparr>)"

lemma queue_order_entries: "encodes a b \<Longrightarrow> encodes c d \<Longrightarrow> queue_order engine a c = sql_order engine b d"
  by (simp add: queue_order_def sql_order_def compareEntries_def encodes_def Let_def)

lemma col_eq_text: "engine_ok engine \<Longrightarrow> col_eq engine col (JStr s) \<longleftrightarrow> col = s"
  by (simp add: col_compares_def engine_ok_def)

lemma firstRow_selected:
  "engine_ok engine \<Longrightarrow>
    firstRow (sq_result engine (map selected_json rows)) = Inr (case rows of [] \<Rightarrow> None | row # _ \<Rightarrow> Some (selected_json row))"
  using rows_result [of engine rows] by (cases rows) (simp_all add: firstRow_def)

lemma row_by_id:
  assumes "engine_ok engine" "list_all2 encodes table es"
  shows "list_all2 encodes (filter (\<lambda>row. col_eq engine (sr_id row) (nth_param [JStr rowId] 1)) table)
    (filter (\<lambda>e. oe_id e = rowId) es)"
  using assms by (intro list_all2_filter) (auto simp: nth_param_def col_eq_text encodes_def)

lemma find_filter: "find P xs = (case filter P xs of [] \<Rightarrow> None | x # _ \<Rightarrow> Some x)"
  by (induction xs) auto

lemma loadEntry_shows:
  assumes "engine_ok engine" "table_shows engine table es"
  shows "loadEntryForUpdate engine rowId table = findEntry es rowId"
proof -
  let ?rows = "filter (\<lambda>row. col_eq engine (sr_id row) (nth_param [JStr rowId] 1)) table"
  let ?es = "filter (\<lambda>e. oe_id e = rowId) es"
  have rows: "list_all2 encodes ?rows ?es" using assms row_by_id by (simp add: table_shows_def)
  have ok: "\<forall>e \<in> set ?es. entry_ok engine e" using assms(2) by (auto simp: table_shows_def list_all_iff)
  show ?thesis
  proof (cases ?es)
    case Nil
    with rows show ?thesis
      using firstRow_selected [OF assms(1), of "[]"]
      by (simp add: loadEntryForUpdate_def execute_def Let_def findEntry_def find_filter)
  next
    case (Cons e rest)
    with rows obtain row more where r: "?rows = row # more" "encodes row e" by (auto simp: list_all2_Cons2)
    have "entryFromSqlRow engine (selected_json row) = Inr e"
      using entry_read [OF assms(1) r(2)] ok Cons by simp
    with Cons r(1) show ?thesis
      using firstRow_selected [OF assms(1), of "[row]"]
      by (simp add: loadEntryForUpdate_def execute_def Let_def findEntry_def find_filter)
  qed
qed

text \<open>An update that keeps what the statement does not set.\<close>

definition same_work :: "outbox_entry \<Rightarrow> outbox_entry \<Rightarrow> bool" where
  "same_work e s \<longleftrightarrow> oe_id s = oe_id e \<and> oe_tenantId s = oe_tenantId e \<and> oe_payload s = oe_payload e \<and> oe_createdAt s = oe_createdAt e"

definition put_row :: "outbox_entry \<Rightarrow> outbox_entry list \<Rightarrow> outbox_entry list" where
  "put_row s = map (\<lambda>e. if oe_id e = oe_id s then s else e)"

lemma nullable_value_text [simp]: "nullable_value (nullable_text v) = Inr v"
  by (cases v) (simp_all add: nullable_value_def nullable_text_def)

lemma updateEntry_shows:
  assumes "engine_ok engine" "table_shows engine table es" "e \<in> set es" "same_work e s" "entry_ok engine s"
  shows "\<exists>table'. updateEntry engine s table = Inr table' \<and> table_shows engine table' (put_row s es)"
proof -
  obtain st where st: "status_json (oe_status s) = JStr st"
    using assms(5) status_json_text by (auto simp: entry_ok_def row_ok_def)
  have d: "distinct (map oe_id es)" using assms(2) by (simp add: table_shows_def)
  have same: "e' = e" if "e' \<in> set es" "oe_id e' = oe_id s" for e'
    using that assms(3,4) d by (auto simp: same_work_def distinct_map inj_on_def)
  let ?set = "\<lambda>row. if sr_id row = oe_id s
    then row\<lparr>sr_entry_json := stringify (entry_json s), sr_status := st, sr_attempts := oe_attempts s,
      sr_available_at := oe_availableAt s, sr_updated_at := oe_updatedAt s, sr_dispatched_at := oe_dispatchedAt s,
      sr_last_error := oe_lastError s\<rparr> else row"
  have "updateEntry engine s table = Inr (map ?set table)"
    using col_eq_text [OF assms(1)]
    by (simp add: updateEntry_def updateParams_def execute_def Let_def update_rows_def nth_param_def text_value_def integer_value_def st)
  moreover have "list_all2 encodes (map ?set table) (put_row s es)"
    unfolding put_row_def list_all2_map1 list_all2_map2
  proof (rule list.rel_mono_strong)
    show "list_all2 encodes table es" using assms(2) by (simp add: table_shows_def)
    show "encodes (?set row) (if oe_id e' = oe_id s then s else e')"
      if "row \<in> set table" "e' \<in> set es" "encodes row e'" for row e'
      using that same [OF that(2)] assms(4) st by (auto simp: encodes_def same_work_def)
  qed
  moreover have "list_all (entry_ok engine) (put_row s es)" "map oe_id (put_row s es) = map oe_id es"
    using assms(2,5) by (auto simp: table_shows_def put_row_def list_all_iff)
  ultimately show ?thesis using d by (auto simp: table_shows_def)
qed

lemma put_row_entry: "distinct (map oe_id es) \<Longrightarrow> oe_id s = rowId \<Longrightarrow> put_entry rowId s es = put_row s es"
proof (induction es)
  case (Cons e es)
  have "map (\<lambda>e. if oe_id e = oe_id s then s else e) es = es" if "oe_id e = rowId"
  proof (rule map_idI)
    fix x assume "x \<in> set es"
    with Cons.prems that have "oe_id x \<noteq> oe_id s" by (metis distinct.simps(2) image_eqI list.set_map list.simps(9))
    then show "(if oe_id x = oe_id s then s else x) = x" by simp
  qed
  with Cons show ?case by (simp add: put_row_def)
qed (simp add: put_row_def)

section \<open>Settlement\<close>

lemma shown_entry: "table_shows engine table es \<Longrightarrow> e \<in> set es \<Longrightarrow> entry_ok engine e"
  by (auto simp: table_shows_def list_all_iff)

lemma found_member: "findEntry es rowId = Inr e \<Longrightarrow> e \<in> set es \<and> oe_id e = rowId"
  by (auto simp: findEntry_Inr find_Some_iff)

lemma calm_update:
  assumes "engine_ok engine" "table_shows engine table es" "findEntry es rowId = Inr e" "calms e s"
    "oe_createdAt s = oe_createdAt e" "is_safe_int (oe_attempts s)"
  shows "\<exists>table'. updateEntry engine s table = Inr table' \<and> table_shows engine table' (put_entry rowId s es)"
proof -
  note e = found_member [OF assms(3)]
  have "same_work e s" "entry_ok engine s"
    using shown_entry [OF assms(2)] e assms(4-6) by (simp_all add: same_work_def calms_def entry_ok_def)
  with updateEntry_shows [OF assms(1,2)] e have "\<exists>table'. updateEntry engine s table = Inr table' \<and> table_shows engine table' (put_row s es)"
    by blast
  then show ?thesis using put_row_entry [of es s rowId] assms(2,4) e by (simp add: table_shows_def calms_def)
qed

text \<open>An outcome of the row functions, carried out on the table.\<close>

definition carried_out :: "sql_engine \<Rightarrow> ('a \<times> outbox_entry list) throws \<Rightarrow> ('a \<times> sql_table) throws \<Rightarrow> bool" where
  "carried_out engine rows sql \<longleftrightarrow> (case rows of
     Inl err \<Rightarrow> sql = Inl err
   | Inr (x, es') \<Rightarrow> \<exists>table'. sql = Inr (x, table') \<and> table_shows engine table' es')"

lemma carried_out_Inl [simp]: "carried_out engine (Inl err) sql \<longleftrightarrow> sql = Inl err"
  by (simp add: carried_out_def)

lemma carried_outI: "sql = Inr (x, table') \<Longrightarrow> table_shows engine table' es' \<Longrightarrow> carried_out engine (Inr (x, es')) sql"
  by (simp add: carried_out_def)

lemma carried_out_guard: "(\<And>x. m = Inr x \<Longrightarrow> carried_out engine (f x) (g x)) \<Longrightarrow> carried_out engine (andThen m f) (andThen m g)"
  by (cases m) simp_all

lemma dispatched_carried_out:
  assumes "engine_ok engine" "table_shows engine table es"
  shows "carried_out engine (andThen (assertNonEmpty rowId ''id'') (\<lambda>_. dispatch_row (sq_env engine) rowId l d es))
    (sql_markDispatched engine rowId l d table)"
  unfolding sql_markDispatched_def dispatch_row_def loadEntry_shows [OF assms] Let_def
proof (intro carried_out_guard)
  fix u e v at assume f: "findEntry es rowId = Inr e"
    and at: "normalizeTimestamp (sql_host engine) (date_or_now (sql_host engine) d) = Inr at"
  have "is_safe_int (oe_attempts (dispatched_row e at))" "oe_createdAt (dispatched_row e at) = oe_createdAt e"
    using shown_entry [OF assms(2)] found_member [OF f] by (auto simp: dispatched_row_def clearLease_def entry_ok_def)
  from calm_update [OF assms f dispatched_row_calms [OF normalizeTimestamp_iso [OF at]] this(2,1)]
  obtain table' where "updateEntry engine (dispatched_row e at) table = Inr table'"
    "table_shows engine table' (put_entry rowId (dispatched_row e at) es)" by blast
  then show "carried_out engine (Inr (dispatched_row e at, put_entry rowId (dispatched_row e at) es))
     (andThen (updateEntry engine (dispatched_row e at) table) (\<lambda>table'. Inr (dispatched_row e at, table')))"
    by (auto intro: carried_outI)
qed

definition attempts_room :: "outbox_entry list \<Rightarrow> bool" where
  "attempts_room es \<longleftrightarrow> (\<forall>e \<in> set es. is_safe_int (oe_attempts e + 1))"

lemma failed_carried_out:
  assumes "engine_ok engine" "table_shows engine table es" "attempts_room es"
  shows "carried_out engine (andThen (assertNonEmpty rowId ''id'') (\<lambda>_. fail_row (sq_env engine) rowId err opts es))
    (sql_markFailed engine rowId err opts table)"
  unfolding sql_markFailed_def fail_row_def loadEntry_shows [OF assms(1,2)]
proof (intro carried_out_guard)
  fix u e v s assume f: "findEntry es rowId = Inr e" and s: "failed_row (sq_env engine) err opts e = Inr s"
  have "is_safe_int (oe_attempts s) \<and> oe_createdAt s = oe_createdAt e"
    using s found_member [OF f] assms(3) by (elim failed_row_cases) (auto simp: attempts_room_def)
  moreover have "env_ok (sq_env engine)" using assms(1) by (simp add: engine_ok_def)
  ultimately obtain table' where "updateEntry engine s table = Inr table'" "table_shows engine table' (put_entry rowId s es)"
    using calm_update [OF assms(1,2) f failed_row_calms [OF _ s]] by blast
  then show "carried_out engine (Inr (s, put_entry rowId s es)) (andThen (updateEntry engine s table) (\<lambda>table'. Inr (s, table')))"
    by (auto intro: carried_outI)
qed

section \<open>Runs of updates\<close>

definition replace_rows :: "(outbox_entry \<Rightarrow> outbox_entry) \<Rightarrow> string set \<Rightarrow> outbox_entry list \<Rightarrow> outbox_entry list" where
  "replace_rows f ids = map (\<lambda>e. if oe_id e \<in> ids then f e else e)"

lemma replace_rows_empty [simp]: "replace_rows f {} es = es"
  by (simp add: replace_rows_def)

lemma replace_rows_step:
  assumes "distinct (map oe_id es)" "e \<in> set es" "oe_id (f e) = oe_id e" "oe_id e \<notin> ids"
  shows "replace_rows f ids (put_row (f e) es) = replace_rows f (insert (oe_id e) ids) es"
proof -
  have same: "x = e" if "x \<in> set es" "oe_id x = oe_id e" for x
    using that assms(1,2) by (auto simp: distinct_map inj_on_def)
  show "replace_rows f ids (put_row (f e) es) = replace_rows f (insert (oe_id e) ids) es"
    unfolding replace_rows_def put_row_def map_map
  proof (rule map_cong [OF refl])
    fix x assume "x \<in> set es"
    with same assms(3,4) show "((\<lambda>e. if oe_id e \<in> ids then f e else e) \<circ> (\<lambda>x. if oe_id x = oe_id (f e) then f e else x)) x =
        (if oe_id x \<in> insert (oe_id e) ids then f x else x)" by auto
  qed
qed

lemma put_row_others: "x \<in> set es \<Longrightarrow> oe_id x \<noteq> oe_id s \<Longrightarrow> x \<in> set (put_row s es)"
  by (force simp: put_row_def)

text \<open>Replacing a selection of rows, one update after the other.\<close>

lemma distinct_put_row: "map oe_id (put_row s es) = map oe_id es"
  by (simp add: put_row_def)

lemma resume_selected_shows:
  assumes "engine_ok engine" "table_shows engine table es" "distinct (map oe_id sel)" "set sel \<subseteq> set es"
    "iso_text at" "\<forall>e \<in> set sel. oe_status e = OPaused"
  shows "\<exists>table'. resume_selected engine at sel table = Inr table' \<and>
    table_shows engine table' (replace_rows (\<lambda>e. resumed_row e at) (oe_id ` set sel) es)"
  using assms(2-4,6)
proof (induction sel arbitrary: table es)
  case (Cons e sel)
  let ?f = "\<lambda>e. resumed_row e at"
  have e: "e \<in> set es" "oe_status e = OPaused" using Cons.prems by auto
  have "entry_ok engine e" using shown_entry [OF Cons.prems(1) e(1)] .
  then have "same_work e (?f e)" "entry_ok engine (?f e)"
    using resumed_row_calms [OF assms(5) e(2)] by (simp_all add: same_work_def resumed_row_def entry_ok_def calms_def)
  then obtain t1 where t1: "updateEntry engine (?f e) table = Inr t1" "table_shows engine t1 (put_row (?f e) es)"
    using updateEntry_shows [OF assms(1) Cons.prems(1) e(1)] by blast
  have d: "distinct (map oe_id es)" using Cons.prems(1) by (simp add: table_shows_def)
  note step = replace_rows_step [OF d e(1), where f = ?f and ids = "oe_id ` set sel"]
  have other: "oe_id x \<noteq> oe_id e" if "x \<in> set sel" for x using Cons.prems(2) that by (auto simp: image_iff)
  then have "set sel \<subseteq> set (put_row (?f e) es)" using Cons.prems(3) put_row_others [of _ es "?f e"]
    by (auto simp: resumed_row_def)
  with Cons.IH [OF t1(2)] Cons.prems(2,4) obtain t2 where t2: "resume_selected engine at sel t1 = Inr t2"
    "table_shows engine t2 (replace_rows ?f (oe_id ` set sel) (put_row (?f e) es))" by auto
  have "replace_rows ?f (oe_id ` set sel) (put_row (?f e) es) = replace_rows ?f (oe_id ` set (e # sel)) es"
    using step Cons.prems(2) by (simp add: resumed_row_def)
  with t1(1) t2 show ?case by simp
qed simp

lemma queue_replace:
  assumes "\<forall>e \<in> set es. oe_id e \<in> ids \<longrightarrow>
    oe_id (f e) = oe_id e \<and> oe_tenantId (f e) = oe_tenantId e \<and> oe_payload (f e) = oe_payload e \<and> phase_of (f e) = ph"
  shows "queue_of (replace_rows f ids es) = set_phase ph ids (queue_of es)"
  using assms by (induction es) (auto simp: replace_rows_def set_phase_def row_view_def fun_eq_iff)

lemma selection:
  assumes "table_shows engine table es" "set sel \<subseteq> set es" "e \<in> set es" "oe_id e \<in> oe_id ` set sel"
  shows "e \<in> set sel"
  using assms by (auto simp: table_shows_def distinct_map inj_on_def)

lemma distinct_map_filter_ids: "distinct (map f es) \<Longrightarrow> distinct (map f (filter P es))"
  by (simp add: distinct_map_filter)

lemma status_text:
  assumes "encodes row e" "entry_ok engine e"
  shows "sr_status row = ''pending'' \<longleftrightarrow> oe_status e = OPending" "sr_status row = ''leased'' \<longleftrightarrow> oe_status e = OLeased"
    "sr_status row = ''paused'' \<longleftrightarrow> oe_status e = OPaused"
  using assms phase_ok_not_foreign [of e]
  by (auto simp: encodes_def status_json_def entry_ok_def row_ok_def split: outbox_status.splits)

text \<open>The paused rows of a tenant, in queue order.\<close>

definition paused_rows :: "sql_engine \<Rightarrow> string \<Rightarrow> outbox_entry list \<Rightarrow> outbox_entry list" where
  "paused_rows engine tenant es =
     sort_by (sql_order engine) (filter (\<lambda>e. oe_tenantId e = tenant \<and> oe_status e = OPaused) es)"

lemma shown_selection:
  assumes "table_shows engine table es" "\<And>row e. row \<in> set table \<Longrightarrow> e \<in> set es \<Longrightarrow> encodes row e \<Longrightarrow> entry_ok engine e \<Longrightarrow> Q row = R e"
  shows "list_all2 encodes (sort_by (queue_order engine) (filter Q table)) (sort_by (sql_order engine) (filter R es))"
  using assms shown_entry [OF assms(1)]
  by (intro list_all2_sort_by list_all2_filter queue_order_entries) (auto simp: table_shows_def)

lemma paused_selected:
  assumes "engine_ok engine" "table_shows engine table es"
  shows "\<exists>result. execute engine SelectPausedForUpdate [JStr tenant, JStr ''paused''] table = Inr (result, table) \<and>
    read_entries engine result = Inr (paused_rows engine tenant es)"
proof -
  let ?Q = "\<lambda>row. col_eq engine (sr_tenant_id row) (nth_param [JStr tenant, JStr ''paused''] 1) \<and>
     col_eq engine (sr_status row) (nth_param [JStr tenant, JStr ''paused''] 2)"
  have "?Q row = (oe_tenantId e = tenant \<and> oe_status e = OPaused)" if "encodes row e" "entry_ok engine e" for row e
    using that status_text(3) [OF that] by (auto simp: nth_param_def col_eq_text [OF assms(1)] encodes_def)
  then have "list_all2 encodes (sort_by (queue_order engine) (filter ?Q table)) (paused_rows engine tenant es)"
    unfolding paused_rows_def by (intro shown_selection [OF assms(2)]) blast
  moreover have "list_all (entry_ok engine) (paused_rows engine tenant es)"
    using shown_entry [OF assms(2)] by (auto simp: paused_rows_def list_all_iff)
  ultimately show ?thesis using entries_read [OF assms(1)] by (simp add: execute_def Let_def)
qed

lemma resumed_carried_out:
  assumes "engine_ok engine" "table_shows engine table es" "sql_resumePaused engine tenant c limit d table = Inr (k, table')"
  obtains n at where "limit = NInt (int n)" "0 < n" "k = min n (length (paused_rows engine tenant es))" "iso_text at"
    "\<forall>e \<in> set (paused_rows engine tenant es). oe_circuitId e = Some c"
    "table_shows engine table' (replace_rows (\<lambda>e. resumed_row e at) (oe_id ` set (take n (paused_rows engine tenant es))) es)"
proof -
  let ?sel = "paused_rows engine tenant es"
  obtain result where r: "execute engine SelectPausedForUpdate [JStr tenant, JStr ''paused''] table = Inr (result, table)"
    "read_entries engine result = Inr ?sel" using paused_selected [OF assms(1,2)] by blast
  from assms(3) r obtain i at where g: "limit = NInt i" "0 < i" "list_all (\<lambda>e. oe_circuitId e = Some c) ?sel"
      "normalizeTimestamp (sql_host engine) (date_or_now (sql_host engine) d) = Inr at"
      "resume_selected engine at (take (nat i) ?sel) table = Inr table'" "k = length (take (nat i) ?sel)"
    unfolding sql_resumePaused_def by (auto split: jsnumber.splits if_splits)
  define n where "n = nat i"
  have n: "limit = NInt (int n)" "0 < n" using g(1,2) by (simp_all add: n_def)
  have sub: "set (take n ?sel) \<subseteq> set es" "\<forall>e \<in> set (take n ?sel). oe_status e = OPaused"
    by (auto simp: paused_rows_def dest: in_set_takeD)
  have "distinct (map oe_id ?sel)" using assms(2) by (simp add: paused_rows_def table_shows_def distinct_map_filter_ids)
  then have "distinct (map oe_id (take n ?sel))" by (metis distinct_take take_map)
  from resume_selected_shows [OF assms(1,2) this sub(1) normalizeTimestamp_iso [OF g(4)] sub(2)] g
  n show thesis
    using that [of n at] normalizeTimestamp_iso [OF g(4)] by (auto simp: list_all_iff n_def [symmetric])
qed

lemma resumed_refines_queue:
  assumes "engine_ok engine" "table_shows engine table es" "sql_resumePaused engine tenant c limit d table = Inr (k, table')"
  shows "\<exists>es'. table_shows engine table' es' \<and> queue_resume tenant c k (queue_of es) (queue_of es') \<and> list_all2 calms es es'"
proof -
  from resumed_carried_out [OF assms] obtain n at where r: "k = min n (length (paused_rows engine tenant es))" "iso_text at"
    "\<forall>e \<in> set (paused_rows engine tenant es). oe_circuitId e = Some c"
    "table_shows engine table' (replace_rows (\<lambda>e. resumed_row e at) (oe_id ` set (take n (paused_rows engine tenant es))) es)"
    by blast
  let ?sel = "take n (paused_rows engine tenant es)"
  let ?ids = "oe_id ` set ?sel"
  have d: "distinct (map oe_id es)" using assms(2) by (simp add: table_shows_def)
  have in_sel: "e \<in> set es \<and> oe_tenantId e = tenant \<and> oe_status e = OPaused" if "e \<in> set ?sel" for e
    using that by (auto simp: paused_rows_def dest!: in_set_takeD)
  have q: "queue_of (replace_rows (\<lambda>e. resumed_row e at) ?ids es) = set_phase Waiting ?ids (queue_of es)"
    by (rule queue_replace) (simp add: resumed_row_def phase_of_def)
  have circuit: "oe_circuitId e = Some c" if "e \<in> set es" "oe_tenantId e = tenant" "oe_status e = OPaused" for e
    using r(3) that by (simp add: paused_rows_def)
  have stopped: "c' = c" if "queue_of es i = Some (tenant, p, Stopped c')" for i p c'
  proof -
    from that obtain e where "e \<in> set es" "row_view e = (tenant, p, Stopped c')" using queue_of_Some [OF d] by blast
    with circuit [of e] phase_of_Stopped [of e c'] show ?thesis by (simp add: row_view_def)
  qed
  have sel: "\<exists>p. queue_of es i = Some (tenant, p, Stopped c)" if "i \<in> ?ids" for i
  proof -
    from that obtain e where "e \<in> set ?sel" "i = oe_id e" by blast
    with in_sel [of e] circuit [of e] have "e \<in> set es" "oe_id e = i" "row_view e = (tenant, oe_payload e, Stopped c)"
      by (auto simp: row_view_def phase_of_def)
    then show ?thesis using queue_of_Some [OF d] by blast
  qed
  have "distinct (map oe_id (paused_rows engine tenant es))" using d by (simp add: paused_rows_def distinct_map_filter_ids)
  then have "distinct (map oe_id ?sel)" by (metis distinct_take take_map)
  then have "card ?ids = k" using distinct_card [of "map oe_id ?sel"] r(1) by simp
  then have "\<exists>ids. finite ids \<and> card ids = k \<and> (\<forall>i \<in> ids. \<exists>p. queue_of es i = Some (tenant, p, Stopped c)) \<and>
      queue_of (replace_rows (\<lambda>e. resumed_row e at) ?ids es) = set_phase Waiting ids (queue_of es)"
    using sel q by (intro exI [of _ ?ids] conjI ballI) simp_all
  with stopped have "queue_resume tenant c k (queue_of es) (queue_of (replace_rows (\<lambda>e. resumed_row e at) ?ids es))"
    unfolding queue_resume_def by blast
  moreover have "set ?sel \<subseteq> set es" using in_sel by blast
  then have "list_all2 calms es (replace_rows (\<lambda>e. resumed_row e at) ?ids es)"
    unfolding replace_rows_def list_all2_map2
  proof (intro list.rel_refl_strong)
    fix e assume e: "e \<in> set es"
    have "calms e (resumed_row e at)" if "oe_id e \<in> ?ids"
      using in_sel [OF selection [OF assms(2) \<open>set ?sel \<subseteq> set es\<close> e that]] resumed_row_calms [OF r(2)] by blast
    then show "calms e (if oe_id e \<in> ?ids then resumed_row e at else e)" by simp
  qed
  ultimately show ?thesis using r(4) by blast
qed

section \<open>Claims\<close>

lemma leased_row_ok:
  assumes "entry_ok engine e" "oe_status e \<in> {OPending, OLeased}" "\<not> blank l" "iso_text x" "iso_text at"
  shows "entry_ok engine (lease_row e l x at)" "same_work e (lease_row e l x at)"
  using assms by (auto simp: entry_ok_def row_ok_def phase_ok_def lease_row_def same_work_def)

lemma sql_claim_loop_shows:
  assumes "engine_ok engine" "table_shows engine table es" "list_all2 encodes rows sel" "list_all (entry_ok engine) sel"
    "distinct (map oe_id sel)" "set sel \<subseteq> set es" "\<forall>e \<in> set sel. oe_status e \<in> {OPending, OLeased}"
    "\<not> blank l" "iso_text at"
    "sql_claim_loop engine at l ms maxBytes claims bytes table (map selected_json rows) = Inr (claims', table')"
  shows "\<exists>x m ns. (0 < m \<longrightarrow> lease_expiry (sql_host engine) at ms = Inr x) \<and> m \<le> length sel \<and>
    claims' = claims @ map (\<lambda>e. lease_row e l x at) (take m sel) \<and>
    table_shows engine table' (replace_rows (\<lambda>e. lease_row e l x at) (oe_id ` set (take m sel)) es) \<and>
    map (\<lambda>e. outboxPayloadByteLength (oe_payload e)) (take m sel) = map Inr ns \<and>
    (bytes \<le> maxBytes \<longrightarrow> bytes + sum_list ns \<le> maxBytes)"
  using assms(2-7,10)
proof (induction sel arbitrary: rows table es claims bytes)
  case Nil
  then have r: "claims' = claims" "table' = table" by simp_all
  show ?case by (rule exI [of _ "[]"], rule exI [of _ 0], rule exI [of _ "[]"]) (use Nil.prems(1) r in simp)
next
  case (Cons e sel)
  from Cons.prems(2) obtain row rest where rows: "rows = row # rest" "encodes row e" "list_all2 encodes rest sel"
    by (auto simp: list_all2_Cons2)
  have ok: "entry_ok engine e" "oe_status e \<in> {OPending, OLeased}" "e \<in> set es" using Cons.prems(3,5,6) by auto
  have read: "entryFromSqlRow engine (selected_json row) = Inr e" using entry_read [OF assms(1) rows(2) ok(1)] .
  from Cons.prems(7) rows(1) read obtain n where n: "outboxPayloadByteLength (oe_payload e) = Inr n" by auto
  show ?case
  proof (cases "maxBytes < bytes + n")
    case True
    with Cons.prems(7) rows(1) read n have r: "claims' = claims" "table' = table" by simp_all
    show ?thesis by (rule exI [of _ "[]"], rule exI [of _ 0], rule exI [of _ "[]"]) (use Cons.prems(1) r in simp)
  next
    case False
    with Cons.prems(7) rows(1) read n obtain x t1 where x: "lease_expiry (sql_host engine) at ms = Inr x"
      and t1: "updateEntry engine (lease_row e l x at) table = Inr t1"
      and run: "sql_claim_loop engine at l ms maxBytes (claims @ [lease_row e l x at]) (bytes + n) t1 (map selected_json rest)
          = Inr (claims', table')"
      by (auto simp: Let_def)
    let ?f = "\<lambda>e. lease_row e l x at"
    note leased = leased_row_ok [OF ok(1,2) assms(8) lease_expiry_iso [OF x] assms(9)]
    from updateEntry_shows [OF assms(1) Cons.prems(1) ok(3) leased(2,1)] t1
    have shown: "table_shows engine t1 (put_row (?f e) es)" by simp
    have d: "distinct (map oe_id es)" using Cons.prems(1) by (simp add: table_shows_def)
    have keep: "oe_id (?f e) = oe_id e" by (simp add: lease_row_def)
    have other: "oe_id y \<noteq> oe_id e" if "y \<in> set sel" for y using Cons.prems(4) that by (auto simp: image_iff)
    have "set sel \<subseteq> set (put_row (?f e) es)"
      using Cons.prems(5) other put_row_others [of _ es "?f e"] keep by auto
    moreover have "list_all (entry_ok engine) sel" "distinct (map oe_id sel)" "\<forall>e \<in> set sel. oe_status e \<in> {OPending, OLeased}"
      using Cons.prems(3,4,6) by simp_all
    ultimately obtain y m ns where
      m: "0 < m \<longrightarrow> lease_expiry (sql_host engine) at ms = Inr y" "m \<le> length sel"
        "claims' = (claims @ [?f e]) @ map (\<lambda>e. lease_row e l y at) (take m sel)"
        "table_shows engine table' (replace_rows (\<lambda>e. lease_row e l y at) (oe_id ` set (take m sel)) (put_row (?f e) es))"
        "map (\<lambda>e. outboxPayloadByteLength (oe_payload e)) (take m sel) = map Inr ns"
        "bytes + n \<le> maxBytes \<longrightarrow> bytes + n + sum_list ns \<le> maxBytes"
      using Cons.IH [OF shown rows(3) _ _ _ _ run] by blast
    have y: "y = x \<or> take m sel = []" using m(1) x by (cases "m = 0") auto
    have "oe_id e \<notin> oe_id ` set (take m sel)" using other set_take_subset [of m sel] by (metis imageE subsetD)
    from replace_rows_step [where f = ?f, OF d ok(3) keep this]
    have "replace_rows (\<lambda>e. lease_row e l y at) (oe_id ` set (take m sel)) (put_row (?f e) es)
        = replace_rows ?f (oe_id ` set (take (Suc m) (e # sel))) es"
      using y by auto
    moreover have "claims' = claims @ map ?f (take (Suc m) (e # sel))" using m(3) y by auto
    moreover have "map (\<lambda>e. outboxPayloadByteLength (oe_payload e)) (take (Suc m) (e # sel)) = map Inr (n # ns)"
      using m(5) n by simp
    moreover have "bytes \<le> maxBytes \<longrightarrow> bytes + sum_list (n # ns) \<le> maxBytes" using m(6) False by simp
    ultimately show ?thesis
      using m(2,4) x by (intro exI [of _ x] exI [of _ "Suc m"] exI [of _ "n # ns"]) simp
  qed
qed

lemma list_ex_related:
  assumes "list_all2 P xs ys" "\<And>x y. x \<in> set xs \<Longrightarrow> y \<in> set ys \<Longrightarrow> P x y \<Longrightarrow> Q x = R y"
  shows "list_ex Q xs \<longleftrightarrow> (\<exists>y \<in> set ys. R y)"
  using assms by (induction xs ys rule: list_all2_induct) auto

text \<open>What the claim statement selects.\<close>

definition sql_claimable :: "sql_engine \<Rightarrow> string \<Rightarrow> string \<Rightarrow> outbox_entry list \<Rightarrow> outbox_entry \<Rightarrow> bool" where
  "sql_claimable engine at tenant es e \<longleftrightarrow> oe_tenantId e = tenant \<and> oe_status e \<in> {OPending, OLeased} \<and>
     sq_compare engine (oe_availableAt e) at \<le> 0 \<and>
     (\<forall>b \<in> set es. oe_tenantId b = tenant \<longrightarrow> oe_status b \<noteq> OPaused \<and>
        (oe_status b = OLeased \<longrightarrow> sq_compare engine (oe_availableAt b) at \<le> 0))"

lemma blocked_row_entries:
  assumes "engine_ok engine" "table_shows engine table es" "encodes row e"
    "nth_param params i = JStr ''paused''" "nth_param params (i + 1) = JStr ''leased''" "nth_param params (i + 2) = JStr at"
  shows "blocked_row engine params i table row \<longleftrightarrow>
    (\<exists>b \<in> set es. oe_tenantId b = oe_tenantId e \<and>
      (oe_status b = OPaused \<or> oe_status b = OLeased \<and> 0 < sq_compare engine (oe_availableAt b) at))"
proof -
  have all: "list_all2 encodes table es" using assms(2) by (simp add: table_shows_def)
  show ?thesis
    unfolding blocked_row_def assms(4-6)
  proof (rule list_ex_related [OF all])
    fix r b assume b: "r \<in> set table" "b \<in> set es" "encodes r b"
    note st = status_text [OF b(3) shown_entry [OF assms(2) b(2)]]
    show "(sq_compare engine (sr_tenant_id r) (sr_tenant_id row) = 0 \<and>
        (col_eq engine (sr_status r) (JStr ''paused'') \<or> col_eq engine (sr_status r) (JStr ''leased'') \<and>
         col_compares engine (\<lambda>c. 0 < c) (sr_available_at r) (JStr at))) =
       (oe_tenantId b = oe_tenantId e \<and>
        (oe_status b = OPaused \<or> oe_status b = OLeased \<and> 0 < sq_compare engine (oe_availableAt b) at))"
      using assms(1,3) b(3) st unfolding col_eq_text [OF assms(1)] by (simp add: col_compares_def encodes_def engine_ok_def)
  qed
qed

lemma claimable_row_entry:
  assumes "engine_ok engine" "table_shows engine table es" "encodes row e" "entry_ok engine e"
  shows "claimable_row engine (claimableParams (sq_dialect engine) at (Some tenant) limit) table row \<longleftrightarrow>
    sql_claimable engine at tenant es e"
proof -
  let ?ps = "claimableParams (sq_dialect engine) at (Some tenant) limit"
  have ps: "nth_param ?ps 1 = JStr ''pending''" "nth_param ?ps 2 = JStr ''leased''" "nth_param ?ps 3 = JStr at"
    "nth_param ?ps 4 = JStr ''paused''" "nth_param ?ps (4 + 1) = JStr ''leased''" "nth_param ?ps (4 + 2) = JStr at"
    "nth_param ?ps 7 = JStr tenant"
    by (simp_all add: nth_param_def claimableParams_def)
  note st = status_text [OF assms(3,4)]
  show ?thesis
    unfolding claimable_row_def blocked_row_entries [OF assms(1-3) ps(4-6)] ps(1-3,7) col_eq_text [OF assms(1)] st
      sql_claimable_def
    using assms(3) by (auto simp: col_compares_def encodes_def)
qed

text \<open>A claim leases a prefix of the claimable rows in queue order.\<close>

lemma sql_claimed:
  assumes engine: "engine_ok engine" and shown: "table_shows engine table es"
    and claim: "sql_claimDispatchable engine opts table = Inr (claims, table')" and tenant: "cl_tenantId opts = Some t"
  obtains at x sel ns limit maxBytes where
    "normalizeTimestamp (sql_host engine) (date_or_now (sql_host engine) (cl_now opts)) = Inr at"
    "claims = map (\<lambda>e. lease_row e (cl_leaseId opts) x at) sel" "distinct (map oe_id sel)" "set sel \<subseteq> set es"
    "\<forall>e \<in> set sel. sql_claimable engine at t es e"
    "table_shows engine table' (replace_rows (\<lambda>e. lease_row e (cl_leaseId opts) x at) (oe_id ` set sel) es)"
    "cl_limit opts = NInt limit" "int (length claims) \<le> limit"
    "cl_maxPayloadBytes opts = NInt maxBytes"
    "map (\<lambda>e. outboxPayloadByteLength (oe_payload e)) sel = map Inr ns" "sum_list ns \<le> maxBytes"
proof -
  from claim obtain ms limit maxBytes at result where g:
      "validateClaimOptions (sql_host engine) opts = Inr (ms, limit, maxBytes)"
      "normalizeTimestamp (sql_host engine) (date_or_now (sql_host engine) (cl_now opts)) = Inr at"
      "execute engine (SelectClaimable limit) (claimableParams (sq_dialect engine) at (Some t) limit) table = Inr (result, table)"
      "andThen (rowsFromResult result) (sql_claim_loop engine at (cl_leaseId opts) ms maxBytes [] 0 table) = Inr (claims, table')"
    by (auto simp: sql_claimDispatchable_def execute_def Let_def tenant)
  have opts: "\<not> blank (cl_leaseId opts)" "cl_limit opts = NInt limit" "cl_maxPayloadBytes opts = NInt maxBytes" "0 < limit" "0 < maxBytes"
    using g(1) by (auto simp: validateClaimOptions_def requirePositive_def assertNonEmpty_def throwUnless_def
      split: jsnumber.splits if_splits)
  let ?ps = "claimableParams (sq_dialect engine) at (Some t) limit"
  let ?rows = "sort_by (queue_order engine) (filter (claimable_row engine ?ps table) table)"
  let ?all = "sort_by (sql_order engine) (filter (sql_claimable engine at t es) es)"
  have lim: "limit_rows engine ?ps 8 (Some limit) ?rows = take (nat limit) ?rows"
    by (simp add: limit_rows_def nth_param_def claimableParams_def limit_param_def split: sql_dialect.split)
  have "list_all2 encodes ?rows ?all"
    by (rule shown_selection [OF shown]) (rule claimable_row_entry [OF engine shown])
  then have rel: "list_all2 encodes (take (nat limit) ?rows) (take (nat limit) ?all)" by (rule list_all2_takeI)
  have mem: "e \<in> set es \<and> sql_claimable engine at t es e" if "e \<in> set (take (nat limit) ?all)" for e
    using in_set_takeD [OF that] by simp
  have "distinct (map oe_id ?all)" using shown by (simp add: table_shows_def distinct_map_filter_ids)
  then have d: "distinct (map oe_id (take (nat limit) ?all))" by (metis distinct_take take_map)
  have ok: "list_all (entry_ok engine) (take (nat limit) ?all)" unfolding list_all_iff using mem shown_entry [OF shown] by blast
  have "result = sq_result engine (map selected_json (take (nat limit) ?rows))"
    using g(3) lim by (simp add: execute_def Let_def)
  then have "rowsFromResult result = Inr (map selected_json (take (nat limit) ?rows))"
    using rows_result [OF engine] by simp
  with g(4) have run: "sql_claim_loop engine at (cl_leaseId opts) ms maxBytes [] 0 table (map selected_json (take (nat limit) ?rows))
      = Inr (claims, table')" by simp
  have sub: "set (take (nat limit) ?all) \<subseteq> set es" "\<forall>e \<in> set (take (nat limit) ?all). oe_status e \<in> {OPending, OLeased}"
    using mem unfolding sql_claimable_def by blast+
  from sql_claim_loop_shows [OF engine shown rel ok d sub opts(1) normalizeTimestamp_iso [OF g(2)] run]
  obtain x m ns where m: "claims = [] @ map (\<lambda>e. lease_row e (cl_leaseId opts) x at) (take m (take (nat limit) ?all))"
      "table_shows engine table' (replace_rows (\<lambda>e. lease_row e (cl_leaseId opts) x at) (oe_id ` set (take m (take (nat limit) ?all))) es)"
      "map (\<lambda>e. outboxPayloadByteLength (oe_payload e)) (take m (take (nat limit) ?all)) = map Inr ns"
      "0 \<le> maxBytes \<longrightarrow> 0 + sum_list ns \<le> maxBytes" by blast
  obtain sel where sel: "sel = take m (take (nat limit) ?all)" by blast
  have "set sel \<subseteq> set (take (nat limit) ?all)" unfolding sel by (rule set_take_subset)
  then have "set sel \<subseteq> set es" "\<forall>e \<in> set sel. sql_claimable engine at t es e" using mem by blast+
  moreover have "distinct (map oe_id sel)" using d unfolding sel by (metis distinct_take take_map)
  moreover have "length sel \<le> nat limit" by (simp add: sel)
  then have "int (length claims) \<le> limit" using m(1) opts(4) unfolding sel [symmetric] by simp
  moreover have "sum_list ns \<le> maxBytes" using m(4) opts(5) by simp
  moreover have "claims = map (\<lambda>e. lease_row e (cl_leaseId opts) x at) sel" using m(1) unfolding sel [symmetric] by simp
  ultimately show thesis using that [OF g(2) _ _ _ _ m(2) opts(2) _ opts(3) m(3)] unfolding sel [symmetric] by blast
qed

text \<open>A lease of several rows of one tenant, under one identifier.\<close>

definition queue_lease_tenant :: "string \<Rightarrow> string \<Rightarrow> string set \<Rightarrow> queue \<Rightarrow> queue \<Rightarrow> bool" where
  "queue_lease_tenant t l ids q q' \<longleftrightarrow> q' = set_phase (Held l) ids q \<and>
     (\<forall>i \<in> ids. \<exists>p ph. q i = Some (t, p, ph) \<and> (ph = Waiting \<or> (\<exists>l'. ph = Held l'))) \<and>
     (ids \<noteq> {} \<longrightarrow> (\<forall>j p c. q j \<noteq> Some (t, p, Stopped c)))"

lemma claimed_queue:
  assumes "table_shows engine table es" "set sel \<subseteq> set es" "\<forall>e \<in> set sel. sql_claimable engine at t es e"
  shows "queue_lease_tenant t l (oe_id ` set sel) (queue_of es)
    (queue_of (replace_rows (\<lambda>e. lease_row e l x at) (oe_id ` set sel) es))"
proof -
  have d: "distinct (map oe_id es)" using assms(1) by (simp add: table_shows_def)
  have q: "queue_of (replace_rows (\<lambda>e. lease_row e l x at) (oe_id ` set sel) es) = set_phase (Held l) (oe_id ` set sel) (queue_of es)"
    by (rule queue_replace) (simp add: lease_row_def phase_of_def)
  have row: "\<exists>p ph. queue_of es i = Some (t, p, ph) \<and> (ph = Waiting \<or> (\<exists>l'. ph = Held l'))" if "i \<in> oe_id ` set sel" for i
  proof -
    from that obtain e where e: "e \<in> set sel" "i = oe_id e" by blast
    with assms(3) have c: "oe_tenantId e = t" "oe_status e \<in> {OPending, OLeased}" by (auto simp: sql_claimable_def)
    have "queue_of es i = Some (row_view e)" using queue_of_Some [OF d] e assms(2) by blast
    with c show ?thesis by (auto simp: row_view_def phase_of_def)
  qed
  have "queue_of es j \<noteq> Some (t, p, Stopped c)" if "oe_id ` set sel \<noteq> {}" for j p c
  proof
    assume "queue_of es j = Some (t, p, Stopped c)"
    then obtain b where b: "b \<in> set es" "row_view b = (t, p, Stopped c)" using queue_of_Some [OF d] by blast
    from that obtain e where "e \<in> set sel" by (cases sel) auto
    with assms(3) have "sql_claimable engine at t es e" by blast
    with b phase_of_Stopped [of b c] show False by (auto simp: sql_claimable_def row_view_def)
  qed
  with q row show ?thesis unfolding queue_lease_tenant_def by blast
qed

section \<open>Transactions\<close>

definition input_ok :: "sql_engine \<Rightarrow> outbox_input \<Rightarrow> bool" where
  "input_ok engine input \<longleftrightarrow> writable (sq_number engine) (json_clone (oi_payload input))"

primrec program_ok :: "sql_engine \<Rightarrow> 'a host_program \<Rightarrow> bool" where
  "program_ok engine (Return x) = True"
| "program_ok engine (Throw e) = True"
| "program_ok engine (Enqueue input k) = (input_ok engine input \<and> (\<forall>r. program_ok engine (k r)))"

lemma pending_row:
  assumes "createPendingEntry h input = Inr e"
  shows "oe_attempts e = 0" "oe_dispatchedAt e = None" "oe_lastError e = None"
  using assms by (auto simp: createPendingEntry_def)

lemma insertEntry_shows:
  assumes engine: "engine_ok engine" and shown: "table_shows engine table es" and new: "oe_id e \<notin> oe_id ` set es"
    and e: "entry_ok engine e" "oe_status e = OPending" "oe_dispatchedAt e = None" "oe_lastError e = None"
      "canonicalJson (oe_payload e) = Inr c"
  shows "\<exists>result table'. execute engine InsertEntry (insertParams e c) table = Inr (result, table') \<and>
    table_shows engine table' (es @ [e])"
proof -
  let ?row = "\<lparr>sr_id = oe_id e, sr_tenant_id = oe_tenantId e, sr_payload_canonical = c, sr_entry_json = stringify (entry_json e),
    sr_status = ''pending'', sr_attempts = oe_attempts e, sr_available_at = oe_availableAt e, sr_created_at = oe_createdAt e,
    sr_updated_at = oe_updatedAt e, sr_dispatched_at = None, sr_last_error = None\<rparr>"
  have all: "list_all2 encodes table es" using shown by (simp add: table_shows_def)
  have "list_ex (\<lambda>other. sq_compare engine (sr_id other) (oe_id e) = 0) table \<longleftrightarrow> (\<exists>b \<in> set es. oe_id b = oe_id e)"
    by (rule list_ex_related [OF all]) (use engine in \<open>simp add: engine_ok_def encodes_def\<close>)
  with new have fresh: "\<not> list_ex (\<lambda>other. sq_compare engine (sr_id other) (oe_id e) = 0) table" by (auto simp: image_iff)
  have "encodes ?row e" using e by (simp add: encodes_def status_json_def)
  with all have "list_all2 encodes (table @ [?row]) (es @ [e])" by (simp add: list_all2_appendI)
  moreover have "execute engine InsertEntry (insertParams e c) table = Inr (sq_result engine [], table @ [?row])"
    using fresh e(2) by (simp add: insertParams_def execute_def Let_def insert_row_def nth_param_def text_value_def integer_value_def
        nullable_value_def status_json_def numeral_2_eq_2 [symmetric])
  ultimately show ?thesis using shown new e(1) by (auto simp: table_shows_def)
qed

lemma sql_enqueue_cases:
  assumes engine: "engine_ok engine" and shown: "table_shows engine table es" and input: "input_ok engine input"
    and enq: "sql_enqueue engine input table = Inr (e, table')"
  obtains (same) "table' = table" "e \<in> set es"
  | (fresh) "oe_id e \<notin> oe_id ` set es" "oe_status e = OPending" "table_shows engine table' (es @ [e])"
proof -
  from enq obtain e0 c where e0: "createPendingEntry (sql_host engine) input = Inr e0" "canonicalJson (oe_payload e0) = Inr c"
    by (auto simp: sql_enqueue_def)
  note row = createPendingEntry_row [OF e0(1)] pending_row [OF e0(1)]
  let ?rows = "filter (\<lambda>row. col_eq engine (sr_id row) (nth_param [JStr (oe_id e0)] 1)) table"
  let ?es = "filter (\<lambda>x. oe_id x = oe_id e0) es"
  have rel: "list_all2 encodes ?rows ?es" using row_by_id [OF engine] shown by (simp add: table_shows_def)
  show thesis
  proof (cases ?es)
    case Nil
    then have new: "oe_id e0 \<notin> oe_id ` set es" by (auto simp: filter_empty_conv)
    have ok: "entry_ok engine e0" using row input by (simp add: entry_ok_def input_ok_def is_safe_int_def max_safe_integer_def)
    from insertEntry_shows [OF engine shown new ok _ row(3,4) e0(2)] row(1) obtain result t1 where
      t1: "execute engine InsertEntry (insertParams e0 c) table = Inr (result, t1)" "table_shows engine t1 (es @ [e0])"
      by blast
    have "?rows = []" using rel Nil by simp
    then have "execute engine (SelectById False) [JStr (oe_id e0)] table = Inr (sq_result engine [], table)"
      by (simp add: execute_def Let_def)
    with enq e0 t1(1) firstRow_selected [OF engine, of "[]"] have "e = e0" "table' = t1"
      by (simp_all add: sql_enqueue_def)
    with fresh new row(1) t1(2) show thesis by blast
  next
    case (Cons x rest)
    with rel obtain r more where r: "?rows = r # more" "encodes r x" by (auto simp: list_all2_Cons2)
    have x: "x \<in> set es" using Cons by (auto simp: filter_eq_Cons_iff)
    have "entryFromSqlRow engine (selected_json r) = Inr x" using entry_read [OF engine r(2) shown_entry [OF shown x]] .
    moreover have "execute engine (SelectById False) [JStr (oe_id e0)] table = Inr (sq_result engine (map selected_json [r]), table)"
      using r(1) by (simp add: execute_def Let_def)
    ultimately have "e = x" "table' = table"
      using enq e0 firstRow_selected [OF engine, of "[r]"] by (auto simp: sql_enqueue_def split: if_splits)
    with same x show thesis by blast
  qed
qed

lemma queue_of_snoc: "oe_id e \<notin> oe_id ` set es \<Longrightarrow> queue_of (es @ [e]) = (queue_of es)(oe_id e \<mapsto> row_view e)"
  by (induction es) (auto simp: fun_upd_twist)

lemma sql_run_program_shows:
  assumes engine: "engine_ok engine"
  shows "sql_run_program engine run table = Inr (x, table') \<Longrightarrow> program_ok engine run \<Longrightarrow> table_shows engine table es \<Longrightarrow>
    \<exists>new. table_shows engine table' (es @ new) \<and> (\<forall>e \<in> set new. oe_status e = OPending) \<and>
      queue_submit\<^sup>*\<^sup>* (queue_of es) (queue_of (es @ new))"
proof (induction run arbitrary: table es)
  case (Return y)
  then show ?case by (intro exI [of _ "[]"]) simp
next
  case (Enqueue input k)
  show ?case
  proof (cases "sql_enqueue engine input table")
    case (Inl e)
    with Enqueue.prems have "sql_run_program engine (k (Inl e)) table = Inr (x, table')" "program_ok engine (k (Inl e))" by simp_all
    from Enqueue.IH [OF _ this Enqueue.prems(3)] show ?thesis by blast
  next
    case (Inr r)
    obtain e t1 where r: "r = (e, t1)" by force
    with Inr Enqueue.prems have run: "sql_run_program engine (k (Inr e)) t1 = Inr (x, table')" "program_ok engine (k (Inr e))" by simp_all
    have enq: "sql_enqueue engine input table = Inr (e, t1)" "input_ok engine input" using Inr r Enqueue.prems(2) by simp_all
    from engine Enqueue.prems(3) enq(2,1) show ?thesis
    proof (cases rule: sql_enqueue_cases)
      case same
      with Enqueue.IH [OF _ run] Enqueue.prems(3) show ?thesis by blast
    next
      case fresh
      from Enqueue.IH [OF _ run fresh(3)] obtain new where new: "table_shows engine table' ((es @ [e]) @ new)"
        "\<forall>e \<in> set new. oe_status e = OPending" "queue_submit\<^sup>*\<^sup>* (queue_of (es @ [e])) (queue_of ((es @ [e]) @ new))" by blast
      have "row_view e = (oe_tenantId e, oe_payload e, Waiting)" using fresh(2) by (simp add: row_view_def phase_of_def)
      then have "queue_submit (queue_of es) (queue_of (es @ [e]))"
        using queue_submit.intros [of "queue_of es" "oe_id e"] fresh(1) by (simp add: queue_of_snoc queue_of_None)
      with new fresh(2) show ?thesis by (intro exI [of _ "e # new"]) (auto intro: converse_rtranclp_into_rtranclp)
    qed
  qed
qed auto

text \<open>\<open>json_clone\<close>, the model of \<open>clonePayload\<close>, is \<open>JSON.parse(JSON.stringify(value))\<close>, for every
  value whose copy has numbers that read back and members in enumeration order.\<close>

theorem json_clone_is_parse_stringify:
  assumes "writable numberOf (json_clone value)"
  shows "json_parse numberOf (stringify value) = Inr (json_clone value)"
  using json_parse_stringify [OF assms] by (simp only: stringify_clone(1))

lemma json_clone_is_parse_stringify_witness:
  "json_parse (\<lambda>l. if l = ''7'' then NInt 7 else NNaN)
     (stringify (JObj [(''at'', JDate (Some 0)), (''n'', JNum (NInt 7)), (''skip'', JUndefined), (''xs'', JArr [JNum NNaN])])) =
   Inr (JObj [(''at'', JStr ''1970-01-01T00:00:00.000Z''), (''n'', JNum (NInt 7)), (''xs'', JArr [JNull])])"
proof -
  have w: "writable (\<lambda>l. if l = ''7'' then NInt 7 else NNaN)
     (json_clone (JObj [(''at'', JDate (Some 0)), (''n'', JNum (NInt 7)), (''skip'', JUndefined), (''xs'', JArr [JNum NNaN])]))"
    by code_simp
  have c: "json_clone (JObj [(''at'', JDate (Some 0)), (''n'', JNum (NInt 7)), (''skip'', JUndefined), (''xs'', JArr [JNum NNaN])]) =
     JObj [(''at'', JStr ''1970-01-01T00:00:00.000Z''), (''n'', JNum (NInt 7)), (''xs'', JArr [JNull])]"
    by code_simp
  show ?thesis using json_clone_is_parse_stringify [OF w] by (simp only: c)
qed

end
