(* ===== verification/SqlText.thy ===== *)
theory SqlText
  imports SqlOutbox
begin

text \<open>
  The text of the SQL statements: in both dialects the placeholders of every statement are the
  parameters that the adapter passes, in their order.
\<close>

section \<open>Placeholders\<close>

text \<open>The placeholders of a statement's text: \<open>$n\<close> as its number, \<open>?\<close> as 0.\<close>

fun sql_marks :: "string \<Rightarrow> nat list" where
  "sql_marks [] = []"
| "sql_marks (c # s) =
     (if c = CHR ''$'' then nat_of_digits (takeWhile is_digit s) # sql_marks s
      else if c = CHR ''?'' then 0 # sql_marks s else sql_marks s)"

definition no_mark :: "char \<Rightarrow> bool" where
  "no_mark c \<longleftrightarrow> c \<noteq> CHR ''$'' \<and> c \<noteq> CHR ''?''"

definition mark :: "sql_dialect \<Rightarrow> nat \<Rightarrow> nat" where
  "mark dialect i = (case dialect of Postgres \<Rightarrow> i | Mysql \<Rightarrow> 0)"

definition no_digit_next :: "string \<Rightarrow> bool" where
  "no_digit_next r \<longleftrightarrow> r = [] \<or> \<not> is_digit (hd r)"

lemma marks_plain: "list_all no_mark s \<Longrightarrow> sql_marks (s @ r) = sql_marks r"
  by (induction s) (auto simp: no_mark_def)

lemma digits_no_mark: "list_all is_digit s \<Longrightarrow> list_all no_mark s"
  by (auto simp: list_all_iff no_mark_def is_digit_code_unit code_unit_def)

lemma marks_placeholder:
  assumes "no_digit_next r"
  shows "sql_marks (placeholder dialect i @ r) = mark dialect i # sql_marks r"
proof (cases dialect)
  case Postgres
  have "takeWhile is_digit (show_nat i @ r) = show_nat i"
    using show_nat_digits [of i] assms by (cases r) (simp_all add: takeWhile_append2 list_all_iff no_digit_next_def)
  with Postgres marks_plain [OF digits_no_mark [OF show_nat_digits], of i r] show ?thesis by (simp add: placeholder_def mark_def)
qed (simp add: placeholder_def mark_def)

lemma no_mark_join: "list_all no_mark sep \<Longrightarrow> list_all (list_all no_mark) xs \<Longrightarrow> list_all no_mark (join sep xs)"
  by (induction sep xs rule: join.induct) auto

lemma identifier_no_mark: "is_sql_identifier s \<Longrightarrow> list_all no_mark s"
proof -
  have c: "is_word_start c \<or> is_digit c \<Longrightarrow> no_mark c" for c
    by (auto simp: is_word_start_def is_digit_def is_lower_def is_upper_def less_eq_char_def no_mark_def)
  assume "is_sql_identifier s"
  then show ?thesis using c by (cases s) (auto simp: is_sql_identifier_def list_all_iff)
qed

lemma table_no_mark: "sqlOutboxAdapter dialect name = Inr table \<Longrightarrow> list_all no_mark table"
proof -
  assume "sqlOutboxAdapter dialect name = Inr table"
  then obtain parts q where t: "table = join ''.'' (map (\<lambda>part. q # part @ [q]) parts)" "list_all is_sql_identifier parts"
    "q \<in> {DQ, CHR ''`''}"
    by (cases dialect) (auto simp: sqlOutboxAdapter_def quoteTableName_def Let_def split: if_splits)
  show ?thesis unfolding t(1)
    by (rule no_mark_join) (use t(2,3) identifier_no_mark in \<open>auto simp: list_all_iff no_mark_def DQ_def\<close>)
qed

definition numbered :: "sql_dialect \<Rightarrow> nat \<Rightarrow> nat list" where
  "numbered dialect n = map (mark dialect) [1..<Suc n]"

lemma marks_literal: "sql_marks (c # s) = (if no_mark c then sql_marks s else sql_marks (c # s))"
  by (simp add: no_mark_def)

lemma marks_show_int: "sql_marks (show_int n @ r) = sql_marks r" "sql_marks (show_int n) = []"
proof -
  have "list_all no_mark (show_int n)"
    using digits_no_mark [OF show_nat_digits] by (simp add: show_int_def no_mark_def)
  from marks_plain [OF this, of r] marks_plain [OF this, of "[]"]
  show "sql_marks (show_int n @ r) = sql_marks r" "sql_marks (show_int n) = []" by simp_all
qed

lemma marks_limit:
  "no_digit_next r \<Longrightarrow> sql_marks (limitSql dialect i limit @ r) = map (\<lambda>_. mark dialect i) (limit_param dialect limit) @ sql_marks r"
  by (cases limit; cases dialect) (simp_all add: limitSql_def limit_param_def marks_placeholder marks_show_int)

lemmas statement_texts = selectByIdSql_def selectEntriesSql_def selectDispatchableSql_def selectClaimableSql_def
  lockTenantSql_def selectPausedForUpdateSql_def insertSql_def updateSql_def blockerSql_def

lemma no_digit_next_simps [simp]: "no_digit_next []" "no_digit_next (c # s) \<longleftrightarrow> \<not> is_digit c"
  by (simp_all add: no_digit_next_def)

lemma marks_end [simp]: "sql_marks (placeholder dialect i) = [mark dialect i]"
  using marks_placeholder [of "[]"] by simp

lemma no_digit_next_limit [simp]: "no_digit_next r \<Longrightarrow> no_digit_next (limitSql dialect i limit @ r)" "no_digit_next (limitSql dialect i limit)"
  by (cases limit; simp add: limitSql_def is_digit_code_unit code_unit_def)+

lemma marks_limit_end: "sql_marks (limitSql dialect i limit) = map (\<lambda>_. mark dialect i) (limit_param dialect limit)"
  using marks_limit [of "[]"] by simp

lemma upto_values:
  "[Suc 0..<3] = [1, 2]" "[Suc 0..<6] = [1, 2, 3, 4, 5]" "[Suc 0..<7] = [1, 2, 3, 4, 5, 6]"
  "[Suc 0..<8] = [1, 2, 3, 4, 5, 6, 7]" "[Suc 0..<9] = [1, 2, 3, 4, 5, 6, 7, 8]"
  "[Suc 0..<12] = [1, 2, 3, 4, 5, 6, 7, 8, 9, 10, 11]"
  by code_simp+

lemmas marks_simps = marks_placeholder marks_limit marks_limit_end is_digit_code_unit code_unit_def

lemma marks_by_id:
  assumes "list_all no_mark table"
  shows "sql_marks (selectByIdSql dialect table b) = [mark dialect 1]"
  using marks_plain [OF assms] by (simp add: selectByIdSql_def marks_simps)

lemma marks_entries:
  assumes "list_all no_mark table"
  shows "sql_marks (selectEntriesSql dialect table scoped limit) = (if scoped then [mark dialect 1] else []) @
    map (\<lambda>_. mark dialect (if scoped then 2 else 1)) (limit_param dialect limit)"
  using marks_plain [OF assms] by (simp add: selectEntriesSql_def marks_simps)

lemma marks_blocker:
  assumes "list_all no_mark table"
  shows "sql_marks (blockerSql dialect table i @ r) = [mark dialect i, mark dialect (i + 1), mark dialect (i + 2)] @ sql_marks r"
    "no_digit_next (blockerSql dialect table i @ r)"
  using marks_plain [OF assms] by (simp_all add: blockerSql_def marks_simps)

lemma marks_dispatchable:
  assumes "list_all no_mark table"
  shows "sql_marks (selectDispatchableSql dialect table scoped limit) =
    [mark dialect 1, mark dialect 2, mark dialect 3, mark dialect 4, mark dialect 5] @ (if scoped then [mark dialect 6] else []) @
    map (\<lambda>_. mark dialect (if scoped then 7 else 6)) (limit_param dialect limit)"
  using marks_plain [OF assms] marks_blocker [OF assms] by (simp add: selectDispatchableSql_def marks_simps)

lemma marks_claimable:
  assumes "list_all no_mark table"
  shows "sql_marks (selectClaimableSql dialect table limit) =
    [mark dialect 1, mark dialect 2, mark dialect 3, mark dialect 4, mark dialect 5, mark dialect 6, mark dialect 7] @
    map (\<lambda>_. mark dialect 8) (limit_param dialect (Some limit))"
  using marks_plain [OF assms] marks_blocker [OF assms] by (simp add: selectClaimableSql_def marks_simps)

lemma marks_others:
  assumes "list_all no_mark table"
  shows "sql_marks (lockTenantSql dialect table) = [mark dialect 1]"
    "sql_marks (selectPausedForUpdateSql dialect table) = [mark dialect 1, mark dialect 2]"
    "sql_marks (insertSql dialect table) = map (mark dialect) [1, 2, 3, 4, 5, 6, 7, 8, 9, 10, 11]"
    "sql_marks (updateSql dialect table) = map (mark dialect) [1, 2, 3, 4, 5, 6, 7, 8]"
  using marks_plain [OF assms]
  by (simp_all add: lockTenantSql_def selectPausedForUpdateSql_def insertSql_def updateSql_def marks_simps upto_values)

lemma numbered_values:
  "numbered d 0 = []" "numbered d (Suc 0) = [mark d 1]" "numbered d 2 = map (mark d) [1, 2]" "numbered d 5 = map (mark d) [1, 2, 3, 4, 5]"
  "numbered d 6 = map (mark d) [1, 2, 3, 4, 5, 6]" "numbered d 7 = map (mark d) [1, 2, 3, 4, 5, 6, 7]"
  "numbered d 8 = map (mark d) [1, 2, 3, 4, 5, 6, 7, 8]" "numbered d 11 = map (mark d) [1, 2, 3, 4, 5, 6, 7, 8, 9, 10, 11]"
  by (simp_all add: numbered_def upto_values)

lemma numbered_two: "numbered d (Suc (Suc 0)) = map (mark d) [1, 2]"
  by (simp add: numbered_def numeral_2_eq_2)

lemma limit_param_length: "length (limit_param d None) = 0" "length (limit_param d (Some n)) = (if d = Postgres then 1 else 0)"
  by (simp_all add: limit_param_def)

text \<open>C26. In both dialects every statement of the SQL outbox has exactly as many placeholders as the
  adapter passes parameters, numbered from 1 in the order of the parameter list, whatever the table
  name, the tenant scope and the limit are.\<close>

theorem statements_match_parameters:
  assumes "sqlOutboxAdapter dialect name = Inr table"
  shows "sql_marks (statement_sql dialect table (SelectById forUpdate)) = numbered dialect (length [JStr rowId]) \<and>
    sql_marks (statement_sql dialect table (SelectEntries (tenant \<noteq> None) limit)) =
      numbered dialect (length (selectEntriesParams dialect tenant limit)) \<and>
    sql_marks (statement_sql dialect table (SelectDispatchable (tenant \<noteq> None) limit)) =
      numbered dialect (length (dispatchableParams dialect at tenant limit)) \<and>
    sql_marks (statement_sql dialect table (SelectClaimable n)) = numbered dialect (length (claimableParams dialect at tenant n)) \<and>
    sql_marks (statement_sql dialect table LockTenant) = numbered dialect (length [JStr t]) \<and>
    sql_marks (statement_sql dialect table SelectPausedForUpdate) = numbered dialect (length [JStr t, JStr ''paused'']) \<and>
    sql_marks (statement_sql dialect table InsertEntry) = numbered dialect (length (insertParams entry canonical)) \<and>
    sql_marks (statement_sql dialect table UpdateEntry) = numbered dialect (length (updateParams entry))"
proof -
  note table = table_no_mark [OF assms]
  note marks = marks_by_id [OF table] marks_entries [OF table] marks_dispatchable [OF table] marks_claimable [OF table]
    marks_others [OF table]
  have lengths: "length (selectEntriesParams dialect tenant limit) = (if tenant = None then 0 else 1) + length (limit_param dialect limit)"
    "length (dispatchableParams dialect at tenant limit) = (if tenant = None then 5 else 6) + length (limit_param dialect limit)"
    "length (claimableParams dialect at tenant n) = 7 + length (limit_param dialect (Some n))"
    "length (insertParams entry canonical) = 11" "length (updateParams entry) = 8"
    by (simp_all add: selectEntriesParams_def dispatchableParams_def claimableParams_def tenant_param_def insertParams_def
      updateParams_def split: option.splits)
  have "sql_marks (statement_sql dialect table (SelectEntries (tenant \<noteq> None) limit)) =
      numbered dialect (length (selectEntriesParams dialect tenant limit))"
    unfolding lengths statement_sql_def sql_statement.case marks
    by (cases tenant; cases limit; cases dialect) (simp_all add: limit_param_def numbered_values numbered_two)
  moreover have "sql_marks (statement_sql dialect table (SelectDispatchable (tenant \<noteq> None) limit)) =
      numbered dialect (length (dispatchableParams dialect at tenant limit))"
    unfolding lengths statement_sql_def sql_statement.case marks
    by (cases tenant; cases limit; cases dialect) (simp_all add: limit_param_def numbered_values numbered_two)
  moreover have "sql_marks (statement_sql dialect table (SelectClaimable n)) = numbered dialect (length (claimableParams dialect at tenant n))"
    unfolding lengths statement_sql_def sql_statement.case marks
    by (cases dialect) (simp_all add: limit_param_def numbered_values numbered_two)
  moreover have "numbered dialect (length [JStr rowId]) = [mark dialect 1]" "numbered dialect (length [JStr t]) = [mark dialect 1]"
    "numbered dialect (length [JStr t, JStr ''paused'']) = map (mark dialect) [1, 2]"
    by (simp_all add: numbered_values numbered_two)
  ultimately show ?thesis
    unfolding lengths statement_sql_def sql_statement.case marks numbered_values by simp
qed

lemma statements_match_parameters_witness:
  "\<exists>table. sqlOutboxAdapter Postgres (Some ''app.outbox'') = Inr table \<and>
     sql_marks (statement_sql Postgres table (SelectClaimable 5)) = [1, 2, 3, 4, 5, 6, 7, 8]"
proof -
  obtain table where table: "sqlOutboxAdapter Postgres (Some ''app.outbox'') = Inr table"
    by (simp add: sqlOutboxAdapter_def quoteTableName_def Let_def is_sql_identifier_def is_word_start_def is_lower_def
      less_eq_char_def)
  have n: "length (claimableParams Postgres [] None 5) = 8" by (simp add: claimableParams_def limit_param_def)
  from statements_match_parameters [OF table, where n = 5 and at = "[]" and tenant = None]
  have "sql_marks (statement_sql Postgres table (SelectClaimable 5)) = numbered Postgres 8" unfolding n by blast
  then show ?thesis using table by (auto simp: numbered_values mark_def)
qed

end
