(* ===== verification/SqlRuns.thy ===== *)
theory SqlRuns
  imports SqlQueue
begin

text \<open>
  Runs of the SQL outbox adapter: the steps that concurrent hosts take on one table, what every
  reachable table satisfies and what no run loses, the refinement of the abstract queue operation
  by operation, and the agreement with the file adapter on the same rows.
\<close>

section \<open>Moments\<close>

definition sql_moment :: "sql_engine \<Rightarrow> int \<Rightarrow> string \<Rightarrow> sql_engine" where
  "sql_moment engine n u = engine\<lparr>sq_env := moment (sq_env engine) n u\<rparr>"

lemma sql_moment_fields [simp]:
  "sq_env (sql_moment engine n u) = moment (sq_env engine) n u" "sq_number (sql_moment engine n u) = sq_number engine"
  "sq_compare (sql_moment engine n u) = sq_compare engine" "sq_dialect (sql_moment engine n u) = sq_dialect engine"
  by (simp_all add: sql_moment_def)

lemma sql_moment_shows [simp]: "table_shows (sql_moment engine n u) = table_shows engine"
proof -
  have "entry_ok (sql_moment engine n u) = entry_ok engine" by (intro ext) (simp add: entry_ok_def)
  then show ?thesis by (intro ext) (simp only: table_shows_def)
qed

lemma sql_moment_program [simp]: "program_ok (sql_moment engine n u) run \<longleftrightarrow> program_ok engine run"
  by (induction run) (simp_all add: input_ok_def)

section \<open>One holder per tenant\<close>

text \<open>The rows of a tenant with an unexpired lease carry one lease identifier.\<close>

definition one_holder :: "string \<Rightarrow> outbox_entry list \<Rightarrow> bool" where
  "one_holder at es \<longleftrightarrow> (\<forall>t. \<exists>l. \<forall>e \<in> set es. live at t e \<longrightarrow> oe_leaseId e = Some l)"

lemma one_holder_later: "one_holder at es \<Longrightarrow> at \<le> at' \<Longrightarrow> one_holder at' es"
  unfolding one_holder_def live_def by (meson le_less_trans)

lemma one_holder_sub:
  assumes "one_holder at es" "\<And>e t. e \<in> set es' \<Longrightarrow> live at t e \<Longrightarrow> e \<in> set es"
  shows "one_holder at es'"
  using assms unfolding one_holder_def by meson

lemma calms_holder: "list_all2 calms es es' \<Longrightarrow> one_holder at es \<Longrightarrow> one_holder at es'"
proof (erule one_holder_sub)
  fix e t assume all: "list_all2 calms es es'" and e: "e \<in> set es'" "live at t e"
  from list_all2_source [OF all e(1)] obtain e0 where "e0 \<in> set es" "calms e0 e" by blast
  with e(2) show "e \<in> set es" by (auto simp: calms_def live_def)
qed

definition collates_times :: "sql_engine \<Rightarrow> bool" where
  "collates_times engine \<longleftrightarrow> (\<forall>a b. iso_text a \<longrightarrow> iso_text b \<longrightarrow> (sq_compare engine a b \<le> 0 \<longleftrightarrow> a \<le> b))"

lemma claim_holder:
  assumes times: "collates_times engine" and shown: "table_shows engine table es" and at: "iso_text at"
    and sel: "set sel \<subseteq> set es" "\<forall>e \<in> set sel. sql_claimable engine at t es e" and before: "one_holder at es"
  shows "one_holder at (replace_rows (\<lambda>e. lease_row e l x at) (oe_id ` set sel) es)"
proof (cases "sel = []")
  case False
  let ?es = "replace_rows (\<lambda>e. lease_row e l x at) (oe_id ` set sel) es"
  have mem: "(\<exists>e0 \<in> set sel. e = lease_row e0 l x at) \<or> e \<in> set es \<and> e \<notin> set sel" if "e \<in> set ?es" for e
    using that selection [OF shown sel(1)] by (auto simp: replace_rows_def)
  obtain c where c: "sql_claimable engine at t es c" using False sel(2) by (cases sel) auto
  have "\<not> live at t e" if "e \<in> set es" for e
  proof
    assume live: "live at t e"
    with c that have "sq_compare engine (oe_availableAt e) at \<le> 0" by (auto simp: sql_claimable_def live_def)
    moreover have "iso_text (oe_availableAt e)" using shown_entry [OF shown that] by (simp add: entry_ok_def row_ok_def)
    ultimately have "oe_availableAt e \<le> at" using times at by (auto simp: collates_times_def)
    with live show False unfolding live_def using leD by blast
  qed
  then have own: "oe_leaseId e = Some l" if "e \<in> set ?es" "live at t e" for e
    using mem [OF that(1)] that(2) by (auto simp: lease_row_def)
  have other: "e \<in> set es" if "e \<in> set ?es" "live at s e" "s \<noteq> t" for e s
    using mem [OF that(1)] that(2,3) sel(2) by (auto simp: live_def lease_row_def sql_claimable_def)
  show ?thesis unfolding one_holder_def
  proof
    fix s show "\<exists>l. \<forall>e \<in> set ?es. live at s e \<longrightarrow> oe_leaseId e = Some l"
    proof (cases "s = t")
      case True
      then show ?thesis using own by blast
    next
      case False
      from before obtain l' where "\<forall>e \<in> set es. live at s e \<longrightarrow> oe_leaseId e = Some l'" by (auto simp: one_holder_def)
      then show ?thesis using other False by blast
    qed
  qed
qed (simp add: before)

section \<open>Runs\<close>

text \<open>A state is the latest claim time and the table.\<close>

inductive sql_step :: "sql_engine \<Rightarrow> string \<times> sql_table \<Rightarrow> string \<times> sql_table \<Rightarrow> bool" for engine where
  sq_transaction: "engine_ok (sql_moment engine n u) \<Longrightarrow> program_ok engine run \<Longrightarrow>
     sql_transaction (sql_moment engine n u) run table = Inr ((), table') \<Longrightarrow> sql_step engine (clock, table) (clock, table')"
| sq_claim: "engine_ok (sql_moment engine n u) \<Longrightarrow> cl_tenantId opts = Some t \<Longrightarrow>
     sql_claimDispatchable (sql_moment engine n u) opts table = Inr (claims, table') \<Longrightarrow>
     normalizeTimestamp (sql_host (sql_moment engine n u)) (date_or_now (sql_host (sql_moment engine n u)) (cl_now opts)) = Inr at \<Longrightarrow>
     clock \<le> at \<Longrightarrow> sql_step engine (clock, table) (at, table')"
| sq_dispatched: "engine_ok (sql_moment engine n u) \<Longrightarrow> sql_markDispatched (sql_moment engine n u) rowId lease d table = Inr (e, table') \<Longrightarrow>
     sql_step engine (clock, table) (clock, table')"
| sq_failed: "engine_ok (sql_moment engine n u) \<Longrightarrow> \<forall>row \<in> set table. sr_attempts row < max_safe_integer \<Longrightarrow>
     sql_markFailed (sql_moment engine n u) rowId err fo table = Inr (e, table') \<Longrightarrow> sql_step engine (clock, table) (clock, table')"
| sq_resumed: "engine_ok (sql_moment engine n u) \<Longrightarrow> sql_resumePaused (sql_moment engine n u) tenant c limit d table = Inr (k, table') \<Longrightarrow>
     sql_step engine (clock, table) (clock, table')"

inductive_cases sql_stepE: "sql_step engine s s'"

lemma attempts_room_table:
  assumes "table_shows engine table es" "\<forall>row \<in> set table. sr_attempts row < max_safe_integer"
  shows "attempts_room es"
  unfolding attempts_room_def
proof
  fix e assume "e \<in> set es"
  with assms(1) obtain row where "row \<in> set table" "encodes row e"
    using list_all2_source [of encodes table es e] by (auto simp: table_shows_def)
  moreover have "0 \<le> oe_attempts e" using shown_entry [OF assms(1) \<open>e \<in> set es\<close>] by (simp add: entry_ok_def row_ok_def)
  ultimately show "is_safe_int (oe_attempts e + 1)"
    using assms(2) by (auto simp: encodes_def is_safe_int_def max_safe_integer_def)
qed

text \<open>Successful operations on a table that shows rows: the rows it shows afterwards, the abstract
  queue operation, and that leases stay with one holder.\<close>

lemma transaction_shows:
  assumes "engine_ok engine" "table_shows engine table es" "program_ok engine run" "sql_transaction engine run table = Inr (x, table')"
  shows "\<exists>es'. table_shows engine table' es' \<and> queue_submit\<^sup>*\<^sup>* (queue_of es) (queue_of es') \<and> (one_holder at es \<longrightarrow> one_holder at es')"
proof -
  from sql_run_program_shows [OF assms(1) _ assms(3,2)] assms(4) obtain new where new: "table_shows engine table' (es @ new)"
    "\<forall>e \<in> set new. oe_status e = OPending" "queue_submit\<^sup>*\<^sup>* (queue_of es) (queue_of (es @ new))"
    by (auto simp: sql_transaction_def)
  moreover have "one_holder at (es @ new)" if "one_holder at es"
    using that new(2) by (rule_tac one_holder_sub) (auto simp: live_def)
  ultimately show ?thesis by blast
qed

lemma dispatched_shows:
  assumes "engine_ok engine" "table_shows engine table es" "sql_markDispatched engine rowId l d table = Inr (s, table')"
  shows "\<exists>es'. table_shows engine table' es' \<and> queue_settle rowId l Done (queue_of es) (queue_of es') \<and> list_all2 calms es es'"
proof -
  from dispatched_carried_out [OF assms(1,2), of rowId l d] assms(3) obtain es' where
    r: "dispatch_row (sq_env engine) rowId l d es = Inr (s, es')" "table_shows engine table' es'"
    by (auto simp: carried_out_def split: sum.splits)
  show ?thesis
    using r(2) dispatch_row_queue [OF r(1) table_shows_rows_ok [OF assms(2)]] dispatch_row_calms [OF r(1)] by blast
qed

lemma failed_shows:
  assumes "engine_ok engine" "table_shows engine table es" "attempts_room es" "sql_markFailed engine rowId err fo table = Inr (s, table')"
  shows "\<exists>es'. table_shows engine table' es' \<and> queue_settle rowId (fo_leaseId fo) (failure_phase (sq_env engine) fo) (queue_of es) (queue_of es') \<and>
    list_all2 calms es es'"
proof -
  from failed_carried_out [OF assms(1-3), of rowId err fo] assms(4) obtain es' where
    r: "fail_row (sq_env engine) rowId err fo es = Inr (s, es')" "table_shows engine table' es'"
    by (auto simp: carried_out_def split: sum.splits)
  have "env_ok (sq_env engine)" using assms(1) by (simp add: engine_ok_def)
  with r show ?thesis
    using fail_row_queue [OF r(1) table_shows_rows_ok [OF assms(2)]] fail_row_calms [OF _ r(1)] by blast
qed

lemma calms_keeps:
  assumes "table_shows engine table' es'" "list_all2 calms es es'" "one_holder at es" "work_kept (queue_of es) (queue_of es')"
  shows "\<exists>es'. table_shows engine table' es' \<and> one_holder at es' \<and> work_kept (queue_of es) (queue_of es')"
  using assms calms_holder by blast

lemma sql_step_keeps:
  assumes "sql_step engine s s'" "collates_times engine" "table_shows engine (snd s) es" "one_holder (fst s) es"
  shows "\<exists>es'. table_shows engine (snd s') es' \<and> one_holder (fst s') es' \<and> work_kept (queue_of es) (queue_of es')"
  using assms(1)
proof (cases rule: sql_step.cases)
  case (sq_transaction n u run table table' clock)
  with assms(3) have "table_shows (sql_moment engine n u) table es" "program_ok (sql_moment engine n u) run" by simp_all
  from transaction_shows [OF sq_transaction(3) this sq_transaction(5)] assms(4) sq_transaction(1,2) work_kept_submits
  show ?thesis by fastforce
next
  case (sq_claim n u opts t table claims table' at clock)
  with assms(3,4) have shown: "table_shows (sql_moment engine n u) table es" and hold: "one_holder clock es" by simp_all
  from sql_claimed [OF sq_claim(3) shown sq_claim(5,4)] obtain at' x sel where
    c: "normalizeTimestamp (sql_host (sql_moment engine n u)) (date_or_now (sql_host (sql_moment engine n u)) (cl_now opts)) = Inr at'"
      "set sel \<subseteq> set es" "\<forall>e \<in> set sel. sql_claimable (sql_moment engine n u) at' t es e"
      "table_shows (sql_moment engine n u) table' (replace_rows (\<lambda>e. lease_row e (cl_leaseId opts) x at') (oe_id ` set sel) es)" by metis
  have at: "at' = at" using c(1) sq_claim(6) by simp
  have times: "collates_times (sql_moment engine n u)" using assms(2) by (simp add: collates_times_def)
  have "iso_text at" using normalizeTimestamp_iso [OF sq_claim(6)] .
  from claim_holder [OF times shown this c(2) c(3) [unfolded at] one_holder_later [OF hold sq_claim(7)]]
  have "one_holder at (replace_rows (\<lambda>e. lease_row e (cl_leaseId opts) x at') (oe_id ` set sel) es)" unfolding at .
  moreover have "work_kept (queue_of es) (queue_of (replace_rows (\<lambda>e. lease_row e (cl_leaseId opts) x at') (oe_id ` set sel) es))"
    using claimed_queue [OF shown c(2,3), where l = "cl_leaseId opts" and x = x] work_kept_phase
    unfolding queue_lease_tenant_def by metis
  ultimately show ?thesis using c(4) sq_claim(1,2) by auto
next
  case (sq_dispatched n u rowId lease d table e table' clock)
  with assms(3) have "table_shows (sql_moment engine n u) table es" by simp
  from dispatched_shows [OF sq_dispatched(3) this sq_dispatched(4)] work_kept_operations(2) assms(4) sq_dispatched(1,2)
  show ?thesis using calms_keeps by fastforce
next
  case (sq_failed n u table rowId err fo e table' clock)
  with assms(3) have shown: "table_shows (sql_moment engine n u) table es" by simp
  from failed_shows [OF sq_failed(3) shown attempts_room_table [OF shown sq_failed(4)] sq_failed(5)]
    work_kept_operations(2) assms(4) sq_failed(1,2)
  show ?thesis using calms_keeps by fastforce
next
  case (sq_resumed n u tenant c limit d table k table' clock)
  with assms(3) have "table_shows (sql_moment engine n u) table es" by simp
  from resumed_refines_queue [OF sq_resumed(3) this sq_resumed(4)] work_kept_operations(3) assms(4) sq_resumed(1,2)
  show ?thesis using calms_keeps by fastforce
qed

section \<open>The adapter as a transition system\<close>

definition sql_start :: "string \<times> sql_table \<Rightarrow> bool" where
  "sql_start s \<longleftrightarrow> snd s = []"

definition sql_inv :: "sql_engine \<Rightarrow> string \<times> sql_table \<Rightarrow> bool" where
  "sql_inv engine s \<longleftrightarrow> collates_times engine \<longrightarrow> (\<exists>es. table_shows engine (snd s) es \<and> one_holder (fst s) es)"

definition sql_extends :: "sql_engine \<Rightarrow> string \<times> sql_table \<Rightarrow> string \<times> sql_table \<Rightarrow> bool" where
  "sql_extends engine s s' \<longleftrightarrow> collates_times engine \<longrightarrow>
     (\<forall>es. table_shows engine (snd s) es \<and> one_holder (fst s) es \<longrightarrow>
       (\<exists>es'. table_shows engine (snd s') es' \<and> one_holder (fst s') es' \<and> work_kept (queue_of es) (queue_of es')))"

interpretation sql_outbox: invariant_system sql_start "sql_step engine" "sql_inv engine" for engine
proof
  show "sql_inv engine s" if "sql_start s" for s
    using that by (auto simp: sql_start_def sql_inv_def table_shows_def one_holder_def intro!: exI [of _ "[]"])
  show "sql_inv engine s'" if "sql_inv engine s" "sql_step engine s s'" for s s'
    using that sql_step_keeps [OF that(2)] unfolding sql_inv_def by blast
qed

interpretation sql_history: monotone_system sql_start "sql_step engine" "sql_inv engine" "sql_extends engine" for engine
proof
  show "sql_extends engine s s" for s using work_kept_refl by (auto simp: sql_extends_def)
  show "sql_extends engine s u" if "sql_extends engine s t" "sql_extends engine t u" for s t u
    using that work_kept_trans unfolding sql_extends_def by meson
  show "sql_extends engine s s'" if "sql_inv engine s" "sql_step engine s s'" for s s'
    using sql_step_keeps [OF that(2)] unfolding sql_extends_def by blast
qed

section \<open>Agreement with the file adapter\<close>

definition same_queue :: "sql_engine \<Rightarrow> snapshot \<Rightarrow> sql_table \<Rightarrow> bool" where
  "same_queue engine file table \<longleftrightarrow> (\<exists>es es'. rows_of (sq_env engine) file es \<and> table_shows engine table es' \<and> set es = set es')"

definition agree :: "sql_engine \<Rightarrow> ('a \<times> snapshot) throws \<Rightarrow> ('a \<times> sql_table) throws \<Rightarrow> bool" where
  "agree engine r r' \<longleftrightarrow> (case r of
     Inl e \<Rightarrow> r' = Inl e
   | Inr (x, file) \<Rightarrow> (\<exists>table. r' = Inr (x, table) \<and> same_queue engine file table))"

lemma found_same:
  assumes "distinct (map oe_id es)" "distinct (map oe_id es')" "set es = set es'"
  shows "findEntry es rowId = findEntry es' rowId"
proof -
  have "find (\<lambda>c. oe_id c = rowId) xs = Some e \<longleftrightarrow> e \<in> set xs \<and> oe_id e = rowId" if "distinct (map oe_id xs)" for xs e
    using that by (induction xs) (auto simp: image_iff)
  from this [OF assms(1)] this [OF assms(2)] assms(3) have "find (\<lambda>c. oe_id c = rowId) es = find (\<lambda>c. oe_id c = rowId) es'"
    by (metis not_Some_eq)
  then show ?thesis by (simp add: findEntry_def)
qed

lemma put_same:
  assumes "distinct (map oe_id es)" "distinct (map oe_id es')" "set es = set es'" "oe_id s = rowId"
  shows "set (put_entry rowId s es) = set (put_entry rowId s es')"
  using assms by (simp add: put_row_entry put_row_def)

lemma settle_agrees:
  assumes env: "env_ok (sq_env engine)" and rows: "rows_of (sq_env engine) file es" and shown: "table_shows engine table es'"
    and same: "set es = set es'"
    and carried: "carried_out engine (andThen (assertNonEmpty rowId ''id'') (\<lambda>_. andThen (findEntry es' rowId) g)) sql"
    and g: "\<And>e r. e \<in> set es \<Longrightarrow> oe_id e = rowId \<Longrightarrow> g e = Inr r \<Longrightarrow> snd r = put_entry rowId (fst r) es' \<and> calms e (fst r)"
    and h: "\<And>e. e \<in> set es \<Longrightarrow> h e = (case g e of Inl err \<Rightarrow> Inl err | Inr r \<Rightarrow> Inr (fst r, put_entry rowId (fst r) es))"
  shows "agree engine (andThen (assertNonEmpty rowId ''id'') (\<lambda>_. andThen (andThen (findEntry es rowId) h) (\<lambda>(s, es1).
      Inr (s, writeEntries (sq_env engine) es1)))) sql"
proof (cases "assertNonEmpty rowId ''id''")
  case (Inr u)
  have ok: "rows_ok es" using rows by (simp add: rows_of_def)
  then have d: "distinct (map oe_id es)" "distinct (map oe_id es')" using shown by (simp_all add: rows_ok_def table_shows_def)
  note f = found_same [OF d same, of rowId]
  show ?thesis
  proof (cases "findEntry es rowId")
    case (Inr e)
    note e = found_member [OF Inr]
    have f': "findEntry es' rowId = Inr e" using f Inr by simp
    show ?thesis
    proof (cases "g e")
      case (Inl err)
      with carried f' h e \<open>findEntry es rowId = Inr e\<close> \<open>assertNonEmpty rowId ''id'' = Inr u\<close> show ?thesis
        by (simp add: agree_def carried_out_def)
    next
      case (Inr r)
      with g e have r: "snd r = put_entry rowId (fst r) es'" "calms e (fst r)" by blast+
      then have "rows_ok (put_entry rowId (fst r) es)"
        using calms_rows_ok [OF put_found_calms ok] \<open>findEntry es rowId = Inr e\<close> by blast
      from rows_of_write [OF env this] have written: "rows_of (sq_env engine) (writeEntries (sq_env engine) (put_entry rowId (fst r) es))
          (sort_by (compareEntries (sq_env engine)) (sort_by (compareEntries (sq_env engine)) (put_entry rowId (fst r) es)))" .
      from carried f' Inr \<open>findEntry es rowId = Inr e\<close> \<open>assertNonEmpty rowId ''id'' = Inr u\<close> obtain table' where
        t: "sql = Inr (fst r, table')" "table_shows engine table' (snd r)"
        by (auto simp: carried_out_def split: prod.splits)
      have "set (put_entry rowId (fst r) es) = set (snd r)"
        using put_same [OF d same, of "fst r" rowId] r e by (simp add: calms_def)
      with written t(2) have "same_queue engine (writeEntries (sq_env engine) (put_entry rowId (fst r) es)) table'"
        unfolding same_queue_def by (metis set_sort_by)
      with t(1) show ?thesis using h e Inr \<open>findEntry es rowId = Inr e\<close> \<open>assertNonEmpty rowId ''id'' = Inr u\<close>
        by (simp add: agree_def)
    qed
  next
    case (Inl err)
    then have "findEntry es' rowId = Inl err" using f by simp
    with carried Inl \<open>assertNonEmpty rowId ''id'' = Inr u\<close> show ?thesis by (simp add: agree_def carried_out_def)
  qed
next
  case (Inl err)
  with carried show ?thesis by (simp add: agree_def carried_out_def)
qed

lemma dispatched_agrees:
  assumes "engine_ok engine" "rows_of (sq_env engine) file es" "table_shows engine table es'" "set es = set es'"
  shows "agree engine (markDispatched (sq_env engine) rowId l d file) (sql_markDispatched engine rowId l d table)"
proof -
  let ?env = "sq_env engine"
  have read: "readEntries ?env file = Inr es" using assms(2) by (simp add: rows_of_def)
  let ?g = "\<lambda>es e. andThen (assertLease e l) (\<lambda>_. andThen (normalizeTimestamp (ox_host ?env) (date_or_now (ox_host ?env) d)) (\<lambda>at.
    let settled = dispatched_row e at in Inr (settled, put_entry rowId settled es)))"
  have "env_ok ?env" using assms(1) by (simp add: engine_ok_def)
  moreover have "carried_out engine (andThen (assertNonEmpty rowId ''id'') (\<lambda>_. andThen (findEntry es' rowId) (?g es')))
      (sql_markDispatched engine rowId l d table)"
    using dispatched_carried_out [OF assms(1,3), of rowId l d] by (simp only: dispatch_row_def)
  moreover have "snd r = put_entry rowId (fst r) es' \<and> calms e (fst r)" if "?g es' e = Inr r" for e r
    using that dispatched_row_calms normalizeTimestamp_iso by (auto simp: Let_def)
  moreover have "?g es e = (case ?g es' e of Inl err \<Rightarrow> Inl err | Inr r \<Rightarrow> Inr (fst r, put_entry rowId (fst r) es))" for e
    by (auto simp: andThen_def Let_def split: sum.splits)
  ultimately have "agree engine (andThen (assertNonEmpty rowId ''id'') (\<lambda>_. andThen (andThen (findEntry es rowId) (?g es)) (\<lambda>(s, es1).
      Inr (s, writeEntries ?env es1)))) (sql_markDispatched engine rowId l d table)"
    by (intro settle_agrees [OF _ assms(2-4), where g = "?g es'"]) blast+
  then show ?thesis by (simp add: markDispatched_def dispatch_row_def read)
qed

lemma failed_agrees:
  assumes "engine_ok engine" "rows_of (sq_env engine) file es" "table_shows engine table es'" "set es = set es'" "attempts_room es'"
  shows "agree engine (markFailed (sq_env engine) rowId err fo file) (sql_markFailed engine rowId err fo table)"
proof -
  let ?env = "sq_env engine"
  have read: "readEntries ?env file = Inr es" using assms(2) by (simp add: rows_of_def)
  let ?g = "\<lambda>es e. andThen (assertLease e (fo_leaseId fo)) (\<lambda>_. andThen (failed_row ?env err fo e) (\<lambda>settled.
    Inr (settled, put_entry rowId settled es)))"
  have env: "env_ok ?env" using assms(1) by (simp add: engine_ok_def)
  moreover have "carried_out engine (andThen (assertNonEmpty rowId ''id'') (\<lambda>_. andThen (findEntry es' rowId) (?g es')))
      (sql_markFailed engine rowId err fo table)"
    using failed_carried_out [OF assms(1,3,5), of rowId err fo] by (simp only: fail_row_def)
  moreover have "snd r = put_entry rowId (fst r) es' \<and> calms e (fst r)" if "?g es' e = Inr r" for e r
    using that failed_row_calms [OF env] by auto
  moreover have "?g es e = (case ?g es' e of Inl err \<Rightarrow> Inl err | Inr r \<Rightarrow> Inr (fst r, put_entry rowId (fst r) es))" for e
    by (auto simp: andThen_def split: sum.splits)
  ultimately have "agree engine (andThen (assertNonEmpty rowId ''id'') (\<lambda>_. andThen (andThen (findEntry es rowId) (?g es)) (\<lambda>(s, es1).
      Inr (s, writeEntries ?env es1)))) (sql_markFailed engine rowId err fo table)"
    by (intro settle_agrees [OF _ assms(2-4), where g = "?g es'"]) blast+
  then show ?thesis by (simp add: markFailed_def fail_row_def read)
qed


lemma work_kept_rows:
  assumes "distinct (map oe_id es)" "distinct (map oe_id es')" "work_kept (queue_of es) (queue_of es')"
  shows "\<forall>e \<in> set es. \<exists>e' \<in> set es'. oe_id e' = oe_id e \<and> oe_tenantId e' = oe_tenantId e \<and> oe_payload e' = oe_payload e"
proof
  fix e assume "e \<in> set es"
  then have "queue_of es (oe_id e) = Some (oe_tenantId e, oe_payload e, phase_of e)"
    using queue_of_Some [OF assms(1)] by (auto simp: row_view_def)
  with assms(3) obtain ph where "queue_of es' (oe_id e) = Some (oe_tenantId e, oe_payload e, ph)"
    unfolding work_kept_def by blast
  then show "\<exists>e' \<in> set es'. oe_id e' = oe_id e \<and> oe_tenantId e' = oe_tenantId e \<and> oe_payload e' = oe_payload e"
    unfolding queue_of_Some [OF assms(2)] by (auto simp: row_view_def)
qed

section \<open>Properties\<close>


text \<open>Settlement does not depend on the storage: when the snapshot file and the SQL table hold the
  same rows, \<open>markDispatched\<close> and \<open>markFailed\<close> return the same row or throw the same error in both
  adapters, and leave the same rows.\<close>

theorem sql_settles_like_file:
  assumes "engine_ok engine" "same_queue engine file table" "\<forall>row \<in> set table. sr_attempts row < max_safe_integer"
  shows "agree engine (markDispatched (sq_env engine) rowId lease at file) (sql_markDispatched engine rowId lease at table) \<and>
    agree engine (markFailed (sq_env engine) rowId error fo file) (sql_markFailed engine rowId error fo table)"
proof -
  from assms(2) obtain es es' where q: "rows_of (sq_env engine) file es" "table_shows engine table es'" "set es = set es'"
    by (auto simp: same_queue_def)
  show ?thesis
    using dispatched_agrees [OF assms(1) q] failed_agrees [OF assms(1) q attempts_room_table [OF q(2) assms(3)]] by blast
qed


text \<open>No run of the SQL adapter loses or alters evidence: every row keeps its identifier, tenant and
  payload.\<close>

theorem sql_outbox_keeps_evidence:
  assumes "collates_times engine" "sql_start s0" "(sql_step engine)\<^sup>*\<^sup>* s0 s" "(sql_step engine)\<^sup>*\<^sup>* s s'"
  shows "\<exists>es es'. table_shows engine (snd s) es \<and> table_shows engine (snd s') es' \<and>
    (\<forall>e \<in> set es. \<exists>e' \<in> set es'. oe_id e' = oe_id e \<and> oe_tenantId e' = oe_tenantId e \<and> oe_payload e' = oe_payload e)"
proof -
  have inv: "sql_inv engine s" by (rule sql_outbox.reachable_inv [OF assms(2,3)])
  with assms(1) obtain es where es: "table_shows engine (snd s) es" "one_holder (fst s) es" by (auto simp: sql_inv_def)
  from sql_history.steps_before [OF assms(4) inv] es assms(1) obtain es' where
    es': "table_shows engine (snd s') es'" "work_kept (queue_of es) (queue_of es')" by (auto simp: sql_extends_def)
  have "distinct (map oe_id es)" "distinct (map oe_id es')" using es(1) es'(1) by (simp_all add: table_shows_def)
  from work_kept_rows [OF this es'(2)] es(1) es'(1) show ?thesis by blast
qed

section \<open>Witnesses\<close>

text \<open>The envelopes of the common drivers satisfy the law of results.\<close>

lemma driver_envelopes:
  assumes "list_all (\<lambda>row. \<not> is_array row) rows"
  shows "rowsFromResult (JObj [(''rows'', JArr rows)]) = Inr rows" "rowsFromResult (JArr [JArr rows, columns]) = Inr rows"
    "rowsFromResult (JArr rows) = Inr rows"
  using assms by (auto simp: rowsFromResult_def js_prop_def is_array_def nth_Cons' list_all_length)

definition sample_engine :: sql_engine where
  "sample_engine = \<lparr>sq_env = sample_outbox,
     sq_number = (\<lambda>l. if take 1 l = ''-'' then NInt (- int (nat_of_digits (tl l))) else NInt (int (nat_of_digits l))),
     sq_compare = (\<lambda>a b. if a < b then -1 else if a = b then 0 else 1), sq_result = JArr, sq_dialect = Postgres\<rparr>"

lemma sample_engine_ok: "engine_ok sample_engine" "collates_times sample_engine" "sql_moment sample_engine 0 ''0'' = sample_engine"
proof -
  have "take 1 (show_nat n) \<noteq> ''-''" for n using show_nat_no_minus by (cases "show_nat n") auto
  then have "sq_number sample_engine (show_int i) = NInt i" for i
    by (simp add: sample_engine_def show_int_def)
  then show "engine_ok sample_engine"
    using sample_outbox_ok(1) by (simp add: engine_ok_def) (simp add: sample_engine_def driver_envelopes(3))
  show "collates_times sample_engine" by (auto simp: collates_times_def sample_engine_def)
  show "sql_moment sample_engine 0 ''0'' = sample_engine"
    using sample_outbox_ok(2) by (simp add: sql_moment_def sample_engine_def)
qed

lemma sample_sql_program: "program_ok sample_engine sample_program"
proof -
  have "writable (sq_number sample_engine) (json_clone sample_payload)" by code_simp
  then show ?thesis by (simp add: sample_program_def input_ok_def)
qed

lemma sample_sql_rows:
  obtains table where "sql_transaction sample_engine sample_program [] = Inr ((), table)" "table_shows sample_engine table [sample_row]"
proof -
  let ?input = "\<lparr>oi_id = ''e1'', oi_tenantId = ''t1'', oi_payload = sample_payload, oi_availableAt = None\<rparr>"
  have e: "createPendingEntry (sql_host sample_engine) ?input = Inr sample_row" by code_simp
  have "isl (canonicalJson (oe_payload sample_row)) = False" by code_simp
  then obtain c where c: "canonicalJson (oe_payload sample_row) = Inr c" by (cases "canonicalJson (oe_payload sample_row)") auto
  have "writable (sq_number sample_engine) (oe_payload sample_row)" by code_simp
  then have "entry_ok sample_engine sample_row" using createPendingEntry_row [OF e]
    by (simp add: entry_ok_def sample_row_def is_safe_int_def max_safe_integer_def)
  moreover have "table_shows sample_engine [] []" by (simp add: table_shows_def)
  ultimately obtain result table where t: "execute sample_engine InsertEntry (insertParams sample_row c) [] = Inr (result, table)"
      "table_shows sample_engine table [sample_row]"
    using insertEntry_shows [OF sample_engine_ok(1), of "[]" "[]" sample_row c] c by (auto simp: sample_row_def)
  have "execute sample_engine (SelectById False) [JStr (oe_id sample_row)] [] = Inr (sq_result sample_engine [], [])"
    by (simp add: execute_def Let_def)
  then have "sql_enqueue sample_engine ?input [] = Inr (sample_row, table)"
    using e c t(1) firstRow_selected [OF sample_engine_ok(1), of "[]"] by (simp add: sql_enqueue_def)
  with that t(2) show thesis by (simp add: sql_transaction_def sample_program_def)
qed

lemma sample_sql_step:
  "sql_transaction sample_engine sample_program [] = Inr ((), table) \<Longrightarrow> (sql_step sample_engine)\<^sup>*\<^sup>* ([], []) ([], table)"
  using sq_transaction [of sample_engine 0 "''0''" sample_program "[]" table] sample_engine_ok sample_sql_program by auto

lemma sample_sql_dispatched:
  assumes "table_shows sample_engine table [sample_row]"
  obtains settled table' where "sql_markDispatched sample_engine ''e1'' None None table = Inr (settled, table')"
proof -
  have "andThen (assertNonEmpty ''e1'' ''id'') (\<lambda>_. dispatch_row (sq_env sample_engine) ''e1'' None None [sample_row]) =
      Inr (dispatched_row sample_row epoch_text, [dispatched_row sample_row epoch_text])"
    by code_simp
  with dispatched_carried_out [OF sample_engine_ok(1) assms, of "''e1''" None None] that show thesis
    by (auto simp: carried_out_def)
qed


lemma sql_settles_like_file_witness:
  "\<exists>table. same_queue sample_engine sample_queued table \<and>
     agree sample_engine (markDispatched sample_outbox ''e1'' None None sample_queued) (sql_markDispatched sample_engine ''e1'' None None table)"
proof -
  obtain table where t: "table_shows sample_engine table [sample_row]" by (rule sample_sql_rows)
  have env: "sq_env sample_engine = sample_outbox" by (simp add: sample_engine_def)
  have "readEntries sample_outbox sample_queued = Inr [sample_row]" by code_simp
  then have "rows_of sample_outbox sample_queued [sample_row]"
    using outbox_reachable_rows [OF sample_outbox_reachable(1)] by (auto simp: rows_of_def)
  with t have same: "same_queue sample_engine sample_queued table" by (auto simp: same_queue_def env)
  have "\<forall>row \<in> set table. sr_attempts row < max_safe_integer"
    using t by (auto simp: table_shows_def list_all2_Cons2 encodes_def sample_row_def max_safe_integer_def)
  from sql_settles_like_file [OF sample_engine_ok(1) same this] same show ?thesis by (auto simp: env)
qed


lemma sql_outbox_keeps_evidence_witness:
  "\<exists>table es'. table_shows sample_engine table es' \<and> (\<exists>e' \<in> set es'. oe_id e' = ''e1'' \<and> oe_payload e' = sample_payload)"
proof -
  obtain table where t: "sql_transaction sample_engine sample_program [] = Inr ((), table)" "table_shows sample_engine table [sample_row]"
    by (rule sample_sql_rows)
  obtain settled table' where d: "sql_markDispatched sample_engine ''e1'' None None table = Inr (settled, table')"
    by (rule sample_sql_dispatched [OF t(2)])
  have start: "sql_start ([], [])" by (simp add: sql_start_def)
  have step: "(sql_step sample_engine)\<^sup>*\<^sup>* ([], table) ([], table')"
    using sq_dispatched [of sample_engine 0 "''0''" "''e1''" None None table settled table'] sample_engine_ok d by auto
  from sql_outbox_keeps_evidence [OF sample_engine_ok(2) start sample_sql_step [OF t(1)] step]
  obtain es es' where es: "table_shows sample_engine table es" "table_shows sample_engine table' es'"
    "\<forall>e \<in> set es. \<exists>e' \<in> set es'. oe_id e' = oe_id e \<and> oe_tenantId e' = oe_tenantId e \<and> oe_payload e' = oe_payload e" by auto
  obtain e where "e \<in> set es" "oe_id e = ''e1''" "oe_payload e = sample_payload"
  proof -
    obtain row where row: "table = [row]" "encodes row sample_row" using t(2) by (auto simp: table_shows_def list_all2_Cons2)
    with es(1) obtain e where e: "es = [e]" "encodes row e" "entry_ok sample_engine e"
      by (auto simp: table_shows_def list_all2_Cons1)
    have "Inr e = Inr sample_row"
      using entry_read [OF sample_engine_ok(1) e(2,3)] entry_read [OF sample_engine_ok(1) row(2)] t(2) by (auto simp: table_shows_def)
    with that e(1) show thesis by (simp add: sample_row_def)
  qed
  with es show ?thesis by metis
qed

section \<open>Collations\<close>

text \<open>Tenants are separated by the comparison of the text columns. The schema for MySQL declares no
  collation, and the server's default one ignores case: a claim for one tenant then selects a row of
  another tenant, whose name differs in case only, and the loop over the rows does not look at the
  tenant again.\<close>

definition fold_case :: "string \<Rightarrow> string" where
  "fold_case = List.map (\<lambda>c. if is_upper c then char_of (code_unit c + 32) else c)"

definition nocase_engine :: sql_engine where
  "nocase_engine = sample_engine\<lparr>sq_dialect := Mysql,
     sq_compare := (\<lambda>a b. if fold_case a < fold_case b then -1 else if fold_case a = fold_case b then 0 else 1)\<rparr>"

definition other_tenant_row :: sql_row where
  "other_tenant_row = \<lparr>sr_id = ''e1'', sr_tenant_id = ''Acme'', sr_payload_canonical = ''{}'', sr_entry_json = ''{}'',
     sr_status = ''pending'', sr_attempts = 0, sr_available_at = epoch_text, sr_created_at = epoch_text,
     sr_updated_at = epoch_text, sr_dispatched_at = None, sr_last_error = None\<rparr>"

lemma sql_claim_crosses_tenants:
  "claimable_row nocase_engine (claimableParams Mysql epoch_text (Some ''acme'') 5) [other_tenant_row] other_tenant_row \<and>
   sr_tenant_id other_tenant_row \<noteq> ''acme''"
  by code_simp

end
