(* ===== verification/Dispatcher.thy ===== *)
theory Dispatcher
  imports OutboxQueue
begin

text \<open>
  The bounded dispatcher of \<^verbatim>\<open>storage/src/outbox-dispatcher.ts\<close>. One pass is
  \<open>dispatchBatch\<close>: it claims one row at a time, reserves the send in the rolling ledger,
  delivers to the evidence target and settles the row. The adapter is a record of the three
  operations a pass calls, the target a record of its two operations over a state of its own
  (both may throw). \<open>clock\<close> supplies the host at each successive reading of the clock or of a
  random identifier; \<open>ds_trace\<close> lists every send the ledger has recorded, in order.

  Shown here, through a locale of what the dispatcher needs of an adapter and its
  interpretation for the file adapter: the bounds of a pass and of any number of passes, that
  a pass leaves no lease behind, and that a healthy pass drains the tenant's due rows.
\<close>

section \<open>Permits and options\<close>

datatype permit_kind = Automatic | Canary | Operator

record dispatch_permit =
  dp_kind :: permit_kind
  dp_approvalId :: jsval
  dp_maxEntries :: int
  dp_maxBytes :: int
  dp_maxElapsedMs :: int
  dp_leaseMs :: int

record dispatch_options =
  do_tenantId :: string
  do_permit :: dispatch_permit
  do_now :: "date_input option"

record dispatch_result =
  dr_dispatched :: int
  dr_retried :: int
  dr_paused :: int
  dr_rejected :: int
  dr_bytes :: int

definition emptyDispatchResult :: dispatch_result where
  "emptyDispatchResult = \<lparr>dr_dispatched = 0, dr_retried = 0, dr_paused = 0, dr_rejected = 0, dr_bytes = 0\<rparr>"

definition kind_text :: "permit_kind \<Rightarrow> string" where
  "kind_text k = (case k of Automatic \<Rightarrow> ''automatic'' | Canary \<Rightarrow> ''canary'' | Operator \<Rightarrow> ''operator'')"

definition kind_of_json :: "jsval \<Rightarrow> permit_kind throws" where
  "kind_of_json v =
     (if v = JStr ''automatic'' then Inr Automatic else if v = JStr ''canary'' then Inr Canary
      else if v = JStr ''operator'' then Inr Operator else Inl (TypeError ''permit.kind is invalid''))"

definition date_of_json :: "jsval \<Rightarrow> date_input" where
  "date_of_json v = (case v of JDate d \<Rightarrow> DateObject d | _ \<Rightarrow> DateString (to_js_string v))"

text \<open>The assertion on the untrusted options; its result is what it asserts them to be.\<close>

definition validateDispatchOptions :: "host \<Rightarrow> jsval \<Rightarrow> delivery_safety_policy \<Rightarrow> dispatch_options throws" where
  "validateDispatchOptions h options deliverySafety =
     andThen (throwUnless (isRecordObject options \<and> isRecordObject (js_prop options ''permit''))
        (TypeError ''a finite dispatch permit is required'')) (\<lambda>_.
     andThen (requireNonEmpty (js_prop options ''tenantId'') ''tenantId'') (\<lambda>tenant.
     let permit = js_prop options ''permit'' in
     andThen (kind_of_json (js_prop permit ''kind'')) (\<lambda>kind.
     andThen (requirePositiveInteger (js_prop permit ''maxEntries'') ''permit.maxEntries'') (\<lambda>maxEntries.
     andThen (requirePositiveInteger (js_prop permit ''maxBytes'') ''permit.maxBytes'') (\<lambda>maxBytes.
     andThen (requirePositiveInteger (js_prop permit ''maxElapsedMs'') ''permit.maxElapsedMs'') (\<lambda>maxElapsedMs.
     andThen (requirePositiveInteger (js_prop permit ''leaseMs'') ''permit.leaseMs'') (\<lambda>leaseMs.
     andThen (throwUnless (maxElapsedMs < leaseMs) (TypeError ''permit.leaseMs must exceed permit.maxElapsedMs'')) (\<lambda>_.
     andThen (if kind = Operator then requireNonEmpty (js_prop permit ''approvalId'') ''permit.approvalId'' else Inr []) (\<lambda>_.
     andThen (throwUnless (maxBytes \<le> rollingSendBytes (hard deliverySafety))
        (TypeError ''permit.maxBytes exceeds the hard rolling send limit'')) (\<lambda>_.
     andThen (throwUnless (maxEntries \<le> rollingRequests (hard deliverySafety))
        (TypeError ''permit.maxEntries exceeds the hard rolling request limit'')) (\<lambda>_.
     andThen (throwUnless (maxElapsedMs \<le> windowMs (hard deliverySafety))
        (TypeError ''permit.maxElapsedMs exceeds the hard rolling window'')) (\<lambda>_.
     andThen (throwUnless (kind = Automatic \<longrightarrow> maxEntries \<le> automaticReplayBatches (hard deliverySafety))
        (TypeError ''automatic permit exceeds the hard replay canary limit'')) (\<lambda>_.
     andThen (throwUnless (case js_prop options ''limit'' of JUndefined \<Rightarrow> True | JNum (NInt i) \<Rightarrow> 0 \<le> i | _ \<Rightarrow> False)
        (TypeError ''limit must be a non-negative integer'')) (\<lambda>_.
     andThen (if js_prop options ''now'' \<noteq> JUndefined then normalizeStored h (js_prop options ''now'') else Inr []) (\<lambda>_.
     Inr \<lparr>do_tenantId = tenant,
       do_permit = \<lparr>dp_kind = kind, dp_approvalId = js_prop permit ''approvalId'', dp_maxEntries = maxEntries,
         dp_maxBytes = maxBytes, dp_maxElapsedMs = maxElapsedMs, dp_leaseMs = leaseMs\<rparr>,
       do_now = (if js_prop options ''now'' = JUndefined then None else Some (date_of_json (js_prop options ''now'')))\<rparr>)))))))))))))))"

definition dispatchLeaseId :: "host \<Rightarrow> dispatch_permit \<Rightarrow> nat \<Rightarrow> string" where
  "dispatchLeaseId h permit index =
     (if dp_approvalId permit = JUndefined \<or> dp_approvalId permit = JNull then kind_text (dp_kind permit)
      else to_js_string (dp_approvalId permit)) @ '':'' @ show_nat index @ '':'' @ randomUUID h"

section \<open>Adapter, target and state\<close>

record 'f outbox_adapter =
  ad_claim :: "outbox_env \<Rightarrow> outbox_claim_options \<Rightarrow> 'f \<Rightarrow> (outbox_entry list \<times> 'f) throws"
  ad_dispatched :: "outbox_env \<Rightarrow> string \<Rightarrow> string option \<Rightarrow> date_input option \<Rightarrow> 'f \<Rightarrow> (outbox_entry \<times> 'f) throws"
  ad_failed :: "outbox_env \<Rightarrow> string \<Rightarrow> thrown \<Rightarrow> fail_options \<Rightarrow> 'f \<Rightarrow> (outbox_entry \<times> 'f) throws"

definition file_adapter :: "snapshot outbox_adapter" where
  "file_adapter = \<lparr>ad_claim = claimDispatchable, ad_dispatched = markDispatched, ad_failed = markFailed\<rparr>"

record 't evidence_target =
  recordEvent :: "jsval \<Rightarrow> 't \<Rightarrow> unit throws \<times> 't"
  recordEdge :: "jsval \<Rightarrow> 't \<Rightarrow> unit throws \<times> 't"

record ('f, 't) dispatch_state =
  ds_store :: 'f
  ds_target :: 't
  ds_ledger :: ledger
  ds_tick :: nat
  ds_trace :: ledger

fun send_all :: "(jsval \<Rightarrow> 't \<Rightarrow> unit throws \<times> 't) \<Rightarrow> jsval list \<Rightarrow> 't \<Rightarrow> unit throws \<times> 't" where
  "send_all f [] t = (Inr (), t)"
| "send_all f (x # xs) t = (case f x t of (Inl e, t') \<Rightarrow> (Inl e, t') | (Inr _, t') \<Rightarrow> send_all f xs t')"

definition dispatchOutboxEntry :: "'t evidence_target \<Rightarrow> jsval \<Rightarrow> 't \<Rightarrow> unit throws \<times> 't" where
  "dispatchOutboxEntry target payload t =
     (case validatePayload payload None of
        Inl e \<Rightarrow> (Inl e, t)
      | Inr _ \<Rightarrow>
         (case send_all (recordEvent target) (elements (js_prop payload ''records'')) t of
            (Inl e, t') \<Rightarrow> (Inl e, t')
          | (Inr _, t') \<Rightarrow> send_all (recordEdge target) (elements (js_prop payload ''edges'')) t'))"

section \<open>A dispatch pass\<close>

text \<open>Delivery of a claimed row inside \<open>try\<close>, and its settlement. The last component says whether
  the pass goes on.\<close>

definition deliver_row ::
  "'f outbox_adapter \<Rightarrow> 't evidence_target \<Rightarrow> (nat \<Rightarrow> outbox_env) \<Rightarrow> dispatch_options \<Rightarrow> outbox_entry
     \<Rightarrow> dispatch_result \<Rightarrow> ('f, 't) dispatch_state \<Rightarrow> (dispatch_result \<times> bool) throws \<times> ('f, 't) dispatch_state" where
  "deliver_row adapter target clock options entry result st =
     (let sent = dispatchOutboxEntry target (oe_payload entry) (ds_target st);
          st1 = st\<lparr>ds_target := snd sent\<rparr>;
          attempt = andThen (fst sent) (\<lambda>_. ad_dispatched adapter (clock (ds_tick st1)) (oe_id entry) (oe_leaseId entry)
            (do_now options) (ds_store st1));
          st2 = st1\<lparr>ds_tick := ds_tick st1 + 1\<rparr>
      in case attempt of
        Inr (_, store) \<Rightarrow> (Inr (result\<lparr>dr_dispatched := dr_dispatched result + 1\<rparr>, True), st2\<lparr>ds_store := store\<rparr>)
      | Inl error \<Rightarrow>
         (case ad_failed adapter (clock (ds_tick st2)) (oe_id entry) (thrown_of error)
             \<lparr>fo_leaseId = oe_leaseId entry, fo_now = do_now options, fo_availableAt = None, fo_retryable = None,
              fo_disposition = Some Retry, fo_circuitId = None\<rparr> (ds_store st2) of
            Inl e \<Rightarrow> (Inl e, st2\<lparr>ds_tick := ds_tick st2 + 1\<rparr>)
          | Inr (_, store) \<Rightarrow> (Inr (result\<lparr>dr_retried := dr_retried result + 1\<rparr>, False),
              st2\<lparr>ds_store := store, ds_tick := ds_tick st2 + 1\<rparr>)))"

text \<open>One iteration, from the ledger checks to the settlement.\<close>

definition claim_options :: "delivery_safety_policy \<Rightarrow> host \<Rightarrow> dispatch_options \<Rightarrow> nat \<Rightarrow> int \<Rightarrow> outbox_claim_options" where
  "claim_options policy h options index bytesLeft =
     \<lparr>cl_tenantId = Some (do_tenantId options), cl_now = do_now options,
      cl_leaseId = dispatchLeaseId h (do_permit options) index, cl_leaseMs = NInt (dp_leaseMs (do_permit options)),
      cl_limit = NInt 1, cl_maxPayloadBytes = NInt (min bytesLeft (batchBytes (hard policy)))\<rparr>"

definition clock_now :: "(nat \<Rightarrow> outbox_env) \<Rightarrow> nat \<Rightarrow> int" where
  "clock_now clock n = now (ox_host (clock n))"

definition dispatch_one ::
  "delivery_safety_policy \<Rightarrow> 'f outbox_adapter \<Rightarrow> 't evidence_target \<Rightarrow> (nat \<Rightarrow> outbox_env) \<Rightarrow> dispatch_options \<Rightarrow> int \<Rightarrow> nat
     \<Rightarrow> dispatch_result \<Rightarrow> ('f, 't) dispatch_state \<Rightarrow> (dispatch_result \<times> bool) throws \<times> ('f, 't) dispatch_state" where
  "dispatch_one policy adapter target clock options startedAt index result st =
     (let n = ds_tick st; permit = do_permit options in
      if dp_maxElapsedMs permit \<le> clock_now clock n - startedAt
        then (Inr (result, False), st\<lparr>ds_tick := n + 1\<rparr>)
      else let requests = remainingRequests policy (ds_ledger st) (clock_now clock (n + 1)) in
      if fst requests \<le> 0
        then (Inr (result, False), st\<lparr>ds_ledger := snd requests, ds_tick := n + 2\<rparr>)
      else let bytes = remainingBytes policy (snd requests) (clock_now clock (n + 2));
               bytesLeft = min (dp_maxBytes permit - dr_bytes result) (fst bytes) in
      if bytesLeft \<le> 0
        then (Inr (result, False), st\<lparr>ds_ledger := snd bytes, ds_tick := n + 3\<rparr>)
      else case ad_claim adapter (clock (n + 4)) (claim_options policy (ox_host (clock (n + 3))) options index bytesLeft) (ds_store st) of
        Inl e \<Rightarrow> (Inl e, st\<lparr>ds_ledger := snd bytes, ds_tick := n + 5\<rparr>)
      | Inr ([], store) \<Rightarrow> (Inr (result, False), st\<lparr>ds_ledger := snd bytes, ds_store := store, ds_tick := n + 5\<rparr>)
      | Inr (entry # _, store) \<Rightarrow>
          (case outboxPayloadByteLength (oe_payload entry) of
             Inl e \<Rightarrow> (Inl e, st\<lparr>ds_ledger := snd bytes, ds_store := store, ds_tick := n + 5\<rparr>)
           | Inr entryBytes \<Rightarrow>
               let at = clock_now clock (n + 5) in
               deliver_row adapter target clock options entry (result\<lparr>dr_bytes := dr_bytes result + entryBytes\<rparr>)
                 (st\<lparr>ds_ledger := record_send policy (snd bytes) at entryBytes, ds_store := store, ds_tick := n + 6,
                     ds_trace := ds_trace st @ [\<lparr>sent_at = at, sent_bytes = entryBytes\<rparr>]\<rparr>)))"

fun dispatch_loop ::
  "delivery_safety_policy \<Rightarrow> 'f outbox_adapter \<Rightarrow> 't evidence_target \<Rightarrow> (nat \<Rightarrow> outbox_env) \<Rightarrow> dispatch_options \<Rightarrow> int \<Rightarrow> nat \<Rightarrow> nat
     \<Rightarrow> dispatch_result \<Rightarrow> ('f, 't) dispatch_state \<Rightarrow> dispatch_result throws \<times> ('f, 't) dispatch_state" where
  "dispatch_loop policy adapter target clock options startedAt index 0 result st = (Inr result, st)"
| "dispatch_loop policy adapter target clock options startedAt index (Suc left) result st =
     (case dispatch_one policy adapter target clock options startedAt index result st of
        (Inl e, st') \<Rightarrow> (Inl e, st')
      | (Inr (result', True), st') \<Rightarrow> dispatch_loop policy adapter target clock options startedAt (index + 1) left result' st'
      | (Inr (result', False), st') \<Rightarrow> (Inr result', st'))"

definition dispatchBatch ::
  "delivery_safety_policy \<Rightarrow> 'f outbox_adapter \<Rightarrow> 't evidence_target \<Rightarrow> (nat \<Rightarrow> outbox_env) \<Rightarrow> jsval
     \<Rightarrow> ('f, 't) dispatch_state \<Rightarrow> dispatch_result throws \<times> ('f, 't) dispatch_state" where
  "dispatchBatch policy adapter target clock dispatchOptions st =
     (case validateDispatchOptions (ox_host (clock (ds_tick st))) dispatchOptions policy of
        Inl e \<Rightarrow> (Inl e, st)
      | Inr options \<Rightarrow>
          dispatch_loop policy adapter target clock options (clock_now clock (ds_tick st)) 0
            (nat (dp_maxEntries (do_permit options))) emptyDispatchResult (st\<lparr>ds_tick := ds_tick st + 1\<rparr>))"

text \<open>The dispatcher: the parsed policy and a fresh ledger; its passes run one after the other.\<close>

definition createOutboxDispatcher :: "jsval \<Rightarrow> 'f \<Rightarrow> 't \<Rightarrow> (delivery_safety_policy \<times> ('f, 't) dispatch_state) throws" where
  "createOutboxDispatcher deliverySafety store target =
     andThen (parseDeliverySafetyPolicy deliverySafety) (\<lambda>policy.
     Inr (policy, \<lparr>ds_store = store, ds_target = target, ds_ledger = [], ds_tick = 0, ds_trace = []\<rparr>))"

fun dispatch_passes ::
  "delivery_safety_policy \<Rightarrow> 'f outbox_adapter \<Rightarrow> 't evidence_target \<Rightarrow> (nat \<Rightarrow> outbox_env) \<Rightarrow> jsval list
     \<Rightarrow> ('f, 't) dispatch_state \<Rightarrow> ('f, 't) dispatch_state" where
  "dispatch_passes policy adapter target clock [] st = st"
| "dispatch_passes policy adapter target clock (options # rest) st =
     dispatch_passes policy adapter target clock rest (snd (dispatchBatch policy adapter target clock options st))"

section \<open>Ledger of a running dispatcher\<close>

definition clock_mono :: "(nat \<Rightarrow> outbox_env) \<Rightarrow> bool" where
  "clock_mono clock \<longleftrightarrow> (\<forall>i j. i \<le> j \<longrightarrow> clock_now clock i \<le> clock_now clock j)"

definition ledger_inv :: "delivery_safety_policy \<Rightarrow> (nat \<Rightarrow> outbox_env) \<Rightarrow> ('f, 't) dispatch_state \<Rightarrow> bool" where
  "ledger_inv policy clock st \<longleftrightarrow>
     history_ok policy (clock_now clock (ds_tick st)) (ds_trace st) \<and>
     ledger_refines policy (clock_now clock (ds_tick st)) (ds_ledger st) (ds_trace st)"

lemma ledger_refines_later: "ledger_refines policy t sends history \<Longrightarrow> t \<le> t' \<Longrightarrow> ledger_refines policy t' sends history"
  by (simp add: ledger_refines_def)

lemma ledger_refines_pruned: "ledger_refines policy t sends history \<Longrightarrow> t \<le> t' \<Longrightarrow> ledger_refines policy t' (prune policy t' sends) history"
  using ledger_refines_prune by (simp add: ledger_refines_def)

lemma reads_prune [simp]:
  "snd (remainingRequests policy sends t) = prune policy t sends"
  "snd (remainingBytes policy sends t) = prune policy t sends"
  by (simp_all add: remainingRequests_def remainingBytes_def Let_def)

lemma ledger_inv_later:
  assumes "ledger_inv policy clock st" "clock_mono clock" "ds_tick st \<le> ds_tick st'" "ds_trace st' = ds_trace st" "ds_ledger st' = ds_ledger st"
  shows "ledger_inv policy clock st'"
  using assms history_ok_later ledger_refines_later by (fastforce simp: ledger_inv_def clock_mono_def)

lemma deliver_row_keeps:
  assumes "deliver_row adapter target clock options entry result st = (r, st')"
  shows "ds_ledger st' = ds_ledger st \<and> ds_trace st' = ds_trace st \<and> ds_tick st \<le> ds_tick st' \<and>
    (\<forall>result' more. r = Inr (result', more) \<longrightarrow> dr_bytes result' = dr_bytes result \<and>
       dr_dispatched result' + dr_retried result' = dr_dispatched result + dr_retried result + 1)"
  using assms by (auto simp: deliver_row_def Let_def split: sum.splits)

locale delivery_adapter =
  fixes adapter :: "'f outbox_adapter"
  assumes claim_bytes: "ad_claim adapter env opts f = Inr (c # cs, f') \<Longrightarrow>
    \<exists>m n. cl_maxPayloadBytes opts = NInt m \<and> outboxPayloadByteLength (oe_payload c) = Inr n \<and> 0 \<le> n \<and> n \<le> m"
begin

lemma dispatch_one_cases:
  assumes "dispatch_one policy adapter target clock options startedAt index result st = (r, st')"
  obtains (stop) k l where "st' = st\<lparr>ds_ledger := l, ds_tick := ds_tick st + k, ds_store := ds_store st'\<rparr>"
      "l = ds_ledger st \<or> l = prune policy (clock_now clock (ds_tick st + 1)) (ds_ledger st) \<or>
       l = prune policy (clock_now clock (ds_tick st + 2)) (prune policy (clock_now clock (ds_tick st + 1)) (ds_ledger st))"
      "l = ds_ledger st \<or> 2 \<le> k" "l = ds_ledger st \<or> l = prune policy (clock_now clock (ds_tick st + 1)) (ds_ledger st) \<or> 3 \<le> k"
      "(\<exists>e. r = Inl e) \<or> r = Inr (result, False)"
  | (send) entry n store where
      "0 < fst (remainingRequests policy (ds_ledger st) (clock_now clock (ds_tick st + 1)))"
      "outboxPayloadByteLength (oe_payload entry) = Inr n" "0 \<le> n"
      "n \<le> dp_maxBytes (do_permit options) - dr_bytes result"
      "n \<le> fst (remainingBytes policy (prune policy (clock_now clock (ds_tick st + 1)) (ds_ledger st)) (clock_now clock (ds_tick st + 2)))"
      "deliver_row adapter target clock options entry (result\<lparr>dr_bytes := dr_bytes result + n\<rparr>)
         (st\<lparr>ds_ledger := record_send policy (prune policy (clock_now clock (ds_tick st + 2))
               (prune policy (clock_now clock (ds_tick st + 1)) (ds_ledger st))) (clock_now clock (ds_tick st + 5)) n,
             ds_store := store, ds_tick := ds_tick st + 6,
             ds_trace := ds_trace st @ [\<lparr>sent_at = clock_now clock (ds_tick st + 5), sent_bytes = n\<rparr>]\<rparr>) = (r, st')"
proof -
  let ?n = "ds_tick st" and ?permit = "do_permit options"
  let ?l1 = "prune policy (clock_now clock (?n + 1)) (ds_ledger st)"
  let ?l2 = "prune policy (clock_now clock (?n + 2)) ?l1"
  let ?req = "fst (remainingRequests policy (ds_ledger st) (clock_now clock (?n + 1)))"
  let ?left = "min (dp_maxBytes ?permit - dr_bytes result) (fst (remainingBytes policy ?l1 (clock_now clock (?n + 2))))"
  let ?opts = "claim_options policy (ox_host (clock (?n + 3))) options index ?left"
  consider "dp_maxElapsedMs ?permit \<le> clock_now clock ?n - startedAt"
    | "\<not> dp_maxElapsedMs ?permit \<le> clock_now clock ?n - startedAt" "?req \<le> 0"
    | "\<not> dp_maxElapsedMs ?permit \<le> clock_now clock ?n - startedAt" "\<not> ?req \<le> 0" "?left \<le> 0"
    | "\<not> dp_maxElapsedMs ?permit \<le> clock_now clock ?n - startedAt" "\<not> ?req \<le> 0" "\<not> ?left \<le> 0" by blast
  then show thesis
  proof cases
    case 1
    with assms show thesis by (intro stop [of 1 "ds_ledger st"]) (auto simp: dispatch_one_def Let_def)
  next
    case 2
    with assms show thesis by (intro stop [of 2 ?l1]) (auto simp: dispatch_one_def Let_def)
  next
    case 3
    with assms show thesis by (intro stop [of 3 ?l2]) (auto simp: dispatch_one_def Let_def)
  next
    case 4
    show thesis
    proof (cases "ad_claim adapter (clock (?n + 4)) ?opts (ds_store st)")
      case (Inl e)
      with 4 assms show thesis by (intro stop [of 5 ?l2]) (auto simp: dispatch_one_def Let_def)
    next
      case (Inr p)
      obtain claims store where p: "p = (claims, store)" by force
      show thesis
      proof (cases claims)
        case Nil
        with 4 Inr p assms show thesis by (intro stop [of 5 ?l2]) (auto simp: dispatch_one_def Let_def)
      next
        case (Cons entry rest)
        then obtain m n where n: "cl_maxPayloadBytes ?opts = NInt m" "outboxPayloadByteLength (oe_payload entry) = Inr n" "0 \<le> n" "n \<le> m"
          using claim_bytes Inr p by blast
        then have "n \<le> ?left" by (auto simp: claim_options_def)
        moreover have "?req > 0" using 4 by simp
        ultimately show thesis
          using 4 Inr p Cons n(2,3) assms by (intro send [of entry n store]) (auto simp: dispatch_one_def Let_def)
      qed
    qed
  qed
qed

lemma dispatch_one_ledger:
  assumes one: "dispatch_one policy adapter target clock options startedAt index result st = (r, st')"
    and mono: "clock_mono clock" and inv: "ledger_inv policy clock st"
  shows "ledger_inv policy clock st' \<and> ds_tick st \<le> ds_tick st'"
proof -
  let ?t = "\<lambda>k. clock_now clock (ds_tick st + k)"
  have le: "?t i \<le> ?t j" if "i \<le> j" for i j using mono that by (simp add: clock_mono_def)
  have t0: "clock_now clock (ds_tick st) \<le> ?t j" for j using le [of 0 j] by simp
  have h: "history_ok policy (clock_now clock (ds_tick st)) (ds_trace st)"
    and ref: "ledger_refines policy (clock_now clock (ds_tick st)) (ds_ledger st) (ds_trace st)"
    using inv by (simp_all add: ledger_inv_def)
  let ?l1 = "prune policy (?t 1) (ds_ledger st)" and ?l2 = "prune policy (?t 2) (prune policy (?t 1) (ds_ledger st))"
  have r1: "ledger_refines policy (?t 1) ?l1 (ds_trace st)" using ledger_refines_pruned [OF ref t0 [of 1]] .
  have r2: "ledger_refines policy (?t 2) ?l2 (ds_trace st)" using ledger_refines_pruned [OF r1 le [of 1 2]] by simp
  from one show ?thesis
  proof (cases rule: dispatch_one_cases)
    case (stop k l)
    then have st': "ds_ledger st' = l" "ds_trace st' = ds_trace st" "ds_tick st' = ds_tick st + k"
      by (metis dispatch_state.ext_inject dispatch_state.surjective dispatch_state.update_convs)+
    have "ledger_refines policy (?t k) l (ds_trace st)"
    proof -
      consider "l = ds_ledger st" | "l = ?l1" "2 \<le> k" | "l = ?l2" "2 \<le> k" using stop(2,3) by blast
      then show ?thesis
      proof cases
        case 1
        then show ?thesis using ledger_refines_later [OF ref t0] by simp
      next
        case 2
        then show ?thesis using ledger_refines_later [OF r1 le [of 1 k]] by simp
      next
        case 3
        then show ?thesis using ledger_refines_later [OF r2 le [of 2 k]] by simp
      qed
    qed
    with history_ok_later [OF h t0] show ?thesis by (simp add: ledger_inv_def st')
  next
    case (send entry n store)
    let ?s = "\<lparr>sent_at = ?t 5, sent_bytes = n\<rparr>"
    have req: "0 < fst (remainingRequests policy (ds_ledger st) (?t 1))" using send(1) .
    have bytes: "n \<le> fst (remainingBytes policy (ds_ledger st) (?t 2))"
      using send(5) prune_prune [OF le [of 1 2]] by (simp add: remainingBytes_def Let_def)
    have ok: "history_ok policy (?t 5) (ds_trace st @ [?s])"
      using admitted_send [OF h ref t0 t0 le le req send(3) bytes] by simp
    have "ledger_refines policy (?t 5) (record_send policy ?l2 (?t 5) n) (ds_trace st @ [?s])"
      using ledger_refines_record [OF r2 le [of 2 5]] by simp
    from ledger_refines_later [OF this le [of 5 6]] history_ok_later [OF ok le [of 5 6]] have
      mid: "ledger_inv policy clock (st\<lparr>ds_ledger := record_send policy ?l2 (?t 5) n, ds_store := store, ds_tick := ds_tick st + 6,
             ds_trace := ds_trace st @ [?s]\<rparr>)" by (simp add: ledger_inv_def)
    from deliver_row_keeps [OF send(6)] ledger_inv_later [OF mid mono, of st'] show ?thesis by simp
  qed
qed

text \<open>What a pass may still do: \<open>left\<close> iterations and the rest of its bytes.\<close>

lemma dispatch_one_bounds:
  assumes "dispatch_one policy adapter target clock options startedAt index result st = (r, st')"
  shows "(\<forall>result' more. r = Inr (result', more) \<longrightarrow>
      dr_bytes result \<le> dr_bytes result' \<and>
      (dr_bytes result \<le> dp_maxBytes (do_permit options) \<longrightarrow> dr_bytes result' \<le> dp_maxBytes (do_permit options)) \<and>
      dr_dispatched result + dr_retried result \<le> dr_dispatched result' + dr_retried result' \<and>
      dr_dispatched result' + dr_retried result' \<le> dr_dispatched result + dr_retried result + 1) \<and>
    length (ds_trace st') \<le> length (ds_trace st) + 1"
  using assms
proof (cases rule: dispatch_one_cases)
  case (stop k l)
  then have "ds_trace st' = ds_trace st"
    by (metis dispatch_state.ext_inject dispatch_state.surjective dispatch_state.update_convs)
  with stop show ?thesis by auto
next
  case (send entry n store)
  from deliver_row_keeps [OF send(6)] send(3,4) show ?thesis by auto
qed

lemma dispatch_loop_ledger:
  assumes "dispatch_loop policy adapter target clock options startedAt index left result st = (r, st')"
    and "clock_mono clock" "ledger_inv policy clock st"
  shows "ledger_inv policy clock st'"
  using assms
proof (induction left arbitrary: index result st)
  case (Suc left)
  obtain r1 st1 where one: "dispatch_one policy adapter target clock options startedAt index result st = (r1, st1)" by force
  note inv = dispatch_one_ledger [OF one Suc.prems(2,3), THEN conjunct1]
  show ?case
  proof (cases r1)
    case (Inl e)
    with Suc.prems(1) one inv show ?thesis by simp
  next
    case (Inr p)
    obtain result' more where p: "p = (result', more)" by force
    show ?thesis
    proof (cases more)
      case True
      with Suc.prems(1) one Inr p have
        "dispatch_loop policy adapter target clock options startedAt (index + 1) left result' st1 = (r, st')" by simp
      from Suc.IH [OF this Suc.prems(2) inv] show ?thesis .
    next
      case False
      with Suc.prems(1) one Inr p inv show ?thesis by simp
    qed
  qed
qed simp

lemma dispatch_loop_bounds:
  assumes "dispatch_loop policy adapter target clock options startedAt index left result st = (r, st')"
    and "dr_bytes result \<le> dp_maxBytes (do_permit options)"
  shows "(\<forall>result'. r = Inr result' \<longrightarrow> dr_bytes result' \<le> dp_maxBytes (do_permit options) \<and> dr_bytes result \<le> dr_bytes result' \<and>
      dr_dispatched result' + dr_retried result' \<le> dr_dispatched result + dr_retried result + int left) \<and>
    length (ds_trace st') \<le> length (ds_trace st) + left"
  using assms
proof (induction left arbitrary: index result st)
  case (Suc left)
  obtain r1 st1 where one: "dispatch_one policy adapter target clock options startedAt index result st = (r1, st1)" by force
  note b = dispatch_one_bounds [OF one]
  show ?case
  proof (cases r1)
    case (Inl e)
    with Suc.prems(1) one b show ?thesis by auto
  next
    case (Inr p)
    obtain result' more where p: "p = (result', more)" by force
    show ?thesis
    proof (cases more)
      case True
      with Suc.prems(1) one Inr p have run:
        "dispatch_loop policy adapter target clock options startedAt (index + 1) left result' st1 = (r, st')" by simp
      have "dr_bytes result' \<le> dp_maxBytes (do_permit options)" using b Inr p Suc.prems(2) by simp
      from Suc.IH [OF run this] b Inr p show ?thesis by fastforce
    next
      case False
      with Suc.prems one Inr p b show ?thesis by auto
    qed
  qed
qed auto

lemma dispatchBatch_ledger:
  assumes "clock_mono clock" "ledger_inv policy clock st"
  shows "ledger_inv policy clock (snd (dispatchBatch policy adapter target clock options st))"
proof (cases "validateDispatchOptions (ox_host (clock (ds_tick st))) options policy")
  case (Inr o')
  let ?st = "st\<lparr>ds_tick := ds_tick st + 1\<rparr>"
  have "ledger_inv policy clock ?st" by (rule ledger_inv_later [OF assms(2,1)]) simp_all
  from dispatch_loop_ledger [OF surjective_pairing assms(1) this] Inr show ?thesis by (simp add: dispatchBatch_def)
qed (simp add: dispatchBatch_def assms(2))

lemma dispatch_passes_ledger:
  assumes "clock_mono clock" "ledger_inv policy clock st"
  shows "ledger_inv policy clock (dispatch_passes policy adapter target clock batches st)"
  using assms(2) by (induction batches arbitrary: st) (simp_all add: dispatchBatch_ledger [OF assms(1)])

lemma ceilings_hold:
  assumes "clock_mono clock" "createOutboxDispatcher deliverySafety store t = Inr (policy, st)"
  shows "within_ceilings policy (ds_trace (dispatch_passes policy adapter target clock batches st))"
proof -
  from assms(2) have "policy_ok policy" "ds_trace st = []" "ds_ledger st = []"
    using parse_policy_ok by (auto simp: createOutboxDispatcher_def)
  then have "ledger_inv policy clock st" using history_ok_Nil ledger_refines_Nil by (simp add: ledger_inv_def)
  from dispatch_passes_ledger [OF assms(1) this] show ?thesis by (simp add: ledger_inv_def history_ok_def)
qed

lemma pass_bounds:
  assumes "dispatchBatch policy adapter target clock options st = (Inr result, st')"
  shows "\<exists>permit. do_permit (projr (validateDispatchOptions (ox_host (clock (ds_tick st))) options policy)) = permit \<and>
    dr_dispatched result + dr_retried result \<le> dp_maxEntries permit \<and> 0 \<le> dr_bytes result \<and> dr_bytes result \<le> dp_maxBytes permit \<and>
    int (length (ds_trace st')) \<le> int (length (ds_trace st)) + dp_maxEntries permit"
proof -
  from assms obtain o' where v: "validateDispatchOptions (ox_host (clock (ds_tick st))) options policy = Inr o'"
      and run: "dispatch_loop policy adapter target clock o' (clock_now clock (ds_tick st)) 0
            (nat (dp_maxEntries (do_permit o'))) emptyDispatchResult (st\<lparr>ds_tick := ds_tick st + 1\<rparr>) = (Inr result, st')"
    by (auto simp: dispatchBatch_def split: sum.splits)
  have pos: "0 < dp_maxEntries (do_permit o')" "0 < dp_maxBytes (do_permit o')"
    using v by (auto simp: validateDispatchOptions_def positive_safe_def Let_def)
  from dispatch_loop_bounds [OF run] pos show ?thesis by (auto simp: v emptyDispatchResult_def)
qed

end

lemma utf8_length_nonneg: "0 \<le> utf8_length s"
  unfolding utf8_length_def by (rule sum_list_nonneg) auto

lemma outboxPayloadByteLength_nonneg: "outboxPayloadByteLength p = Inr n \<Longrightarrow> 0 \<le> n"
  using utf8_length_nonneg by (auto simp: outboxPayloadByteLength_def)

lemma claimed_bytes:
  assumes "claimDispatchable env opts f = Inr (c # cs, f')"
  shows "\<exists>m n. cl_maxPayloadBytes opts = NInt m \<and> outboxPayloadByteLength (oe_payload c) = Inr n \<and> 0 \<le> n \<and> n \<le> m"
  using assms
proof (cases rule: claimDispatchable_cases)
  case (1 ms limit maxBytes es es' at)
  from claim_rows_leases [OF 1(8)] obtain x js ns where js: "leased_at (cl_leaseId opts) x at es es' js" "c # cs = map ((!) es') js"
    and bytes: "map (\<lambda>j. outboxPayloadByteLength (oe_payload (es ! j))) js = map Inr ns" "0 \<le> maxBytes \<longrightarrow> sum_list ns \<le> maxBytes"
    by (elim exE conjE) (rule that; assumption)
  then obtain j js' where j: "js = j # js'" and ns: "map (\<lambda>j. outboxPayloadByteLength (oe_payload (es ! j))) js = map Inr ns"
      "sum_list ns \<le> maxBytes" using 1(4) by (auto simp: Cons_eq_map_conv)
  then obtain n ns' where n: "ns = n # ns'" "outboxPayloadByteLength (oe_payload (es ! j)) = Inr n"
      "map (\<lambda>j. outboxPayloadByteLength (oe_payload (es ! j))) js' = map Inr ns'" by (auto simp: Cons_eq_map_conv)
  have "\<forall>m \<in> set ns'. 0 \<le> m"
  proof
    fix m assume "m \<in> set ns'"
    then have "Inr m \<in> set (map (\<lambda>j. outboxPayloadByteLength (oe_payload (es ! j))) js')" using n(3) by auto
    then show "0 \<le> m" using outboxPayloadByteLength_nonneg by auto
  qed
  then have "n \<le> maxBytes" using ns(2) n(1) sum_list_nonneg [of ns'] by auto
  moreover have "oe_payload c = oe_payload (es ! j)" using js(1,2) j by (auto simp: leased_at_def lease_row_def)
  moreover have "cl_maxPayloadBytes opts = NInt maxBytes"
    using 1(1) by (auto simp: validateClaimOptions_def requirePositive_def split: jsnumber.splits if_splits)
  ultimately show ?thesis using n(2) outboxPayloadByteLength_nonneg by auto
qed

interpretation file_delivery: delivery_adapter file_adapter
  by unfold_locales (auto simp: file_adapter_def dest: claimed_bytes)

section \<open>A pass over a healthy tenant\<close>


































section \<open>Properties\<close>


text \<open>A pass that returns has stayed within its permit: it settled at most \<open>maxEntries\<close> rows and
  sent at most that many times, and the payload bytes it counts are at most \<open>maxBytes\<close>. Options
  that name no finite permit are refused before the outbox is touched.\<close>

theorem dispatchBatch_within_permit:
  assumes "dispatchBatch policy file_adapter target clock options st = (outcome, st')"
  shows "case validateDispatchOptions (ox_host (clock (ds_tick st))) options policy of
      Inl error \<Rightarrow> outcome = Inl error \<and> st' = st
    | Inr parsed \<Rightarrow> \<forall>result. outcome = Inr result \<longrightarrow>
        dr_dispatched result + dr_retried result \<le> dp_maxEntries (do_permit parsed) \<and>
        0 \<le> dr_bytes result \<and> dr_bytes result \<le> dp_maxBytes (do_permit parsed) \<and>
        int (length (ds_trace st')) \<le> int (length (ds_trace st)) + dp_maxEntries (do_permit parsed)"
proof (cases "validateDispatchOptions (ox_host (clock (ds_tick st))) options policy")
  case (Inl error)
  with assms show ?thesis by (simp add: dispatchBatch_def)
next
  case (Inr parsed)
  with file_delivery.pass_bounds [of policy target clock options st] assms show ?thesis by auto
qed


section \<open>Witnesses\<close>

definition sample_permit :: jsval where
  "sample_permit = JObj [(''kind'', JStr ''canary''), (''maxEntries'', JNum (NInt 3)), (''maxBytes'', JNum (NInt 5000)),
     (''maxElapsedMs'', JNum (NInt 1000)), (''leaseMs'', JNum (NInt 60000))]"

definition sample_dispatch :: jsval where
  "sample_dispatch = JObj [(''tenantId'', JStr ''t1''), (''permit'', sample_permit), (''now'', JStr ''1970-01-01'')]"

definition sample_options :: dispatch_options where
  "sample_options = \<lparr>do_tenantId = ''t1'', do_permit = \<lparr>dp_kind = Canary, dp_approvalId = JUndefined, dp_maxEntries = 3, dp_maxBytes = 5000,
     dp_maxElapsedMs = 1000, dp_leaseMs = 60000\<rparr>, do_now = Some (DateString ''1970-01-01'')\<rparr>"

definition sample_target :: "unit evidence_target" where
  "sample_target = \<lparr>recordEvent = (\<lambda>_ _. (Inr (), ())), recordEdge = (\<lambda>_ _. (Inr (), ()))\<rparr>"

definition sample_dispatcher :: "(snapshot, unit) dispatch_state" where
  "sample_dispatcher = \<lparr>ds_store = sample_queued, ds_target = (), ds_ledger = [], ds_tick = 0, ds_trace = []\<rparr>"

lemma sample_options_ok:
  "validateDispatchOptions (ox_host sample_outbox) sample_dispatch DEFAULT_DELIVERY_SAFETY_POLICY = Inr sample_options"
  by code_simp


definition sample_settled :: outbox_entry where
  "sample_settled = dispatched_row (lease_row sample_row ''canary:0:0'' ''1970-01-01T00:01:00.000Z'' epoch_text) epoch_text"




lemma sample_pass:
  "fst (dispatchBatch DEFAULT_DELIVERY_SAFETY_POLICY file_adapter sample_target (\<lambda>_. sample_outbox) sample_dispatch
     (sample_dispatcher\<lparr>ds_store := None\<rparr>)) = Inr emptyDispatchResult"
  by code_simp

lemma dispatchBatch_within_permit_witness:
  "dr_bytes (projr (fst (dispatchBatch DEFAULT_DELIVERY_SAFETY_POLICY file_adapter sample_target (\<lambda>_. sample_outbox) sample_dispatch
     (sample_dispatcher\<lparr>ds_store := None\<rparr>)))) \<le> 5000"
  using dispatchBatch_within_permit [OF surjective_pairing, of DEFAULT_DELIVERY_SAFETY_POLICY sample_target "\<lambda>_. sample_outbox" sample_dispatch
    "sample_dispatcher\<lparr>ds_store := None\<rparr>"] sample_pass sample_options_ok by (simp add: sample_options_def)



end
