(* ===== verification/Actions.thy ===== *)
theory Actions
  imports Prelude
begin

text \<open>
  Operations that change a state and may throw: an action maps a state to its outcome and the
  state it leaves behind, which after an error is the state the failed operation left. Awaited
  calls of the sources are actions run in order, and \<open>bracket\<close> is a host callback that runs an
  operation inside a scope it opens and closes.

  A triple \<open>yields P m Q E\<close> says: from a state with \<open>P\<close> the action \<open>m\<close> ends normally with \<open>Q\<close>, or
  throws and leaves a state with \<open>E\<close>. The rules decompose an action along its structure.
\<close>

named_theorems action_rules \<open>decomposition rules for triples\<close>

type_synonym ('w, 'a) action = "'w \<Rightarrow> 'a throws \<times> 'w"

definition pureA :: "'a \<Rightarrow> ('w, 'a) action" where
  "pureA x w = (Inr x, w)"

definition liftA :: "'a throws \<Rightarrow> ('w, 'a) action" where
  "liftA t w = (t, w)"

definition thenDo :: "('w, 'a) action \<Rightarrow> ('a \<Rightarrow> ('w, 'b) action) \<Rightarrow> ('w, 'b) action" where
  "thenDo m f w = (case m w of (Inl e, w') \<Rightarrow> (Inl e, w') | (Inr x, w') \<Rightarrow> f x w')"

definition bracket :: "('w, unit) action \<Rightarrow> ('w \<Rightarrow> 'w) \<Rightarrow> ('w, 'a) action \<Rightarrow> ('w, 'a) action" where
  "bracket enter leave m w =
     (case enter w of (Inl e, w') \<Rightarrow> (Inl e, w') | (Inr _, w') \<Rightarrow> (let r = m w' in (fst r, leave (snd r))))"

definition checkThat :: "bool \<Rightarrow> string \<Rightarrow> ('w, unit) action" where
  "checkThat p message = liftA (throwUnless p (TypeError message))"

lemma thenDo_Inr: "thenDo m f w = (Inr y, w') \<longleftrightarrow> (\<exists>x v. m w = (Inr x, v) \<and> f x v = (Inr y, w'))"
  by (auto simp: thenDo_def split: prod.splits sum.splits)

lemma thenDo_simps [simp]:
  "thenDo (pureA x) f w = f x w" "thenDo (liftA (Inr x)) f w = f x w" "thenDo (liftA (Inl e)) f w = (Inl e, w)"
  by (simp_all add: thenDo_def pureA_def liftA_def)

lemma thenDo_check: "thenDo (checkThat p msg) f w = (if p then f () w else (Inl (TypeError msg), w))"
  by (simp add: checkThat_def)

lemma thenDo_step: "m w = (Inr x, v) \<Longrightarrow> thenDo m f w = f x v" "m w = (Inl e, v) \<Longrightarrow> thenDo m f w = (Inl e, v)"
  by (simp_all add: thenDo_def)

lemma pureA_Inr [simp]: "pureA x w = (r, w') \<longleftrightarrow> r = Inr x \<and> w' = w"
  by (auto simp: pureA_def)

lemma liftA_eq [simp]: "liftA t w = (r, w') \<longleftrightarrow> r = t \<and> w' = w"
  by (auto simp: liftA_def)

section \<open>Triples\<close>

definition yields :: "('w \<Rightarrow> bool) \<Rightarrow> ('w, 'a) action \<Rightarrow> ('a \<Rightarrow> 'w \<Rightarrow> bool) \<Rightarrow> ('w \<Rightarrow> bool) \<Rightarrow> bool" where
  "yields P m Q E \<longleftrightarrow> (\<forall>w r w'. P w \<and> m w = (r, w') \<longrightarrow> (case r of Inl _ \<Rightarrow> E w' | Inr x \<Rightarrow> Q x w'))"

lemma yieldsI:
  assumes "\<And>w x w'. P w \<Longrightarrow> m w = (Inr x, w') \<Longrightarrow> Q x w'" "\<And>w e w'. P w \<Longrightarrow> m w = (Inl e, w') \<Longrightarrow> E w'"
  shows "yields P m Q E"
  using assms by (auto simp: yields_def split: sum.splits)

lemma yieldsD:
  assumes "yields P m Q E" "P w"
  shows "m w = (Inr x, w') \<Longrightarrow> Q x w'" "m w = (Inl e, w') \<Longrightarrow> E w'"
  using assms by (fastforce simp: yields_def)+

lemma yields_outcome: "yields P m (\<lambda>_. R) R \<Longrightarrow> P w \<Longrightarrow> m w = (r, w') \<Longrightarrow> R w'"
  by (cases r) (auto dest: yieldsD)

lemma yields_weaken:
  assumes "yields P' m Q' E'" "\<And>w. P w \<Longrightarrow> P' w" "\<And>x w. Q' x w \<Longrightarrow> Q x w" "\<And>w. E' w \<Longrightarrow> E w"
  shows "yields P m Q E"
  using assms by (fastforce simp: yields_def split: sum.splits)

lemma yields_pure [action_rules]: "(\<And>w. P w \<Longrightarrow> Q x w) \<Longrightarrow> yields P (pureA x) Q E"
  by (auto simp: yields_def pureA_def)

lemma yields_lift [action_rules]:
  "(\<And>x w. t = Inr x \<Longrightarrow> P w \<Longrightarrow> Q x w) \<Longrightarrow> (\<And>e w. t = Inl e \<Longrightarrow> P w \<Longrightarrow> E w) \<Longrightarrow> yields P (liftA t) Q E"
  by (auto simp: yields_def liftA_def split: sum.splits)

lemma yields_check [action_rules]:
  "(\<And>w. p \<Longrightarrow> P w \<Longrightarrow> Q () w) \<Longrightarrow> (\<And>w. P w \<Longrightarrow> E w) \<Longrightarrow> yields P (checkThat p msg) Q E"
  by (auto simp: checkThat_def throwUnless_def intro!: yields_lift split: if_splits)

lemma yields_then:
  assumes "yields P m Q E" "\<And>x. yields (Q x) (f x) R E"
  shows "yields P (thenDo m f) R E"
proof (rule yieldsI)
  fix w y w' assume "P w" "thenDo m f w = (Inr y, w')"
  then show "R y w'" using assms by (auto simp: thenDo_Inr dest: yieldsD)
next
  fix w e w' assume "P w" "thenDo m f w = (Inl e, w')"
  then show "E w'" using assms by (cases "m w") (auto simp: thenDo_def split: sum.splits dest: yieldsD)
qed

text \<open>The middle assertion is the precondition with what the first action adds.\<close>

lemma yields_check_then [action_rules]:
  assumes "\<And>w. P w \<Longrightarrow> E w" "p \<Longrightarrow> yields P (f ()) R E"
  shows "yields P (thenDo (checkThat p msg) f) R E"
  using assms by (cases p) (auto simp: yields_def thenDo_check)

lemma yields_lift_then [action_rules]:
  assumes "\<And>w. P w \<Longrightarrow> E w" "\<And>x. t = Inr x \<Longrightarrow> yields P (f x) R E"
  shows "yields P (thenDo (liftA t) f) R E"
  using assms by (cases t) (auto simp: yields_def)

lemma bracket_Inr:
  "bracket enter leave m w = (Inr x, w') \<longleftrightarrow> (\<exists>v u. enter w = (Inr (), v) \<and> m v = (Inr x, u) \<and> w' = leave u)"
  by (auto simp: bracket_def Let_def prod_eq_iff split: prod.splits sum.splits)

lemma bracket_Inl:
  "bracket enter leave m w = (Inl e, w') \<longleftrightarrow>
     enter w = (Inl e, w') \<or> (\<exists>v u. enter w = (Inr (), v) \<and> m v = (Inl e, u) \<and> w' = leave u)"
  by (auto simp: bracket_def Let_def prod_eq_iff split: prod.splits sum.splits)

lemma yields_bracket:
  assumes enter: "yields P enter (\<lambda>_. Q) E" and inner: "yields Q m (\<lambda>x w. R x (leave w)) (\<lambda>w. E (leave w))"
  shows "yields P (bracket enter leave m) R E"
proof (rule yieldsI)
  fix w x w' assume "P w" "bracket enter leave m w = (Inr x, w')"
  then show "R x w'" unfolding bracket_Inr using yieldsD(1) [OF enter] yieldsD(1) [OF inner] by blast
next
  fix w e w' assume "P w" "bracket enter leave m w = (Inl e, w')"
  then show "E w'" unfolding bracket_Inl using yieldsD [OF enter] yieldsD(2) [OF inner] by blast
qed

end
