(* ===== verification/Staging.thy ===== *)
theory Staging
  imports MemoryStore Actions
begin

text \<open>
  The data and the interface of the derived staging archive of
  \<^verbatim>\<open>storage/src/retention-staging-archive.ts\<close>: segment descriptors, epoch manifests, the input of
  a sealed epoch and the archive as a record of its seven operations over a provider state.
\<close>

record staging_segment =
  sg_fromSequence :: int
  sg_toSequence :: int
  sg_recordCount :: int
  sg_firstPreviousHash :: "string option"
  sg_lastHash :: string
  sg_contentSha256 :: string
  sg_objectKey :: string

record staging_manifest =
  mf_recordType :: string
  mf_schemaVersion :: string
  mf_tenantId :: string
  mf_epoch :: int
  mf_fromSequence :: int
  mf_fromPreviousHash :: "string option"
  mf_throughSequence :: int
  mf_throughHash :: string
  mf_recordCount :: int
  mf_previousCheckpointHash :: "string option"
  mf_archiveRootHash :: string
  mf_segments :: "staging_segment list"
  mf_manifestKey :: string

record seal_input =
  si_tenantId :: string
  si_epoch :: int
  si_previousCheckpoint :: "retention_checkpoint option"
  si_records :: "audit_record list"
  si_segmentRecordCount :: "jsnumber option"

datatype staging_verification = StagingOk string int int | StagingFail string
  \<comment> \<open>archive root, segment count and record count, or the reason\<close>

record 'p staging_archive =
  ar_deriveEpoch :: "seal_input \<Rightarrow> staging_manifest throws"
  ar_sealEpoch :: "seal_input \<Rightarrow> ('p, staging_manifest) action"
  ar_recoverEpoch :: "retention_checkpoint \<Rightarrow> ('p, staging_manifest option) action"
  ar_verifyEpoch :: "staging_manifest \<Rightarrow> ('p, staging_verification) action"
  ar_deleteEpoch :: "staging_manifest \<Rightarrow> ('p, unit) action"
  ar_confirmEpochAbsent :: "staging_manifest \<Rightarrow> ('p, bool) action"
  ar_confirmCheckpointEpochAbsent :: "retention_checkpoint \<Rightarrow> ('p, bool) action"

text \<open>A segment descriptor without its key, a segment and a manifest as JSON values.\<close>

definition providerNeutralDescriptor :: "staging_segment \<Rightarrow> jsval" where
  "providerNeutralDescriptor s = JObj
     [(''fromSequence'', JNum (NInt (sg_fromSequence s))), (''toSequence'', JNum (NInt (sg_toSequence s))),
      (''recordCount'', JNum (NInt (sg_recordCount s))), (''firstPreviousHash'', nullable_json (sg_firstPreviousHash s)),
      (''lastHash'', JStr (sg_lastHash s)), (''contentSha256'', JStr (sg_contentSha256 s))]"

definition segment_value :: "staging_segment \<Rightarrow> jsval" where
  "segment_value s = JObj
     [(''fromSequence'', JNum (NInt (sg_fromSequence s))), (''toSequence'', JNum (NInt (sg_toSequence s))),
      (''recordCount'', JNum (NInt (sg_recordCount s))), (''firstPreviousHash'', nullable_json (sg_firstPreviousHash s)),
      (''lastHash'', JStr (sg_lastHash s)), (''contentSha256'', JStr (sg_contentSha256 s)),
      (''objectKey'', JStr (sg_objectKey s))]"

definition manifest_value :: "staging_manifest \<Rightarrow> jsval" where
  "manifest_value m = JObj
     [(''recordType'', JStr (mf_recordType m)), (''schemaVersion'', JStr (mf_schemaVersion m)),
      (''tenantId'', JStr (mf_tenantId m)), (''epoch'', JNum (NInt (mf_epoch m))),
      (''fromSequence'', JNum (NInt (mf_fromSequence m))), (''fromPreviousHash'', nullable_json (mf_fromPreviousHash m)),
      (''throughSequence'', JNum (NInt (mf_throughSequence m))), (''throughHash'', JStr (mf_throughHash m)),
      (''recordCount'', JNum (NInt (mf_recordCount m))),
      (''previousCheckpointHash'', nullable_json (mf_previousCheckpointHash m)),
      (''archiveRootHash'', JStr (mf_archiveRootHash m)), (''segments'', JArr (map segment_value (mf_segments m))),
      (''manifestKey'', JStr (mf_manifestKey m))]"

section \<open>Members of a normal form\<close>

lemma object_member:
  assumes "distinct (map fst kvs)" "normalizeForJson (JObj kvs) = Inr (JObj ms)" "k \<noteq> proto_key"
  shows "normalizeForJson (get_prop kvs k) = Inr (get_prop ms k)"
proof (cases "k \<in> fst ` set kvs")
  case True
  then obtain v where v: "(k, v) \<in> set kvs" by force
  from object_field_lookup [OF assms(1,2) v assms(3)] obtain a where "normalizeForJson v = Inr a" "get_prop ms k = a" .
  moreover have "get_prop kvs k = v" using v assms(1) by (simp add: get_prop_def)
  ultimately show ?thesis by simp
next
  case False
  from assms(2) obtain kws where kws: "member_results normalizeForJson (sort_key fst kvs) kws"
    and ms: "ms = assign_all (filter (\<lambda>kw. snd kw \<noteq> JUndefined) kws)"
    unfolding normalize_object_iff by blast
  have "fst ` set kws = fst ` set kvs" using member_results_keys [OF kws] by (metis set_map set_sort)
  with False have "k \<notin> fst ` set ms" by (force simp: ms set_assign_all)
  then have "map_of ms k = None" "map_of kvs k = None" using False by (simp_all add: map_of_eq_None_iff)
  then show ?thesis by (simp add: get_prop_def normalizeForJson.simps)
qed

lemma same_normal_members:
  assumes "normalizeForJson (JObj kvs) = Inr x" "normalizeForJson (JObj lws) = Inr x"
    and "distinct (map fst kvs)" "distinct (map fst lws)" "k \<noteq> proto_key"
  shows "normalizeForJson (js_prop (JObj kvs) k) = normalizeForJson (js_prop (JObj lws) k)"
proof -
  from assms(1) obtain ms where "x = JObj ms" unfolding normalize_object_iff by blast
  with assms object_member [OF assms(3) _ assms(5), of ms] object_member [OF assms(4) _ assms(5), of ms]
  show ?thesis by (simp add: js_prop_def)
qed

end
