(* ===== verification/StagingArchive.thy ===== *)
theory StagingArchive
  imports Staging JsonText
begin

text \<open>
  The derived staging archive of \<^verbatim>\<open>storage/src/retention-staging-archive.ts\<close>: keys and bytes of an
  epoch, the validation of inputs, manifests and segments, and the seven operations of the archive
  over an injected object client.

  The client is a record of actions on a provider state. Bytes are lists of 8-bit characters. Of the
  text decoder, everything that is not the encoding of a code unit below 256 decodes to the mark
  \<open>sv_mark\<close>. A manifest that comes from the provider is a JSON value until it has been validated.
\<close>

type_synonym bytes = string

record 'p object_client =
  oc_put :: "string \<Rightarrow> bytes \<Rightarrow> ('p, unit) action"
  oc_get :: "string \<Rightarrow> ('p, bytes option) action"
  oc_list :: "string \<Rightarrow> ('p, string list) action"
  oc_delete :: "string \<Rightarrow> ('p, unit) action"

text \<open>Host and hashes, the number that a JSON literal denotes and the decoder's mark.\<close>

record staging_env =
  sv_retention :: retention_env
  sv_number :: "string \<Rightarrow> jsnumber"
  sv_mark :: char

section \<open>Text and bytes\<close>

definition utf8_char :: "char \<Rightarrow> bytes" where
  "utf8_char c = (if code_unit c < 128 then [c] else [char_of (192 + code_unit c div 64), char_of (128 + code_unit c mod 64)])"

definition utf8_encode :: "string \<Rightarrow> bytes" where
  "utf8_encode s = concat (map utf8_char s)"

definition is_continuation :: "char \<Rightarrow> bool" where
  "is_continuation b \<longleftrightarrow> code_unit b div 64 = 2"

fun utf8_units :: "char \<Rightarrow> bytes \<Rightarrow> string" where
  "utf8_units mark [] = []"
| "utf8_units mark (b # rest) =
     (if code_unit b < 128 then b # utf8_units mark rest
      else case rest of
        [] \<Rightarrow> [mark]
      | b' # rest' \<Rightarrow>
          if code_unit b \<in> {194, 195} \<and> is_continuation b'
          then char_of (64 * (code_unit b - 192) + (code_unit b' - 128)) # utf8_units mark rest'
          else mark # utf8_units mark rest)"

definition BYTE_ORDER_MARK :: bytes where
  "BYTE_ORDER_MARK = [CHR 0xEF, CHR 0xBB, CHR 0xBF]"

definition utf8_decode :: "char \<Rightarrow> bytes \<Rightarrow> string" where
  "utf8_decode mark body =
     utf8_units mark (if prefix BYTE_ORDER_MARK body then drop (length BYTE_ORDER_MARK) body else body)"

definition LF :: char where "LF = CHR 0x0A"

section \<open>Keys\<close>

definition DEFAULT_PREFIX :: string where
  "DEFAULT_PREFIX = ''veritio-retention-staging''"

definition PREFIX_PATTERN :: "string \<Rightarrow> bool" where
  "PREFIX_PATTERN s \<longleftrightarrow> 1 \<le> length s \<and> length s \<le> 512 \<and> list_all (\<lambda>c. is_id_char c \<or> c \<in> set ''/='') s"

definition validatePrefix :: "string \<Rightarrow> string throws" where
  "validatePrefix value =
     (if \<not> PREFIX_PATTERN value \<or> prefix ''/'' value \<or> suffix ''/'' value \<or> contains ''//'' value
        \<or> list_ex (\<lambda>segment. segment = ''..'') (split_on (CHR ''/'') value)
      then Inl (TypeError ''retention staging prefix is invalid'') else Inr value)"

definition uri_unreserved :: "char \<Rightarrow> bool" where
  "uri_unreserved c \<longleftrightarrow> is_upper c \<or> is_lower c \<or> is_digit c \<or> c \<in> set ''-_.!~*()'' \<or> c = CHR 0x27"

definition hex_upper :: "nat \<Rightarrow> char" where
  "hex_upper n = (if n < 10 then char_of (48 + n) else char_of (55 + n))"

definition percent_byte :: "char \<Rightarrow> string" where
  "percent_byte b = [CHR ''%'', hex_upper (code_unit b div 16), hex_upper (code_unit b mod 16)]"

definition encodeURIComponent :: "string \<Rightarrow> string" where
  "encodeURIComponent s = concat (map (\<lambda>c. if uri_unreserved c then [c] else concat (map percent_byte (utf8_char c))) s)"

definition SEQUENCE_PAD :: nat where
  "SEQUENCE_PAD = 16"

definition padSequence :: "int \<Rightarrow> string" where
  "padSequence value = replicate (SEQUENCE_PAD - length (show_int value)) (CHR ''0'') @ show_int value"

definition epochKeyPrefix :: "string \<Rightarrow> string \<Rightarrow> int \<Rightarrow> string" where
  "epochKeyPrefix keys tenant epoch = keys @ ''/'' @ encodeURIComponent tenant @ ''/audit/epoch-'' @ padSequence epoch"

definition manifest_key :: "string \<Rightarrow> string" where
  "manifest_key epochPrefix = epochPrefix @ ''/manifest.json''"

definition segment_key :: "string \<Rightarrow> int \<Rightarrow> int \<Rightarrow> string" where
  "segment_key epochPrefix low high =
     epochPrefix @ ''/'' @ padSequence low @ ''-'' @ padSequence high @ ''.ndjson''"

section \<open>Records and segments\<close>

text \<open>A record as a JSON value.\<close>

definition record_value :: "audit_record \<Rightarrow> jsval" where
  "record_value r = JObj [
     (''event'', event_json (rec_event r)), (''sequence'', JNum (NInt (rec_sequence r))),
     (''previousHash'', nullable_json (rec_previousHash r)), (''hash'', JStr (rec_hash r)),
     (''hashAlgorithm'', JStr (rec_hashAlgorithm r)), (''canonicalization'', JStr (rec_canonicalization r)),
     (''appendedAt'', JStr (rec_appendedAt r)), (''idempotencyKeyHash'', JStr (rec_idempotencyKeyHash r))]"

definition encodeNdjson :: "audit_record list \<Rightarrow> bytes throws" where
  "encodeNdjson records =
     andThen (collect (map (\<lambda>r. canonicalJson (record_value r)) records)) (\<lambda>lines.
     Inr (utf8_encode (join [LF] lines @ [LF])))"

text \<open>\<open>value.key\<close> on a parsed value, which may be \<open>null\<close>, and \<open>hashAuditRecord\<close> of a parsed object.\<close>

definition js_member :: "jsval \<Rightarrow> string \<Rightarrow> jsval throws" where
  "js_member v k = (case v of
     JNull \<Rightarrow> Inl (TypeError (''Cannot read properties of null (reading '' @ [CHR 0x27] @ k @ [CHR 0x27] @ '')''))
   | JUndefined \<Rightarrow> Inl (TypeError (''Cannot read properties of undefined (reading '' @ [CHR 0x27] @ k @ [CHR 0x27] @ '')''))
   | _ \<Rightarrow> Inr (js_prop v k))"

definition parsed_tenant :: "jsval \<Rightarrow> jsval throws" where
  "parsed_tenant record =
     andThen (js_member record ''event'') (\<lambda>event.
     andThen (js_member event ''scope'') (\<lambda>scope.
     Inr (js_prop scope ''tenantId'')))"

definition without_hash :: "jsval \<Rightarrow> jsval" where
  "without_hash record = (case record of JObj kvs \<Rightarrow> JObj (filter (\<lambda>kv. fst kv \<noteq> ''hash'') kvs) | v \<Rightarrow> v)"

definition hashParsedRecord :: "digest \<Rightarrow> jsval \<Rightarrow> string throws" where
  "hashParsedRecord sha record = andThen (canonicalJson (without_hash record)) (\<lambda>t. Inr (sha256Hex sha t))"

definition parse_record :: "staging_env \<Rightarrow> string \<Rightarrow> string \<Rightarrow> jsval throws" where
  "parse_record env tenant line =
     (let failed = Inl (TypeError ''staged epoch record integrity check failed'') in
      case json_parse (sv_number env) line of
        Inl _ \<Rightarrow> failed
      | Inr record \<Rightarrow>
          andThen (parsed_tenant record) (\<lambda>t.
          if t \<noteq> JStr tenant then failed
          else andThen (canonicalJson record) (\<lambda>text.
            if text \<noteq> line then failed
            else andThen (hashParsedRecord (re_sha (sv_retention env)) record) (\<lambda>d.
              if js_prop record ''hash'' \<noteq> JStr d then failed else Inr record))))"

definition parseExactNdjson :: "staging_env \<Rightarrow> bytes \<Rightarrow> string \<Rightarrow> jsval list throws" where
  "parseExactNdjson env body tenant =
     (let text = utf8_decode (sv_mark env) body; lines = split_on LF (butlast text) in
      if text = [] \<or> last text \<noteq> LF \<or> list_ex (\<lambda>line. line = []) lines
      then Inl (TypeError ''staged epoch segment integrity check failed'')
      else collect (map (parse_record env tenant) lines))"

text \<open>The loop \<open>for (offset = 0; offset < records.length; offset += chunk)\<close>, which does not end for
  the chunk size 0, and its batches for a positive one.\<close>

partial_function (option) batches_from :: "nat \<Rightarrow> 'a list \<Rightarrow> nat \<Rightarrow> 'a list list option" where
  "batches_from chunk records offset =
     (if offset < length records
      then Option.bind (batches_from chunk records (offset + chunk))
        (\<lambda>rest. Some (take chunk (drop offset records) # rest))
      else Some [])"

function batches :: "nat \<Rightarrow> 'a list \<Rightarrow> 'a list list" where
  "batches chunk records =
     (if records = [] \<or> chunk = 0 then [] else take chunk records # batches chunk (drop chunk records))"
  by pat_completeness auto
termination by (relation "measure (\<lambda>(chunk, records). length records)") auto

declare batches.simps [simp del]

definition segment_of :: "staging_env \<Rightarrow> string \<Rightarrow> audit_record list \<Rightarrow> staging_segment throws" where
  "segment_of env epochPrefix batch =
     andThen (encodeNdjson batch) (\<lambda>body.
     Inr \<lparr>sg_fromSequence = rec_sequence (hd batch), sg_toSequence = rec_sequence (last batch),
       sg_recordCount = int (length batch), sg_firstPreviousHash = rec_previousHash (hd batch),
       sg_lastHash = rec_hash (last batch), sg_contentSha256 = re_sha_bytes (sv_retention env) body,
       sg_objectKey = segment_key epochPrefix (rec_sequence (hd batch)) (rec_sequence (last batch))\<rparr>)"

section \<open>Validation\<close>

fun check_epoch_records :: "digest \<Rightarrow> string \<Rightarrow> int \<Rightarrow> string option \<Rightarrow> audit_record list \<Rightarrow> unit throws" where
  "check_epoch_records sha tenant sequence previousHash [] = Inr ()"
| "check_epoch_records sha tenant sequence previousHash (record # rest) =
     andThen (throwUnless (Option.bind (event_scope (rec_event record)) tenantId = Some tenant)
        (TypeError ''record tenant mismatch'')) (\<lambda>_.
     andThen (hashAuditRecord sha record) (\<lambda>d.
     andThen (throwUnless (d = rec_hash record) (TypeError ''record integrity check failed'')) (\<lambda>_.
     andThen (throwUnless (rec_sequence record = sequence + 1 \<and> rec_previousHash record = previousHash)
        (TypeError ''records do not begin at the epoch anchor'')) (\<lambda>_.
     check_epoch_records sha tenant (rec_sequence record) (Some (rec_hash record)) rest))))"

text \<open>The anchor: the sequence and hash before the epoch, and the hash of the previous checkpoint.\<close>

definition epoch_anchor :: "staging_env \<Rightarrow> seal_input \<Rightarrow> (int \<times> string option \<times> string option) throws" where
  "epoch_anchor env input =
     (case si_previousCheckpoint input of
        None \<Rightarrow>
          andThen (throwUnless (si_epoch input = 1) (TypeError ''epoch one requires the genesis anchor'')) (\<lambda>_.
          Inr (0, None, None))
      | Some checkpoint \<Rightarrow>
          andThen (verifyRetentionCheckpoint (sv_retention env) (checkpoint_value checkpoint) default_options) (\<lambda>result.
          case result of
            RetFail _ _ _ \<Rightarrow> Inl (TypeError ''previous checkpoint is invalid'')
          | RetOk _ \<Rightarrow>
              andThen (throwUnless (cp_tenantId checkpoint = si_tenantId input) (TypeError ''previous checkpoint tenant mismatch'')) (\<lambda>_.
              andThen (throwUnless (si_epoch input = cp_epoch checkpoint + 1)
                 (TypeError ''epoch does not extend the prior checkpoint'')) (\<lambda>_.
              Inr (cp_throughSequence checkpoint, Some (cp_throughHash checkpoint), Some (cp_hash checkpoint))))))"

definition validateSealInput :: "staging_env \<Rightarrow> seal_input \<Rightarrow> (string option \<times> string option) throws" where
  "validateSealInput env input =
     andThen (assertId (JStr (si_tenantId input)) ''tenantId'') (\<lambda>_.
     andThen (assertSafeInteger (JNum (NInt (si_epoch input))) ''epoch'') (\<lambda>_.
     andThen (throwUnless (si_records input \<noteq> []) (TypeError ''retention epoch requires at least one record'')) (\<lambda>_.
     andThen (epoch_anchor env input) (\<lambda>(sequence, previousHash, checkpointHash).
     andThen (check_epoch_records (re_sha (sv_retention env)) (si_tenantId input) sequence previousHash (si_records input)) (\<lambda>_.
     Inr (rec_previousHash (hd (si_records input)), checkpointHash))))))"

definition MANIFEST_KEYS :: "string list" where
  "MANIFEST_KEYS = [''recordType'', ''schemaVersion'', ''tenantId'', ''epoch'', ''fromSequence'', ''fromPreviousHash'',
     ''throughSequence'', ''throughHash'', ''recordCount'', ''previousCheckpointHash'', ''archiveRootHash'', ''segments'',
     ''manifestKey'']"

definition SEGMENT_KEYS :: "string list" where
  "SEGMENT_KEYS = [''fromSequence'', ''toSequence'', ''recordCount'', ''firstPreviousHash'', ''lastHash'', ''contentSha256'',
     ''objectKey'']"

definition hasExactKeys :: "jsval \<Rightarrow> string list \<Rightarrow> bool" where
  "hasExactKeys v allowed \<longleftrightarrow> length (own_keys v) = length allowed \<and> list_all (\<lambda>k. k \<in> set allowed) (own_keys v)"

definition str_prop :: "jsval \<Rightarrow> string \<Rightarrow> string" where
  "str_prop v k = (case js_prop v k of JStr s \<Rightarrow> s | _ \<Rightarrow> [])"

definition arr_prop :: "jsval \<Rightarrow> string \<Rightarrow> jsval list" where
  "arr_prop v k = (case js_prop v k of JArr vs \<Rightarrow> vs | _ \<Rightarrow> [])"

definition neutral_value :: "jsval \<Rightarrow> jsval" where
  "neutral_value segment = JObj (pick segment
     [''fromSequence'', ''toSequence'', ''recordCount'', ''firstPreviousHash'', ''lastHash'', ''contentSha256''])"

text \<open>The loop over the descriptors: the next sequence, the last hash and the count.\<close>

fun check_segments :: "string \<Rightarrow> int \<Rightarrow> jsval \<Rightarrow> int \<Rightarrow> jsval list \<Rightarrow> (int \<times> jsval \<times> int) throws" where
  "check_segments epochPrefix sequence previousHash seen [] = Inr (sequence, previousHash, seen)"
| "check_segments epochPrefix sequence previousHash seen (segment # rest) =
     andThen (throwUnless (isPlainObject segment \<and> hasExactKeys segment SEGMENT_KEYS)
        (TypeError ''staged epoch segment descriptor is invalid'')) (\<lambda>_.
     andThen (assertSafeInteger (js_prop segment ''fromSequence'') ''segment.fromSequence'') (\<lambda>_.
     andThen (assertSafeInteger (js_prop segment ''toSequence'') ''segment.toSequence'') (\<lambda>_.
     andThen (assertSafeInteger (js_prop segment ''recordCount'') ''segment.recordCount'') (\<lambda>_.
     andThen (assertNullableHash (js_prop segment ''firstPreviousHash'') ''segment.firstPreviousHash'') (\<lambda>_.
     andThen (assertHash (js_prop segment ''lastHash'') ''segment.lastHash'') (\<lambda>_.
     andThen (assertHash (js_prop segment ''contentSha256'') ''segment.contentSha256'') (\<lambda>_.
     let low = int_prop segment ''fromSequence''; high = int_prop segment ''toSequence'' in
     andThen (throwUnless (low = sequence \<and> js_prop segment ''firstPreviousHash'' = previousHash \<and> low \<le> high \<and>
          int_prop segment ''recordCount'' = high - low + 1)
        (TypeError ''staged epoch segment descriptors are not contiguous'')) (\<lambda>_.
     andThen (throwUnless (js_prop segment ''objectKey'' = JStr (segment_key epochPrefix low high))
        (TypeError ''staged epoch segment key is invalid'')) (\<lambda>_.
     check_segments epochPrefix (high + 1) (js_prop segment ''lastHash'') (seen + int_prop segment ''recordCount'') rest)))))))))"

definition validateManifest :: "staging_env \<Rightarrow> jsval \<Rightarrow> string \<Rightarrow> unit throws" where
  "validateManifest env manifest keys =
     andThen (throwUnless (isPlainObject manifest \<and> hasExactKeys manifest MANIFEST_KEYS)
        (TypeError ''staged epoch manifest is invalid'')) (\<lambda>_.
     andThen (assertId (js_prop manifest ''tenantId'') ''tenantId'') (\<lambda>_.
     andThen (assertSafeInteger (js_prop manifest ''epoch'') ''epoch'') (\<lambda>_.
     andThen (assertSafeInteger (js_prop manifest ''fromSequence'') ''fromSequence'') (\<lambda>_.
     andThen (assertSafeInteger (js_prop manifest ''throughSequence'') ''throughSequence'') (\<lambda>_.
     andThen (assertSafeInteger (js_prop manifest ''recordCount'') ''recordCount'') (\<lambda>_.
     andThen (assertNullableHash (js_prop manifest ''fromPreviousHash'') ''fromPreviousHash'') (\<lambda>_.
     andThen (assertHash (js_prop manifest ''throughHash'') ''throughHash'') (\<lambda>_.
     andThen (assertNullableHash (js_prop manifest ''previousCheckpointHash'') ''previousCheckpointHash'') (\<lambda>_.
     andThen (assertHash (js_prop manifest ''archiveRootHash'') ''archiveRootHash'') (\<lambda>_.
     andThen (throwUnless (js_prop manifest ''recordType'' = JStr ''retention.staging.manifest'' \<and>
          js_prop manifest ''schemaVersion'' = JStr ''1.0'') (TypeError ''staged epoch manifest protocol is unsupported'')) (\<lambda>_.
     andThen (throwUnless ((case js_prop manifest ''segments'' of JArr vs \<Rightarrow> vs \<noteq> [] | _ \<Rightarrow> False) \<and>
          int_prop manifest ''fromSequence'' \<le> int_prop manifest ''throughSequence'')
        (TypeError ''staged epoch manifest range is invalid'')) (\<lambda>_.
     let epochPrefix = epochKeyPrefix keys (str_prop manifest ''tenantId'') (int_prop manifest ''epoch'') in
     andThen (throwUnless (js_prop manifest ''manifestKey'' = JStr (manifest_key epochPrefix))
        (TypeError ''staged epoch manifest key is invalid'')) (\<lambda>_.
     andThen (check_segments epochPrefix (int_prop manifest ''fromSequence'') (js_prop manifest ''fromPreviousHash'') 0
        (arr_prop manifest ''segments'')) (\<lambda>(sequence, previousHash, seen).
     andThen (throwUnless (sequence - 1 = int_prop manifest ''throughSequence'' \<and>
          previousHash = js_prop manifest ''throughHash'' \<and> seen = int_prop manifest ''recordCount'' \<and>
          seen = int_prop manifest ''throughSequence'' - int_prop manifest ''fromSequence'' + 1)
        (TypeError ''staged epoch manifest boundary mismatch'')) (\<lambda>_.
     andThen (canonicalJson (JArr (map neutral_value (arr_prop manifest ''segments'')))) (\<lambda>text.
     throwUnless (js_prop manifest ''archiveRootHash'' = JStr (re_sha (sv_retention env) text))
        (TypeError ''staged epoch archive root mismatch'')))))))))))))))))"

text \<open>A validated value as the typed manifest.\<close>

definition null_prop :: "jsval \<Rightarrow> string \<Rightarrow> string option" where
  "null_prop v k = (case js_prop v k of JStr s \<Rightarrow> Some s | _ \<Rightarrow> None)"

definition segment_of_value :: "jsval \<Rightarrow> staging_segment" where
  "segment_of_value v = \<lparr>sg_fromSequence = int_prop v ''fromSequence'', sg_toSequence = int_prop v ''toSequence'',
     sg_recordCount = int_prop v ''recordCount'', sg_firstPreviousHash = null_prop v ''firstPreviousHash'',
     sg_lastHash = str_prop v ''lastHash'', sg_contentSha256 = str_prop v ''contentSha256'',
     sg_objectKey = str_prop v ''objectKey''\<rparr>"

definition manifest_of_value :: "jsval \<Rightarrow> staging_manifest" where
  "manifest_of_value v = \<lparr>mf_recordType = str_prop v ''recordType'', mf_schemaVersion = str_prop v ''schemaVersion'',
     mf_tenantId = str_prop v ''tenantId'', mf_epoch = int_prop v ''epoch'', mf_fromSequence = int_prop v ''fromSequence'',
     mf_fromPreviousHash = null_prop v ''fromPreviousHash'', mf_throughSequence = int_prop v ''throughSequence'',
     mf_throughHash = str_prop v ''throughHash'', mf_recordCount = int_prop v ''recordCount'',
     mf_previousCheckpointHash = null_prop v ''previousCheckpointHash'', mf_archiveRootHash = str_prop v ''archiveRootHash'',
     mf_segments = map segment_of_value (arr_prop v ''segments''), mf_manifestKey = str_prop v ''manifestKey''\<rparr>"

definition parseManifest :: "staging_env \<Rightarrow> string \<Rightarrow> string \<Rightarrow> jsval throws" where
  "parseManifest env text keys =
     (let failed = Inl (TypeError ''staged epoch manifest integrity check failed'') in
      case json_parse (sv_number env) text of
        Inl _ \<Rightarrow> failed
      | Inr parsed \<Rightarrow>
          andThen (canonicalJson parsed) (\<lambda>t.
          if t \<noteq> text then failed else andThen (validateManifest env parsed keys) (\<lambda>_. Inr parsed)))"

section \<open>Operations\<close>

definition deriveEpoch :: "staging_env \<Rightarrow> string \<Rightarrow> seal_input \<Rightarrow> staging_manifest throws" where
  "deriveEpoch env keys input =
     (let segmentRecordCount = JNum (case si_segmentRecordCount input of None \<Rightarrow> NInt 1000 | Some n \<Rightarrow> n) in
      andThen (assertSafeInteger segmentRecordCount ''segmentRecordCount'') (\<lambda>_.
      andThen (validateSealInput env input) (\<lambda>(previousHash, checkpointHash).
      let epochPrefix = epochKeyPrefix keys (si_tenantId input) (si_epoch input);
          records = si_records input;
          chunk = (case segmentRecordCount of JNum (NInt n) \<Rightarrow> nat n | _ \<Rightarrow> 0) in
      andThen (collect (map (segment_of env epochPrefix) (batches chunk records))) (\<lambda>segments.
      andThen (canonicalJson (JArr (map providerNeutralDescriptor segments))) (\<lambda>text.
      let manifest = \<lparr>mf_recordType = ''retention.staging.manifest'', mf_schemaVersion = ''1.0'',
        mf_tenantId = si_tenantId input, mf_epoch = si_epoch input, mf_fromSequence = rec_sequence (hd records),
        mf_fromPreviousHash = previousHash, mf_throughSequence = rec_sequence (last records),
        mf_throughHash = rec_hash (last records), mf_recordCount = int (length records),
        mf_previousCheckpointHash = checkpointHash, mf_archiveRootHash = re_sha (sv_retention env) text,
        mf_segments = segments, mf_manifestKey = manifest_key epochPrefix\<rparr> in
      andThen (validateManifest env (manifest_value manifest) keys) (\<lambda>_. Inr manifest))))))"

definition putExact :: "'p object_client \<Rightarrow> string \<Rightarrow> bytes \<Rightarrow> ('p, unit) action" where
  "putExact client key body =
     thenDo (oc_get client key) (\<lambda>existing.
     case existing of
       Some stored \<Rightarrow> checkThat (stored = body) ''staged epoch object conflict''
     | None \<Rightarrow> oc_put client key body)"

fun put_segments :: "'p object_client \<Rightarrow> audit_record list \<Rightarrow> staging_segment list \<Rightarrow> ('p, unit) action" where
  "put_segments client records [] = pureA ()"
| "put_segments client records (segment # rest) =
     thenDo (liftA (encodeNdjson (take (nat (sg_recordCount segment)) records))) (\<lambda>body.
     thenDo (putExact client (sg_objectKey segment) body) (\<lambda>_.
     put_segments client (drop (nat (sg_recordCount segment)) records) rest))"

definition sealEpoch :: "staging_env \<Rightarrow> 'p object_client \<Rightarrow> string \<Rightarrow> seal_input \<Rightarrow> ('p, staging_manifest) action" where
  "sealEpoch env client keys input =
     thenDo (liftA (deriveEpoch env keys input)) (\<lambda>manifest.
     thenDo (put_segments client (si_records input) (mf_segments manifest)) (\<lambda>_.
     thenDo (liftA (canonicalJson (manifest_value manifest))) (\<lambda>text.
     thenDo (putExact client (mf_manifestKey manifest) (utf8_encode text)) (\<lambda>_.
     pureA manifest))))"

definition assertRecoverableCheckpoint :: "staging_env \<Rightarrow> retention_checkpoint \<Rightarrow> unit throws" where
  "assertRecoverableCheckpoint env checkpoint =
     andThen (verifyRetentionCheckpoint (sv_retention env) (checkpoint_value checkpoint) default_options) (\<lambda>result.
     case result of
       RetFail _ reason _ \<Rightarrow> Inl (TypeError (''invalid retention checkpoint: '' @ reason_text reason))
     | RetOk _ \<Rightarrow> Inr ())"

definition assertManifestCheckpointBinding :: "staging_manifest \<Rightarrow> retention_checkpoint \<Rightarrow> unit throws" where
  "assertManifestCheckpointBinding manifest checkpoint =
     throwUnless (mf_tenantId manifest = cp_tenantId checkpoint \<and> mf_epoch manifest = cp_epoch checkpoint \<and>
        mf_fromSequence manifest = cp_fromSequence checkpoint \<and> mf_fromPreviousHash manifest = cp_fromPreviousHash checkpoint \<and>
        mf_throughSequence manifest = cp_throughSequence checkpoint \<and> mf_throughHash manifest = cp_throughHash checkpoint \<and>
        mf_recordCount manifest = cp_recordCount checkpoint \<and>
        mf_previousCheckpointHash manifest = cp_previousCheckpointHash checkpoint \<and>
        mf_archiveRootHash manifest = cp_archiveRootHash checkpoint)
       (TypeError ''staged epoch manifest checkpoint mismatch'')"

definition recoverEpoch :: "staging_env \<Rightarrow> 'p object_client \<Rightarrow> string \<Rightarrow> retention_checkpoint \<Rightarrow> ('p, staging_manifest option) action" where
  "recoverEpoch env client keys checkpoint =
     thenDo (liftA (assertRecoverableCheckpoint env checkpoint)) (\<lambda>_.
     thenDo (oc_get client (manifest_key (epochKeyPrefix keys (cp_tenantId checkpoint) (cp_epoch checkpoint)))) (\<lambda>manifestBytes.
     case manifestBytes of
       None \<Rightarrow> pureA None
     | Some body \<Rightarrow>
         thenDo (liftA (parseManifest env (utf8_decode (sv_mark env) body) keys)) (\<lambda>parsed.
         thenDo (liftA (assertManifestCheckpointBinding (manifest_of_value parsed) checkpoint)) (\<lambda>_.
         pureA (Some (manifest_of_value parsed))))))"

text \<open>The checks of one segment's records against its descriptor and against the chain.\<close>

definition assertSegmentRecords :: "staging_segment \<Rightarrow> jsval list \<Rightarrow> unit throws" where
  "assertSegmentRecords segment records =
     throwUnless (int (length records) = sg_recordCount segment \<and>
        js_prop (hd records) ''sequence'' = JNum (NInt (sg_fromSequence segment)) \<and>
        js_prop (last records) ''sequence'' = JNum (NInt (sg_toSequence segment)) \<and>
        js_prop (hd records) ''previousHash'' = nullable_json (sg_firstPreviousHash segment) \<and>
        js_prop (last records) ''hash'' = JStr (sg_lastHash segment))
       (TypeError ''staged epoch segment descriptor mismatch'')"

fun check_links :: "int \<Rightarrow> jsval \<Rightarrow> jsval list \<Rightarrow> (int \<times> jsval) throws" where
  "check_links previousSequence previousHash [] = Inr (previousSequence, previousHash)"
| "check_links previousSequence previousHash (record # rest) =
     andThen (throwUnless (js_prop record ''sequence'' = JNum (NInt (previousSequence + 1)) \<and>
          js_prop record ''previousHash'' = previousHash)
        (TypeError ''staged epoch records are not contiguous and hash-linked'')) (\<lambda>_.
     check_links (previousSequence + 1) (js_prop record ''hash'') rest)"

fun verify_segments ::
  "staging_env \<Rightarrow> 'p object_client \<Rightarrow> string \<Rightarrow> int \<Rightarrow> jsval \<Rightarrow> int \<Rightarrow> staging_segment list \<Rightarrow> ('p, int \<times> jsval \<times> int) action" where
  "verify_segments env client tenant previousSequence previousHash recordCount [] = pureA (previousSequence, previousHash, recordCount)"
| "verify_segments env client tenant previousSequence previousHash recordCount (segment # rest) =
     thenDo (oc_get client (sg_objectKey segment)) (\<lambda>body.
     case body of
       None \<Rightarrow> liftA (Inl (TypeError ''staged epoch segment is missing''))
     | Some body \<Rightarrow>
         thenDo (checkThat (re_sha_bytes (sv_retention env) body = sg_contentSha256 segment)
            ''staged epoch segment integrity check failed'') (\<lambda>_.
         thenDo (liftA (parseExactNdjson env body tenant)) (\<lambda>records.
         thenDo (liftA (assertSegmentRecords segment records)) (\<lambda>_.
         thenDo (liftA (check_links previousSequence previousHash records)) (\<lambda>(lastSequence, lastHash).
         verify_segments env client tenant lastSequence lastHash (recordCount + int (length records)) rest)))))"

definition epoch_keys :: "staging_manifest \<Rightarrow> string list" where
  "epoch_keys manifest = map sg_objectKey (mf_segments manifest) @ [mf_manifestKey manifest]"

definition strings_value :: "string list \<Rightarrow> jsval" where
  "strings_value ks = JArr (map JStr ks)"

definition verify_contents ::
  "staging_env \<Rightarrow> 'p object_client \<Rightarrow> string \<Rightarrow> staging_manifest \<Rightarrow> ('p, staging_verification) action" where
  "verify_contents env client keys manifest =
     thenDo (liftA (validateManifest env (manifest_value manifest) keys)) (\<lambda>_.
     thenDo (oc_list client (epochKeyPrefix keys (mf_tenantId manifest) (mf_epoch manifest) @ ''/'')) (\<lambda>listed.
     thenDo (liftA (canonicalJson (strings_value (sort listed)))) (\<lambda>listedText.
     thenDo (liftA (canonicalJson (strings_value (sort (epoch_keys manifest))))) (\<lambda>expectedText.
     thenDo (checkThat (listedText = expectedText) ''staged epoch objects are not exactly present in listing'') (\<lambda>_.
     thenDo (oc_get client (mf_manifestKey manifest)) (\<lambda>manifestBytes.
     case manifestBytes of
       None \<Rightarrow> liftA (Inl (TypeError ''staged epoch manifest integrity check failed''))
     | Some body \<Rightarrow>
         thenDo (liftA (canonicalJson (manifest_value manifest))) (\<lambda>text.
         thenDo (checkThat (body = utf8_encode text) ''staged epoch manifest integrity check failed'') (\<lambda>_.
         thenDo (liftA (parseManifest env (utf8_decode (sv_mark env) body) keys)) (\<lambda>parsed.
         thenDo (liftA (canonicalJson parsed)) (\<lambda>parsedText.
         thenDo (checkThat (parsedText = text) ''staged epoch manifest integrity check failed'') (\<lambda>_.
         thenDo (verify_segments env client (mf_tenantId manifest) (mf_fromSequence manifest - 1)
            (nullable_json (mf_fromPreviousHash manifest)) 0 (mf_segments manifest)) (\<lambda>(lastSequence, lastHash, recordCount).
         thenDo (checkThat (lastSequence = mf_throughSequence manifest \<and> lastHash = JStr (mf_throughHash manifest) \<and>
            recordCount = mf_recordCount manifest) ''staged epoch tip mismatch'') (\<lambda>_.
         pureA (StagingOk (mf_archiveRootHash manifest) (int (length (mf_segments manifest))) recordCount))))))))))))))"

text \<open>\<open>try { ... } catch (error) { if (error instanceof TypeError) return { ok: false, ... }; throw error; }\<close>\<close>

definition report_type_error :: "('p, staging_verification) action \<Rightarrow> ('p, staging_verification) action" where
  "report_type_error m p = (case m p of (Inl (TypeError reason), p') \<Rightarrow> (Inr (StagingFail reason), p') | outcome \<Rightarrow> outcome)"

definition verifyEpoch ::
  "staging_env \<Rightarrow> 'p object_client \<Rightarrow> string \<Rightarrow> staging_manifest \<Rightarrow> ('p, staging_verification) action" where
  "verifyEpoch env client keys manifest = report_type_error (verify_contents env client keys manifest)"

fun delete_all :: "'p object_client \<Rightarrow> string list \<Rightarrow> ('p, unit) action" where
  "delete_all client [] = pureA ()"
| "delete_all client (k # ks) = thenDo (oc_delete client k) (\<lambda>_. delete_all client ks)"

definition deleteEpoch :: "staging_env \<Rightarrow> 'p object_client \<Rightarrow> string \<Rightarrow> staging_manifest \<Rightarrow> ('p, unit) action" where
  "deleteEpoch env client keys manifest =
     thenDo (liftA (validateManifest env (manifest_value manifest) keys)) (\<lambda>_.
     thenDo (delete_all client (map sg_objectKey (mf_segments manifest))) (\<lambda>_.
     oc_delete client (mf_manifestKey manifest)))"

fun reads_absent :: "'p object_client \<Rightarrow> bool \<Rightarrow> string list \<Rightarrow> ('p, bool) action" where
  "reads_absent client absent [] = pureA absent"
| "reads_absent client absent (k # ks) =
     thenDo (oc_get client k) (\<lambda>body. reads_absent client (if body \<noteq> None then False else absent) ks)"

definition confirmEpochAbsent :: "staging_env \<Rightarrow> 'p object_client \<Rightarrow> string \<Rightarrow> staging_manifest \<Rightarrow> ('p, bool) action" where
  "confirmEpochAbsent env client keys manifest =
     thenDo (liftA (validateManifest env (manifest_value manifest) keys)) (\<lambda>_.
     thenDo (reads_absent client True (epoch_keys manifest)) (\<lambda>directReadsAbsent.
     thenDo (oc_list client (epochKeyPrefix keys (mf_tenantId manifest) (mf_epoch manifest) @ ''/'')) (\<lambda>listed.
     pureA (directReadsAbsent \<and> listed = []))))"

definition confirmCheckpointEpochAbsent ::
  "staging_env \<Rightarrow> 'p object_client \<Rightarrow> string \<Rightarrow> retention_checkpoint \<Rightarrow> ('p, bool) action" where
  "confirmCheckpointEpochAbsent env client keys checkpoint =
     (let epochPrefix = epochKeyPrefix keys (cp_tenantId checkpoint) (cp_epoch checkpoint) in
      thenDo (liftA (assertRecoverableCheckpoint env checkpoint)) (\<lambda>_.
      thenDo (oc_get client (manifest_key epochPrefix)) (\<lambda>manifestBytes.
      thenDo (oc_list client (epochPrefix @ ''/'')) (\<lambda>listed.
      pureA (manifestBytes = None \<and> listed = [])))))"

definition createRetentionStagingArchive ::
  "staging_env \<Rightarrow> 'p object_client \<Rightarrow> string option \<Rightarrow> 'p staging_archive throws" where
  "createRetentionStagingArchive env client keys =
     andThen (validatePrefix (case keys of None \<Rightarrow> DEFAULT_PREFIX | Some k \<Rightarrow> k)) (\<lambda>keys.
     Inr \<lparr>ar_deriveEpoch = deriveEpoch env keys, ar_sealEpoch = sealEpoch env client keys,
       ar_recoverEpoch = recoverEpoch env client keys, ar_verifyEpoch = verifyEpoch env client keys,
       ar_deleteEpoch = deleteEpoch env client keys, ar_confirmEpochAbsent = confirmEpochAbsent env client keys,
       ar_confirmCheckpointEpochAbsent = confirmCheckpointEpochAbsent env client keys\<rparr>)"

end
