(* ===== verification/StagingText.thy ===== *)
theory StagingText
  imports StagingArchive
begin

text \<open>
  The texts, batches and keys of the staging archive: encoding and decoding are inverse, a JSON text
  is one line, the loop over batches ends and cuts the records into nonempty batches, and the keys
  of different epochs and segments are different.
\<close>

section \<open>Bytes of a text\<close>

lemma code_unit_char_of [simp]: "code_unit (char_of (n :: nat)) = n mod 256"
  by (simp add: code_unit_def)

lemma code_unit_bound: "code_unit c < 256"
  by (simp add: code_unit_def)

lemma utf8_units_pair:
  "code_unit b \<in> {194, 195} \<Longrightarrow> is_continuation b' \<Longrightarrow>
    utf8_units mark (b # b' # rest) = char_of (64 * (code_unit b - 192) + (code_unit b' - 128)) # utf8_units mark rest"
  by auto

lemma utf8_units_char: "utf8_units mark (utf8_char c @ rest) = c # utf8_units mark rest"
proof (cases "code_unit c < 128")
  case False
  define q r where "q = code_unit c div 64" and "r = code_unit c mod 64"
  have u: "q = 2 \<or> q = 3" "r < 64" "64 * q + r = code_unit c"
    using False code_unit_bound [of c] by (auto simp: q_def r_def)
  have b: "code_unit (char_of (192 + q)) = 192 + q" "code_unit (char_of (128 + r)) = 128 + r" using u(1,2) by auto
  have "utf8_units mark (char_of (192 + q) # char_of (128 + r) # rest) = char_of (64 * q + r) # utf8_units mark rest"
    using utf8_units_pair [of "char_of (192 + q)" "char_of (128 + r)" mark rest] u(1,2) unfolding b is_continuation_def by auto
  then show ?thesis using False u(3) char_of_code_unit [of c] by (simp add: utf8_char_def q_def r_def)
qed (simp add: utf8_char_def)

lemma utf8_encode_Cons: "utf8_encode (c # s) = utf8_char c @ utf8_encode s"
  by (simp add: utf8_encode_def)

lemma utf8_units_encode: "utf8_units mark (utf8_encode s) = s"
  by (induction s) (simp_all add: utf8_encode_Cons utf8_units_char, simp add: utf8_encode_def)

lemma utf8_no_mark: "\<not> prefix BYTE_ORDER_MARK (utf8_encode s)"
proof (cases s)
  case (Cons c r)
  have "hd (utf8_char c) \<noteq> CHR 0xEF" 
  proof (cases "code_unit c < 128")
    case True then show ?thesis by (auto simp: utf8_char_def code_unit_def)
  next
    case False
    have "code_unit (char_of (192 + code_unit c div 64)) \<noteq> code_unit (CHR 0xEF)"
      using code_unit_bound [of c] by (simp add: code_unit_def [of "CHR 0xEF"])
    then have "char_of (192 + code_unit c div 64) \<noteq> CHR 0xEF" by metis
    with False show ?thesis by (simp add: utf8_char_def)
  qed
  with Cons show ?thesis by (auto simp: utf8_encode_Cons BYTE_ORDER_MARK_def utf8_char_def prefix_def split: if_splits)
qed (simp add: utf8_encode_def BYTE_ORDER_MARK_def)

lemma utf8_round_trip [simp]: "utf8_decode mark (utf8_encode s) = s"
  by (simp add: utf8_decode_def utf8_no_mark utf8_units_encode)

lemma utf8_encode_inject [simp]: "utf8_encode s = utf8_encode t \<longleftrightarrow> s = t"
  using utf8_round_trip by metis

section \<open>Lines\<close>

text \<open>A JSON text has no control characters.\<close>

definition plain :: "char \<Rightarrow> bool" where
  "plain c \<longleftrightarrow> 32 \<le> code_unit c"

lemma plain_literals: "list_all plain (''\"'')" "list_all plain ''null''" "list_all plain ''true''" "list_all plain ''false''" "list_all plain ''[]{},:u0bntfr''"
  "plain DQ" "plain BS"
  by (simp_all add: plain_def code_unit_def DQ_def BS_def)

lemma quote_char_plain: "list_all plain (quote_char c)"
proof -
  have h: "plain (hex_char (n mod 16))" for n by (auto simp: hex_char_def plain_def)
  have "code_unit c div 16 = code_unit c div 16 mod 16" using code_unit_bound [of c] by simp
  with h [of "code_unit c div 16"] h [of "code_unit c"] plain_literals show ?thesis
    by (auto simp: quote_char_def) (simp_all add: plain_def)
qed

lemma quote_string_plain: "list_all plain (quote_string s)"
  using quote_char_plain plain_literals by (auto simp: quote_string_def list_all_iff)

lemma number_plain: "list_all is_number_char s \<Longrightarrow> list_all plain s"
  using is_literal_code_unit number_literal_chars by (fastforce simp: list_all_iff plain_def)

lemma join_plain: "list_all (list_all P) xs \<Longrightarrow> list_all P sep \<Longrightarrow> list_all P (join sep xs)"
  by (induction xs) (auto simp: join_Cons)

lemma stringify_plain:
  shows "writable f v \<Longrightarrow> list_all plain (stringify v)"
    and "writable_elems f vs \<Longrightarrow> list_all (list_all plain) (stringify_elems vs)"
    and "writable_members f kvs \<Longrightarrow> list_all (list_all plain) (stringify_members kvs)"
proof (induction v and vs and kvs rule: stringify_stringify_elems_stringify_members.induct)
qed (use plain_literals in \<open>auto simp: quote_string_plain number_plain join_plain\<close>)

lemma split_on_Cons_ne: "split_on d s \<noteq> []"
  by (induction s) (auto split: list.splits)

lemma split_on_no: "d \<notin> set s \<Longrightarrow> split_on d s = [s]"
  by (induction s) auto

lemma split_on_append: "d \<notin> set s \<Longrightarrow> split_on d (s @ d # r) = s # split_on d r"
proof (induction s)
  case (Cons c s)
  then show ?case by (auto split: list.splits)
qed simp

lemma split_join_lines: "xs \<noteq> [] \<Longrightarrow> \<forall>x \<in> set xs. d \<notin> set x \<Longrightarrow> split_on d (join [d] xs) = xs"
proof (induction xs)
  case (Cons x xs)
  then show ?case by (cases "xs = []") (auto simp: join_Cons split_on_no split_on_append)
qed simp

lemma join_split_lines: "join [d] (split_on d s) = s"
  using split_on_Cons_ne by (induction s) (auto simp: join_Cons split: list.splits)

section \<open>Batches\<close>

lemma batches_Nil [simp]: "batches chunk [] = []"
  by (simp add: batches.simps)

lemma batches_Cons:
  "0 < chunk \<Longrightarrow> xs \<noteq> [] \<Longrightarrow> batches chunk xs = take chunk xs # batches chunk (drop chunk xs)"
  by (subst batches.simps) simp

lemma batches_facts:
  assumes "0 < chunk"
  shows "concat (batches chunk xs) = xs" "b \<in> set (batches chunk xs) \<Longrightarrow> b \<noteq> [] \<and> length b \<le> chunk"
  using assms by (induction chunk xs rule: batches.induct) (case_tac "records = []"; auto simp: batches_Cons)+

lemma batches_from_Some:
  assumes "0 < chunk"
  shows "batches_from chunk xs offset = Some (batches chunk (drop offset xs))"
proof (induction "length xs - offset" arbitrary: offset rule: less_induct)
  case less
  show ?case
  proof (cases "offset < length xs")
    case True
    then have "length xs - (offset + chunk) < length xs - offset" using assms by simp
    from less [OF this] have "batches_from chunk xs (offset + chunk) = Some (batches chunk (drop chunk (drop offset xs)))"
      by (simp only: drop_drop add.commute)
    then have "batches_from chunk xs offset = Some (take chunk (drop offset xs) # batches chunk (drop chunk (drop offset xs)))"
      by (subst batches_from.simps) (simp only: True if_True Option.bind.simps)
    also have "\<dots> = Some (batches chunk (drop offset xs))"
      by (subst (2) batches.simps) (use True assms in simp)
    finally show ?thesis .
  next
    case False
    then show ?thesis by (subst batches_from.simps, subst batches.simps) simp
  qed
qed

lemma batches_from_stuck: "batches_from 0 xs offset = None \<longleftrightarrow> offset < length xs"
proof -
  have "chunk = 0 \<longrightarrow> \<not> off < length ys" if "batches_from chunk ys off = Some r" for chunk and ys :: "'a list" and off r
    by (rule batches_from.raw_induct [where P = "\<lambda>chunk ys off r. chunk = 0 \<longrightarrow> \<not> off < length ys", OF _ that])
      (fastforce split: if_splits bind_splits)
  then have "offset < length xs \<Longrightarrow> batches_from 0 xs offset = None" by (cases "batches_from 0 xs offset") auto
  moreover have "batches_from 0 xs offset \<noteq> None" if "\<not> offset < length xs"
    by (subst batches_from.simps) (use that in simp)
  ultimately show ?thesis by blast
qed

section \<open>Keys\<close>

lemma nat_of_digits_zeros: "nat_of_digits (replicate k (CHR ''0'') @ s) = nat_of_digits s"
proof (induction s rule: rev_induct)
  case Nil
  show ?case by (induction k) (simp_all add: nat_of_digits_def code_unit_def)
next
  case (snoc c s)
  then show ?case by (simp flip: append_assoc)
qed

lemma padSequence_inject: "0 \<le> i \<Longrightarrow> 0 \<le> j \<Longrightarrow> padSequence i = padSequence j \<longleftrightarrow> i = j"
proof
  assume "0 \<le> i" "0 \<le> j" "padSequence i = padSequence j"
  then have "nat_of_digits (padSequence i) = nat_of_digits (padSequence j)" by simp
  with \<open>0 \<le> i\<close> \<open>0 \<le> j\<close> show "i = j" by (simp add: padSequence_def nat_of_digits_zeros show_int_def)
qed simp

lemma padSequence_digits: "0 \<le> i \<Longrightarrow> list_all is_digit (padSequence i)"
  using show_nat_digits by (auto simp: padSequence_def show_int_def list_all_iff is_digit_def)

lemma encode_Nil [simp]: "encodeURIComponent [] = []"
  by (simp add: encodeURIComponent_def)

lemma percent_colon: "concat (map percent_byte (utf8_char (CHR '':''))) = ''%3A''"
  by code_simp

lemma encode_id_Cons:
  assumes "is_id_char c"
  shows "encodeURIComponent (c # s) = (if c = CHR '':'' then ''%3A'' else [c]) @ encodeURIComponent s"
proof (cases "c = CHR '':''")
  case True
  have "\<not> uri_unreserved (CHR '':'')"
    by (simp add: uri_unreserved_def is_digit_def is_upper_def is_lower_def less_eq_char_def)
  with True show ?thesis by (simp add: encodeURIComponent_def percent_colon)
next
  case False
  with assms have "uri_unreserved c" by (auto simp: uri_unreserved_def is_id_char_def)
  with False show ?thesis by (simp add: encodeURIComponent_def)
qed

lemma encode_id_no_slash: "list_all is_id_char s \<Longrightarrow> CHR ''/'' \<notin> set (encodeURIComponent s)"
proof (induction s)
  case (Cons c s)
  moreover have "\<not> is_id_char (CHR ''/'')" by (simp add: is_id_char_def is_digit_def is_upper_def is_lower_def less_eq_char_def)
  ultimately show ?case by (auto simp: encode_id_Cons)
qed simp

lemma encode_id_inject:
  "list_all is_id_char s \<Longrightarrow> list_all is_id_char t \<Longrightarrow> encodeURIComponent s = encodeURIComponent t \<longleftrightarrow> s = t"
proof (induction s arbitrary: t)
  case Nil
  then show ?case by (cases t) (auto simp: encode_id_Cons)
next
  case (Cons c s)
  have p: "\<not> is_id_char (CHR ''%'')" by (simp add: is_id_char_def is_digit_def is_upper_def is_lower_def less_eq_char_def)
  show ?case
  proof (cases t)
    case Nil
    with Cons.prems show ?thesis by (simp add: encode_id_Cons)
  next
    case (Cons d r)
    then show ?thesis using Cons.prems Cons.IH [of r] p by (auto simp: encode_id_Cons split: if_splits)
  qed
qed

text \<open>The keys of an epoch lie below its prefix, and no key lies below the prefixes of two epochs.\<close>

lemma epoch_prefix_inject:
  assumes "list_all is_id_char t" "list_all is_id_char t'" "0 \<le> e" "0 \<le> e'"
    and "epochKeyPrefix keys t e @ ''/'' @ x = epochKeyPrefix keys t' e' @ ''/'' @ y"
  shows "t = t' \<and> e = e' \<and> x = y"
proof -
  have no: "CHR ''/'' \<notin> set (padSequence i)" if "0 \<le> i" for i
    using padSequence_digits [OF that] by (auto simp: list_all_iff is_digit_def less_eq_char_def)
  have 1: "encodeURIComponent t @ CHR ''/'' # ''audit/epoch-'' @ padSequence e @ ''/'' @ x =
      encodeURIComponent t' @ CHR ''/'' # ''audit/epoch-'' @ padSequence e' @ ''/'' @ y"
    using assms(5) by (simp add: epochKeyPrefix_def)
  from separator_unique [OF this] encode_id_no_slash assms(1,2)
  have t: "encodeURIComponent t = encodeURIComponent t'" and r: "padSequence e @ CHR ''/'' # x = padSequence e' @ CHR ''/'' # y" by auto
  from separator_unique [OF r] no assms(3,4) have "padSequence e = padSequence e'" "x = y" by auto
  with t assms(1-4) show ?thesis by (simp add: encode_id_inject padSequence_inject)
qed

lemma segment_key_inject:
  assumes "0 \<le> a" "0 \<le> b" "0 \<le> c" "0 \<le> d"
  shows "segment_key p a b = segment_key p c d \<longleftrightarrow> a = c \<and> b = d"
proof
  have no: "CHR ''-'' \<notin> set (padSequence i)" "CHR ''.'' \<notin> set (padSequence i)" if "0 \<le> i" for i
    using padSequence_digits [OF that] by (auto simp: list_all_iff is_digit_def less_eq_char_def)
  assume "segment_key p a b = segment_key p c d"
  then have "padSequence a @ CHR ''-'' # padSequence b @ CHR ''.'' # ''ndjson'' = padSequence c @ CHR ''-'' # padSequence d @ CHR ''.'' # ''ndjson''"
    by (simp add: segment_key_def)
  from separator_unique [OF this] no assms have ac: "padSequence a = padSequence c"
    and "padSequence b @ CHR ''.'' # ''ndjson'' = padSequence d @ CHR ''.'' # ''ndjson''" by auto
  with assms show "a = c \<and> b = d" by (simp add: padSequence_inject)
qed simp

lemma manifest_not_segment: "0 \<le> a \<Longrightarrow> manifest_key p \<noteq> segment_key p a b"
proof
  assume a: "0 \<le> a" and eq: "manifest_key p = segment_key p a b"
  obtain c r where c: "padSequence a = c # r" by (cases "padSequence a") (auto simp: padSequence_def SEQUENCE_PAD_def)
  with padSequence_digits [OF a] have "is_digit c" by simp
  moreover from eq c have "c = CHR ''m''" by (simp add: manifest_key_def segment_key_def)
  ultimately show False by (simp add: is_digit_def less_eq_char_def)
qed
end
