(* ===== verification/StagingRecords.thy ===== *)
theory StagingRecords
  imports StagingText
begin

text \<open>
  Manifests and records of the staging archive as their bytes: the canonical text of a value is parsed
  to its normal form, a validated manifest is read back from its bytes with the same members, and the
  lines of a checked batch of records are accepted by \<open>parseExactNdjson\<close> and linked. What the guard of
  a manifest has accepted is \<open>validated_manifest\<close>.
\<close>

section \<open>Normal forms of manifests\<close>

text \<open>Objects with the same members in another order.\<close>

definition same_object :: "jsval \<Rightarrow> jsval \<Rightarrow> bool" where
  "same_object a b \<longleftrightarrow> isPlainObject a = isPlainObject b \<and> length (own_keys a) = length (own_keys b) \<and>
     set (own_keys a) = set (own_keys b) \<and> (\<forall>k. js_prop a k = js_prop b k)"

definition defined_members :: "(string \<times> jsval) list \<Rightarrow> bool" where
  "defined_members kvs \<longleftrightarrow> distinct (map fst kvs) \<and> proto_key \<notin> fst ` set kvs \<and> wf_members kvs \<and>
     (\<forall>kv \<in> set kvs. \<exists>x. normalizeForJson (snd kv) = Inr x \<and> x \<noteq> JUndefined)"

lemma normal_members:
  assumes "defined_members kvs"
  shows "\<exists>ms. normalizeForJson (JObj kvs) = Inr (JObj ms) \<and> distinct (map fst ms) \<and> set (map fst ms) = set (map fst kvs) \<and>
    (\<forall>k. normalizeForJson (get_prop kvs k) = Inr (get_prop ms k))"
proof -
  note d = assms [unfolded defined_members_def]
  from normalize_object_total [of kvs] d obtain w where w: "normalizeForJson (JObj kvs) = Inr w" by blast
  then obtain kws where kws: "member_results normalizeForJson (sort_key fst kvs) kws"
    and ms: "w = JObj (assign_all (filter (\<lambda>kw. snd kw \<noteq> JUndefined) kws))"
    unfolding normalize_object_iff by blast
  have def_: "snd kw \<noteq> JUndefined" if kw: "kw \<in> set kws" for kw
    using member_results_set [OF kws that] d by fastforce
  have keys: "map fst kws = map fst (sort_key fst kvs)" by (rule member_results_keys [OF kws])
  then have sk: "set (map fst kws) = set (map fst kvs)" by simp
  have dk: "distinct (map fst kws)" using keys d by (simp add: distinct_map inj_on_def)
  have f: "filter (\<lambda>kw. snd kw \<noteq> JUndefined) kws = kws" using def_ by (simp add: filter_id_conv)
  have np: "proto_key \<notin> fst ` set kws" using sk d by simp
  then have "{kv \<in> set kws. fst kv \<noteq> proto_key} = set kws" by force
  then have sa: "set (map fst (assign_all kws)) = set (map fst kws)" by (simp add: set_assign_all)
  show ?thesis
  proof (intro exI conjI allI)
    show "normalizeForJson (JObj kvs) = Inr (JObj (assign_all kws))" using w ms f by simp
    show "distinct (map fst (assign_all kws))" using dk by (rule distinct_assign_all)
    show "set (map fst (assign_all kws)) = set (map fst kvs)" using sa sk by simp
    fix k
    show "normalizeForJson (get_prop kvs k) = Inr (get_prop (assign_all kws) k)"
    proof (cases "k = proto_key")
      case True
      with d np sa have "map_of kvs k = None" "map_of (assign_all kws) k = None" by (auto simp: map_of_eq_None_iff)
      then show ?thesis by (simp add: get_prop_def normalizeForJson.simps(1))
    next
      case False
      with object_member [OF _ _ False] d w ms f show ?thesis by metis
    qed
  qed
qed

definition flat_members :: "(string \<times> jsval) list \<Rightarrow> bool" where
  "flat_members kvs \<longleftrightarrow> distinct (map fst kvs) \<and> proto_key \<notin> fst ` set kvs \<and>
     (\<forall>kv \<in> set kvs. normalizeForJson (snd kv) = Inr (snd kv) \<and> snd kv \<noteq> JUndefined \<and> wf_value (snd kv))"

lemma flat_defined: "flat_members kvs \<Longrightarrow> defined_members kvs"
  by (auto simp: flat_members_def defined_members_def wf_members_iff)

lemma flat_normal:
  assumes "flat_members kvs"
  obtains ms where "normalizeForJson (JObj kvs) = Inr (JObj ms)" "same_object (JObj kvs) (JObj ms)"
proof -
  from normal_members [OF flat_defined [OF assms]] obtain ms where ms: "normalizeForJson (JObj kvs) = Inr (JObj ms)"
    "distinct (map fst ms)" "set (map fst ms) = set (map fst kvs)" "\<forall>k. normalizeForJson (get_prop kvs k) = Inr (get_prop ms k)" by blast
  have "normalizeForJson (get_prop kvs k) = Inr (get_prop kvs k)" for k
  proof (cases "map_of kvs k")
    case None
    then show ?thesis by (simp add: get_prop_def normalizeForJson.simps(1))
  next
    case (Some v)
    then have "(k, v) \<in> set kvs" by (rule map_of_SomeD)
    with assms Some show ?thesis by (force simp: flat_members_def get_prop_def)
  qed
  then have "get_prop kvs k = get_prop ms k" for k using ms(4) by (metis sum.inject(2))
  moreover have "length ms = length kvs"
    using ms(2,3) assms distinct_card [of "map fst ms"] distinct_card [of "map fst kvs"] by (simp add: flat_members_def)
  ultimately have "same_object (JObj kvs) (JObj ms)" using ms(3) by (simp add: same_object_def isPlainObject_def own_keys_def js_prop_def)
  with ms(1) that show thesis by blast
qed

lemma nullable_normal [simp]: "normalizeForJson (nullable_json v) = Inr (nullable_json v)" "nullable_json v \<noteq> JUndefined"
  "wf_value (nullable_json v)"
  by (cases v; simp add: nullable_json_def)+

lemma segment_value_flat: "\<exists>kvs. segment_value s = JObj kvs \<and> flat_members kvs"
  by (auto simp: segment_value_def flat_members_def proto_key_def normalizeForJson.simps is_finite_number_def)

text \<open>The guards read members only.\<close>

lemma same_object_exact: "same_object a b \<Longrightarrow> hasExactKeys a ks = hasExactKeys b ks"
  by (simp add: same_object_def hasExactKeys_def list_all_iff)

lemma same_int_prop: "same_object a b \<Longrightarrow> int_prop a k = int_prop b k"
  by (simp add: same_object_def int_prop_def)

lemma same_neutral: "same_object a b \<Longrightarrow> neutral_value a = neutral_value b"
  by (simp add: same_object_def neutral_value_def pick_def)

lemma check_segments_same:
  "list_all2 same_object vs ws \<Longrightarrow> check_segments ep sequence h n vs = check_segments ep sequence h n ws"
proof (induction vs ws arbitrary: sequence h n rule: list_all2_induct)
  case (Cons v vs w ws)
  have p: "js_prop v k = js_prop w k" "int_prop v k = int_prop w k" "isPlainObject v = isPlainObject w" for k
    using Cons(1) same_int_prop by (auto simp: same_object_def)
  show ?case unfolding check_segments.simps p same_object_exact [OF Cons(1)] Cons.IH ..
qed simp

text \<open>The members of a manifest, and what \<open>validateManifest\<close> has read of one.\<close>

definition same_manifest :: "jsval \<Rightarrow> jsval \<Rightarrow> bool" where
  "same_manifest a b \<longleftrightarrow> isPlainObject a = isPlainObject b \<and> length (own_keys a) = length (own_keys b) \<and>
     set (own_keys a) = set (own_keys b) \<and> (\<forall>k. k \<noteq> ''segments'' \<longrightarrow> js_prop a k = js_prop b k) \<and>
     (\<exists>vs ws. js_prop a ''segments'' = JArr vs \<and> js_prop b ''segments'' = JArr ws \<and> list_all2 same_object vs ws)"

lemma validateManifest_same:
  assumes "same_manifest a b"
  shows "validateManifest env a keys = validateManifest env b keys"
proof -
  obtain vs ws where s: "js_prop a ''segments'' = JArr vs" "js_prop b ''segments'' = JArr ws" "list_all2 same_object vs ws"
    using assms by (auto simp: same_manifest_def)
  have p: "js_prop a k = js_prop b k" "int_prop a k = int_prop b k" "str_prop a k = str_prop b k" if "k \<noteq> ''segments''" for k
    using assms that by (simp_all add: same_manifest_def int_prop_def str_prop_def)
  have x: "isPlainObject a = isPlainObject b" "hasExactKeys a MANIFEST_KEYS = hasExactKeys b MANIFEST_KEYS"
    using assms by (simp_all add: same_manifest_def hasExactKeys_def list_all_iff)
  have a: "arr_prop a ''segments'' = vs" "arr_prop b ''segments'' = ws" using s by (simp_all add: arr_prop_def)
  have e: "(case js_prop a ''segments'' of JArr vs \<Rightarrow> vs \<noteq> [] | _ \<Rightarrow> False) = (case js_prop b ''segments'' of JArr vs \<Rightarrow> vs \<noteq> [] | _ \<Rightarrow> False)"
    using s by auto
  have n: "map neutral_value vs = map neutral_value ws" using s(3) same_neutral by (induction rule: list_all2_induct) auto
  show ?thesis
    unfolding validateManifest_def x e a n check_segments_same [OF s(3)]
    by (simp only: p list.inject char.inject simp_thms not_Cons_self2)
qed

section \<open>Normal forms read back\<close>

text \<open>Values whose numbers the text denotes.\<close>

fun readable :: "(string \<Rightarrow> jsnumber) \<Rightarrow> jsval \<Rightarrow> bool"
  and readable_elems :: "(string \<Rightarrow> jsnumber) \<Rightarrow> jsval list \<Rightarrow> bool"
  and readable_members :: "(string \<Rightarrow> jsnumber) \<Rightarrow> (string \<times> jsval) list \<Rightarrow> bool" where
  "readable f (JNum n) = writable f (JNum n)"
| "readable f (JArr vs) = readable_elems f vs"
| "readable f (JObj kvs) = readable_members f kvs"
| "readable f v = True"
| "readable_elems f [] = True"
| "readable_elems f (v # vs) = (readable f v \<and> readable_elems f vs)"
| "readable_members f [] = True"
| "readable_members f ((k, v) # kvs) = (readable f v \<and> readable_members f kvs)"

lemma readable_elems_iff: "readable_elems f vs \<longleftrightarrow> (\<forall>v \<in> set vs. readable f v)"
  by (induction vs) auto

lemma readable_members_iff: "readable_members f kvs \<longleftrightarrow> (\<forall>kv \<in> set kvs. readable f (snd kv))"
  by (induction kvs) auto

lemma own_key_order_again: "own_key_order (own_key_order kvs) = own_key_order kvs"
proof -
  let ?i = "\<lambda>kv. is_array_index (fst kv)"
  have "filter ?i (own_key_order kvs) = sort_key (\<lambda>kv. nat_of_digits (fst kv)) (filter ?i kvs)"
    by (simp add: own_key_order_def filter_sort [symmetric])
  moreover have "filter (\<lambda>kv. \<not> ?i kv) (own_key_order kvs) = filter (\<lambda>kv. \<not> ?i kv) kvs"
    by (simp add: own_key_order_def filter_sort [symmetric])
  ultimately show ?thesis unfolding own_key_order_def [of "own_key_order kvs"]
    by (simp add: own_key_order_def [of kvs] sort_key_id_if_sorted)
qed

lemma normal_writable:
  assumes "wf_value v" "readable f v" "normalizeForJson v = Inr w" "w \<noteq> JUndefined"
  shows "writable f w"
  using assms
proof (induction v arbitrary: w rule: jsval_induct)
  case (Num n)
  then show ?case by (auto split: if_splits)
next
  case (Arr vs)
  from Arr.prems(3) obtain ws where ws: "list_all2 (\<lambda>v x. normalizeForJson v = Inr x) vs ws"
    and w: "w = JArr (map null_if_undefined ws)" unfolding normalize_array_iff by blast
  have "writable f (null_if_undefined x)" if "x \<in> set ws" for x
  proof -
    from list_all2_source [OF ws that] obtain v where "v \<in> set vs" "normalizeForJson v = Inr x" by blast
    with Arr.IH [of v x] Arr.prems(1,2) show ?thesis
      by (auto simp: null_if_undefined_def wf_elems_iff readable_elems_iff)
  qed
  with w show ?case by (simp add: writable_elems_iff)
next
  case (Obj kvs)
  from Obj.prems(3) obtain kws where kws: "member_results normalizeForJson (sort_key fst kvs) kws"
    and w: "w = JObj (assign_all (filter (\<lambda>kw. snd kw \<noteq> JUndefined) kws))"
    unfolding normalize_object_iff by blast
  from member_results_keys [OF kws] Obj.prems(1) have "distinct (map fst kws)"
    by (simp add: distinct_map inj_on_def)
  then have "distinct (map fst (assign_all (filter (\<lambda>kw. snd kw \<noteq> JUndefined) kws)))"
    by (simp add: distinct_assign_all distinct_map_filter)
  moreover have "writable f (snd kw)" if "kw \<in> set kws" "snd kw \<noteq> JUndefined" for kw
  proof -
    from member_results_set [OF kws that(1)] obtain v where "(fst kw, v) \<in> set kvs" "normalizeForJson v = Inr (snd kw)"
      by auto
    moreover then have "wf_value v" "readable f v" using Obj.prems(1,2) by (force simp: wf_members_iff readable_members_iff)+
    ultimately show ?thesis using Obj.IH that(2) by blast
  qed
  ultimately show ?case using w
    by (auto simp: writable_members_iff set_assign_all) (simp add: assign_all_def own_key_order_again)
qed (auto simp: andThen_Inr_iff)

text \<open>The canonical text of a value is parsed to its normal form, which has the same canonical text.\<close>

lemma canonical_read_back:
  assumes "wf_value v" "readable f v" "canonicalJson v = Inr t"
  obtains w where "normalizeForJson v = Inr w" "w \<noteq> JUndefined" "writable f w" "t = stringify w"
    "json_parse f t = Inr w" "canonicalJson w = Inr t"
proof -
  from assms(3) obtain w where w: "normalizeForJson v = Inr w" "w \<noteq> JUndefined" "t = stringify w"
    by (rule canonicalJson_InrE)
  from normal_writable [OF assms(1,2) w(1,2)] have wr: "writable f w" .
  moreover have "canonicalJson w = Inr t"
    using normalize_idempotent [OF assms(1) w(1)] w(2,3) by (simp add: canonicalJson_def)
  ultimately show thesis using that w json_parse_stringify [OF wr] by blast
qed

lemma filter_sort_key_fst: "filter (\<lambda>kv. P (fst kv)) (sort_key g xs) = sort_key g (filter (\<lambda>kv. P (fst kv)) xs)"
  by (simp add: filter_sort)

lemma filter_own_key_order: "filter (\<lambda>kv. P (fst kv)) (own_key_order kvs) = own_key_order (filter (\<lambda>kv. P (fst kv)) kvs)"
  by (simp add: own_key_order_def filter_sort conj_commute)

text \<open>Dropping members commutes with the normal form.\<close>

lemma normal_filter:
  assumes "normalizeForJson (JObj kvs) = Inr (JObj ms)" "distinct (map fst kvs)"
  shows "normalizeForJson (JObj (filter (\<lambda>kv. P (fst kv)) kvs)) = Inr (JObj (filter (\<lambda>kv. P (fst kv)) ms))"
proof -
  let ?P = "\<lambda>kv :: string \<times> jsval. P (fst kv)"
  from assms(1) obtain kws where kws: "member_results normalizeForJson (sort_key fst kvs) kws"
    and ms: "ms = assign_all (filter (\<lambda>kw. snd kw \<noteq> JUndefined) kws)"
    unfolding normalize_object_iff by blast
  have "member_results normalizeForJson (filter ?P (sort_key fst kvs)) (filter ?P kws)"
    using kws unfolding member_results_def by (induction rule: list_all2_induct) auto
  moreover have "filter ?P ms = assign_all (filter (\<lambda>kw. snd kw \<noteq> JUndefined) (filter ?P kws))"
    unfolding ms assign_all_def filter_own_key_order by (simp add: conj_commute conj_left_commute)
  ultimately show ?thesis unfolding normalize_object_iff by (auto simp: filter_sort)
qed

section \<open>Manifests read back\<close>

lemma map_normal:
  assumes "\<And>x. x \<in> set xs \<Longrightarrow> \<exists>w. normalizeForJson (g x) = Inr w \<and> w \<noteq> JUndefined \<and> same_object (g x) w"
  shows "\<exists>ws. normalizeForJson (JArr (map g xs)) = Inr (JArr ws) \<and> list_all2 same_object (map g xs) ws"
proof -
  from assms have "\<forall>x \<in> set xs. \<exists>w. normalizeForJson (g x) = Inr w \<and> w \<noteq> JUndefined \<and> same_object (g x) w" by blast
  from bchoice [OF this] obtain h where h: "\<forall>x \<in> set xs. normalizeForJson (g x) = Inr (h x) \<and> h x \<noteq> JUndefined \<and> same_object (g x) (h x)" ..
  then have "list_all2 (\<lambda>v x. normalizeForJson v = Inr x) (map g xs) (map h xs)"
    and "list_all2 same_object (map g xs) (map h xs)"
    by (auto simp: list.rel_map list_all2_same)
  moreover have "map null_if_undefined (map h xs) = map h xs" using h by (auto simp: null_if_undefined_def)
  ultimately show ?thesis unfolding normalize_array_iff by metis
qed

lemma segment_value_normal: "\<exists>w. normalizeForJson (segment_value s) = Inr w \<and> w \<noteq> JUndefined \<and> same_object (segment_value s) w"
proof -
  obtain kvs where k: "segment_value s = JObj kvs" "flat_members kvs" using segment_value_flat by blast
  from flat_normal [OF k(2)] obtain ms where "normalizeForJson (JObj kvs) = Inr (JObj ms)" "same_object (JObj kvs) (JObj ms)" .
  with k(1) show ?thesis by (intro exI [of _ "JObj ms"]) simp
qed

lemma segment_value_props [simp]:
  "js_prop (segment_value s) ''fromSequence'' = JNum (NInt (sg_fromSequence s))"
  "js_prop (segment_value s) ''toSequence'' = JNum (NInt (sg_toSequence s))"
  "js_prop (segment_value s) ''recordCount'' = JNum (NInt (sg_recordCount s))"
  "js_prop (segment_value s) ''firstPreviousHash'' = nullable_json (sg_firstPreviousHash s)"
  "js_prop (segment_value s) ''lastHash'' = JStr (sg_lastHash s)"
  "js_prop (segment_value s) ''contentSha256'' = JStr (sg_contentSha256 s)"
  "js_prop (segment_value s) ''objectKey'' = JStr (sg_objectKey s)"
  by (simp_all add: segment_value_def js_prop_def get_prop_def)

lemma manifest_value_props [simp]:
  "js_prop (manifest_value m) ''recordType'' = JStr (mf_recordType m)"
  "js_prop (manifest_value m) ''schemaVersion'' = JStr (mf_schemaVersion m)"
  "js_prop (manifest_value m) ''tenantId'' = JStr (mf_tenantId m)"
  "js_prop (manifest_value m) ''epoch'' = JNum (NInt (mf_epoch m))"
  "js_prop (manifest_value m) ''fromSequence'' = JNum (NInt (mf_fromSequence m))"
  "js_prop (manifest_value m) ''fromPreviousHash'' = nullable_json (mf_fromPreviousHash m)"
  "js_prop (manifest_value m) ''throughSequence'' = JNum (NInt (mf_throughSequence m))"
  "js_prop (manifest_value m) ''throughHash'' = JStr (mf_throughHash m)"
  "js_prop (manifest_value m) ''recordCount'' = JNum (NInt (mf_recordCount m))"
  "js_prop (manifest_value m) ''previousCheckpointHash'' = nullable_json (mf_previousCheckpointHash m)"
  "js_prop (manifest_value m) ''archiveRootHash'' = JStr (mf_archiveRootHash m)"
  "js_prop (manifest_value m) ''segments'' = JArr (map segment_value (mf_segments m))"
  "js_prop (manifest_value m) ''manifestKey'' = JStr (mf_manifestKey m)"
  by (simp_all add: manifest_value_def js_prop_def get_prop_def)

lemma manifest_value_members:
  "\<exists>kvs. manifest_value m = JObj kvs \<and> defined_members kvs \<and> wf_value (JObj kvs) \<and>
     list_all (\<lambda>kv. fst kv = ''segments'' \<or> normalizeForJson (snd kv) = Inr (snd kv)) kvs"
proof -
  obtain ws where ws: "normalizeForJson (JArr (map segment_value (mf_segments m))) = Inr (JArr ws)"
    using map_normal [of "mf_segments m" segment_value] segment_value_normal by blast
  have wf: "wf_value (segment_value s)" for s by (auto simp: segment_value_def)
  show ?thesis
    by (auto simp: manifest_value_def defined_members_def proto_key_def wf_elems_iff wf ws is_finite_number_def simp del: normalizeForJson.simps(6))
qed

lemma manifest_normal:
  "\<exists>w. normalizeForJson (manifest_value m) = Inr w \<and> w \<noteq> JUndefined \<and> same_manifest (manifest_value m) w"
proof -
  obtain kvs where k: "manifest_value m = JObj kvs" "defined_members kvs"
      "list_all (\<lambda>kv. fst kv = ''segments'' \<or> normalizeForJson (snd kv) = Inr (snd kv)) kvs"
    using manifest_value_members by blast
  from normal_members [OF k(2)] obtain ms where ms: "normalizeForJson (JObj kvs) = Inr (JObj ms)" "distinct (map fst ms)"
    "set (map fst ms) = set (map fst kvs)" "\<forall>k. normalizeForJson (get_prop kvs k) = Inr (get_prop ms k)" by blast
  have get: "get_prop kvs n = js_prop (manifest_value m) n" for n by (simp add: k(1) js_prop_def)
  have scalar: "get_prop ms n = get_prop kvs n" if "n \<noteq> ''segments''" for n
  proof -
    have "normalizeForJson (get_prop kvs n) = Inr (get_prop kvs n)"
    proof (cases "map_of kvs n")
      case None
      then show ?thesis by (simp add: get_prop_def normalizeForJson.simps(1))
    next
      case (Some v)
      then have "(n, v) \<in> set kvs" by (rule map_of_SomeD)
      then have "normalizeForJson v = Inr v" using k(3) that by (auto simp: list_all_iff)
      with Some show ?thesis by (simp add: get_prop_def)
    qed
    then show ?thesis using ms(4) by (metis sum.inject(2))
  qed
  obtain ws where ws: "normalizeForJson (JArr (map segment_value (mf_segments m))) = Inr (JArr ws)"
      "list_all2 same_object (map segment_value (mf_segments m)) ws"
    using map_normal [of "mf_segments m" segment_value] segment_value_normal by blast
  have seg: "get_prop ms ''segments'' = JArr ws" using ms(4) [rule_format, of "''segments''"] ws(1) by (simp add: get)
  have "length ms = length kvs"
    using ms(2,3) k(2) distinct_card [of "map fst ms"] distinct_card [of "map fst kvs"] by (simp add: defined_members_def)
  moreover have "js_prop (JObj ms) ''segments'' = JArr ws" using seg by (simp add: js_prop_def)
  ultimately have "same_manifest (manifest_value m) (JObj ms)"
    unfolding same_manifest_def using ms(3) scalar ws(2) manifest_value_props(12) [of m]
    by (auto simp: k(1) isPlainObject_def own_keys_def js_prop_def)
  with ms(1) k(1) show ?thesis by (intro exI [of _ "JObj ms"]) simp
qed

lemma null_prop_nullable: "js_prop v k = nullable_json h \<Longrightarrow> null_prop v k = h"
  by (cases h) (simp_all add: null_prop_def nullable_json_def)

lemma segment_of_value_eq:
  assumes "same_object (segment_value s) w"
  shows "segment_of_value w = s"
proof -
  have p: "js_prop w k = js_prop (segment_value s) k" for k using assms by (simp add: same_object_def)
  have "null_prop w ''firstPreviousHash'' = sg_firstPreviousHash s" by (rule null_prop_nullable) (simp add: p)
  then show ?thesis by (simp add: segment_of_value_def int_prop_def str_prop_def p)
qed

lemma segments_of_values: "list_all2 same_object (map segment_value ss) ws \<Longrightarrow> map segment_of_value ws = ss"
  by (induction ss arbitrary: ws) (auto simp: list_all2_Cons1 segment_of_value_eq)

lemma manifest_of_value_eq:
  assumes "same_manifest (manifest_value m) w"
  shows "manifest_of_value w = m"
proof -
  have p: "js_prop w k = js_prop (manifest_value m) k" if "k \<noteq> ''segments''" for k
    using assms that by (simp add: same_manifest_def)
  obtain ws where ws: "js_prop w ''segments'' = JArr ws" "list_all2 same_object (map segment_value (mf_segments m)) ws"
    using assms by (auto simp: same_manifest_def)
  have "null_prop w ''fromPreviousHash'' = mf_fromPreviousHash m" "null_prop w ''previousCheckpointHash'' = mf_previousCheckpointHash m"
    by (rule null_prop_nullable, simp add: p)+
  moreover have "map segment_of_value ws = mf_segments m" by (rule segments_of_values [OF ws(2)])
  ultimately show ?thesis using ws(1) by (simp add: manifest_of_value_def int_prop_def str_prop_def arr_prop_def p)
qed

text \<open>What the guards accept.\<close>

lemma guarded_integer [simp]: "assertSafeInteger (JNum (NInt i)) f = Inr u \<longleftrightarrow> is_safe_int i \<and> 1 \<le> i"
  by (simp add: assertSafeInteger_def is_safe_integer_from_def)

lemma assertId_str [simp]: "assertId (JStr s) f = Inr u \<longleftrightarrow> id_pattern 128 s"
  by (simp add: assertId_def)

definition segment_ok :: "string \<Rightarrow> int \<Rightarrow> string option \<Rightarrow> staging_segment \<Rightarrow> bool" where
  "segment_ok ep sequence h s \<longleftrightarrow> sg_fromSequence s = sequence \<and> sg_firstPreviousHash s = h \<and> 1 \<le> sg_fromSequence s \<and>
     sg_fromSequence s \<le> sg_toSequence s \<and> is_safe_int (sg_toSequence s) \<and>
     sg_recordCount s = sg_toSequence s - sg_fromSequence s + 1 \<and> is_safe_int (sg_recordCount s) \<and>
     sg_objectKey s = segment_key ep (sg_fromSequence s) (sg_toSequence s)"

fun segments_ok :: "string \<Rightarrow> int \<Rightarrow> string option \<Rightarrow> staging_segment list \<Rightarrow> bool" where
  "segments_ok ep sequence h [] = True"
| "segments_ok ep sequence h (s # ss) \<longleftrightarrow> segment_ok ep sequence h s \<and> segments_ok ep (sg_toSequence s + 1) (Some (sg_lastHash s)) ss"

lemma nullable_json_inject [simp]: "nullable_json a = nullable_json b \<longleftrightarrow> a = b" "nullable_json a = JStr s \<longleftrightarrow> a = Some s"
  by (cases a; cases b; simp add: nullable_json_def)+

lemma check_segments_ok:
  "check_segments ep sequence (nullable_json h) n (map segment_value ss) = Inr (sequence', h', n') \<Longrightarrow>
    segments_ok ep sequence h ss \<and> sequence' = sequence + sum_list (map sg_recordCount ss) \<and> n' = n + sum_list (map sg_recordCount ss) \<and>
    h' = (if ss = [] then nullable_json h else JStr (sg_lastHash (last ss)))"
proof (induction ss arbitrary: sequence h n)
  case (Cons s ss)
  from Cons.prems have ok: "segment_ok ep sequence h s"
    and rest: "check_segments ep (sg_toSequence s + 1) (nullable_json (Some (sg_lastHash s))) (n + sg_recordCount s) (map segment_value ss)
      = Inr (sequence', h', n')"
    by (auto simp: segment_ok_def int_prop_def Let_def nullable_json_def [of "Some _"])
  from Cons.IH [OF rest] ok show ?case by (auto simp: segment_ok_def nullable_json_def)
qed simp

lemma segments_ok_keys:
  assumes "segments_ok ep sequence h ss"
  shows "s \<in> set ss \<Longrightarrow> sequence \<le> sg_fromSequence s \<and> 1 \<le> sg_fromSequence s \<and> sg_fromSequence s \<le> sg_toSequence s \<and>
      sg_objectKey s = segment_key ep (sg_fromSequence s) (sg_toSequence s)"
    and "distinct (map sg_objectKey ss)"
proof -
  have mem: "segments_ok ep sequence h ss \<Longrightarrow> s \<in> set ss \<Longrightarrow> sequence \<le> sg_fromSequence s \<and> 1 \<le> sg_fromSequence s \<and>
      sg_fromSequence s \<le> sg_toSequence s \<and> sg_objectKey s = segment_key ep (sg_fromSequence s) (sg_toSequence s)" for s sequence h ss
    by (induction ss arbitrary: sequence h) (fastforce simp: segment_ok_def)+
  then show "s \<in> set ss \<Longrightarrow> sequence \<le> sg_fromSequence s \<and> 1 \<le> sg_fromSequence s \<and> sg_fromSequence s \<le> sg_toSequence s \<and>
      sg_objectKey s = segment_key ep (sg_fromSequence s) (sg_toSequence s)" using assms by blast
  show "distinct (map sg_objectKey ss)" using assms
  proof (induction ss arbitrary: sequence h)
    case (Cons s ss)
    from Cons.prems have s: "segment_ok ep sequence h s" "segments_ok ep (sg_toSequence s + 1) (Some (sg_lastHash s)) ss" by simp_all
    have "sg_objectKey s \<noteq> sg_objectKey r" if "r \<in> set ss" for r
      using mem [OF s(2) that] s(1) by (auto simp: segment_ok_def segment_key_inject)
    with Cons.IH [OF s(2)] show ?case by auto
  qed simp
qed

lemma segments_ok_safe: "segments_ok ep sequence h ss \<Longrightarrow> s \<in> set ss \<Longrightarrow>
    is_safe_int (sg_fromSequence s) \<and> is_safe_int (sg_toSequence s) \<and> is_safe_int (sg_recordCount s)"
  by (induction ss arbitrary: sequence h) (auto simp: segment_ok_def is_safe_int_def)

definition manifest_prefix :: "string \<Rightarrow> staging_manifest \<Rightarrow> string" where
  "manifest_prefix keys m = epochKeyPrefix keys (mf_tenantId m) (mf_epoch m)"

lemma neutral_segment: "neutral_value (segment_value s) = providerNeutralDescriptor s"
  by (simp add: neutral_value_def pick_def providerNeutralDescriptor_def)

lemma validated_manifest:
  assumes "validateManifest env (manifest_value m) keys = Inr u"
  shows "id_pattern 128 (mf_tenantId m)" "is_safe_int (mf_epoch m) \<and> 1 \<le> mf_epoch m"
    "is_safe_int (mf_fromSequence m) \<and> is_safe_int (mf_throughSequence m) \<and> is_safe_int (mf_recordCount m)"
    "mf_manifestKey m = manifest_key (manifest_prefix keys m)"
    "segments_ok (manifest_prefix keys m) (mf_fromSequence m) (mf_fromPreviousHash m) (mf_segments m)" "mf_segments m \<noteq> []"
    "mf_throughHash m = sg_lastHash (last (mf_segments m))"
    "sum_list (map sg_recordCount (mf_segments m)) = mf_recordCount m"
    "mf_throughSequence m = mf_fromSequence m + mf_recordCount m - 1"
    "\<exists>rt. canonicalJson (JArr (map providerNeutralDescriptor (mf_segments m))) = Inr rt \<and>
      mf_archiveRootHash m = re_sha (sv_retention env) rt"
proof -
  let ?ep = "epochKeyPrefix keys (mf_tenantId m) (mf_epoch m)"
  have arr: "arr_prop (manifest_value m) ''segments'' = map segment_value (mf_segments m)" by (simp add: arr_prop_def)
  have n: "map neutral_value (map segment_value (mf_segments m)) = map providerNeutralDescriptor (mf_segments m)"
    by (simp add: neutral_segment)
  obtain sequence h n rt where v: "id_pattern 128 (mf_tenantId m)" "is_safe_int (mf_epoch m) \<and> 1 \<le> mf_epoch m"
      "is_safe_int (mf_fromSequence m)" "is_safe_int (mf_throughSequence m)" "is_safe_int (mf_recordCount m)"
      "mf_manifestKey m = manifest_key ?ep" "mf_segments m \<noteq> []"
      "check_segments ?ep (mf_fromSequence m) (nullable_json (mf_fromPreviousHash m)) 0 (map segment_value (mf_segments m)) = Inr (sequence, h, n)"
      "sequence - 1 = mf_throughSequence m" "h = JStr (mf_throughHash m)" "n = mf_recordCount m"
      "n = mf_throughSequence m - mf_fromSequence m + 1"
      "canonicalJson (JArr (map providerNeutralDescriptor (mf_segments m))) = Inr rt"
      "mf_archiveRootHash m = re_sha (sv_retention env) rt"
    using assms unfolding validateManifest_def Let_def arr n by (auto simp: int_prop_def str_prop_def)
  from check_segments_ok [OF v(8)] v(7) have c: "segments_ok ?ep (mf_fromSequence m) (mf_fromPreviousHash m) (mf_segments m)"
    "n = sum_list (map sg_recordCount (mf_segments m))" "h = JStr (sg_lastHash (last (mf_segments m)))" by auto
  show "segments_ok (manifest_prefix keys m) (mf_fromSequence m) (mf_fromPreviousHash m) (mf_segments m)"
    using c(1) by (simp add: manifest_prefix_def)
  show "mf_throughHash m = sg_lastHash (last (mf_segments m))" using v(10) c(3) by simp
  show "sum_list (map sg_recordCount (mf_segments m)) = mf_recordCount m" using v(11) c(2) by simp
  show "mf_throughSequence m = mf_fromSequence m + mf_recordCount m - 1" using v(11,12) by simp
  show "\<exists>rt. canonicalJson (JArr (map providerNeutralDescriptor (mf_segments m))) = Inr rt \<and>
      mf_archiveRootHash m = re_sha (sv_retention env) rt" using v(13,14) by blast
qed (use assms in \<open>auto simp: validateManifest_def Let_def int_prop_def str_prop_def manifest_prefix_def\<close>)

text \<open>The keys of a validated manifest are different and lie below its prefix.\<close>

lemma epoch_keys_facts:
  assumes "validateManifest env (manifest_value m) keys = Inr u"
  shows "distinct (epoch_keys m)" "k \<in> set (epoch_keys m) \<Longrightarrow> prefix (manifest_prefix keys m @ ''/'') k"
proof -
  note v = validated_manifest [OF assms]
  note s = segments_ok_keys [OF v(5)]
  have "mf_manifestKey m \<notin> sg_objectKey ` set (mf_segments m)"
  proof
    assume "mf_manifestKey m \<in> sg_objectKey ` set (mf_segments m)"
    then obtain g where g: "g \<in> set (mf_segments m)" "mf_manifestKey m = sg_objectKey g" by auto
    from s(1) [OF g(1)] g(2) v(4) manifest_not_segment [of "sg_fromSequence g"] show False by auto
  qed
  with s(2) show "distinct (epoch_keys m)" by (simp add: epoch_keys_def)
  show "k \<in> set (epoch_keys m) \<Longrightarrow> prefix (manifest_prefix keys m @ ''/'') k"
    using s(1) v(4) by (force simp: epoch_keys_def segment_key_def manifest_key_def prefix_def)
qed

text \<open>Number literals of safe integers denote them.\<close>

definition reads_integers :: "staging_env \<Rightarrow> bool" where
  "reads_integers env \<longleftrightarrow> (\<forall>i. is_safe_int i \<longrightarrow> sv_number env (show_int i) = NInt i)"

lemma readable_int: "reads_integers env \<Longrightarrow> is_safe_int i \<Longrightarrow> readable (sv_number env) (JNum (NInt i))"
  using valid_number_show_int [of i] show_int_number_chars [of i]
  by (simp add: reads_integers_def is_finite_number_def show_number_def)

lemma readable_nullable [simp]: "readable f (nullable_json v)"
  by (cases v) (simp_all add: nullable_json_def)

lemma manifest_reads_back:
  assumes "reads_integers env" "validateManifest env (manifest_value m) keys = Inr u" "canonicalJson (manifest_value m) = Inr t"
  shows "\<exists>w. parseManifest env t keys = Inr w \<and> canonicalJson w = Inr t \<and> manifest_of_value w = m"
proof -
  note v = validated_manifest [OF assms(2)]
  have "readable (sv_number env) (segment_value s)" if "s \<in> set (mf_segments m)" for s
    using segments_ok_safe [OF v(5) that] readable_int [OF assms(1)] by (simp add: segment_value_def del: readable.simps(1))
  then have read: "readable (sv_number env) (manifest_value m)"
    using v(2,3) readable_int [OF assms(1)] by (simp add: manifest_value_def readable_elems_iff del: readable.simps(1))
  have wf: "wf_value (manifest_value m)" using manifest_value_members [of m] by auto
  from canonical_read_back [OF wf read assms(3)] obtain w where w: "normalizeForJson (manifest_value m) = Inr w"
    "json_parse (sv_number env) t = Inr w" "canonicalJson w = Inr t" by metis
  with manifest_normal [of m] have same: "same_manifest (manifest_value m) w" by auto
  have "validateManifest env w keys = Inr u" using assms(2) validateManifest_same [OF same] by simp
  with w(2,3) manifest_of_value_eq [OF same] show ?thesis by (simp add: parseManifest_def)
qed

lemma manifest_text: "\<exists>t. canonicalJson (manifest_value m) = Inr t"
  using manifest_normal [of m] by (auto simp: canonicalJson_def)

section \<open>Records read back\<close>

text \<open>A record whose metadata is a value and whose numbers read back.\<close>

definition storable :: "staging_env \<Rightarrow> audit_record \<Rightarrow> bool" where
  "storable env r \<longleftrightarrow> wf_value (event_metadata (rec_event r)) \<and> readable (sv_number env) (record_value r)"

definition stands_for :: "jsval \<Rightarrow> audit_record \<Rightarrow> bool" where
  "stands_for w r \<longleftrightarrow> js_prop w ''sequence'' = JNum (NInt (rec_sequence r)) \<and>
     js_prop w ''previousHash'' = nullable_json (rec_previousHash r) \<and> js_prop w ''hash'' = JStr (rec_hash r)"

lemma record_value_props:
  "js_prop (record_value r) ''sequence'' = JNum (NInt (rec_sequence r))"
  "js_prop (record_value r) ''previousHash'' = nullable_json (rec_previousHash r)"
  "js_prop (record_value r) ''hash'' = JStr (rec_hash r)"
  by (simp_all add: record_value_def js_prop_def get_prop_def)

lemma record_value_wf:
  assumes "wf_value (event_metadata (rec_event r))"
  shows "\<exists>kvs. record_value r = JObj kvs \<and> distinct (map fst kvs) \<and> wf_value (JObj kvs) \<and>
    record_body_json r = JObj (filter (\<lambda>kv. fst kv \<noteq> ''hash'') kvs) \<and> wf_value (record_body_json r)"
proof -
  have e: "wf_value (event_json (rec_event r))" using assms by simp
  then show ?thesis by (auto simp: record_value_def record_body_json_def)
qed

lemma object_props:
  assumes "normalizeForJson (JObj kvs) = Inr w" "distinct (map fst kvs)" "k \<noteq> proto_key"
  shows "\<exists>ms. w = JObj ms \<and> normalizeForJson (get_prop kvs k) = Inr (js_prop w k)"
proof -
  from assms(1) obtain ms where "w = JObj ms" unfolding normalize_object_iff by blast
  with object_member [OF assms(2) _ assms(3), of ms] assms(1) show ?thesis by (simp add: js_prop_def)
qed

lemma record_tenant_normal:
  assumes "normalizeForJson (record_value r) = Inr w" "Option.bind (event_scope (rec_event r)) tenantId = Some t"
  shows "parsed_tenant w = Inr (JStr t)"
proof -
  from assms(2) obtain sc where sc: "event_scope (rec_event r) = Some sc" "tenantId sc = Some t" by (cases "event_scope (rec_event r)") auto
  from object_props [OF assms(1) [unfolded record_value_def], of "''event''"] obtain ms where
    w: "w = JObj ms" and e: "normalizeForJson (event_json (rec_event r)) = Inr (js_prop w ''event'')"
    by (auto simp: proto_key_def get_prop_def)
  from object_props [OF e [unfolded event_json_def], of "''scope''"] obtain ns where
    e': "js_prop w ''event'' = JObj ns" and s: "normalizeForJson (scope_json (Some sc)) = Inr (js_prop (js_prop w ''event'') ''scope'')"
    by (auto simp: proto_key_def get_prop_def sc)
  have "normalizeForJson (JObj [(''tenantId'', opt_json (tenantId sc)), (''workspaceId'', opt_json (workspaceId sc)),
      (''environment'', opt_json (environment sc))]) = Inr (js_prop (js_prop w ''event'') ''scope'')"
    using s by (simp add: scope_json_def del: normalizeForJson.simps)
  from object_props [OF this, of "''tenantId''"] have
    "js_prop (js_prop (js_prop w ''event'') ''scope'') ''tenantId'' = JStr t"
    by (auto simp: proto_key_def get_prop_def sc opt_json_def)
  moreover have "js_member w ''event'' = Inr (js_prop w ''event'')" using w by (simp add: js_member_def)
  moreover have "js_member (js_prop w ''event'') ''scope'' = Inr (js_prop (js_prop w ''event'') ''scope'')" using e' by (simp add: js_member_def)
  ultimately show ?thesis by (simp add: parsed_tenant_def)
qed

lemma without_hash_normal:
  assumes "wf_value (event_metadata (rec_event r))" "normalizeForJson (record_value r) = Inr w"
  shows "canonicalJson (without_hash w) = canonicalJson (record_body_json r)"
proof -
  obtain kvs where k: "record_value r = JObj kvs" "distinct (map fst kvs)"
      "record_body_json r = JObj (filter (\<lambda>kv. fst kv \<noteq> ''hash'') kvs)" "wf_value (record_body_json r)"
    using record_value_wf [OF assms(1)] by blast
  from assms(2) k(1) obtain ms where w: "w = JObj ms" unfolding k(1) normalize_object_iff by blast
  have f: "normalizeForJson (record_body_json r) = Inr (without_hash w)"
    using normal_filter [OF _ k(2), of ms "\<lambda>k. k \<noteq> ''hash''"] assms(2) k(1,3) w by (simp add: without_hash_def)
  with normalize_idempotent [OF k(4) f] show ?thesis by (intro canonicalJson_eq_normal) simp
qed

lemma record_reads_back:
  assumes "storable env r" "canonicalJson (record_value r) = Inr line"
    and "hashAuditRecord (re_sha (sv_retention env)) r = Inr (rec_hash r)"
    and "Option.bind (event_scope (rec_event r)) tenantId = Some t"
  shows "\<exists>w. parse_record env t line = Inr w \<and> stands_for w r"
    and "line \<noteq> [] \<and> LF \<notin> set line"
proof -
  from assms(1) have meta: "wf_value (event_metadata (rec_event r))" and read: "readable (sv_number env) (record_value r)"
    by (simp_all add: storable_def)
  obtain kvs where k: "record_value r = JObj kvs" "distinct (map fst kvs)" "wf_value (JObj kvs)"
    using record_value_wf [OF meta] by blast
  from canonical_read_back [OF _ read assms(2)] k(1,3) obtain w where w: "normalizeForJson (record_value r) = Inr w"
      "writable (sv_number env) w" "line = stringify w" "json_parse (sv_number env) line = Inr w" "canonicalJson w = Inr line"
    by (metis (no_types))
  have hash: "hashParsedRecord (re_sha (sv_retention env)) w = Inr (rec_hash r)"
    using assms(3) without_hash_normal [OF meta w(1)] by (simp add: hashParsedRecord_def hashAuditRecord_def)
  have p: "normalizeForJson (get_prop kvs n) = Inr (js_prop w n)" if "n \<noteq> proto_key" for n
    using object_props [OF w(1) [unfolded k(1)] k(2) that] by blast
  have g: "get_prop kvs n = js_prop (record_value r) n" for n by (simp add: k(1) js_prop_def)
  have v: "stands_for w r"
    using p [of "''sequence''"] p [of "''previousHash''"] p [of "''hash''"]
    unfolding g record_value_props by (simp add: stands_for_def proto_key_def is_finite_number_def)
  then show "\<exists>w. parse_record env t line = Inr w \<and> stands_for w r"
    using w(4,5) hash record_tenant_normal [OF w(1) assms(4)] by (simp add: parse_record_def stands_for_def)
  have "\<exists>ms. w = JObj ms" using object_props [OF w(1) [unfolded k(1)] k(2), of "[]"] by (auto simp: proto_key_def)
  then have "line \<noteq> []" using w(3) by auto
  moreover have "LF \<notin> set line"
    using stringify_plain(1) [OF w(2)] w(3) by (auto simp: list_all_iff plain_def LF_def code_unit_def)
  ultimately show "line \<noteq> [] \<and> LF \<notin> set line" by blast
qed

text \<open>A batch of checked records, encoded and parsed again.\<close>

definition checked :: "staging_env \<Rightarrow> string \<Rightarrow> audit_record \<Rightarrow> bool" where
  "checked env t r \<longleftrightarrow> storable env r \<and> Option.bind (event_scope (rec_event r)) tenantId = Some t \<and>
     hashAuditRecord (re_sha (sv_retention env)) r = Inr (rec_hash r)"

lemma batch_reads_back:
  assumes "encodeNdjson batch = Inr body" "batch \<noteq> []" "\<forall>r \<in> set batch. checked env t r"
  shows "\<exists>ws. parseExactNdjson env body t = Inr ws \<and> list_all2 stands_for ws batch"
proof -
  from assms(1) obtain lines where each: "list_all2 (\<lambda>r line. canonicalJson (record_value r) = Inr line) batch lines"
      and l: "body = utf8_encode (join [LF] lines @ [LF])"
    by (auto simp: encodeNdjson_def collect_map_iff)
  have "\<forall>x \<in> set lines. x \<noteq> [] \<and> LF \<notin> set x" 
    using each assms(3)
  proof (induction batch lines rule: list_all2_induct)
    case (Cons r rs line ls)
    then show ?case using record_reads_back(2) [of env r line t] by (simp add: checked_def)
  qed simp
  moreover have "lines \<noteq> []" using each assms(2) by auto
  ultimately have parts: "split_on LF (join [LF] lines) = lines" "\<not> list_ex (\<lambda>line. line = []) lines"
    using split_join_lines [of lines LF] by (auto simp: list_ex_iff)
  have "\<exists>ws. map (parse_record env t) lines = map Inr ws \<and> list_all2 stands_for ws batch"
    using each assms(3)
  proof (induction batch lines rule: list_all2_induct)
    case (Cons r rs line ls)
    then obtain ws where ws: "map (parse_record env t) ls = map Inr ws" "list_all2 stands_for ws rs" by auto
    obtain w where "parse_record env t line = Inr w" "stands_for w r"
      using record_reads_back(1) [of env r line t] Cons by (auto simp: checked_def)
    with ws show ?case by (intro exI [of _ "w # ws"]) simp
  qed simp
  then obtain ws where "map (parse_record env t) lines = map Inr ws" "list_all2 stands_for ws batch" by blast
  with parts l show ?thesis by (simp add: parseExactNdjson_def Let_def butlast_append collect_Inr_iff)
qed

section \<open>Links\<close>

lemma check_epoch_records_append:
  "check_epoch_records sha t sequence h (xs @ ys) = Inr () \<longleftrightarrow>
     check_epoch_records sha t sequence h xs = Inr () \<and>
     check_epoch_records sha t (sequence + int (length xs)) (if xs = [] then h else Some (rec_hash (last xs))) ys = Inr ()"
proof (induction xs arbitrary: sequence h)
  case (Cons r xs)
  then show ?case by (cases "hashAuditRecord sha r") (auto simp: andThen_throwUnless ac_simps)
qed simp

lemma check_epoch_records_each:
  "check_epoch_records sha t sequence h rs = Inr () \<Longrightarrow> r \<in> set rs \<Longrightarrow>
     Option.bind (event_scope (rec_event r)) tenantId = Some t \<and> hashAuditRecord sha r = Inr (rec_hash r)"
  by (induction rs arbitrary: sequence h) (auto simp: andThen_throwUnless split: if_splits)

lemma check_epoch_records_ends:
  "check_epoch_records sha t sequence h rs = Inr () \<Longrightarrow> rs \<noteq> [] \<Longrightarrow>
     rec_sequence (hd rs) = sequence + 1 \<and> rec_previousHash (hd rs) = h \<and> rec_sequence (last rs) = sequence + int (length rs)"
  by (induction rs arbitrary: sequence h) (auto simp: andThen_throwUnless split: if_splits)

lemma checked_links:
  "list_all2 stands_for ws rs \<Longrightarrow> check_epoch_records sha t sequence h rs = Inr () \<Longrightarrow>
     check_links sequence (nullable_json h) ws = Inr (sequence + int (length rs), if rs = [] then nullable_json h else JStr (rec_hash (last rs)))"
proof (induction ws rs arbitrary: sequence h rule: list_all2_induct)
  case (Cons w ws r rs)
  from Cons.prems have r: "rec_sequence r = sequence + 1" "rec_previousHash r = h"
    and rest: "check_epoch_records sha t (sequence + 1) (Some (rec_hash r)) rs = Inr ()"
    by (auto simp: andThen_throwUnless split: if_splits)
  from Cons.IH [OF rest] Cons(1) r show ?case by (auto simp: stands_for_def nullable_json_def [of "Some _"])
qed simp

end
