(* ===== verification/StagingSafety.thy ===== *)
theory StagingSafety
  imports StagingRecords
begin

text \<open>
  The operations of the staging archive over an object client that keeps its promises: what a verified
  epoch holds.
\<close>

section \<open>The object client\<close>

text \<open>What the archive needs of a client: reads and listings are true and change nothing, a write or a
  deletion affects its key only, and happens when it succeeds.\<close>

locale object_store =
  fixes client :: "'p object_client" and objects :: "'p \<Rightarrow> string \<Rightarrow> bytes option"
  assumes get_result: "oc_get client k p = (Inr b, p') \<Longrightarrow> b = objects p k"
    and get_keeps: "oc_get client k p = (r, p') \<Longrightarrow> objects p' = objects p"
    and put_result: "oc_put client k body p = (Inr u, p') \<Longrightarrow> objects p' = (objects p)(k \<mapsto> body)"
    and put_keeps: "oc_put client k body p = (r', p') \<Longrightarrow> objects p' = objects p \<or> objects p' = (objects p)(k \<mapsto> body)"
    and list_result: "oc_list client keys p = (Inr ks, p') \<Longrightarrow> distinct ks \<and> set ks = {k. prefix keys k \<and> objects p k \<noteq> None}"
    and list_keeps: "oc_list client keys p = (l, p') \<Longrightarrow> objects p' = objects p"
    and delete_result: "oc_delete client k p = (Inr u, p') \<Longrightarrow> objects p' = (objects p)(k := None)"
    and delete_keeps: "oc_delete client k p = (r', p') \<Longrightarrow> objects p' = objects p \<or> objects p' = (objects p)(k := None)"

text \<open>A client none of whose operations fails.\<close>

locale reliable_store = object_store client objects
  for client :: "'p object_client" and objects +
  assumes get_returns: "\<exists>b p'. oc_get client k p = (Inr b, p')"
    and put_returns: "\<exists>p'. oc_put client k body p = (Inr (), p')"
    and list_returns: "\<exists>ks p'. oc_list client keys p = (Inr ks, p')"
    and delete_returns: "\<exists>p'. oc_delete client k p = (Inr (), p')"

section \<open>What a verified epoch holds\<close>

text \<open>The bytes of a segment are the lines of canonical records of the tenant, with their hashes.\<close>

definition sound_record :: "staging_env \<Rightarrow> string \<Rightarrow> jsval \<Rightarrow> bool" where
  "sound_record env t r \<longleftrightarrow> parsed_tenant r = Inr (JStr t) \<and>
     (\<exists>d. hashParsedRecord (re_sha (sv_retention env)) r = Inr d \<and> js_prop r ''hash'' = JStr d)"

definition holds_records :: "staging_env \<Rightarrow> string \<Rightarrow> bytes \<Rightarrow> jsval list \<Rightarrow> bool" where
  "holds_records env t body rs \<longleftrightarrow> rs \<noteq> [] \<and> list_all (sound_record env t) rs \<and>
     (\<exists>lines. map canonicalJson rs = map Inr lines \<and> utf8_decode (sv_mark env) body = join [LF] lines @ [LF])"

lemma parse_record_sound: "parse_record env t line = Inr r \<Longrightarrow> sound_record env t r \<and> canonicalJson r = Inr line"
  by (auto simp: parse_record_def sound_record_def Let_def split: sum.splits if_splits)

lemma parseExactNdjson_sound:
  assumes "parseExactNdjson env body t = Inr rs"
  shows "holds_records env t body rs"
proof -
  let ?t = "utf8_decode (sv_mark env) body"
  let ?lines = "split_on LF (butlast ?t)"
  have p: "?t \<noteq> []" "last ?t = LF" "list_all2 (\<lambda>line r. parse_record env t line = Inr r) ?lines rs"
    using assms by (auto simp: parseExactNdjson_def Let_def collect_map_iff split: if_splits)
  from p(3) have "list_all (sound_record env t) rs \<and> map canonicalJson rs = map Inr ?lines"
    by (induction rule: list_all2_induct) (auto dest: parse_record_sound)
  moreover have "rs \<noteq> []" using p(3) split_on_Cons_ne [of LF "butlast ?t"] by auto
  moreover have "?t = join [LF] ?lines @ [LF]" using p(1,2) by (metis append_butlast_last_id join_split_lines)
  ultimately show ?thesis unfolding holds_records_def by blast
qed

text \<open>Records in sequence, each naming the hash of its predecessor.\<close>

definition in_sequence :: "int \<Rightarrow> jsval \<Rightarrow> jsval list \<Rightarrow> bool" where
  "in_sequence s h rs \<longleftrightarrow> (\<forall>i < length rs. js_prop (rs ! i) ''sequence'' = JNum (NInt (s + 1 + int i)) \<and>
     js_prop (rs ! i) ''previousHash'' = (if i = 0 then h else js_prop (rs ! (i - 1)) ''hash''))"

lemma in_sequence_Nil [simp]: "in_sequence s h []"
  by (simp add: in_sequence_def)

lemma in_sequence_Cons:
  "in_sequence s h (r # rs) \<longleftrightarrow> js_prop r ''sequence'' = JNum (NInt (s + 1)) \<and> js_prop r ''previousHash'' = h \<and>
     in_sequence (s + 1) (js_prop r ''hash'') rs"
  by (auto simp: in_sequence_def nth_Cons' less_Suc_eq_0_disj algebra_simps split: if_splits)

lemma check_links_sound:
  "check_links s h rs = Inr (s', h') \<longleftrightarrow> in_sequence s h rs \<and> s' = s + int (length rs) \<and>
     h' = (if rs = [] then h else js_prop (last rs) ''hash'')"
  by (induction rs arbitrary: s h) (auto simp: in_sequence_Cons andThen_throwUnless)

lemma in_sequence_append:
  "in_sequence s h (xs @ ys) \<longleftrightarrow> in_sequence s h xs \<and>
     in_sequence (s + int (length xs)) (if xs = [] then h else js_prop (last xs) ''hash'') ys"
  by (induction xs arbitrary: s h) (auto simp: in_sequence_Cons ac_simps)

text \<open>A segment of the store and the records in it.\<close>

definition holds_segment :: "staging_env \<Rightarrow> (string \<Rightarrow> bytes option) \<Rightarrow> string \<Rightarrow> staging_segment \<Rightarrow> jsval list \<Rightarrow> bool" where
  "holds_segment env store t s rs \<longleftrightarrow> (\<exists>body. store (sg_objectKey s) = Some body \<and>
     re_sha_bytes (sv_retention env) body = sg_contentSha256 s \<and> holds_records env t body rs) \<and>
     assertSegmentRecords s rs = Inr ()"

lemma texts_same: "canonicalJson (strings_value xs) = canonicalJson (strings_value ys) \<longleftrightarrow> xs = ys"
proof
  assume a: "canonicalJson (strings_value xs) = canonicalJson (strings_value ys)"
  have n: "normalizeForJson (strings_value zs) = Inr (strings_value zs)" for zs
    unfolding strings_value_def normalize_array_iff
    by (intro exI [of _ "map JStr zs"]) (auto simp: list.rel_map list_all2_same normalizeForJson.simps null_if_undefined_def)
  have w: "wf_value (strings_value zs)" for zs by (auto simp: strings_value_def wf_elems_iff)
  have t: "canonicalJson (strings_value zs) = Inr (stringify (strings_value zs))" for zs
    unfolding canonicalJson_def n by (simp add: strings_value_def)
  have "normalizeForJson (strings_value xs) = normalizeForJson (strings_value ys)"
    by (rule canonicalJson_determines [OF w w t]) (use a in \<open>simp add: t\<close>)
  then have "map JStr xs = map JStr ys" unfolding n by (simp add: strings_value_def)
  then show "xs = ys" by (simp add: list.inj_map_strong inj_map_eq_map inj_def)
qed simp

lemma thenDo_E: "thenDo m f w = (Inr y, w') \<Longrightarrow> (\<And>x v. m w = (Inr x, v) \<Longrightarrow> f x v = (Inr y, w') \<Longrightarrow> P) \<Longrightarrow> P"
  by (auto simp: thenDo_Inr)

lemma thenDo_lift_E: "thenDo (liftA t) f w = (Inr y, w') \<Longrightarrow> (\<And>x. t = Inr x \<Longrightarrow> f x w = (Inr y, w') \<Longrightarrow> P) \<Longrightarrow> P"
  by (auto simp: thenDo_Inr)

lemma thenDo_check_E: "thenDo (checkThat b msg) f w = (Inr y, w') \<Longrightarrow> (b \<Longrightarrow> f () w = (Inr y, w') \<Longrightarrow> P) \<Longrightarrow> P"
  by (auto simp: thenDo_check split: if_splits)

lemma verify_segments_Cons:
  assumes "verify_segments env client t s h n (g # segs) p = (Inr x, p')"
  obtains body rs s1 h1 p1 where "oc_get client (sg_objectKey g) p = (Inr (Some body), p1)"
      "re_sha_bytes (sv_retention env) body = sg_contentSha256 g" "parseExactNdjson env body t = Inr rs"
      "assertSegmentRecords g rs = Inr ()" "check_links s h rs = Inr (s1, h1)"
      "verify_segments env client t s1 h1 (n + int (length rs)) segs p1 = (Inr x, p')"
proof -
  from assms [unfolded verify_segments.simps] obtain b p1 where 1: "oc_get client (sg_objectKey g) p = (Inr b, p1)"
    and r: "(case b of
       None \<Rightarrow> liftA (Inl (TypeError ''staged epoch segment is missing''))
     | Some body \<Rightarrow>
         thenDo (checkThat (re_sha_bytes (sv_retention env) body = sg_contentSha256 g)
            ''staged epoch segment integrity check failed'') (\<lambda>_.
         thenDo (liftA (parseExactNdjson env body t)) (\<lambda>records.
         thenDo (liftA (assertSegmentRecords g records)) (\<lambda>_.
         thenDo (liftA (check_links s h records)) (\<lambda>(lastSequence, lastHash).
         verify_segments env client t lastSequence lastHash (n + int (length records)) segs))))) p1 = (Inr x, p')"
    by (rule thenDo_E)
  then obtain body where b: "b = Some body" by (cases b) auto
  show thesis using r unfolding b option.case
    by (elim thenDo_check_E thenDo_lift_E) (use 1 b that in force)
qed

lemma verify_contents_E:
  assumes "verify_contents env client keys m p = (Inr v, p')"
  obtains listed p1 body p2 t s h where "validateManifest env (manifest_value m) keys = Inr ()"
      "oc_list client (epochKeyPrefix keys (mf_tenantId m) (mf_epoch m) @ ''/'') p = (Inr listed, p1)"
      "canonicalJson (strings_value (sort listed)) = canonicalJson (strings_value (sort (epoch_keys m)))"
      "oc_get client (mf_manifestKey m) p1 = (Inr (Some body), p2)" "canonicalJson (manifest_value m) = Inr t" "body = utf8_encode t"
      "verify_segments env client (mf_tenantId m) (mf_fromSequence m - 1) (nullable_json (mf_fromPreviousHash m)) 0 (mf_segments m) p2
        = (Inr (s, h, mf_recordCount m), p')" "s = mf_throughSequence m" "h = JStr (mf_throughHash m)"
      "v = StagingOk (mf_archiveRootHash m) (int (length (mf_segments m))) (mf_recordCount m)"
  using assms unfolding verify_contents_def
proof (elim thenDo_lift_E thenDo_E [of "oc_list _ _"] thenDo_check_E, goal_cases)
  case (1 u listed p1 lt et)
  note head = 1
  from head(7) show ?case
  proof (rule thenDo_E, goal_cases)
    case (1 b p2)
    note got = 1
    then obtain body where b: "b = Some body" by (cases b) auto
    show ?case using got(2) unfolding b option.case
    proof (elim thenDo_lift_E thenDo_check_E thenDo_E [of "verify_segments _ _ _ _ _ _ _"], goal_cases)
      case (1 tx parsed ptext x p3)
      note tail = 1
      obtain s h n where x: "x = (s, h, n)" by (cases x)
      show ?case using tail(7) unfolding x prod.case
        by (elim thenDo_check_E) (use head tail got(1) b x in \<open>intro that [of listed p1 body p2 tx s h]; simp\<close>)
    qed
  qed
qed

context object_store
begin

lemma verify_segments_sound:
  "verify_segments env client t s h n segs p = (Inr (s', h', n'), p') \<Longrightarrow>
    objects p' = objects p \<and> (\<exists>bs. list_all2 (holds_segment env (objects p) t) segs bs \<and> in_sequence s h (concat bs) \<and>
      s' = s + int (length (concat bs)) \<and> n' = n + int (length (concat bs)) \<and>
      h' = (if bs = [] then h else js_prop (last (concat bs)) ''hash''))"
proof (induction segs arbitrary: s h n p)
  case (Cons g segs)
  from Cons.prems obtain body rs s1 h1 p1 where g: "oc_get client (sg_objectKey g) p = (Inr (Some body), p1)"
      "re_sha_bytes (sv_retention env) body = sg_contentSha256 g" "parseExactNdjson env body t = Inr rs"
      "assertSegmentRecords g rs = Inr ()" "check_links s h rs = Inr (s1, h1)"
      "verify_segments env client t s1 h1 (n + int (length rs)) segs p1 = (Inr (s', h', n'), p')"
    by (rule verify_segments_Cons)
  have p1: "objects p1 = objects p" "objects p (sg_objectKey g) = Some body"
    using get_keeps [OF g(1)] get_result [OF g(1)] by simp_all
  note sound = parseExactNdjson_sound [OF g(3)]
  have "holds_segment env (objects p) t g rs" using p1(2) g(2,4) sound by (auto simp: holds_segment_def)
  moreover from Cons.IH [OF g(6)] obtain bs where bs: "objects p' = objects p1" "list_all2 (holds_segment env (objects p1) t) segs bs"
      "in_sequence s1 h1 (concat bs)" "s' = s1 + int (length (concat bs))" "n' = n + int (length rs) + int (length (concat bs))"
      "h' = (if bs = [] then h1 else js_prop (last (concat bs)) ''hash'')" by blast
  moreover have "in_sequence s h rs" "s1 = s + int (length rs)" "h1 = js_prop (last rs) ''hash''"
    using g(5) sound by (auto simp: check_links_sound holds_records_def)
  moreover have "concat bs \<noteq> []" if "bs \<noteq> []"
    using bs(2) that by (cases bs) (auto simp: list_all2_Cons2 holds_segment_def holds_records_def)
  moreover have "rs \<noteq> []" using sound by (simp add: holds_records_def)
  ultimately show ?case using p1(1)
    by (intro conjI exI [of _ "rs # bs"]) (auto simp: in_sequence_append)
qed simp

lemma verify_contents_sound:
  assumes "verify_contents env client keys m p = (Inr v, p')"
  shows "validateManifest env (manifest_value m) keys = Inr ()" "objects p' = objects p"
    "{k. prefix (manifest_prefix keys m @ ''/'') k \<and> objects p k \<noteq> None} = set (epoch_keys m)"
    "\<exists>t. canonicalJson (manifest_value m) = Inr t \<and> objects p (mf_manifestKey m) = Some (utf8_encode t)"
    "v = StagingOk (mf_archiveRootHash m) (int (length (mf_segments m))) (mf_recordCount m)"
    "\<exists>bs. list_all2 (holds_segment env (objects p) (mf_tenantId m)) (mf_segments m) bs \<and>
      in_sequence (mf_fromSequence m - 1) (nullable_json (mf_fromPreviousHash m)) (concat bs) \<and>
      int (length (concat bs)) = mf_recordCount m \<and> js_prop (last (concat bs)) ''hash'' = JStr (mf_throughHash m)"
proof -
  from assms obtain listed p1 body p2 t s h where v: "validateManifest env (manifest_value m) keys = Inr ()"
      "oc_list client (manifest_prefix keys m @ ''/'') p = (Inr listed, p1)"
      "canonicalJson (strings_value (sort listed)) = canonicalJson (strings_value (sort (epoch_keys m)))"
      "oc_get client (mf_manifestKey m) p1 = (Inr (Some body), p2)" "canonicalJson (manifest_value m) = Inr t" "body = utf8_encode t"
      "verify_segments env client (mf_tenantId m) (mf_fromSequence m - 1) (nullable_json (mf_fromPreviousHash m)) 0 (mf_segments m) p2
        = (Inr (s, h, mf_recordCount m), p')" "s = mf_throughSequence m" "h = JStr (mf_throughHash m)"
      "v = StagingOk (mf_archiveRootHash m) (int (length (mf_segments m))) (mf_recordCount m)"
    unfolding manifest_prefix_def by (rule verify_contents_E)
  show "validateManifest env (manifest_value m) keys = Inr ()"
    and "v = StagingOk (mf_archiveRootHash m) (int (length (mf_segments m))) (mf_recordCount m)" by (fact v)+
  have p: "objects p1 = objects p" "objects p2 = objects p" using list_keeps [OF v(2)] get_keeps [OF v(4)] by simp_all
  have "sort listed = sort (epoch_keys m)" using v(3) texts_same by simp
  then have "set listed = set (epoch_keys m)" by (metis set_sort)
  then show "{k. prefix (manifest_prefix keys m @ ''/'') k \<and> objects p k \<noteq> None} = set (epoch_keys m)"
    using list_result [OF v(2)] by simp
  show "\<exists>t. canonicalJson (manifest_value m) = Inr t \<and> objects p (mf_manifestKey m) = Some (utf8_encode t)"
    using v(5,6) get_result [OF v(4)] p(1) by auto
  from verify_segments_sound [OF v(7)] p(2) validated_manifest(6) [OF v(1)] v(8,9) show "objects p' = objects p" and
    "\<exists>bs. list_all2 (holds_segment env (objects p) (mf_tenantId m)) (mf_segments m) bs \<and>
      in_sequence (mf_fromSequence m - 1) (nullable_json (mf_fromPreviousHash m)) (concat bs) \<and>
      int (length (concat bs)) = mf_recordCount m \<and> js_prop (last (concat bs)) ''hash'' = JStr (mf_throughHash m)"
    by (auto split: if_splits)
qed

end

end
