(* ===== verification/StagingSteps.thy ===== *)
theory StagingSteps
  imports StagingSafety
begin

text \<open>
  Sealing, deleting and confirming an epoch over an object client, step by step: sealing is a sequence
  of writes of which a prefix has happened however it ends, deleting a sequence of deletions, and with
  a client that does not fail each of them returns.
\<close>

section \<open>Writes and deletions in order\<close>

fun put_all :: "'p object_client \<Rightarrow> (string \<times> bytes) list \<Rightarrow> ('p, unit) action" where
  "put_all client [] = pureA ()"
| "put_all client (kb # rest) = thenDo (putExact client (fst kb) (snd kb)) (\<lambda>_. put_all client rest)"

lemma thenDo_assoc: "thenDo (thenDo m f) g = thenDo m (\<lambda>x. thenDo (f x) g)"
  by (rule ext) (auto simp: thenDo_def split: prod.splits sum.splits)

lemma thenDo_pure [simp]: "thenDo (pureA x) f = f x" "thenDo (liftA (Inr x)) f = f x"
  by (rule ext, simp)+

lemma put_all_append: "put_all client (xs @ ys) = thenDo (put_all client xs) (\<lambda>_. put_all client ys)"
  by (induction xs) (simp_all add: thenDo_assoc)

text \<open>The first \<open>n\<close> of the objects are stored, and nothing else has changed.\<close>

definition wrote :: "(string \<times> bytes) list \<Rightarrow> (string \<Rightarrow> bytes option) \<Rightarrow> (string \<Rightarrow> bytes option) \<Rightarrow> bool" where
  "wrote os f g \<longleftrightarrow> f \<subseteq>\<^sub>m g \<and> (\<forall>kb \<in> set os. g (fst kb) = Some (snd kb)) \<and> dom g \<subseteq> dom f \<union> fst ` set os"

lemma wrote_Cons:
  assumes "wrote [kb] f g" "wrote os g h"
  shows "wrote (kb # os) f h"
proof -
  have g: "f \<subseteq>\<^sub>m g" "g (fst kb) = Some (snd kb)" "dom g \<subseteq> insert (fst kb) (dom f)" using assms(1) by (simp_all add: wrote_def)
  have h: "g \<subseteq>\<^sub>m h" "\<forall>kb \<in> set os. h (fst kb) = Some (snd kb)" "dom h \<subseteq> dom g \<union> fst ` set os" using assms(2) by (simp_all add: wrote_def)
  have "h (fst kb) = Some (snd kb)" using g(2) h(1) unfolding map_le_def by (metis domI)
  moreover have "f \<subseteq>\<^sub>m h" using g(1) h(1) by (rule map_le_trans)
  moreover have "dom h \<subseteq> dom f \<union> fst ` set (kb # os)" using g(3) h(3) by (simp add: subset_iff) blast
  ultimately show ?thesis using h(2) by (simp add: wrote_def)
qed

context object_store
begin

lemma putExact_outcome:
  assumes "putExact client k b p = (r, p')"
  shows "objects p' = objects p \<or> wrote [(k, b)] (objects p) (objects p')"
    and "r = Inr u \<Longrightarrow> wrote [(k, b)] (objects p) (objects p')"
proof -
  have w: "wrote [(k, b)] f (f(k \<mapsto> b))" if "f k = None" for f
    using that by (auto simp: wrote_def map_le_def)
  obtain q p1 where g: "oc_get client k p = (q, p1)" by (cases "oc_get client k p")
  note p1 = get_keeps [OF g]
  consider e where "q = Inl e" | s where "q = Inr (Some s)" | "q = Inr None" by (cases q) (auto simp: option.split_sel)
  then have "(objects p' = objects p \<or> wrote [(k, b)] (objects p) (objects p')) \<and>
    (\<forall>u. r = Inr u \<longrightarrow> wrote [(k, b)] (objects p) (objects p'))"
  proof cases
    case 1
    with assms g have "r = Inl e" "p' = p1" by (auto simp: putExact_def thenDo_def)
    with p1 show ?thesis by simp
  next
    case 2
    with get_result g have "objects p k = Some s" by simp
    moreover from assms g 2 have "(r, p') = (throwUnless (s = b) (TypeError ''staged epoch object conflict''), p1)"
      by (simp add: putExact_def thenDo_def checkThat_def liftA_def)
    ultimately show ?thesis using p1 by (auto simp: wrote_def throwUnless_def split: if_splits)
  next
    case 3
    with get_result g have n: "objects p1 k = None" using p1 by simp
    moreover from assms g 3 have "oc_put client k b p1 = (r, p')" by (simp add: putExact_def thenDo_def)
    ultimately show ?thesis using put_result put_keeps w [of "objects p1", OF n] p1 by metis
  qed
  then show "objects p' = objects p \<or> wrote [(k, b)] (objects p) (objects p')"
    and "r = Inr u \<Longrightarrow> wrote [(k, b)] (objects p) (objects p')" by blast+
qed

lemma put_all_outcome:
  "put_all client os p = (r, p') \<Longrightarrow> \<exists>n. wrote (take n os) (objects p) (objects p') \<and> (r = Inr () \<longrightarrow> n = length os)"
proof (induction os arbitrary: p)
  case Nil
  then show ?case by (auto simp: wrote_def)
next
  case (Cons kb os)
  obtain q p1 where g: "putExact client (fst kb) (snd kb) p = (q, p1)" by fastforce
  note out = putExact_outcome [OF g]
  show ?case
  proof (cases q)
    case (Inl e)
    with Cons.prems g have r: "r = Inl e" "p' = p1" by (simp_all add: thenDo_def)
    have "\<exists>n. wrote (take n (kb # os)) (objects p) (objects p1)"
    proof (cases "objects p1 = objects p")
      case True
      then show ?thesis by (intro exI [of _ 0]) (simp add: wrote_def)
    next
      case False
      with out(1) show ?thesis by (intro exI [of _ 1]) simp
    qed
    with r show ?thesis by simp
  next
    case (Inr u)
    with Cons.prems g have "put_all client os p1 = (r, p')" by (simp add: thenDo_def)
    from Cons.IH [OF this] obtain n where "wrote (take n os) (objects p1) (objects p')" "r = Inr () \<longrightarrow> n = length os" by blast
    with wrote_Cons [of kb "objects p" "objects p1"] out(2) Inr show ?thesis by (intro exI [of _ "Suc n"]) simp
  qed
qed

lemma delete_all_outcome:
  "delete_all client ks p = (r, p') \<Longrightarrow>
    \<exists>n. objects p' = objects p |` (- set (take n ks)) \<and> (r = Inr () \<longrightarrow> n = length ks)"
proof (induction ks arbitrary: p)
  case Nil
  then show ?case by auto
next
  case (Cons k ks)
  obtain q p1 where g: "oc_delete client k p = (q, p1)" by fastforce
  have one: "f |` (- set (take (Suc n) (k # ks))) = f(k := None) |` (- set (take n ks))" for f :: "string \<Rightarrow> bytes option" and n
    by (rule ext) (simp add: restrict_map_def)
  show ?case
  proof (cases q)
    case (Inl e)
    with Cons.prems g have r: "r = Inl e" "p' = p1" by (simp_all add: thenDo_def)
    from delete_keeps [OF g] have "\<exists>n. objects p1 = objects p |` (- set (take n (k # ks)))"
    proof
      assume "objects p1 = objects p"
      then show ?thesis by (intro exI [of _ 0]) (simp add: restrict_map_def)
    next
      assume "objects p1 = (objects p)(k := None)"
      then show ?thesis by (intro exI [of _ "Suc 0"]) (auto simp: restrict_map_def)
    qed
    with r show ?thesis by simp
  next
    case (Inr u)
    with Cons.prems g have "delete_all client ks p1 = (r, p')" by (simp add: thenDo_def)
    from Cons.IH [OF this] obtain n where n: "objects p' = objects p1 |` (- set (take n ks))" "r = Inr () \<longrightarrow> n = length ks" by blast
    moreover from delete_result g Inr have "objects p1 = (objects p)(k := None)" by simp
    ultimately show ?thesis using one [of "objects p" n] by (intro exI [of _ "Suc n"]) simp
  qed
qed

end

section \<open>Sealing as a sequence of writes\<close>

definition cut_from :: "staging_env \<Rightarrow> string \<Rightarrow> audit_record list \<Rightarrow> staging_segment \<Rightarrow> bool" where
  "cut_from env ep batch s \<longleftrightarrow> batch \<noteq> [] \<and> segment_of env ep batch = Inr s"

definition bytes_of :: "staging_env \<Rightarrow> audit_record list \<Rightarrow> staging_segment \<Rightarrow> bytes \<Rightarrow> bool" where
  "bytes_of env batch s body \<longleftrightarrow> encodeNdjson batch = Inr body \<and> re_sha_bytes (sv_retention env) body = sg_contentSha256 s"

lemma cut_from_E:
  assumes "cut_from env ep batch s"
  obtains body where "bytes_of env batch s body" "batch \<noteq> []" "sg_recordCount s = int (length batch)"
    "sg_fromSequence s = rec_sequence (hd batch)" "sg_toSequence s = rec_sequence (last batch)"
    "sg_firstPreviousHash s = rec_previousHash (hd batch)" "sg_lastHash s = rec_hash (last batch)"
proof -
  from assms obtain body where "encodeNdjson batch = Inr body" "batch \<noteq> []"
    "s = \<lparr>sg_fromSequence = rec_sequence (hd batch), sg_toSequence = rec_sequence (last batch),
       sg_recordCount = int (length batch), sg_firstPreviousHash = rec_previousHash (hd batch),
       sg_lastHash = rec_hash (last batch), sg_contentSha256 = re_sha_bytes (sv_retention env) body,
       sg_objectKey = segment_key ep (rec_sequence (hd batch)) (rec_sequence (last batch))\<rparr>"
    unfolding cut_from_def segment_of_def andThen_Inr_iff by blast
  then show thesis by (intro that [of body]) (simp_all add: bytes_of_def)
qed

lemma put_segments_puts:
  "list_all2 (cut_from env ep) bs segs \<Longrightarrow> \<exists>bodies. length bodies = length segs \<and>
     (\<forall>i < length segs. bytes_of env (bs ! i) (segs ! i) (bodies ! i)) \<and>
     (\<forall>client :: 'p object_client. put_segments client (concat bs) segs = put_all client (zip (map sg_objectKey segs) bodies))"
proof (induction rule: list_all2_induct)
  case (Cons b bs s segs)
  from Cons.IH obtain bodies where i: "length bodies = length segs" "\<forall>i < length segs. bytes_of env (bs ! i) (segs ! i) (bodies ! i)"
     "\<forall>client :: 'p object_client. put_segments client (concat bs) segs = put_all client (zip (map sg_objectKey segs) bodies)" by blast
  from Cons(1) obtain body where b: "bytes_of env b s body" "sg_recordCount s = int (length b)" by (rule cut_from_E)
  then have "encodeNdjson b = Inr body" by (simp add: bytes_of_def)
  with b(2) i(3) have "\<forall>client :: 'p object_client. put_segments client (concat (b # bs)) (s # segs) = put_all client (zip (map sg_objectKey (s # segs)) (body # bodies))"
    by simp
  with b(1) i(1,2) show ?case by (intro exI [of _ "body # bodies"]) (auto simp: nth_Cons split: nat.splits)
qed simp

lemma deriveEpoch_E:
  assumes "deriveEpoch env keys input = Inr m"
  obtains bs sq h where "list_all2 (cut_from env (manifest_prefix keys m)) bs (mf_segments m)" "concat bs = si_records input"
    "check_epoch_records (re_sha (sv_retention env)) (si_tenantId input) sq h (si_records input) = Inr ()"
    "validateManifest env (manifest_value m) keys = Inr ()" "si_records input \<noteq> []"
    "mf_tenantId m = si_tenantId input" "mf_epoch m = si_epoch input" "mf_fromSequence m = rec_sequence (hd (si_records input))"
    "mf_fromPreviousHash m = rec_previousHash (hd (si_records input))"
    "mf_throughSequence m = rec_sequence (last (si_records input))"
    "mf_throughHash m = rec_hash (last (si_records input))" "mf_recordCount m = int (length (si_records input))"
proof -
  let ?n = "JNum (case si_segmentRecordCount input of None \<Rightarrow> NInt 1000 | Some n \<Rightarrow> n)"
  define chunk where "chunk = (case ?n of JNum (NInt n) \<Rightarrow> nat n | _ \<Rightarrow> 0)"
  let ?ep = "epochKeyPrefix keys (si_tenantId input) (si_epoch input)"
  from assms obtain ph ch segs tx where d: "assertSafeInteger ?n ''segmentRecordCount'' = Inr ()"
      "validateSealInput env input = Inr (ph, ch)" "collect (map (segment_of env ?ep) (batches chunk (si_records input))) = Inr segs"
      "canonicalJson (JArr (map providerNeutralDescriptor segs)) = Inr tx"
      "m = \<lparr>mf_recordType = ''retention.staging.manifest'', mf_schemaVersion = ''1.0'',
        mf_tenantId = si_tenantId input, mf_epoch = si_epoch input, mf_fromSequence = rec_sequence (hd (si_records input)),
        mf_fromPreviousHash = ph, mf_throughSequence = rec_sequence (last (si_records input)),
        mf_throughHash = rec_hash (last (si_records input)), mf_recordCount = int (length (si_records input)),
        mf_previousCheckpointHash = ch, mf_archiveRootHash = re_sha (sv_retention env) tx,
        mf_segments = segs, mf_manifestKey = manifest_key ?ep\<rparr>"
      "validateManifest env (manifest_value m) keys = Inr ()"
    unfolding deriveEpoch_def Let_def chunk_def [symmetric] by (auto simp: andThen_Inr_iff)
  have "0 < chunk" using d(1) by (auto simp: chunk_def assertSafeInteger_def is_safe_integer_from_def split: jsnumber.splits)
  note b = batches_facts [OF this]
  have cut: "list_all2 (cut_from env ?ep) (batches chunk (si_records input)) segs"
    using d(3) b(2) [of _ "si_records input"] by (auto simp: collect_map_iff cut_from_def list_all2_conv_all_nth)
  from d(2) obtain sq h where v: "si_records input \<noteq> []" "ph = rec_previousHash (hd (si_records input))"
      "check_epoch_records (re_sha (sv_retention env)) (si_tenantId input) sq h (si_records input) = Inr ()"
    unfolding validateSealInput_def by (auto simp: andThen_Inr_iff)
  show thesis
    by (rule that [of "batches chunk (si_records input)" sq h]) (use cut b(1) v d(5,6) in \<open>simp_all add: manifest_prefix_def\<close>)
qed


text \<open>The objects of an epoch in the order in which they are written.\<close>

definition epoch_objects :: "staging_manifest \<Rightarrow> bytes list \<Rightarrow> string \<Rightarrow> (string \<times> bytes) list" where
  "epoch_objects m bodies t = zip (map sg_objectKey (mf_segments m)) bodies @ [(mf_manifestKey m, utf8_encode t)]"

lemma epoch_objects_keys: "length bodies = length (mf_segments m) \<Longrightarrow> map fst (epoch_objects m bodies t) = epoch_keys m"
  by (simp add: epoch_objects_def epoch_keys_def)

lemma sealEpoch_puts:
  assumes "deriveEpoch env keys input = Inr m"
  obtains bs bodies t where "list_all2 (cut_from env (manifest_prefix keys m)) bs (mf_segments m)" "concat bs = si_records input"
    "length bodies = length (mf_segments m)" "canonicalJson (manifest_value m) = Inr t"
    "\<And>i. i < length (mf_segments m) \<Longrightarrow> bytes_of env (bs ! i) (mf_segments m ! i) (bodies ! i)"
    "\<And>client :: 'p object_client. sealEpoch env client keys input = thenDo (put_all client (epoch_objects m bodies t)) (\<lambda>_. pureA m)"
proof -
  from assms obtain bs where bs: "list_all2 (cut_from env (manifest_prefix keys m)) bs (mf_segments m)" "concat bs = si_records input"
    by (rule deriveEpoch_E)
  from put_segments_puts [OF bs(1)] obtain bodies where b: "length bodies = length (mf_segments m)"
    "\<forall>i < length (mf_segments m). bytes_of env (bs ! i) (mf_segments m ! i) (bodies ! i)"
    "\<forall>client :: 'p object_client. put_segments client (si_records input) (mf_segments m) = put_all client (zip (map sg_objectKey (mf_segments m)) bodies)"
    unfolding bs(2) by blast
  obtain t where t: "canonicalJson (manifest_value m) = Inr t" using manifest_text by blast
  have "sealEpoch env client keys input = thenDo (put_all client (epoch_objects m bodies t)) (\<lambda>_. pureA m)"
    for client :: "'p object_client"
    using b(3) by (simp add: sealEpoch_def assms t epoch_objects_def put_all_append thenDo_assoc)
  with that bs b(1,2) t show thesis by blast
qed

lemma seal_failed: "deriveEpoch env keys input = Inl e \<Longrightarrow> sealEpoch env client keys input p = (Inl e, p)"
  by (simp add: sealEpoch_def)

context object_store
begin

lemma seal_wrote:
  assumes "deriveEpoch env keys input = Inr m" "sealEpoch env client keys input p = (r, p')"
  obtains bodies t n where "length bodies = length (mf_segments m)" "canonicalJson (manifest_value m) = Inr t"
    "\<And>i. i < length (mf_segments m) \<Longrightarrow> re_sha_bytes (sv_retention env) (bodies ! i) = sg_contentSha256 (mf_segments m ! i)"
    "wrote (take n (epoch_objects m bodies t)) (objects p) (objects p')" "r = Inr m \<or> (\<exists>e. r = Inl e)"
    "r = Inr m \<Longrightarrow> n = length (epoch_objects m bodies t)"
proof -
  from assms(1) obtain bs bodies t where s: "length bodies = length (mf_segments m)" "canonicalJson (manifest_value m) = Inr t"
    "\<And>i. i < length (mf_segments m) \<Longrightarrow> bytes_of env (bs ! i) (mf_segments m ! i) (bodies ! i)"
    "sealEpoch env client keys input = thenDo (put_all client (epoch_objects m bodies t)) (\<lambda>_. pureA m)"
    by (rule sealEpoch_puts [where 'p = 'a]) blast
  obtain q p1 where g: "put_all client (epoch_objects m bodies t) p = (q, p1)" by fastforce
  from put_all_outcome [OF g] obtain n where n: "wrote (take n (epoch_objects m bodies t)) (objects p) (objects p1)"
    "q = Inr () \<longrightarrow> n = length (epoch_objects m bodies t)" by blast
  from assms(2) g have "p' = p1 \<and> (case q of Inl e \<Rightarrow> r = Inl e | Inr _ \<Rightarrow> r = Inr m)"
    unfolding s(4) by (cases q) (auto simp: thenDo_def)
  with n s(1-3) show thesis by (intro that [of bodies t n]) (auto simp: bytes_of_def split: sum.splits)
qed

text \<open>Once the manifest is there, every segment is.\<close>

lemma wrote_manifest_last:
  assumes "wrote (take n (epoch_objects m bodies t)) f g" "f (mf_manifestKey m) = None" "g (mf_manifestKey m) \<noteq> None"
    and "distinct (epoch_keys m)" "length bodies = length (mf_segments m)"
  shows "wrote (epoch_objects m bodies t) f g"
proof -
  let ?os = "epoch_objects m bodies t"
  have "mf_manifestKey m \<in> fst ` set (take n ?os)" using assms(1-3) unfolding wrote_def by blast
  then have "mf_manifestKey m \<in> set (take n (epoch_keys m))"
    unfolding epoch_objects_keys [OF assms(5), of t, symmetric] by (simp add: take_map)
  moreover have "mf_manifestKey m \<notin> set (take n (map sg_objectKey (mf_segments m)))"
    using assms(4) by (auto simp: epoch_keys_def dest: in_set_takeD)
  ultimately have "length (mf_segments m) < n" by (cases "n - length (mf_segments m)") (auto simp: epoch_keys_def)
  then have "take n ?os = ?os" using assms(5) by (simp add: epoch_objects_def)
  with assms(1) show ?thesis by simp
qed

lemma seal_adds_only:
  assumes "sealEpoch env client keys input p = (r, p')"
  shows "objects p \<subseteq>\<^sub>m objects p'"
    and "objects p k = None \<Longrightarrow> objects p' k \<noteq> None \<Longrightarrow> \<exists>m. deriveEpoch env keys input = Inr m \<and> k \<in> set (epoch_keys m) \<and>
      (k = mf_manifestKey m \<longrightarrow> (\<forall>s \<in> set (mf_segments m). \<exists>body. objects p' (sg_objectKey s) = Some body \<and>
        re_sha_bytes (sv_retention env) body = sg_contentSha256 s))"
proof -
  have "objects p \<subseteq>\<^sub>m objects p' \<and> (objects p k = None \<and> objects p' k \<noteq> None \<longrightarrow>
    (\<exists>m. deriveEpoch env keys input = Inr m \<and> k \<in> set (epoch_keys m) \<and>
      (k = mf_manifestKey m \<longrightarrow> (\<forall>s \<in> set (mf_segments m). \<exists>body. objects p' (sg_objectKey s) = Some body \<and>
        re_sha_bytes (sv_retention env) body = sg_contentSha256 s))))" for k
  proof (cases "deriveEpoch env keys input")
    case (Inl e)
    with assms have "p' = p" by (simp add: seal_failed)
    then show ?thesis by auto
  next
    case (Inr m)
    from seal_wrote [OF Inr assms] obtain bodies t n where s: "length bodies = length (mf_segments m)"
        "\<And>i. i < length (mf_segments m) \<Longrightarrow> re_sha_bytes (sv_retention env) (bodies ! i) = sg_contentSha256 (mf_segments m ! i)"
        "wrote (take n (epoch_objects m bodies t)) (objects p) (objects p')" by metis
    have "validateManifest env (manifest_value m) keys = Inr ()" using Inr by (rule deriveEpoch_E)
    then have d: "distinct (epoch_keys m)" by (rule epoch_keys_facts)
    have new: "k \<in> set (epoch_keys m)" if "objects p k = None" "objects p' k \<noteq> None"
    proof -
      have "k \<in> fst ` set (take n (epoch_objects m bodies t))" using s(3) that unfolding wrote_def by blast
      then have "k \<in> set (map fst (epoch_objects m bodies t))" by (auto dest: in_set_takeD)
      then show ?thesis by (simp only: epoch_objects_keys [OF s(1)])
    qed
    have stored: "\<exists>body. objects p' (sg_objectKey g) = Some body \<and> re_sha_bytes (sv_retention env) body = sg_contentSha256 g"
      if new: "objects p (mf_manifestKey m) = None" "objects p' (mf_manifestKey m) \<noteq> None" and g: "g \<in> set (mf_segments m)" for g
    proof -
      note w = wrote_manifest_last [OF s(3) new d s(1)]
      from g obtain i where i: "i < length (mf_segments m)" "g = mf_segments m ! i" by (auto simp: in_set_conv_nth)
      then have "(sg_objectKey g, bodies ! i) \<in> set (epoch_objects m bodies t)"
        unfolding epoch_objects_def set_append set_zip using s(1) by (intro UnI1 CollectI exI [of _ i]) simp
      with w s(2) [OF i(1)] i(2) show ?thesis by (force simp: wrote_def)
    qed
    from Inr s(3) new stored show ?thesis by (auto simp: wrote_def)
  qed
  then show "objects p \<subseteq>\<^sub>m objects p'"
    and "objects p k = None \<Longrightarrow> objects p' k \<noteq> None \<Longrightarrow> \<exists>m. deriveEpoch env keys input = Inr m \<and> k \<in> set (epoch_keys m) \<and>
      (k = mf_manifestKey m \<longrightarrow> (\<forall>s \<in> set (mf_segments m). \<exists>body. objects p' (sg_objectKey s) = Some body \<and>
        re_sha_bytes (sv_retention env) body = sg_contentSha256 s))" by blast+
qed

end

section \<open>Deleting and confirming\<close>

lemma deleteEpoch_puts:
  "deleteEpoch env client keys m = thenDo (liftA (validateManifest env (manifest_value m) keys)) (\<lambda>_. delete_all client (epoch_keys m))"
proof -
  have app: "delete_all client (ks @ ls) = thenDo (delete_all client ks) (\<lambda>_. delete_all client ls)" for ks ls
    by (induction ks) (simp_all add: thenDo_assoc)
  have "thenDo (oc_delete client k) (\<lambda>_. pureA ()) = oc_delete client k" for k
    by (rule ext) (auto simp: thenDo_def pureA_def split: prod.splits sum.splits)
  then show ?thesis unfolding deleteEpoch_def epoch_keys_def app by simp
qed

context object_store
begin

lemma delete_outcome:
  assumes "deleteEpoch env client keys m p = (r, p')"
  shows "\<exists>n. objects p' = objects p |` (- set (take n (epoch_keys m))) \<and> (r = Inr () \<longrightarrow> n = length (epoch_keys m)) \<and>
    (n \<noteq> 0 \<or> r = Inr () \<longrightarrow> validateManifest env (manifest_value m) keys = Inr ())"
proof (cases "validateManifest env (manifest_value m) keys")
  case (Inl e)
  with assms have "r = Inl e" "p' = p" by (auto simp: deleteEpoch_puts)
  then show ?thesis by (intro exI [of _ 0]) (simp add: restrict_map_def)
next
  case (Inr u)
  with assms have "delete_all client (epoch_keys m) p = (r, p')" by (simp add: deleteEpoch_puts)
  from delete_all_outcome [OF this] Inr show ?thesis by auto
qed

lemma delete_only:
  assumes "deleteEpoch env client keys m p = (r, p')"
  shows "k \<notin> set (epoch_keys m) \<Longrightarrow> objects p' k = objects p k"
    and "r = Inr () \<Longrightarrow> k \<in> set (epoch_keys m) \<Longrightarrow> objects p' k = None"
    and "objects p' (mf_manifestKey m) \<noteq> objects p (mf_manifestKey m) \<Longrightarrow> k \<in> set (epoch_keys m) \<Longrightarrow> objects p' k = None"
proof -
  from delete_outcome [OF assms] obtain n where n: "objects p' = objects p |` (- set (take n (epoch_keys m)))"
      "r = Inr () \<longrightarrow> n = length (epoch_keys m)" "n \<noteq> 0 \<or> r = Inr () \<longrightarrow> validateManifest env (manifest_value m) keys = Inr ()" by blast
  show "k \<notin> set (epoch_keys m) \<Longrightarrow> objects p' k = objects p k" using n(1) by (auto simp: restrict_map_def dest: in_set_takeD)
  show "r = Inr () \<Longrightarrow> k \<in> set (epoch_keys m) \<Longrightarrow> objects p' k = None" using n(1,2) by (simp add: restrict_map_def)
  assume c: "objects p' (mf_manifestKey m) \<noteq> objects p (mf_manifestKey m)" "k \<in> set (epoch_keys m)"
  then have mem: "mf_manifestKey m \<in> set (take n (epoch_keys m))" using n(1) by (auto simp: restrict_map_def split: if_splits)
  then have "n \<noteq> 0" by (cases n) auto
  with n(3) have "distinct (epoch_keys m)" by (auto intro: epoch_keys_facts)
  then have "mf_manifestKey m \<notin> set (take n (map sg_objectKey (mf_segments m)))" by (auto simp: epoch_keys_def dest: in_set_takeD)
  with mem have "length (mf_segments m) < n" by (cases "n - length (mf_segments m)") (auto simp: epoch_keys_def)
  then have "take n (epoch_keys m) = epoch_keys m" by (simp add: epoch_keys_def)
  with n(1) c(2) show "objects p' k = None" by (simp add: restrict_map_def)
qed

lemma reads_absent_keeps: "reads_absent client b ks p = (r, p') \<Longrightarrow> objects p' = objects p"
proof (induction ks arbitrary: b p)
  case (Cons k ks)
  obtain q p1 where g: "oc_get client k p = (q, p1)" by fastforce
  from get_keeps [OF g] Cons g show ?case by (cases q) (auto simp: thenDo_def)
qed simp

lemma confirm_sound:
  assumes "confirmEpochAbsent env client keys m p = (Inr b, p')"
  shows "objects p' = objects p"
    and "b \<Longrightarrow> prefix (manifest_prefix keys m @ ''/'') k \<Longrightarrow> objects p k = None"

proof -
  from assms obtain q p1 l where c: "reads_absent client True (epoch_keys m) p = (Inr q, p1)"
      "oc_list client (manifest_prefix keys m @ ''/'') p1 = (Inr l, p')" "b \<longleftrightarrow> q \<and> l = []"
    unfolding confirmEpochAbsent_def manifest_prefix_def by (elim thenDo_lift_E thenDo_E) auto
  note k = reads_absent_keeps [OF c(1)] list_keeps [OF c(2)]
  then show "objects p' = objects p" by simp
  show "b \<Longrightarrow> prefix (manifest_prefix keys m @ ''/'') k \<Longrightarrow> objects p k = None"
    using list_result [OF c(2)] c(3) k by auto
qed

end

lemma strings_text: "\<exists>t. canonicalJson (strings_value xs) = Inr t"
proof -
  have "normalizeForJson (strings_value xs) = Inr (strings_value xs)"
    unfolding strings_value_def normalize_array_iff
    by (intro exI [of _ "map JStr xs"]) (auto simp: list.rel_map list_all2_same normalizeForJson.simps null_if_undefined_def)
  then show ?thesis by (simp add: canonicalJson_def strings_value_def)
qed

section \<open>A client that does not fail\<close>

context reliable_store
begin

lemma get_inr: obtains p' where "oc_get client k p = (Inr (objects p k), p')" "objects p' = objects p"
  using get_returns [of k p] get_result get_keeps by (metis prod.inject)

lemma put_all_returns:
  assumes "\<forall>kb \<in> set os. objects p (fst kb) \<in> {None, Some (snd kb)}" "distinct (map fst os)"
  shows "\<exists>p'. put_all client os p = (Inr (), p')"
  using assms
proof (induction os arbitrary: p)
  case (Cons kb os)
  have "\<exists>p1. putExact client (fst kb) (snd kb) p = (Inr (), p1)"
  proof -
    obtain p1 where g: "oc_get client (fst kb) p = (Inr (objects p (fst kb)), p1)" by (rule get_inr)
    obtain p2 where "oc_put client (fst kb) (snd kb) p1 = (Inr (), p2)" using put_returns by blast
    with g Cons.prems(1) show ?thesis by (auto simp: putExact_def thenDo_def checkThat_def liftA_def)
  qed
  then obtain p1 where p1: "putExact client (fst kb) (snd kb) p = (Inr (), p1)" by blast
  from putExact_outcome(2) [OF p1] have w: "wrote [kb] (objects p) (objects p1)" by simp
  have "objects p1 k = objects p k" if "k \<noteq> fst kb" for k
  proof (cases "objects p k")
    case None
    then show ?thesis using w that by (auto simp: wrote_def subset_iff domIff)
  next
    case (Some b)
    then show ?thesis using w by (auto simp: wrote_def map_le_def dom_def)
  qed
  moreover have "fst kb' \<noteq> fst kb" if "kb' \<in> set os" for kb' using Cons.prems(2) that by (metis distinct.simps(2) image_eqI list.map(2) set_map)
  ultimately have "\<forall>kb \<in> set os. objects p1 (fst kb) \<in> {None, Some (snd kb)}" using Cons.prems(1) by simp
  from Cons.IH [OF this] Cons.prems(2) p1 show ?case by (auto simp: thenDo_def)
qed simp

lemma delete_all_returns: "\<exists>p'. delete_all client ks p = (Inr (), p')"
proof (induction ks arbitrary: p)
  case (Cons k ks)
  obtain p1 where p1: "oc_delete client k p = (Inr (), p1)" using delete_returns by blast
  obtain p2 where "delete_all client ks p1 = (Inr (), p2)" using Cons.IH by blast
  with p1 show ?case by (simp add: thenDo_def)
qed simp

lemma reads_absent_returns: "\<exists>p'. reads_absent client b ks p = (Inr (b \<and> (\<forall>k \<in> set ks. objects p k = None)), p')"
proof (induction ks arbitrary: b p)
  case (Cons k ks)
  obtain p1 where p1: "oc_get client k p = (Inr (objects p k), p1)" "objects p1 = objects p" by (rule get_inr)
  from Cons.IH [of "if objects p k \<noteq> None then False else b" p1] p1 show ?case by (auto simp: thenDo_def)
qed simp

lemma confirm_returns:
  assumes "validateManifest env (manifest_value m) keys = Inr ()"
  shows "\<exists>p'. confirmEpochAbsent env client keys m p = (Inr (\<forall>k. prefix (manifest_prefix keys m @ ''/'') k \<longrightarrow> objects p k = None), p')"
proof -
  let ?pre = "manifest_prefix keys m @ ''/''"
  obtain p1 where p1: "reads_absent client True (epoch_keys m) p = (Inr (\<forall>k \<in> set (epoch_keys m). objects p k = None), p1)"
    using reads_absent_returns [of True] by auto
  note k = reads_absent_keeps [OF p1]
  obtain l p2 where l: "oc_list client ?pre p1 = (Inr l, p2)" using list_returns by blast
  have sl: "set l = {k. prefix ?pre k \<and> objects p k \<noteq> None}" using list_result [OF l] k by simp
  have "l = [] \<longleftrightarrow> set l = {}" by (rule set_empty [symmetric])
  also have "\<dots> \<longleftrightarrow> (\<forall>k. prefix ?pre k \<longrightarrow> objects p k = None)" unfolding sl by (simp only: Collect_empty_eq de_Morgan_conj not_not imp_conv_disj)
  finally have "l = [] \<longleftrightarrow> (\<forall>k. prefix ?pre k \<longrightarrow> objects p k = None)" .
  moreover have "(\<forall>k. prefix ?pre k \<longrightarrow> objects p k = None) \<Longrightarrow> (\<forall>k \<in> set (epoch_keys m). objects p k = None)"
    using epoch_keys_facts(2) [OF assms] by blast
  moreover have "confirmEpochAbsent env client keys m p = (Inr ((\<forall>k \<in> set (epoch_keys m). objects p k = None) \<and> l = []), p2)"
    unfolding confirmEpochAbsent_def manifest_prefix_def [symmetric] assms by (simp add: thenDo_step(1) [where m = "reads_absent _ _ _", OF p1] thenDo_step(1) [where m = "oc_list _ _", OF l])
  ultimately show ?thesis by auto
qed


lemma verify_segments_returns:
  assumes "list_all2 (cut_from env ep) bs segs" "check_epoch_records (re_sha (sv_retention env)) t sq h (concat bs) = Inr ()"
    and "length bodies = length segs" "\<And>i. i < length segs \<Longrightarrow> bytes_of env (bs ! i) (segs ! i) (bodies ! i)"
    and "\<And>i. i < length segs \<Longrightarrow> objects p (sg_objectKey (segs ! i)) = Some (bodies ! i)"
    and "\<forall>r \<in> set (concat bs). storable env r"
  shows "\<exists>p'. verify_segments env client t sq (nullable_json h) n segs p =
    (Inr (sq + int (length (concat bs)), if segs = [] then nullable_json h else JStr (rec_hash (last (concat bs))),
      n + int (length (concat bs))), p')"
  using assms
proof (induction bs segs arbitrary: sq h n p bodies rule: list_all2_induct)
  case (Cons b bs s segs)
  obtain body rest where bodies: "bodies = body # rest" using Cons.prems(2) by (cases bodies) auto
  have body: "bytes_of env b s body" "objects p (sg_objectKey s) = Some body"
    using Cons.prems(3) [of 0] Cons.prems(4) [of 0] bodies by simp_all
  from Cons(1) have cut: "b \<noteq> []" "sg_recordCount s = int (length b)"
    "sg_fromSequence s = rec_sequence (hd b)" "sg_toSequence s = rec_sequence (last b)"
    "sg_firstPreviousHash s = rec_previousHash (hd b)" "sg_lastHash s = rec_hash (last b)" by (auto elim: cut_from_E)
  have check: "check_epoch_records (re_sha (sv_retention env)) t sq h b = Inr ()"
      "check_epoch_records (re_sha (sv_retention env)) t (sq + int (length b)) (Some (rec_hash (last b))) (concat bs) = Inr ()"
    using Cons.prems(1) cut(1) by (simp_all add: check_epoch_records_append)
  have "\<forall>r \<in> set b. checked env t r"
    using check_epoch_records_each [OF check(1)] Cons.prems(5) by (simp add: checked_def)
  from batch_reads_back [OF _ cut(1) this] body(1) obtain ws where ws: "parseExactNdjson env body t = Inr ws" "list_all2 stands_for ws b"
    by (auto simp: bytes_of_def)
  have len: "length ws = length b" "ws \<noteq> []" using ws(2) cut(1) by (auto dest: list_all2_lengthD)
  have ends: "stands_for (hd ws) (hd b)" "stands_for (last ws) (last b)"
    using list_all2_nthD [OF ws(2), of 0] list_all2_nthD [OF ws(2), of "length ws - 1"] len cut(1)
    by (simp_all add: hd_conv_nth last_conv_nth)
  have "assertSegmentRecords s ws = Inr ()"
    using ends len cut by (simp add: assertSegmentRecords_def stands_for_def throwUnless_def)
  moreover have "check_links sq (nullable_json h) ws = Inr (sq + int (length b), nullable_json (Some (rec_hash (last b))))"
    using checked_links [OF ws(2) check(1)] cut(1) by (simp add: nullable_json_def [of "Some _"])
  moreover obtain p1 where p1: "oc_get client (sg_objectKey s) p = (Inr (Some body), p1)" "objects p1 = objects p"
    using get_inr [of "sg_objectKey s" p] body(2) by metis
  ultimately have step: "verify_segments env client t sq (nullable_json h) n (s # segs) p =
      verify_segments env client t (sq + int (length b)) (nullable_json (Some (rec_hash (last b)))) (n + int (length b)) segs p1"
    using body(1) ws(1) len by (simp add: thenDo_step(1) [where m = "oc_get _ _", OF p1(1)] thenDo_check bytes_of_def)
  have "\<exists>p'. verify_segments env client t (sq + int (length b)) (nullable_json (Some (rec_hash (last b)))) (n + int (length b)) segs p1 =
    (Inr (sq + int (length b) + int (length (concat bs)), if segs = [] then nullable_json (Some (rec_hash (last b))) else JStr (rec_hash (last (concat bs))),
      n + int (length b) + int (length (concat bs))), p')"
  proof (rule Cons.IH [of _ _ rest])
    fix i assume i: "i < length segs"
    show "bytes_of env (bs ! i) (segs ! i) (rest ! i)" using Cons.prems(3) [of "Suc i"] i bodies by simp
    show "objects p1 (sg_objectKey (segs ! i)) = Some (rest ! i)" using Cons.prems(4) [of "Suc i"] i bodies p1(2) by simp
  qed (use check(2) Cons.prems(2,5) bodies in auto)
  moreover have "concat bs \<noteq> []" if "segs \<noteq> []"
    using Cons(2) that by (cases bs) (auto simp: list_all2_Cons1 cut_from_def)
  moreover have "bs = []" if "segs = []" using Cons(2) that by simp
  ultimately show ?case unfolding step by (auto simp: nullable_json_def [of "Some _"] add.assoc)
qed simp

text \<open>The objects below the prefix of an epoch are among those that sealing writes, or are exactly these.\<close>

lemma seal_returns:
  assumes "deriveEpoch env keys input = Inr m"
    and "\<And>k body. prefix (manifest_prefix keys m @ ''/'') k \<Longrightarrow> objects p k = Some body \<Longrightarrow>
      \<exists>p0 p1. objects p0 = Map.empty \<and> sealEpoch env client keys input p0 = (Inr m, p1) \<and> objects p1 k = Some body"
  shows "\<exists>p'. sealEpoch env client keys input p = (Inr m, p')"
proof -
  from assms(1) obtain bodies t where s: "length bodies = length (mf_segments m)" 
      "sealEpoch env client keys input = thenDo (put_all client (epoch_objects m bodies t)) (\<lambda>_. pureA m)"
    by (rule sealEpoch_puts [where 'p = 'a]) blast
  let ?os = "epoch_objects m bodies t"
  have "validateManifest env (manifest_value m) keys = Inr ()" using assms(1) by (rule deriveEpoch_E)
  note k = epoch_keys_facts [OF this]
  have d: "distinct (map fst ?os)" unfolding epoch_objects_keys [OF s(1)] by (rule k(1))
  have "objects p (fst kb) \<in> {None, Some (snd kb)}" if kb: "kb \<in> set ?os" for kb
  proof (cases "objects p (fst kb)")
    case (Some body)
    have "fst kb \<in> set (map fst ?os)" using kb by simp
    then have "prefix (manifest_prefix keys m @ ''/'') (fst kb)" unfolding epoch_objects_keys [OF s(1)] by (rule k(2))
    from assms(2) [OF this Some] obtain p0 p1 where p: "sealEpoch env client keys input p0 = (Inr m, p1)" "objects p1 (fst kb) = Some body" by blast
    from p(1) obtain q where "put_all client ?os p0 = (Inr (), q)" "p1 = q" unfolding s(2) by (auto simp: thenDo_Inr)
    with put_all_outcome [of ?os p0] have "wrote ?os (objects p0) (objects p1)" by force
    with kb p(2) Some show ?thesis by (auto simp: wrote_def)
  qed simp
  with d put_all_returns obtain p' where "put_all client ?os p = (Inr (), p')" by blast
  then show ?thesis unfolding s(2) by (auto simp: thenDo_def)
qed

lemma seal_then_verify:
  assumes "deriveEpoch env keys input = Inr m" "sealEpoch env client keys input p = (Inr m, p')"
    and "\<And>k. prefix (manifest_prefix keys m @ ''/'') k \<Longrightarrow> objects p k \<noteq> None \<Longrightarrow> k \<in> set (epoch_keys m)"
    and "reads_integers env" "list_all (storable env) (si_records input)"
  shows "\<exists>p''. verifyEpoch env client keys m p' = (Inr (StagingOk (mf_archiveRootHash m) (int (length (mf_segments m))) (mf_recordCount m)), p'')"
proof -
  from assms(1) obtain bs bodies t where s: "list_all2 (cut_from env (manifest_prefix keys m)) bs (mf_segments m)" "concat bs = si_records input"
      "length bodies = length (mf_segments m)" "canonicalJson (manifest_value m) = Inr t"
      "\<And>i. i < length (mf_segments m) \<Longrightarrow> bytes_of env (bs ! i) (mf_segments m ! i) (bodies ! i)"
      "sealEpoch env client keys input = thenDo (put_all client (epoch_objects m bodies t)) (\<lambda>_. pureA m)"
    by (rule sealEpoch_puts [where 'p = 'a]) blast
  let ?os = "epoch_objects m bodies t"
  from assms(1) obtain sq h where d: "check_epoch_records (re_sha (sv_retention env)) (si_tenantId input) sq h (si_records input) = Inr ()"
      "validateManifest env (manifest_value m) keys = Inr ()" "si_records input \<noteq> []" "mf_tenantId m = si_tenantId input"
      "mf_fromSequence m = rec_sequence (hd (si_records input))" "mf_fromPreviousHash m = rec_previousHash (hd (si_records input))"
      "mf_throughSequence m = rec_sequence (last (si_records input))"
      "mf_throughHash m = rec_hash (last (si_records input))" "mf_recordCount m = int (length (si_records input))"
    by (rule deriveEpoch_E)
  note k = epoch_keys_facts [OF d(2)] and e = check_epoch_records_ends [OF d(1,3)]
  from assms(2) have "put_all client ?os p = (Inr (), p')" unfolding s(6) by (auto simp: thenDo_Inr)
  with put_all_outcome [of ?os p] have w: "wrote ?os (objects p) (objects p')" by force
  have man: "objects p' (mf_manifestKey m) = Some (utf8_encode t)" using w by (auto simp: wrote_def epoch_objects_def)
  have seg: "objects p' (sg_objectKey (mf_segments m ! i)) = Some (bodies ! i)" if "i < length (mf_segments m)" for i
  proof -
    have "(sg_objectKey (mf_segments m ! i), bodies ! i) \<in> set ?os"
      unfolding epoch_objects_def set_append set_zip using that s(3) by (intro UnI1 CollectI exI [of _ i]) simp
    with w show ?thesis by (force simp: wrote_def)
  qed
  obtain l p1 where l: "oc_list client (manifest_prefix keys m @ ''/'') p' = (Inr l, p1)" using list_returns by blast
  note p1 = list_keeps [OF l]
  have keys: "fst ` set ?os = set (epoch_keys m)" using epoch_objects_keys [OF s(3)] by (metis set_map)
  have "set l = set (epoch_keys m)"
  proof (intro subset_antisym subsetI)
    fix x assume "x \<in> set l"
    then have x: "prefix (manifest_prefix keys m @ ''/'') x" "objects p' x \<noteq> None" using list_result [OF l] by auto
    then have "x \<in> dom (objects p) \<union> fst ` set ?os" using w unfolding wrote_def by blast
    with assms(3) [OF x(1)] show "x \<in> set (epoch_keys m)" unfolding keys by auto
  next
    fix x assume x: "x \<in> set (epoch_keys m)"
    then have "x \<in> fst ` set ?os" unfolding keys .
    with w have "objects p' x \<noteq> None" by (auto simp: wrote_def)
    with k(2) [OF x] list_result [OF l] show "x \<in> set l" by simp
  qed
  then have sorted: "sort l = sort (epoch_keys m)"
    using list_result [OF l] k(1) by (metis sorted_list_of_set_sort_remdups distinct_remdups_id)
  obtain p2 where p2: "oc_get client (mf_manifestKey m) p1 = (Inr (Some (utf8_encode t)), p2)" "objects p2 = objects p'"
    using get_inr [of "mf_manifestKey m" p1] man p1 by metis
  from manifest_reads_back [OF assms(4) d(2) s(4)] obtain w' where parsed: "parseManifest env t keys = Inr w'" "canonicalJson w' = Inr t" by blast
  have "\<exists>p'. verify_segments env client (si_tenantId input) sq (nullable_json h) 0 (mf_segments m) p2 =
    (Inr (sq + int (length (concat bs)), if mf_segments m = [] then nullable_json h else JStr (rec_hash (last (concat bs))),
      0 + int (length (concat bs))), p')"
    using s(1-3,5) d(1) seg p2(2) assms(5) by (intro verify_segments_returns [where bodies = bodies]) (auto simp: list_all_iff)
  then obtain p3 where p3: "verify_segments env client (mf_tenantId m) (mf_fromSequence m - 1) (nullable_json (mf_fromPreviousHash m)) 0 (mf_segments m) p2 =
    (Inr (mf_throughSequence m, JStr (mf_throughHash m), mf_recordCount m), p3)"
    using e d(4-9) validated_manifest(6) [OF d(2)] by (auto simp: s(2))
  obtain lt where lt: "canonicalJson (strings_value (sort (epoch_keys m))) = Inr lt" using strings_text by blast
  have "verify_contents env client keys m p' = (Inr (StagingOk (mf_archiveRootHash m) (int (length (mf_segments m))) (mf_recordCount m)), p3)"
    unfolding verify_contents_def manifest_prefix_def [symmetric] d(2) s(4)
    by (simp add: thenDo_step(1) [where m = "oc_list _ _", OF l] thenDo_step(1) [where m = "oc_get _ _", OF p2(1)]
      thenDo_step(1) [where m = "verify_segments _ _ _ _ _ _ _", OF p3] sorted lt thenDo_check parsed s(4))
  then show ?thesis by (auto simp: verifyEpoch_def report_type_error_def)
qed

end

end
