(* ===== verification/StagingEpochs.thy ===== *)
theory StagingEpochs
  imports StagingSteps "HOL-Library.AList"
begin

text \<open>
  What the staging archive promises of an epoch, over any object client that keeps the promises of
  \<open>object_store\<close>, and the client of the tests as its instance.
\<close>

section \<open>What the archive promises\<close>

text \<open>C27. A staged epoch that verifies is complete. Whatever client keeps the promises of an object store: the keys below the prefix of the epoch are exactly the manifest's, the manifest is stored with its canonical bytes, and every segment holds the digest its descriptor names over canonical records of the tenant, with their hashes, that follow one another from the anchor of the manifest to its tip and are as many as reported. Verifying changes nothing.\<close>

theorem verifyEpoch_complete:
  assumes "object_store client objects" "verifyEpoch env client keys m p = (Inr (StagingOk root segments n), p')"
  shows "objects p' = objects p \<and> root = mf_archiveRootHash m \<and> segments = int (length (mf_segments m)) \<and>
    {k. prefix (manifest_prefix keys m @ ''/'') k \<and> objects p k \<noteq> None} = set (epoch_keys m) \<and>
    (\<exists>t. canonicalJson (manifest_value m) = Inr t \<and> objects p (mf_manifestKey m) = Some (utf8_encode t)) \<and>
    (\<exists>bs. list_all2 (holds_segment env (objects p) (mf_tenantId m)) (mf_segments m) bs \<and>
      in_sequence (mf_fromSequence m - 1) (nullable_json (mf_fromPreviousHash m)) (concat bs) \<and>
      int (length (concat bs)) = n \<and> n = mf_recordCount m \<and>
      js_prop (last (concat bs)) ''hash'' = JStr (mf_throughHash m))"
proof -
  from assms(2) have "verify_contents env client keys m p = (Inr (StagingOk root segments n), p')"
    by (auto simp: verifyEpoch_def report_type_error_def split: prod.splits sum.splits js_error.splits)
  note v = object_store.verify_contents_sound [OF assms(1) this]
  from v(5) have "root = mf_archiveRootHash m" "segments = int (length (mf_segments m))" "n = mf_recordCount m" by simp_all
  with v(2,3,4,6) show ?thesis by auto
qed

text \<open>C28. Sealing can be resumed. After an attempt that a failing client broke off anywhere, on a store that held nothing of the epoch, sealing the same input again with a client that does not fail returns the derived manifest, and the epoch then verifies with the manifest's root, segment count and record count. The records have values for metadata and numbers that read back.\<close>

theorem sealEpoch_resumes:
  assumes "object_store crashing objects" "reliable_store client objects" "deriveEpoch env keys input = Inr m"
    and "sealEpoch env crashing keys input p = (r, p1)" "\<forall>k. prefix (manifest_prefix keys m @ ''/'') k \<longrightarrow> objects p k = None"
    and "reads_integers env" "list_all (storable env) (si_records input)"
  shows "\<exists>p2 p3. sealEpoch env client keys input p1 = (Inr m, p2) \<and> verifyEpoch env client keys m p2 =
    (Inr (StagingOk (mf_archiveRootHash m) (int (length (mf_segments m))) (mf_recordCount m)), p3)"
proof -
  from assms(3) obtain bodies t where s: "length bodies = length (mf_segments m)"
      "\<And>client :: 'a object_client. sealEpoch env client keys input = thenDo (put_all client (epoch_objects m bodies t)) (\<lambda>_. pureA m)"
    by (rule sealEpoch_puts [where 'p = 'a]) blast
  let ?os = "epoch_objects m bodies t"
  have "validateManifest env (manifest_value m) keys = Inr ()" using assms(3) by (rule deriveEpoch_E)
  note k = epoch_keys_facts [OF this]
  have d: "distinct (map fst ?os)" unfolding epoch_objects_keys [OF s(1)] by (rule k(1))
  have keys: "fst ` set ?os = set (epoch_keys m)" using epoch_objects_keys [OF s(1)] by (metis set_map)
  obtain q where "put_all crashing ?os p = (q, p1)"
    using assms(4) unfolding s(2) by (cases "put_all crashing ?os p") (auto simp: thenDo_def split: sum.splits)
  from object_store.put_all_outcome [OF assms(1) this] obtain n where w: "wrote (take n ?os) (objects p) (objects p1)" by blast
  have new: "k \<in> fst ` set (take n ?os)" if "prefix (manifest_prefix keys m @ ''/'') k" "objects p1 k \<noteq> None" for k
    using w assms(5) that by (auto simp: wrote_def)
  have "objects p1 (fst kb) \<in> {None, Some (snd kb)}" if kb: "kb \<in> set ?os" for kb
  proof (cases "objects p1 (fst kb)")
    case (Some body)
    have "prefix (manifest_prefix keys m @ ''/'') (fst kb)" using k(2) kb keys by blast
    from new [OF this] Some obtain b where "(fst kb, b) \<in> set (take n ?os)" by force
    moreover then have "(fst kb, b) = kb" using d kb in_set_takeD by (metis eq_key_imp_eq_value prod.collapse)
    ultimately show ?thesis using w by (auto simp: wrote_def)
  qed simp
  with reliable_store.put_all_returns [OF assms(2) _ d] obtain p2 where "put_all client ?os p1 = (Inr (), p2)" by blast
  then have seal: "sealEpoch env client keys input p1 = (Inr m, p2)" by (simp add: s(2) thenDo_def)
  have "k \<in> set (epoch_keys m)" if "prefix (manifest_prefix keys m @ ''/'') k" "objects p1 k \<noteq> None" for k
    using new [OF that] keys by (auto dest: in_set_takeD)
  from reliable_store.seal_then_verify [OF assms(2,3) seal this assms(6,7)] seal show ?thesis by blast
qed

text \<open>C29. Sealing never overwrites and writes the manifest last. However an attempt ends, no object of the store is changed or removed, every new key belongs to the derived manifest, and when the manifest's key is new, every segment it describes is stored with the digest of its descriptor.\<close>

theorem sealEpoch_adds_only:
  assumes "object_store client objects" "sealEpoch env client keys input p = (r, p')"
  shows "objects p \<subseteq>\<^sub>m objects p' \<and> (\<forall>k \<in> dom (objects p') - dom (objects p). \<exists>m. deriveEpoch env keys input = Inr m \<and>
    k \<in> set (epoch_keys m) \<and> (k = mf_manifestKey m \<longrightarrow> (\<forall>s \<in> set (mf_segments m). \<exists>body. objects p' (sg_objectKey s) = Some body \<and>
      re_sha_bytes (sv_retention env) body = sg_contentSha256 s)))"
  using object_store.seal_adds_only [OF assms] by (auto simp: dom_def)

text \<open>C30. Deleting removes objects of the manifest only, and the manifest itself after all segments. However an attempt ends, every other key is unchanged; if it succeeded, or if the manifest is no longer what it was, none of the manifest's keys is left.\<close>

theorem deleteEpoch_manifest_last:
  assumes "object_store client objects" "deleteEpoch env client keys m p = (r, p')"
  shows "(\<forall>k. k \<notin> set (epoch_keys m) \<longrightarrow> objects p' k = objects p k) \<and>
    (r = Inr () \<or> objects p' (mf_manifestKey m) \<noteq> objects p (mf_manifestKey m) \<longrightarrow> (\<forall>k \<in> set (epoch_keys m). objects p' k = None))"
  using object_store.delete_only [OF assms] by blast

text \<open>C31. A confirmed absence is real, and deletion reaches it. When the absence of an epoch is confirmed, by its manifest or by its checkpoint, no key is stored below the prefix of the epoch, and confirming changed nothing. With a client that does not fail, a valid manifest is deleted and its absence is confirmed unless other objects were below the prefix.\<close>

theorem confirmed_absence:
  assumes "object_store client objects"
  shows "(confirmEpochAbsent env client keys m p = (Inr True, p') \<longrightarrow> objects p' = objects p \<and>
      (\<forall>k. prefix (manifest_prefix keys m @ ''/'') k \<longrightarrow> objects p k = None)) \<and>
    (confirmCheckpointEpochAbsent env client keys c p = (Inr True, p') \<longrightarrow> objects p' = objects p \<and>
      (\<forall>k. prefix (epochKeyPrefix keys (cp_tenantId c) (cp_epoch c) @ ''/'') k \<longrightarrow> objects p k = None)) \<and>
    (reliable_store client objects \<and> validateManifest env (manifest_value m) keys = Inr () \<longrightarrow>
      (\<exists>p1 p2. deleteEpoch env client keys m p = (Inr (), p1) \<and> confirmEpochAbsent env client keys m p1 =
        (Inr (\<forall>k. prefix (manifest_prefix keys m @ ''/'') k \<and> objects p k \<noteq> None \<longrightarrow> k \<in> set (epoch_keys m)), p2)))"
proof (intro conjI impI)
  assume "confirmCheckpointEpochAbsent env client keys c p = (Inr True, p')"
  then obtain b p1 l where c: "oc_get client (manifest_key (epochKeyPrefix keys (cp_tenantId c) (cp_epoch c))) p = (Inr b, p1)"
      "oc_list client (epochKeyPrefix keys (cp_tenantId c) (cp_epoch c) @ ''/'') p1 = (Inr l, p')" "l = []"
    unfolding confirmCheckpointEpochAbsent_def Let_def by (elim thenDo_lift_E thenDo_E) auto
  note k = object_store.get_keeps [OF assms c(1)] object_store.list_keeps [OF assms c(2)]
  then show "objects p' = objects p" by simp
  show "\<forall>k. prefix (epochKeyPrefix keys (cp_tenantId c) (cp_epoch c) @ ''/'') k \<longrightarrow> objects p k = None"
    using object_store.list_result [OF assms c(2)] c(3) k by auto
next
  assume a: "reliable_store client objects \<and> validateManifest env (manifest_value m) keys = Inr ()"
  then obtain p1 where p1: "delete_all client (epoch_keys m) p = (Inr (), p1)" using reliable_store.delete_all_returns [of client objects "epoch_keys m" p] by blast
  with a have del: "deleteEpoch env client keys m p = (Inr (), p1)" by (simp add: deleteEpoch_puts)
  note o = object_store.delete_only [OF assms del]
  from a reliable_store.confirm_returns [of client objects env m keys p1] obtain p2 where
    "confirmEpochAbsent env client keys m p1 = (Inr (\<forall>k. prefix (manifest_prefix keys m @ ''/'') k \<longrightarrow> objects p1 k = None), p2)" by blast
  moreover have "(\<forall>k. prefix (manifest_prefix keys m @ ''/'') k \<longrightarrow> objects p1 k = None) \<longleftrightarrow>
     (\<forall>k. prefix (manifest_prefix keys m @ ''/'') k \<and> objects p k \<noteq> None \<longrightarrow> k \<in> set (epoch_keys m))"
    using o(1,2) by metis
  ultimately show "\<exists>p1 p2. deleteEpoch env client keys m p = (Inr (), p1) \<and> confirmEpochAbsent env client keys m p1 =
        (Inr (\<forall>k. prefix (manifest_prefix keys m @ ''/'') k \<and> objects p k \<noteq> None \<longrightarrow> k \<in> set (epoch_keys m)), p2)"
    using del by auto
qed (use object_store.confirm_sound [OF assms, of env keys m p True p'] in blast)+

text \<open>Tenants and epochs are kept apart in one store. However sealing or deleting an epoch ends, every key below the prefix of another epoch, or of any epoch of another tenant, holds what it held.\<close>

theorem epochs_isolated:
  assumes "object_store client objects" "id_pattern 128 t" "0 \<le> e" "prefix (epochKeyPrefix keys t e @ ''/'') k"
  shows "(sealEpoch env client keys input p = (r, p') \<and> (t, e) \<noteq> (si_tenantId input, si_epoch input) \<longrightarrow> objects p' k = objects p k) \<and>
    (deleteEpoch env client keys m p = (q, p') \<and> (t, e) \<noteq> (mf_tenantId m, mf_epoch m) \<longrightarrow> objects p' k = objects p k)"
proof -
  have apart: "k \<notin> set (epoch_keys m)" if v: "validateManifest env (manifest_value m) keys = Inr ()" "(t, e) \<noteq> (mf_tenantId m, mf_epoch m)" for m
  proof
    assume "k \<in> set (epoch_keys m)"
    from epoch_keys_facts(2) [OF v(1) this] obtain x where x: "k = epochKeyPrefix keys (mf_tenantId m) (mf_epoch m) @ ''/'' @ x"
      by (auto simp: manifest_prefix_def prefix_def)
    from assms(4) obtain y where "k = epochKeyPrefix keys t e @ ''/'' @ y" by (auto simp: prefix_def)
    with x epoch_prefix_inject [of t "mf_tenantId m" e "mf_epoch m" keys y x] validated_manifest(1,2) [OF v(1)] assms(2,3) v(2)
    show False by (auto simp: id_pattern_def)
  qed
  have "objects p' k = objects p k" if s: "sealEpoch env client keys input p = (r, p')" "(t, e) \<noteq> (si_tenantId input, si_epoch input)"
  proof (rule ccontr)
    assume ne: "objects p' k \<noteq> objects p k"
    with object_store.seal_adds_only(1) [OF assms(1) s(1)] have n: "objects p k = None" by (auto simp: map_le_def dom_def)
    with ne have "objects p' k \<noteq> None" by simp
    from object_store.seal_adds_only(2) [OF assms(1) s(1) n this] obtain m where m: "deriveEpoch env keys input = Inr m" "k \<in> set (epoch_keys m)" by blast
    have "validateManifest env (manifest_value m) keys = Inr ()" "mf_tenantId m = si_tenantId input" "mf_epoch m = si_epoch input"
      using m(1) by (auto elim: deriveEpoch_E)
    with apart m(2) s(2) show False by auto
  qed
  moreover have "objects p' k = objects p k" if s: "deleteEpoch env client keys m p = (q, p')" "(t, e) \<noteq> (mf_tenantId m, mf_epoch m)"
    using apart [OF _ s(2)] object_store.delete_only(1) [OF assms(1) s(1)]
    by (cases "validateManifest env (manifest_value m) keys") (use s(1) in \<open>auto simp: deleteEpoch_puts\<close>)
  ultimately show ?thesis by blast
qed


text \<open>The loop that cuts the records of an epoch into segments ends. For every chunk size that the guard accepts it returns the batches the model derives the segments from, which are nonempty, no longer than the size and together the records in order; for the size 0, which the guard refuses, it ends only without records.\<close>

theorem segment_loop_ends:
  assumes "assertSafeInteger (JNum (NInt n)) f = Inr ()"
  shows "(\<exists>bs. batches_from (nat n) records 0 = Some bs \<and> bs = batches (nat n) records \<and> concat bs = records \<and>
      (\<forall>b \<in> set bs. b \<noteq> [] \<and> int (length b) \<le> n)) \<and> (batches_from 0 records 0 = None \<longleftrightarrow> records \<noteq> [])"
proof -
  have n: "0 < nat n" using assms by simp
  show ?thesis using batches_from_Some [OF n, of records 0] batches_facts(1) [OF n, of records] batches_facts(2) [OF n, of _ records] batches_from_stuck [of records 0] n
    by (fastforce simp: nat_le_iff le_nat_iff)
qed

section \<open>A client in memory\<close>

text \<open>The client of the tests, a map of objects with a switch that makes the next deletion fail.\<close>

record memory_objects =
  mo_objects :: "(string \<times> bytes) list"
  mo_failNextDelete :: bool

definition memory_client :: "memory_objects object_client" where
  "memory_client = \<lparr>
     oc_put = (\<lambda>k body s. (Inr (), s\<lparr>mo_objects := AList.update k body (mo_objects s)\<rparr>)),
     oc_get = (\<lambda>k s. (Inr (map_of (mo_objects s) k), s)),
     oc_list = (\<lambda>keys s. (Inr (sort (filter (\<lambda>k. prefix keys k) (remdups (map fst (mo_objects s))))), s)),
     oc_delete = (\<lambda>k s. if mo_failNextDelete s then (Inl (ExternalError ''crash during delete''), s\<lparr>mo_failNextDelete := False\<rparr>)
        else (Inr (), s\<lparr>mo_objects := AList.delete k (mo_objects s)\<rparr>))\<rparr>"

text \<open>The same client with the switch off for good.\<close>

definition steady_client :: "memory_objects object_client" where
  "steady_client = memory_client\<lparr>oc_delete := \<lambda>k s. (Inr (), s\<lparr>mo_objects := AList.delete k (mo_objects s)\<rparr>)\<rparr>"

definition memory_map :: "memory_objects \<Rightarrow> string \<Rightarrow> bytes option" where
  "memory_map s = map_of (mo_objects s)"

lemma memory_listed: "k \<in> fst ` set xs \<longleftrightarrow> (\<exists>v. map_of xs k = Some v)"
  by (metis map_of_eq_None_iff option.exhaust option.distinct(1))

lemma memory_list: "set (filter (prefix keys) (remdups (map fst xs))) = {k. prefix keys k \<and> map_of xs k \<noteq> None}"
  by (auto simp: memory_listed [symmetric])

interpretation memory: object_store memory_client memory_map
proof unfold_locales
  show "oc_list memory_client keys p = (Inr ks, p') \<Longrightarrow> distinct ks \<and> set ks = {k. prefix keys k \<and> memory_map p k \<noteq> None}" for keys p ks p'
    using memory_list [of keys "mo_objects p"] by (simp add: memory_client_def memory_map_def prod_eq_iff) (elim conjE, hypsubst, simp)
qed (auto simp: memory_client_def memory_map_def update_conv' delete_conv' split: if_splits)

interpretation steady: reliable_store steady_client memory_map
proof unfold_locales
  show "oc_list steady_client keys p = (Inr ks, p') \<Longrightarrow> distinct ks \<and> set ks = {k. prefix keys k \<and> memory_map p k \<noteq> None}" for keys p ks p'
    using memory_list [of keys "mo_objects p"] by (simp add: steady_client_def memory_client_def memory_map_def prod_eq_iff) (elim conjE, hypsubst, simp)
qed (auto simp: steady_client_def memory_client_def memory_map_def update_conv' delete_conv')

section \<open>A concrete epoch\<close>

definition read_number :: "string \<Rightarrow> jsnumber" where
  "read_number s = (case s of [] \<Rightarrow> NInt 0 | c # r \<Rightarrow> if c = CHR ''-'' then NInt (- int (nat_of_digits r)) else NInt (int (nat_of_digits s)))"

definition staging_sample :: staging_env where
  "staging_sample = \<lparr>sv_retention = sample_env, sv_number = read_number, sv_mark = CHR ''?''\<rparr>"

definition sample_seal :: seal_input where
  "sample_seal = \<lparr>si_tenantId = ''t1'', si_epoch = 1, si_previousCheckpoint = None,
     si_records = [sample_record ''evt_1'' 1 None],
     si_segmentRecordCount = Some (NInt 2)\<rparr>"

definition sealed_manifest :: staging_manifest where
  "sealed_manifest = (case deriveEpoch staging_sample ''k'' sample_seal of Inr m \<Rightarrow> m | Inl _ \<Rightarrow> undefined)"

definition empty_objects :: memory_objects where
  "empty_objects = \<lparr>mo_objects = [], mo_failNextDelete = False\<rparr>"

definition sealed_store :: memory_objects where
  "sealed_store = snd (sealEpoch staging_sample steady_client ''k'' sample_seal empty_objects)"

lemma reads_integers_sample: "reads_integers staging_sample"
proof -
  have "read_number (show_int i) = NInt i" for i
  proof (cases "i < 0")
    case True
    then show ?thesis by (simp add: read_number_def show_int_def)
  next
    case False
    then obtain c r where c: "show_int i = c # r" "is_digit c"
      using show_nat_digits [of "nat i"] by (cases "show_nat (nat i)") (auto simp: show_int_def is_digit_def)
    then have "c \<noteq> CHR ''-''" by (auto simp: is_digit_def less_eq_char_def)
    moreover have "nat_of_digits (c # r) = nat i" using nat_of_digits_show_nat [of "nat i"] c(1) False by (metis show_int_def)
    ultimately show ?thesis using False c(1) by (simp add: read_number_def)
  qed
  then show ?thesis by (simp add: reads_integers_def staging_sample_def)
qed

lemma sample_derived: "deriveEpoch staging_sample ''k'' sample_seal = Inr sealed_manifest"
proof -
  have "(case deriveEpoch staging_sample ''k'' sample_seal of Inr m \<Rightarrow> True | Inl _ \<Rightarrow> False)" by code_simp
  then show ?thesis by (auto simp: sealed_manifest_def split: sum.splits)
qed

lemma sample_storable: "list_all (storable staging_sample) (si_records sample_seal)"
  by code_simp

text \<open>A client whose writes arrive and are reported as failed.\<close>

definition crashing_client :: "memory_objects object_client" where
  "crashing_client = memory_client\<lparr>oc_put := \<lambda>k body s.
     (Inl (ExternalError ''crash during put''), s\<lparr>mo_objects := AList.update k body (mo_objects s)\<rparr>)\<rparr>"

interpretation crashing: object_store crashing_client memory_map
proof unfold_locales
  show "oc_list crashing_client keys p = (Inr ks, p') \<Longrightarrow> distinct ks \<and> set ks = {k. prefix keys k \<and> memory_map p k \<noteq> None}" for keys p ks p'
    using memory_list [of keys "mo_objects p"] by (simp add: crashing_client_def memory_client_def memory_map_def prod_eq_iff) (elim conjE, hypsubst, simp)
qed (auto simp: crashing_client_def memory_client_def memory_map_def update_conv' delete_conv' split: if_splits)

lemma empty_map [simp]: "memory_map empty_objects = Map.empty"
  by (simp add: memory_map_def empty_objects_def)

lemma sample_valid: "validateManifest staging_sample (manifest_value sealed_manifest) ''k'' = Inr ()"
  using sample_derived by (rule deriveEpoch_E)

lemma sample_sealed: "sealEpoch staging_sample steady_client ''k'' sample_seal empty_objects = (Inr sealed_manifest, sealed_store)"
proof -
  from sample_derived obtain bodies t where s: "length bodies = length (mf_segments sealed_manifest)"
      "sealEpoch staging_sample steady_client ''k'' sample_seal = thenDo (put_all steady_client (epoch_objects sealed_manifest bodies t)) (\<lambda>_. pureA sealed_manifest)"
    by (rule sealEpoch_puts [where 'p = memory_objects]) blast
  have "distinct (map fst (epoch_objects sealed_manifest bodies t))"
    unfolding epoch_objects_keys [OF s(1)] using sample_valid by (rule epoch_keys_facts)
  with steady.put_all_returns [of "epoch_objects sealed_manifest bodies t" empty_objects] obtain p
    where "put_all steady_client (epoch_objects sealed_manifest bodies t) empty_objects = (Inr (), p)" by auto
  then have "sealEpoch staging_sample steady_client ''k'' sample_seal empty_objects = (Inr sealed_manifest, p)"
    by (simp add: s(2) thenDo_def)
  then show ?thesis by (simp add: sealed_store_def)
qed

lemma sample_keys: "memory_map sealed_store k \<noteq> None \<longleftrightarrow> k \<in> set (epoch_keys sealed_manifest)"
proof -
  from steady.seal_wrote [OF sample_derived sample_sealed] obtain bodies t n where
    b: "length bodies = length (mf_segments sealed_manifest)"
    and w: "wrote (epoch_objects sealed_manifest bodies t) (memory_map empty_objects) (memory_map sealed_store)"
    by (metis take_all_iff order_refl)
  have keys: "fst ` set (epoch_objects sealed_manifest bodies t) = set (epoch_keys sealed_manifest)"
    using epoch_objects_keys [OF b] by (metis set_map)
  then have "memory_map sealed_store k \<noteq> None" if "k \<in> set (epoch_keys sealed_manifest)" using w that by (force simp: wrote_def)
  with w keys show ?thesis by (auto simp: wrote_def)
qed

lemma sample_verified: "\<exists>p. verifyEpoch staging_sample steady_client ''k'' sealed_manifest sealed_store =
    (Inr (StagingOk (mf_archiveRootHash sealed_manifest) (int (length (mf_segments sealed_manifest))) (mf_recordCount sealed_manifest)), p)"
  by (rule steady.seal_then_verify [OF sample_derived sample_sealed _ reads_integers_sample sample_storable]) simp

theorem verifyEpoch_complete_witness:
  "{k. prefix (manifest_prefix ''k'' sealed_manifest @ ''/'') k \<and> memory_map sealed_store k \<noteq> None} = set (epoch_keys sealed_manifest)"
proof -
  from sample_verified obtain p where p: "verifyEpoch staging_sample steady_client ''k'' sealed_manifest sealed_store =
    (Inr (StagingOk (mf_archiveRootHash sealed_manifest) (int (length (mf_segments sealed_manifest))) (mf_recordCount sealed_manifest)), p)" ..
  from verifyEpoch_complete [OF steady.object_store_axioms p] show ?thesis by simp
qed

theorem sealEpoch_resumes_witness:
  "\<exists>p2. sealEpoch staging_sample steady_client ''k'' sample_seal (snd (sealEpoch staging_sample crashing_client ''k'' sample_seal empty_objects))
     = (Inr sealed_manifest, p2)"
proof -
  obtain r p1 where s: "sealEpoch staging_sample crashing_client ''k'' sample_seal empty_objects = (r, p1)" by fastforce
  from sealEpoch_resumes [OF crashing.object_store_axioms steady.reliable_store_axioms sample_derived s _ reads_integers_sample sample_storable]
  show ?thesis by (auto simp: s)
qed

theorem sealEpoch_adds_only_witness:
  "memory_map sealed_store \<subseteq>\<^sub>m memory_map (snd (sealEpoch staging_sample crashing_client ''k'' sample_seal sealed_store))"
proof -
  obtain r p where s: "sealEpoch staging_sample crashing_client ''k'' sample_seal sealed_store = (r, p)" by fastforce
  from sealEpoch_adds_only [OF crashing.object_store_axioms s] show ?thesis by (simp add: s)
qed

theorem deleteEpoch_manifest_last_witness:
  "memory_map (snd (deleteEpoch staging_sample steady_client ''k'' sealed_manifest sealed_store)) = Map.empty"
proof -
  obtain p where p: "delete_all steady_client (epoch_keys sealed_manifest) sealed_store = (Inr (), p)"
    using steady.delete_all_returns by blast
  then have d: "deleteEpoch staging_sample steady_client ''k'' sealed_manifest sealed_store = (Inr (), p)"
    by (simp add: deleteEpoch_puts sample_valid)
  from deleteEpoch_manifest_last [OF steady.object_store_axioms d] have "memory_map p k = None" for k
    using sample_keys [of k] by (cases "k \<in> set (epoch_keys sealed_manifest)") auto
  then show ?thesis by (auto simp: d)
qed

theorem confirmed_absence_witness:
  "\<exists>p1 p2. deleteEpoch staging_sample steady_client ''k'' sealed_manifest sealed_store = (Inr (), p1) \<and>
     confirmEpochAbsent staging_sample steady_client ''k'' sealed_manifest p1 = (Inr True, p2)"
  using confirmed_absence [OF steady.object_store_axioms, of staging_sample "''k''" sealed_manifest sealed_store]
    steady.reliable_store_axioms sample_valid sample_keys by simp

theorem epochs_isolated_witness:
  "memory_map (snd (sealEpoch staging_sample crashing_client ''k'' sample_seal empty_objects)) (epochKeyPrefix ''k'' ''t2'' 1 @ ''/x'') = None"
proof -
  obtain r p where s: "sealEpoch staging_sample crashing_client ''k'' sample_seal empty_objects = (r, p)" by fastforce
  have "id_pattern 128 ''t2''" "si_tenantId sample_seal = ''t1''" by code_simp+
  with epochs_isolated [OF crashing.object_store_axioms, of "''t2''" 1 "''k''" "epochKeyPrefix ''k'' ''t2'' 1 @ ''/x''" staging_sample sample_seal empty_objects r p]
  show ?thesis by (simp add: s)
qed

theorem segment_loop_ends_witness:
  "(\<exists>bs. batches_from 2 [1, 2, 3 :: nat] 0 = Some bs \<and> concat bs = [1, 2, 3]) \<and> batches_from 0 [1 :: nat] 0 = None"
proof -
  have a: "assertSafeInteger (JNum (NInt 2)) [] = Inr ()" by (simp add: is_safe_int_def max_safe_integer_def)
  from segment_loop_ends [OF a, of "[1, 2, 3 :: nat]"] segment_loop_ends [OF a, of "[1 :: nat]"] show ?thesis by auto
qed

end
