(* ===== verification/Coordinator.thy ===== *)
theory Coordinator
  imports Staging
begin

text \<open>
  The two-stage retention state machine of \<^verbatim>\<open>storage/src/retention-coordinator.ts\<close>:
  \<open>runRetentionEpoch\<close> seals and verifies a derived archive, crops the authoritative store, deletes
  the staged copies, confirms their absence and records a verified receipt.

  The injected store, archive, host callbacks and signing factories are records of operations.
  A run is an action on a \<open>world\<close>: the store, the provider, the host and a log of the calls to the
  archive, each with the store as it was at the time of the call. Host callbacks that open a
  scope (the epoch lease, the policy fence) may change the whole world when they open it, which
  is where other writers interleave; the cloning helpers are the identity on values.
\<close>

section \<open>Interfaces\<close>

record 's checkpointing_store =
  st_listCheckpoints :: "string \<Rightarrow> ('s, retention_checkpoint list) action"
  st_listDispositions :: "string \<Rightarrow> ('s, retention_disposition list) action"
  st_getChainState :: "string \<Rightarrow> ('s, audit_chain_state) action"
  st_compactRange :: "string \<Rightarrow> retention_checkpoint \<Rightarrow> audit_chain_state \<Rightarrow> int \<Rightarrow> ('s, unit) action"
  st_prepareDisposition :: "string \<Rightarrow> string \<Rightarrow> disposition_attempt \<Rightarrow> int \<Rightarrow> ('s, disposition_attempt) action"
  st_confirmDisposition :: "string \<Rightarrow> retention_disposition \<Rightarrow> string \<Rightarrow> int \<Rightarrow> ('s, unit) action"

datatype archive_call = SealCall | RecoverCall | VerifyCall | DeleteCall staging_manifest | AbsenceCall bool

record ('s, 'p, 'h) world =
  wo_store :: 's
  wo_provider :: 'p
  wo_host :: 'h
  wo_calls :: "(archive_call \<times> 's) list"

record disposed_context =
  dc_tenantId :: string
  dc_checkpoint :: retention_checkpoint
  dc_attemptId :: string
  dc_dispositionId :: string
  dc_policyFence :: int

record ('s, 'p, 'h) epoch_options =
  eo_tenantId :: string
  eo_records :: "audit_record list"
  eo_previousCheckpoint :: "retention_checkpoint option"
  eo_expectedState :: audit_chain_state
  eo_eligible :: bool
  eo_policyReference :: string
  eo_version :: int
  eo_checkpointId :: string
  eo_createdAt :: string
  eo_attemptId :: string
  eo_dispositionId :: string
  eo_resolveDisposedAt :: "disposed_context \<Rightarrow> ('h, jsval) action"
  eo_segmentRecordCount :: "jsnumber option"
  eo_createCheckpoint :: "retention_checkpoint \<Rightarrow> retention_checkpoint throws"
  eo_createDisposition :: "retention_disposition \<Rightarrow> retention_disposition throws"
  eo_verification :: "retention_options option"
  eo_enterLease :: "(('s, 'p, 'h) world, unit) action"
  eo_leaveLease :: "'h \<Rightarrow> 'h"
  eo_enterFence :: "int \<Rightarrow> (('s, 'p, 'h) world, unit) action"
  eo_leaveFence :: "'h \<Rightarrow> 'h"

record epoch_result =
  rr_manifest :: "staging_manifest option"
  rr_checkpoint :: retention_checkpoint
  rr_disposition :: retention_disposition

section \<open>Calls\<close>

definition on_store :: "('s, 'a) action \<Rightarrow> (('s, 'p, 'h) world, 'a) action" where
  "on_store m w = (let r = m (wo_store w) in (fst r, w\<lparr>wo_store := snd r\<rparr>))"

definition on_archive :: "('a throws \<Rightarrow> archive_call) \<Rightarrow> ('p, 'a) action \<Rightarrow> (('s, 'p, 'h) world, 'a) action" where
  "on_archive call m w =
     (let r = m (wo_provider w)
      in (fst r, w\<lparr>wo_provider := snd r, wo_calls := wo_calls w @ [(call (fst r), wo_store w)]\<rparr>))"

definition on_host :: "('h, 'a) action \<Rightarrow> (('s, 'p, 'h) world, 'a) action" where
  "on_host m w = (let r = m (wo_host w) in (fst r, w\<lparr>wo_host := snd r\<rparr>))"

definition with_epoch_lease :: "('s, 'p, 'h) epoch_options \<Rightarrow> (('s, 'p, 'h) world, 'a) action \<Rightarrow> (('s, 'p, 'h) world, 'a) action" where
  "with_epoch_lease options = bracket (eo_enterLease options) (\<lambda>w. w\<lparr>wo_host := eo_leaveLease options (wo_host w)\<rparr>)"

definition with_policy_fence :: "('s, 'p, 'h) epoch_options \<Rightarrow> (('s, 'p, 'h) world, 'a) action \<Rightarrow> (('s, 'p, 'h) world, 'a) action" where
  "with_policy_fence options =
     bracket (eo_enterFence options (eo_version options)) (\<lambda>w. w\<lparr>wo_host := eo_leaveFence options (wo_host w)\<rparr>)"

section \<open>Guards\<close>

definition verification_of :: "('s, 'p, 'h) epoch_options \<Rightarrow> retention_options" where
  "verification_of options = (case eo_verification options of None \<Rightarrow> default_options | Some v \<Rightarrow> v)"

definition assertPolicyReference :: "string \<Rightarrow> unit throws" where
  "assertPolicyReference value = throwUnless (id_pattern 256 value) (TypeError ''policyReference is invalid'')"

definition assertFence :: "int \<Rightarrow> unit throws" where
  "assertFence value = throwUnless (is_safe_int value \<and> 0 \<le> value) (TypeError ''retention policy fence is invalid'')"

definition validateCoordinatorInputs :: "('s, 'p, 'h) epoch_options \<Rightarrow> unit throws" where
  "validateCoordinatorInputs options =
     andThen (assertId (JStr (eo_tenantId options)) ''tenantId'') (\<lambda>_.
     andThen (throwUnless (eo_eligible options) (TypeError ''retention epoch is not eligible'')) (\<lambda>_.
     andThen (assertPolicyReference (eo_policyReference options)) (\<lambda>_.
     andThen (assertFence (eo_version options)) (\<lambda>_.
     andThen (assertId (JStr (eo_checkpointId options)) ''checkpointId'') (\<lambda>_.
     andThen (assertId (JStr (eo_attemptId options)) ''attemptId'') (\<lambda>_.
     andThen (assertId (JStr (eo_dispositionId options)) ''dispositionId'') (\<lambda>_.
     throwUnless (case eo_previousCheckpoint options of None \<Rightarrow> True | Some c \<Rightarrow> cp_tenantId c = eo_tenantId options)
       (TypeError ''previous checkpoint tenant mismatch''))))))))"

text \<open>\<open>canonicalJson(a) !== canonicalJson(b)\<close> with a thrown conflict\<close>

definition assertSameJson :: "jsval \<Rightarrow> jsval \<Rightarrow> string \<Rightarrow> unit throws" where
  "assertSameJson a b message =
     andThen (canonicalJson a) (\<lambda>x. andThen (canonicalJson b) (\<lambda>y. throwUnless (x = y) (TypeError message)))"

definition assertVerifiedCheckpoint :: "retention_env \<Rightarrow> retention_checkpoint \<Rightarrow> retention_options \<Rightarrow> unit throws" where
  "assertVerifiedCheckpoint env checkpoint verificationOptions =
     andThen (verifyRetentionCheckpoint env (checkpoint_value checkpoint) verificationOptions) (\<lambda>verification.
     case verification of RetOk _ \<Rightarrow> Inr ()
     | RetFail _ reason _ \<Rightarrow> Inl (TypeError (''invalid retention checkpoint: '' @ reason_text reason)))"

definition assertStoredCheckpointAnchor ::
  "retention_env \<Rightarrow> retention_checkpoint \<Rightarrow> retention_checkpoint option \<Rightarrow> int \<Rightarrow> string \<Rightarrow> unit throws" where
  "assertStoredCheckpointAnchor env checkpoint previousCheckpoint expectedEpoch tenant =
     andThen (throwUnless (cp_tenantId checkpoint = tenant \<and> cp_chainKind checkpoint = ''audit'' \<and> cp_epoch checkpoint = expectedEpoch)
        (TypeError ''stored retention checkpoint scope or epoch mismatch'')) (\<lambda>_.
     case previousCheckpoint of
       None \<Rightarrow> throwUnless (cp_epoch checkpoint = 1 \<and> cp_previousCheckpointHash checkpoint = None \<and>
           cp_fromSequence checkpoint = 1 \<and> cp_fromPreviousHash checkpoint = None)
         (TypeError ''stored retention checkpoint does not extend genesis'')
     | Some previous \<Rightarrow>
         andThen (verifyRetentionCheckpoint env (checkpoint_value previous) default_options) (\<lambda>verification.
         case verification of
           RetFail _ reason _ \<Rightarrow> Inl (TypeError (''invalid previous checkpoint: '' @ reason_text reason))
         | RetOk _ \<Rightarrow>
             throwUnless (cp_tenantId previous = tenant \<and> cp_epoch checkpoint = cp_epoch previous + 1 \<and>
                 cp_previousCheckpointHash checkpoint = Some (cp_hash previous) \<and>
                 cp_fromSequence checkpoint = cp_throughSequence previous + 1 \<and>
                 cp_fromPreviousHash checkpoint = Some (cp_throughHash previous))
               (TypeError ''stored retention checkpoint does not extend prior checkpoint'')))"

definition assertCheckpointFactoryBinding :: "retention_checkpoint \<Rightarrow> retention_checkpoint \<Rightarrow> unit throws" where
  "assertCheckpointFactoryBinding checkpoint input =
     throwUnless
       (cp_checkpointId checkpoint = cp_checkpointId input \<and> cp_tenantId checkpoint = cp_tenantId input \<and>
        cp_chainKind checkpoint = cp_chainKind input \<and> cp_epoch checkpoint = cp_epoch input \<and>
        cp_fromSequence checkpoint = cp_fromSequence input \<and> cp_fromPreviousHash checkpoint = cp_fromPreviousHash input \<and>
        cp_throughSequence checkpoint = cp_throughSequence input \<and> cp_throughHash checkpoint = cp_throughHash input \<and>
        cp_recordCount checkpoint = cp_recordCount input \<and> cp_archiveRootHash checkpoint = cp_archiveRootHash input \<and>
        cp_previousCheckpointHash checkpoint = cp_previousCheckpointHash input \<and> cp_createdAt checkpoint = cp_createdAt input)
       (TypeError ''checkpoint factory changed coordinator-owned fields'')"

definition assertDispositionFactoryBinding :: "retention_disposition \<Rightarrow> retention_disposition \<Rightarrow> unit throws" where
  "assertDispositionFactoryBinding receipt input =
     throwUnless
       (dp_dispositionId receipt = dp_dispositionId input \<and> dp_tenantId receipt = dp_tenantId input \<and>
        dp_chainKind receipt = dp_chainKind input \<and> dp_checkpointHash receipt = dp_checkpointHash input \<and>
        dp_fromSequence receipt = dp_fromSequence input \<and> dp_throughSequence receipt = dp_throughSequence input \<and>
        dp_archiveRootHash receipt = dp_archiveRootHash input \<and> dp_policyReference receipt = dp_policyReference input \<and>
        dp_disposedAt receipt = dp_disposedAt input \<and> dp_method receipt = ''provider-delete'')
       (TypeError ''disposition factory changed coordinator-owned fields'')"

definition assertVerifiedDisposition ::
  "retention_env \<Rightarrow> retention_disposition \<Rightarrow> retention_checkpoint \<Rightarrow> retention_options \<Rightarrow> unit throws" where
  "assertVerifiedDisposition env receipt checkpoint verificationOptions =
     andThen (verifyRetentionDisposition env (disposition_value receipt) (checkpoint_value checkpoint) verificationOptions) (\<lambda>verification.
     case verification of RetOk _ \<Rightarrow> Inr ()
     | RetFail _ reason _ \<Rightarrow> Inl (TypeError (''invalid retention disposition: '' @ reason_text reason)))"

definition receipt_bound :: "('s, 'p, 'h) epoch_options \<Rightarrow> retention_checkpoint \<Rightarrow> retention_disposition \<Rightarrow> bool" where
  "receipt_bound options checkpoint receipt \<longleftrightarrow>
     dp_dispositionId receipt = eo_dispositionId options \<and> dp_tenantId receipt = eo_tenantId options \<and>
     dp_chainKind receipt = ''audit'' \<and> dp_checkpointHash receipt = cp_hash checkpoint \<and>
     dp_fromSequence receipt = cp_fromSequence checkpoint \<and> dp_throughSequence receipt = cp_throughSequence checkpoint \<and>
     dp_archiveRootHash receipt = cp_archiveRootHash checkpoint \<and>
     dp_policyReference receipt = eo_policyReference options \<and> dp_method receipt = ''provider-delete''"

definition assertAcceptedDispositionBinding ::
  "retention_env \<Rightarrow> ('s, 'p, 'h) epoch_options \<Rightarrow> retention_checkpoint \<Rightarrow> retention_disposition \<Rightarrow> unit throws" where
  "assertAcceptedDispositionBinding env options checkpoint receipt =
     andThen (assertVerifiedDisposition env receipt checkpoint (verification_of options)) (\<lambda>_.
     throwUnless (receipt_bound options checkpoint receipt) (TypeError ''retention disposition replay conflict''))"

section \<open>Factory inputs\<close>

text \<open>The fields an input does not have are not read by a factory.\<close>

definition checkpointInputFromStored :: "('s, 'p, 'h) epoch_options \<Rightarrow> retention_checkpoint \<Rightarrow> retention_checkpoint" where
  "checkpointInputFromStored options stored =
     stored\<lparr>cp_recordType := [], cp_schemaVersion := [], cp_checkpointId := eo_checkpointId options,
       cp_createdAt := eo_createdAt options, cp_canonicalization := [], cp_hashAlgorithm := [], cp_fingerprint := None,
       cp_hash := [], cp_signature := None\<rparr>"

definition checkpoint_input :: "('s, 'p, 'h) epoch_options \<Rightarrow> int \<Rightarrow> staging_manifest \<Rightarrow> retention_checkpoint" where
  "checkpoint_input options epoch manifest = \<lparr>cp_recordType = [], cp_schemaVersion = [],
     cp_checkpointId = eo_checkpointId options, cp_tenantId = eo_tenantId options, cp_chainKind = ''audit'',
     cp_epoch = epoch, cp_fromSequence = mf_fromSequence manifest, cp_fromPreviousHash = mf_fromPreviousHash manifest,
     cp_throughSequence = mf_throughSequence manifest, cp_throughHash = mf_throughHash manifest,
     cp_recordCount = mf_recordCount manifest, cp_archiveRootHash = mf_archiveRootHash manifest,
     cp_previousCheckpointHash = map_option cp_hash (eo_previousCheckpoint options), cp_createdAt = eo_createdAt options,
     cp_canonicalization = [], cp_hashAlgorithm = [], cp_fingerprint = None, cp_hash = [], cp_signature = None\<rparr>"

definition createAndVerifyDisposition ::
  "retention_env \<Rightarrow> ('s, 'p, 'h) epoch_options \<Rightarrow> retention_checkpoint \<Rightarrow> string \<Rightarrow> retention_disposition throws" where
  "createAndVerifyDisposition env options checkpoint disposedAt =
     (let input = \<lparr>dp_recordType = [], dp_schemaVersion = [], dp_dispositionId = eo_dispositionId options,
        dp_tenantId = eo_tenantId options, dp_chainKind = ''audit'', dp_checkpointHash = cp_hash checkpoint,
        dp_fromSequence = cp_fromSequence checkpoint, dp_throughSequence = cp_throughSequence checkpoint,
        dp_archiveRootHash = cp_archiveRootHash checkpoint, dp_method = [],
        dp_policyReference = eo_policyReference options, dp_disposedAt = disposedAt, dp_canonicalization = [],
        dp_hashAlgorithm = [], dp_fingerprint = None, dp_hash = [], dp_signature = None\<rparr>
      in andThen (eo_createDisposition options input) (\<lambda>receipt.
         andThen (assertDispositionFactoryBinding receipt input) (\<lambda>_.
         andThen (assertVerifiedDisposition env receipt checkpoint (verification_of options)) (\<lambda>_. Inr receipt))))"

definition assertExactUtcMillisecond :: "host \<Rightarrow> jsval \<Rightarrow> string \<Rightarrow> string throws" where
  "assertExactUtcMillisecond h value field =
     (case value of
        JStr s \<Rightarrow> if TIMESTAMP_PATTERN s \<and> parseDate h s \<noteq> None \<and> \<not> prefix ''0000-'' s \<and>
             toISOString (parseDate h s) = Inr s
           then Inr s else Inl (TypeError (field @ '' must be exact UTC milliseconds''))
      | _ \<Rightarrow> Inl (TypeError (field @ '' must be exact UTC milliseconds'')))"

section \<open>Stages of a run\<close>

text \<open>Replay of the stored checkpoint: the factory must reproduce it byte for byte.\<close>

definition replay_checkpoint ::
  "retention_env \<Rightarrow> 'p staging_archive \<Rightarrow> ('s, 'p, 'h) epoch_options \<Rightarrow> int \<Rightarrow> retention_checkpoint
     \<Rightarrow> (('s, 'p, 'h) world, retention_checkpoint \<times> staging_manifest option \<times> seal_input option) action" where
  "replay_checkpoint env archive options epoch stored =
     thenDo (liftA (assertVerifiedCheckpoint env stored (verification_of options))) (\<lambda>_.
     thenDo (liftA (assertStoredCheckpointAnchor env stored (eo_previousCheckpoint options) epoch (eo_tenantId options))) (\<lambda>_.
     let replayInput = checkpointInputFromStored options stored in
     thenDo (liftA (eo_createCheckpoint options replayInput)) (\<lambda>replayed.
     thenDo (liftA (assertCheckpointFactoryBinding replayed replayInput)) (\<lambda>_.
     thenDo (liftA (assertVerifiedCheckpoint env replayed (verification_of options))) (\<lambda>_.
     thenDo (liftA (assertSameJson (checkpoint_value stored) (checkpoint_value replayed) ''retention checkpoint replay conflict'')) (\<lambda>_.
     thenDo (on_archive (\<lambda>_. RecoverCall) (ar_recoverEpoch archive stored)) (\<lambda>manifest.
     pureA (stored, manifest, None))))))))"

text \<open>A fresh epoch: manifest and checkpoint are derived before anything is written.\<close>

definition derive_checkpoint ::
  "retention_env \<Rightarrow> 'p staging_archive \<Rightarrow> ('s, 'p, 'h) epoch_options \<Rightarrow> int
     \<Rightarrow> (retention_checkpoint \<times> staging_manifest option \<times> seal_input option) throws" where
  "derive_checkpoint env archive options epoch =
     andThen (throwUnless (eo_records options \<noteq> []) (TypeError ''retention epoch requires at least one record'')) (\<lambda>_.
     let epochInput = \<lparr>si_tenantId = eo_tenantId options, si_epoch = epoch, si_previousCheckpoint = eo_previousCheckpoint options,
           si_records = eo_records options, si_segmentRecordCount = eo_segmentRecordCount options\<rparr> in
     andThen (ar_deriveEpoch archive epochInput) (\<lambda>manifest.
     let checkpointInput = checkpoint_input options epoch manifest in
     andThen (eo_createCheckpoint options checkpointInput) (\<lambda>checkpoint.
     andThen (assertCheckpointFactoryBinding checkpoint checkpointInput) (\<lambda>_.
     andThen (assertVerifiedCheckpoint env checkpoint (verification_of options)) (\<lambda>_.
     Inr (checkpoint, Some manifest, Some epochInput))))))"

definition confirm_absent_replay ::
  "retention_env \<Rightarrow> 'p staging_archive \<Rightarrow> ('s, 'p, 'h) epoch_options \<Rightarrow> retention_checkpoint \<Rightarrow> retention_disposition
     \<Rightarrow> (('s, 'p, 'h) world, unit) action" where
  "confirm_absent_replay env archive options checkpoint receipt =
     thenDo (liftA (assertAcceptedDispositionBinding env options checkpoint receipt)) (\<lambda>_.
     thenDo (on_archive (\<lambda>r. AbsenceCall (r = Inr True)) (ar_confirmCheckpointEpochAbsent archive checkpoint)) (\<lambda>absent.
     checkThat absent ''staged retention epoch is present after confirmed disposition''))"

definition seal_stage ::
  "'p staging_archive \<Rightarrow> seal_input option \<Rightarrow> staging_manifest option \<Rightarrow> (('s, 'p, 'h) world, unit) action" where
  "seal_stage archive epochInput manifest =
     (case (epochInput, manifest) of
        (Some input, Some derived) \<Rightarrow>
          thenDo (on_archive (\<lambda>_. SealCall) (ar_sealEpoch archive input)) (\<lambda>sealed.
          thenDo (liftA (assertSameJson (manifest_value sealed) (manifest_value derived)
            ''staged retention manifest derivation mismatch'')) (\<lambda>_.
          thenDo (on_archive (\<lambda>_. VerifyCall) (ar_verifyEpoch archive derived)) (\<lambda>verification.
          case verification of
            StagingFail _ \<Rightarrow> liftA (Inl (TypeError ''staged retention epoch verification failed''))
          | StagingOk root _ _ \<Rightarrow> checkThat (root = mf_archiveRootHash derived) ''staged retention archive root mismatch'')))
      | _ \<Rightarrow> liftA (Inl (TypeError ''retention epoch derivation is unavailable'')))"

definition crop_stage ::
  "retention_env \<Rightarrow> 's checkpointing_store \<Rightarrow> ('s, 'p, 'h) epoch_options \<Rightarrow> retention_checkpoint \<Rightarrow> (('s, 'p, 'h) world, unit) action" where
  "crop_stage env store options checkpoint =
     thenDo (liftA (assertVerifiedCheckpoint env checkpoint (verification_of options))) (\<lambda>_.
     thenDo (on_store (st_listCheckpoints store (eo_tenantId options))) (\<lambda>checkpoints.
     case find (\<lambda>c. cp_epoch c = cp_epoch checkpoint) checkpoints of
       Some storedAtEpoch \<Rightarrow> liftA (assertSameJson (checkpoint_value storedAtEpoch) (checkpoint_value checkpoint)
         ''retention checkpoint replay conflict'')
     | None \<Rightarrow>
         thenDo (checkThat (retentionPolicyFence (eo_expectedState options) = eo_version options) ''retention policy fence mismatch'') (\<lambda>_.
         on_store (st_compactRange store (eo_tenantId options) checkpoint (eo_expectedState options) (eo_version options)))))"

text \<open>After the attempt is pending: delete, confirm absence, resolve the time, record the receipt.\<close>

definition dispose_attempt ::
  "retention_env \<Rightarrow> 's checkpointing_store \<Rightarrow> 'p staging_archive \<Rightarrow> ('s, 'p, 'h) epoch_options \<Rightarrow> retention_checkpoint
     \<Rightarrow> staging_manifest option \<Rightarrow> disposition_attempt \<Rightarrow> (('s, 'p, 'h) world, retention_disposition) action" where
  "dispose_attempt env store archive options checkpoint manifest attempt =
     thenDo (case manifest of None \<Rightarrow> pureA () | Some m \<Rightarrow> on_archive (\<lambda>_. DeleteCall m) (ar_deleteEpoch archive m)) (\<lambda>_.
     thenDo (on_archive (\<lambda>r. AbsenceCall (r = Inr True))
       (case manifest of Some m \<Rightarrow> ar_confirmEpochAbsent archive m
        | None \<Rightarrow> ar_confirmCheckpointEpochAbsent archive checkpoint)) (\<lambda>deletionConfirmed.
     thenDo (checkThat deletionConfirmed ''staged retention epoch deletion is unconfirmed'') (\<lambda>_.
     thenDo (on_host (eo_resolveDisposedAt options \<lparr>dc_tenantId = eo_tenantId options, dc_checkpoint = checkpoint,
       dc_attemptId = eo_attemptId options, dc_dispositionId = eo_dispositionId options, dc_policyFence = eo_version options\<rparr>)) (\<lambda>value.
     thenDo (liftA (assertExactUtcMillisecond (re_host env) value ''disposedAt'')) (\<lambda>disposedAt.
     thenDo (liftA (createAndVerifyDisposition env options checkpoint disposedAt)) (\<lambda>receipt.
     thenDo (on_store (st_confirmDisposition store (eo_tenantId options) receipt (at_attemptId attempt) (eo_version options))) (\<lambda>_.
     pureA receipt)))))))"

definition dispose_stage ::
  "retention_env \<Rightarrow> 's checkpointing_store \<Rightarrow> 'p staging_archive \<Rightarrow> ('s, 'p, 'h) epoch_options \<Rightarrow> retention_checkpoint
     \<Rightarrow> staging_manifest option \<Rightarrow> (('s, 'p, 'h) world, retention_disposition) action" where
  "dispose_stage env store archive options checkpoint manifest =
     thenDo (on_store (st_getChainState store (eo_tenantId options))) (\<lambda>currentState.
     thenDo (checkThat (retentionPolicyFence currentState = eo_version options) ''retention policy fence mismatch'') (\<lambda>_.
     thenDo (on_store (st_listCheckpoints store (eo_tenantId options))) (\<lambda>checkpoints.
     thenDo (liftA (case find (\<lambda>c. cp_hash c = cp_hash checkpoint) checkpoints of
         None \<Rightarrow> Inl (TypeError ''retention checkpoint was not durably compacted'')
       | Some storedCheckpoint \<Rightarrow> assertSameJson (checkpoint_value storedCheckpoint) (checkpoint_value checkpoint)
           ''retention checkpoint was not durably compacted'')) (\<lambda>_.
     thenDo (on_store (st_listDispositions store (eo_tenantId options))) (\<lambda>dispositions.
     case find (\<lambda>d. dp_checkpointHash d = cp_hash checkpoint) dispositions of
       Some accepted \<Rightarrow> thenDo (confirm_absent_replay env archive options checkpoint accepted) (\<lambda>_. pureA accepted)
     | None \<Rightarrow>
         thenDo (on_store (st_prepareDisposition store (eo_tenantId options) (cp_hash checkpoint)
           \<lparr>at_attemptId = eo_attemptId options, at_checkpointHash = cp_hash checkpoint, at_policyFence = eo_version options,
            at_status = Pending\<rparr> (eo_version options))) (\<lambda>attempt.
         thenDo (checkThat (at_attemptId attempt = eo_attemptId options \<and> at_checkpointHash attempt = cp_hash checkpoint \<and>
             at_policyFence attempt = eo_version options \<and> at_status attempt = Pending)
           ''prepared disposition attempt binding mismatch'') (\<lambda>_.
         dispose_attempt env store archive options checkpoint manifest attempt)))))))"

text \<open>The planned checkpoint: replayed when the epoch is stored, derived otherwise.\<close>

definition plan_epoch ::
  "retention_env \<Rightarrow> 'p staging_archive \<Rightarrow> ('s, 'p, 'h) epoch_options \<Rightarrow> int \<Rightarrow> retention_checkpoint option
     \<Rightarrow> (('s, 'p, 'h) world, retention_checkpoint \<times> staging_manifest option \<times> seal_input option) action" where
  "plan_epoch env archive options epoch preflightCheckpoint =
     (case preflightCheckpoint of
        Some stored \<Rightarrow> replay_checkpoint env archive options epoch stored
      | None \<Rightarrow> liftA (derive_checkpoint env archive options epoch))"

text \<open>The rest of the run; \<open>known\<close> says that the checkpoint was already stored.\<close>

definition finish_epoch ::
  "retention_env \<Rightarrow> 's checkpointing_store \<Rightarrow> 'p staging_archive \<Rightarrow> ('s, 'p, 'h) epoch_options \<Rightarrow> bool
     \<Rightarrow> retention_disposition list \<Rightarrow> retention_checkpoint \<times> staging_manifest option \<times> seal_input option
     \<Rightarrow> (('s, 'p, 'h) world, epoch_result) action" where
  "finish_epoch env store archive options known preflightDispositions plan =
     (case plan of (checkpoint, manifest, epochInput) \<Rightarrow>
     case find (\<lambda>d. dp_checkpointHash d = cp_hash checkpoint) preflightDispositions of
       Some accepted \<Rightarrow>
         thenDo (checkThat known ''retention disposition checkpoint is missing'') (\<lambda>_.
         thenDo (confirm_absent_replay env archive options checkpoint accepted) (\<lambda>_.
         pureA \<lparr>rr_manifest = manifest, rr_checkpoint = checkpoint, rr_disposition = accepted\<rparr>))
     | None \<Rightarrow>
         thenDo (if known then pureA () else seal_stage archive epochInput manifest) (\<lambda>_.
         thenDo (with_policy_fence options (crop_stage env store options checkpoint)) (\<lambda>_.
         thenDo (with_policy_fence options (dispose_stage env store archive options checkpoint manifest)) (\<lambda>disposition.
         pureA \<lparr>rr_manifest = manifest, rr_checkpoint = checkpoint, rr_disposition = disposition\<rparr>))))"

definition runRetentionEpochUnderLease ::
  "retention_env \<Rightarrow> 's checkpointing_store \<Rightarrow> 'p staging_archive \<Rightarrow> ('s, 'p, 'h) epoch_options
     \<Rightarrow> (('s, 'p, 'h) world, epoch_result) action" where
  "runRetentionEpochUnderLease env store archive options =
     thenDo (liftA (validateCoordinatorInputs options)) (\<lambda>_.
     let epoch = (case eo_previousCheckpoint options of None \<Rightarrow> 0 | Some c \<Rightarrow> cp_epoch c) + 1 in
     thenDo (on_store (st_listCheckpoints store (eo_tenantId options))) (\<lambda>preflightCheckpoints.
     thenDo (on_store (st_listDispositions store (eo_tenantId options))) (\<lambda>preflightDispositions.
     let preflightCheckpoint = find (\<lambda>c. cp_epoch c = epoch) preflightCheckpoints in
     thenDo (plan_epoch env archive options epoch preflightCheckpoint)
       (finish_epoch env store archive options (preflightCheckpoint \<noteq> None) preflightDispositions))))"

definition runRetentionEpoch ::
  "retention_env \<Rightarrow> 's checkpointing_store \<Rightarrow> 'p staging_archive \<Rightarrow> ('s, 'p, 'h) epoch_options
     \<Rightarrow> (('s, 'p, 'h) world, epoch_result) action" where
  "runRetentionEpoch env store archive options =
     with_epoch_lease options (runRetentionEpochUnderLease env store archive options)"

section \<open>The memory store as the injected store\<close>

definition store_action :: "('a \<times> memory_store) throws \<Rightarrow> memory_store \<Rightarrow> 'a throws \<times> memory_store" where
  "store_action r s = (case r of Inl e \<Rightarrow> (Inl e, s) | Inr (x, s') \<Rightarrow> (Inr x, s'))"

definition memory_checkpointing_store :: "retention_env \<Rightarrow> memory_store checkpointing_store" where
  "memory_checkpointing_store env = \<lparr>
     st_listCheckpoints = (\<lambda>t s. (listCheckpoints s t, s)),
     st_listDispositions = (\<lambda>t s. (listDispositions s t, s)),
     st_getChainState = (\<lambda>t s. (getChainState s t, s)),
     st_compactRange = (\<lambda>t c st v s. store_action (compactRange env s t c st v) s),
     st_prepareDisposition = (\<lambda>t k a v s. store_action (prepareDisposition s t k a v) s),
     st_confirmDisposition = (\<lambda>t d i v s. store_action (confirmDisposition env s t d i v) s)\<rparr>"

end
