(* ===== verification/EpochSafety.thy ===== *)
theory EpochSafety
  imports Coordinator
begin

text \<open>
  What a retention epoch guarantees (\<^verbatim>\<open>storage/src/retention-coordinator.ts\<close>). The locale
  \<open>checkpointing\<close> states what the coordinator needs of an injected store; inside it each stage of a
  run is proved to keep \<open>epoch_world\<close> by triples over actions, for any archive and any host whose
  scopes let other writers move the store by its own steps. Its interpretation for the memory
  store gives the properties: a returned run is complete and durable, deletions are never early
  however the run ends, and a finished epoch is replayed without the clock.
\<close>


section \<open>Checkpoints with one canonical text are equal\<close>

lemma signature_value_defined [simp]: "normalizeForJson (signature_value s) \<noteq> Inr JUndefined"
  by (simp add: signature_value_def)

lemma signature_value_eq:
  assumes "normalizeForJson (signature_value s) = normalizeForJson (signature_value t)"
  shows "s = t"
  using normalize_shape_eq [OF assms [unfolded signature_value_def]] by (simp add: proto_key_def)

lemma checkpoint_value_members:
  "\<exists>kvs. checkpoint_value c = JObj kvs \<and> distinct (map fst kvs) \<and> wf_members kvs"
  unfolding checkpoint_value_def
  by (rule exI, rule conjI, rule refl)
    (auto simp: optional_member_def signature_value_def wf_members_iff split: option.splits)

lemma wf_checkpoint_value: "wf_value (checkpoint_value c)"
  using checkpoint_value_members [of c] by auto

lemma checkpoint_value_eq:
  assumes "normalizeForJson (checkpoint_value c) = Inr x" "normalizeForJson (checkpoint_value d) = Inr x"
  shows "c = d"
proof -
  obtain kvs lws where o: "checkpoint_value c = JObj kvs" "distinct (map fst kvs)" "checkpoint_value d = JObj lws" "distinct (map fst lws)"
    using checkpoint_value_members by blast
  note m = same_normal_members [OF assms [unfolded o(1,3)] o(2,4), folded o(1,3)]
  have sig: "cp_signature c = cp_signature d"
    using m [of "''signature''"] signature_value_eq signature_value_defined [symmetric]
    by (cases "cp_signature c"; cases "cp_signature d")
      (auto simp: proto_key_def normalizeForJson.simps(1) simp del: signature_value_defined dest: sym)
  show ?thesis
    by (rule retention_checkpoint.equality) (use sig m [of "''recordType''"] m [of "''schemaVersion''"] m [of "''checkpointId''"]
      m [of "''tenantId''"] m [of "''chainKind''"] m [of "''epoch''"] m [of "''fromSequence''"] m [of "''fromPreviousHash''"]
      m [of "''throughSequence''"] m [of "''throughHash''"] m [of "''recordCount''"] m [of "''archiveRootHash''"]
      m [of "''previousCheckpointHash''"] m [of "''createdAt''"] m [of "''canonicalization''"] m [of "''hashAlgorithm''"]
      m [of "''signaturePublicKeyFingerprint''"] m [of "''hash''"] in \<open>simp_all add: proto_key_def\<close>)
qed

interpretation checkpoint_doc: hashed_document checkpoint_value "\<lambda>_. True" "(=)"
  by unfold_locales (auto simp: wf_checkpoint_value intro: checkpoint_value_eq)

lemma assertSameJson_checkpoint: "assertSameJson (checkpoint_value c) (checkpoint_value d) msg = Inr u \<Longrightarrow> c = d"
  unfolding assertSameJson_def using checkpoint_doc.text_determines by auto

section \<open>Calls as actions\<close>

lemma thenDo_cong: "(\<And>x v. m w = (Inr x, v) \<Longrightarrow> f x v = g x v) \<Longrightarrow> thenDo m f w = thenDo m g w"
  by (auto simp: thenDo_def split: prod.splits sum.splits)

lemma yields_on_store:
  assumes "\<And>w. P w \<Longrightarrow> yields (\<lambda>s. s = wo_store w) m (\<lambda>x s. Q x (w\<lparr>wo_store := s\<rparr>)) (\<lambda>s. E (w\<lparr>wo_store := s\<rparr>))"
  shows "yields P (on_store m) Q E"
  using assms by (fastforce simp: yields_def on_store_def Let_def prod_eq_iff split: sum.splits)

text \<open>What every stage keeps: the store has evolved by its own steps, and each deletion the run
  has asked for met the condition \<open>safe\<close> on the store at that time.\<close>

definition epoch_world :: "('s \<Rightarrow> bool) \<Rightarrow> ('s \<Rightarrow> 's \<Rightarrow> bool) \<Rightarrow> ('s \<Rightarrow> bool) \<Rightarrow> 's \<Rightarrow> (archive_call \<times> 's) list
     \<Rightarrow> ('s, 'p, 'h) world \<Rightarrow> bool" where
  "epoch_world invar step safe s0 log w \<longleftrightarrow> invar (wo_store w) \<and> step\<^sup>*\<^sup>* s0 (wo_store w) \<and>
     (\<exists>calls. wo_calls w = log @ calls \<and> (\<forall>m s. (DeleteCall m, s) \<in> set calls \<longrightarrow> safe s))"

definition absence_confirmed :: "('s, 'p, 'h) world \<Rightarrow> bool" where
  "absence_confirmed w \<longleftrightarrow> (\<exists>calls s. wo_calls w = calls @ [(AbsenceCall True, s)])"

text \<open>A host whose scopes let other writers change the store by its own steps only.\<close>

definition host_respects :: "('s \<Rightarrow> 's \<Rightarrow> bool) \<Rightarrow> ('s, 'p, 'h) epoch_options \<Rightarrow> bool" where
  "host_respects step options \<longleftrightarrow> (\<forall>enter \<in> insert (eo_enterLease options) (range (eo_enterFence options)). \<forall>w.
     step\<^sup>*\<^sup>* (wo_store w) (wo_store (snd (enter w))) \<and> wo_calls (snd (enter w)) = wo_calls w)"

lemma yields_on_archive:
  assumes "\<And>w. P w \<Longrightarrow> epoch_world invar step safe s0 log w" "\<And>w r m. P w \<Longrightarrow> call r = DeleteCall m \<Longrightarrow> safe (wo_store w)"
    and "\<And>w p c. P w \<Longrightarrow> R (w\<lparr>wo_provider := p, wo_calls := c\<rparr>)"
  shows "yields P (on_archive call m)
    (\<lambda>x w. epoch_world invar step safe s0 log w \<and> R w \<and> (\<exists>calls s. wo_calls w = calls @ [(call (Inr x), s)]))
    (epoch_world invar step safe s0 log)"
proof -
  have *: "epoch_world invar step safe s0 log (w\<lparr>wo_provider := p, wo_calls := wo_calls w @ [(call r, wo_store w)]\<rparr>)" if "P w" for w p r
  proof -
    from assms(1) [OF that] obtain calls where c: "wo_calls w = log @ calls" "\<forall>m s. (DeleteCall m, s) \<in> set calls \<longrightarrow> safe s"
      "invar (wo_store w)" "step\<^sup>*\<^sup>* s0 (wo_store w)" by (auto simp: epoch_world_def)
    then show ?thesis unfolding epoch_world_def
      using assms(2) [OF that] by (auto intro!: exI [of _ "calls @ [(call r, wo_store w)]"] dest: sym)
  qed
  show ?thesis by (rule yieldsI) (auto simp: on_archive_def Let_def prod_eq_iff * assms(3))
qed

lemma yields_on_host:
  assumes "\<And>w h. P w \<Longrightarrow> R (w\<lparr>wo_host := h\<rparr>)"
  shows "yields P (on_host m) (\<lambda>_. R) R"
  by (rule yieldsI) (auto simp: on_host_def Let_def prod_eq_iff assms)

lemma epoch_world_host [simp]: "epoch_world invar step safe s0 log (w\<lparr>wo_host := h\<rparr>) \<longleftrightarrow> epoch_world invar step safe s0 log w"
  "absence_confirmed (w\<lparr>wo_host := h\<rparr>) \<longleftrightarrow> absence_confirmed w" "absence_confirmed (w\<lparr>wo_store := s\<rparr>) \<longleftrightarrow> absence_confirmed w"
  by (simp_all add: epoch_world_def absence_confirmed_def)

lemma epoch_world_store: "epoch_world invar step safe s0 log w \<Longrightarrow> step\<^sup>*\<^sup>* (wo_store w) s \<Longrightarrow> invar s \<Longrightarrow>
    epoch_world invar step safe s0 log (w\<lparr>wo_store := s\<rparr>)"
  by (auto simp: epoch_world_def)

section \<open>What a finished run guarantees\<close>

definition receipt_accepted ::
  "retention_env \<Rightarrow> ('s, 'p, 'h) epoch_options \<Rightarrow> retention_checkpoint \<Rightarrow> retention_disposition \<Rightarrow> bool" where
  "receipt_accepted env options checkpoint receipt \<longleftrightarrow> receipt_bound options checkpoint receipt \<and>
     (\<exists>status. verifyRetentionDisposition env (disposition_value receipt) (checkpoint_value checkpoint) (verification_of options) =
        Inr (RetOk status))"

lemma accepted_case: "(case v of RetOk st \<Rightarrow> Inr () | RetFail i r st \<Rightarrow> Inl (f r)) = Inr u \<longleftrightarrow> (\<exists>st. v = RetOk st)"
  by (cases v) simp_all

lemma assertVerifiedDisposition_Inr: "assertVerifiedDisposition env d c vo = Inr u \<longleftrightarrow>
    (\<exists>status. verifyRetentionDisposition env (disposition_value d) (checkpoint_value c) vo = Inr (RetOk status))"
  by (auto simp: assertVerifiedDisposition_def andThen_Inr_iff accepted_case)

lemma accepted_binding: "assertAcceptedDispositionBinding env options c d = Inr u \<Longrightarrow> receipt_accepted env options c d"
  by (auto simp: assertAcceptedDispositionBinding_def assertVerifiedDisposition_Inr receipt_accepted_def andThen_Inr_iff)

lemma created_disposition: "createAndVerifyDisposition env options c at = Inr d \<Longrightarrow>
    receipt_accepted env options c d \<and> dp_checkpointHash d = cp_hash c"
  by (auto simp: createAndVerifyDisposition_def Let_def andThen_Inr_iff assertVerifiedDisposition_Inr receipt_accepted_def
      assertDispositionFactoryBinding_def receipt_bound_def)

lemma stored_checkpoint:
  assumes "(case find P cs of None \<Rightarrow> Inl e | Some stored \<Rightarrow>
      assertSameJson (checkpoint_value stored) (checkpoint_value c) msg) = Inr u"
  shows "c \<in> set cs"
  using assms by (auto split: option.splits dest!: assertSameJson_checkpoint simp: find_Some_iff)

section \<open>What the coordinator needs of a store\<close>

locale checkpointing =
  fixes store :: "'s checkpointing_store" and checkpoints :: "'s \<Rightarrow> string \<Rightarrow> retention_checkpoint list"
    and receipts :: "'s \<Rightarrow> string \<Rightarrow> string \<Rightarrow> retention_disposition option" and pending :: "'s \<Rightarrow> string \<Rightarrow> string \<Rightarrow> bool"
    and version :: "'s \<Rightarrow> string \<Rightarrow> int" and invar :: "'s \<Rightarrow> bool" and step :: "'s \<Rightarrow> 's \<Rightarrow> bool"
  assumes invar_step: "invar s \<Longrightarrow> step s s' \<Longrightarrow> invar s'"
    and checkpoints_read: "yields (\<lambda>s. s = s1) (st_listCheckpoints store t) (\<lambda>cs s. s = s1 \<and> cs = checkpoints s1 t) (\<lambda>s. s = s1)"
    and receipts_read: "invar s1 \<Longrightarrow> yields (\<lambda>s. s = s1) (st_listDispositions store t)
      (\<lambda>ds s. s = s1 \<and> (\<forall>d \<in> set ds. receipts s1 t (dp_checkpointHash d) = Some d) \<and>
        (\<forall>c \<in> set (checkpoints s1 t). receipts s1 t (cp_hash c) \<noteq> None \<longrightarrow> (\<exists>d \<in> set ds. dp_checkpointHash d = cp_hash c)))
      (\<lambda>s. s = s1)"
    and version_read: "yields (\<lambda>s. s = s1) (st_getChainState store t)
      (\<lambda>state s. s = s1 \<and> retentionPolicyFence state = version s1 t) (\<lambda>s. s = s1)"
    and compact: "yields (\<lambda>s. s = s1) (st_compactRange store t c state v) (\<lambda>_. step\<^sup>*\<^sup>* s1) (step\<^sup>*\<^sup>* s1)"
    and prepare: "yields (\<lambda>s. s = s1) (st_prepareDisposition store t k attempt v)
      (\<lambda>_ s. step\<^sup>*\<^sup>* s1 s \<and> checkpoints s = checkpoints s1 \<and> version s = version s1 \<and>
        (at_status attempt = Pending \<longrightarrow> pending s t k) \<and> receipts s t k = None) (step\<^sup>*\<^sup>* s1)"
    and confirm: "invar s1 \<Longrightarrow> receipts s1 t (dp_checkpointHash d) = None \<Longrightarrow>
      yields (\<lambda>s. s = s1) (st_confirmDisposition store t d i v)
      (\<lambda>_ s. step\<^sup>*\<^sup>* s1 s \<and> checkpoints s = checkpoints s1 \<and> receipts s t (dp_checkpointHash d) = Some d) (step\<^sup>*\<^sup>* s1)"
begin

lemma invar_steps: "step\<^sup>*\<^sup>* s s' \<Longrightarrow> invar s \<Longrightarrow> invar s'"
  by (induction rule: rtranclp_induct) (auto intro: invar_step)

lemma epoch_world_moves:
  "epoch_world invar step safe s0 log w \<Longrightarrow> step\<^sup>*\<^sup>* (wo_store w) s \<Longrightarrow> epoch_world invar step safe s0 log (w\<lparr>wo_store := s\<rparr>)"
  using epoch_world_store invar_steps by (metis epoch_world_def)

text \<open>Store operations inside a run.\<close>

lemma read_checkpoints:
  "yields (\<lambda>w. epoch_world invar step safe s0 log w \<and> R (wo_store w)) (on_store (st_listCheckpoints store t))
     (\<lambda>cs w. epoch_world invar step safe s0 log w \<and> R (wo_store w) \<and> cs = checkpoints (wo_store w) t) (epoch_world invar step safe s0 log)"
  by (rule yields_on_store, rule yields_weaken [OF checkpoints_read]) auto

lemma read_receipts:
  "yields (\<lambda>w. epoch_world invar step safe s0 log w \<and> R (wo_store w)) (on_store (st_listDispositions store t))
     (\<lambda>ds w. epoch_world invar step safe s0 log w \<and> R (wo_store w) \<and>
       (\<forall>d \<in> set ds. receipts (wo_store w) t (dp_checkpointHash d) = Some d)) (epoch_world invar step safe s0 log)"
  by (rule yields_on_store, rule yields_weaken [OF receipts_read]) (auto simp: epoch_world_def)

lemma read_version:
  "yields (\<lambda>w. epoch_world invar step safe s0 log w \<and> R (wo_store w)) (on_store (st_getChainState store t))
     (\<lambda>state w. epoch_world invar step safe s0 log w \<and> R (wo_store w) \<and> retentionPolicyFence state = version (wo_store w) t)
     (epoch_world invar step safe s0 log)"
  by (rule yields_on_store, rule yields_weaken [OF version_read]) auto

lemma confirm_absent_replay_yields:
  "yields (\<lambda>w. epoch_world invar step safe s0 log w \<and> R (wo_store w)) (confirm_absent_replay env archive options c d)
     (\<lambda>_ w. epoch_world invar step safe s0 log w \<and> R (wo_store w) \<and> absence_confirmed w \<and> receipt_accepted env options c d)
     (epoch_world invar step safe s0 log)"
  unfolding confirm_absent_replay_def
proof (rule yields_lift_then)
  fix x assume "assertAcceptedDispositionBinding env options c d = Inr x"
  then have acc: "receipt_accepted env options c d" by (rule accepted_binding)
  show "yields (\<lambda>w. epoch_world invar step safe s0 log w \<and> R (wo_store w))
      (thenDo (on_archive (\<lambda>r. AbsenceCall (r = Inr True)) (ar_confirmCheckpointEpochAbsent archive c))
         (\<lambda>absent. checkThat absent ''staged retention epoch is present after confirmed disposition''))
      (\<lambda>_ w. epoch_world invar step safe s0 log w \<and> R (wo_store w) \<and> absence_confirmed w \<and> receipt_accepted env options c d)
      (epoch_world invar step safe s0 log)"
    by (rule yields_then, rule yields_on_archive [where R = "\<lambda>w. R (wo_store w)"])
      (auto simp: absence_confirmed_def acc intro!: yields_check)
qed simp

lemma crop_stage_yields:
  "yields (epoch_world invar step safe s0 log) (crop_stage env store options c) (\<lambda>_. epoch_world invar step safe s0 log)
     (epoch_world invar step safe s0 log)"
proof -
  have read: "yields (epoch_world invar step safe s0 log) (on_store (st_listCheckpoints store t))
      (\<lambda>_. epoch_world invar step safe s0 log) (epoch_world invar step safe s0 log)" for t
    by (rule yields_weaken [OF read_checkpoints [where R = "\<lambda>_. True"]]) auto
  have crop: "yields (epoch_world invar step safe s0 log) (on_store (st_compactRange store t c st v))
      (\<lambda>_. epoch_world invar step safe s0 log) (epoch_world invar step safe s0 log)" for t st v
    by (rule yields_on_store, rule yields_weaken [OF compact]) (auto intro: epoch_world_moves)
  show ?thesis unfolding crop_stage_def
    by (rule yields_lift_then, assumption, rule yields_then [OF read])
      (auto intro!: yields_lift yields_check_then crop split: option.splits)
qed

text \<open>A pending attempt of a durable checkpoint without receipt: the only state in which the run deletes.\<close>

abbreviation disposable :: "('s, 'p, 'h) epoch_options \<Rightarrow> retention_checkpoint \<Rightarrow> 's \<Rightarrow> bool" where
  "disposable options c s \<equiv> c \<in> set (checkpoints s (eo_tenantId options)) \<and> pending s (eo_tenantId options) (cp_hash c) \<and>
     receipts s (eo_tenantId options) (cp_hash c) = None \<and> version s (eo_tenantId options) = eo_version options"

abbreviation recorded :: "retention_env \<Rightarrow> ('s, 'p, 'h) epoch_options \<Rightarrow> retention_checkpoint \<Rightarrow> retention_disposition \<Rightarrow> 's \<Rightarrow> bool" where
  "recorded env options c d s \<equiv> c \<in> set (checkpoints s (eo_tenantId options)) \<and>
     receipts s (eo_tenantId options) (cp_hash c) = Some d \<and> receipt_accepted env options c d"

lemma dispose_attempt_yields:
  assumes safe: "\<And>s. disposable options c s \<Longrightarrow> safe s"
  shows "yields (\<lambda>w. epoch_world invar step safe s0 log w \<and> disposable options c (wo_store w))
    (dispose_attempt env store archive options c manifest attempt)
    (\<lambda>d w. epoch_world invar step safe s0 log w \<and> recorded env options c d (wo_store w) \<and> absence_confirmed w)
    (epoch_world invar step safe s0 log)"
    (is "yields (\<lambda>w. ?J w \<and> ?D (wo_store w)) _ ?Q _")
proof -
  have delete: "yields (\<lambda>w. ?J w \<and> ?D (wo_store w))
      (case manifest of None \<Rightarrow> pureA () | Some m \<Rightarrow> on_archive (\<lambda>_. DeleteCall m) (ar_deleteEpoch archive m))
      (\<lambda>_ w. ?J w \<and> ?D (wo_store w)) ?J"
  proof (cases manifest)
    case (Some m)
    have "yields (\<lambda>w. ?J w \<and> ?D (wo_store w)) (on_archive (\<lambda>_. DeleteCall m) (ar_deleteEpoch archive m))
        (\<lambda>x w. ?J w \<and> ?D (wo_store w) \<and> (\<exists>calls s. wo_calls w = calls @ [(DeleteCall m, s)])) ?J"
      by (rule yields_on_archive [where R = "\<lambda>w. ?D (wo_store w)"]) (auto intro: safe)
    with Some show ?thesis by (auto elim: yields_weaken)
  qed (auto intro: yields_pure)
  have absent: "yields (\<lambda>w. ?J w \<and> ?D (wo_store w))
      (on_archive (\<lambda>r. AbsenceCall (r = Inr True)) m)
      (\<lambda>x w. ?J w \<and> ?D (wo_store w) \<and> (x \<longrightarrow> absence_confirmed w)) ?J" for m
    by (rule yields_weaken [OF yields_on_archive [where P = "\<lambda>w. ?J w \<and> ?D (wo_store w)" and R = "\<lambda>w. ?D (wo_store w)"]])
      (auto simp: absence_confirmed_def)
  have host: "yields (\<lambda>w. ?J w \<and> ?D (wo_store w) \<and> absence_confirmed w) (on_host m)
      (\<lambda>_ w. ?J w \<and> ?D (wo_store w) \<and> absence_confirmed w) ?J" for m
    by (rule yields_weaken [OF yields_on_host [where P = "\<lambda>w. ?J w \<and> ?D (wo_store w) \<and> absence_confirmed w"
        and R = "\<lambda>w. ?J w \<and> ?D (wo_store w) \<and> absence_confirmed w"]]) auto
  have persist: "yields (\<lambda>w. ?J w \<and> ?D (wo_store w) \<and> absence_confirmed w)
      (thenDo (on_store (st_confirmDisposition store (eo_tenantId options) d i v)) (\<lambda>_. pureA d)) ?Q ?J"
    if d: "receipt_accepted env options c d \<and> dp_checkpointHash d = cp_hash c" for d i v
  proof (rule yields_then)
    show "yields (\<lambda>w. ?J w \<and> ?D (wo_store w) \<and> absence_confirmed w)
        (on_store (st_confirmDisposition store (eo_tenantId options) d i v)) (\<lambda>_ w. ?Q d w) ?J"
    proof (rule yields_on_store)
      fix w :: "('s, 'a, 'b) world" assume w: "?J w \<and> ?D (wo_store w) \<and> absence_confirmed w"
      then have "invar (wo_store w)" "receipts (wo_store w) (eo_tenantId options) (dp_checkpointHash d) = None"
        using d by (auto simp: epoch_world_def)
      from confirm [OF this] show "yields (\<lambda>s. s = wo_store w) (st_confirmDisposition store (eo_tenantId options) d i v)
          (\<lambda>x s. ?Q d (w\<lparr>wo_store := s\<rparr>)) (\<lambda>s. ?J (w\<lparr>wo_store := s\<rparr>))"
        by (rule yields_weaken) (use w d in \<open>auto intro: epoch_world_moves\<close>)
    qed
  qed (auto intro: yields_pure)
  have tail: "yields (\<lambda>w. ?J w \<and> ?D (wo_store w) \<and> absence_confirmed w)
      (thenDo (on_host m) (\<lambda>value. thenDo (liftA (f value)) (\<lambda>disposedAt.
         thenDo (liftA (createAndVerifyDisposition env options c disposedAt)) (\<lambda>receipt.
         thenDo (on_store (st_confirmDisposition store (eo_tenantId options) receipt i v)) (\<lambda>_. pureA receipt))))) ?Q ?J"
    for m f i v
    by (rule yields_then [OF host], (rule yields_lift_then, blast)+, rule persist, rule created_disposition)
  show ?thesis unfolding dispose_attempt_def
    by (rule yields_then [OF delete], rule yields_then [OF absent], rule yields_check_then, blast, rule yields_weaken [OF tail]) auto
qed

lemma enter_keeps:
  assumes "host_respects step options" "opening \<in> insert (eo_enterLease options) (range (eo_enterFence options))"
  shows "yields (epoch_world invar step safe s0 log) opening (\<lambda>_. epoch_world invar step safe s0 log) (epoch_world invar step safe s0 log)"
proof -
  have "epoch_world invar step safe s0 log (snd (opening w))" if "epoch_world invar step safe s0 log w" for w
    using assms that invar_steps unfolding host_respects_def epoch_world_def
    by (metis (no_types, lifting) rtranclp_trans)
  then show ?thesis by (intro yieldsI) (metis snd_conv)+
qed

text \<open>Inside the policy fence: other writers may have moved the store when it opened.\<close>

lemma yields_policy_fence:
  assumes "host_respects step options" "yields (epoch_world invar step safe s0 log) m Q (epoch_world invar step safe s0 log)"
    and "\<And>x w h. Q x w \<Longrightarrow> Q x (w\<lparr>wo_host := h\<rparr>)"
  shows "yields (epoch_world invar step safe s0 log) (with_policy_fence options m) Q (epoch_world invar step safe s0 log)"
  unfolding with_policy_fence_def
proof (rule yields_bracket)
  show "yields (epoch_world invar step safe s0 log) (eo_enterFence options (eo_version options))
      (\<lambda>_. epoch_world invar step safe s0 log) (epoch_world invar step safe s0 log)"
    by (rule enter_keeps [OF assms(1)]) simp
qed (rule yields_weaken [OF assms(2)], auto intro: assms(3))

lemma dispose_stage_yields:
  assumes safe: "\<And>s. disposable options c s \<Longrightarrow> safe s"
  shows "yields (epoch_world invar step safe s0 log) (dispose_stage env store archive options c manifest)
    (\<lambda>d w. epoch_world invar step safe s0 log w \<and> recorded env options c d (wo_store w) \<and> absence_confirmed w)
    (epoch_world invar step safe s0 log)"
    (is "yields ?J _ ?Q _")
proof -
  let ?t = "eo_tenantId options"
  have state: "yields ?J (on_store (st_getChainState store ?t)) (\<lambda>state w. ?J w \<and> retentionPolicyFence state = version (wo_store w) ?t) ?J"
    by (rule yields_weaken [OF read_version [where R = "\<lambda>_. True"]]) auto
  have list: "yields (\<lambda>w. ?J w \<and> n = version (wo_store w) ?t) (on_store (st_listCheckpoints store ?t))
      (\<lambda>cs w. ?J w \<and> n = version (wo_store w) ?t \<and> cs = checkpoints (wo_store w) ?t) ?J" for n
    by (rule yields_weaken [OF read_checkpoints [where R = "\<lambda>s. n = version s ?t"]]) auto
  have prep: "yields (\<lambda>w. ?J w \<and> eo_version options = version (wo_store w) ?t \<and> c \<in> set (checkpoints (wo_store w) ?t))
      (on_store (st_prepareDisposition store ?t (cp_hash c) attempt v)) (\<lambda>_ w. ?J w \<and> disposable options c (wo_store w)) ?J"
    if "at_status attempt = Pending" for attempt v
  proof (rule yields_on_store)
    fix w :: "('s, 'a, 'b) world" assume w: "?J w \<and> eo_version options = version (wo_store w) ?t \<and> c \<in> set (checkpoints (wo_store w) ?t)"
    show "yields (\<lambda>s. s = wo_store w) (st_prepareDisposition store ?t (cp_hash c) attempt v)
        (\<lambda>_ s. ?J (w\<lparr>wo_store := s\<rparr>) \<and> disposable options c (wo_store (w\<lparr>wo_store := s\<rparr>))) (\<lambda>s. ?J (w\<lparr>wo_store := s\<rparr>))"
      by (rule yields_weaken [OF prepare]) (use w that in \<open>auto intro: epoch_world_moves\<close>)
  qed
  have accepted: "yields (\<lambda>w. ?J w \<and> c \<in> set (checkpoints (wo_store w) ?t) \<and> receipts (wo_store w) ?t (cp_hash c) = Some d)
      (thenDo (confirm_absent_replay env archive options c d) (\<lambda>_. pureA d)) ?Q ?J" for d
    by (rule yields_then [OF confirm_absent_replay_yields [where R = "\<lambda>s. c \<in> set (checkpoints s ?t) \<and> receipts s ?t (cp_hash c) = Some d"]])
      (auto intro: yields_pure)
  have tail: "yields (\<lambda>w. ?J w \<and> eo_version options = version (wo_store w) ?t \<and> c \<in> set (checkpoints (wo_store w) ?t))
      (thenDo (on_store (st_listDispositions store ?t)) (\<lambda>ds. case find (\<lambda>d. dp_checkpointHash d = cp_hash c) ds of
         Some d \<Rightarrow> thenDo (confirm_absent_replay env archive options c d) (\<lambda>_. pureA d)
       | None \<Rightarrow> thenDo (on_store (st_prepareDisposition store ?t (cp_hash c) attempt v)) (\<lambda>a. thenDo (checkThat (P a) msg) (\<lambda>_.
           dispose_attempt env store archive options c manifest a)))) ?Q ?J"
    if pending: "at_status attempt = Pending" for attempt v P msg
  proof (rule yields_then [OF read_receipts [where R = "\<lambda>s. eo_version options = version s ?t \<and> c \<in> set (checkpoints s ?t)"]])
    fix ds
    show "yields (\<lambda>w. ?J w \<and> (eo_version options = version (wo_store w) ?t \<and> c \<in> set (checkpoints (wo_store w) ?t)) \<and>
        (\<forall>d \<in> set ds. receipts (wo_store w) ?t (dp_checkpointHash d) = Some d))
      (case find (\<lambda>d. dp_checkpointHash d = cp_hash c) ds of
         Some d \<Rightarrow> thenDo (confirm_absent_replay env archive options c d) (\<lambda>_. pureA d)
       | None \<Rightarrow> thenDo (on_store (st_prepareDisposition store ?t (cp_hash c) attempt v)) (\<lambda>a. thenDo (checkThat (P a) msg) (\<lambda>_.
           dispose_attempt env store archive options c manifest a))) ?Q ?J"
    proof (cases "find (\<lambda>d. dp_checkpointHash d = cp_hash c) ds")
      case None
      have "yields (\<lambda>w. ?J w \<and> eo_version options = version (wo_store w) ?t \<and> c \<in> set (checkpoints (wo_store w) ?t))
          (thenDo (on_store (st_prepareDisposition store ?t (cp_hash c) attempt v)) (\<lambda>a. thenDo (checkThat (P a) msg) (\<lambda>_.
             dispose_attempt env store archive options c manifest a))) ?Q ?J"
        by (rule yields_then [OF prep [OF pending]], rule yields_check_then, blast, rule dispose_attempt_yields [OF safe])
      then show ?thesis unfolding None option.case by (rule yields_weaken) auto
    next
      case (Some d)
      then have "d \<in> set ds" "dp_checkpointHash d = cp_hash c" by (auto simp: find_Some_iff)
      then show ?thesis unfolding Some option.case by (intro yields_weaken [OF accepted]) auto
    qed
  qed
  show ?thesis unfolding dispose_stage_def
    by (rule yields_then [OF state], rule yields_check_then, blast, rule yields_then [OF yields_weaken [OF list]], blast, assumption, assumption,
      rule yields_lift_then, blast, rule yields_weaken [OF tail]) (auto dest: stored_checkpoint)
qed

lemma replay_checkpoint_yields:
  "yields (\<lambda>w. epoch_world invar step safe s0 log w \<and> R (wo_store w)) (replay_checkpoint env archive options epoch stored)
     (\<lambda>r w. epoch_world invar step safe s0 log w \<and> R (wo_store w) \<and> fst r = stored) (epoch_world invar step safe s0 log)"
proof -
  have recover: "yields (\<lambda>w. epoch_world invar step safe s0 log w \<and> R (wo_store w))
      (thenDo (on_archive (\<lambda>_. RecoverCall) m) (\<lambda>manifest. pureA (stored, manifest, None)))
      (\<lambda>r w. epoch_world invar step safe s0 log w \<and> R (wo_store w) \<and> fst r = stored) (epoch_world invar step safe s0 log)" for m
    by (rule yields_then, rule yields_on_archive [where R = "\<lambda>w. R (wo_store w)"]) (auto intro: yields_pure)
  show ?thesis unfolding replay_checkpoint_def Let_def
    by (rule yields_lift_then, blast, rule yields_lift_then, blast, rule yields_lift_then, blast, rule yields_lift_then, blast,
      rule yields_lift_then, blast, rule yields_lift_then, blast, rule recover)
qed

lemma archive_call_keeps:
  assumes "\<And>m. k \<noteq> DeleteCall m"
  shows "yields (epoch_world invar step safe s0 log) (on_archive (\<lambda>_. k) m) (\<lambda>_. epoch_world invar step safe s0 log)
    (epoch_world invar step safe s0 log)"
  by (rule yields_weaken [OF yields_on_archive [where P = "epoch_world invar step safe s0 log" and R = "\<lambda>_. True"]])
    (auto simp: assms)

lemma seal_stage_yields:
  "yields (epoch_world invar step safe s0 log) (seal_stage archive input manifest) (\<lambda>_. epoch_world invar step safe s0 log)
     (epoch_world invar step safe s0 log)"
  unfolding seal_stage_def
  by (cases input; cases manifest)
    (auto intro!: yields_lift yields_lift_then yields_check yields_then [OF archive_call_keeps] split: staging_verification.splits)

lemma plan_epoch_yields:
  "yields (\<lambda>w. epoch_world invar step safe s0 log w \<and> R (wo_store w)) (plan_epoch env archive options epoch stored)
     (\<lambda>r w. epoch_world invar step safe s0 log w \<and> R (wo_store w) \<and> (\<forall>c. stored = Some c \<longrightarrow> fst r = c)) (epoch_world invar step safe s0 log)"
  unfolding plan_epoch_def by (cases stored) (auto intro: yields_lift yields_weaken [OF replay_checkpoint_yields])

abbreviation finished :: "retention_env \<Rightarrow> ('s, 'p, 'h) epoch_options \<Rightarrow> epoch_result \<Rightarrow> ('s, 'p, 'h) world \<Rightarrow> bool" where
  "finished env options result w \<equiv> absence_confirmed w \<and>
     recorded env options (rr_checkpoint result) (rr_disposition result) (wo_store w)"

lemma finish_epoch_yields:
  assumes host: "host_respects step options" and safe: "\<And>c s. disposable options c s \<Longrightarrow> safe s"
  shows "yields (\<lambda>w. epoch_world invar step safe s0 log w \<and>
      (\<forall>d \<in> set ds. receipts (wo_store w) (eo_tenantId options) (dp_checkpointHash d) = Some d) \<and>
      (known \<longrightarrow> fst plan \<in> set (checkpoints (wo_store w) (eo_tenantId options))))
    (finish_epoch env store archive options known ds plan)
    (\<lambda>result w. epoch_world invar step safe s0 log w \<and> finished env options result w) (epoch_world invar step safe s0 log)"
    (is "yields ?P _ ?Q ?J")
proof -
  let ?t = "eo_tenantId options"
  obtain c manifest input where plan: "plan = (c, manifest, input)" by (cases plan)
  have accepted: "yields (\<lambda>w. ?J w \<and> c \<in> set (checkpoints (wo_store w) ?t) \<and> receipts (wo_store w) ?t (cp_hash c) = Some d)
      (thenDo (confirm_absent_replay env archive options c d)
        (\<lambda>_. pureA \<lparr>rr_manifest = manifest, rr_checkpoint = c, rr_disposition = d\<rparr>)) ?Q ?J" for d
    by (rule yields_then [OF confirm_absent_replay_yields [where R = "\<lambda>s. c \<in> set (checkpoints s ?t) \<and> receipts s ?t (cp_hash c) = Some d"]])
      (auto intro: yields_pure)
  have seal: "yields ?J (if known then pureA () else seal_stage archive input manifest) (\<lambda>_. ?J) ?J"
    using seal_stage_yields by (auto intro: yields_pure)
  have crop: "yields ?J (with_policy_fence options (crop_stage env store options c)) (\<lambda>_. ?J) ?J"
    by (rule yields_policy_fence [OF host crop_stage_yields]) simp
  have dispose: "yields ?J (with_policy_fence options (dispose_stage env store archive options c manifest))
      (\<lambda>d w. ?J w \<and> recorded env options c d (wo_store w) \<and> absence_confirmed w) ?J"
    by (rule yields_policy_fence [OF host dispose_stage_yields [OF safe]]) auto
  have fresh: "yields ?J (thenDo (if known then pureA () else seal_stage archive input manifest) (\<lambda>_.
         thenDo (with_policy_fence options (crop_stage env store options c)) (\<lambda>_.
         thenDo (with_policy_fence options (dispose_stage env store archive options c manifest)) (\<lambda>d.
         pureA \<lparr>rr_manifest = manifest, rr_checkpoint = c, rr_disposition = d\<rparr>)))) ?Q ?J"
    by (rule yields_then [OF seal], rule yields_then [OF crop], rule yields_then [OF dispose]) (auto intro: yields_pure)
  show ?thesis
  proof (cases "find (\<lambda>d. dp_checkpointHash d = cp_hash c) ds")
    case None
    then show ?thesis unfolding finish_epoch_def plan prod.case None option.case by (intro yields_weaken [OF fresh]) auto
  next
    case (Some d)
    then have "d \<in> set ds" "dp_checkpointHash d = cp_hash c" by (auto simp: find_Some_iff)
    with Some show ?thesis unfolding finish_epoch_def plan prod.case Some option.case
      by (intro yields_check_then yields_weaken [OF accepted]) auto
  qed
qed

lemma under_lease_yields:
  assumes host: "host_respects step options" and safe: "\<And>c s. disposable options c s \<Longrightarrow> safe s"
  shows "yields (epoch_world invar step safe s0 log) (runRetentionEpochUnderLease env store archive options)
    (\<lambda>result w. epoch_world invar step safe s0 log w \<and> finished env options result w) (epoch_world invar step safe s0 log)"
    (is "yields ?J _ ?Q _")
proof -
  let ?t = "eo_tenantId options"
  have list: "yields ?J (on_store (st_listCheckpoints store ?t)) (\<lambda>cs w. ?J w \<and> cs = checkpoints (wo_store w) ?t) ?J"
    by (rule yields_weaken [OF read_checkpoints [where R = "\<lambda>_. True"]]) auto
  have rest: "yields (\<lambda>w. ?J w \<and> cs = checkpoints (wo_store w) ?t) (thenDo (on_store (st_listDispositions store ?t)) (\<lambda>ds.
      thenDo (plan_epoch env archive options epoch (find P cs)) (finish_epoch env store archive options (find P cs \<noteq> None) ds))) ?Q ?J"
    for cs P epoch
  proof (rule yields_then [OF read_receipts [where R = "\<lambda>s. cs = checkpoints s ?t"]])
    fix ds
    let ?R = "\<lambda>s. cs = checkpoints s ?t \<and> (\<forall>d \<in> set ds. receipts s ?t (dp_checkpointHash d) = Some d)"
    have "yields (\<lambda>w. ?J w \<and> ?R (wo_store w)) (thenDo (plan_epoch env archive options epoch (find P cs))
        (finish_epoch env store archive options (find P cs \<noteq> None) ds)) ?Q ?J"
      by (rule yields_then [OF plan_epoch_yields [where R = ?R]], rule yields_weaken [OF finish_epoch_yields [OF host safe]])
        (auto simp: find_Some_iff)
    then show "yields (\<lambda>w. ?J w \<and> cs = checkpoints (wo_store w) ?t \<and> (\<forall>d \<in> set ds. receipts (wo_store w) ?t (dp_checkpointHash d) = Some d))
        (thenDo (plan_epoch env archive options epoch (find P cs)) (finish_epoch env store archive options (find P cs \<noteq> None) ds)) ?Q ?J" .
  qed
  show ?thesis unfolding runRetentionEpochUnderLease_def Let_def
    by (rule yields_lift_then, assumption, rule yields_then [OF list], rule rest)
qed

lemma run_yields:
  assumes host: "host_respects step options" and safe: "\<And>c s. disposable options c s \<Longrightarrow> safe s"
  shows "yields (epoch_world invar step safe s0 log) (runRetentionEpoch env store archive options)
    (\<lambda>result w. epoch_world invar step safe s0 log w \<and> finished env options result w) (epoch_world invar step safe s0 log)"
  unfolding runRetentionEpoch_def with_epoch_lease_def
  by (rule yields_bracket [OF enter_keeps [OF host]], simp, rule yields_weaken [OF under_lease_yields [OF host safe]]) auto

text \<open>An epoch with an accepted receipt: the run only confirms absence.\<close>

lemma replay_finish:
  assumes "find (\<lambda>d. dp_checkpointHash d = cp_hash (fst plan)) ds \<noteq> None"
  shows "finish_epoch env store archive (options\<lparr>eo_resolveDisposedAt := f\<rparr>) known ds plan =
    finish_epoch env store archive options known ds plan"
  using assms
  by (auto simp: finish_epoch_def confirm_absent_replay_def assertAcceptedDispositionBinding_def receipt_bound_def
      verification_of_def split: prod.splits)

lemma replay_plan: "plan_epoch env archive (options\<lparr>eo_resolveDisposedAt := f\<rparr>) epoch stored = plan_epoch env archive options epoch stored"
  by (simp add: plan_epoch_def replay_checkpoint_def derive_checkpoint_def verification_of_def checkpointInputFromStored_def
      checkpoint_input_def split: option.split)

lemma replay_fields: "eo_tenantId (options\<lparr>eo_resolveDisposedAt := f\<rparr>) = eo_tenantId options"
  "eo_previousCheckpoint (options\<lparr>eo_resolveDisposedAt := f\<rparr>) = eo_previousCheckpoint options"
  by simp_all

lemma replay_guards: "validateCoordinatorInputs (options\<lparr>eo_resolveDisposedAt := f\<rparr>) = validateCoordinatorInputs options"
  by (simp add: validateCoordinatorInputs_def cong: option.case_cong)

lemma find_known:
  assumes "d \<in> set ds" "dp_checkpointHash d = h"
  shows "find (\<lambda>d. dp_checkpointHash d = h) ds \<noteq> None"
  using assms by (auto simp: find_None_iff)

lemma under_lease_replay:
  assumes inv: "invar (wo_store w)"
    and stored: "find (\<lambda>c. cp_epoch c = (case eo_previousCheckpoint options of None \<Rightarrow> 0 | Some p \<Rightarrow> cp_epoch p) + 1)
        (checkpoints (wo_store w) (eo_tenantId options)) = Some c"
    and receipt: "receipts (wo_store w) (eo_tenantId options) (cp_hash c) = Some d"
  shows "runRetentionEpochUnderLease env store archive (options\<lparr>eo_resolveDisposedAt := f\<rparr>) w =
      runRetentionEpochUnderLease env store archive options w"
    and "runRetentionEpochUnderLease env store archive options w = (Inr result, w') \<Longrightarrow>
      rr_checkpoint result = c \<and> rr_disposition result = d \<and> wo_store w' = wo_store w"
proof -
  let ?t = "eo_tenantId options" and ?s = "wo_store w"
  let ?n = "(case eo_previousCheckpoint options of None \<Rightarrow> 0 | Some p \<Rightarrow> cp_epoch p) + 1"
  let ?J = "epoch_world invar step (\<lambda>_. True) ?s (wo_calls w)"
  have list: "v = w \<and> cs = checkpoints ?s ?t" if "on_store (st_listCheckpoints store ?t) w = (Inr cs, v)" for cs v
    using that yieldsD(1) [OF checkpoints_read [of ?s ?t], of ?s cs] by (auto simp: on_store_def Let_def prod_eq_iff)
  have ds: "v = w \<and> (\<forall>d \<in> set ds. receipts ?s ?t (dp_checkpointHash d) = Some d) \<and> (\<exists>d \<in> set ds. dp_checkpointHash d = cp_hash c)"
    if "on_store (st_listDispositions store ?t) w = (Inr ds, v)" for ds v
  proof -
    have "c \<in> set (checkpoints ?s ?t)" using stored by (auto simp: find_Some_iff)
    with that receipt yieldsD(1) [OF receipts_read [OF inv, of ?t], of ?s ds] show ?thesis
      by (auto simp: on_store_def Let_def prod_eq_iff)
  qed
  have plan: "wo_store v = ?s \<and> fst p = c \<and> ?J v" if "plan_epoch env archive options ?n (Some c) w = (Inr p, v)" for p v
  proof -
    have "?J w \<and> ?s = ?s" using inv by (simp add: epoch_world_def)
    from yieldsD(1) [OF plan_epoch_yields [where R = "\<lambda>s. s = ?s"], OF this that] show ?thesis by simp
  qed
  let ?o = "options\<lparr>eo_resolveDisposedAt := f\<rparr>"
  show "runRetentionEpochUnderLease env store archive ?o w = runRetentionEpochUnderLease env store archive options w"
    unfolding runRetentionEpochUnderLease_def Let_def replay_guards replay_plan replay_fields
  proof (intro thenDo_cong, goal_cases)
    case (1 u v1 cs v2 ds v3 p v4)
    from 1(1) have v1: "v1 = w" by simp
    with list 1(2) have v2: "v2 = w" "cs = checkpoints ?s ?t" by blast+
    with ds 1(3) have v3: "v3 = w" "\<exists>d \<in> set ds. dp_checkpointHash d = cp_hash c" by blast+
    from 1(4) have "fst p = c" using plan v2 v3 stored by simp
    with find_known v3(2) show ?case by (subst replay_finish) auto
  qed
  show "rr_checkpoint result = c \<and> rr_disposition result = d \<and> wo_store w' = wo_store w"
    if run: "runRetentionEpochUnderLease env store archive options w = (Inr result, w')"
  proof -
  from run [unfolded runRetentionEpochUnderLease_def Let_def thenDo_Inr] obtain u v1 cs v2 ds v3 p v4 where
    r: "liftA (validateCoordinatorInputs options) w = (Inr u, v1)" "on_store (st_listCheckpoints store ?t) v1 = (Inr cs, v2)"
      "on_store (st_listDispositions store ?t) v2 = (Inr ds, v3)"
      "plan_epoch env archive options ?n (find (\<lambda>c. cp_epoch c = ?n) cs) v3 = (Inr p, v4)"
      "finish_epoch env store archive options (find (\<lambda>c. cp_epoch c = ?n) cs \<noteq> None) ds p v4 = (Inr result, w')" by blast
  from r(1) have v1: "v1 = w" by simp
  with list r(2) have v2: "v2 = w" "cs = checkpoints ?s ?t" by blast+
  with ds r(3) have v3: "v3 = w" "\<forall>d \<in> set ds. receipts ?s ?t (dp_checkpointHash d) = Some d"
    "\<exists>d \<in> set ds. dp_checkpointHash d = cp_hash c" by blast+
  from r(4) have v4: "wo_store v4 = ?s" "fst p = c" "?J v4" using plan v2 v3 stored by simp_all
  from find_known v3(3) obtain d' where d': "find (\<lambda>d. dp_checkpointHash d = cp_hash c) ds = Some d'" by fastforce
  then have "d' \<in> set ds" "dp_checkpointHash d' = cp_hash c" by (auto simp: find_Some_iff)
  with v3(2) receipt have "d' = d" by force
  with d' v4(2) r(5) have fin: "rr_checkpoint result = c \<and> rr_disposition result = d \<and>
      confirm_absent_replay env archive options c d v4 = (Inr (), w')"
    by (auto simp: finish_epoch_def thenDo_Inr checkThat_def split: prod.splits)
  from v4(1,3) have "?J v4 \<and> wo_store v4 = ?s" by simp
  from yieldsD(1) [OF confirm_absent_replay_yields [where R = "\<lambda>s. s = ?s"], OF this] fin show ?thesis by blast
  qed
qed

end

section \<open>The memory store as the coordinator's store\<close>

lemma attempt_json_status:
  assumes "canonicalJson (attempt_json a) = canonicalJson (attempt_json b)"
  shows "at_status a = at_status b"
proof -
  have wf: "wf_value (attempt_json a)" for a by (simp add: attempt_json_def)
  have "\<exists>x. normalizeForJson (attempt_json b) = Inr x"
    unfolding attempt_json_def by (rule normalize_object_total) simp
  then obtain t where t: "canonicalJson (attempt_json b) = Inr t"
    using normalize_object_defined by (fastforce simp: canonicalJson_def attempt_json_def)
  have "normalizeForJson (attempt_json a) = normalizeForJson (attempt_json b)"
    by (rule canonicalJson_determines [OF wf wf]) (use assms t in simp_all)
  from normalize_shape_eq [OF this [unfolded attempt_json_def]] have "status_text (at_status a) = status_text (at_status b)"
    by (simp add: proto_key_def)
  then show ?thesis by (cases "at_status a"; cases "at_status b") (simp_all add: status_text_def)
qed

lemma yields_store_action:
  "(\<And>x s'. r s1 = Inr (x, s') \<Longrightarrow> Q x s') \<Longrightarrow> E s1 \<Longrightarrow> yields (\<lambda>s. s = s1) (\<lambda>s. store_action (r s) s) Q E"
  by (auto simp: yields_def store_action_def split: sum.splits)

abbreviation pending_attempt :: "memory_store \<Rightarrow> string \<Rightarrow> string \<Rightarrow> bool" where
  "pending_attempt s t k \<equiv> \<exists>a. attempts_of s t k = Some a \<and> at_status a = Pending"

abbreviation fence_of :: "memory_store \<Rightarrow> string \<Rightarrow> int" where
  "fence_of s t \<equiv> retentionPolicyFence (chain_state_of s t)"

lemma prepared_store:
  assumes "prepareDisposition s t k attempt v = Inr (a, s')"
  shows "checkpoints_of s' = checkpoints_of s" "fence_of s' = fence_of s" "dispositions_of s' t k = None"
    "at_status attempt = Pending \<Longrightarrow> pending_attempt s' t k"
proof -
  from prepare_cases [OF assms] have "s' = s \<and> attempts_of s t k = Some a \<and> at_status a = at_status attempt \<or>
      s' = s\<lparr>ms_attempts := (ms_attempts s)(t \<mapsto> (attempts_of s t)(k \<mapsto> attempt))\<rparr>" "dispositions_of s t k = None"
    using attempt_json_status by blast+
  then show "checkpoints_of s' = checkpoints_of s" "fence_of s' = fence_of s" "dispositions_of s' t k = None"
    "at_status attempt = Pending \<Longrightarrow> pending_attempt s' t k"
    by (auto simp: checkpoints_of_def chain_state_of_def dispositions_of_def attempts_of_def)
qed

lemma confirmed_store:
  assumes "dispositions_of s t (dp_checkpointHash d) = None" "confirmDisposition env s t d i v = Inr (u, s')"
  shows "checkpoints_of s' = checkpoints_of s" "dispositions_of s' t (dp_checkpointHash d) = Some d"
  using confirm_cases [OF assms(2)] assms(1) by (auto simp: checkpoints_of_def dispositions_of_def)

interpretation memory_checkpoints: checkpointing "memory_checkpointing_store env" checkpoints_of dispositions_of pending_attempt
  fence_of "store_inv env" "store_step env" for env
proof
  fix s s' s1 t k d i v c state attempt
  show "store_inv env s \<Longrightarrow> store_step env s s' \<Longrightarrow> store_inv env s'" by (rule store_step_inv)
  show "yields (\<lambda>s. s = s1) (st_listCheckpoints (memory_checkpointing_store env) t)
      (\<lambda>cs s. s = s1 \<and> cs = checkpoints_of s1 t) (\<lambda>s. s = s1)"
    by (rule yieldsI) (auto simp: memory_checkpointing_store_def listCheckpoints_def)
  show "yields (\<lambda>s. s = s1) (st_listDispositions (memory_checkpointing_store env) t)
      (\<lambda>ds s. s = s1 \<and> (\<forall>d \<in> set ds. dispositions_of s1 t (dp_checkpointHash d) = Some d) \<and>
        (\<forall>c \<in> set (checkpoints_of s1 t). dispositions_of s1 t (cp_hash c) \<noteq> None \<longrightarrow> (\<exists>d \<in> set ds. dp_checkpointHash d = cp_hash c)))
      (\<lambda>s. s = s1)" if "store_inv env s1"
  proof -
    have "dp_checkpointHash d = k" if "dispositions_of s1 t k = Some d" for k d
      using that \<open>store_inv env s1\<close> by (simp add: store_inv_def disposition_inv_def)
    then show ?thesis
      by (intro yieldsI) (fastforce simp: memory_checkpointing_store_def listDispositions_def List.map_filter_def)+
  qed
  show "yields (\<lambda>s. s = s1) (st_getChainState (memory_checkpointing_store env) t)
      (\<lambda>state s. s = s1 \<and> retentionPolicyFence state = fence_of s1 t) (\<lambda>s. s = s1)"
    by (rule yieldsI) (auto simp: memory_checkpointing_store_def getChainState_def chainState_def)
  show "yields (\<lambda>s. s = s1) (st_compactRange (memory_checkpointing_store env) t c state v)
      (\<lambda>_. (store_step env)\<^sup>*\<^sup>* s1) ((store_step env)\<^sup>*\<^sup>* s1)"
    unfolding memory_checkpointing_store_def checkpointing_store.simps
    by (rule yields_store_action) (auto intro: step_compact)
  show "yields (\<lambda>s. s = s1) (st_prepareDisposition (memory_checkpointing_store env) t k attempt v)
      (\<lambda>_ s. (store_step env)\<^sup>*\<^sup>* s1 s \<and> checkpoints_of s = checkpoints_of s1 \<and> fence_of s = fence_of s1 \<and>
        (at_status attempt = Pending \<longrightarrow> pending_attempt s t k) \<and> dispositions_of s t k = None) ((store_step env)\<^sup>*\<^sup>* s1)"
    unfolding memory_checkpointing_store_def checkpointing_store.simps
    by (rule yields_store_action) (auto intro: step_prepare dest: prepared_store)
  show "yields (\<lambda>s. s = s1) (st_confirmDisposition (memory_checkpointing_store env) t d i v)
      (\<lambda>_ s. (store_step env)\<^sup>*\<^sup>* s1 s \<and> checkpoints_of s = checkpoints_of s1 \<and>
        dispositions_of s t (dp_checkpointHash d) = Some d) ((store_step env)\<^sup>*\<^sup>* s1)"
    if "dispositions_of s1 t (dp_checkpointHash d) = None"
    unfolding memory_checkpointing_store_def checkpointing_store.simps
    by (rule yields_store_action) (auto intro: step_confirm dest: confirmed_store [OF that])
qed

section \<open>Properties\<close>

text \<open>C21. A run over the memory store that returns has finished its work, whatever other writers did
  when the lease and the policy fences opened: the returned checkpoint is in the tenant's stored
  chain, the returned receipt is the one stored for it, it verifies under the caller's options and
  carries the caller's identifiers and policy reference, and the last answer of the archive was
  that the staged copies are absent.\<close>

theorem retention_epoch_completed:
  assumes "store_inv env (wo_store w)" "host_respects (store_step env) options"
    and "runRetentionEpoch env (memory_checkpointing_store env) archive options w = (Inr result, w')"
  shows "rr_checkpoint result \<in> set (checkpoints_of (wo_store w') (eo_tenantId options)) \<and>
    dispositions_of (wo_store w') (eo_tenantId options) (cp_hash (rr_checkpoint result)) = Some (rr_disposition result) \<and>
    receipt_accepted env options (rr_checkpoint result) (rr_disposition result) \<and> absence_confirmed w'"
proof -
  have "epoch_world (store_inv env) (store_step env) (\<lambda>_. True) (wo_store w) (wo_calls w) w"
    using assms(1) by (simp add: epoch_world_def)
  from yieldsD(1) [OF memory_checkpoints.run_yields [OF assms(2)], OF _ this assms(3)] show ?thesis by blast
qed


text \<open>C23. Once the epoch's checkpoint and its receipt are stored, a run replays them: it never consults
  the disposal clock (any resolver gives the same run), returns the stored checkpoint and receipt,
  and leaves the store as the lease found it.\<close>

theorem retention_epoch_replays:
  assumes lease: "eo_enterLease options w = (Inr (), v)" and inv: "store_inv env (wo_store v)"
    and stored: "find (\<lambda>c. cp_epoch c = (case eo_previousCheckpoint options of None \<Rightarrow> 0 | Some p \<Rightarrow> cp_epoch p) + 1)
      (checkpoints_of (wo_store v) (eo_tenantId options)) = Some c"
    and receipt: "dispositions_of (wo_store v) (eo_tenantId options) (cp_hash c) = Some d"
  shows "runRetentionEpoch env (memory_checkpointing_store env) archive (options\<lparr>eo_resolveDisposedAt := resolver\<rparr>) w =
      runRetentionEpoch env (memory_checkpointing_store env) archive options w \<and>
    (\<forall>result w'. runRetentionEpoch env (memory_checkpointing_store env) archive options w = (Inr result, w') \<longrightarrow>
      rr_checkpoint result = c \<and> rr_disposition result = d \<and> wo_store w' = wo_store v)"
proof -
  note replay = memory_checkpoints.under_lease_replay [OF inv stored receipt]
  have "runRetentionEpoch env (memory_checkpointing_store env) archive (options\<lparr>eo_resolveDisposedAt := resolver\<rparr>) w =
      runRetentionEpoch env (memory_checkpointing_store env) archive options w"
    by (simp add: runRetentionEpoch_def with_epoch_lease_def bracket_def lease replay(1))
  moreover have "rr_checkpoint result = c \<and> rr_disposition result = d \<and> wo_store w' = wo_store v"
    if "runRetentionEpoch env (memory_checkpointing_store env) archive options w = (Inr result, w')" for result w'
    using that replay(2) by (auto simp: runRetentionEpoch_def with_epoch_lease_def bracket_Inr lease)
  ultimately show ?thesis by blast
qed

section \<open>A concrete run\<close>

definition sample_manifest :: staging_manifest where
  "sample_manifest = \<lparr>mf_recordType = ''retention.staging.manifest'', mf_schemaVersion = ''1.0'', mf_tenantId = ''t1'',
     mf_epoch = 1, mf_fromSequence = 1, mf_fromPreviousHash = None, mf_throughSequence = 1, mf_throughHash = zero_digest [],
     mf_recordCount = 1, mf_previousCheckpointHash = None, mf_archiveRootHash = zero_digest [], mf_segments = [],
     mf_manifestKey = ''m''\<rparr>"

definition sample_archive :: "bool staging_archive" where
  "sample_archive = \<lparr>ar_deriveEpoch = (\<lambda>_. Inr sample_manifest), ar_sealEpoch = (\<lambda>_ _. (Inr sample_manifest, True)),
     ar_recoverEpoch = (\<lambda>_ staged. (Inr (if staged then Some sample_manifest else None), staged)),
     ar_verifyEpoch = (\<lambda>_ staged. (Inr (StagingOk (zero_digest []) 1 1), staged)),
     ar_deleteEpoch = (\<lambda>_ _. (Inr (), False)), ar_confirmEpochAbsent = (\<lambda>_ staged. (Inr (\<not> staged), staged)),
     ar_confirmCheckpointEpochAbsent = (\<lambda>_ staged. (Inr (\<not> staged), staged))\<rparr>"

definition sample_epoch :: "(memory_store, bool, unit) epoch_options" where
  "sample_epoch = \<lparr>eo_tenantId = ''t1'', eo_records = [], eo_previousCheckpoint = None, eo_expectedState = untouched_chain,
     eo_eligible = True, eo_policyReference = ''p1'', eo_version = 0, eo_checkpointId = ''c'',
     eo_createdAt = ''1970-01-01T00:00:00.000Z'', eo_attemptId = ''a1'', eo_dispositionId = ''d1'',
     eo_resolveDisposedAt = (\<lambda>_ h. (Inr (JStr ''1970-01-01T00:00:00.000Z''), h)), eo_segmentRecordCount = None,
     eo_createCheckpoint = (\<lambda>_. Inr run_checkpoint), eo_createDisposition = (\<lambda>_. Inr run_receipt), eo_verification = None,
     eo_enterLease = (\<lambda>w. (Inr (), w)), eo_leaveLease = id, eo_enterFence = (\<lambda>_ w. (Inr (), w)), eo_leaveFence = id\<rparr>"

definition sample_world :: "memory_store \<Rightarrow> bool \<Rightarrow> (memory_store, bool, unit) world" where
  "sample_world s staged = \<lparr>wo_store = s, wo_provider = staged, wo_host = (), wo_calls = []\<rparr>"

lemma sample_epoch_fields [simp]:
  "eo_tenantId sample_epoch = ''t1''" "eo_previousCheckpoint sample_epoch = None" "eo_policyReference sample_epoch = ''p1''"
  "eo_eligible sample_epoch" "eo_version sample_epoch = 0" "eo_checkpointId sample_epoch = ''c''"
  "eo_createdAt sample_epoch = ''1970-01-01T00:00:00.000Z''" "eo_attemptId sample_epoch = ''a1''"
  "eo_dispositionId sample_epoch = ''d1''" "eo_createCheckpoint sample_epoch x = Inr run_checkpoint"
  "eo_createDisposition sample_epoch y = Inr run_receipt" "verification_of sample_epoch = default_options"
  "eo_resolveDisposedAt sample_epoch ctx h = (Inr (JStr ''1970-01-01T00:00:00.000Z''), h)"
  "eo_enterLease sample_epoch w = (Inr (), w)" "eo_enterFence sample_epoch v w = (Inr (), w)"
  "eo_leaveLease sample_epoch = id" "eo_leaveFence sample_epoch = id"
  by (simp_all add: sample_epoch_def verification_of_def)

lemma sample_checks [simp]:
  "validateCoordinatorInputs sample_epoch = Inr ()"
  "assertVerifiedCheckpoint sample_env run_checkpoint default_options = Inr ()"
  "assertStoredCheckpointAnchor sample_env run_checkpoint None 1 ''t1'' = Inr ()"
  "assertCheckpointFactoryBinding run_checkpoint (checkpointInputFromStored sample_epoch run_checkpoint) = Inr ()"
  "assertExactUtcMillisecond (re_host sample_env) (JStr ''1970-01-01T00:00:00.000Z'') ''disposedAt'' = Inr ''1970-01-01T00:00:00.000Z''"
  "createAndVerifyDisposition sample_env sample_epoch run_checkpoint ''1970-01-01T00:00:00.000Z'' = Inr run_receipt"
proof -
  have "assertId (JStr ''t1'') ''tenantId'' = Inr ()" "assertPolicyReference ''p1'' = Inr ()" "assertFence 0 = Inr ()"
    "assertId (JStr ''c'') ''checkpointId'' = Inr ()" "assertId (JStr ''a1'') ''attemptId'' = Inr ()"
    "assertId (JStr ''d1'') ''dispositionId'' = Inr ()" by code_simp+
  then show "validateCoordinatorInputs sample_epoch = Inr ()" by (simp add: validateCoordinatorInputs_def)
  show "assertVerifiedCheckpoint sample_env run_checkpoint default_options = Inr ()"
    by (simp add: assertVerifiedCheckpoint_def run_verified)
  show "assertStoredCheckpointAnchor sample_env run_checkpoint None 1 ''t1'' = Inr ()"
    by (simp add: assertStoredCheckpointAnchor_def)
  show "assertCheckpointFactoryBinding run_checkpoint (checkpointInputFromStored sample_epoch run_checkpoint) = Inr ()"
    by (simp add: assertCheckpointFactoryBinding_def checkpointInputFromStored_def run_checkpoint_def sample_checkpoint_def)
  show "assertExactUtcMillisecond (re_host sample_env) (JStr ''1970-01-01T00:00:00.000Z'') ''disposedAt'' = Inr ''1970-01-01T00:00:00.000Z''"
    by code_simp
  show "createAndVerifyDisposition sample_env sample_epoch run_checkpoint ''1970-01-01T00:00:00.000Z'' = Inr run_receipt"
    by (simp add: createAndVerifyDisposition_def assertDispositionFactoryBinding_def assertVerifiedDisposition_def run_verified Let_def)
      (simp add: run_receipt_def run_checkpoint_def sample_checkpoint_def)
qed

lemma sample_same_json [simp]: "assertSameJson (checkpoint_value run_checkpoint) (checkpoint_value run_checkpoint) msg = Inr ()"
proof -
  have "\<not> isl (canonicalJson (checkpoint_value run_checkpoint))" by code_simp
  then show ?thesis by (cases "canonicalJson (checkpoint_value run_checkpoint)") (simp_all add: assertSameJson_def)
qed

lemma run_views [simp]:
  "checkpoints_of run_compact ''t1'' = [run_checkpoint]" "checkpoints_of run_prepare ''t1'' = [run_checkpoint]"
  "checkpoints_of run_confirm ''t1'' = [run_checkpoint]"
  "dispositions_of run_compact ''t1'' = Map.empty" "dispositions_of run_confirm ''t1'' = [zero_digest [] \<mapsto> run_receipt]"
  by (simp_all add: run_states)

lemma run_chain_state: "\<exists>st. getChainState run_compact ''t1'' = Inr st \<and> retentionPolicyFence st = 0"
  by (simp add: getChainState_def chainState_def run_states) (simp add: untouched_chain_def)

lemma sample_run:
  "\<exists>calls. runRetentionEpoch sample_env (memory_checkpointing_store sample_env) sample_archive sample_epoch (sample_world run_compact True) =
     (Inr \<lparr>rr_manifest = Some sample_manifest, rr_checkpoint = run_checkpoint, rr_disposition = run_receipt\<rparr>,
      (sample_world run_confirm False)\<lparr>wo_calls := calls\<rparr>)"
proof -
  obtain st where st: "getChainState run_compact ''t1'' = Inr st" "retentionPolicyFence st = 0" using run_chain_state by blast
  have a: "\<lparr>at_attemptId = ''a1'', at_checkpointHash = zero_digest [], at_policyFence = 0, at_status = Pending\<rparr> = run_attempt"
    by (simp add: run_attempt_def)
  show ?thesis
    by (simp add: runRetentionEpoch_def with_epoch_lease_def with_policy_fence_def bracket_def runRetentionEpochUnderLease_def
        plan_epoch_def replay_checkpoint_def finish_epoch_def crop_stage_def dispose_stage_def dispose_attempt_def
        thenDo_def liftA_def pureA_def checkThat_def on_store_def on_archive_def on_host_def memory_checkpointing_store_def
        sample_archive_def sample_world_def store_action_def listCheckpoints_def listDispositions_def List.map_filter_def
        st a run_prepare_eq run_confirm_eq Let_def)
qed

lemma retention_epoch_completed_witness:
  "receipt_accepted sample_env sample_epoch run_checkpoint run_receipt \<and> dispositions_of run_confirm ''t1'' (zero_digest []) = Some run_receipt"
proof -
  have host: "host_respects (store_step sample_env) sample_epoch" by (auto simp: host_respects_def)
  obtain calls where run: "runRetentionEpoch sample_env (memory_checkpointing_store sample_env) sample_archive sample_epoch (sample_world run_compact True) =
     (Inr \<lparr>rr_manifest = Some sample_manifest, rr_checkpoint = run_checkpoint, rr_disposition = run_receipt\<rparr>,
      (sample_world run_confirm False)\<lparr>wo_calls := calls\<rparr>)" using sample_run by blast
  show ?thesis using retention_epoch_completed [OF _ host run] reachable_store_inv [OF run_reachable(3)]
    by (simp add: sample_world_def)
qed


lemma retention_epoch_replays_witness:
  "runRetentionEpoch sample_env (memory_checkpointing_store sample_env) sample_archive
      (sample_epoch\<lparr>eo_resolveDisposedAt := (\<lambda>_ h. (Inl (ExternalError ''clock''), h))\<rparr>) (sample_world run_confirm False) =
   runRetentionEpoch sample_env (memory_checkpointing_store sample_env) sample_archive sample_epoch (sample_world run_confirm False)"
proof -
  have "find (\<lambda>c. cp_epoch c = (case eo_previousCheckpoint sample_epoch of None \<Rightarrow> 0 | Some p \<Rightarrow> cp_epoch p) + 1)
      (checkpoints_of (wo_store (sample_world run_confirm False)) (eo_tenantId sample_epoch)) = Some run_checkpoint"
    by (simp add: sample_world_def)
  from retention_epoch_replays [OF sample_epoch_fields(14) _ this] reachable_store_inv [OF run_reachable(5)]
  show ?thesis by (simp add: sample_world_def)
qed

end
