(* ===== verification/FileEvidence.thy ===== *)
theory FileEvidence
  imports Commits MemoryStore Actions
begin

text \<open>
  The file-backed evidence store of \<^verbatim>\<open>storage/src/file-store.ts\<close>: the three JSONL files of a
  directory, idempotent appends of events and edges, batches closed by an evidence commit, and the
  lock that makes each operation a read-modify-write of its own.

  A file is the list of the records its lines were written from. Of the file system the model keeps
  the outcome of the coming appends (\<open>ef_faults\<close>, where \<open>True\<close> is a write that throws and leaves the file
  as it was) and, per attempt, whether another process holds the lock. The host may give another
  time and identifier at every reading, so that the operations take a sequence of hosts.
\<close>

section \<open>State\<close>

record evidence_files =
  ef_events :: "audit_record list"
  ef_edges :: "evidence_edge_record list"
  ef_commits :: "evidence_commit list"
  ef_faults :: "bool list"

record file_batch_input =
  fb_commitId :: string
  fb_streamId :: string
  fb_events :: "audit_event_input list"
  fb_edges :: "evidence_edge_input list"
  fb_committedAt :: "date_input option"

record file_batch_result =
  br_events :: "audit_record list"
  br_edges :: "evidence_edge_record list"
  br_commit :: evidence_commit

record file_verification =
  fv_ok :: bool
  fv_audit :: verification_result
  fv_edges :: verification_result
  fv_commits :: verification_result

section \<open>Files and lock\<close>

text \<open>The write is the change that it makes when it succeeds.\<close>

definition appendJsonl :: "(evidence_files \<Rightarrow> evidence_files) \<Rightarrow> (evidence_files, unit) action" where
  "appendJsonl change d =
     (case ef_faults d of
        [] \<Rightarrow> (Inr (), change d)
      | fault # rest \<Rightarrow>
          if fault then (Inl (ExternalError ''append failed''), d\<lparr>ef_faults := rest\<rparr>)
          else (Inr (), (change d)\<lparr>ef_faults := rest\<rparr>))"

definition add_event :: "audit_record \<Rightarrow> evidence_files \<Rightarrow> evidence_files" where
  "add_event new d = d\<lparr>ef_events := ef_events d @ [new]\<rparr>"

definition add_edge :: "evidence_edge_record \<Rightarrow> evidence_files \<Rightarrow> evidence_files" where
  "add_edge new d = d\<lparr>ef_edges := ef_edges d @ [new]\<rparr>"

definition add_commit :: "evidence_commit \<Rightarrow> evidence_files \<Rightarrow> evidence_files" where
  "add_commit commit d = d\<lparr>ef_commits := ef_commits d @ [commit]\<rparr>"

text \<open>The retries of the exclusive create: whether one of the attempts from \<open>attempt\<close> on succeeds.\<close>

function acquire :: "(nat \<Rightarrow> bool) \<Rightarrow> nat \<Rightarrow> bool" where
  "acquire busy attempt =
     (if \<not> busy attempt then True else if 500 \<le> attempt then False else acquire busy (Suc attempt))"
  by pat_completeness auto
termination by (relation "measure (\<lambda>(busy, attempt). 501 - attempt)") auto

declare acquire.simps [simp del]

definition withLock :: "(nat \<Rightarrow> bool) \<Rightarrow> (evidence_files, 'a) action \<Rightarrow> (evidence_files, 'a) action" where
  "withLock busy operation =
     (if acquire busy 0 then operation else liftA (Inl (ExternalError ''EEXIST'')))"

section \<open>Appending records\<close>

definition requireTenant :: "string option \<Rightarrow> unit throws" where
  "requireTenant tenant =
     throwUnless (case tenant of None \<Rightarrow> False | Some t \<Rightarrow> \<not> blank t) (TypeError ''scope.tenantId is required'')"

text \<open>The record, whether it is new, and the records with it. The guard has made sure of the tenant.\<close>

definition appendEventRecord ::
  "digest \<Rightarrow> host \<Rightarrow> audit_record list \<Rightarrow> audit_event \<Rightarrow> (audit_record \<times> bool \<times> audit_record list) throws" where
  "appendEventRecord sha h records event =
     (case Option.bind (event_scope event) tenantId of
        None \<Rightarrow> Inl (TypeError ''tenantId is required'')
      | Some tenant \<Rightarrow>
     andThen (hashIdempotencyKey sha tenant (event_id event)) (\<lambda>idempotencyKeyHash.
     case find (\<lambda>r. rec_idempotencyKeyHash r = idempotencyKeyHash) records of
       Some existing \<Rightarrow>
         andThen (canonicalJson (event_json (rec_event existing))) (\<lambda>stored.
         andThen (canonicalJson (event_json event)) (\<lambda>given.
         if stored \<noteq> given then Inl (TypeError ''idempotency conflict'') else Inr (existing, False, records)))
     | None \<Rightarrow>
         let tip = last_of records;
             recordWithoutHash = \<lparr>rec_event = event,
               rec_sequence = (case tip of None \<Rightarrow> 0 | Some r \<Rightarrow> rec_sequence r) + 1,
               rec_previousHash = (case tip of None \<Rightarrow> None | Some r \<Rightarrow> Some (rec_hash r)), rec_hash = [],
               rec_hashAlgorithm = HASH_ALGORITHM, rec_canonicalization = CANONICALIZATION,
               rec_appendedAt = iso_of_ms (now h), rec_idempotencyKeyHash = idempotencyKeyHash\<rparr> in
         andThen (hashAuditRecord sha recordWithoutHash) (\<lambda>d.
         let new = recordWithoutHash\<lparr>rec_hash := d\<rparr> in Inr (new, True, records @ [new]))))"

definition appendEdgeRecord ::
  "digest \<Rightarrow> host \<Rightarrow> evidence_edge_record list \<Rightarrow> evidence_edge \<Rightarrow>
     (evidence_edge_record \<times> bool \<times> evidence_edge_record list) throws" where
  "appendEdgeRecord sha h records edge =
     (case Option.bind (edge_scope edge) tenantId of
        None \<Rightarrow> Inl (TypeError ''tenantId is required'')
      | Some tenant \<Rightarrow>
     andThen (hashIdempotencyKey sha tenant (edge_id edge)) (\<lambda>idempotencyKeyHash.
     case find (\<lambda>r. erec_idempotencyKeyHash r = idempotencyKeyHash) records of
       Some existing \<Rightarrow>
         andThen (canonicalJson (edge_json (erec_edge existing))) (\<lambda>stored.
         andThen (canonicalJson (edge_json edge)) (\<lambda>given.
         if stored \<noteq> given then Inl (TypeError ''idempotency conflict'') else Inr (existing, False, records)))
     | None \<Rightarrow>
         let tip = last_of records;
             recordWithoutHash = \<lparr>erec_edge = edge,
               erec_sequence = (case tip of None \<Rightarrow> 0 | Some r \<Rightarrow> erec_sequence r) + 1,
               erec_previousHash = (case tip of None \<Rightarrow> None | Some r \<Rightarrow> Some (erec_hash r)), erec_hash = [],
               erec_hashAlgorithm = HASH_ALGORITHM, erec_canonicalization = CANONICALIZATION,
               erec_appendedAt = iso_of_ms (now h), erec_idempotencyKeyHash = idempotencyKeyHash\<rparr> in
         andThen (hashEvidenceEdgeRecord sha recordWithoutHash) (\<lambda>d.
         let new = recordWithoutHash\<lparr>erec_hash := d\<rparr> in Inr (new, True, records @ [new]))))"

text \<open>Creating and appending one event or edge of a request, with two readings of the host.\<close>

definition event_step ::
  "digest \<Rightarrow> (nat \<Rightarrow> host) \<Rightarrow> nat \<Rightarrow> audit_record list \<Rightarrow> audit_event_input \<Rightarrow> (audit_record \<times> bool \<times> audit_record list) throws" where
  "event_step sha clock i records input =
     andThen (createAuditEvent (clock i) input) (\<lambda>event.
     andThen (requireTenant (Option.bind (event_scope event) tenantId)) (\<lambda>_.
     appendEventRecord sha (clock (i + 1)) records event))"

definition edge_step ::
  "digest \<Rightarrow> (nat \<Rightarrow> host) \<Rightarrow> nat \<Rightarrow> evidence_edge_record list \<Rightarrow> evidence_edge_input \<Rightarrow>
     (evidence_edge_record \<times> bool \<times> evidence_edge_record list) throws" where
  "edge_step sha clock i records input =
     andThen (createEvidenceEdge (clock i) input) (\<lambda>edge.
     andThen (requireTenant (Option.bind (edge_scope edge) tenantId)) (\<lambda>_.
     appendEdgeRecord sha (clock (i + 1)) records edge))"

section \<open>Operations\<close>

text \<open>Both append one record; the creation and the guard of the tenant precede the lock.\<close>

definition recordEvent ::
  "digest \<Rightarrow> (nat \<Rightarrow> host) \<Rightarrow> (nat \<Rightarrow> bool) \<Rightarrow> audit_event_input \<Rightarrow> (evidence_files, audit_record) action" where
  "recordEvent sha clock busy input =
     thenDo (liftA (createAuditEvent (clock 0) input)) (\<lambda>event.
     thenDo (liftA (requireTenant (Option.bind (event_scope event) tenantId))) (\<lambda>_.
     withLock busy (\<lambda>d.
       thenDo (liftA (appendEventRecord sha (clock 1) (ef_events d) event)) (\<lambda>(new, appended, _).
       thenDo (if appended then appendJsonl (add_event new) else pureA ()) (\<lambda>_. pureA new)) d)))"

definition recordEdge ::
  "digest \<Rightarrow> (nat \<Rightarrow> host) \<Rightarrow> (nat \<Rightarrow> bool) \<Rightarrow> evidence_edge_input \<Rightarrow> (evidence_files, evidence_edge_record) action" where
  "recordEdge sha clock busy input =
     thenDo (liftA (createEvidenceEdge (clock 0) input)) (\<lambda>edge.
     thenDo (liftA (requireTenant (Option.bind (edge_scope edge) tenantId))) (\<lambda>_.
     withLock busy (\<lambda>d.
       thenDo (liftA (appendEdgeRecord sha (clock 1) (ef_edges d) edge)) (\<lambda>(new, appended, _).
       thenDo (if appended then appendJsonl (add_edge new) else pureA ()) (\<lambda>_. pureA new)) d)))"

text \<open>\<open>input.events.map(...)\<close> and \<open>input.edges.map(...)\<close>, whose callback pushes onto the records read.\<close>

fun append_each ::
  "(nat \<Rightarrow> 'r list \<Rightarrow> 'i \<Rightarrow> ('r \<times> bool \<times> 'r list) throws) \<Rightarrow> nat \<Rightarrow> 'r list \<Rightarrow> 'i list \<Rightarrow> ('r \<times> bool) list throws" where
  "append_each step i records [] = Inr []"
| "append_each step i records (input # rest) =
     andThen (step i records input) (\<lambda>(new, appended, records').
     andThen (append_each step (i + 2) records' rest) (\<lambda>results. Inr ((new, appended) # results)))"

definition batch_members :: "audit_record list \<Rightarrow> evidence_edge_record list \<Rightarrow> commit_member list" where
  "batch_members events edges =
     map (\<lambda>(i, r). \<lparr>cm_index = NInt (int i), cm_recordType = ''audit.record'', cm_recordId = event_id (rec_event r),
       cm_recordHash = ''sha256:'' @ rec_hash r\<rparr>) (List.enumerate 0 events) @
     map (\<lambda>(i, r). \<lparr>cm_index = NInt (int i), cm_recordType = ''evidence.edge.record'', cm_recordId = edge_id (erec_edge r),
       cm_recordHash = ''sha256:'' @ erec_hash r\<rparr>) (List.enumerate (length events) edges)"

text \<open>\<open>(previousCommit?.sequence ?? 0) + 1\<close>; the sequence of a created commit is an integer.\<close>

definition next_sequence :: "evidence_commit option \<Rightarrow> jsnumber" where
  "next_sequence previous =
     (case previous of None \<Rightarrow> NInt 1 | Some c \<Rightarrow> (case ec_sequence c of NInt i \<Rightarrow> NInt (i + 1) | n \<Rightarrow> n))"

definition batch_commit_input :: "evidence_files \<Rightarrow> file_batch_input \<Rightarrow> commit_member list \<Rightarrow> evidence_commit_input" where
  "batch_commit_input d input members =
     (let previousCommit = last_of (filter (\<lambda>c. ec_streamId c = fb_streamId input) (ef_commits d)) in
      \<lparr>in_commitId = fb_commitId input, in_streamId = fb_streamId input, in_sequence = next_sequence previousCommit,
        in_previousCommitHash = (case previousCommit of None \<Rightarrow> None | Some c \<Rightarrow> Some (ec_hash c)),
        in_members = members, in_committedAt = fb_committedAt input\<rparr>)"

text \<open>Everything of a batch that precedes its first write: the records, whether the commit exists, and the commit.\<close>

definition plan_batch ::
  "digest \<Rightarrow> (nat \<Rightarrow> host) \<Rightarrow> evidence_files \<Rightarrow> file_batch_input \<Rightarrow>
     ((audit_record \<times> bool) list \<times> (evidence_edge_record \<times> bool) list \<times> bool \<times> evidence_commit) throws" where
  "plan_batch sha clock d input =
     andThen (append_each (event_step sha clock) 0 (ef_events d) (fb_events input)) (\<lambda>appendedEvents.
     andThen (append_each (edge_step sha clock) (2 * length (fb_events input)) (ef_edges d) (fb_edges input)) (\<lambda>appendedEdges.
     andThen (throwUnless (length appendedEvents + length appendedEdges \<noteq> 0)
        (TypeError ''batch must include at least one event or edge'')) (\<lambda>_.
     let members = batch_members (map fst appendedEvents) (map fst appendedEdges) in
     case find (\<lambda>c. ec_streamId c = fb_streamId input \<and> ec_commitId c = fb_commitId input) (ef_commits d) of
       Some existingCommit \<Rightarrow>
         andThen (canonicalJson (JArr (map member_json (ec_members existingCommit)))) (\<lambda>stored.
         andThen (canonicalJson (JArr (map member_json members))) (\<lambda>given.
         andThen (throwUnless (stored = given) (TypeError ''commit id conflict'')) (\<lambda>_.
         Inr (appendedEvents, appendedEdges, True, existingCommit))))
     | None \<Rightarrow>
         andThen (createEvidenceCommit (clock (2 * length (fb_events input) + 2 * length (fb_edges input))) sha
            (batch_commit_input d input members)) (\<lambda>commit.
         Inr (appendedEvents, appendedEdges, False, commit)))))"

fun write_each :: "('r \<Rightarrow> evidence_files \<Rightarrow> evidence_files) \<Rightarrow> ('r \<times> bool) list \<Rightarrow> (evidence_files, unit) action" where
  "write_each add [] = pureA ()"
| "write_each add ((new, appended) # rest) =
     thenDo (if appended then appendJsonl (add new) else pureA ()) (\<lambda>_. write_each add rest)"

definition recordBatch ::
  "digest \<Rightarrow> (nat \<Rightarrow> host) \<Rightarrow> (nat \<Rightarrow> bool) \<Rightarrow> file_batch_input \<Rightarrow> (evidence_files, file_batch_result) action" where
  "recordBatch sha clock busy input =
     withLock busy (\<lambda>d.
       thenDo (liftA (plan_batch sha clock d input)) (\<lambda>(appendedEvents, appendedEdges, known, commit).
       let result = \<lparr>br_events = map fst appendedEvents, br_edges = map fst appendedEdges, br_commit = commit\<rparr> in
       if known then pureA result
       else thenDo (write_each add_event appendedEvents) (\<lambda>_.
            thenDo (write_each add_edge appendedEdges) (\<lambda>_.
            thenDo (appendJsonl (add_commit commit)) (\<lambda>_. pureA result)))) d)"

definition verifyFiles :: "digest \<Rightarrow> evidence_files \<Rightarrow> file_verification throws" where
  "verifyFiles sha d =
     andThen (verifyAuditRecords sha (ef_events d)) (\<lambda>audit.
     andThen (verifyEvidenceEdgeRecords sha (ef_edges d)) (\<lambda>edges.
     andThen (verifyEvidenceCommits sha (ef_commits d)) (\<lambda>commits.
     Inr \<lparr>fv_ok = (audit = VerOk \<and> edges = VerOk \<and> commits = VerOk), fv_audit = audit, fv_edges = edges, fv_commits = commits\<rparr>)))"

end
