(* ===== verification/FileSafety.thy ===== *)
theory FileSafety
  imports FileEvidence
begin

text \<open>
  The logs of the file store: the locale \<open>record_log\<close> of what a step on a log promises, interpreted for events
  and edges; what each operation has written when it ends, however it ends; the invariant of a
  directory and the runs that keep it.
\<close>

section \<open>Logs of one tenant\<close>

definition log_of :: "'r envelope \<Rightarrow> string \<Rightarrow> 'r list \<Rightarrow> bool" where
  "log_of env t rs \<longleftrightarrow> (\<forall>r \<in> set rs. sealed env r \<and> tenant_of env r = Some t) \<and> unbroken env rs"

lemma log_of_Nil [simp]: "log_of env t []"
  by (simp add: log_of_def)

lemma log_of_snoc:
  "log_of env t (rs @ [r]) \<longleftrightarrow> log_of env t rs \<and> sealed env r \<and> tenant_of env r = Some t \<and>
     env_sequence env r = int (length rs) + 1 \<and> env_previousHash env r = (if rs = [] then None else Some (env_hash env (last rs)))"
  by (auto simp: log_of_def unbroken_snoc)

lemma log_of_prefix: "log_of env t (xs @ ys) \<Longrightarrow> log_of env t xs"
  by (induction ys rule: rev_induct) (simp_all add: log_of_snoc flip: append_assoc)

lemma log_of_take: "log_of env t (xs @ ys) \<Longrightarrow> log_of env t (xs @ take n ys)"
  using log_of_prefix [of env t "xs @ take n ys" "drop n ys"] by simp

lemma log_of_chain: "log_of env t rs \<Longrightarrow> chain_ok env rs"
proof -
  assume log: "log_of env t rs"
  then have "chain_of env u rs = (if u = t then rs else [])" for u
    by (auto simp: chain_of_def log_of_def filter_id_conv filter_empty_conv)
  with log show ?thesis by (simp add: chain_ok_def log_of_def)
qed

text \<open>What both families of records promise of a step: a replay returns a stored record, and a new
  record is sealed, belongs to the tenant of its input and follows the tip.\<close>

locale record_log =
  fixes env :: "'r envelope" and step :: "nat \<Rightarrow> 'r list \<Rightarrow> 'i \<Rightarrow> ('r \<times> bool \<times> 'r list) throws"
    and owner :: "'i \<Rightarrow> string option"
  assumes replayed: "step i rs x = Inr (r, False, rs') \<Longrightarrow> r \<in> set rs \<and> rs' = rs"
    and appended: "step i rs x = Inr (r, True, rs') \<Longrightarrow> rs' = rs @ [r] \<and> sealed env r \<and> tenant_of env r = owner x \<and>
      env_sequence env r = (case last_of rs of None \<Rightarrow> 0 | Some p \<Rightarrow> env_sequence env p) + 1 \<and>
      env_previousHash env r = map_option (env_hash env) (last_of rs)"
begin

lemma step_log:
  assumes "step i rs x = Inr (r, new, rs')" "log_of env t rs" "owner x = Some t"
  shows "log_of env t rs' \<and> r \<in> set rs' \<and> rs' = rs @ (if new then [r] else [])"
proof (cases new)
  case True
  with appended assms(1) have r: "rs' = rs @ [r]" "sealed env r" "tenant_of env r = owner x"
      "env_sequence env r = (case last_of rs of None \<Rightarrow> 0 | Some p \<Rightarrow> env_sequence env p) + 1"
      "env_previousHash env r = map_option (env_hash env) (last_of rs)" by auto
  moreover have "env_sequence env (last rs) = int (length rs)" if "rs \<noteq> []"
    using unbroken_last_sequence [OF _ that, of env] assms(2) by (simp add: log_of_def)
  ultimately show ?thesis using True assms(2,3) by (auto simp: log_of_snoc last_of_def)
next
  case False
  with replayed [of i rs x r rs'] assms show ?thesis by simp
qed

lemma each_log:
  "append_each step i rs xs = Inr os \<Longrightarrow> log_of env t rs \<Longrightarrow> \<forall>x \<in> set xs. owner x = Some t \<Longrightarrow>
    log_of env t (rs @ map fst (filter snd os)) \<and> fst ` set os \<subseteq> set (rs @ map fst (filter snd os)) \<and> length os = length xs"
proof (induction xs arbitrary: i rs os)
  case (Cons x xs)
  from Cons.prems(1) obtain r new rs' os' where s: "step i rs x = Inr (r, new, rs')" "append_each step (i + 2) rs' xs = Inr os'"
      "os = (r, new) # os'"
    by (auto simp: andThen_Inr_iff)
  from step_log [OF s(1) Cons.prems(2)] Cons.prems(3) have r: "log_of env t rs'" "r \<in> set rs'" "rs' = rs @ (if new then [r] else [])" by auto
  from Cons.IH [OF s(2) r(1)] Cons.prems(3) have "log_of env t (rs' @ map fst (filter snd os'))"
    "fst ` set os' \<subseteq> set (rs' @ map fst (filter snd os'))" "length os' = length xs" by auto
  with r(2,3) s(3) show ?case by (cases new) auto
qed simp

end

lemma appendEventRecord_cases:
  assumes "appendEventRecord sha h rs e = Inr (r, new, rs')"
  obtains (replay) t k c where "Option.bind (event_scope e) tenantId = Some t" "hashIdempotencyKey sha t (event_id e) = Inr k"
      "find (\<lambda>r. rec_idempotencyKeyHash r = k) rs = Some r" "\<not> new" "rs' = rs"
      "canonicalJson (event_json (rec_event r)) = Inr c" "canonicalJson (event_json e) = Inr c"
  | (fresh) t k where "Option.bind (event_scope e) tenantId = Some t" "hashIdempotencyKey sha t (event_id e) = Inr k"
      "find (\<lambda>r. rec_idempotencyKeyHash r = k) rs = None" "new" "rs' = rs @ [r]" "rec_event r = e" "rec_idempotencyKeyHash r = k"
      "rec_sequence r = (case last_of rs of None \<Rightarrow> 0 | Some p \<Rightarrow> rec_sequence p) + 1"
      "rec_previousHash r = map_option rec_hash (last_of rs)" "rec_hashAlgorithm r = HASH_ALGORITHM"
      "rec_canonicalization r = CANONICALIZATION" "rec_appendedAt r = iso_of_ms (now h)" "hashAuditRecord sha r = Inr (rec_hash r)"
proof -
  from assms obtain t k where tk: "Option.bind (event_scope e) tenantId = Some t" "hashIdempotencyKey sha t (event_id e) = Inr k"
    by (auto simp: appendEventRecord_def andThen_Inr_iff split: option.splits)
  show thesis
  proof (cases "find (\<lambda>r. rec_idempotencyKeyHash r = k) rs")
    case None
    with assms tk show thesis
      by (intro fresh) (auto simp: appendEventRecord_def andThen_Inr_iff Let_def map_option_case hashAuditRecord_def record_body_json_def)
  next
    case (Some x)
    with assms tk obtain c where "x = r" "\<not> new" "rs' = rs"
        "canonicalJson (event_json (rec_event r)) = Inr c" "canonicalJson (event_json e) = Inr c"
      by (auto simp: appendEventRecord_def andThen_Inr_iff split: if_splits)
    with Some tk replay show thesis by blast
  qed
qed

lemma appendEdgeRecord_cases:
  assumes "appendEdgeRecord sha h rs e = Inr (r, new, rs')"
  obtains (replay) "r \<in> set rs" "\<not> new" "rs' = rs"
  | (fresh) "new" "rs' = rs @ [r]" "erec_edge r = e"
      "erec_sequence r = (case last_of rs of None \<Rightarrow> 0 | Some p \<Rightarrow> erec_sequence p) + 1"
      "erec_previousHash r = map_option erec_hash (last_of rs)" "erec_hashAlgorithm r = HASH_ALGORITHM"
      "erec_canonicalization r = CANONICALIZATION" "hashEvidenceEdgeRecord sha r = Inr (erec_hash r)"
proof -
  from assms obtain t k where tk: "Option.bind (edge_scope e) tenantId = Some t" "hashIdempotencyKey sha t (edge_id e) = Inr k"
    by (auto simp: appendEdgeRecord_def andThen_Inr_iff split: option.splits)
  show thesis
  proof (cases "find (\<lambda>r. erec_idempotencyKeyHash r = k) rs")
    case None
    with assms tk show thesis
      by (intro fresh) (auto simp: appendEdgeRecord_def andThen_Inr_iff Let_def map_option_case hashEvidenceEdgeRecord_def edge_record_body_json_def)
  next
    case (Some x)
    then have "x \<in> set rs" by (auto simp: find_Some_iff)
    with Some assms tk show thesis by (intro replay) (auto simp: appendEdgeRecord_def andThen_Inr_iff split: if_splits)
  qed
qed

definition event_owner :: "audit_event_input \<Rightarrow> string option" where
  "event_owner input = (case in_scope input of Some s \<Rightarrow> truthy (tenantId s) | None \<Rightarrow> None)"

definition edge_owner :: "evidence_edge_input \<Rightarrow> string option" where
  "edge_owner input = (case in_edge_scope input of Some s \<Rightarrow> truthy (tenantId s) | None \<Rightarrow> None)"

lemma truthy_truthy [simp]: "truthy (truthy v) = truthy v"
  by (auto simp: truthy_def split: option.splits list.splits)

lemma truthy_None [simp]: "truthy None = None"
  by (simp add: truthy_def)

lemma cleanScope_tenant: "Option.bind (cleanScope s) tenantId = truthy (tenantId s)"
  by (auto simp: cleanScope_def Let_def)

lemma created_event_tenant:
  assumes "createAuditEvent h input = Inr e"
  shows "Option.bind (event_scope e) tenantId = event_owner input \<and> event_tenant e = event_owner input"
proof -
  have "event_scope e = (case in_scope input of Some s \<Rightarrow> cleanScope s | None \<Rightarrow> None)"
    using assms unfolding createAuditEvent_def andThen_Inr_iff by (elim exE conjE) auto
  then show ?thesis by (cases "in_scope input") (simp_all add: event_tenant_def event_owner_def cleanScope_tenant)
qed

lemma created_edge_tenant:
  assumes "createEvidenceEdge h input = Inr e"
  shows "Option.bind (edge_scope e) tenantId = edge_owner input \<and> edge_tenant e = edge_owner input"
proof -
  have "edge_scope e = (case in_edge_scope input of Some s \<Rightarrow> cleanScope s | None \<Rightarrow> None)"
    using assms unfolding createEvidenceEdge_def andThen_Inr_iff by (elim exE conjE) auto
  then show ?thesis by (cases "in_edge_scope input") (simp_all add: edge_tenant_def edge_owner_def cleanScope_tenant)
qed

lemma find_mem: "find P xs = Some x \<Longrightarrow> x \<in> set xs"
  by (auto simp: find_Some_iff)

interpretation event_log: record_log "auditEnvelope sha" "event_step sha clock" event_owner for sha clock
proof
  fix i rs x r rs'
  show "event_step sha clock i rs x = Inr (r, False, rs') \<Longrightarrow> r \<in> set rs \<and> rs' = rs"
    by (auto simp: event_step_def andThen_Inr_iff elim!: appendEventRecord_cases dest: find_mem)
  assume "event_step sha clock i rs x = Inr (r, True, rs')"
  then obtain e where e: "createAuditEvent (clock i) x = Inr e" "appendEventRecord sha (clock (i + 1)) rs e = Inr (r, True, rs')"
    by (auto simp: event_step_def andThen_Inr_iff)
  from e(2) show "rs' = rs @ [r] \<and> sealed (auditEnvelope sha) r \<and> tenant_of (auditEnvelope sha) r = event_owner x \<and>
      env_sequence (auditEnvelope sha) r = (case last_of rs of None \<Rightarrow> 0 | Some p \<Rightarrow> env_sequence (auditEnvelope sha) p) + 1 \<and>
      env_previousHash (auditEnvelope sha) r = map_option (env_hash (auditEnvelope sha)) (last_of rs)"
  proof (cases rule: appendEventRecord_cases)
    case (fresh t k)
    with created_event_tenant [OF e(1)] have "event_tenant (rec_event r) = event_owner x" "event_owner x = Some t" by auto
    with fresh show ?thesis by (auto simp: sealed_def comp_def split: option.splits)
  qed simp
qed

interpretation edge_log: record_log "edgeEnvelope sha" "edge_step sha clock" edge_owner for sha clock
proof
  fix i rs x r rs'
  show "edge_step sha clock i rs x = Inr (r, False, rs') \<Longrightarrow> r \<in> set rs \<and> rs' = rs"
    by (auto simp: edge_step_def andThen_Inr_iff elim!: appendEdgeRecord_cases)
  assume "edge_step sha clock i rs x = Inr (r, True, rs')"
  then obtain e where e: "createEvidenceEdge (clock i) x = Inr e" "appendEdgeRecord sha (clock (i + 1)) rs e = Inr (r, True, rs')"
      "requireTenant (Option.bind (edge_scope e) tenantId) = Inr ()"
    by (auto simp: edge_step_def andThen_Inr_iff)
  have a: "env_sequence (edgeEnvelope sha) = erec_sequence" "env_hash (edgeEnvelope sha) = erec_hash"
      "env_previousHash (edgeEnvelope sha) = erec_previousHash" "env_hashAlgorithm (edgeEnvelope sha) = erec_hashAlgorithm"
      "env_canonicalization (edgeEnvelope sha) = erec_canonicalization" "env_recomputeHash (edgeEnvelope sha) = hashEvidenceEdgeRecord sha"
    by (simp_all add: edgeEnvelope_def)
  from e(2) show "rs' = rs @ [r] \<and> sealed (edgeEnvelope sha) r \<and> tenant_of (edgeEnvelope sha) r = edge_owner x \<and>
      env_sequence (edgeEnvelope sha) r = (case last_of rs of None \<Rightarrow> 0 | Some p \<Rightarrow> env_sequence (edgeEnvelope sha) p) + 1 \<and>
      env_previousHash (edgeEnvelope sha) r = map_option (env_hash (edgeEnvelope sha)) (last_of rs)"
  proof (cases rule: appendEdgeRecord_cases)
    case fresh
    have "edge_tenant (erec_edge r) = edge_owner x" "edge_owner x \<noteq> None"
      using created_edge_tenant [OF e(1)] e(3) fresh by (auto simp: requireTenant_def split: option.splits)
    with fresh show ?thesis by (auto simp: sealed_def a split: option.splits)
  qed simp
qed


section \<open>Writes\<close>

definition contents :: "evidence_files \<Rightarrow> audit_record list \<times> evidence_edge_record list \<times> evidence_commit list" where
  "contents d = (ef_events d, ef_edges d, ef_commits d)"

lemma append_contents:
  "appendJsonl (add_event x) d = (r, d') \<Longrightarrow> contents d' = (ef_events d @ (if r = Inr () then [x] else []), ef_edges d, ef_commits d)"
  "appendJsonl (add_edge y) d = (r, d') \<Longrightarrow> contents d' = (ef_events d, ef_edges d @ (if r = Inr () then [y] else []), ef_commits d)"
  "appendJsonl (add_commit c) d = (r, d') \<Longrightarrow> contents d' = (ef_events d, ef_edges d, ef_commits d @ (if r = Inr () then [c] else []))"
  by (auto simp: appendJsonl_def add_event_def add_edge_def add_commit_def contents_def split: list.splits if_splits)

text \<open>The loop over the records of a batch writes a prefix of the new ones, all of them if it succeeds.\<close>

lemma write_each_prefix:
  assumes one: "\<And>x d r d'. appendJsonl (add x) d = (r, d') \<Longrightarrow> \<exists>ok. log d' = log d @ (if ok then [x] else []) \<and> rest d' = rest d \<and> (r = Inr () \<longrightarrow> ok)
      \<and> (ok \<longrightarrow> r = Inr ())"
  shows "write_each add os d = (r, d') \<Longrightarrow>
    \<exists>n. log d' = log d @ take n (map fst (filter snd os)) \<and> rest d' = rest d \<and> (r = Inr () \<longrightarrow> n = length (filter snd os))"
proof (induction os arbitrary: d)
  case (Cons o' os)
  obtain x new where o: "o' = (x, new)" by fastforce
  show ?case
  proof (cases new)
    case False
    with Cons.prems o have "write_each add os d = (r, d')" by simp
    from Cons.IH [OF this] show ?thesis by (simp add: o False)
  next
    case True
    obtain q d1 where q: "appendJsonl (add x) d = (q, d1)" by fastforce
    from one [OF q] obtain ok where ok: "log d1 = log d @ (if ok then [x] else [])" "rest d1 = rest d" "ok \<longleftrightarrow> q = Inr ()" by blast
    show ?thesis
    proof (cases q)
      case (Inl e)
      with Cons.prems o True q have "r = Inl e" "d' = d1" by (auto simp: thenDo_def)
      with ok Inl show ?thesis by (intro exI [of _ 0]) simp
    next
      case (Inr u)
      with Cons.prems o True q have "write_each add os d1 = (r, d')" by (simp add: thenDo_def)
      from Cons.IH [OF this] obtain n where "log d' = log d1 @ take n (map fst (filter snd os))" "rest d' = rest d1"
          "r = Inr () \<longrightarrow> n = length (filter snd os)" by blast
      with ok Inr show ?thesis by (intro exI [of _ "Suc n"]) (simp add: o True)
    qed
  qed
qed simp

lemma write_events:
  assumes "write_each add_event os d = (r, d')"
  shows "\<exists>n. contents d' = (ef_events d @ take n (map fst (filter snd os)), ef_edges d, ef_commits d) \<and>
    (r = Inr () \<longrightarrow> n = length (filter snd os))"
proof -
  have "\<exists>n. ef_events d' = ef_events d @ take n (map fst (filter snd os)) \<and> (ef_edges d', ef_commits d') = (ef_edges d, ef_commits d) \<and>
    (r = Inr () \<longrightarrow> n = length (filter snd os))"
    by (rule write_each_prefix [OF _ assms, where rest = "\<lambda>d. (ef_edges d, ef_commits d)"])
      (drule append_contents(1), fastforce simp: contents_def)
  then show ?thesis by (simp add: contents_def)
qed

lemma write_edges:
  assumes "write_each add_edge os d = (r, d')"
  shows "\<exists>n. contents d' = (ef_events d, ef_edges d @ take n (map fst (filter snd os)), ef_commits d) \<and>
    (r = Inr () \<longrightarrow> n = length (filter snd os))"
proof -
  have "\<exists>n. ef_edges d' = ef_edges d @ take n (map fst (filter snd os)) \<and> (ef_events d', ef_commits d') = (ef_events d, ef_commits d) \<and>
    (r = Inr () \<longrightarrow> n = length (filter snd os))"
    by (rule write_each_prefix [OF _ assms, where rest = "\<lambda>d. (ef_events d, ef_commits d)"])
      (drule append_contents(2), fastforce simp: contents_def)
  then show ?thesis by (auto simp: contents_def)
qed

lemma withLock_outcome: "withLock busy m d = (r, d') \<Longrightarrow> (d' = d \<and> (\<exists>e. r = Inl e)) \<or> m d = (r, d')"
  by (auto simp: withLock_def split: if_splits)

text \<open>What an operation has done when it ends, however it ends.\<close>

lemma record_one_outcome:
  assumes one: "\<And>x d r d'. appendJsonl (add x) d = (r, d') \<Longrightarrow> log d' = log d @ (if r = Inr () then [x] else []) \<and> rest d' = rest d"
    and run: "thenDo (liftA c) (\<lambda>doc. thenDo (liftA (g doc)) (\<lambda>_. withLock busy (\<lambda>d.
       thenDo (liftA (app doc (log d))) (\<lambda>(new, appended, _).
       thenDo (if appended then appendJsonl (add new) else pureA ()) (\<lambda>_. pureA new)) d))) d = (r, d')"
  shows "(\<exists>e. r = Inl e \<and> log d' = log d \<and> rest d' = rest d) \<or> (\<exists>x new rs. andThen c (\<lambda>doc. andThen (g doc) (\<lambda>_. app doc (log d))) = Inr (x, new, rs) \<and>
      r = Inr x \<and> log d' = log d @ (if new then [x] else []) \<and> rest d' = rest d)"
proof (cases c)
  case (Inl e)
  with run show ?thesis by auto
next
  case (Inr doc)
  show ?thesis
  proof (cases "g doc")
    case (Inl e)
    with Inr run show ?thesis by auto
  next
    case ok: (Inr u)
    let ?m = "\<lambda>d. thenDo (liftA (app doc (log d))) (\<lambda>(new, appended, _).
       thenDo (if appended then appendJsonl (add new) else pureA ()) (\<lambda>_. pureA new)) d"
    from run Inr ok have "withLock busy ?m d = (r, d')" by simp
    from withLock_outcome [OF this] show ?thesis
    proof
      assume m: "?m d = (r, d')"
      show ?thesis
      proof (cases "app doc (log d)")
        case (Inl e)
        with m show ?thesis by auto
      next
        case a: (Inr res)
        obtain x new rs where res: "res = (x, new, rs)" by (cases res)
        obtain q d1 where q: "(if new then appendJsonl (add x) else pureA ()) d = (q, d1)" by fastforce
        from m a res have "thenDo (if new then appendJsonl (add x) else pureA ()) (\<lambda>_. pureA x) d = (r, d')" by simp
        with q have r: "d' = d1" "r = (case q of Inl e \<Rightarrow> Inl e | Inr _ \<Rightarrow> Inr x)"
          by (auto simp: thenDo_def split: sum.splits)
        have "log d1 = log d @ (if new \<and> q = Inr () then [x] else []) \<and> rest d1 = rest d"
          using q one [of x d q d1] by (cases new) auto
        with r a res Inr ok show ?thesis by (cases q) auto
      qed
    qed auto
  qed
qed

lemma recordEvent_outcome:
  assumes "recordEvent sha clock busy input d = (r, d')"
  shows "(\<exists>e. r = Inl e \<and> contents d' = contents d) \<or> (\<exists>x new rs. event_step sha clock 0 (ef_events d) input = Inr (x, new, rs) \<and> r = Inr x \<and>
      contents d' = (ef_events d @ (if new then [x] else []), ef_edges d, ef_commits d))"
proof -
  have one: "ef_events d' = ef_events d @ (if r = Inr () then [x] else []) \<and> (ef_edges d', ef_commits d') = (ef_edges d, ef_commits d)"
    if "appendJsonl (add_event x) d = (r, d')" for x d r d' using append_contents(1) [OF that] by (simp add: contents_def)
  from record_one_outcome [where log = ef_events and rest = "\<lambda>d. (ef_edges d, ef_commits d)", OF one assms [unfolded recordEvent_def]]
  show ?thesis by (simp add: contents_def event_step_def)
qed

lemma recordEdge_outcome:
  assumes "recordEdge sha clock busy input d = (r, d')"
  shows "(\<exists>e. r = Inl e \<and> contents d' = contents d) \<or> (\<exists>x new rs. edge_step sha clock 0 (ef_edges d) input = Inr (x, new, rs) \<and> r = Inr x \<and>
      contents d' = (ef_events d, ef_edges d @ (if new then [x] else []), ef_commits d))"
proof -
  have one: "ef_edges d' = ef_edges d @ (if r = Inr () then [x] else []) \<and> (ef_events d', ef_commits d') = (ef_events d, ef_commits d)"
    if "appendJsonl (add_edge x) d = (r, d')" for x d r d' using append_contents(2) [OF that] by (simp add: contents_def)
  from record_one_outcome [where log = ef_edges and rest = "\<lambda>d. (ef_events d, ef_commits d)", OF one assms [unfolded recordEdge_def]]
  have "(\<exists>e. r = Inl e \<and> ef_edges d' = ef_edges d \<and> (ef_events d', ef_commits d') = (ef_events d, ef_commits d)) \<or>
    (\<exists>x new rs. edge_step sha clock 0 (ef_edges d) input = Inr (x, new, rs) \<and> r = Inr x \<and>
      ef_edges d' = ef_edges d @ (if new then [x] else []) \<and> (ef_events d', ef_commits d') = (ef_events d, ef_commits d))"
    by (simp add: edge_step_def)
  then show ?thesis unfolding contents_def prod.inject by (elim disjE exE conjE) (rule disjI1, blast, rule disjI2, blast)
qed

lemma recordBatch_outcome:
  assumes "recordBatch sha clock busy input d = (r, d')"
  obtains (unchanged) "contents d' = contents d" "\<And>res. r = Inr res \<Longrightarrow> \<exists>es gs c. plan_batch sha clock d input = Inr (es, gs, True, c) \<and>
      res = \<lparr>br_events = map fst es, br_edges = map fst gs, br_commit = c\<rparr>"
  | (written) es gs c n k j where "plan_batch sha clock d input = Inr (es, gs, False, c)"
      "contents d' = (ef_events d @ take n (map fst (filter snd es)), ef_edges d @ take k (map fst (filter snd gs)), ef_commits d @ (if j then [c] else []))"
      "j \<Longrightarrow> n = length (filter snd es) \<and> k = length (filter snd gs)"
      "\<And>res. r = Inr res \<Longrightarrow> j \<and> res = \<lparr>br_events = map fst es, br_edges = map fst gs, br_commit = c\<rparr>"
proof -
  from withLock_outcome [OF assms [unfolded recordBatch_def]] show thesis
  proof
    assume "d' = d \<and> (\<exists>e. r = Inl e)"
    then show thesis by (intro unchanged) auto
  next
    let ?res = "\<lambda>es gs c. \<lparr>br_events = map fst es, br_edges = map fst gs, br_commit = c\<rparr>"
    assume m: "thenDo (liftA (plan_batch sha clock d input)) (\<lambda>(appendedEvents, appendedEdges, known, commit).
       let result = ?res appendedEvents appendedEdges commit in
       if known then pureA result
       else thenDo (write_each add_event appendedEvents) (\<lambda>_.
            thenDo (write_each add_edge appendedEdges) (\<lambda>_.
            thenDo (appendJsonl (add_commit commit)) (\<lambda>_. pureA result)))) d = (r, d')"
    show thesis
    proof (cases "plan_batch sha clock d input")
      case (Inl e)
      with m show thesis by (intro unchanged) auto
    next
      case (Inr plan)
      obtain es gs known c where p: "plan = (es, gs, known, c)" by (cases plan)
      show thesis
      proof (cases known)
        case True
        with m Inr p show thesis by (intro unchanged) auto
      next
        case False
        with m Inr p have w: "thenDo (write_each add_event es) (\<lambda>_. thenDo (write_each add_edge gs) (\<lambda>_.
            thenDo (appendJsonl (add_commit c)) (\<lambda>_. pureA (?res es gs c)))) d = (r, d')" by simp
        obtain q1 d1 where 1: "write_each add_event es d = (q1, d1)" by fastforce
        obtain q2 d2 where 2: "write_each add_edge gs d1 = (q2, d2)" by fastforce
        obtain q3 d3 where 3: "appendJsonl (add_commit c) d2 = (q3, d3)" by fastforce
        from write_events [OF 1] obtain n where n: "contents d1 = (ef_events d @ take n (map fst (filter snd es)), ef_edges d, ef_commits d)"
          "q1 = Inr () \<longrightarrow> n = length (filter snd es)" by blast
        from write_edges [OF 2] obtain k where k: "contents d2 = (ef_events d1, ef_edges d1 @ take k (map fst (filter snd gs)), ef_commits d1)"
          "q2 = Inr () \<longrightarrow> k = length (filter snd gs)" by blast
        note c = append_contents(3) [OF 3]
        note plan = Inr [unfolded p, simplified False]
        consider e where "q1 = Inl e" | e where "q1 = Inr ()" "q2 = Inl e" | "q1 = Inr ()" "q2 = Inr ()" by (cases q1; cases q2) auto
        then show thesis
        proof cases
          case 1
          with w \<open>write_each add_event es d = (q1, d1)\<close> have "d' = d1" "r = Inl e" by (auto simp: thenDo_def)
          with n show thesis by (intro written [OF plan, of n 0 False]) auto
        next
          case 2
          with w \<open>write_each add_event es d = (q1, d1)\<close> \<open>write_each add_edge gs d1 = (q2, d2)\<close> have "d' = d2" "r = Inl e"
            by (auto simp: thenDo_def)
          with n k show thesis by (intro written [OF plan, of n k False]) (auto simp: contents_def)
        next
          case both: 3
          with w 1 2 have "thenDo (appendJsonl (add_commit c)) (\<lambda>_. pureA (?res es gs c)) d2 = (r, d')" by (simp add: thenDo_def)
          with 3 have "d' = d3" "r = (case q3 of Inl e \<Rightarrow> Inl e | Inr _ \<Rightarrow> Inr (?res es gs c))"
            by (auto simp: thenDo_def split: sum.splits)
          with n k both c show thesis by (intro written [OF plan, of n k "q3 = Inr ()"]) (auto simp: contents_def split: sum.splits)
        qed
      qed
    qed
  qed
qed

section \<open>The invariant of a directory\<close>

text \<open>A member of a commit names a stored record by its identifier and hash.\<close>

definition stored_member :: "audit_record list \<Rightarrow> evidence_edge_record list \<Rightarrow> commit_member \<Rightarrow> bool" where
  "stored_member es gs m \<longleftrightarrow>
     (cm_recordType m = ''audit.record'' \<and> (\<exists>r \<in> set es. cm_recordId m = event_id (rec_event r) \<and> cm_recordHash m = ''sha256:'' @ rec_hash r)) \<or>
     (cm_recordType m = ''evidence.edge.record'' \<and>
       (\<exists>r \<in> set gs. cm_recordId m = edge_id (erec_edge r) \<and> cm_recordHash m = ''sha256:'' @ erec_hash r))"

definition files_ok :: "digest \<Rightarrow> string \<Rightarrow> audit_record list \<times> evidence_edge_record list \<times> evidence_commit list \<Rightarrow> bool" where
  "files_ok sha t = (\<lambda>(es, gs, cs). log_of (auditEnvelope sha) t es \<and> log_of (edgeEnvelope sha) t gs \<and>
     chains_ok (commit_ok sha) (commitEnvelope sha) cs \<and> (\<forall>c \<in> set cs. \<forall>m \<in> set (ec_members c). stored_member es gs m))"

lemma stored_member_more:
  "stored_member es gs m \<Longrightarrow> stored_member (es @ xs) (gs @ ys) m"
  "stored_member es gs m \<Longrightarrow> stored_member (es @ xs) gs m"
  "stored_member es gs m \<Longrightarrow> stored_member es (gs @ ys) m"
  by (auto simp: stored_member_def)

lemma batch_members_stored:
  assumes "set es' \<subseteq> set es" "set gs' \<subseteq> set gs" "m \<in> set (batch_members es' gs')"
  shows "stored_member es gs m"
proof -
  from assms(3) consider i r where "(i, r) \<in> set (List.enumerate 0 es')" "m = \<lparr>cm_index = NInt (int i), cm_recordType = ''audit.record'',
        cm_recordId = event_id (rec_event r), cm_recordHash = ''sha256:'' @ rec_hash r\<rparr>"
    | i r where "(i, r) \<in> set (List.enumerate (length es') gs')" "m = \<lparr>cm_index = NInt (int i), cm_recordType = ''evidence.edge.record'',
        cm_recordId = edge_id (erec_edge r), cm_recordHash = ''sha256:'' @ erec_hash r\<rparr>"
    by (auto simp: batch_members_def)
  then show ?thesis
  proof cases
    case (1 i r)
    then have "r \<in> set es'" by (auto simp: in_set_enumerate_eq)
    with 1 assms(1) show ?thesis by (auto simp: stored_member_def)
  next
    case (2 i r)
    then have "r \<in> set gs'" by (auto simp: in_set_enumerate_eq)
    with 2 assms(2) show ?thesis by (auto simp: stored_member_def)
  qed
qed

lemma created_members: "createEvidenceCommit h sha input = Inr c \<Longrightarrow> mset (ec_members c) = mset (in_members input)"
  by (auto simp: createEvidenceCommit_def andThen_Inr_iff Let_def normalizeCommitMembers_iff)

text \<open>The next commit of a stream extends it.\<close>

lemma commit_extends:
  assumes "chains_ok (commit_ok sha) (commitEnvelope sha) (ef_commits d)"
    and "createEvidenceCommit h sha (batch_commit_input d input members) = Inr c"
  shows "chains_ok (commit_ok sha) (commitEnvelope sha) (ef_commits d @ [c])"
proof -
  let ?e = "commitEnvelope sha" and ?s = "fb_streamId input"
  from createEvidenceCommit_facts [OF assms(2)] have c: "commit_ok sha c" "ec_streamId c = ?s" "ec_streamId c \<noteq> []"
      "ec_sequence c = in_sequence (batch_commit_input d input members)"
      "ec_previousCommitHash c = in_previousCommitHash (batch_commit_input d input members)"
    by (auto simp: batch_commit_input_def Let_def)
  let ?c = "chain_of ?e ?s (ef_commits d)"
  have f: "filter (\<lambda>c. ec_streamId c = ?s) (ef_commits d) = ?c" using c(2,3) by (auto simp: chain_of_def intro!: filter_cong)
  have seq: "ec_sequence c = NInt (int (length ?c) + 1)"
  proof (cases "?c = []")
    case True
    with c(4) f show ?thesis by (simp add: batch_commit_input_def last_of_def next_sequence_def)
  next
    case False
    from assms(1) have u: "unbroken ?e ?c" and ok: "commit_ok sha (last ?c)"
      using last_in_set [OF False] by (auto simp: chains_ok_def set_chain_of)
    from commit_ok_sequence [OF ok] obtain i where i: "ec_sequence (last ?c) = NInt i" ..
    with unbroken_last_sequence [OF u False] have "i = int (length ?c)" by simp
    with c(4) f i False show ?thesis by (simp add: batch_commit_input_def last_of_def next_sequence_def)
  qed
  have "ec_previousCommitHash c = (if ?c = [] then None else Some (ec_hash (last ?c)))"
    using c(5) f by (simp add: batch_commit_input_def last_of_def)
  with seq c(1-3) assms(1) show ?thesis by (auto simp: chains_ok_snoc)
qed

lemma plan_batch_E:
  assumes "plan_batch sha clock d input = Inr (es, gs, known, c)"
  obtains "append_each (event_step sha clock) 0 (ef_events d) (fb_events input) = Inr es"
    "append_each (edge_step sha clock) (2 * length (fb_events input)) (ef_edges d) (fb_edges input) = Inr gs"
    "known \<Longrightarrow> c \<in> set (ef_commits d) \<and> ec_streamId c = fb_streamId input \<and> ec_commitId c = fb_commitId input \<and>
      canonicalJson (JArr (map member_json (ec_members c))) = canonicalJson (JArr (map member_json (batch_members (map fst es) (map fst gs))))"
    "\<not> known \<Longrightarrow> createEvidenceCommit (clock (2 * length (fb_events input) + 2 * length (fb_edges input))) sha
            (batch_commit_input d input (batch_members (map fst es) (map fst gs))) = Inr c"
proof -
  let ?P = "\<lambda>c. ec_streamId c = fb_streamId input \<and> ec_commitId c = fb_commitId input"
  from assms obtain es' gs' where a: "append_each (event_step sha clock) 0 (ef_events d) (fb_events input) = Inr es'"
      "append_each (edge_step sha clock) (2 * length (fb_events input)) (ef_edges d) (fb_edges input) = Inr gs'"
    by (auto simp: plan_batch_def andThen_Inr_iff)
  show thesis
  proof (cases "find ?P (ef_commits d)")
    case None
    with assms a have "es = es'" "gs = gs'" "\<not> known" "createEvidenceCommit (clock (2 * length (fb_events input) + 2 * length (fb_edges input))) sha
            (batch_commit_input d input (batch_members (map fst es) (map fst gs))) = Inr c"
      by (auto simp: plan_batch_def andThen_Inr_iff Let_def)
    with a that show thesis by blast
  next
    case (Some x)
    then have "x \<in> set (ef_commits d) \<and> ?P x" by (auto simp: find_Some_iff)
    moreover from Some assms a have "es = es'" "gs = gs'" "known" "c = x"
      "canonicalJson (JArr (map member_json (ec_members x))) = canonicalJson (JArr (map member_json (batch_members (map fst es') (map fst gs'))))"
      by (auto simp: plan_batch_def andThen_Inr_iff Let_def)
    ultimately show thesis using a that by blast
  qed
qed

lemma event_preserves:
  assumes "files_ok sha t (contents d)" "event_owner input = Some t" "recordEvent sha clock busy input d = (r, d')"
  shows "files_ok sha t (contents d')"
  using recordEvent_outcome [OF assms(3)]
proof (elim disjE exE conjE)
  fix x new rs assume s: "event_step sha clock 0 (ef_events d) input = Inr (x, new, rs)" "r = Inr x"
    "contents d' = (ef_events d @ (if new then [x] else []), ef_edges d, ef_commits d)"
  have "log_of (auditEnvelope sha) t (ef_events d)" using assms(1) by (simp add: files_ok_def contents_def)
  from event_log.step_log [OF s(1) this assms(2)] have "log_of (auditEnvelope sha) t (ef_events d @ (if new then [x] else []))" by metis
  with assms(1) s(3) show ?thesis by (auto simp: files_ok_def contents_def intro: stored_member_more)
qed (use assms(1) in simp)

lemma edge_preserves:
  assumes "files_ok sha t (contents d)" "edge_owner input = Some t" "recordEdge sha clock busy input d = (r, d')"
  shows "files_ok sha t (contents d')"
  using recordEdge_outcome [OF assms(3)]
proof (elim disjE exE conjE)
  fix x new rs assume s: "edge_step sha clock 0 (ef_edges d) input = Inr (x, new, rs)" "r = Inr x"
    "contents d' = (ef_events d, ef_edges d @ (if new then [x] else []), ef_commits d)"
  have "log_of (edgeEnvelope sha) t (ef_edges d)" using assms(1) by (simp add: files_ok_def contents_def)
  from edge_log.step_log [OF s(1) this assms(2)] have "log_of (edgeEnvelope sha) t (ef_edges d @ (if new then [x] else []))" by metis
  with assms(1) s(3) show ?thesis by (auto simp: files_ok_def contents_def intro: stored_member_more)
qed (use assms(1) in simp)

definition batch_of :: "string \<Rightarrow> file_batch_input \<Rightarrow> bool" where
  "batch_of t input \<longleftrightarrow> list_all (\<lambda>x. event_owner x = Some t) (fb_events input) \<and> list_all (\<lambda>x. edge_owner x = Some t) (fb_edges input)"

lemma planned_logs:
  assumes "files_ok sha t (contents d)" "batch_of t input" "plan_batch sha clock d input = Inr (es, gs, known, c)"
  shows "log_of (auditEnvelope sha) t (ef_events d @ map fst (filter snd es))" "fst ` set es \<subseteq> set (ef_events d @ map fst (filter snd es))"
    "log_of (edgeEnvelope sha) t (ef_edges d @ map fst (filter snd gs))" "fst ` set gs \<subseteq> set (ef_edges d @ map fst (filter snd gs))"
proof -
  from assms(3) have p: "append_each (event_step sha clock) 0 (ef_events d) (fb_events input) = Inr es"
      "append_each (edge_step sha clock) (2 * length (fb_events input)) (ef_edges d) (fb_edges input) = Inr gs" by (auto elim: plan_batch_E)
  from assms(1) have l: "log_of (auditEnvelope sha) t (ef_events d)" "log_of (edgeEnvelope sha) t (ef_edges d)"
    by (simp_all add: files_ok_def contents_def)
  have o: "\<forall>x \<in> set (fb_events input). event_owner x = Some t" "\<forall>x \<in> set (fb_edges input). edge_owner x = Some t"
    using assms(2) by (simp_all add: batch_of_def list_all_iff)
  from event_log.each_log [OF p(1) l(1) o(1)] edge_log.each_log [OF p(2) l(2) o(2)]
  show "log_of (auditEnvelope sha) t (ef_events d @ map fst (filter snd es))" "fst ` set es \<subseteq> set (ef_events d @ map fst (filter snd es))"
    "log_of (edgeEnvelope sha) t (ef_edges d @ map fst (filter snd gs))" "fst ` set gs \<subseteq> set (ef_edges d @ map fst (filter snd gs))"
    by blast+
qed

lemma batch_preserves:
  assumes ok: "files_ok sha t (contents d)" and of: "batch_of t input" and run: "recordBatch sha clock busy input d = (r, d')"
  shows "files_ok sha t (contents d')"
  using run
proof (cases rule: recordBatch_outcome)
  case unchanged
  with ok show ?thesis by simp
next
  case (written es gs c n k j)
  note logs = planned_logs [OF ok of written(1)]
  from written(1) have c: "createEvidenceCommit (clock (2 * length (fb_events input) + 2 * length (fb_edges input))) sha
            (batch_commit_input d input (batch_members (map fst es) (map fst gs))) = Inr c" by (auto elim: plan_batch_E)
  have old: "chains_ok (commit_ok sha) (commitEnvelope sha) (ef_commits d)"
      "\<forall>c \<in> set (ef_commits d). \<forall>m \<in> set (ec_members c). stored_member (ef_events d) (ef_edges d) m"
    using ok by (simp_all add: files_ok_def contents_def)
  let ?es = "ef_events d @ take n (map fst (filter snd es))" and ?gs = "ef_edges d @ take k (map fst (filter snd gs))"
  have "\<forall>c \<in> set (ef_commits d). \<forall>m \<in> set (ec_members c). stored_member ?es ?gs m"
    using old(2) by (auto intro: stored_member_more)
  moreover have "stored_member ?es ?gs m" if "j" "m \<in> set (ec_members c)" for m
  proof (rule batch_members_stored)
    from written(3) [OF that(1)] have nk: "n = length (filter snd es)" "k = length (filter snd gs)" by simp_all
    show "set (map fst es) \<subseteq> set ?es" "set (map fst gs) \<subseteq> set ?gs" using logs(2,4) nk by simp_all
    have "in_members (batch_commit_input d input ms) = ms" for ms by (simp add: batch_commit_input_def Let_def)
    then show "m \<in> set (batch_members (map fst es) (map fst gs))"
      using mset_eq_setD [OF created_members [OF c]] that(2) by simp
  qed
  ultimately show ?thesis unfolding written(2)
    using log_of_take [OF logs(1), of n] log_of_take [OF logs(3), of k] old(1) commit_extends [OF old(1) c] by (auto simp: files_ok_def)
qed

section \<open>Runs\<close>

text \<open>What a directory of one tenant may hold after any sequence of operations by any processes, each
  with its own clock, lock contention and failing writes.\<close>

inductive files_run :: "digest \<Rightarrow> string \<Rightarrow> evidence_files \<Rightarrow> bool" for sha t where
  run_start: "files_run sha t \<lparr>ef_events = [], ef_edges = [], ef_commits = [], ef_faults = faults\<rparr>"
| run_event: "files_run sha t d \<Longrightarrow> event_owner input = Some t \<Longrightarrow> recordEvent sha clock busy input d = (r, d') \<Longrightarrow> files_run sha t d'"
| run_edge: "files_run sha t d \<Longrightarrow> edge_owner input' = Some t \<Longrightarrow> recordEdge sha clock busy input' d = (r', d') \<Longrightarrow> files_run sha t d'"
| run_batch: "files_run sha t d \<Longrightarrow> batch_of t batch \<Longrightarrow> recordBatch sha clock busy batch d = (r'', d') \<Longrightarrow> files_run sha t d'"
| run_faults: "files_run sha t d \<Longrightarrow> files_run sha t (d\<lparr>ef_faults := faults\<rparr>)"

lemma files_run_ok: "files_run sha t d \<Longrightarrow> files_ok sha t (contents d)"
proof (induction rule: files_run.induct)
  case (run_faults d faults)
  then show ?case by (simp add: contents_def)
qed (auto intro: event_preserves edge_preserves batch_preserves, simp add: files_ok_def contents_def)

end
