(* ===== verification/FileStore.thy ===== *)
theory FileStore
  imports FileSafety
begin

text \<open>
  What the file store promises: its directories verify, its commits are backed by stored records, it
  appends like \<open>MemoryAuditStore\<close>, and batches can be repeated.
\<close>

section \<open>The file store and the reference store\<close>

text \<open>A memory store that has seen the same records of the tenant and was never compacted.\<close>

definition event_digest :: "digest \<Rightarrow> audit_event \<Rightarrow> string" where
  "event_digest sha e = (case canonicalJson (event_json e) of Inr c \<Rightarrow> sha256Hex sha c | Inl _ \<Rightarrow> [])"

definition remembered :: "digest \<Rightarrow> audit_record \<Rightarrow> idempotency_entry" where
  "remembered sha r = \<lparr>ie_eventCanonicalHash = event_digest sha (rec_event r), ie_originalSequence = rec_sequence r,
     ie_originalRecordHash = rec_hash r, ie_record = Some r\<rparr>"

definition tip_state :: "audit_record list \<Rightarrow> audit_chain_state" where
  "tip_state rs = (case last_of rs of None \<Rightarrow> untouched_chain
     | Some r \<Rightarrow> untouched_chain\<lparr>authoritativeTipSequence := rec_sequence r, authoritativeTipHash := Some (rec_hash r)\<rparr>)"

definition mirrors :: "digest \<Rightarrow> string \<Rightarrow> audit_record list \<Rightarrow> memory_store \<Rightarrow> bool" where
  "mirrors sha t rs s \<longleftrightarrow> ms_records s = rs \<and> chain_state_of s t = tip_state rs \<and>
     (\<forall>k. ms_idempotency s k = map_option (remembered sha) (find (\<lambda>r. rec_idempotencyKeyHash r = k) rs))"

lemma mirrors_empty: "mirrors sha t [] empty_store"
  by (simp add: mirrors_def empty_store_def chain_state_of_def tip_state_def last_of_def)

lemma find_append: "find P (xs @ ys) = (case find P xs of None \<Rightarrow> find P ys | r \<Rightarrow> r)"
  by (induction xs) auto

lemma tip_state_accepted:
  assumes "log_of (auditEnvelope sha) t rs" "\<forall>x. is_hex64 (sha x)" "int (length rs) \<le> max_safe_integer"
  shows "assertAuditChainState (tip_state rs) = Inr ()"
proof (cases rs rule: rev_cases)
  case Nil
  then show ?thesis
    by (simp add: tip_state_def last_of_def assertAuditChainState_def untouched_chain_def optional_hash_def assertRetentionPolicyFence_def
      is_safe_int_def max_safe_integer_def)
next
  case (snoc ys r)
  with assms(1) have r: "rec_sequence r = int (length ys) + 1" "hashAuditRecord sha r = Inr (rec_hash r)"
    by (simp_all add: log_of_snoc sealed_def)
  then obtain x where "sha x = rec_hash r" by (auto simp: hashAuditRecord_def sha256Hex_def andThen_Inr_iff)
  then have "is_hex64 (rec_hash r)" using assms(2) by metis
  with r(1) assms(3) snoc show ?thesis
    by (simp add: tip_state_def assertAuditChainState_def untouched_chain_def optional_hash_def assertRetentionPolicyFence_def
      is_safe_int_def max_safe_integer_def)
qed

lemma clean_event_text:
  assumes "clean_metadata (event_metadata e)"
  obtains c where "canonicalJson (event_json e) = Inr c"
proof -
  from assms event_json_total obtain x where "normalizeForJson (event_json e) = Inr x" unfolding clean_metadata_def by blast
  moreover then have "x \<noteq> JUndefined" by auto
  ultimately show thesis using that by (simp add: canonicalJson_def)
qed

text \<open>The record that both would add.\<close>

definition next_record :: "retention_env \<Rightarrow> audit_record list \<Rightarrow> audit_event \<Rightarrow> string \<Rightarrow> audit_record" where
  "next_record env rs e k = fresh_record env (tip_state rs) e k"

lemma file_append_eq:
  assumes "Option.bind (event_scope e) tenantId = Some t" "hashIdempotencyKey (re_sha env) t (event_id e) = Inr k"
  shows "appendEventRecord (re_sha env) (re_host env) rs e =
    (case find (\<lambda>r. rec_idempotencyKeyHash r = k) rs of
       Some x \<Rightarrow> andThen (canonicalJson (event_json (rec_event x))) (\<lambda>a. andThen (canonicalJson (event_json e)) (\<lambda>b.
         if a \<noteq> b then Inl (TypeError ''idempotency conflict'') else Inr (x, False, rs)))
     | None \<Rightarrow> andThen (hashAuditRecord (re_sha env) (next_record env rs e k)) (\<lambda>d.
         Inr ((next_record env rs e k)\<lparr>rec_hash := d\<rparr>, True, rs @ [(next_record env rs e k)\<lparr>rec_hash := d\<rparr>])))"
proof -
  have "\<lparr>rec_event = e, rec_sequence = (case last_of rs of None \<Rightarrow> 0 | Some r \<Rightarrow> rec_sequence r) + 1,
      rec_previousHash = (case last_of rs of None \<Rightarrow> None | Some r \<Rightarrow> Some (rec_hash r)), rec_hash = [],
      rec_hashAlgorithm = HASH_ALGORITHM, rec_canonicalization = CANONICALIZATION,
      rec_appendedAt = iso_of_ms (now (re_host env)), rec_idempotencyKeyHash = k\<rparr> = next_record env rs e k"
    by (simp add: next_record_def fresh_record_def tip_state_def untouched_chain_def split: option.splits)
  then show ?thesis by (simp only: appendEventRecord_def assms Let_def option.case andThen_simps)
qed

lemma memory_append_eq:
  assumes m: "mirrors (re_sha env) t rs s" and t: "requireTenantId e = Inr t" and k: "hashIdempotencyKey (re_sha env) t (event_id e) = Inr k"
    and c: "canonicalJson (event_json e) = Inr c" and ok: "assertAuditChainState (tip_state rs) = Inr ()"
  shows "find (\<lambda>r. rec_idempotencyKeyHash r = k) rs = Some x \<Longrightarrow> append env s e no_append_options =
      (if event_digest (re_sha env) (rec_event x) \<noteq> sha256Hex (re_sha env) c then Inl (TypeError ''idempotency conflict'') else Inr (x, s))"
    and "find (\<lambda>r. rec_idempotencyKeyHash r = k) rs = None \<Longrightarrow> hashAuditRecord (re_sha env) (next_record env rs e k) = Inr d \<Longrightarrow>
      \<exists>s'. append env s e no_append_options = Inr ((next_record env rs e k)\<lparr>rec_hash := d\<rparr>, s') \<and>
        mirrors (re_sha env) t (rs @ [(next_record env rs e k)\<lparr>rec_hash := d\<rparr>]) s'"
    and "find (\<lambda>r. rec_idempotencyKeyHash r = k) rs = None \<Longrightarrow> hashAuditRecord (re_sha env) (next_record env rs e k) = Inl err \<Longrightarrow>
      append env s e no_append_options = Inl err"
proof -
  have idem: "ms_idempotency s j = map_option (remembered (re_sha env)) (find (\<lambda>r. rec_idempotencyKeyHash r = j) rs)" for j
    using m by (simp add: mirrors_def)
  have chain: "chainState s t = Inr (tip_state rs)" using m ok by (simp add: chainState_def mirrors_def)
  note head = append_def t k c no_append_options_def chain
  show "find (\<lambda>r. rec_idempotencyKeyHash r = k) rs = Some x \<Longrightarrow> append env s e no_append_options =
      (if event_digest (re_sha env) (rec_event x) \<noteq> sha256Hex (re_sha env) c then Inl (TypeError ''idempotency conflict'') else Inr (x, s))"
    using idem [of k] by (simp add: head remembered_def)
  assume none: "find (\<lambda>r. rec_idempotencyKeyHash r = k) rs = None"
  then have fresh: "ms_idempotency s k = None" using idem [of k] by simp
  show "hashAuditRecord (re_sha env) (next_record env rs e k) = Inl err \<Longrightarrow> append env s e no_append_options = Inl err"
    using fresh by (simp add: head Let_def next_record_def fresh_record_def)
  let ?r = "(next_record env rs e k)\<lparr>rec_hash := d\<rparr>"
  assume h: "hashAuditRecord (re_sha env) (next_record env rs e k) = Inr d"
  let ?s = "s\<lparr>ms_records := ms_records s @ [?r],
           ms_chainStates := (ms_chainStates s)(t \<mapsto>
             (tip_state rs)\<lparr>authoritativeTipSequence := rec_sequence ?r, authoritativeTipHash := Some d\<rparr>),
           ms_idempotency := (ms_idempotency s)(k \<mapsto>
             \<lparr>ie_eventCanonicalHash = sha256Hex (re_sha env) c, ie_originalSequence = rec_sequence ?r,
              ie_originalRecordHash = d, ie_record = Some ?r\<rparr>)\<rparr>"
  have "append env s e no_append_options = Inr (?r, ?s)"
    using fresh h by (simp add: head Let_def next_record_def fresh_record_def)
  moreover have "mirrors (re_sha env) t (rs @ [?r]) ?s"
  proof -
    have "tip_state (rs @ [?r]) = (tip_state rs)\<lparr>authoritativeTipSequence := rec_sequence ?r, authoritativeTipHash := Some d\<rparr>"
      by (simp add: tip_state_def split: option.splits)
    moreover have "remembered (re_sha env) ?r = \<lparr>ie_eventCanonicalHash = sha256Hex (re_sha env) c, ie_originalSequence = rec_sequence ?r,
              ie_originalRecordHash = d, ie_record = Some ?r\<rparr>"
      by (simp add: remembered_def event_digest_def c next_record_def)
    moreover have "rec_idempotencyKeyHash ?r = k" by (simp add: next_record_def)
    ultimately show ?thesis using m none idem
      by (auto simp: mirrors_def chain_state_of_def find_append split: option.splits)
  qed
  ultimately show "\<exists>s'. append env s e no_append_options = Inr (?r, s') \<and> mirrors (re_sha env) t (rs @ [?r]) s'" by blast
qed

text \<open>C34. The file store appends exactly like the reference store. On the same history of one tenant, never compacted, with digests of 64 hex digits and fewer records than safe integers, an append of an event to the file succeeds exactly when \<open>MemoryAuditStore\<close> accepts it, with the same record and histories that still mirror each other, or the event and the stored event of its idempotency key have different canonical texts with the same digest.\<close>

theorem file_store_like_memory_store:
  assumes "log_of (auditEnvelope (re_sha env)) t rs" "mirrors (re_sha env) t rs s" "\<forall>x. is_hex64 (re_sha env x)"
    and "int (length rs) \<le> max_safe_integer" "requireTenantId e = Inr t" "clean_metadata (event_metadata e)"
  shows "((\<exists>new rs'. appendEventRecord (re_sha env) (re_host env) rs e = Inr (r, new, rs')) \<longleftrightarrow>
      (\<exists>s'. append env s e no_append_options = Inr (r, s'))) \<and>
    (\<forall>new rs'. appendEventRecord (re_sha env) (re_host env) rs e = Inr (r, new, rs') \<longrightarrow>
      (\<exists>s'. append env s e no_append_options = Inr (r, s') \<and> mirrors (re_sha env) t rs' s')) \<or>
    (\<exists>x \<in> set rs. collision (re_sha env) (canonicalJson (event_json (rec_event x))) (canonicalJson (event_json e)))"
proof -
  obtain c where c: "canonicalJson (event_json e) = Inr c" using assms(6) by (rule clean_event_text)
  have ok: "assertAuditChainState (tip_state rs) = Inr ()" by (rule tip_state_accepted [OF assms(1,3,4)])
  have t: "Option.bind (event_scope e) tenantId = Some t"
    using assms(5) by (auto simp: requireTenantId_def throwUnless_def split: option.splits if_splits)
  show ?thesis
  proof (cases "hashIdempotencyKey (re_sha env) t (event_id e)")
    case (Inl err)
    then show ?thesis by (simp add: append_def appendEventRecord_def assms(5) t no_append_options_def)
  next
    case (Inr k)
    note f = file_append_eq [OF t Inr, of rs] and m = memory_append_eq [OF assms(2,5) Inr c ok]
    show ?thesis
    proof (cases "find (\<lambda>r. rec_idempotencyKeyHash r = k) rs")
      case None
      show ?thesis
      proof (cases "hashAuditRecord (re_sha env) (next_record env rs e k)")
        case (Inl err)
        with f m(3) None show ?thesis by simp
      next
        case (Inr d)
        with f m(2) [OF None Inr] None show ?thesis by auto
      qed
    next
      case (Some x)
      then have x: "x \<in> set rs" by (rule find_mem)
      show ?thesis
      proof (cases "canonicalJson (event_json (rec_event x))")
        case (Inl err)
        have "is_hex64 (sha256Hex (re_sha env) c)" using assms(3) by (simp add: sha256Hex_def)
        then have "sha256Hex (re_sha env) c \<noteq> []" by (auto simp: is_hex64_def)
        with f m(1) [OF Some] Some Inl show ?thesis by (simp add: event_digest_def)
      next
        case a: (Inr a)
        show ?thesis
        proof (cases "a = c")
          case True
          with f m(1) [OF Some] Some a c assms(2) show ?thesis by (auto simp: event_digest_def)
        next
          case False
          show ?thesis
          proof (cases "sha256Hex (re_sha env) a = sha256Hex (re_sha env) c")
            case True
            with False a c x show ?thesis by (auto simp: collision_def sha256Hex_def)
          next
            case ne: False
            with False f m(1) [OF Some] Some a c show ?thesis by (simp add: event_digest_def)
          qed
        qed
      qed
    qed
  qed
qed

section \<open>Repeating a batch\<close>

lemma find_after: "find P xs = Some r \<Longrightarrow> find P (xs @ ys) = Some r" "find P xs = None \<Longrightarrow> P r \<Longrightarrow> find P (xs @ r # ys) = Some r"
  by (simp_all add: find_append)

lemma hashed_text:
  assumes "canonicalJson (JObj kvs) = Inr t" "(k, v) \<in> set kvs" "normalizeForJson v \<noteq> Inr JUndefined"
  shows "\<exists>c. canonicalJson v = Inr c"
proof -
  from assms(1) obtain x where "normalizeForJson (JObj kvs) = Inr x" by (rule canonicalJson_InrE)
  from normalize_member_ok [OF this assms(2)] obtain y where "normalizeForJson v = Inr y" by auto
  with assms(3) show ?thesis by (auto simp: canonicalJson_def)
qed

lemma event_step_again:
  assumes "event_step sha clock i rs x = Inr (r, new, rs')" "createAuditEvent (clock' j) x = createAuditEvent (clock i) x"
  shows "event_step sha clock' j (rs' @ ys) x = Inr (r, False, rs' @ ys)"
proof -
  from assms(1) obtain e where e: "createAuditEvent (clock i) x = Inr e" "requireTenant (Option.bind (event_scope e) tenantId) = Inr ()"
      "appendEventRecord sha (clock (i + 1)) rs e = Inr (r, new, rs')"
    by (auto simp: event_step_def andThen_Inr_iff)
  from e(3) have "appendEventRecord sha (clock' (j + 1)) (rs' @ ys) e = Inr (r, False, rs' @ ys)"
  proof (cases rule: appendEventRecord_cases)
    case (replay t k c)
    with find_after(1) [OF replay(3), of ys] show ?thesis by (simp add: appendEventRecord_def)
  next
    case (fresh t k)
    from fresh(13) obtain b where "canonicalJson (record_body_json r) = Inr b" by (auto simp: hashAuditRecord_def)
    from hashed_text [OF this [unfolded record_body_json_def], of "''event''" "event_json (rec_event r)"] obtain c
      where "canonicalJson (event_json e) = Inr c" using fresh(6) by auto
    with fresh find_after(2) [OF fresh(3), of r ys] show ?thesis by (simp add: appendEventRecord_def)
  qed
  with e(1,2) assms(2) show ?thesis by (simp add: event_step_def)
qed

lemma edge_step_again:
  assumes "edge_step sha clock i rs x = Inr (r, new, rs')" "createEvidenceEdge (clock' j) x = createEvidenceEdge (clock i) x"
  shows "edge_step sha clock' j (rs' @ ys) x = Inr (r, False, rs' @ ys)"
proof -
  from assms(1) obtain e where e: "createEvidenceEdge (clock i) x = Inr e" "requireTenant (Option.bind (edge_scope e) tenantId) = Inr ()"
      "appendEdgeRecord sha (clock (i + 1)) rs e = Inr (r, new, rs')"
    by (auto simp: edge_step_def andThen_Inr_iff)
  from e(3) obtain t k where tk: "Option.bind (edge_scope e) tenantId = Some t" "hashIdempotencyKey sha t (edge_id e) = Inr k"
    by (auto simp: appendEdgeRecord_def andThen_Inr_iff split: option.splits)
  have "appendEdgeRecord sha (clock' (j + 1)) (rs' @ ys) e = Inr (r, False, rs' @ ys)"
  proof (cases "find (\<lambda>r. erec_idempotencyKeyHash r = k) rs")
    case (Some a)
    with e(3) tk obtain c where c: "a = r" "rs' = rs" "canonicalJson (edge_json (erec_edge r)) = Inr c" "canonicalJson (edge_json e) = Inr c"
      by (auto simp: appendEdgeRecord_def andThen_Inr_iff split: if_splits)
    with tk find_after(1) [OF Some, of ys] show ?thesis by (simp add: appendEdgeRecord_def)
  next
    case None
    with e(3) tk have r: "rs' = rs @ [r]" "erec_edge r = e" "erec_idempotencyKeyHash r = k" "hashEvidenceEdgeRecord sha r = Inr (erec_hash r)"
      by (auto simp: appendEdgeRecord_def andThen_Inr_iff Let_def hashEvidenceEdgeRecord_def edge_record_body_json_def)
    from r(4) obtain b where "canonicalJson (edge_record_body_json r) = Inr b" by (auto simp: hashEvidenceEdgeRecord_def)
    from hashed_text [OF this [unfolded edge_record_body_json_def], of "''edge''" "edge_json (erec_edge r)"] obtain c
      where "canonicalJson (edge_json e) = Inr c" using r(2) by (auto simp: edge_json_def)
    with r tk find_after(2) [OF None, of r ys] show ?thesis by (simp add: appendEdgeRecord_def)
  qed
  with e(1,2) assms(2) show ?thesis by (simp add: edge_step_def)
qed

lemma append_each_again:
  assumes again: "\<And>i rs x r new rs' ys. step i rs x = Inr (r, new, rs') \<Longrightarrow> same i x \<Longrightarrow> step' i (rs' @ ys) x = Inr (r, False, rs' @ ys)"
    and grows: "\<And>i rs x r new rs'. step i rs x = Inr (r, new, rs') \<Longrightarrow> rs' = rs @ (if new then [r] else [])"
  shows "append_each step i rs xs = Inr os \<Longrightarrow> \<forall>n < length xs. same (i + 2 * n) (xs ! n) \<Longrightarrow>
    append_each step' i (rs @ map fst (filter snd os)) xs = Inr (map (\<lambda>o'. (fst o', False)) os)"
proof (induction xs arbitrary: i rs os)
  case (Cons x xs)
  from Cons.prems(1) obtain r new rs' os' where s: "step i rs x = Inr (r, new, rs')" "append_each step (i + 2) rs' xs = Inr os'"
      "os = (r, new) # os'"
    by (auto simp: andThen_Inr_iff)
  have g: "rs @ map fst (filter snd os) = rs' @ map fst (filter snd os')" using grows [OF s(1)] s(3) by simp
  have "same i x" using Cons.prems(2) by force
  from again [OF s(1) this, of "map fst (filter snd os')"] have
    1: "step' i (rs' @ map fst (filter snd os')) x = Inr (r, False, rs' @ map fst (filter snd os'))" .
  have "same (i + 2 + 2 * n) (xs ! n)" if "n < length xs" for n
    using Cons.prems(2) [rule_format, of "Suc n"] that by simp
  with Cons.IH [OF s(2)] have "append_each step' (i + 2) (rs' @ map fst (filter snd os')) xs = Inr (map (\<lambda>o'. (fst o', False)) os')" by blast
  with 1 show ?case unfolding g by (simp add: s(3))
qed simp

lemma events_again:
  assumes "append_each (event_step sha clock) 0 rs xs = Inr es"
    and "\<forall>n < length xs. createAuditEvent (clock' (2 * n)) (xs ! n) = createAuditEvent (clock (2 * n)) (xs ! n)"
  shows "append_each (event_step sha clock') 0 (rs @ map fst (filter snd es)) xs = Inr (map (\<lambda>o'. (fst o', False)) es)"
proof (rule append_each_again [OF _ _ assms(1), where same = "\<lambda>i x. createAuditEvent (clock' i) x = createAuditEvent (clock i) x"])
  show "event_step sha clock i rs x = Inr (r, new, rs') \<Longrightarrow> rs' = rs @ (if new then [r] else [])" for i rs x r new rs'
    using event_log.replayed event_log.appended by (cases new) fastforce+
qed (use event_step_again assms(2) in auto)

lemma edges_again:
  assumes "append_each (edge_step sha clock) k rs xs = Inr gs"
    and "\<forall>n < length xs. createEvidenceEdge (clock' (k + 2 * n)) (xs ! n) = createEvidenceEdge (clock (k + 2 * n)) (xs ! n)"
  shows "append_each (edge_step sha clock') k (rs @ map fst (filter snd gs)) xs = Inr (map (\<lambda>o'. (fst o', False)) gs)"
proof (rule append_each_again [OF _ _ assms(1), where same = "\<lambda>i x. createEvidenceEdge (clock' i) x = createEvidenceEdge (clock i) x"])
  show "edge_step sha clock i rs x = Inr (r, new, rs') \<Longrightarrow> rs' = rs @ (if new then [r] else [])" for i rs x r new rs'
    using edge_log.replayed edge_log.appended by (cases new) fastforce+
qed (use edge_step_again assms(2) in auto)

lemma batch_members_sorted: "sort_key index_of (batch_members es gs) = batch_members es gs"
proof -
  have "map index_of (batch_members es gs) = map int [0..<length es + length gs]"
    by (intro nth_equalityI) (auto simp: batch_members_def index_of_def nth_append nth_enumerate_eq)
  then show ?thesis by (intro sort_key_id_if_sorted) (simp add: sorted_map)
qed

lemma created_commit:
  assumes "createEvidenceCommit h sha input = Inr c" "sort_key index_of (in_members input) = in_members input"
  shows "ec_members c = in_members input" "ec_streamId c = in_streamId input" "ec_commitId c = in_commitId input"
    "\<exists>t. canonicalJson (JArr (map member_json (ec_members c))) = Inr t"
proof -
  from assms obtain root where n: "normalizeCommitMembers (in_members input) = Inr (ec_members c)"
    by (auto simp: createEvidenceCommit_def andThen_Inr_iff Let_def)
  moreover have "collect (map cleanCommitMember (in_members input)) = Inr xs \<Longrightarrow> xs = in_members input" for xs
    by (auto simp: collect_map_iff cleanCommitMember_iff list_all2_conv_all_nth intro: nth_equalityI)
  ultimately show m: "ec_members c = in_members input"
    using assms(2) by (auto simp: normalizeCommitMembers_def andThen_Inr_iff Let_def)
  show "ec_streamId c = in_streamId input" "ec_commitId c = in_commitId input"
    using assms(1) by (auto simp: createEvidenceCommit_def andThen_Inr_iff Let_def)
  have valid: "\<forall>m \<in> set (ec_members c). valid_member m" using n by (simp add: normalizeCommitMembers_iff manifest_def)
  have "\<exists>w. normalizeForJson (member_json m) = Inr w" if "m \<in> set (ec_members c)" for m
    unfolding member_json_def by (rule normalize_object_total) (use valid_index valid that in auto)
  then have "\<forall>v \<in> set (map member_json (ec_members c)). \<exists>w. normalizeForJson v = Inr w" by auto
  from bchoice [OF this] obtain f where "\<forall>v \<in> set (map member_json (ec_members c)). normalizeForJson v = Inr (f v)" ..
  then have "normalizeForJson (JArr (map member_json (ec_members c))) = Inr (JArr (map null_if_undefined (map f (map member_json (ec_members c)))))"
    unfolding normalize_array_iff by (intro exI [of _ "map f (map member_json (ec_members c))"]) (auto simp: list.rel_map list_all2_same)
  then show "\<exists>t. canonicalJson (JArr (map member_json (ec_members c))) = Inr t" by (simp add: canonicalJson_def)
qed

text \<open>C35. A batch is idempotent. After a batch has been recorded with a new commit, sending it again to the same directory, at another time and from another process, returns the same records and the same commit and writes nothing, provided the lock is acquired and the inputs determine the events and edges (they carry identifiers and times).\<close>

theorem recordBatch_replays:
  assumes "recordBatch sha clock busy input d = (Inr res, d')" "ef_commits d' \<noteq> ef_commits d" "acquire busy' 0"
    and "\<forall>n < length (fb_events input). createAuditEvent (clock' (2 * n)) (fb_events input ! n) = createAuditEvent (clock (2 * n)) (fb_events input ! n)"
    and "\<forall>n < length (fb_edges input). createEvidenceEdge (clock' (2 * length (fb_events input) + 2 * n)) (fb_edges input ! n) =
      createEvidenceEdge (clock (2 * length (fb_events input) + 2 * n)) (fb_edges input ! n)"
  shows "recordBatch sha clock' busy' input d' = (Inr res, d')"
  using assms(1)
proof (cases rule: recordBatch_outcome)
  case unchanged
  with assms(2) show ?thesis by (simp add: contents_def)
next
  case (written es gs c n k j)
  from written(4) [OF refl] written(3) have w: "res = \<lparr>br_events = map fst es, br_edges = map fst gs, br_commit = c\<rparr>"
      "ef_events d' = ef_events d @ map fst (filter snd es)" "ef_edges d' = ef_edges d @ map fst (filter snd gs)" "ef_commits d' = ef_commits d @ [c]"
    using written(2) by (simp_all add: contents_def)
  let ?ms = "batch_members (map fst es) (map fst gs)" and ?P = "\<lambda>c. ec_streamId c = fb_streamId input \<and> ec_commitId c = fb_commitId input"
  from written(1) have p: "append_each (event_step sha clock) 0 (ef_events d) (fb_events input) = Inr es"
      "append_each (edge_step sha clock) (2 * length (fb_events input)) (ef_edges d) (fb_edges input) = Inr gs"
      "createEvidenceCommit (clock (2 * length (fb_events input) + 2 * length (fb_edges input))) sha (batch_commit_input d input ?ms) = Inr c"
    by (auto elim: plan_batch_E)
  have in_ms: "in_members (batch_commit_input d input ?ms) = ?ms" "in_streamId (batch_commit_input d input ?ms) = fb_streamId input"
      "in_commitId (batch_commit_input d input ?ms) = fb_commitId input" by (simp_all add: batch_commit_input_def Let_def)
  note c = created_commit [OF p(3), unfolded in_ms, OF batch_members_sorted]
  have none: "find ?P (ef_commits d) = None" and len: "length es + length gs \<noteq> 0"
    using written(1) p(1,2) by (auto simp: plan_batch_def andThen_Inr_iff Let_def split: option.splits)
  note es = events_again [OF p(1) assms(4), folded w(2)] and gs = edges_again [OF p(2) assms(5), folded w(3)]
  have f: "find ?P (ef_commits d') = Some c" unfolding w(4) using find_after(2) [OF none, of c "[]"] c(2,3) by simp
  obtain t where t: "canonicalJson (JArr (map member_json ?ms)) = Inr t" using c(1,4) by auto
  have fst_map: "map fst (map (\<lambda>o'. (fst o', False)) xs) = map fst xs" for xs :: "('r \<times> bool) list" by simp
  have "plan_batch sha clock' d' input = Inr (map (\<lambda>o'. (fst o', False)) es, map (\<lambda>o'. (fst o', False)) gs, True, c)"
    unfolding plan_batch_def es gs andThen_simps fst_map using len by (simp add: f c(1) t Let_def)
  then show ?thesis using assms(3) by (simp add: recordBatch_def withLock_def w(1) comp_def)
qed

section \<open>What the store promises\<close>


text \<open>C33. A commit is never ahead of its evidence. In every such directory each member of each commit names a stored event or edge by its identifier and its hash, so that a batch whose writes broke off leaves records without a commit and never a commit without its records.\<close>

theorem file_commits_backed:
  assumes "files_run sha t d" "c \<in> set (ef_commits d)" "m \<in> set (ec_members c)"
  shows "(cm_recordType m = ''audit.record'' \<and>
      (\<exists>r \<in> set (ef_events d). cm_recordId m = event_id (rec_event r) \<and> cm_recordHash m = ''sha256:'' @ rec_hash r)) \<or>
    (cm_recordType m = ''evidence.edge.record'' \<and>
      (\<exists>r \<in> set (ef_edges d). cm_recordId m = edge_id (erec_edge r) \<and> cm_recordHash m = ''sha256:'' @ erec_hash r))"
  using files_run_ok [OF assms(1)] assms(2,3) by (simp add: files_ok_def contents_def stored_member_def)

section \<open>A concrete directory\<close>

definition new_directory :: "bool list \<Rightarrow> evidence_files" where
  "new_directory faults = \<lparr>ef_events = [], ef_edges = [], ef_commits = [], ef_faults = faults\<rparr>"

definition sample_batch :: file_batch_input where
  "sample_batch = \<lparr>fb_commitId = ''c1'', fb_streamId = ''s1'', fb_events = [sample_event_input\<lparr>in_occurredAt := Some (DateObject (Some 0)), in_dataCategories := None, in_metadata := None\<rparr>],
     fb_edges = [], fb_committedAt = None\<rparr>"

definition recorded_batch :: "unit \<Rightarrow> file_batch_result throws \<times> evidence_files" where
  "recorded_batch _ = recordBatch zero_digest (\<lambda>_. sample_host) (\<lambda>_. False) sample_batch (new_directory [])"

lemma sample_batch_recorded:
  "case recorded_batch () of (Inl _, _) \<Rightarrow> False | (Inr res, d) \<Rightarrow> list_all (\<lambda>c. ec_members c \<noteq> []) (ef_commits d) \<and> ef_commits d \<noteq> []"
  by code_simp

lemma sample_batch_owner: "batch_of ''t1'' sample_batch"
  by code_simp

lemma directory_run: "files_run zero_digest ''t1'' (snd (recorded_batch ()))"
proof -
  obtain r d where rd: "recordBatch zero_digest (\<lambda>_. sample_host) (\<lambda>_. False) sample_batch (new_directory []) = (r, d)" by fastforce
  have "files_run zero_digest ''t1'' (new_directory [])" unfolding new_directory_def by (rule run_start)
  from run_batch [OF this sample_batch_owner rd] show ?thesis by (simp add: recorded_batch_def rd)
qed


theorem file_commits_backed_witness:
  "\<exists>m c. c \<in> set (ef_commits (snd (recorded_batch ()))) \<and> m \<in> set (ec_members c) \<and> stored_member (ef_events (snd (recorded_batch ()))) (ef_edges (snd (recorded_batch ()))) m"
proof -
  from sample_batch_recorded obtain c m where "c \<in> set (ef_commits (snd (recorded_batch ())))" "m \<in> set (ec_members c)"
    by (cases "recorded_batch ()") (force split: sum.splits simp: neq_Nil_conv)
  with file_commits_backed [OF directory_run this] show ?thesis unfolding stored_member_def by blast
qed

theorem recordBatch_replays_witness:
  "\<exists>res. recorded_batch () = (Inr res, snd (recorded_batch ())) \<and>
     recordBatch zero_digest (\<lambda>_. sample_host\<lparr>now := 5\<rparr>) (\<lambda>_. False) sample_batch (snd (recorded_batch ())) = (Inr res, snd (recorded_batch ()))"
proof -
  from sample_batch_recorded obtain res d where rd: "recorded_batch () = (Inr res, d)" "ef_commits d \<noteq> []"
    by (cases "recorded_batch ()") (auto split: sum.splits)
  have a: "acquire (\<lambda>_. False) 0" by (simp add: acquire.simps)
  have e: "fb_edges sample_batch = []" "length (fb_events sample_batch) = 1" by (simp_all add: sample_batch_def)
  have c: "createAuditEvent (sample_host\<lparr>now := 5\<rparr>) (fb_events sample_batch ! 0) = createAuditEvent sample_host (fb_events sample_batch ! 0)"
    by code_simp
  have "ef_commits d \<noteq> ef_commits (new_directory [])" using rd(2) by (simp add: new_directory_def)
  from recordBatch_replays [OF rd(1) [unfolded recorded_batch_def] this a, of "\<lambda>_. sample_host\<lparr>now := 5\<rparr>"] c e rd(1)
  show ?thesis by simp
qed

theorem file_store_like_memory_store_witness:
  "\<exists>new rs' s'. appendEventRecord zero_digest (re_host (at_time sample_env 0)) [] sample_event = Inr (run_record, new, rs') \<and>
     append (at_time sample_env 0) empty_store sample_event no_append_options = Inr (run_record, s') \<and> mirrors zero_digest ''t1'' rs' s'"
proof -
  let ?env = "at_time sample_env 0"
  have sha: "re_sha ?env = zero_digest" by (simp add: sample_env_def)
  have hex: "\<forall>x. is_hex64 (re_sha ?env x)" using sample_hex by simp
  have meta: "\<not> isl (normalizeForJson (event_metadata sample_event))" "clean_metadata (event_metadata sample_event)"
    using createAuditEvent_valid_event [OF _ sample_event_created] by (code_simp, simp add: valid_event_def sample_event_input_def wf_metadata_def)
  note like = file_store_like_memory_store [of ?env "''t1''" "[]" empty_store sample_event run_record, OF log_of_Nil mirrors_empty hex _ _ meta(2)]
  from like run_append_eq have "\<exists>new rs'. appendEventRecord (re_sha ?env) (re_host ?env) [] sample_event = Inr (run_record, new, rs')"
    by (auto simp: max_safe_integer_def)
  with like show ?thesis unfolding sha by (auto simp: max_safe_integer_def)
qed

end
