(* ===== verification/ObjectArchive.thy ===== *)
theory ObjectArchive
  imports StagingSafety
begin

text \<open>
  The derived cold tier on object storage: the sealed-segment machinery of
  \<^verbatim>\<open>storage/src/object-archive-chain.ts\<close>, its composition for events and edges and the drain of an
  audit store in \<^verbatim>\<open>storage/src/object-archive.ts\<close>.

  The client, bytes, keys and the JSON text are those of the staging archive; of the client, \<open>delete\<close>
  is never used. Records and manifests are JSON values, before they are written and after they have
  been parsed; a sequence is an integer, as everywhere.
\<close>

section \<open>Codecs and results\<close>

record chain_codec =
  cc_chainSegment :: string
  cc_tenantOf :: "jsval \<Rightarrow> jsval throws"
  cc_rehash :: "jsval \<Rightarrow> string throws"
  cc_verifyChain :: "jsval list \<Rightarrow> verification_result throws"

record archive_verification =
  av_ok :: bool
  av_segmentCount :: int
  av_recordCount :: int
  av_verification :: "verification_result option"
  av_reason :: "string option"

definition MANIFEST_SUFFIX :: string where
  "MANIFEST_SUFFIX = ''.manifest.json''"

text \<open>\<open>SHA256_HEX.test(value ?? "")\<close>\<close>

definition SHA256_HEX :: "jsval \<Rightarrow> bool" where
  "SHA256_HEX v \<longleftrightarrow> is_hex64 (to_js_string (if v \<in> {JUndefined, JNull} then JStr [] else v))"

text \<open>\<open>===\<close> between members of different parsed values, where two objects are never the same.\<close>

definition strictly_equal :: "jsval \<Rightarrow> jsval \<Rightarrow> bool" where
  "strictly_equal a b \<longleftrightarrow> a = b \<and> (case a of JArr _ \<Rightarrow> False | JObj _ \<Rightarrow> False | JDate _ \<Rightarrow> False | JNum n \<Rightarrow> n \<noteq> NNaN | _ \<Rightarrow> True)"

section \<open>Manifests\<close>

text \<open>The range of a segment in its name.\<close>

definition segment_name :: "string \<Rightarrow> int \<Rightarrow> int \<Rightarrow> string" where
  "segment_name tenantKeys low high = tenantKeys @ padSequence low @ ''-'' @ padSequence high @ ''.ndjson''"

definition tenantPrefix :: "string \<Rightarrow> chain_codec \<Rightarrow> string \<Rightarrow> string" where
  "tenantPrefix keys codec tenant = keys @ ''/'' @ encodeURIComponent tenant @ ''/'' @ cc_chainSegment codec @ ''/''"

definition segment_manifest :: "string \<Rightarrow> string \<Rightarrow> jsval list \<Rightarrow> string \<Rightarrow> string \<Rightarrow> jsval" where
  "segment_manifest tenantKeys tenant records contentSha256 sealedAt = JObj
     [(''tenantId'', JStr tenant), (''fromSequence'', JNum (NInt (int_prop (hd records) ''sequence''))),
      (''toSequence'', JNum (NInt (int_prop (last records) ''sequence''))), (''recordCount'', JNum (NInt (int (length records)))),
      (''firstPreviousHash'', js_prop (hd records) ''previousHash''), (''lastHash'', js_prop (last records) ''hash''),
      (''segmentKey'', JStr (segment_name tenantKeys (int_prop (hd records) ''sequence'') (int_prop (last records) ''sequence''))),
      (''contentSha256'', JStr contentSha256), (''sealedAt'', JStr sealedAt)]"

definition valid_segment_manifest :: "jsval \<Rightarrow> bool" where
  "valid_segment_manifest parsed \<longleftrightarrow>
     js_prop parsed ''tenantId'' = JStr (str_prop parsed ''tenantId'') \<and> \<not> blank (str_prop parsed ''tenantId'') \<and>
     js_prop parsed ''fromSequence'' = JNum (NInt (int_prop parsed ''fromSequence'')) \<and> 1 \<le> int_prop parsed ''fromSequence'' \<and>
     js_prop parsed ''toSequence'' = JNum (NInt (int_prop parsed ''toSequence'')) \<and>
     int_prop parsed ''fromSequence'' \<le> int_prop parsed ''toSequence'' \<and>
     js_prop parsed ''recordCount'' = JNum (NInt (int_prop parsed ''toSequence'' - int_prop parsed ''fromSequence'' + 1)) \<and>
     (js_prop parsed ''firstPreviousHash'' = JNull \<or> SHA256_HEX (js_prop parsed ''firstPreviousHash'')) \<and>
     SHA256_HEX (js_prop parsed ''lastHash'') \<and> SHA256_HEX (js_prop parsed ''contentSha256'') \<and>
     js_prop parsed ''segmentKey'' = JStr (str_prop parsed ''segmentKey'') \<and>
     js_prop parsed ''sealedAt'' = JStr (str_prop parsed ''sealedAt'')"

definition parseSegmentManifest :: "staging_env \<Rightarrow> string \<Rightarrow> jsval throws" where
  "parseSegmentManifest env text =
     (let failed = Inl (TypeError ''archived segment manifest integrity check failed'') in
      case json_parse (sv_number env) text of
        Inl _ \<Rightarrow> failed
      | Inr parsed \<Rightarrow>
          andThen (js_member parsed ''tenantId'') (\<lambda>_.
          if valid_segment_manifest parsed then Inr parsed else failed))"

fun read_manifests :: "staging_env \<Rightarrow> 'p object_client \<Rightarrow> string list \<Rightarrow> ('p, jsval list) action" where
  "read_manifests env client [] = pureA []"
| "read_manifests env client (key # keys) =
     thenDo (oc_get client key) (\<lambda>body.
     case body of
       None \<Rightarrow> liftA (Inl (TypeError ''archived segment manifest is missing''))
     | Some body \<Rightarrow>
         thenDo (liftA (parseSegmentManifest env (utf8_decode (sv_mark env) body))) (\<lambda>manifest.
         thenDo (read_manifests env client keys) (\<lambda>manifests.
         pureA (manifest # manifests))))"

definition listManifests ::
  "staging_env \<Rightarrow> 'p object_client \<Rightarrow> string \<Rightarrow> chain_codec \<Rightarrow> string \<Rightarrow> ('p, jsval list) action" where
  "listManifests env client keys codec tenant =
     thenDo (oc_list client (tenantPrefix keys codec tenant)) (\<lambda>listed.
     thenDo (read_manifests env client (sort (filter (\<lambda>key. suffix MANIFEST_SUFFIX key) listed))) (\<lambda>manifests.
     pureA (sort_key (\<lambda>m. int_prop m ''fromSequence'') manifests)))"

section \<open>Sealing\<close>

fun check_segment_records :: "chain_codec \<Rightarrow> string \<Rightarrow> jsval option \<Rightarrow> jsval list \<Rightarrow> unit throws" where
  "check_segment_records codec tenant previous [] = Inr ()"
| "check_segment_records codec tenant previous (record # rest) =
     andThen (cc_tenantOf codec record) (\<lambda>t.
     andThen (throwUnless (t = JStr tenant) (TypeError ''segment must contain a single tenant chain'')) (\<lambda>_.
     andThen (cc_rehash codec record) (\<lambda>d.
     andThen (throwUnless (js_prop record ''hash'' = JStr d) (TypeError ''record integrity check failed'')) (\<lambda>_.
     andThen (throwUnless (case previous of None \<Rightarrow> True
          | Some p \<Rightarrow> int_prop record ''sequence'' = int_prop p ''sequence'' + 1 \<and> js_prop record ''previousHash'' = js_prop p ''hash'')
        (TypeError ''segment records must be contiguous and hash-linked'')) (\<lambda>_.
     check_segment_records codec tenant (Some record) rest)))))"

definition validateSegmentRecords :: "chain_codec \<Rightarrow> jsval list \<Rightarrow> string throws" where
  "validateSegmentRecords codec records =
     andThen (cc_tenantOf codec (hd records)) (\<lambda>tenant.
     case tenant of
       JStr t \<Rightarrow>
         if blank t then Inl (TypeError ''scope.tenantId is required'')
         else andThen (check_segment_records codec t None records) (\<lambda>_. Inr t)
     | _ \<Rightarrow> Inl (TypeError ''scope.tenantId is required''))"

definition segment_body :: "jsval list \<Rightarrow> bytes throws" where
  "segment_body records =
     andThen (collect (map canonicalJson records)) (\<lambda>lines. Inr (utf8_encode (join [LF] lines @ [LF])))"

text \<open>What sealing does, by the manifests found: return an existing manifest, write a new segment
  (\<open>None\<close>) or refuse.\<close>

definition seal_plan :: "jsval list \<Rightarrow> jsval \<Rightarrow> jsval \<Rightarrow> string \<Rightarrow> jsval option throws" where
  "seal_plan manifests first final contentSha256 =
     (let low = int_prop first ''sequence''; high = int_prop final ''sequence'' in
      case last_of manifests of
        None \<Rightarrow>
          if low \<noteq> 1 \<or> js_prop first ''previousHash'' \<noteq> JNull
          then Inl (TypeError ''archive must start at the tenant chain origin'') else Inr None
      | Some tip \<Rightarrow>
          if low \<le> int_prop tip ''toSequence'' then
            (case find (\<lambda>m. int_prop m ''fromSequence'' = low \<and> int_prop m ''toSequence'' = high) manifests of
               Some existing \<Rightarrow>
                 if js_prop existing ''contentSha256'' = JStr contentSha256 then Inr (Some existing)
                 else Inl (TypeError ''segment conflict'')
             | None \<Rightarrow> Inl (TypeError ''segment conflict''))
          else if low \<noteq> int_prop tip ''toSequence'' + 1 \<or> \<not> strictly_equal (js_prop first ''previousHash'') (js_prop tip ''lastHash'')
          then Inl (TypeError ''segment does not extend the archived tenant chain'') else Inr None)"

definition sealSegment ::
  "staging_env \<Rightarrow> 'p object_client \<Rightarrow> string \<Rightarrow> chain_codec \<Rightarrow> jsval list \<Rightarrow> ('p, jsval) action" where
  "sealSegment env client keys codec records =
     thenDo (checkThat (records \<noteq> []) ''segment requires at least one record'') (\<lambda>_.
     thenDo (liftA (validateSegmentRecords codec records)) (\<lambda>tenant.
     thenDo (liftA (segment_body records)) (\<lambda>body.
     let contentSha256 = re_sha_bytes (sv_retention env) body in
     thenDo (listManifests env client keys codec tenant) (\<lambda>manifests.
     thenDo (liftA (seal_plan manifests (hd records) (last records) contentSha256)) (\<lambda>plan.
     case plan of
       Some existing \<Rightarrow> pureA existing
     | None \<Rightarrow>
         let manifest = segment_manifest (tenantPrefix keys codec tenant) tenant records contentSha256
               (iso_of_ms (now (re_host (sv_retention env))));
             segmentKey = str_prop manifest ''segmentKey'' in
         thenDo (oc_put client segmentKey body) (\<lambda>_.
         thenDo (liftA (canonicalJson manifest)) (\<lambda>text.
         thenDo (oc_put client (segmentKey @ MANIFEST_SUFFIX) (utf8_encode text)) (\<lambda>_.
         pureA manifest))))))))"

section \<open>Reading and verifying\<close>

definition parseArchivedRecord :: "staging_env \<Rightarrow> chain_codec \<Rightarrow> string \<Rightarrow> string \<Rightarrow> jsval throws" where
  "parseArchivedRecord env codec tenant line =
     (let failed = Inl (TypeError ''archived record integrity check failed'') in
      case json_parse (sv_number env) line of
        Inl _ \<Rightarrow> failed
      | Inr record \<Rightarrow>
          andThen (cc_tenantOf codec record) (\<lambda>t.
          if t \<noteq> JStr tenant then failed
          else andThen (canonicalJson record) (\<lambda>text.
            if text \<noteq> line then failed
            else andThen (cc_rehash codec record) (\<lambda>d.
              if js_prop record ''hash'' \<noteq> JStr d then failed else Inr record))))"

text \<open>The comparison of the ends; \<open>records[0]!\<close> is \<open>undefined\<close> for no records.\<close>

definition check_ends :: "jsval \<Rightarrow> jsval list \<Rightarrow> unit throws" where
  "check_ends manifest records =
     (let first = (if records = [] then JUndefined else hd records); final = (if records = [] then JUndefined else last records) in
      andThen (js_member first ''sequence'') (\<lambda>low.
      throwUnless (strictly_equal low (js_prop manifest ''fromSequence'') \<and>
          strictly_equal (js_prop final ''sequence'') (js_prop manifest ''toSequence'') \<and>
          strictly_equal (js_prop first ''previousHash'') (js_prop manifest ''firstPreviousHash'') \<and>
          strictly_equal (js_prop final ''hash'') (js_prop manifest ''lastHash''))
        (TypeError ''archived segment integrity check failed'')))"

definition readSegment :: "staging_env \<Rightarrow> 'p object_client \<Rightarrow> chain_codec \<Rightarrow> jsval \<Rightarrow> ('p, jsval list) action" where
  "readSegment env client codec manifest =
     thenDo (oc_get client (str_prop manifest ''segmentKey'')) (\<lambda>body.
     case body of
       None \<Rightarrow> liftA (Inl (TypeError ''archived segment is missing''))
     | Some body \<Rightarrow>
         thenDo (checkThat (js_prop manifest ''contentSha256'' = JStr (re_sha_bytes (sv_retention env) body))
            ''archived segment integrity check failed'') (\<lambda>_.
         let lines = filter (\<lambda>line. line \<noteq> []) (split_on LF (utf8_decode (sv_mark env) body)) in
         thenDo (checkThat (js_prop manifest ''recordCount'' = JNum (NInt (int (length lines))))
            ''archived segment integrity check failed'') (\<lambda>_.
         thenDo (liftA (collect (map (parseArchivedRecord env codec (str_prop manifest ''tenantId'')) lines))) (\<lambda>records.
         thenDo (liftA (check_ends manifest records)) (\<lambda>_.
         pureA records)))))"

text \<open>The loop over the manifests with the records read so far; \<open>Inl\<close> is \<open>failure(count, reason)\<close>.\<close>

fun gather_segments ::
  "staging_env \<Rightarrow> 'p object_client \<Rightarrow> chain_codec \<Rightarrow> jsval option \<Rightarrow> jsval list \<Rightarrow> jsval list \<Rightarrow> ('p, (nat \<times> string) + jsval list) action" where
  "gather_segments env client codec previous records [] = pureA (Inr records)"
| "gather_segments env client codec previous records (manifest # rest) =
     (if (case previous of None \<Rightarrow> False | Some p \<Rightarrow>
            int_prop manifest ''fromSequence'' \<noteq> int_prop p ''toSequence'' + 1 \<or>
            \<not> strictly_equal (js_prop manifest ''firstPreviousHash'') (js_prop p ''lastHash''))
      then pureA (Inl (length records, ''archived segments are not contiguous''))
      else (\<lambda>p. case readSegment env client codec manifest p of
          (Inr found, p') \<Rightarrow> gather_segments env client codec (Some manifest) (records @ found) rest p'
        | (Inl (TypeError reason), p') \<Rightarrow> (Inr (Inl (length records, reason)), p')
        | (Inl e, p') \<Rightarrow> (Inl e, p')))"

definition archive_failure :: "jsval list \<Rightarrow> nat \<Rightarrow> string \<Rightarrow> archive_verification" where
  "archive_failure manifests found reason = \<lparr>av_ok = False, av_segmentCount = int (length manifests),
     av_recordCount = int found, av_verification = None, av_reason = Some reason\<rparr>"

definition verifyArchive ::
  "staging_env \<Rightarrow> 'p object_client \<Rightarrow> string \<Rightarrow> chain_codec \<Rightarrow> string \<Rightarrow> ('p, archive_verification) action" where
  "verifyArchive env client keys codec tenant =
     thenDo (liftA (assertNonEmpty tenant ''tenantId'')) (\<lambda>_.
     thenDo (listManifests env client keys codec tenant) (\<lambda>manifests.
     if manifests = [] then pureA \<lparr>av_ok = True, av_segmentCount = 0, av_recordCount = 0, av_verification = None, av_reason = None\<rparr>
     else if int_prop (hd manifests) ''fromSequence'' \<noteq> 1
     then pureA (archive_failure manifests 0 ''archive does not start at the tenant chain origin'')
     else thenDo (gather_segments env client codec None [] manifests) (\<lambda>gathered.
       case gathered of
         Inl (found, reason) \<Rightarrow> pureA (archive_failure manifests found reason)
       | Inr records \<Rightarrow>
           thenDo (liftA (cc_verifyChain codec records)) (\<lambda>verification.
           pureA \<lparr>av_ok = (verification = VerOk), av_segmentCount = int (length manifests), av_recordCount = int (length records),
             av_verification = Some verification,
             av_reason = (if verification = VerOk then None else Some ''archived chain verification failed'')\<rparr>))))"

definition listSegments ::
  "staging_env \<Rightarrow> 'p object_client \<Rightarrow> string \<Rightarrow> chain_codec \<Rightarrow> string \<Rightarrow> ('p, jsval list) action" where
  "listSegments env client keys codec tenant =
     thenDo (liftA (assertNonEmpty tenant ''tenantId'')) (\<lambda>_. listManifests env client keys codec tenant)"

section \<open>The archive of events and edges\<close>

text \<open>\<open>record.event.scope?.tenantId\<close> and \<open>record.edge.scope?.tenantId\<close>\<close>

definition member_tenant :: "string \<Rightarrow> jsval \<Rightarrow> jsval throws" where
  "member_tenant member record =
     andThen (js_member record member) (\<lambda>v. andThen (js_member v ''scope'') (\<lambda>scope. Inr (js_prop scope ''tenantId'')))"

text \<open>\<open>verifyAuditRecords\<close> and \<open>verifyEvidenceEdgeRecords\<close> on parsed records: the last sequence and hash of
  each tenant.\<close>

fun verify_parsed_from ::
  "digest \<Rightarrow> string \<Rightarrow> (jsval \<rightharpoonup> int \<times> jsval) \<Rightarrow> nat \<Rightarrow> jsval list \<Rightarrow> verification_result throws" where
  "verify_parsed_from sha member tenantState index [] = Inr VerOk"
| "verify_parsed_from sha member tenantState index (record # rest) =
     andThen (member_tenant member record) (\<lambda>tenant.
     let (sequence, previousHash) = (case tenantState tenant of None \<Rightarrow> (0, JNull) | Some st \<Rightarrow> st) in
     if \<not> is_truthy tenant then Inr (VerFail index missing_tenant_scope)
     else if js_prop record ''hashAlgorithm'' \<noteq> JStr HASH_ALGORITHM then Inr (VerFail index unsupported_hash_algorithm)
     else if js_prop record ''canonicalization'' \<noteq> JStr CANONICALIZATION then Inr (VerFail index unsupported_canonicalization)
     else if js_prop record ''sequence'' \<noteq> JNum (NInt (sequence + 1)) then Inr (VerFail index sequence_mismatch)
     else if js_prop record ''previousHash'' \<noteq> previousHash then Inr (VerFail index previous_hash_mismatch)
     else andThen (hashParsedRecord sha record) (\<lambda>expectedHash.
       if js_prop record ''hash'' \<noteq> JStr expectedHash then Inr (VerFail index hash_mismatch)
       else verify_parsed_from sha member (tenantState(tenant \<mapsto> (sequence + 1, JStr expectedHash))) (Suc index) rest))"

definition record_codec :: "digest \<Rightarrow> string \<Rightarrow> string \<Rightarrow> chain_codec" where
  "record_codec sha chainSegment member = \<lparr>cc_chainSegment = chainSegment, cc_tenantOf = member_tenant member,
     cc_rehash = hashParsedRecord sha, cc_verifyChain = verify_parsed_from sha member (\<lambda>_. None) 0\<rparr>"

definition event_codec :: "digest \<Rightarrow> chain_codec" where
  "event_codec sha = record_codec sha ''events'' ''event''"

definition edge_codec :: "digest \<Rightarrow> chain_codec" where
  "edge_codec sha = record_codec sha ''edges'' ''edge''"

definition DEFAULT_ARCHIVE_PREFIX :: string where
  "DEFAULT_ARCHIVE_PREFIX = ''veritio-archive''"

record tenant_verification =
  tv_ok :: bool
  tv_audit :: archive_verification
  tv_edges :: archive_verification

record 'p object_archive =
  oa_sealSegment :: "jsval list \<Rightarrow> ('p, jsval) action"
  oa_sealEdgeSegment :: "jsval list \<Rightarrow> ('p, jsval) action"
  oa_listSegments :: "string \<Rightarrow> ('p, jsval list) action"
  oa_listEdgeSegments :: "string \<Rightarrow> ('p, jsval list) action"
  oa_readSegment :: "jsval \<Rightarrow> ('p, jsval list) action"
  oa_readEdgeSegment :: "jsval \<Rightarrow> ('p, jsval list) action"
  oa_verifyTenant :: "string \<Rightarrow> ('p, tenant_verification) action"

definition verifyTenant ::
  "staging_env \<Rightarrow> 'p object_client \<Rightarrow> string \<Rightarrow> string \<Rightarrow> ('p, tenant_verification) action" where
  "verifyTenant env client keys tenant =
     (let sha = re_sha (sv_retention env) in
      thenDo (verifyArchive env client keys (event_codec sha) tenant) (\<lambda>audit.
      thenDo (verifyArchive env client keys (edge_codec sha) tenant) (\<lambda>edges.
      pureA \<lparr>tv_ok = (av_ok audit \<and> av_ok edges), tv_audit = audit, tv_edges = edges\<rparr>)))"

definition createObjectAuditArchive :: "staging_env \<Rightarrow> 'p object_client \<Rightarrow> string option \<Rightarrow> 'p object_archive" where
  "createObjectAuditArchive env client keys =
     (let keys = (case keys of None \<Rightarrow> DEFAULT_ARCHIVE_PREFIX | Some k \<Rightarrow> k);
          events = event_codec (re_sha (sv_retention env)); edges = edge_codec (re_sha (sv_retention env)) in
      \<lparr>oa_sealSegment = sealSegment env client keys events, oa_sealEdgeSegment = sealSegment env client keys edges,
       oa_listSegments = listSegments env client keys events, oa_listEdgeSegments = listSegments env client keys edges,
       oa_readSegment = readSegment env client events, oa_readEdgeSegment = readSegment env client edges,
       oa_verifyTenant = verifyTenant env client keys\<rparr>)"

section \<open>Draining an audit store\<close>

text \<open>The loop \<open>for (;;)\<close>, over a page of the store's listing and the archive's \<open>sealSegment\<close>. It need not
  end for a store that lists forever.\<close>

partial_function (option) drain_tail ::
  "(jsval list \<Rightarrow> ('p, jsval) action) \<Rightarrow> (int \<Rightarrow> ('p, audit_record list) action) \<Rightarrow> int \<Rightarrow> int \<Rightarrow> jsval list \<Rightarrow> 'p \<Rightarrow>
    (jsval list throws \<times> 'p) option" where
  "drain_tail seal page limit afterSequence already p =
     (case page afterSequence p of
        (Inl e, p1) \<Rightarrow> Some (Inl e, p1)
      | (Inr batch, p1) \<Rightarrow>
          if batch = [] then Some (Inr already, p1)
          else (case seal (map record_value batch) p1 of
              (Inl e, p2) \<Rightarrow> Some (Inl e, p2)
            | (Inr manifest, p2) \<Rightarrow>
                if int (length batch) < limit then Some (Inr (already @ [manifest]), p2)
                else drain_tail seal page limit (rec_sequence (last batch)) (already @ [manifest]) p2))"

definition archiveAuditStoreTenant ::
  "'p object_archive \<Rightarrow> (int \<Rightarrow> int \<Rightarrow> ('p, audit_record list) action) \<Rightarrow> string \<Rightarrow> jsnumber option \<Rightarrow> 'p \<Rightarrow>
    (jsval list throws \<times> 'p) option" where
  "archiveAuditStoreTenant archive page tenant segmentRecordCount p =
     (case (case segmentRecordCount of None \<Rightarrow> NInt 1000 | Some n \<Rightarrow> n) of
        NInt limit \<Rightarrow>
          if limit < 1 then Some (Inl (TypeError ''segmentRecordCount must be a positive integer''), p)
          else (case thenDo (liftA (assertNonEmpty tenant ''tenantId'')) (\<lambda>_. oa_listSegments archive tenant) p of
              (Inl e, p1) \<Rightarrow> Some (Inl e, p1)
            | (Inr manifests, p1) \<Rightarrow>
                drain_tail (oa_sealSegment archive) (\<lambda>after. page after limit) limit
                  (case last_of manifests of None \<Rightarrow> 0 | Some m \<Rightarrow> int_prop m ''toSequence'') [] p1)
      | _ \<Rightarrow> Some (Inl (TypeError ''segmentRecordCount must be a positive integer''), p))"

text \<open>\<open>store.list({ tenantId }, { afterSequence, limit })\<close> of a memory store that does not change meanwhile.\<close>

definition memory_pages :: "memory_store \<Rightarrow> string \<Rightarrow> int \<Rightarrow> int \<Rightarrow> ('p, audit_record list) action" where
  "memory_pages s tenant after limit =
     liftA (list_records s tenant \<lparr>lo_afterSequence = Some (NInt after), lo_limit = Some (NInt limit)\<rparr>)"

end
