(* ===== verification/ArchiveSegments.thy ===== *)
theory ArchiveSegments
  imports ObjectArchive
begin

text \<open>
  The sealed segments of the object archive over a client that keeps its promises: what a verified
  archive holds, what the invariant of an archive is, and that listing, reading, sealing and verifying
  follow it.
\<close>

section \<open>The client of the archive\<close>

text \<open>What the archive needs of its client, which never deletes.\<close>

locale archive_store =
  fixes client :: "'p object_client" and objects :: "'p \<Rightarrow> string \<Rightarrow> bytes option"
  assumes get_result: "oc_get client k p = (Inr b, p') \<Longrightarrow> b = objects p k"
    and get_keeps: "oc_get client k p = (r, p') \<Longrightarrow> objects p' = objects p"
    and put_result: "oc_put client k body p = (Inr u, p') \<Longrightarrow> objects p' = (objects p)(k \<mapsto> body)"
    and put_keeps: "oc_put client k body p = (r', p') \<Longrightarrow> objects p' = objects p \<or> objects p' = (objects p)(k \<mapsto> body)"
    and list_result: "oc_list client keys p = (Inr ks, p') \<Longrightarrow> distinct ks \<and> set ks = {k. prefix keys k \<and> objects p k \<noteq> None}"
    and list_keeps: "oc_list client keys p = (l, p') \<Longrightarrow> objects p' = objects p"

locale steady_archive_store = archive_store client objects
  for client :: "'p object_client" and objects +
  assumes get_returns: "\<exists>b p'. oc_get client k p = (Inr b, p')"
    and put_returns: "\<exists>p'. oc_put client k body p = (Inr (), p')"
    and list_returns: "\<exists>ks p'. oc_list client keys p = (Inr ks, p')"

text \<open>Every client of the staging archive is one.\<close>

sublocale object_store < archive: archive_store client objects
  by unfold_locales (blast dest: get_result get_keeps put_result put_keeps list_result list_keeps)+

sublocale reliable_store < archive: steady_archive_store client objects
  by unfold_locales (blast intro: get_returns put_returns list_returns)+

section \<open>What a verified archive holds\<close>

definition manifest_at :: "staging_env \<Rightarrow> (string \<Rightarrow> bytes option) \<Rightarrow> string \<Rightarrow> jsval \<Rightarrow> bool" where
  "manifest_at env store k m \<longleftrightarrow> (\<exists>body. store k = Some body \<and> parseSegmentManifest env (utf8_decode (sv_mark env) body) = Inr m)"

definition manifest_keys :: "(string \<Rightarrow> bytes option) \<Rightarrow> string \<Rightarrow> string set" where
  "manifest_keys store tenantKeys = {k. prefix tenantKeys k \<and> suffix MANIFEST_SUFFIX k \<and> store k \<noteq> None}"

text \<open>The records of a segment: canonical lines of its tenant, with their hashes, between the ends that
  its manifest names.\<close>

definition holds_archived :: "staging_env \<Rightarrow> chain_codec \<Rightarrow> (string \<Rightarrow> bytes option) \<Rightarrow> jsval \<Rightarrow> jsval list \<Rightarrow> bool" where
  "holds_archived env codec store m rs \<longleftrightarrow>
     (\<exists>body. store (str_prop m ''segmentKey'') = Some body \<and>
        js_prop m ''contentSha256'' = JStr (re_sha_bytes (sv_retention env) body) \<and>
        map canonicalJson rs = map Inr (filter (\<lambda>line. line \<noteq> []) (split_on LF (utf8_decode (sv_mark env) body)))) \<and>
     js_prop m ''recordCount'' = JNum (NInt (int (length rs))) \<and> check_ends m rs = Inr () \<and>
     list_all (\<lambda>r. cc_tenantOf codec r = Inr (JStr (str_prop m ''tenantId'')) \<and>
       (\<exists>d. cc_rehash codec r = Inr d \<and> js_prop r ''hash'' = JStr d)) rs"

lemma parseArchivedRecord_sound:
  "parseArchivedRecord env codec t line = Inr r \<Longrightarrow> canonicalJson r = Inr line \<and> cc_tenantOf codec r = Inr (JStr t) \<and>
     (\<exists>d. cc_rehash codec r = Inr d \<and> js_prop r ''hash'' = JStr d)"
  by (auto simp: parseArchivedRecord_def Let_def split: sum.splits if_splits)

lemma readSegment_E:
  assumes "readSegment env client codec m p = (Inr rs, p')"
  obtains body where "oc_get client (str_prop m ''segmentKey'') p = (Inr (Some body), p')"
    "js_prop m ''contentSha256'' = JStr (re_sha_bytes (sv_retention env) body)"
    "js_prop m ''recordCount'' = JNum (NInt (int (length (filter (\<lambda>line. line \<noteq> []) (split_on LF (utf8_decode (sv_mark env) body))))))"
    "collect (map (parseArchivedRecord env codec (str_prop m ''tenantId''))
       (filter (\<lambda>line. line \<noteq> []) (split_on LF (utf8_decode (sv_mark env) body)))) = Inr rs" "check_ends m rs = Inr ()"
proof -
  from assms [unfolded readSegment_def] obtain b p1 where g: "oc_get client (str_prop m ''segmentKey'') p = (Inr b, p1)"
    and r: "(case b of None \<Rightarrow> liftA (Inl (TypeError ''archived segment is missing''))
     | Some body \<Rightarrow>
         thenDo (checkThat (js_prop m ''contentSha256'' = JStr (re_sha_bytes (sv_retention env) body))
            ''archived segment integrity check failed'') (\<lambda>_.
         let lines = filter (\<lambda>line. line \<noteq> []) (split_on LF (utf8_decode (sv_mark env) body)) in
         thenDo (checkThat (js_prop m ''recordCount'' = JNum (NInt (int (length lines))))
            ''archived segment integrity check failed'') (\<lambda>_.
         thenDo (liftA (collect (map (parseArchivedRecord env codec (str_prop m ''tenantId'')) lines))) (\<lambda>records.
         thenDo (liftA (check_ends m records)) (\<lambda>_.
         pureA records))))) p1 = (Inr rs, p')"
    by (rule thenDo_E)
  then obtain body where b: "b = Some body" by (cases b) auto
  show thesis using r unfolding b option.case Let_def
    by (elim thenDo_check_E thenDo_lift_E) (use g b that in force)
qed

lemma sort_key_map: "sort_key f (map g xs) = map g (sort_key (\<lambda>x. f (g x)) xs)"
proof -
  have "insort_key f (g x) (map g ys) = map g (insort_key (\<lambda>x. f (g x)) x ys)" for x ys
    by (induction ys) auto
  then show ?thesis by (induction xs) auto
qed

lemma sort_key_permutes:
  assumes "list_all2 P ks xs" "distinct ks"
  obtains ks' where "list_all2 P ks' (sort_key f xs)" "distinct ks'" "set ks' = set ks"
proof
  let ?z = "sort_key (\<lambda>kx. f (snd kx)) (zip ks xs)"
  have l: "length ks = length xs" using assms(1) by (rule list_all2_lengthD)
  have "map snd ?z = sort_key f xs"
    using l sort_key_map [of f snd "zip ks xs"] by simp
  moreover from assms(1) l have "list_all2 P (map fst ?z) (map snd ?z)" by (fastforce simp: list_all2_iff zip_map_fst_snd)
  ultimately show "list_all2 P (map fst ?z) (sort_key f xs)" by (simp only:)
  have "mset (map fst ?z) = mset (map fst (zip ks xs))" by simp
  also have "\<dots> = mset ks" using l by simp
  finally have m: "mset (map fst ?z) = mset ks" .
  from assms(2) mset_eq_imp_distinct_iff [OF m] show "distinct (map fst ?z)" by simp
  from mset_eq_setD [OF m] show "set (map fst ?z) = set ks" .
qed

context archive_store
begin

lemma read_manifests_sound:
  "read_manifests env client ks p = (Inr ms, p') \<Longrightarrow> objects p' = objects p \<and> list_all2 (manifest_at env (objects p)) ks ms"
proof (induction ks arbitrary: p ms)
  case (Cons k ks)
  from Cons.prems obtain b p1 where g: "oc_get client k p = (Inr b, p1)" by (auto elim: thenDo_E)
  have p1: "objects p1 = objects p" "b = objects p k" using get_keeps [OF g] get_result [OF g] .
  from Cons.prems g obtain body where b: "b = Some body" by (cases b) (auto simp: thenDo_def)
  from Cons.prems g b obtain m ms' where m: "parseSegmentManifest env (utf8_decode (sv_mark env) body) = Inr m"
      "read_manifests env client ks p1 = (Inr ms', p')" "ms = m # ms'"
    by (simp add: thenDo_def [of "oc_get _ _"]) (elim thenDo_lift_E thenDo_E, auto)
  from Cons.IH [OF m(2)] m(1,3) b p1 show ?case by (auto simp: manifest_at_def)
qed simp

lemma listManifests_sound:
  assumes "listManifests env client keys codec t p = (Inr ms, p')"
  shows "objects p' = objects p" "sorted (map (\<lambda>m. int_prop m ''fromSequence'') ms)"
    "\<exists>ks. distinct ks \<and> set ks = manifest_keys (objects p) (tenantPrefix keys codec t) \<and> list_all2 (manifest_at env (objects p)) ks ms"
proof -
  from assms [unfolded listManifests_def] obtain l p1 ms' where l: "oc_list client (tenantPrefix keys codec t) p = (Inr l, p1)"
      "read_manifests env client (sort (filter (\<lambda>key. suffix MANIFEST_SUFFIX key) l)) p1 = (Inr ms', p')"
      "ms = sort_key (\<lambda>m. int_prop m ''fromSequence'') ms'"
    by (elim thenDo_E) auto
  note p1 = list_keeps [OF l(1)] and set = list_result [OF l(1)]
  from read_manifests_sound [OF l(2)] p1 show "objects p' = objects p" by simp
  show "sorted (map (\<lambda>m. int_prop m ''fromSequence'') ms)" by (simp add: l(3))
  from read_manifests_sound [OF l(2)] have
    "list_all2 (manifest_at env (objects p)) (sort (filter (\<lambda>key. suffix MANIFEST_SUFFIX key) l)) ms'" by (simp add: p1)
  from sort_key_permutes [OF this] set obtain ks where "list_all2 (manifest_at env (objects p)) ks ms" "distinct ks"
    "set ks = set (sort (filter (\<lambda>key. suffix MANIFEST_SUFFIX key) l))" unfolding l(3) by auto
  then show "\<exists>ks. distinct ks \<and> set ks = manifest_keys (objects p) (tenantPrefix keys codec t) \<and> list_all2 (manifest_at env (objects p)) ks ms"
    using set by (intro exI [of _ ks]) (auto simp: manifest_keys_def)
qed

lemma readSegment_sound:
  assumes "readSegment env client codec m p = (Inr rs, p')"
  shows "objects p' = objects p" "holds_archived env codec (objects p) m rs"
proof -
  from assms obtain body where r: "oc_get client (str_prop m ''segmentKey'') p = (Inr (Some body), p')"
    "js_prop m ''contentSha256'' = JStr (re_sha_bytes (sv_retention env) body)"
    "js_prop m ''recordCount'' = JNum (NInt (int (length (filter (\<lambda>line. line \<noteq> []) (split_on LF (utf8_decode (sv_mark env) body))))))"
    "collect (map (parseArchivedRecord env codec (str_prop m ''tenantId''))
       (filter (\<lambda>line. line \<noteq> []) (split_on LF (utf8_decode (sv_mark env) body)))) = Inr rs" "check_ends m rs = Inr ()"
    by (rule readSegment_E)
  show "objects p' = objects p" using r(1) by (rule get_keeps)
  have o: "objects p (str_prop m ''segmentKey'') = Some body" using get_result [OF r(1)] by simp
  let ?lines = "filter (\<lambda>line. line \<noteq> []) (split_on LF (utf8_decode (sv_mark env) body))"
  have each: "list_all2 (\<lambda>line r. parseArchivedRecord env codec (str_prop m ''tenantId'') line = Inr r) ?lines rs"
    using r(4) by (simp add: collect_map_iff)
  then have "length rs = length ?lines" by (simp add: list_all2_lengthD)
  moreover from each have "map canonicalJson rs = map Inr ?lines \<and> list_all (\<lambda>r. cc_tenantOf codec r = Inr (JStr (str_prop m ''tenantId'')) \<and>
       (\<exists>d. cc_rehash codec r = Inr d \<and> js_prop r ''hash'' = JStr d)) rs"
    by (induction rule: list_all2_induct) (auto dest: parseArchivedRecord_sound)
  ultimately show "holds_archived env codec (objects p) m rs" using r(2,3,5) o by (auto simp: holds_archived_def)
qed

end

section \<open>The chain of the records read\<close>

definition continues :: "jsval \<Rightarrow> jsval \<Rightarrow> bool" where
  "continues p m \<longleftrightarrow> int_prop m ''fromSequence'' = int_prop p ''toSequence'' + 1 \<and>
     strictly_equal (js_prop m ''firstPreviousHash'') (js_prop p ''lastHash'')"

fun contiguous :: "jsval option \<Rightarrow> jsval list \<Rightarrow> bool" where
  "contiguous previous [] = True"
| "contiguous previous (m # ms) = ((case previous of None \<Rightarrow> True | Some p \<Rightarrow> continues p m) \<and> contiguous (Some m) ms)"

context archive_store
begin

lemma gather_sound:
  "gather_segments env client codec previous rs ms p = (Inr (Inr found), p') \<Longrightarrow> objects p' = objects p \<and>
    contiguous previous ms \<and> (\<exists>bs. list_all2 (holds_archived env codec (objects p)) ms bs \<and> found = rs @ concat bs)"
proof (induction ms arbitrary: previous rs p)
  case (Cons m ms)
  obtain r p1 where g: "readSegment env client codec m p = (r, p1)" by fastforce
  from Cons.prems have c: "case previous of None \<Rightarrow> True | Some q \<Rightarrow> continues q m"
    by (auto simp: continues_def split: option.splits if_splits)
  then have "(case readSegment env client codec m p of
          (Inr f, p') \<Rightarrow> gather_segments env client codec (Some m) (rs @ f) ms p'
        | (Inl (TypeError reason), p') \<Rightarrow> (Inr (Inl (length rs, reason)), p')
        | (Inl e, p') \<Rightarrow> (Inl e, p')) = (Inr (Inr found), p')"
    using Cons.prems by (cases previous) (simp_all add: continues_def)
  with g obtain f where f: "r = Inr f" "gather_segments env client codec (Some m) (rs @ f) ms p1 = (Inr (Inr found), p')"
    by (cases r) (auto split: js_error.splits)
  note s = readSegment_sound [OF g [unfolded f(1)]]
  from Cons.IH [OF f(2)] s obtain bs where "objects p' = objects p" "contiguous (Some m) ms"
      "list_all2 (holds_archived env codec (objects p)) ms bs" "found = (rs @ f) @ concat bs" by auto
  with c s(2) show ?case by (intro conjI exI [of _ "f # bs"]) (auto split: option.splits)
qed auto

end

text \<open>A record that the verifiers accept by itself.\<close>

definition accepted_record :: "digest \<Rightarrow> string \<Rightarrow> string \<Rightarrow> jsval \<Rightarrow> bool" where
  "accepted_record sha member t r \<longleftrightarrow> member_tenant member r = Inr (JStr t) \<and> js_prop r ''hashAlgorithm'' = JStr HASH_ALGORITHM \<and>
     js_prop r ''canonicalization'' = JStr CANONICALIZATION \<and> (\<exists>d. hashParsedRecord sha r = Inr d \<and> js_prop r ''hash'' = JStr d)"

definition parsed_state :: "(jsval \<rightharpoonup> int \<times> jsval) \<Rightarrow> string \<Rightarrow> int \<times> jsval" where
  "parsed_state st t = (case st (JStr t) of None \<Rightarrow> (0, JNull) | Some s \<Rightarrow> s)"

lemma verify_parsed_Cons:
  assumes "member_tenant member r = Inr (JStr t)" "t \<noteq> []"
  shows "verify_parsed_from sha member st i (r # rs) = Inr VerOk \<longleftrightarrow> accepted_record sha member t r \<and>
    js_prop r ''sequence'' = JNum (NInt (fst (parsed_state st t) + 1)) \<and> js_prop r ''previousHash'' = snd (parsed_state st t) \<and>
    verify_parsed_from sha member (st(JStr t \<mapsto> (fst (parsed_state st t) + 1, js_prop r ''hash''))) (Suc i) rs = Inr VerOk"
proof -
  have t: "is_truthy (JStr t)" using assms(2) by (simp add: is_truthy_def)
  obtain n h where s: "parsed_state st t = (n, h)" by fastforce
  show ?thesis
    by (cases "hashParsedRecord sha r") (auto simp: assms t accepted_record_def s parsed_state_def [symmetric] Let_def)
qed

lemma verify_parsed_block:
  "\<forall>r \<in> set rs. member_tenant member r = Inr (JStr t) \<Longrightarrow> t \<noteq> [] \<Longrightarrow> rs \<noteq> [] \<Longrightarrow>
    verify_parsed_from sha member st i (rs @ rest) = Inr VerOk \<longleftrightarrow> list_all (accepted_record sha member t) rs \<and>
      in_sequence (fst (parsed_state st t)) (snd (parsed_state st t)) rs \<and>
      verify_parsed_from sha member (st(JStr t \<mapsto> (fst (parsed_state st t) + int (length rs), js_prop (last rs) ''hash'')))
        (i + length rs) rest = Inr VerOk"
proof (induction rs arbitrary: st i)
  case (Cons r rs)
  then have r: "member_tenant member r = Inr (JStr t)" "t \<noteq> []" by simp_all
  let ?st = "st(JStr t \<mapsto> (fst (parsed_state st t) + 1, js_prop r ''hash''))"
  have p: "parsed_state ?st t = (fst (parsed_state st t) + 1, js_prop r ''hash'')" by (simp add: parsed_state_def)
  show ?case
  proof (cases "rs = []")
    case True
    then show ?thesis unfolding append_Cons verify_parsed_Cons [OF r] by (simp add: in_sequence_Cons fun_upd_def)
  next
    case False
    have eq: "?st(JStr t \<mapsto> (fst (parsed_state st t) + 1 + int (length rs), js_prop (last rs) ''hash'')) =
        st(JStr t \<mapsto> (fst (parsed_state st t) + int (length (r # rs)), js_prop (last rs) ''hash''))" by (simp add: add.assoc)
    have mem: "\<forall>r \<in> set rs. member_tenant member r = Inr (JStr t)" using Cons.prems(1) by simp
    note IH = Cons.IH [OF mem r(2) False, of ?st "Suc i", unfolded p fst_conv snd_conv eq]
    show ?thesis unfolding append_Cons verify_parsed_Cons [OF r] IH last_ConsR [OF False]
      by (simp only: list.pred_inject in_sequence_Cons add_Suc add_Suc_right add_0_right list.size) blast
  qed
qed simp

text \<open>The records between the ends of a manifest.\<close>

lemma check_ends_ok:
  "check_ends m rs = Inr () \<longleftrightarrow> rs \<noteq> [] \<and> js_member (hd rs) ''sequence'' = Inr (js_prop (hd rs) ''sequence'') \<and>
     strictly_equal (js_prop (hd rs) ''sequence'') (js_prop m ''fromSequence'') \<and>
     strictly_equal (js_prop (last rs) ''sequence'') (js_prop m ''toSequence'') \<and>
     strictly_equal (js_prop (hd rs) ''previousHash'') (js_prop m ''firstPreviousHash'') \<and>
     strictly_equal (js_prop (last rs) ''hash'') (js_prop m ''lastHash'')"
proof (cases rs)
  case (Cons r rs')
  then show ?thesis
    by (cases r) (auto simp: check_ends_def Let_def js_member_def andThen_throwUnless throwUnless_def split: if_splits)
qed (simp add: check_ends_def js_member_def)

lemma strictly_equal_eq: "strictly_equal a b \<Longrightarrow> a = b"
  by (simp add: strictly_equal_def)

definition one_chain :: "digest \<Rightarrow> string \<Rightarrow> string \<Rightarrow> int \<Rightarrow> jsval \<Rightarrow> jsval list \<Rightarrow> bool" where
  "one_chain sha member t n h rs \<longleftrightarrow> list_all (accepted_record sha member t) rs \<and> in_sequence n h rs"

lemma one_chain_append:
  "one_chain sha member t n h (xs @ ys) \<longleftrightarrow> one_chain sha member t n h xs \<and>
     one_chain sha member t (n + int (length xs)) (if xs = [] then h else js_prop (last xs) ''hash'') ys"
  by (auto simp: one_chain_def in_sequence_append)

lemma manifest_at_valid: "manifest_at env store k m \<Longrightarrow> valid_segment_manifest m"
  by (cases "json_parse (sv_number env) (utf8_decode (sv_mark env) (the (store k)))")
    (auto simp: manifest_at_def parseSegmentManifest_def Let_def andThen_Inr_iff split: if_splits)

lemma valid_manifest_numbers:
  assumes "valid_segment_manifest m"
  shows "str_prop m ''tenantId'' \<noteq> []" "js_prop m ''fromSequence'' = JNum (NInt (int_prop m ''fromSequence''))"
    "js_prop m ''toSequence'' = JNum (NInt (int_prop m ''toSequence''))" "1 \<le> int_prop m ''fromSequence''"
  using assms not_blank_nonempty unfolding valid_segment_manifest_def by blast+

text \<open>Contiguous segments that verify are one chain of one tenant: a second tenant would have to start
  at sequence 1.\<close>

lemma segments_one_tenant:
  assumes "list_all2 (holds_archived env (record_codec sha chain member) store) ms bs" "\<forall>m \<in> set ms. valid_segment_manifest m"
    and "verify_parsed_from sha member st i (concat bs) = Inr VerOk"
    and "contiguous previous ms" "case previous of None \<Rightarrow> st = Map.empty \<and> (\<forall>m \<in> set (take 1 ms). str_prop m ''tenantId'' = t)
       | Some p \<Rightarrow> (\<forall>k. k \<noteq> JStr t \<longrightarrow> st k = None) \<and> st (JStr t) = Some (int_prop p ''toSequence'', h) \<and> 0 < int_prop p ''toSequence''"
  shows "(\<forall>m \<in> set ms. str_prop m ''tenantId'' = t) \<and> one_chain sha member t (fst (parsed_state st t)) (snd (parsed_state st t)) (concat bs)"
  using assms
proof (induction ms bs arbitrary: previous st i h rule: list_all2_induct)
  case Nil
  then show ?case by (simp add: one_chain_def)
next
  case (Cons m ms rs bs)
  let ?u = "str_prop m ''tenantId''"
  from Cons.prems(1) have v: "valid_segment_manifest m" by simp
  from Cons.hyps(1) have rs: "\<forall>r \<in> set rs. member_tenant member r = Inr (JStr ?u)" and ends: "check_ends m rs = Inr ()"
    by (auto simp: holds_archived_def record_codec_def list_all_iff)
  note e = ends [unfolded check_ends_ok]
  from Cons.prems(2) verify_parsed_block [OF rs valid_manifest_numbers(1) [OF v], of sha st i "concat bs"] e
  have b: "list_all (accepted_record sha member ?u) rs" "in_sequence (fst (parsed_state st ?u)) (snd (parsed_state st ?u)) rs"
    "verify_parsed_from sha member (st(JStr ?u \<mapsto> (fst (parsed_state st ?u) + int (length rs), js_prop (last rs) ''hash'')))
        (i + length rs) (concat bs) = Inr VerOk" by auto
  from e b(2) have "js_prop (hd rs) ''sequence'' = JNum (NInt (fst (parsed_state st ?u) + 1))"
    by (cases rs) (simp_all add: in_sequence_Cons)
  moreover have "js_prop (hd rs) ''sequence'' = js_prop m ''fromSequence''" using e strictly_equal_eq by blast
  ultimately have low: "int_prop m ''fromSequence'' = fst (parsed_state st ?u) + 1" using valid_manifest_numbers(2) [OF v] by simp
  have u: "?u = t"
  proof (rule ccontr)
    assume ne: "?u \<noteq> t"
    with Cons.prems(4) obtain p where p: "previous = Some p" "parsed_state st ?u = (0, JNull)" "0 < int_prop p ''toSequence''"
      by (auto simp: parsed_state_def split: option.splits)
    with Cons.prems(3) low show False by (simp add: continues_def)
  qed
  have last: "js_prop (last rs) ''sequence'' = JNum (NInt (fst (parsed_state st t) + int (length rs)))"
    using b(2) e u by (cases rs rule: rev_cases) (auto simp: in_sequence_append in_sequence_Cons)
  have "js_prop (last rs) ''sequence'' = js_prop m ''toSequence''" using e strictly_equal_eq by blast
  with last have to: "int_prop m ''toSequence'' = fst (parsed_state st t) + int (length rs)" using valid_manifest_numbers(3) [OF v] by simp
  let ?st = "st(JStr t \<mapsto> (int_prop m ''toSequence'', js_prop (last rs) ''hash''))"
  have st: "parsed_state ?st t = (fst (parsed_state st t) + int (length rs), js_prop (last rs) ''hash'')" by (simp add: parsed_state_def to)
  have "(\<forall>m \<in> set ms. str_prop m ''tenantId'' = t) \<and> one_chain sha member t (fst (parsed_state ?st t)) (snd (parsed_state ?st t)) (concat bs)"
  proof (rule Cons.IH [of ?st "i + length rs" "Some m"])
    have "0 < int_prop m ''toSequence''" using to low u valid_manifest_numbers(4) [OF v] e by (cases rs) auto
    then show "case Some m of None \<Rightarrow> ?st = Map.empty \<and> (\<forall>m \<in> set (take 1 ms). str_prop m ''tenantId'' = t)
       | Some p \<Rightarrow> (\<forall>k. k \<noteq> JStr t \<longrightarrow> ?st k = None) \<and> ?st (JStr t) = Some (int_prop p ''toSequence'', js_prop (last rs) ''hash'') \<and> 0 < int_prop p ''toSequence''"
      using Cons.prems(4) by (auto split: option.splits)
  qed (use Cons.prems b(3) u to in \<open>simp_all add: fun_upd_def\<close>)
  with b(1,2) u e st show ?case by (simp add: one_chain_append) (simp add: one_chain_def)
qed

context archive_store
begin

lemma verifyArchive_sound:
  assumes "verifyArchive env client keys (record_codec sha chain member) t p = (Inr v, p')" "av_ok v"
  shows "objects p' = objects p"
    "\<exists>ks ms bs u. distinct ks \<and> set ks = manifest_keys (objects p) (tenantPrefix keys (record_codec sha chain member) t) \<and>
      list_all2 (manifest_at env (objects p)) ks ms \<and> list_all2 (holds_archived env (record_codec sha chain member) (objects p)) ms bs \<and>
      (\<forall>m \<in> set ms. str_prop m ''tenantId'' = u) \<and> one_chain sha member u 0 JNull (concat bs) \<and>
      av_segmentCount v = int (length ms) \<and> av_recordCount v = int (length (concat bs))"
proof -
  let ?codec = "record_codec sha chain member"
  from assms(1) [unfolded verifyArchive_def] obtain ms p1 where l: "listManifests env client keys ?codec t p = (Inr ms, p1)"
    and r: "(if ms = [] then pureA \<lparr>av_ok = True, av_segmentCount = 0, av_recordCount = 0, av_verification = None, av_reason = None\<rparr>
     else if int_prop (hd ms) ''fromSequence'' \<noteq> 1
     then pureA (archive_failure ms 0 ''archive does not start at the tenant chain origin'')
     else thenDo (gather_segments env client ?codec None [] ms) (\<lambda>gathered.
       case gathered of
         Inl (found, reason) \<Rightarrow> pureA (archive_failure ms found reason)
       | Inr records \<Rightarrow>
           thenDo (liftA (cc_verifyChain ?codec records)) (\<lambda>verification.
           pureA \<lparr>av_ok = (verification = VerOk), av_segmentCount = int (length ms), av_recordCount = int (length records),
             av_verification = Some verification,
             av_reason = (if verification = VerOk then None else Some ''archived chain verification failed'')\<rparr>))) p1 = (Inr v, p')"
    by (elim thenDo_lift_E) (rule thenDo_E)
  from listManifests_sound [OF l] obtain ks where k: "objects p1 = objects p" "distinct ks"
      "set ks = manifest_keys (objects p) (tenantPrefix keys ?codec t)" "list_all2 (manifest_at env (objects p)) ks ms" by blast
  have "objects p' = objects p \<and> (\<exists>bs u. list_all2 (holds_archived env ?codec (objects p)) ms bs \<and>
      (\<forall>m \<in> set ms. str_prop m ''tenantId'' = u) \<and> one_chain sha member u 0 JNull (concat bs) \<and>
      av_segmentCount v = int (length ms) \<and> av_recordCount v = int (length (concat bs)))"
  proof (cases "ms = []")
    case True
    with r k(1) show ?thesis by (auto simp: one_chain_def)
  next
    case False
    from False assms(2) have "int_prop (hd ms) ''fromSequence'' = 1" using r by (auto simp: archive_failure_def split: if_splits)
    with r False obtain g p2 where g: "gather_segments env client ?codec None [] ms p1 = (Inr g, p2)"
      and r': "(case g of Inl (found, reason) \<Rightarrow> pureA (archive_failure ms found reason)
       | Inr records \<Rightarrow>
           thenDo (liftA (cc_verifyChain ?codec records)) (\<lambda>verification.
           pureA \<lparr>av_ok = (verification = VerOk), av_segmentCount = int (length ms), av_recordCount = int (length records),
             av_verification = Some verification,
             av_reason = (if verification = VerOk then None else Some ''archived chain verification failed'')\<rparr>)) p2 = (Inr v, p')"
      by (auto elim: thenDo_E)
    from r' assms(2) obtain rs where rs: "g = Inr rs" by (cases g) (auto simp: archive_failure_def)
    from r' [unfolded rs] assms(2) have v: "verify_parsed_from sha member Map.empty 0 rs = Inr VerOk" "p2 = p'"
        "av_segmentCount v = int (length ms)" "av_recordCount v = int (length rs)"
      by (auto simp: record_codec_def elim: thenDo_lift_E)
    from gather_sound [OF g [unfolded rs]] k(1) v(2) obtain bs where b: "objects p' = objects p" "contiguous None ms"
        "list_all2 (holds_archived env ?codec (objects p)) ms bs" "rs = concat bs" by auto
    have "\<forall>m \<in> set ms. valid_segment_manifest m"
      using k(4) manifest_at_valid by (metis list_all2_conv_all_nth in_set_conv_nth)
    from segments_one_tenant [OF b(3) this v(1) [unfolded b(4)] b(2), of "str_prop (hd ms) ''tenantId''"] False
    have "(\<forall>m \<in> set ms. str_prop m ''tenantId'' = str_prop (hd ms) ''tenantId'') \<and> one_chain sha member (str_prop (hd ms) ''tenantId'') 0 JNull (concat bs)"
      by (cases ms) (simp_all add: parsed_state_def)
    with b v show ?thesis by blast
  qed
  with k(2-4) show "objects p' = objects p"
    "\<exists>ks ms bs u. distinct ks \<and> set ks = manifest_keys (objects p) (tenantPrefix keys (record_codec sha chain member) t) \<and>
      list_all2 (manifest_at env (objects p)) ks ms \<and> list_all2 (holds_archived env (record_codec sha chain member) (objects p)) ms bs \<and>
      (\<forall>m \<in> set ms. str_prop m ''tenantId'' = u) \<and> one_chain sha member u 0 JNull (concat bs) \<and>
      av_segmentCount v = int (length ms) \<and> av_recordCount v = int (length (concat bs))" by blast+
qed

end

section \<open>Records and manifests read back\<close>

text \<open>A record that can be archived: a JSON value whose numbers read back and that the verifiers accept.\<close>

definition archivable :: "staging_env \<Rightarrow> string \<Rightarrow> string \<Rightarrow> jsval \<Rightarrow> bool" where
  "archivable env member t v \<longleftrightarrow> wf_value v \<and> readable (sv_number env) v \<and> accepted_record (re_sha (sv_retention env)) member t v \<and>
     (\<exists>line. canonicalJson v = Inr line) \<and> js_prop v ''sequence'' = JNum (NInt (int_prop v ''sequence'')) \<and>
     (js_prop v ''previousHash'' = JNull \<or> (\<exists>h. js_prop v ''previousHash'' = JStr h))"

definition same_envelope :: "jsval \<Rightarrow> jsval \<Rightarrow> bool" where
  "same_envelope w v \<longleftrightarrow> js_prop w ''sequence'' = js_prop v ''sequence'' \<and> js_prop w ''previousHash'' = js_prop v ''previousHash'' \<and>
     js_prop w ''hash'' = js_prop v ''hash'' \<and> canonicalJson w = canonicalJson v"

lemma js_prop_holder: "js_prop v k = x \<Longrightarrow> x \<noteq> JUndefined \<Longrightarrow> \<exists>kvs. v = JObj kvs \<and> get_prop kvs k = x"
  by (cases v) (auto simp: js_prop_def)

lemma wf_member: "wf_value (JObj kvs) \<Longrightarrow> wf_value (get_prop kvs k)"
  by (auto simp: get_prop_def wf_members_iff split: option.splits dest: map_of_SomeD)

lemma member_normal:
  assumes "normalizeForJson v = Inr w" "wf_value v" "k \<noteq> proto_key" "js_prop v k \<noteq> JUndefined"
  shows "normalizeForJson (js_prop v k) = Inr (js_prop w k)" "wf_value (js_prop v k)"
proof -
  from js_prop_holder [OF refl assms(4)] obtain kvs where k: "v = JObj kvs" "get_prop kvs k = js_prop v k" by blast
  from object_props [OF assms(1) [unfolded k(1)] _ assms(3)] assms(2) k
  show "normalizeForJson (js_prop v k) = Inr (js_prop w k)" by auto
  show "wf_value (js_prop v k)" using wf_member [of kvs k] assms(2) k by simp
qed

lemma member_tenant_iff:
  "member_tenant member v = Inr (JStr t) \<longleftrightarrow> js_prop (js_prop (js_prop v member) ''scope'') ''tenantId'' = JStr t"
proof
  assume a: "js_prop (js_prop (js_prop v member) ''scope'') ''tenantId'' = JStr t"
  from js_prop_holder [OF this] obtain x where x: "js_prop (js_prop v member) ''scope'' = JObj x" by auto
  from js_prop_holder [OF this] obtain y where y: "js_prop v member = JObj y" by auto
  from js_prop_holder [OF this] obtain z where "v = JObj z" by auto
  then show "member_tenant member v = Inr (JStr t)" using a x y by (simp add: member_tenant_def js_member_def)
next
  assume "member_tenant member v = Inr (JStr t)"
  then show "js_prop (js_prop (js_prop v member) ''scope'') ''tenantId'' = JStr t"
    by (auto simp: member_tenant_def js_member_def andThen_Inr_iff split: jsval.splits)
qed

lemma member_tenant_normal:
  assumes "normalizeForJson v = Inr w" "wf_value v" "member \<noteq> proto_key" "member_tenant member v = Inr (JStr t)"
  shows "member_tenant member w = Inr (JStr t)"
proof -
  note t = assms(4) [unfolded member_tenant_iff]
  from t have ne: "js_prop (js_prop v member) ''scope'' \<noteq> JUndefined" "js_prop v member \<noteq> JUndefined" by (auto simp: js_prop_def)
  note 1 = member_normal [OF assms(1-3) ne(2)]
  have "''scope'' \<noteq> proto_key" by (simp add: proto_key_def)
  note 2 = member_normal [OF 1 this ne(1)]
  from member_normal(1) [OF 2, of "''tenantId''"] t show ?thesis unfolding member_tenant_iff by (auto simp: proto_key_def)
qed

lemma hash_normal:
  assumes "normalizeForJson v = Inr w" "wf_value v" "js_prop v ''hash'' \<noteq> JUndefined"
  shows "hashParsedRecord sha w = hashParsedRecord sha v"
proof -
  from js_prop_holder [OF refl assms(3)] obtain kvs where k: "v = JObj kvs" by blast
  from assms(1) obtain ms where w: "w = JObj ms" unfolding k normalize_object_iff by blast
  from assms(2) k have d: "distinct (map fst kvs)" by simp
  from normal_filter [OF assms(1) [unfolded k w] d, of "\<lambda>k. k \<noteq> ''hash''"]
  have n: "normalizeForJson (without_hash v) = Inr (without_hash w)" by (simp add: k w without_hash_def)
  have "wf_value (without_hash v)" using assms(2) k by (auto simp: without_hash_def wf_members_iff distinct_map_filter)
  from normalize_idempotent [OF this n] n show ?thesis
    unfolding hashParsedRecord_def by (subst canonicalJson_eq_normal [of "without_hash w" "without_hash v"]) simp_all
qed

lemma archived_line:
  assumes "archivable env member t v" "member \<noteq> proto_key" "canonicalJson v = Inr line"
  shows "\<exists>w. parseArchivedRecord env (record_codec (re_sha (sv_retention env)) chain member) t line = Inr w \<and> same_envelope w v \<and>
      accepted_record (re_sha (sv_retention env)) member t w"
    and "line \<noteq> [] \<and> LF \<notin> set line"
proof -
  let ?sha = "re_sha (sv_retention env)"
  note a = assms(1) [unfolded archivable_def]
  from canonical_read_back [of v "sv_number env" line] a assms(3) obtain w where w: "normalizeForJson v = Inr w"
      "writable (sv_number env) w" "line = stringify w" "json_parse (sv_number env) line = Inr w" "canonicalJson w = Inr line"
    by metis
  from a obtain d where acc: "member_tenant member v = Inr (JStr t)" "js_prop v ''hashAlgorithm'' = JStr HASH_ALGORITHM"
      "js_prop v ''canonicalization'' = JStr CANONICALIZATION" "hashParsedRecord ?sha v = Inr d" "js_prop v ''hash'' = JStr d"
    by (auto simp: accepted_record_def)
  have p: "normalizeForJson (js_prop v k) = Inr (js_prop w k)" if "js_prop v k \<noteq> JUndefined" "k \<noteq> proto_key" for k
    using member_normal(1) [OF w(1) _ that(2,1)] a by blast
  have s: "js_prop w ''sequence'' = js_prop v ''sequence''" "js_prop w ''previousHash'' = js_prop v ''previousHash''"
    using p [of "''sequence''"] p [of "''previousHash''"] a by (auto simp: proto_key_def is_finite_number_def)
  have k: "js_prop w ''hash'' = JStr d" "js_prop w ''hashAlgorithm'' = JStr HASH_ALGORITHM" "js_prop w ''canonicalization'' = JStr CANONICALIZATION"
    using p [of "''hash''"] p [of "''hashAlgorithm''"] p [of "''canonicalization''"] acc by (auto simp: proto_key_def)
  have t: "member_tenant member w = Inr (JStr t)" using member_tenant_normal [OF w(1) _ assms(2) acc(1)] a by blast
  have h: "hashParsedRecord ?sha w = Inr d" using hash_normal [OF w(1), of ?sha] a acc(4,5) by simp
  have "parseArchivedRecord env (record_codec ?sha chain member) t line = Inr w"
    using w(4,5) t h k(1) by (simp add: parseArchivedRecord_def record_codec_def)
  moreover have "same_envelope w v" using s k(1) acc(5) w(5) assms(3) by (simp add: same_envelope_def)
  moreover have "accepted_record ?sha member t w" using t k h by (simp add: accepted_record_def)
  ultimately show "\<exists>w. parseArchivedRecord env (record_codec ?sha chain member) t line = Inr w \<and> same_envelope w v \<and>
      accepted_record ?sha member t w" by blast
  have "\<exists>ms. w = JObj ms" using js_prop_holder [of w "''hash''" "JStr d"] k(1) by blast
  then have "line \<noteq> []" using w(3) by auto
  moreover have "LF \<notin> set line"
    using stringify_plain(1) [OF w(2)] w(3) by (auto simp: list_all_iff plain_def LF_def code_unit_def)
  ultimately show "line \<noteq> [] \<and> LF \<notin> set line" by blast
qed

end
