(* ===== verification/ArchiveBlocks.thy ===== *)
theory ArchiveBlocks
  imports ArchiveSegments
begin

text \<open>
  The invariant of an object archive, \<open>archive_holds\<close>: the blocks sealed so far, each with its segment
  and manifest in the store, cover a chain from its origin. Listing returns the manifests of the
  blocks, reading and verifying accept them, and sealing appends a block, repeats one or refuses.
\<close>

section \<open>Blocks\<close>

text \<open>The records of a segment and the time it was sealed at.\<close>

type_synonym sealed_block = "jsval list \<times> string"

definition low :: "sealed_block \<Rightarrow> int" where
  "low b = int_prop (hd (fst b)) ''sequence''"

definition high :: "sealed_block \<Rightarrow> int" where
  "high b = int_prop (last (fst b)) ''sequence''"

definition block_body :: "sealed_block \<Rightarrow> bytes" where
  "block_body b = (case segment_body (fst b) of Inr body \<Rightarrow> body | Inl _ \<Rightarrow> [])"

definition block_key :: "string \<Rightarrow> sealed_block \<Rightarrow> string" where
  "block_key keys b = segment_name keys (low b) (high b)"

definition block_manifest :: "staging_env \<Rightarrow> string \<Rightarrow> string \<Rightarrow> sealed_block \<Rightarrow> jsval" where
  "block_manifest env keys t b = segment_manifest keys t (fst b) (re_sha_bytes (sv_retention env) (block_body b)) (snd b)"

definition block_text :: "staging_env \<Rightarrow> string \<Rightarrow> string \<Rightarrow> sealed_block \<Rightarrow> string" where
  "block_text env keys t b = (case canonicalJson (block_manifest env keys t b) of Inr text \<Rightarrow> text | Inl _ \<Rightarrow> [])"

text \<open>The manifest of a block as it is read.\<close>

definition read_manifest :: "staging_env \<Rightarrow> string \<Rightarrow> string \<Rightarrow> sealed_block \<Rightarrow> jsval" where
  "read_manifest env keys t b = (case parseSegmentManifest env (block_text env keys t b) of Inr m \<Rightarrow> m | Inl _ \<Rightarrow> JNull)"

abbreviation chain_values :: "sealed_block list \<Rightarrow> jsval list" where
  "chain_values bs \<equiv> concat (map fst bs)"

definition chain_end :: "sealed_block list \<Rightarrow> jsval" where
  "chain_end bs = (if chain_values bs = [] then JNull else js_prop (last (chain_values bs)) ''hash'')"

text \<open>Blocks of archivable records that form a chain from the origin.\<close>

definition chain_blocks :: "staging_env \<Rightarrow> string \<Rightarrow> string \<Rightarrow> sealed_block list \<Rightarrow> bool" where
  "chain_blocks env member t bs \<longleftrightarrow> (\<forall>b \<in> set bs. fst b \<noteq> []) \<and> (\<forall>v \<in> set (chain_values bs). archivable env member t v) \<and>
     in_sequence 0 JNull (chain_values bs) \<and> int (length (chain_values bs)) \<le> max_safe_integer"

text \<open>The manifests lie below \<open>keys\<close> and name segments below \<open>segments\<close>, which sealing makes the same.\<close>

definition archive_holds ::
  "staging_env \<Rightarrow> string \<Rightarrow> string \<Rightarrow> string \<Rightarrow> string \<Rightarrow> sealed_block list \<Rightarrow> (string \<Rightarrow> bytes option) \<Rightarrow> bool" where
  "archive_holds env member keys segments t bs store \<longleftrightarrow> chain_blocks env member t bs \<and>
     manifest_keys store keys = (\<lambda>b. block_key keys b @ MANIFEST_SUFFIX) ` set bs \<and>
     (\<forall>b \<in> set bs. store (block_key keys b @ MANIFEST_SUFFIX) = Some (utf8_encode (block_text env segments t b)) \<and>
        store (block_key segments b) = Some (block_body b))"

text \<open>Numbers read back, and digests and the tenant pass the guards of the manifest.\<close>

definition archive_env :: "staging_env \<Rightarrow> string \<Rightarrow> bool" where
  "archive_env env t \<longleftrightarrow> reads_integers env \<and> (\<forall>x. is_hex64 (re_sha (sv_retention env) x)) \<and>
     (\<forall>x. is_hex64 (re_sha_bytes (sv_retention env) x)) \<and> \<not> blank t"

lemma sequence_ends:
  assumes "in_sequence n h rs" "rs \<noteq> []"
  shows "js_prop (hd rs) ''sequence'' = JNum (NInt (n + 1))" "js_prop (hd rs) ''previousHash'' = h"
    "js_prop (last rs) ''sequence'' = JNum (NInt (n + int (length rs)))"
proof -
  show "js_prop (hd rs) ''sequence'' = JNum (NInt (n + 1))" "js_prop (hd rs) ''previousHash'' = h"
    using assms by (cases rs; simp add: in_sequence_Cons)+
  show "js_prop (last rs) ''sequence'' = JNum (NInt (n + int (length rs)))"
    using assms by (cases rs rule: rev_cases) (auto simp: in_sequence_append in_sequence_Cons)
qed

lemma chain_blocks_append:
  "chain_blocks env member t (xs @ ys) \<longleftrightarrow> chain_blocks env member t xs \<and> (\<forall>b \<in> set ys. fst b \<noteq> []) \<and>
     (\<forall>v \<in> set (chain_values ys). archivable env member t v) \<and>
     in_sequence (int (length (chain_values xs))) (chain_end xs) (chain_values ys) \<and>
     int (length (chain_values (xs @ ys))) \<le> max_safe_integer"
proof -
  have "in_sequence 0 JNull (chain_values (xs @ ys)) \<longleftrightarrow> in_sequence 0 JNull (chain_values xs) \<and>
      in_sequence (int (length (chain_values xs))) (chain_end xs) (chain_values ys)"
    by (simp add: in_sequence_append chain_end_def del: concat_eq_Nil_conv)
  then show ?thesis unfolding chain_blocks_def map_append concat_append set_append length_append by auto
qed

text \<open>A block among the blocks of a chain.\<close>

lemma block_facts:
  assumes "chain_blocks env member t bs" "bs = xs @ b # ys"
  shows "fst b \<noteq> []" "\<forall>v \<in> set (fst b). archivable env member t v"
    "in_sequence (int (length (chain_values xs))) (chain_end xs) (fst b)"
    "low b = int (length (chain_values xs)) + 1" "high b = int (length (chain_values (xs @ [b])))"
    "high b \<le> max_safe_integer" "js_prop (hd (fst b)) ''previousHash'' = chain_end xs"
proof -
  note c = assms(1) [unfolded assms(2) chain_blocks_append]
  show ne: "fst b \<noteq> []" and "\<forall>v \<in> set (fst b). archivable env member t v" using c by auto
  show s: "in_sequence (int (length (chain_values xs))) (chain_end xs) (fst b)"
    using c by (simp add: in_sequence_append)
  note e = sequence_ends [OF s ne]
  show "low b = int (length (chain_values xs)) + 1" "high b = int (length (chain_values (xs @ [b])))"
    "js_prop (hd (fst b)) ''previousHash'' = chain_end xs"
    using e by (simp_all add: low_def high_def int_prop_def)
  then show "high b \<le> max_safe_integer" using c by simp
qed

lemma chain_end_hex:
  assumes "chain_blocks env member t bs" "archive_env env t"
  shows "chain_end bs = JNull \<and> bs = [] \<or> (\<exists>h. chain_end bs = JStr h \<and> is_hex64 h)"
proof (cases "chain_values bs = []")
  case True
  then have "bs = []" using assms(1) by (cases bs) (auto simp: chain_blocks_def)
  then show ?thesis by (simp add: chain_end_def)
next
  case False
  then have "archivable env member t (last (chain_values bs))" using assms(1) by (simp add: chain_blocks_def del: set_concat)
  then obtain d where "hashParsedRecord (re_sha (sv_retention env)) (last (chain_values bs)) = Inr d"
      "js_prop (last (chain_values bs)) ''hash'' = JStr d" by (auto simp: archivable_def accepted_record_def)
  then have "chain_end bs = JStr d" "is_hex64 d"
    using False assms(2) by (auto simp: chain_end_def hashParsedRecord_def sha256Hex_def archive_env_def andThen_Inr_iff)
  then show ?thesis by blast
qed

section \<open>The manifest of a block\<close>

lemma hex_test [simp]: "SHA256_HEX (JStr h) = is_hex64 h"
  by (simp add: SHA256_HEX_def)

lemma strictly_equal_scalar [simp]:
  "strictly_equal (JStr s) v \<longleftrightarrow> v = JStr s" "strictly_equal JNull v \<longleftrightarrow> v = JNull" "strictly_equal (JNum (NInt i)) v \<longleftrightarrow> v = JNum (NInt i)"
  by (auto simp: strictly_equal_def)

lemma block_manifest_props:
  assumes "chain_blocks env member t bs" "archive_env env t" "bs = xs @ b # ys"
  shows "js_prop (block_manifest env keys t b) ''tenantId'' = JStr t"
    "js_prop (block_manifest env keys t b) ''fromSequence'' = JNum (NInt (low b))"
    "js_prop (block_manifest env keys t b) ''toSequence'' = JNum (NInt (high b))"
    "js_prop (block_manifest env keys t b) ''recordCount'' = JNum (NInt (int (length (fst b))))"
    "js_prop (block_manifest env keys t b) ''firstPreviousHash'' = chain_end xs"
    "js_prop (block_manifest env keys t b) ''lastHash'' = chain_end (xs @ [b])"
    "js_prop (block_manifest env keys t b) ''segmentKey'' = JStr (block_key keys b)"
    "js_prop (block_manifest env keys t b) ''contentSha256'' = JStr (re_sha_bytes (sv_retention env) (block_body b))"
    "js_prop (block_manifest env keys t b) ''sealedAt'' = JStr (snd b)"
  using block_facts [OF assms(1,3)]
  by (simp_all add: block_manifest_def segment_manifest_def js_prop_def get_prop_def low_def high_def block_key_def chain_end_def)

lemma block_manifest_read:
  assumes "chain_blocks env member t bs" "archive_env env t" "b \<in> set bs"
  shows "canonicalJson (block_manifest env keys t b) = Inr (block_text env keys t b)"
    "parseSegmentManifest env (block_text env keys t b) = Inr (read_manifest env keys t b)"
    "js_prop (read_manifest env keys t b) k = js_prop (block_manifest env keys t b) k"
proof -
  from assms(3) obtain xs ys where bs: "bs = xs @ b # ys" by (auto dest: split_list)
  note f = block_facts [OF assms(1) bs] and p = block_manifest_props [OF assms(1,2) bs, of keys]
  let ?m = "block_manifest env keys t b"
  obtain kvs where k: "?m = JObj kvs" by (simp add: block_manifest_def segment_manifest_def)
  have "chain_blocks env member t xs" "chain_blocks env member t (xs @ [b])"
    using assms(1) chain_blocks_append [of env member t xs "b # ys"] chain_blocks_append [of env member t "xs @ [b]" ys] bs by simp_all
  then have ends: "chain_end xs = JNull \<or> (\<exists>h. chain_end xs = JStr h \<and> is_hex64 h)" "\<exists>h. chain_end (xs @ [b]) = JStr h \<and> is_hex64 h"
    using chain_end_hex assms(2) by blast+
  have "1 \<le> int (length (fst b))" using f(1) by (cases "fst b") simp_all
  then have safe: "is_safe_int (low b)" "is_safe_int (high b)" "is_safe_int (int (length (fst b)))"
    using f(4-6) by (simp_all add: is_safe_int_def)
  have e: "js_prop (hd (fst b)) ''previousHash'' = chain_end xs" "js_prop (last (fst b)) ''hash'' = chain_end (xs @ [b])"
    using f(1,7) by (simp_all add: chain_end_def)
  have flat: "flat_members kvs"
    using k [symmetric] ends unfolding block_manifest_def segment_manifest_def e low_def [symmetric] high_def [symmetric]
    by (auto simp: flat_members_def proto_key_def is_finite_number_def)
  have env: "reads_integers env" "\<forall>x. is_hex64 (re_sha_bytes (sv_retention env) x)" "\<not> blank t" using assms(2) by (simp_all add: archive_env_def)
  have read: "readable (sv_number env) ?m"
    using ends readable_int [OF env(1)] safe
    unfolding block_manifest_def segment_manifest_def e low_def [symmetric] high_def [symmetric] by (auto simp del: readable.simps(1))
  have "wf_value ?m" using flat by (auto simp: k flat_members_def wf_members_iff)
  from flat obtain ms where ms: "normalizeForJson ?m = Inr (JObj ms)" "same_object ?m (JObj ms)" unfolding k by (rule flat_normal)
  then have written: "canonicalJson ?m = Inr (stringify (JObj ms))" by (simp add: canonicalJson_def)
  then show t: "canonicalJson ?m = Inr (block_text env keys t b)" by (simp add: block_text_def)
  from canonical_read_back [OF \<open>wf_value ?m\<close> read t] ms(1) have parsed: "json_parse (sv_number env) (block_text env keys t b) = Inr (JObj ms)"
    by (metis sum.inject(2))
  have same: "js_prop (JObj ms) n = js_prop ?m n" for n using ms(2) by (simp add: same_object_def)
  have "high b - low b + 1 = int (length (fst b))" using f(4,5) by simp
  then have "valid_segment_manifest (JObj ms)"
    unfolding valid_segment_manifest_def str_prop_def int_prop_def same p using ends env f(4,5) \<open>1 \<le> int (length (fst b))\<close> by auto
  then have "parseSegmentManifest env (block_text env keys t b) = Inr (JObj ms)"
    by (simp add: parseSegmentManifest_def parsed js_member_def)
  then show "parseSegmentManifest env (block_text env keys t b) = Inr (read_manifest env keys t b)"
    "js_prop (read_manifest env keys t b) k = js_prop ?m k"
    using same by (simp_all add: read_manifest_def)
qed

section \<open>Order of the blocks\<close>

lemma blocks_increase:
  "chain_blocks env member t bs \<Longrightarrow> sorted_wrt (\<lambda>a b. high a < low b) bs \<and> (\<forall>b \<in> set bs. 1 \<le> low b \<and> low b \<le> high b) \<and>
     (\<forall>b \<in> set bs. high b \<le> int (length (chain_values bs)))"
proof (induction bs rule: rev_induct)
  case (snoc b bs)
  then have c: "chain_blocks env member t bs" by (simp add: chain_blocks_append)
  note f = block_facts [OF snoc.prems, of bs b "[]", simplified]
  have "1 \<le> int (length (fst b))" using f(1) by (cases "fst b") simp_all
  with f(4,5) have b: "int (length (chain_values bs)) < low b" "1 \<le> low b" "low b \<le> high b" "high b = int (length (chain_values (bs @ [b])))"
    by simp_all
  then have "\<forall>a \<in> set bs. high a < low b" "\<forall>a \<in> set bs. high a \<le> int (length (chain_values (bs @ [b])))"
    using snoc.IH [OF c] by fastforce+
  with snoc.IH [OF c] b show ?case by (simp add: sorted_wrt_append)
qed simp

lemma blocks_distinct:
  assumes "chain_blocks env member t bs"
  shows "distinct bs" "sorted (map low bs)" "inj_on low (set bs)"
proof -
  note i = blocks_increase [OF assms]
  have "sorted_wrt (\<lambda>a b. low a < low b) bs" by (rule sorted_wrt_mono_rel [OF _ conjunct1 [OF i]]) (use i in fastforce)
  then have s: "sorted_wrt (<) (map low bs)" by (simp add: sorted_wrt_map)
  then have d: "distinct (map low bs)" by (simp add: strict_sorted_iff)
  then show "distinct bs" "inj_on low (set bs)" by (simp_all add: distinct_map)
  from s show "sorted (map low bs)" by (rule strict_sorted_imp_sorted)
qed

lemma segment_name_inject:
  assumes "0 \<le> a" "0 \<le> b" "0 \<le> c" "0 \<le> d"
  shows "segment_name p a b = segment_name p c d \<longleftrightarrow> a = c \<and> b = d"
  using segment_key_inject [OF assms, of "[]"] by (auto simp: segment_name_def segment_key_def)

lemma block_key_inject:
  assumes "chain_blocks env member t bs" "a \<in> set bs" "b \<in> set bs"
  shows "block_key p a = block_key p b \<longleftrightarrow> a = b"
proof
  assume "block_key p a = block_key p b"
  moreover have "0 \<le> low a" "0 \<le> high a" "0 \<le> low b" "0 \<le> high b" using blocks_increase [OF assms(1)] assms(2,3) by fastforce+
  ultimately have "low a = low b" by (simp add: block_key_def segment_name_inject)
  then show "a = b" using blocks_distinct(3) [OF assms(1)] assms(2,3) by (simp add: inj_on_def)
qed simp

section \<open>Listing\<close>

text \<open>Manifests that were read from the keys of the blocks are those of the blocks, in their order.\<close>

lemma manifests_of_blocks:
  assumes "archive_holds env member keys segments t bs store" "archive_env env t"
    and "distinct ks" "set ks = manifest_keys store keys" "list_all2 (manifest_at env store) ks ms"
    and "sorted (map (\<lambda>m. int_prop m ''fromSequence'') ms)"
  shows "ms = map (read_manifest env segments t) bs"
proof -
  note h = assms(1) [unfolded archive_holds_def]
  then have c: "chain_blocks env member t bs" by blast
  let ?key = "\<lambda>b. block_key keys b @ MANIFEST_SUFFIX" and ?m = "read_manifest env segments t" and ?f = "\<lambda>m. int_prop m ''fromSequence''"
  have from_low: "?f (?m b) = low b" if b: "b \<in> set bs" for b
  proof -
    from b obtain xs ys where bs: "bs = xs @ b # ys" by (auto dest: split_list)
    from block_manifest_read(3) [OF c assms(2) b] block_manifest_props(2) [OF c assms(2) bs]
    show ?thesis by (simp add: int_prop_def)
  qed
  have inj: "inj_on ?key (set bs)" using block_key_inject [OF c] by (auto simp: inj_on_def)
  have "distinct (map ?key bs)" using inj blocks_distinct(1) [OF c] by (simp add: distinct_map)
  moreover have "set ks = set (map ?key bs)" using assms(4) h by simp
  ultimately have perm: "mset ks = mset (map ?key bs)" using assms(3) by (metis set_eq_iff_mset_eq_distinct)
  have at: "m = ?m b" if "manifest_at env store (?key b) m" "b \<in> set bs" for b m
    using that h block_manifest_read(2) [OF c assms(2) that(2)] by (auto simp: manifest_at_def)
  let ?of = "\<lambda>k. ?m (the_inv_into (set bs) ?key k)"
  have of_key: "?of (?key b) = ?m b" if "b \<in> set bs" for b using the_inv_into_f_f [OF inj that] by simp
  have ms_of: "ms = map ?of ks"
  proof (rule list_eq_iff_nth_eq [THEN iffD2], intro conjI allI impI)
    show "length ms = length (map ?of ks)" using assms(5) by (simp add: list_all2_lengthD)
    fix i assume i: "i < length ms"
    then have i': "i < length ks" using assms(5) by (simp add: list_all2_lengthD)
    then have "ks ! i \<in> ?key ` set bs" using assms(4) h nth_mem by metis
    then obtain b where b: "b \<in> set bs" "ks ! i = ?key b" by blast
    from list_all2_nthD [OF assms(5) i'] b(2) have "manifest_at env store (?key b) (ms ! i)" by simp
    from at [OF this b(1)] of_key [OF b(1)] i' show "ms ! i = map ?of ks ! i" by (simp only: nth_map b(2))
  qed
  then have "mset ms = image_mset ?of (mset ks)" by simp
  also have "\<dots> = mset (map ?of (map ?key bs))" unfolding perm by (simp only: mset_map)
  also have "map ?of (map ?key bs) = map ?m bs" by (simp only: map_map comp_def) (use of_key in simp)
  finally have eq: "mset ms = mset (map ?m bs)" .
  have "map ?f (map ?m bs) = map low bs" using from_low by simp
  then have sorted: "sorted (map ?f (map ?m bs))" using blocks_distinct(2) [OF c] by (simp only:)
  have set_eq: "set ms = ?m ` set bs" using mset_eq_setD [OF eq] by simp
  have inj_f: "inj_on ?f (set ms)" unfolding set_eq
    using from_low blocks_distinct(3) [OF c] by (auto simp: inj_on_def)
  have "sort_key ?f ms = map ?m bs" using sort_key_inj_key_eq [OF eq inj_f sorted] .
  moreover have "sort_key ?f ms = ms" using assms(6) by (rule sort_key_id_if_sorted)
  ultimately show ?thesis by simp
qed

section \<open>The records of a block\<close>

lemma same_envelope_sequence:
  "list_all2 same_envelope ws vs \<Longrightarrow> in_sequence n h ws \<longleftrightarrow> in_sequence n h vs"
  by (induction ws vs arbitrary: n h rule: list_all2_induct) (auto simp: in_sequence_Cons same_envelope_def)

lemma same_envelope_ends:
  assumes "list_all2 same_envelope ws vs" "vs \<noteq> []"
  shows "ws \<noteq> []" "same_envelope (hd ws) (hd vs)" "same_envelope (last ws) (last vs)"
proof -
  show "ws \<noteq> []" using assms by auto
  then show "same_envelope (hd ws) (hd vs)" "same_envelope (last ws) (last vs)"
    using assms list_all2_nthD [OF assms(1), of 0] list_all2_nthD [OF assms(1), of "length vs - 1"]
    by (auto simp: hd_conv_nth last_conv_nth list_all2_lengthD)
qed

lemma join_last_empty: "xs \<noteq> [] \<Longrightarrow> join sep (xs @ [[]]) = join sep xs @ sep"
  by (induction xs) (auto simp: join_Cons)

lemma archivable_lines:
  assumes "\<forall>v \<in> set vs. archivable env member t v" "member \<noteq> proto_key"
  obtains lines ws where "map canonicalJson vs = map Inr lines" "\<forall>x \<in> set lines. x \<noteq> [] \<and> LF \<notin> set x"
    "map (parseArchivedRecord env (record_codec (re_sha (sv_retention env)) chain member) t) lines = map Inr ws"
    "list_all2 same_envelope ws vs" "list_all (accepted_record (re_sha (sv_retention env)) member t) ws"
proof -
  have "\<exists>lines ws. map canonicalJson vs = map Inr lines \<and> (\<forall>x \<in> set lines. x \<noteq> [] \<and> LF \<notin> set x) \<and>
    map (parseArchivedRecord env (record_codec (re_sha (sv_retention env)) chain member) t) lines = map Inr ws \<and>
    list_all2 same_envelope ws vs \<and> list_all (accepted_record (re_sha (sv_retention env)) member t) ws"
    using assms(1)
  proof (induction vs)
    case (Cons v vs)
    then obtain lines ws where IH: "map canonicalJson vs = map Inr lines" "\<forall>x \<in> set lines. x \<noteq> [] \<and> LF \<notin> set x"
      "map (parseArchivedRecord env (record_codec (re_sha (sv_retention env)) chain member) t) lines = map Inr ws"
      "list_all2 same_envelope ws vs" "list_all (accepted_record (re_sha (sv_retention env)) member t) ws" by auto
    from Cons.prems obtain line where l: "canonicalJson v = Inr line" by (auto simp: archivable_def)
    have a: "archivable env member t v" using Cons.prems by simp
    from archived_line(1) [OF a assms(2) l, of chain] archived_line(2) [OF a assms(2) l] obtain w where
      "parseArchivedRecord env (record_codec (re_sha (sv_retention env)) chain member) t line = Inr w" "same_envelope w v"
      "accepted_record (re_sha (sv_retention env)) member t w" "line \<noteq> []" "LF \<notin> set line" by blast
    with IH l show ?case by (intro exI [of _ "line # lines"] exI [of _ "w # ws"]) simp
  qed simp
  with that show thesis by blast
qed

lemma block_lines:
  assumes "fst b \<noteq> []" "\<forall>v \<in> set (fst b). archivable env member t v" "member \<noteq> proto_key"
  obtains lines ws where "segment_body (fst b) = Inr (block_body b)" "map canonicalJson (fst b) = map Inr lines"
    "filter (\<lambda>line. line \<noteq> []) (split_on LF (utf8_decode (sv_mark env) (block_body b))) = lines"
    "collect (map (parseArchivedRecord env (record_codec (re_sha (sv_retention env)) chain member) t) lines) = Inr ws"
    "list_all2 same_envelope ws (fst b)" "list_all (accepted_record (re_sha (sv_retention env)) member t) ws"
proof -
  from archivable_lines [OF assms(2,3), of chain] obtain lines ws where l: "map canonicalJson (fst b) = map Inr lines"
      "\<forall>x \<in> set lines. x \<noteq> [] \<and> LF \<notin> set x"
      "map (parseArchivedRecord env (record_codec (re_sha (sv_retention env)) chain member) t) lines = map Inr ws"
      "list_all2 same_envelope ws (fst b)" "list_all (accepted_record (re_sha (sv_retention env)) member t) ws" by blast
  have "lines \<noteq> []" using l(1) assms(1) by auto
  have body: "segment_body (fst b) = Inr (utf8_encode (join [LF] lines @ [LF]))" by (simp add: segment_body_def l(1) collect_Inr_iff)
  have "split_on LF (join [LF] xs @ [LF]) = xs @ [[]]" if "xs \<noteq> []" "\<forall>x \<in> set xs. LF \<notin> set x" for xs
    using split_join_lines [of "xs @ [[]]" LF] that by (simp add: join_last_empty)
  with l(2) \<open>lines \<noteq> []\<close> have "split_on LF (utf8_decode (sv_mark env) (block_body b)) = lines @ [[]]"
    by (simp add: block_body_def body)
  moreover have "filter (\<lambda>line. line \<noteq> []) (lines @ [[]]) = lines" using l(2) by (simp add: filter_id_conv)
  ultimately have "filter (\<lambda>line. line \<noteq> []) (split_on LF (utf8_decode (sv_mark env) (block_body b))) = lines" by simp
  with that l body show thesis by (simp add: block_body_def collect_Inr_iff)
qed

end
