(* ===== verification/ArchiveSealing.thy ===== *)
theory ArchiveSealing
  imports ArchiveBlocks StagingSteps
begin

text \<open>
  The operations of the object archive on an archive that holds blocks: listing, reading and verifying
  with a client that does not fail, and sealing with any client.
\<close>

section \<open>Reading and verifying\<close>

lemma readSegment_same:
  assumes "\<And>k. js_prop m k = js_prop m' k"
  shows "readSegment env client codec m = readSegment env client codec m'"
proof -
  have props: "js_prop m = js_prop m'" "str_prop m = str_prop m'" using assms by (auto simp: str_prop_def)
  then have "check_ends m = check_ends m'" unfolding check_ends_def [abs_def] props by simp
  then show ?thesis unfolding readSegment_def props by simp
qed

context archive_store
begin

lemma list_yields:
  "yields (\<lambda>w. objects w = s) (listManifests env client keys codec t) (\<lambda>_ w. objects w = s) (\<lambda>w. objects w = s)"
proof -
  have r: "yields (\<lambda>w. objects w = s) (read_manifests env client ks) (\<lambda>_ w. objects w = s) (\<lambda>w. objects w = s)" for ks
  proof (induction ks)
    case (Cons k ks)
    show ?case unfolding read_manifests.simps
    proof (rule yields_then [where Q = "\<lambda>_ w. objects w = s"])
      show "yields (\<lambda>w. objects w = s) (oc_get client k) (\<lambda>_ w. objects w = s) (\<lambda>w. objects w = s)"
        by (rule yieldsI) (auto dest: get_keeps)
      show "yields (\<lambda>w. objects w = s) (case b of None \<Rightarrow> liftA (Inl (TypeError ''archived segment manifest is missing''))
        | Some body \<Rightarrow> thenDo (liftA (parseSegmentManifest env (utf8_decode (sv_mark env) body))) (\<lambda>manifest.
           thenDo (read_manifests env client ks) (\<lambda>manifests. pureA (manifest # manifests)))) (\<lambda>_ w. objects w = s) (\<lambda>w. objects w = s)" for b
        by (cases b) (auto intro!: action_rules yields_then [OF Cons.IH])
    qed
  qed (simp, rule action_rules)
  have l: "yields (\<lambda>w. objects w = s) (oc_list client ks) (\<lambda>_ w. objects w = s) (\<lambda>w. objects w = s)" for ks
    by (rule yieldsI) (auto dest: list_keeps)
  show ?thesis unfolding listManifests_def by (intro yields_then [OF l] yields_then [OF r] action_rules)
qed

lemma list_keeps_objects: "listManifests env client keys codec t p = (r, p') \<Longrightarrow> objects p' = objects p"
  using yields_outcome [OF list_yields] by blast

lemma listed_blocks:
  assumes "archive_holds env member (tenantPrefix keys codec x) segments t bs (objects p)" "archive_env env t"
    and "listManifests env client keys codec x p = (Inr ms, p')"
  shows "ms = map (read_manifest env segments t) bs"
  using listManifests_sound [OF assms(3)] manifests_of_blocks [OF assms(1,2)] by blast

end

context steady_archive_store
begin

lemma get_inr: obtains p' where "oc_get client k p = (Inr (objects p k), p')" "objects p' = objects p"
  using get_returns [of k p] get_result get_keeps by metis

lemma put_inr: obtains p' where "oc_put client k b p = (Inr (), p')" "objects p' = (objects p)(k \<mapsto> b)"
  using put_returns [of k b p] put_result by metis

lemma read_manifests_returns:
  "\<forall>k \<in> set ks. \<exists>m. manifest_at env (objects p) k m \<Longrightarrow> \<exists>ms p'. read_manifests env client ks p = (Inr ms, p')"
proof (induction ks arbitrary: p)
  case (Cons k ks)
  obtain p1 where g: "oc_get client k p = (Inr (objects p k), p1)" "objects p1 = objects p" by (rule get_inr)
  from Cons.prems obtain body m where b: "objects p k = Some body" "parseSegmentManifest env (utf8_decode (sv_mark env) body) = Inr m"
    by (auto simp: manifest_at_def)
  from Cons.IH [of p1] Cons.prems g(2) obtain ms p2 where "read_manifests env client ks p1 = (Inr ms, p2)" by auto
  with g(1) b show ?case by (simp add: thenDo_def)
qed simp

lemma list_returns_blocks:
  assumes "archive_holds env member (tenantPrefix keys codec x) segments t bs (objects p)" "archive_env env t"
  obtains p' where "listManifests env client keys codec x p = (Inr (map (read_manifest env segments t) bs), p')" "objects p' = objects p"
proof -
  let ?keys = "tenantPrefix keys codec x"
  note h = assms(1) [unfolded archive_holds_def]
  obtain l p1 where l: "oc_list client ?keys p = (Inr l, p1)" using list_returns by blast
  note p1 = list_keeps [OF l]
  have "\<exists>m. manifest_at env (objects p1) k m" if "k \<in> set (sort (filter (\<lambda>key. suffix MANIFEST_SUFFIX key) l))" for k
  proof -
    from that list_result [OF l] have "k \<in> manifest_keys (objects p) ?keys" by (auto simp: manifest_keys_def)
    with h obtain b where b: "b \<in> set bs" "k = block_key ?keys b @ MANIFEST_SUFFIX" by auto
    with h block_manifest_read(2) [OF _ assms(2) b(1)] show ?thesis by (auto simp: manifest_at_def p1)
  qed
  with read_manifests_returns [of "sort (filter (\<lambda>key. suffix MANIFEST_SUFFIX key) l)" env p1] obtain ms p2
    where "read_manifests env client (sort (filter (\<lambda>key. suffix MANIFEST_SUFFIX key) l)) p1 = (Inr ms, p2)" by blast
  with l have "listManifests env client keys codec x p = (Inr (sort_key (\<lambda>m. int_prop m ''fromSequence'') ms), p2)"
    by (simp add: listManifests_def thenDo_def)
  with listed_blocks [OF assms this] list_keeps_objects that show thesis by metis
qed

lemma read_block:
  assumes "chain_blocks env member t bs" "archive_env env t" "b \<in> set bs" "objects p (block_key segments b) = Some (block_body b)"
    and "member \<noteq> proto_key"
  obtains ws p' where "readSegment env client (record_codec (re_sha (sv_retention env)) chain member) (read_manifest env segments t b) p = (Inr ws, p')"
    "objects p' = objects p" "list_all2 same_envelope ws (fst b)" "list_all (accepted_record (re_sha (sv_retention env)) member t) ws"
proof -
  from assms(3) obtain xs ys where bs: "bs = xs @ b # ys" by (auto dest: split_list)
  note f = block_facts [OF assms(1) bs]
  note props = block_manifest_props [OF assms(1,2) bs, of segments, folded block_manifest_read(3) [OF assms(1-3), of segments]]
  from block_lines [OF f(1,2) assms(5), of chain] obtain lines ws where l: "map canonicalJson (fst b) = map Inr lines"
    "filter (\<lambda>line. line \<noteq> []) (split_on LF (utf8_decode (sv_mark env) (block_body b))) = lines"
    "collect (map (parseArchivedRecord env (record_codec (re_sha (sv_retention env)) chain member) t) lines) = Inr ws"
    "list_all2 same_envelope ws (fst b)" "list_all (accepted_record (re_sha (sv_retention env)) member t) ws" by blast
  have len: "length lines = length (fst b)" using l(1) by (metis length_map)
  note e = same_envelope_ends [OF l(4) f(1)] and s = sequence_ends [OF f(3,1)]
  have "js_prop (last (fst b)) ''hash'' = chain_end (xs @ [b])" using f(1) by (simp add: chain_end_def)
  moreover have "strictly_equal (chain_end ys') (chain_end ys')" if "chain_blocks env member t ys'" for ys'
    using chain_end_hex [OF that assms(2)] by auto
  moreover have "chain_blocks env member t xs" "chain_blocks env member t (xs @ [b])"
    using assms(1) chain_blocks_append [of env member t xs "b # ys"] chain_blocks_append [of env member t "xs @ [b]" ys] bs by simp_all
  moreover have "\<exists>kvs. hd ws = JObj kvs" using js_prop_holder [of "hd ws" "''sequence''"] e(2) s(1) by (auto simp: same_envelope_def)
  ultimately have ends: "check_ends (read_manifest env segments t b) ws = Inr ()"
    using e s f(4,5) unfolding check_ends_ok props same_envelope_def by (auto simp: js_member_def)
  obtain p' where g: "oc_get client (block_key segments b) p = (Inr (objects p (block_key segments b)), p')" "objects p' = objects p"
    by (rule get_inr)
  have "readSegment env client (record_codec (re_sha (sv_retention env)) chain member) (read_manifest env segments t b) p = (Inr ws, p')"
    unfolding readSegment_def str_prop_def props using g(1) assms(4) l(2,3) ends len by (simp add: thenDo_def checkThat_def)
  with that g(2) l(4,5) show thesis by blast
qed

lemma gather_blocks:
  assumes "chain_blocks env member t (xs @ ys)" "archive_env env t" "\<forall>b \<in> set ys. objects p (block_key segments b) = Some (block_body b)"
    and "member \<noteq> proto_key"
  shows "\<exists>ws p'. gather_segments env client (record_codec (re_sha (sv_retention env)) chain member)
      (if xs = [] then None else Some (read_manifest env segments t (last xs))) rs (map (read_manifest env segments t) ys) p = (Inr (Inr (rs @ ws)), p') \<and>
    objects p' = objects p \<and> list_all2 same_envelope ws (chain_values ys) \<and> list_all (accepted_record (re_sha (sv_retention env)) member t) ws"
  using assms(1,3)
proof (induction ys arbitrary: xs rs p)
  case (Cons b ys)
  let ?codec = "record_codec (re_sha (sv_retention env)) chain member" and ?m = "read_manifest env segments t"
  have b: "b \<in> set (xs @ b # ys)" by simp
  from read_block [OF Cons.prems(1) assms(2) b _ assms(4), of p segments chain] Cons.prems(2) obtain ws p1 where
    r: "readSegment env client ?codec (?m b) p = (Inr ws, p1)" "objects p1 = objects p"
      "list_all2 same_envelope ws (fst b)" "list_all (accepted_record (re_sha (sv_retention env)) member t) ws" by auto
  from Cons.IH [of "xs @ [b]" p1 "rs @ ws"] Cons.prems r(2) obtain vs p2 where
    IH: "gather_segments env client ?codec (Some (?m b)) (rs @ ws) (map ?m ys) p1 = (Inr (Inr (rs @ ws @ vs)), p2)"
      "objects p2 = objects p1" "list_all2 same_envelope vs (chain_values ys)" "list_all (accepted_record (re_sha (sv_retention env)) member t) vs"
    by auto
  have "continues (?m a) (?m b)" if a: "xs = zs @ [a]" for zs a
  proof -
    have bs: "xs @ b # ys = zs @ a # b # ys" by (simp add: a)
    have mem: "a \<in> set (xs @ b # ys)" by (simp add: a)
    note f = block_facts [OF Cons.prems(1) bs] block_facts [OF Cons.prems(1) refl]
    note pa = block_manifest_props [OF Cons.prems(1) assms(2) bs, of segments, folded block_manifest_read(3) [OF Cons.prems(1) assms(2) mem, of segments]]
    note pb = block_manifest_props [OF Cons.prems(1) assms(2) refl, of segments, folded block_manifest_read(3) [OF Cons.prems(1) assms(2) b, of segments]]
    have "chain_blocks env member t xs" using Cons.prems(1) by (simp add: chain_blocks_append)
    from chain_end_hex [OF this assms(2)] show ?thesis using f pa pb a by (auto simp: continues_def int_prop_def)
  qed
  then have c: "case (if xs = [] then None else Some (?m (last xs))) of None \<Rightarrow> True | Some q \<Rightarrow> continues q (?m b)"
    by (cases xs rule: rev_cases) auto
  then have "gather_segments env client ?codec (if xs = [] then None else Some (?m (last xs))) rs (map ?m (b # ys)) p =
      (Inr (Inr (rs @ ws @ vs)), p2)"
    using r(1) IH(1) by (auto simp: continues_def)
  with IH r show ?case by (intro exI [of _ "ws @ vs"] exI [of _ p2]) (auto intro: list_all2_appendI)
qed simp

lemma verify_blocks:
  assumes "archive_holds env member (tenantPrefix keys (record_codec (re_sha (sv_retention env)) chain member) x) segments t bs (objects p)"
    and "archive_env env t" "\<not> blank x" "member \<noteq> proto_key"
  obtains p' where "verifyArchive env client keys (record_codec (re_sha (sv_retention env)) chain member) x p =
    (Inr \<lparr>av_ok = True, av_segmentCount = int (length bs), av_recordCount = int (length (chain_values bs)),
      av_verification = (if bs = [] then None else Some VerOk), av_reason = None\<rparr>, p')" "objects p' = objects p"
proof -
  let ?codec = "record_codec (re_sha (sv_retention env)) chain member" and ?m = "read_manifest env segments t"
  note h = assms(1) [unfolded archive_holds_def]
  then have c: "chain_blocks env member t bs" by blast
  from list_returns_blocks [OF assms(1,2)] obtain p1 where
    l: "listManifests env client keys ?codec x p = (Inr (map ?m bs), p1)" "objects p1 = objects p" .
  have guard: "assertNonEmpty x ''tenantId'' = Inr ()" using assms(3) by (simp add: assertNonEmpty_def)
  show thesis
  proof (cases "bs = []")
    case True
    with l that guard show thesis by (simp add: verifyArchive_def thenDo_def)
  next
    case False
    then obtain b ys where bs: "bs = [] @ b # ys" by (cases bs) auto
    have mem: "b \<in> set bs" by (simp add: bs)
    have first: "int_prop (?m b) ''fromSequence'' = 1"
      using block_manifest_props(2) [OF c assms(2) bs, of segments] block_manifest_read(3) [OF c assms(2) mem, of segments] block_facts(4) [OF c bs]
      by (simp add: int_prop_def)
    from gather_blocks [of env member t "[]" bs p1 segments chain "[]"] c assms(2,4) h l(2) obtain ws p2 where
      g: "gather_segments env client ?codec None [] (map ?m bs) p1 = (Inr (Inr ws), p2)" "objects p2 = objects p1"
        "list_all2 same_envelope ws (chain_values bs)" "list_all (accepted_record (re_sha (sv_retention env)) member t) ws" by auto
    have "chain_values bs \<noteq> []" using c bs by (auto simp: chain_blocks_def)
    then have ne: "ws \<noteq> []" using list_all2_lengthD [OF g(3)] by (metis length_0_conv)
    have "in_sequence 0 JNull ws" using same_envelope_sequence [OF g(3)] c by (simp add: chain_blocks_def)
    moreover have "t \<noteq> []" using assms(2) not_blank_nonempty by (auto simp: archive_env_def)
    moreover have "\<forall>r \<in> set ws. member_tenant member r = Inr (JStr t)" using g(4) by (auto simp: list_all_iff accepted_record_def)
    ultimately have "verify_parsed_from (re_sha (sv_retention env)) member Map.empty 0 (ws @ []) = Inr VerOk"
      using verify_parsed_block [of ws member t "re_sha (sv_retention env)" Map.empty 0 "[]"] ne g(4) by (simp add: parsed_state_def)
    then have v: "cc_verifyChain ?codec ws = Inr VerOk" by (simp add: record_codec_def)
    have len: "length ws = length (chain_values bs)" using g(3) by (rule list_all2_lengthD)
    have hd: "hd (map ?m bs) = ?m b" by (simp add: bs)
    have "verifyArchive env client keys ?codec x p = (Inr \<lparr>av_ok = True, av_segmentCount = int (length bs),
        av_recordCount = int (length (chain_values bs)), av_verification = Some VerOk, av_reason = None\<rparr>, p2)"
      unfolding verifyArchive_def guard thenDo_pure
      using False v len hd first by (simp add: thenDo_def l(1) g(1))
    with that False g(2) l(2) show thesis by simp
  qed
qed

end

section \<open>Sealing\<close>

text \<open>What the checks of the records have established.\<close>

lemma check_records_sequence:
  assumes "\<forall>v \<in> set rs. archivable env member t v"
  shows "check_segment_records (record_codec (re_sha (sv_retention env)) chain member) t previous rs = Inr () \<longleftrightarrow>
    rs = [] \<or> (case previous of
       None \<Rightarrow> in_sequence (int_prop (hd rs) ''sequence'' - 1) (js_prop (hd rs) ''previousHash'') rs
     | Some q \<Rightarrow> in_sequence (int_prop q ''sequence'') (js_prop q ''hash'') rs)"
  using assms
proof (induction rs arbitrary: previous)
  case (Cons r rs)
  let ?codec = "record_codec (re_sha (sv_retention env)) chain member"
  from Cons.prems obtain d where r: "cc_tenantOf ?codec r = Inr (JStr t)" "cc_rehash ?codec r = Inr d" "js_prop r ''hash'' = JStr d"
      "js_prop r ''sequence'' = JNum (NInt (int_prop r ''sequence''))"
    by (auto simp: archivable_def accepted_record_def record_codec_def)
  have "check_segment_records ?codec t previous (r # rs) = Inr () \<longleftrightarrow>
      (case previous of None \<Rightarrow> True | Some p \<Rightarrow> int_prop r ''sequence'' = int_prop p ''sequence'' + 1 \<and> js_prop r ''previousHash'' = js_prop p ''hash'') \<and>
      check_segment_records ?codec t (Some r) rs = Inr ()"
    by (simp add: r andThen_throwUnless)
  also have "\<dots> \<longleftrightarrow> (case previous of
       None \<Rightarrow> in_sequence (int_prop r ''sequence'' - 1) (js_prop r ''previousHash'') (r # rs)
     | Some q \<Rightarrow> in_sequence (int_prop q ''sequence'') (js_prop q ''hash'') (r # rs))"
    using Cons.IH [of "Some r"] Cons.prems r(4) by (cases "rs = []") (auto simp: in_sequence_Cons split: option.splits)
  finally show ?case by (cases previous) simp_all
qed simp

lemma validate_records:
  assumes "\<forall>v \<in> set rs. archivable env member t v" "rs \<noteq> []" "archive_env env t"
  shows "validateSegmentRecords (record_codec (re_sha (sv_retention env)) chain member) rs = Inr u \<longleftrightarrow>
    u = t \<and> in_sequence (int_prop (hd rs) ''sequence'' - 1) (js_prop (hd rs) ''previousHash'') rs"
proof -
  let ?codec = "record_codec (re_sha (sv_retention env)) chain member"
  have "archivable env member t (hd rs)" using assms(1,2) by simp
  then have h: "cc_tenantOf ?codec (hd rs) = Inr (JStr t)" by (simp add: archivable_def accepted_record_def record_codec_def)
  have "\<not> blank t" using assms(3) by (simp add: archive_env_def)
  then show ?thesis
    using check_records_sequence [OF assms(1), of chain None] assms(2)
    by (cases "check_segment_records ?codec t None rs") (auto simp: validateSegmentRecords_def h)
qed

text \<open>The new block and the manifest that is written for it.\<close>

definition new_block :: "staging_env \<Rightarrow> jsval list \<Rightarrow> sealed_block" where
  "new_block env rs = (rs, iso_of_ms (now (re_host (sv_retention env))))"

lemma new_manifest:
  "segment_body rs = Inr body \<Longrightarrow> segment_manifest keys t rs (re_sha_bytes (sv_retention env) body)
     (iso_of_ms (now (re_host (sv_retention env)))) = block_manifest env keys t (new_block env rs)"
  by (simp add: block_manifest_def new_block_def block_body_def)

text \<open>The plan on the manifests of the blocks.\<close>

definition extends :: "sealed_block list \<Rightarrow> jsval list \<Rightarrow> bool" where
  "extends bs rs \<longleftrightarrow> in_sequence (int (length (chain_values bs))) (chain_end bs) rs"

lemma extends_block:
  assumes "chain_blocks env member t bs" "extends bs (fst b)" "fst b \<noteq> []" "\<forall>v \<in> set (fst b). archivable env member t v"
    and "int (length (chain_values bs) + length (fst b)) \<le> max_safe_integer"
  shows "chain_blocks env member t (bs @ [b])"
  using assms by (simp add: chain_blocks_append extends_def)

lemma plan_new:
  assumes "chain_blocks env member t bs" "archive_env env t" "rs \<noteq> []"
    and "in_sequence (int_prop (hd rs) ''sequence'' - 1) (js_prop (hd rs) ''previousHash'') rs"
  shows "seal_plan (map (read_manifest env keys t) bs) (hd rs) (last rs) digest = Inr None \<longleftrightarrow> extends bs rs"
proof (cases bs rule: rev_cases)
  case Nil
  have "(int_prop (hd rs) ''sequence'' = 1 \<and> js_prop (hd rs) ''previousHash'' = JNull) \<longleftrightarrow> in_sequence 0 JNull rs"
    using assms(4) sequence_ends(1,2) [of 0 JNull rs] assms(3) by (auto simp: int_prop_def)
  with Nil show ?thesis by (auto simp: seal_plan_def last_of_def extends_def chain_end_def Let_def)
next
  case (snoc xs b)
  let ?m = "read_manifest env keys t"
  have mem: "b \<in> set bs" by (simp add: snoc)
  have bs: "bs = xs @ b # []" by (simp add: snoc)
  note props = block_manifest_props [OF assms(1,2) bs, of keys, folded block_manifest_read(3) [OF assms(1,2) mem, of keys]]
  have to: "int_prop (?m b) ''toSequence'' = int (length (chain_values bs))"
    using props(3) block_facts(5) [OF assms(1) bs] snoc by (simp add: int_prop_def)
  have tip: "js_prop (?m b) ''lastHash'' = chain_end bs" using props(6) snoc by simp
  have last: "last_of (map ?m bs) = Some (?m b)" by (simp add: last_of_def snoc)
  from chain_end_hex [OF assms(1,2)] snoc obtain h where h: "chain_end bs = JStr h" by auto
  let ?low = "int_prop (hd rs) ''sequence''" and ?n = "int (length (chain_values bs))"
  have "extends bs rs \<longleftrightarrow> ?low = ?n + 1 \<and> js_prop (hd rs) ''previousHash'' = chain_end bs"
    using assms(4) sequence_ends(1,2) [of ?n "chain_end bs" rs] assms(3) by (auto simp: extends_def int_prop_def)
  moreover have "strictly_equal (js_prop (hd rs) ''previousHash'') (chain_end bs) \<longleftrightarrow> js_prop (hd rs) ''previousHash'' = chain_end bs"
    unfolding h by (auto simp: strictly_equal_def)
  ultimately show ?thesis
    unfolding seal_plan_def last Let_def option.case to tip by (auto split: option.splits)
qed

lemma find_map: "find P (map f xs) = Some y \<Longrightarrow> \<exists>x \<in> set xs. y = f x \<and> P (f x)"
  by (induction xs) (auto split: if_splits)

lemma plan_existing:
  assumes "chain_blocks env member t bs" "archive_env env t"
    and "seal_plan (map (read_manifest env keys t) bs) (hd rs) (last rs) digest = Inr (Some m)"
  obtains b where "b \<in> set bs" "m = read_manifest env keys t b" "low b = low (rs, at)" "high b = high (rs, at)"
    "re_sha_bytes (sv_retention env) (block_body b) = digest"
proof -
  let ?m = "read_manifest env keys t"
  from assms(3) have "find (\<lambda>m. int_prop m ''fromSequence'' = int_prop (hd rs) ''sequence'' \<and>
      int_prop m ''toSequence'' = int_prop (last rs) ''sequence'') (map ?m bs) = Some m \<and> js_prop m ''contentSha256'' = JStr digest"
    by (auto simp: seal_plan_def Let_def split: option.splits if_splits)
  then obtain b where b: "b \<in> set bs" "m = ?m b" "int_prop m ''fromSequence'' = int_prop (hd rs) ''sequence''"
      "int_prop m ''toSequence'' = int_prop (last rs) ''sequence''" "js_prop m ''contentSha256'' = JStr digest"
    by (blast dest: find_map)
  from b(1) obtain xs ys where bs: "bs = xs @ b # ys" by (auto dest: split_list)
  note props = block_manifest_props [OF assms(1,2) bs, of keys, folded block_manifest_read(3) [OF assms(1,2) b(1), of keys]]
  show thesis using b that [of b] props(2,3,8) by (simp add: int_prop_def low_def high_def)
qed

lemma plan_repeated:
  assumes "chain_blocks env member t bs" "archive_env env t" "b \<in> set bs"
  shows "seal_plan (map (read_manifest env keys t) bs) (hd (fst b)) (last (fst b)) (re_sha_bytes (sv_retention env) (block_body b)) =
    Inr (Some (read_manifest env keys t b))"
proof -
  let ?m = "read_manifest env keys t"
  have props: "int_prop (?m a) ''fromSequence'' = low a" "int_prop (?m a) ''toSequence'' = high a"
    "js_prop (?m a) ''contentSha256'' = JStr (re_sha_bytes (sv_retention env) (block_body a))" if a: "a \<in> set bs" for a
  proof -
    from a obtain xs ys where bs: "bs = xs @ a # ys" by (auto dest: split_list)
    note p = block_manifest_props [OF assms(1,2) bs, of keys, folded block_manifest_read(3) [OF assms(1,2) a, of keys]]
    show "int_prop (?m a) ''fromSequence'' = low a" "int_prop (?m a) ''toSequence'' = high a"
      "js_prop (?m a) ''contentSha256'' = JStr (re_sha_bytes (sv_retention env) (block_body a))"
      using p(2,3,8) by (simp_all add: int_prop_def)
  qed
  obtain xs z where bs: "bs = xs @ [z]" using assms(3) by (cases bs rule: rev_cases) auto
  note inc = blocks_increase [OF assms(1)]
  have z: "z \<in> set bs" by (simp add: bs)
  have "high b \<le> high z" using inc assms(3) by (fastforce simp: bs sorted_wrt_append)
  then have le: "int_prop (hd (fst b)) ''sequence'' \<le> int_prop (?m z) ''toSequence''"
    using inc assms(3) props(2) [OF z] by (fastforce simp: low_def)
  have "find (\<lambda>m. int_prop m ''fromSequence'' = low b \<and> int_prop m ''toSequence'' = high b) (map ?m bs) = Some (?m b)"
  proof -
    have "find (\<lambda>m. int_prop m ''fromSequence'' = low b \<and> int_prop m ''toSequence'' = high b) (map ?m bs) \<noteq> None"
      using assms(3) props by (auto simp: find_None_iff)
    then obtain m where m: "find (\<lambda>m. int_prop m ''fromSequence'' = low b \<and> int_prop m ''toSequence'' = high b) (map ?m bs) = Some m" by blast
    then obtain a where a: "a \<in> set bs" "m = ?m a" "int_prop m ''fromSequence'' = low b" by (blast dest: find_map)
    with props(1) have "low a = low b" by simp
    with blocks_distinct(3) [OF assms(1)] a(1) assms(3) have "a = b" by (simp add: inj_on_def)
    with m a(2) show ?thesis by simp
  qed
  then show ?thesis using le props(3) [OF assms(3)]
    by (simp add: seal_plan_def last_of_def bs Let_def low_def high_def)
qed

section \<open>Writing a block\<close>

lemma block_key_prefix: "prefix keys (block_key keys b)" "prefix keys (block_key keys b @ MANIFEST_SUFFIX)"
  by (simp_all add: block_key_def segment_name_def)

lemma block_key_no_manifest: "\<not> suffix MANIFEST_SUFFIX (block_key keys b)"
proof
  assume "suffix MANIFEST_SUFFIX (block_key keys b)"
  then obtain x where "x @ MANIFEST_SUFFIX = block_key keys b" by (auto simp: suffix_def)
  then have "rev MANIFEST_SUFFIX @ rev x = rev (block_key keys b)" by (metis rev_append)
  then show False by (simp add: MANIFEST_SUFFIX_def block_key_def segment_name_def)
qed

lemma manifest_key_not_segment: "block_key keys a @ MANIFEST_SUFFIX \<noteq> block_key keys b"
  using block_key_no_manifest [of keys b] by (metis suffixI)

lemma holds_segment_written:
  assumes "archive_holds env member keys keys t bs store" "chain_blocks env member t (bs @ [b])"
  shows "archive_holds env member keys keys t bs (store(block_key keys b \<mapsto> body))"
proof -
  have "block_key keys a \<noteq> block_key keys b" if "a \<in> set bs" for a
    using block_key_inject [OF assms(2), of a b keys] blocks_distinct(1) [OF assms(2)] that by auto
  moreover have "manifest_keys (store(block_key keys b \<mapsto> body)) keys = manifest_keys store keys"
    using block_key_no_manifest [of keys b] by (auto simp: manifest_keys_def split: if_splits)
  ultimately show ?thesis using assms(1) manifest_key_not_segment [of keys _ b] by (auto simp: archive_holds_def)
qed

lemma holds_manifest_written:
  assumes "archive_holds env member keys keys t bs store" "chain_blocks env member t (bs @ [b])" "store (block_key keys b) = Some (block_body b)"
  shows "archive_holds env member keys keys t (bs @ [b]) (store(block_key keys b @ MANIFEST_SUFFIX \<mapsto> utf8_encode (block_text env keys t b)))"
proof -
  let ?store = "store(block_key keys b @ MANIFEST_SUFFIX \<mapsto> utf8_encode (block_text env keys t b))"
  have "block_key keys a \<noteq> block_key keys b" if "a \<in> set bs" for a
    using block_key_inject [OF assms(2), of a b keys] blocks_distinct(1) [OF assms(2)] that by auto
  moreover have "manifest_keys ?store keys = insert (block_key keys b @ MANIFEST_SUFFIX) (manifest_keys store keys)"
    using block_key_prefix(2) [of keys b] by (auto simp: manifest_keys_def suffix_def split: if_splits)
  moreover have "?store (block_key keys a) = store (block_key keys a)" for a
    using manifest_key_not_segment [of keys b a] by (metis fun_upd_other)
  ultimately show ?thesis using assms by (auto simp: archive_holds_def simp del: fun_upd_apply) auto
qed

text \<open>The outcome of a call as it is reported.\<close>

definition reports :: "staging_env \<Rightarrow> string \<Rightarrow> string \<Rightarrow> sealed_block list \<Rightarrow> jsval list \<Rightarrow> jsval \<Rightarrow> bool" where
  "reports env keys t bs rs m \<longleftrightarrow> (\<exists>b \<in> set bs. (m = block_manifest env keys t b \<or> m = read_manifest env keys t b) \<and>
     low b = low (new_block env rs) \<and> high b = high (new_block env rs) \<and>
     re_sha_bytes (sv_retention env) (block_body b) = re_sha_bytes (sv_retention env) (block_body (new_block env rs)))"

lemma sealSegment_steps:
  assumes "rs \<noteq> []" "\<forall>v \<in> set rs. archivable env member t v" "archive_env env t" "member \<noteq> proto_key"
    and "in_sequence (int_prop (hd rs) ''sequence'' - 1) (js_prop (hd rs) ''previousHash'') rs"
  shows "sealSegment env client keys (record_codec (re_sha (sv_retention env)) chain member) rs =
    (let K = tenantPrefix keys (record_codec (re_sha (sv_retention env)) chain member) t; b = new_block env rs in
     thenDo (listManifests env client keys (record_codec (re_sha (sv_retention env)) chain member) t) (\<lambda>manifests.
     thenDo (liftA (seal_plan manifests (hd rs) (last rs) (re_sha_bytes (sv_retention env) (block_body b)))) (\<lambda>plan.
     case plan of
       Some existing \<Rightarrow> pureA existing
     | None \<Rightarrow>
         thenDo (oc_put client (block_key K b) (block_body b)) (\<lambda>_.
         thenDo (liftA (canonicalJson (block_manifest env K t b))) (\<lambda>text.
         thenDo (oc_put client (block_key K b @ MANIFEST_SUFFIX) (utf8_encode text)) (\<lambda>_.
         pureA (block_manifest env K t b)))))))"
proof -
  let ?codec = "record_codec (re_sha (sv_retention env)) chain member"
  let ?K = "tenantPrefix keys ?codec t" and ?b = "new_block env rs"
  have v: "validateSegmentRecords ?codec rs = Inr t" using validate_records [OF assms(2,1,3), of chain t] assms(5) by simp
  have f: "fst ?b = rs" by (simp add: new_block_def)
  from assms(1,2) have "fst ?b \<noteq> []" "\<forall>v \<in> set (fst ?b). archivable env member t v" by (simp_all add: f)
  from block_lines [OF this assms(4)] have body: "segment_body rs = Inr (block_body ?b)" unfolding f by metis
  have key: "str_prop (block_manifest env ?K t ?b) ''segmentKey'' = block_key ?K ?b"
    by (simp add: block_manifest_def segment_manifest_def str_prop_def js_prop_def get_prop_def block_key_def low_def high_def)
  have "(checkThat (rs \<noteq> []) ''segment requires at least one record'' :: ('a, unit) action) = pureA ()"
    using assms(1) by (auto simp: checkThat_def liftA_def pureA_def)
  then show ?thesis unfolding sealSegment_def
    by (simp add: v body new_manifest [OF body] key Let_def del: thenDo_simps)
qed

context archive_store
begin

lemma write_outcome:
  assumes holds: "archive_holds env member K K t bs (objects p)" and env: "archive_env env t"
    and c: "chain_blocks env member t (bs @ [b])"
    and w: "thenDo (oc_put client (block_key K b) (block_body b)) (\<lambda>_.
      thenDo (liftA (canonicalJson (block_manifest env K t b))) (\<lambda>text.
      thenDo (oc_put client (block_key K b @ MANIFEST_SUFFIX) (utf8_encode text)) (\<lambda>_.
      pureA (block_manifest env K t b)))) p = (r, p')"
  shows "\<forall>k. \<not> prefix K k \<longrightarrow> objects p' k = objects p k"
    and "archive_holds env member K K t bs (objects p') \<and> (\<forall>m. r \<noteq> Inr m) \<or>
      archive_holds env member K K t (bs @ [b]) (objects p') \<and> (\<forall>m. r = Inr m \<longrightarrow> m = block_manifest env K t b)"
proof -
  let ?goal = "\<lambda>r p'. (\<forall>k. \<not> prefix K k \<longrightarrow> objects p' k = objects p k) \<and>
    (archive_holds env member K K t bs (objects p') \<and> (\<forall>m. r \<noteq> Inr m) \<or>
      archive_holds env member K K t (bs @ [b]) (objects p') \<and> (\<forall>m. r = Inr m \<longrightarrow> m = block_manifest env K t b))"
  have b: "b \<in> set (bs @ [b])" by simp
  obtain r1 p1 where 1: "oc_put client (block_key K b) (block_body b) p = (r1, p1)" by fastforce
  have p1: "archive_holds env member K K t bs (objects p1)" "\<forall>k. \<not> prefix K k \<longrightarrow> objects p1 k = objects p k"
    using put_keeps [OF 1] holds_segment_written [OF holds c] holds block_key_prefix(1) [of K b] by auto
  have "?goal r p'"
  proof (cases r1)
    case (Inl e)
    with w 1 p1 show ?thesis by (auto simp: thenDo_def)
  next
    case (Inr u)
    obtain r2 p2 where 2: "oc_put client (block_key K b @ MANIFEST_SUFFIX) (utf8_encode (block_text env K t b)) p1 = (r2, p2)" by fastforce
    from w [unfolded block_manifest_read(1) [OF c env b]] 1 2 Inr have r: "p' = p2" "r = Inr m \<Longrightarrow> m = block_manifest env K t b \<and> (\<exists>u. r2 = Inr u)" for m
      by (auto simp: thenDo_def split: sum.splits)
    have "objects p1 (block_key K b) = Some (block_body b)" using put_result 1 Inr by simp
    note written = holds_manifest_written [OF p1(1) c this]
    have "\<forall>k. \<not> prefix K k \<longrightarrow> objects p2 k = objects p k" using put_keeps [OF 2] p1(2) block_key_prefix(2) [of K b] by auto
    then show ?thesis using put_keeps [OF 2] put_result [of "block_key K b @ MANIFEST_SUFFIX"] 2 written p1(1) r by (cases r2) auto
  qed
  then show "\<forall>k. \<not> prefix K k \<longrightarrow> objects p' k = objects p k"
    and "archive_holds env member K K t bs (objects p') \<and> (\<forall>m. r \<noteq> Inr m) \<or>
      archive_holds env member K K t (bs @ [b]) (objects p') \<and> (\<forall>m. r = Inr m \<longrightarrow> m = block_manifest env K t b)" by blast+
qed

lemma seal_outcome:
  assumes holds: "archive_holds env member K K t bs (objects p)" and K: "K = tenantPrefix keys (record_codec (re_sha (sv_retention env)) chain member) t"
    and env: "archive_env env t" and rs: "\<forall>v \<in> set rs. archivable env member t v" and member: "member \<noteq> proto_key"
    and size: "int (length (chain_values bs) + length rs) \<le> max_safe_integer"
    and seal: "sealSegment env client keys (record_codec (re_sha (sv_retention env)) chain member) rs p = (r, p')"
  shows "\<forall>k. \<not> prefix K k \<longrightarrow> objects p' k = objects p k"
    and "\<exists>bs'. archive_holds env member K K t bs' (objects p') \<and> (bs' = bs \<or> extends bs rs \<and> bs' = bs @ [new_block env rs]) \<and>
      (\<forall>m. r = Inr m \<longrightarrow> reports env K t bs' rs m \<and> (bs' = bs \<longrightarrow> objects p' = objects p))"
proof -
  let ?codec = "record_codec (re_sha (sv_retention env)) chain member"
  let ?b = "new_block env rs" and ?body = "block_body (new_block env rs)"
  let ?goal = "\<lambda>r p'. (\<forall>k. \<not> prefix K k \<longrightarrow> objects p' k = objects p k) \<and> (\<exists>bs'. archive_holds env member K K t bs' (objects p') \<and>
    (bs' = bs \<or> extends bs rs \<and> bs' = bs @ [?b]) \<and> (\<forall>m. r = Inr m \<longrightarrow> reports env K t bs' rs m \<and> (bs' = bs \<longrightarrow> objects p' = objects p)))"
  have failed: "?goal (Inl e) q" if "objects q = objects p" for e q
    using holds that by (intro conjI exI [of _ bs]) auto
  have c: "chain_blocks env member t bs" using holds by (simp add: archive_holds_def)
  consider "rs = []" | "rs \<noteq> []" "\<not> in_sequence (int_prop (hd rs) ''sequence'' - 1) (js_prop (hd rs) ''previousHash'') rs"
    | "rs \<noteq> []" "in_sequence (int_prop (hd rs) ''sequence'' - 1) (js_prop (hd rs) ''previousHash'') rs" by blast
  then have "?goal r p'"
  proof cases
    case 1
    with seal failed show ?thesis by (auto simp: sealSegment_def thenDo_check)
  next
    case 2
    with validate_records [OF rs 2(1) env, of chain] obtain e where "validateSegmentRecords ?codec rs = Inl e"
      by (cases "validateSegmentRecords ?codec rs") auto
    with seal 2(1) failed show ?thesis by (auto simp: sealSegment_def thenDo_check)
  next
    case 3
    note steps = seal [unfolded sealSegment_steps [OF 3(1) rs env member 3(2)] Let_def K [symmetric]]
    obtain l p1 where l: "listManifests env client keys ?codec t p = (l, p1)" by fastforce
    note p1 = list_keeps_objects [OF l]
    show ?thesis
    proof (cases l)
      case (Inl e)
      with steps l p1 failed show ?thesis by (auto simp: thenDo_def)
    next
      case (Inr ms)
      with listed_blocks [OF holds [unfolded K] env] l have ms: "ms = map (read_manifest env K t) bs" by (simp add: K)
      let ?plan = "seal_plan ms (hd rs) (last rs) (re_sha_bytes (sv_retention env) ?body)"
      show ?thesis
      proof (cases ?plan)
        case i: (Inl e)
        with steps l Inr p1 failed show ?thesis by (auto simp: thenDo_def [of "listManifests _ _ _ _ _"])
      next
        case plan: (Inr found)
        show ?thesis
        proof (cases found)
          case (Some m)
          with steps l Inr plan have r: "r = Inr m" "p' = p1" by (simp_all add: thenDo_def [of "listManifests _ _ _ _ _"])
          from plan_existing [OF c env plan [unfolded ms Some]] obtain b where "b \<in> set bs" "m = read_manifest env K t b"
              "low b = low ?b" "high b = high ?b" "re_sha_bytes (sv_retention env) (block_body b) = re_sha_bytes (sv_retention env) ?body"
            unfolding new_block_def by metis
          then have "reports env K t bs rs m" by (auto simp: reports_def)
          with r p1 holds show ?thesis by (intro conjI exI [of _ bs]) auto
        next
          case None
          with plan_new [OF c env 3] plan ms have ext: "extends bs rs" by simp
          have f: "fst ?b = rs" by (simp add: new_block_def)
          with extends_block [OF c, of ?b] ext 3(1) rs size have c': "chain_blocks env member t (bs @ [?b])" by simp
          from steps l Inr plan None have w: "thenDo (oc_put client (block_key K ?b) ?body) (\<lambda>_.
             thenDo (liftA (canonicalJson (block_manifest env K t ?b))) (\<lambda>text.
             thenDo (oc_put client (block_key K ?b @ MANIFEST_SUFFIX) (utf8_encode text)) (\<lambda>_.
             pureA (block_manifest env K t ?b)))) p1 = (r, p')" by (simp add: thenDo_def [of "listManifests _ _ _ _ _"])
          have holds1: "archive_holds env member K K t bs (objects p1)" using holds p1 by simp
          have "reports env K t (bs @ [?b]) rs (block_manifest env K t ?b)" by (auto simp: reports_def)
          with write_outcome [OF holds1 env c' w] p1 ext show ?thesis by auto
        qed
      qed
    qed
  qed
  then show "\<forall>k. \<not> prefix K k \<longrightarrow> objects p' k = objects p k"
    and "\<exists>bs'. archive_holds env member K K t bs' (objects p') \<and> (bs' = bs \<or> extends bs rs \<and> bs' = bs @ [new_block env rs]) \<and>
      (\<forall>m. r = Inr m \<longrightarrow> reports env K t bs' rs m \<and> (bs' = bs \<longrightarrow> objects p' = objects p))" by blast+
qed

end

context steady_archive_store
begin

lemma seal_new:
  assumes "archive_holds env member K K t bs (objects p)" "K = tenantPrefix keys (record_codec (re_sha (sv_retention env)) chain member) t"
    and "archive_env env t" "\<forall>v \<in> set rs. archivable env member t v" "member \<noteq> proto_key"
    and "int (length (chain_values bs) + length rs) \<le> max_safe_integer" "rs \<noteq> []" "extends bs rs"
  obtains p' where "sealSegment env client keys (record_codec (re_sha (sv_retention env)) chain member) rs p =
      (Inr (block_manifest env K t (new_block env rs)), p')"
    "archive_holds env member K K t (bs @ [new_block env rs]) (objects p')"
proof -
  let ?codec = "record_codec (re_sha (sv_retention env)) chain member" and ?b = "new_block env rs"
  have c: "chain_blocks env member t bs" using assms(1) by (simp add: archive_holds_def)
  have f: "fst ?b = rs" by (simp add: new_block_def)
  with extends_block [OF c, of ?b] assms(4,6-8) have c': "chain_blocks env member t (bs @ [?b])" by simp
  note e = sequence_ends [OF assms(8) [unfolded extends_def] assms(7)]
  have seq: "in_sequence (int_prop (hd rs) ''sequence'' - 1) (js_prop (hd rs) ''previousHash'') rs"
    using assms(8) e by (simp add: extends_def int_prop_def)
  from list_returns_blocks [OF assms(1) [unfolded assms(2)] assms(3)] obtain p1 where
    l: "listManifests env client keys ?codec t p = (Inr (map (read_manifest env K t) bs), p1)" "objects p1 = objects p"
    unfolding assms(2) by metis
  have plan: "seal_plan (map (read_manifest env K t) bs) (hd rs) (last rs) (re_sha_bytes (sv_retention env) (block_body ?b)) = Inr None"
    using plan_new [OF c assms(3,7) seq] assms(8) by simp
  obtain p2 where 2: "oc_put client (block_key K ?b) (block_body ?b) p1 = (Inr (), p2)" using put_inr by blast
  obtain p3 where 3: "oc_put client (block_key K ?b @ MANIFEST_SUFFIX) (utf8_encode (block_text env K t ?b)) p2 = (Inr (), p3)"
    using put_inr by blast
  have b: "?b \<in> set (bs @ [?b])" by simp
  have w: "thenDo (oc_put client (block_key K ?b) (block_body ?b)) (\<lambda>_.
      thenDo (liftA (canonicalJson (block_manifest env K t ?b))) (\<lambda>text.
      thenDo (oc_put client (block_key K ?b @ MANIFEST_SUFFIX) (utf8_encode text)) (\<lambda>_.
      pureA (block_manifest env K t ?b)))) p1 = (Inr (block_manifest env K t ?b), p3)"
    using 2 3 by (simp add: block_manifest_read(1) [OF c' assms(3) b] thenDo_def pureA_def)
  have holds1: "archive_holds env member K K t bs (objects p1)" using assms(1) l(2) by simp
  have "sealSegment env client keys ?codec rs p = (Inr (block_manifest env K t ?b), p3)"
    unfolding sealSegment_steps [OF assms(7,4,3,5) seq] Let_def assms(2) [symmetric]
    using w by (simp add: thenDo_def [of "listManifests _ _ _ _ _"] l(1) plan)
  with that write_outcome(2) [OF holds1 assms(3) c' w] show thesis by blast
qed

lemma seal_again:
  assumes "archive_holds env member K K t bs (objects p)" "K = tenantPrefix keys (record_codec (re_sha (sv_retention env)) chain member) t"
    and "archive_env env t" "member \<noteq> proto_key" "b \<in> set bs"
  obtains p' where "sealSegment env client keys (record_codec (re_sha (sv_retention env)) chain member) (fst b) p =
      (Inr (read_manifest env K t b), p')" "objects p' = objects p"
proof -
  let ?codec = "record_codec (re_sha (sv_retention env)) chain member"
  have c: "chain_blocks env member t bs" using assms(1) by (simp add: archive_holds_def)
  from assms(5) obtain xs ys where bs: "bs = xs @ b # ys" by (auto dest: split_list)
  note f = block_facts [OF c bs]
  have seq: "in_sequence (int_prop (hd (fst b)) ''sequence'' - 1) (js_prop (hd (fst b)) ''previousHash'') (fst b)"
    using f(3) sequence_ends [OF f(3,1)] by (simp add: int_prop_def)
  from list_returns_blocks [OF assms(1) [unfolded assms(2)] assms(3)] obtain p1 where
    l: "listManifests env client keys ?codec t p = (Inr (map (read_manifest env K t) bs), p1)" "objects p1 = objects p"
    unfolding assms(2) by metis
  have "block_body (new_block env (fst b)) = block_body b" by (simp add: block_body_def new_block_def)
  then have "sealSegment env client keys ?codec (fst b) p = (Inr (read_manifest env K t b), p1)"
    unfolding sealSegment_steps [OF f(1,2) assms(3,4) seq] Let_def assms(2) [symmetric]
    by (simp add: thenDo_def [of "listManifests _ _ _ _ _"] l(1) plan_repeated [OF c assms(3,5)])
  with that l(2) show thesis by blast
qed

end

end
