(* ===== verification/ArchiveDrain.thy ===== *)
theory ArchiveDrain
  imports ArchiveSealing StagingEpochs
begin

text \<open>
  What the object archive promises, and the drain of a memory store into it: the loop ends, an attempt
  that was broken off leaves a valid archive of a prefix, and the next one completes it.
\<close>

section \<open>The records of a memory store\<close>

lemma record_archivable:
  assumes "storable env r" "sealed (auditEnvelope (re_sha (sv_retention env))) r"
    and "Option.bind (event_scope (rec_event r)) tenantId = Some t"
  shows "archivable env ''event'' t (record_value r)"
proof -
  obtain kvs where k: "record_value r = JObj kvs" "wf_value (JObj kvs)"
      "record_body_json r = JObj (filter (\<lambda>kv. fst kv \<noteq> ''hash'') kvs)"
    using record_value_wf [of r] assms(1) by (auto simp: storable_def)
  have hash: "hashParsedRecord (re_sha (sv_retention env)) (record_value r) = Inr (rec_hash r)"
    using assms(2) k by (simp add: hashParsedRecord_def without_hash_def sealed_def auditEnvelope_def hashAuditRecord_def)
  have tenant: "member_tenant ''event'' (record_value r) = Inr (JStr t)"
    using assms(3) by (auto simp: member_tenant_iff record_value_def event_json_def scope_json_def js_prop_def get_prop_def opt_json_def
        split: option.splits bind_splits)
  have props: "js_prop (record_value r) ''hashAlgorithm'' = JStr HASH_ALGORITHM" "js_prop (record_value r) ''canonicalization'' = JStr CANONICALIZATION"
    using assms(2) by (simp_all add: record_value_def js_prop_def get_prop_def sealed_def auditEnvelope_def)
  have wf: "wf_value (record_value r)" using k(1,2) by simp
  from assms(2) obtain body where "canonicalJson (record_body_json r) = Inr body"
    by (auto simp: sealed_def auditEnvelope_def hashAuditRecord_def andThen_Inr_iff)
  then obtain x where "normalizeForJson (record_body_json r) = Inr x" by (rule canonicalJson_InrE)
  from normalize_member_ok [OF this [unfolded record_body_json_def], of "(''event'', event_json (rec_event r))"]
  have "\<exists>line. canonicalJson (record_value r) = Inr line"
    unfolding record_value_def by (intro canonical_object_total) (auto simp: is_finite_number_def simp del: normalizeForJson.simps(7))
  moreover have "js_prop (record_value r) ''sequence'' = JNum (NInt (int_prop (record_value r) ''sequence''))"
    by (simp add: record_value_props int_prop_def)
  moreover have "js_prop (record_value r) ''previousHash'' = JNull \<or> (\<exists>h. js_prop (record_value r) ''previousHash'' = JStr h)"
    by (cases "rec_previousHash r") (simp_all add: record_value_props nullable_json_def)
  ultimately show ?thesis
    using assms(1) wf hash tenant props by (simp add: archivable_def accepted_record_def storable_def record_value_props)
qed

text \<open>A tenant's chain as values, and its pages.\<close>

lemma linked_values:
  "linked_from (auditEnvelope sha) l rs \<Longrightarrow>
    in_sequence (link_sequence l) (nullable_json (link_previousHash l)) (map record_value rs)"
proof (induction rs arbitrary: l)
  case (Cons r rs)
  from Cons.IH [of "link_after (auditEnvelope sha) r"] Cons.prems show ?case
    by (auto simp: in_sequence_Cons record_value_props links_def link_after_def auditEnvelope_def nullable_json_def [of "Some _"])
qed simp

lemma linked_drop:
  "linked_from env l rs \<Longrightarrow> filter (\<lambda>r. link_sequence l + int k < env_sequence env r) rs = drop k rs"
proof (induction rs arbitrary: l k)
  case (Cons r rs)
  then have r: "env_sequence env r = link_sequence l + 1" and rest: "linked_from env (link_after env r) rs" by (auto simp: links_def)
  show ?case
  proof (cases k)
    case 0
    have "filter (\<lambda>r. link_sequence l < env_sequence env r) rs = rs"
      using linked_bounds [OF rest] r by (fastforce simp: filter_id_conv link_after_def)
    with 0 r show ?thesis by simp
  next
    case (Suc j)
    with Cons.IH [OF rest, of j] r show ?thesis by (simp add: link_after_def add.commute add.left_commute)
  qed
qed simp

text \<open>What the drain relies on: the tenant's records in a store that nothing has been compacted from.\<close>

definition drainable :: "staging_env \<Rightarrow> memory_store \<Rightarrow> string \<Rightarrow> bool" where
  "drainable env s t \<longleftrightarrow> archive_env env t \<and> store_reachable (sv_retention env) s \<and> checkpoints_of s t = [] \<and>
     list_all (storable env) (hot s t) \<and> int (length (hot s t)) \<le> max_safe_integer"

lemma drainable_facts:
  assumes "drainable env s t"
  shows "linked_from (auditEnvelope (re_sha (sv_retention env))) genesis (hot s t)"
    "in_sequence 0 JNull (map record_value (hot s t))" "\<forall>v \<in> set (map record_value (hot s t)). archivable env ''event'' t v"
proof -
  note d = assms [unfolded drainable_def archive_env_def]
  from d have inv: "tenant_inv (sv_retention env) s t" using reachable_store_inv by (auto simp: store_inv_def)
  have t: "\<not> blank t" using d by simp
  note h = tenant_inv_hot [OF inv t]
  from h d show l: "linked_from (auditEnvelope (re_sha (sv_retention env))) genesis (hot s t)" by (simp add: anchor_link_def last_of_def)
  from linked_values [OF l] show "in_sequence 0 JNull (map record_value (hot s t))" by (simp add: genesis_def nullable_json_def)
  show "\<forall>v \<in> set (map record_value (hot s t)). archivable env ''event'' t v"
    using h d by (auto simp: list_all_iff hot_def belongs_def intro!: record_archivable)
qed

lemma sequence_of_chain:
  "drainable env s t \<Longrightarrow> i < length (hot s t) \<Longrightarrow> rec_sequence (hot s t ! i) = int i + 1"
  using drainable_facts(1) [of env s t] by (simp add: unbroken_iff_linked [symmetric] unbroken_def auditEnvelope_def)

lemma page_of_chain:
  assumes "drainable env s t" "1 \<le> n"
  shows "memory_pages s t (int k) n = liftA (Inr (take (nat n) (drop k (hot s t))))"
proof -
  have "\<not> blank t" using assms(1) by (simp add: drainable_def archive_env_def)
  moreover have "filter (\<lambda>r. belongs t r \<and> int k < rec_sequence r) (ms_records s) = drop k (hot s t)"
    using linked_drop [OF drainable_facts(1) [OF assms(1)], of k] by (simp add: genesis_def auditEnvelope_def hot_def conj_commute)
  ultimately show ?thesis using assms(2)
    by (simp add: memory_pages_def list_records_def assertNonEmpty_def non_negative_integer_def Let_def)
qed

section \<open>The loop\<close>

definition drained :: "staging_env \<Rightarrow> string \<Rightarrow> memory_store \<Rightarrow> string \<Rightarrow> nat \<Rightarrow> sealed_block list \<Rightarrow> (string \<Rightarrow> bytes option) \<Rightarrow> bool" where
  "drained env keys s t k bs store \<longleftrightarrow> k \<le> length (hot s t) \<and> chain_values bs = map record_value (take k (hot s t)) \<and>
     (let K = tenantPrefix keys (event_codec (re_sha (sv_retention env))) t in archive_holds env ''event'' K K t bs store)"

lemma drained_extends:
  assumes "drainable env s t" "drained env keys s t k bs store"
  shows "extends bs (map record_value (take n (drop k (hot s t))))"
proof -
  let ?rs = "map record_value (hot s t)"
  have "?rs = map record_value (take k (hot s t)) @ map record_value (take n (drop k (hot s t))) @ map record_value (drop n (drop k (hot s t)))"
    by (simp only: map_append [symmetric] append_take_drop_id)
  with drainable_facts(2) [OF assms(1)] have
    "in_sequence 0 JNull (map record_value (take k (hot s t)) @ map record_value (take n (drop k (hot s t))) @ map record_value (drop n (drop k (hot s t))))"
    by (simp only:)
  note this [unfolded in_sequence_append [of 0 JNull]]
  moreover have vals: "chain_values bs = map record_value (take k (hot s t))" using assms(2) by (simp add: drained_def)
  ultimately show ?thesis unfolding extends_def chain_end_def vals in_sequence_append by simp
qed

text \<open>However an attempt goes, it ends, and leaves the blocks of a prefix. When \<open>sealed\<close>, no sealing fails and
  the prefix is everything.\<close>

context archive_store
begin

lemma seal_page:
  assumes d: "drainable env s t" "drained env keys s t k bs (objects p)" and n: "1 \<le> n" and batch: "take n (drop k (hot s t)) \<noteq> []"
    and seal: "sealSegment env client keys (event_codec (re_sha (sv_retention env))) (map record_value (take n (drop k (hot s t)))) p = (r, p')"
  shows "\<exists>j bs'. drained env keys s t j bs' (objects p') \<and> (\<forall>m. r = Inr m \<longrightarrow> j = min (length (hot s t)) (k + n))"
proof -
  let ?vs = "map record_value (take n (drop k (hot s t)))" and ?K = "tenantPrefix keys (event_codec (re_sha (sv_retention env))) t"
  note facts = drainable_facts [OF d(1)] and dr = d(2) [unfolded drained_def Let_def]
  have env: "archive_env env t" and size: "int (length (hot s t)) \<le> max_safe_integer" using d(1) by (simp_all add: drainable_def)
  have arch: "\<forall>v \<in> set ?vs. archivable env ''event'' t v" using facts(3) by (auto dest: in_set_takeD in_set_dropD)
  have len: "int (length (chain_values bs) + length ?vs) \<le> max_safe_integer" using dr size by (auto simp: min_def)
  from seal_outcome(2) [OF _ _ env arch _ len, of ?K p keys "''events''" r p'] dr seal obtain bs' where
    o: "archive_holds env ''event'' ?K ?K t bs' (objects p')" "bs' = bs \<or> extends bs ?vs \<and> bs' = bs @ [new_block env ?vs]"
      "\<forall>m. r = Inr m \<longrightarrow> reports env ?K t bs' ?vs m"
    by (auto simp: event_codec_def proto_key_def)
  show ?thesis
  proof (cases "bs' = bs")
    case True
    have "r \<noteq> Inr m" for m
    proof
      assume "r = Inr m"
      with o(3) True obtain b where b: "b \<in> set bs" "low b = low (new_block env ?vs)" by (auto simp: reports_def)
      have "in_sequence (int (length (chain_values bs))) (chain_end bs) ?vs" using drained_extends [OF d] by (simp add: extends_def)
      from sequence_ends(1) [OF this] batch have "low (new_block env ?vs) = int (length (chain_values bs)) + 1"
        by (simp add: low_def new_block_def int_prop_def)
      moreover have "low b \<le> int (length (chain_values bs))" using blocks_increase [of env "''event''" t bs] b(1) dr
        by (fastforce simp: archive_holds_def)
      ultimately show False using b(2) by simp
    qed
    with o(1) True dr show ?thesis by (intro exI [of _ k] exI [of _ bs]) (auto simp: drained_def)
  next
    case False
    with o(2) have "chain_values bs' = map record_value (take k (hot s t) @ take n (drop k (hot s t)))" using dr by (simp add: new_block_def)
    also have "take k (hot s t) @ take n (drop k (hot s t)) = take (min (length (hot s t)) (k + n)) (hot s t)" by (simp add: take_add [symmetric] min_def)
    finally show ?thesis using o(1) by (intro exI [of _ "min (length (hot s t)) (k + n)"] exI [of _ bs']) (simp add: drained_def)
  qed
qed

lemma drain_outcome:
  assumes d: "drainable env s t" and n: "1 \<le> n"
    and never: "\<And>k bs p. never_fails \<Longrightarrow> drained env keys s t k bs (objects p) \<Longrightarrow> take (nat n) (drop k (hot s t)) \<noteq> [] \<Longrightarrow>
      \<exists>m p'. sealSegment env client keys (event_codec (re_sha (sv_retention env))) (map record_value (take (nat n) (drop k (hot s t)))) p = (Inr m, p')"
  shows "drained env keys s t k bs (objects p) \<Longrightarrow>
    \<exists>r p' j bs'. drain_tail (sealSegment env client keys (event_codec (re_sha (sv_retention env)))) (\<lambda>after. memory_pages s t after n) n (int k) ms p = Some (r, p') \<and>
      drained env keys s t j bs' (objects p') \<and> (\<forall>x. r = Inr x \<longrightarrow> j = length (hot s t)) \<and> (never_fails \<longrightarrow> (\<exists>x. r = Inr x))"
proof (induction "length (hot s t) - k" arbitrary: k bs p ms rule: less_induct)
  case less
  let ?seal = "sealSegment env client keys (event_codec (re_sha (sv_retention env)))" and ?page = "\<lambda>after. memory_pages s t after n"
  let ?batch = "take (nat n) (drop k (hot s t))"
  have page: "?page (int k) p = (Inr ?batch, p)" by (simp add: page_of_chain [OF d n])
  define B where B: "B = ?batch"
  have k: "k \<le> length (hot s t)" using less.prems by (simp add: drained_def)
  show ?case
  proof (cases "?batch = []")
    case True
    then have "k = length (hot s t)" using k n by auto
    moreover have "drain_tail ?seal ?page n (int k) ms p = Some (Inr ms, p)" by (subst drain_tail.simps) (simp add: page True)
    ultimately show ?thesis using less.prems by blast
  next
    case False
    obtain r p1 where seal: "?seal (map record_value ?batch) p = (r, p1)" by fastforce
    have n': "1 \<le> nat n" using n by linarith
    from seal_page [OF d less.prems n' False seal] obtain j bs' where
      j: "drained env keys s t j bs' (objects p1)" "\<forall>m. r = Inr m \<longrightarrow> j = min (length (hot s t)) (k + nat n)" by auto
    show ?thesis
    proof (cases r)
      case (Inl e)
      then have "drain_tail ?seal ?page n (int k) ms p = Some (Inl e, p1)" by (subst drain_tail.simps) (simp add: page [folded B] False [folded B] seal [folded B])
      moreover have "\<not> never_fails" 
      proof
        assume never_fails
        from never [OF this less.prems False] seal Inl show False by (simp del: take_eq_Nil)
      qed
      ultimately show ?thesis using j(1) by blast
    next
      case (Inr m)
      show ?thesis
      proof (cases "int (length ?batch) < n")
        case True
        then have "j = length (hot s t)" using j(2) Inr k by auto
        moreover from True have "int (length B) < n" by (simp add: B)
        then have "drain_tail ?seal ?page n (int k) ms p = Some (Inr (ms @ [m]), p1)"
          by (subst drain_tail.simps) (simp add: page [folded B] False [folded B] seal [folded B] Inr)
        ultimately show ?thesis using j(1) by blast
      next
        case full: False
        then have j': "j = k + nat n" "length ?batch = nat n" using j(2) Inr n by (auto simp: min_def split: if_splits)
        have "last ?batch = hot s t ! (j - 1)" using j' False n' by (simp add: last_conv_nth Nat.add_diff_assoc)
        then have "rec_sequence (last B) = int j" unfolding B
          using j' n k sequence_of_chain [OF d, of "j - 1"] j(1) by (auto simp: drained_def)
        then have step: "drain_tail ?seal ?page n (int k) ms p = drain_tail ?seal ?page n (int j) (ms @ [m]) p1"
          using full [folded B] by (subst drain_tail.simps) (simp add: page [folded B] False [folded B] seal [folded B] Inr)
        have "length (hot s t) - j < length (hot s t) - k" using j' n False by auto
        from less.hyps [OF this j(1), of "ms @ [m]"] step show ?thesis by simp
      qed
    qed
  qed
qed

end

section \<open>A whole attempt\<close>

lemma drained_no_blocks:
  assumes "manifest_keys store (tenantPrefix keys (event_codec (re_sha (sv_retention env))) t) = {}"
  shows "drained env keys s t 0 [] store"
  using assms by (simp add: drained_def archive_holds_def chain_blocks_def max_safe_integer_def)

lemma attempt_unfold:
  assumes "drainable env s t" "1 \<le> n"
  shows "archiveAuditStoreTenant (createObjectAuditArchive env client (Some keys)) (memory_pages s t) t (Some (NInt n)) p =
    (case listManifests env client keys (event_codec (re_sha (sv_retention env))) t p of
       (Inl e, p1) \<Rightarrow> Some (Inl e, p1)
     | (Inr ms, p1) \<Rightarrow> drain_tail (sealSegment env client keys (event_codec (re_sha (sv_retention env)))) (\<lambda>after. memory_pages s t after n) n
         (case last_of ms of None \<Rightarrow> 0 | Some m \<Rightarrow> int_prop m ''toSequence'') [] p1)"
proof -
  have "assertNonEmpty t ''tenantId'' = Inr ()" using assms(1) by (simp add: drainable_def archive_env_def assertNonEmpty_def)
  then show ?thesis using assms(2)
    by (simp add: archiveAuditStoreTenant_def createObjectAuditArchive_def listSegments_def Let_def split: prod.split sum.split)
qed

text \<open>The tip that the archive's own manifests name is where the drain goes on.\<close>

lemma drained_tip:
  assumes "drainable env s t" "drained env keys s t k bs store"
    and "K = tenantPrefix keys (event_codec (re_sha (sv_retention env))) t"
  shows "(case last_of (map (read_manifest env K t) bs) of None \<Rightarrow> 0 | Some m \<Rightarrow> int_prop m ''toSequence'') = int k"
proof -
  have d: "k \<le> length (hot s t)" "chain_values bs = map record_value (take k (hot s t))" "chain_blocks env ''event'' t bs"
    using assms(2) by (simp_all add: drained_def archive_holds_def Let_def)
  have len: "length (chain_values bs) = k" using d(1,2) by simp
  have env: "archive_env env t" using assms(1) by (simp add: drainable_def)
  show ?thesis
  proof (cases bs rule: rev_cases)
    case Nil
    with len show ?thesis by (simp add: last_of_def)
  next
    case (snoc xs b)
    have bs: "bs = xs @ b # []" and mem: "b \<in> set bs" by (simp_all add: snoc)
    from block_manifest_props(3) [OF d(3) env bs, of K] block_manifest_read(3) [OF d(3) env mem, of K] block_facts(5) [OF d(3) bs]
    have "int_prop (read_manifest env K t b) ''toSequence'' = int (length (chain_values (xs @ [b])))" by (simp add: int_prop_def)
    with len show ?thesis unfolding snoc by (simp add: last_of_def)
  qed
qed

context archive_store
begin

lemma attempt_outcome:
  assumes "drainable env s t" "1 \<le> n" "drained env keys s t k bs (objects p)"
  shows "\<exists>r p' j bs'. archiveAuditStoreTenant (createObjectAuditArchive env client (Some keys)) (memory_pages s t) t (Some (NInt n)) p = Some (r, p') \<and>
    drained env keys s t j bs' (objects p')"
proof -
  let ?codec = "event_codec (re_sha (sv_retention env))" and ?K = "tenantPrefix keys (event_codec (re_sha (sv_retention env))) t"
  obtain l p1 where l: "listManifests env client keys ?codec t p = (l, p1)" by fastforce
  have p1: "drained env keys s t k bs (objects p1)" using assms(3) list_keeps_objects [OF l] by simp
  show ?thesis
  proof (cases l)
    case (Inl e)
    with l p1 show ?thesis by (auto simp: attempt_unfold [OF assms(1,2)])
  next
    case (Inr ms)
    have "archive_holds env ''event'' ?K ?K t bs (objects p)" "archive_env env t"
      using assms(1,3) by (simp_all add: drained_def drainable_def Let_def)
    from listed_blocks [OF this] l Inr have ms: "ms = map (read_manifest env ?K t) bs" by blast
    from drain_outcome [OF assms(1,2), of False keys k bs p1 "[]"] p1 show ?thesis
      unfolding attempt_unfold [OF assms(1,2)] l Inr ms prod.case sum.case drained_tip [OF assms(1,3) refl] by auto
  qed
qed

end

context steady_archive_store
begin

lemma attempt_completes:
  assumes "drainable env s t" "1 \<le> n" "drained env keys s t k bs (objects p)"
  obtains ms p' bs' where "archiveAuditStoreTenant (createObjectAuditArchive env client (Some keys)) (memory_pages s t) t (Some (NInt n)) p = Some (Inr ms, p')"
    "drained env keys s t (length (hot s t)) bs' (objects p')"
proof -
  let ?codec = "event_codec (re_sha (sv_retention env))" and ?K = "tenantPrefix keys (event_codec (re_sha (sv_retention env))) t"
  have env: "archive_env env t" using assms(1) by (simp add: drainable_def)
  have holds: "archive_holds env ''event'' ?K ?K t bs (objects p)" using assms(3) by (simp add: drained_def Let_def)
  obtain p1 where l: "listManifests env client keys ?codec t p = (Inr (map (read_manifest env ?K t) bs), p1)" "objects p1 = objects p"
    by (rule list_returns_blocks [OF holds env])
  have never: "\<exists>m p'. sealSegment env client keys ?codec (map record_value (take (nat n) (drop j (hot s t)))) q = (Inr m, p')"
    if dr: "drained env keys s t j cs (objects q)" and batch: "take (nat n) (drop j (hot s t)) \<noteq> []" for j cs q
  proof -
    let ?vs = "map record_value (take (nat n) (drop j (hot s t)))"
    have h: "archive_holds env ''event'' ?K ?K t cs (objects q)" and len: "length (chain_values cs) = min (length (hot s t)) j"
      using dr by (simp_all add: drained_def Let_def)
    have a: "\<forall>v \<in> set ?vs. archivable env ''event'' t v" using drainable_facts(3) [OF assms(1)] by (auto dest: in_set_takeD in_set_dropD)
    have size: "int (length (chain_values cs) + length ?vs) \<le> max_safe_integer"
      unfolding len using assms(1) by (auto simp: drainable_def min_def)
    have K: "?K = tenantPrefix keys (record_codec (re_sha (sv_retention env)) ''events'' ''event'') t" by (simp add: event_codec_def)
    have m: "''event'' \<noteq> proto_key" by (simp add: proto_key_def)
    have ne: "?vs \<noteq> []" using batch by simp
    from seal_new [OF h K env a m size ne drained_extends [OF assms(1) dr]] show ?thesis unfolding event_codec_def by metis
  qed
  have p1: "drained env keys s t k bs (objects p1)" using assms(3) l(2) by simp
  have "\<exists>r p' j bs'. drain_tail (sealSegment env client keys ?codec) (\<lambda>after. memory_pages s t after n) n (int k) [] p1 = Some (r, p') \<and>
      drained env keys s t j bs' (objects p') \<and> (\<forall>x. r = Inr x \<longrightarrow> j = length (hot s t)) \<and> (True \<longrightarrow> (\<exists>x. r = Inr x))"
    by (rule drain_outcome [OF assms(1,2) never p1])
  then obtain x p' bs' where "drain_tail (sealSegment env client keys ?codec) (\<lambda>after. memory_pages s t after n) n (int k) [] p1 = Some (Inr x, p')"
      "drained env keys s t (length (hot s t)) bs' (objects p')" by auto
  with that show thesis
    unfolding attempt_unfold [OF assms(1,2)] l prod.case sum.case drained_tip [OF assms(1,3) refl] by blast
qed

text \<open>Sealing, reading, sealing again and verifying.\<close>

lemma seal_read_back:
  assumes "archive_holds env member K K t bs (objects p)" "K = tenantPrefix keys (record_codec (re_sha (sv_retention env)) chain member) t"
    and "archive_env env t" "\<forall>v \<in> set rs. archivable env member t v" "member \<noteq> proto_key"
    and "int (length (chain_values bs) + length rs) \<le> max_safe_integer" "rs \<noteq> []" "extends bs rs"
  shows "\<exists>m p1 ws p2 m' p3 p4.
    sealSegment env client keys (record_codec (re_sha (sv_retention env)) chain member) rs p = (Inr m, p1) \<and>
    readSegment env client (record_codec (re_sha (sv_retention env)) chain member) m p1 = (Inr ws, p2) \<and> map canonicalJson ws = map canonicalJson rs \<and>
    sealSegment env client keys (record_codec (re_sha (sv_retention env)) chain member) rs p2 = (Inr m', p3) \<and>
    (\<forall>k. js_prop m' k = js_prop m k) \<and> objects p3 = objects p1 \<and>
    verifyArchive env client keys (record_codec (re_sha (sv_retention env)) chain member) t p3 = (Inr \<lparr>av_ok = True,
      av_segmentCount = int (length bs) + 1, av_recordCount = int (length (chain_values bs) + length rs),
      av_verification = Some VerOk, av_reason = None\<rparr>, p4)"
proof -
  let ?codec = "record_codec (re_sha (sv_retention env)) chain member" and ?b = "new_block env rs"
  let ?bs = "bs @ [?b]"
  obtain p1 where 1: "sealSegment env client keys ?codec rs p = (Inr (block_manifest env K t ?b), p1)"
      "archive_holds env member K K t ?bs (objects p1)"
    by (rule seal_new [OF assms])
  have c: "chain_blocks env member t ?bs" and b: "?b \<in> set ?bs" "fst ?b = rs"
    and seg: "objects p1 (block_key K ?b) = Some (block_body ?b)"
    using 1(2) by (simp_all add: archive_holds_def new_block_def)
  note same = block_manifest_read(3) [OF c assms(3) b(1), of K]
  obtain ws p2 where 2: "readSegment env client ?codec (read_manifest env K t ?b) p1 = (Inr ws, p2)" "objects p2 = objects p1"
      "list_all2 same_envelope ws (fst ?b)"
    by (rule read_block [OF c assms(3) b(1) seg assms(5)])
  have texts: "map canonicalJson ws = map canonicalJson rs"
    using 2(3) unfolding b(2) by (induction rule: list_all2_induct) (simp_all add: same_envelope_def)
  have h2: "archive_holds env member K K t ?bs (objects p2)" using 1(2) 2(2) by simp
  obtain p3 where 3: "sealSegment env client keys ?codec rs p2 = (Inr (read_manifest env K t ?b), p3)" "objects p3 = objects p2"
    using seal_again [OF h2 assms(2,3,5) b(1)] unfolding b(2) by blast
  have h3: "archive_holds env member (tenantPrefix keys ?codec t) K t ?bs (objects p3)" using h2 3(2) assms(2) by simp
  have t: "\<not> blank t" using assms(3) by (simp add: archive_env_def)
  obtain p4 where 4: "verifyArchive env client keys ?codec t p3 = (Inr \<lparr>av_ok = True, av_segmentCount = int (length ?bs),
      av_recordCount = int (length (chain_values ?bs)), av_verification = (if ?bs = [] then None else Some VerOk), av_reason = None\<rparr>, p4)"
    by (rule verify_blocks [OF h3 assms(3) t assms(5)])
  show ?thesis using 1(1) 2(1,2) texts 3 4 b(2) same readSegment_same [of "read_manifest env K t ?b" "block_manifest env K t ?b" env client ?codec, OF same]
    by (intro exI [of _ "block_manifest env K t ?b"] exI [of _ p1] exI [of _ ws] exI [of _ p2] exI [of _ "read_manifest env K t ?b"]
        exI [of _ p3] exI [of _ p4]) simp
qed

end

section \<open>What the object archive promises\<close>

text \<open>C36. An archive that verifies is one chain of one tenant. Whatever client keeps the promises of an object store: if verification reports ok, every manifest object below the tenant's prefix has been read and is well formed, the segment each one names holds the digest it names over exactly as many canonical records, all of the same tenant, hash-valid and with the supported algorithms, and all of them together run from sequence 1 without a gap, each naming the hash of its predecessor. The counts are those of the manifests and records, and nothing was changed.\<close>

theorem verified_archive_is_chain:
  assumes "archive_store client objects" "verifyArchive env client keys (record_codec sha chain member) t p = (Inr v, p')" "av_ok v"
  shows "objects p' = objects p \<and> (\<exists>ks ms bs u. distinct ks \<and>
      set ks = manifest_keys (objects p) (tenantPrefix keys (record_codec sha chain member) t) \<and> list_all2 (manifest_at env (objects p)) ks ms \<and>
      list_all2 (holds_archived env (record_codec sha chain member) (objects p)) ms bs \<and> (\<forall>m \<in> set ms. str_prop m ''tenantId'' = u) \<and>
      list_all (accepted_record sha member u) (concat bs) \<and> in_sequence 0 JNull (concat bs) \<and>
      av_segmentCount v = int (length ms) \<and> av_recordCount v = int (length (concat bs)))"
  using archive_store.verifyArchive_sound [OF assms] unfolding one_chain_def by blast


text \<open>C38. What is sealed is read back. With a client that does not fail, sealing records that continue the archived chain returns a manifest from which exactly the canonical texts of the records are read; sealing them again returns the same manifest and writes nothing; and the archive then verifies with one more segment and the records added.\<close>

theorem sealed_records_read_back:
  assumes "steady_archive_store client objects" "K = tenantPrefix keys (record_codec (re_sha (sv_retention env)) chain member) t"
    and "archive_holds env member K K t bs (objects p)" "archive_env env t" "\<forall>v \<in> set rs. archivable env member t v"
    and "member \<noteq> proto_key" "int (length (chain_values bs) + length rs) \<le> max_safe_integer" "rs \<noteq> []" "extends bs rs"
  shows "\<exists>m p1 ws p2 m' p3 p4.
    sealSegment env client keys (record_codec (re_sha (sv_retention env)) chain member) rs p = (Inr m, p1) \<and>
    readSegment env client (record_codec (re_sha (sv_retention env)) chain member) m p1 = (Inr ws, p2) \<and> map canonicalJson ws = map canonicalJson rs \<and>
    sealSegment env client keys (record_codec (re_sha (sv_retention env)) chain member) rs p2 = (Inr m', p3) \<and>
    (\<forall>k. js_prop m' k = js_prop m k) \<and> objects p3 = objects p1 \<and>
    verifyArchive env client keys (record_codec (re_sha (sv_retention env)) chain member) t p3 = (Inr \<lparr>av_ok = True,
      av_segmentCount = int (length bs) + 1, av_recordCount = int (length (chain_values bs) + length rs),
      av_verification = Some VerOk, av_reason = None\<rparr>, p4)"
  using steady_archive_store.seal_read_back [OF assms(1,3,2,4-9)] .

text \<open>C39. A drain ends, and the next one completes it. The records of a tenant's memory store, from which nothing was compacted, are drained into an empty archive with a client that may fail anywhere: the loop of \<open>archiveAuditStoreTenant\<close> ends, for every page size, with a result or an error. Whatever it left, running it again with a client that does not fail returns, and the archive then verifies with exactly as many records as the store lists for the tenant.\<close>

theorem drain_resumes:
  assumes "archive_store crashing objects" "steady_archive_store client objects" "drainable env s t" "1 \<le> n" "1 \<le> n'"
    and "manifest_keys (objects p) (tenantPrefix keys (event_codec (re_sha (sv_retention env))) t) = {}"
  shows "\<exists>r p1 ms p2 v p3.
    archiveAuditStoreTenant (createObjectAuditArchive env crashing (Some keys)) (memory_pages s t) t (Some (NInt n)) p = Some (r, p1) \<and>
    archiveAuditStoreTenant (createObjectAuditArchive env client (Some keys)) (memory_pages s t) t (Some (NInt n')) p1 = Some (Inr ms, p2) \<and>
    verifyArchive env client keys (event_codec (re_sha (sv_retention env))) t p2 = (Inr v, p3) \<and> av_ok v \<and>
    av_recordCount v = int (length (hot s t))"
proof -
  let ?codec = "event_codec (re_sha (sv_retention env))"
  note start = drained_no_blocks [OF assms(6), of s]
  from archive_store.attempt_outcome [OF assms(1,3,4) start] obtain r p1 j bs where
    1: "archiveAuditStoreTenant (createObjectAuditArchive env crashing (Some keys)) (memory_pages s t) t (Some (NInt n)) p = Some (r, p1)"
      "drained env keys s t j bs (objects p1)" by blast
  obtain ms p2 cs where
    2: "archiveAuditStoreTenant (createObjectAuditArchive env client (Some keys)) (memory_pages s t) t (Some (NInt n')) p1 = Some (Inr ms, p2)"
      "drained env keys s t (length (hot s t)) cs (objects p2)"
    by (rule steady_archive_store.attempt_completes [OF assms(2,3,5) 1(2)])
  have holds: "archive_holds env ''event'' (tenantPrefix keys (record_codec (re_sha (sv_retention env)) ''events'' ''event'') t)
      (tenantPrefix keys ?codec t) t cs (objects p2)" using 2(2) by (simp add: drained_def event_codec_def Let_def)
  have env: "archive_env env t" "\<not> blank t" using assms(3) by (simp_all add: drainable_def archive_env_def)
  have m: "''event'' \<noteq> proto_key" by (simp add: proto_key_def)
  obtain p3 where "verifyArchive env client keys ?codec t p2 = (Inr \<lparr>av_ok = True, av_segmentCount = int (length cs),
      av_recordCount = int (length (chain_values cs)), av_verification = (if cs = [] then None else Some VerOk), av_reason = None\<rparr>, p3)"
    using steady_archive_store.verify_blocks [OF assms(2) holds env m] unfolding event_codec_def by blast
  moreover have "length (chain_values cs) = length (hot s t)" using 2(2) by (simp add: drained_def)
  ultimately show ?thesis using 1(1) 2(1) by auto
qed

text \<open>C40. Manifests steer the verification of a tenant. The manifests below a tenant's prefix are not compared with the tenant: if they are the manifests of another tenant's archive, wherever its segments lie, verifying the one tenant reads the other's segments and reports ok with the other's counts.\<close>

theorem manifests_steer_verification:
  assumes "steady_archive_store client objects" "archive_env env t" "\<not> blank x" "member \<noteq> proto_key"
    and "archive_holds env member (tenantPrefix keys (record_codec (re_sha (sv_retention env)) chain member) x) segments t bs (objects p)"
  shows "\<exists>p'. verifyArchive env client keys (record_codec (re_sha (sv_retention env)) chain member) x p =
    (Inr \<lparr>av_ok = True, av_segmentCount = int (length bs), av_recordCount = int (length (chain_values bs)),
      av_verification = (if bs = [] then None else Some VerOk), av_reason = None\<rparr>, p')"
  using steady_archive_store.verify_blocks [OF assms(1,5,2,3,4)] by blast

section \<open>A concrete archive\<close>

text \<open>The clients in memory keep the promises of the archive's client.\<close>

interpretation steady_archive: steady_archive_store steady_client memory_map
  by unfold_locales (blast dest: steady.get_result steady.get_keeps steady.put_result steady.put_keeps steady.list_result steady.list_keeps
      intro: steady.get_returns steady.put_returns steady.list_returns)+

interpretation crashing_archive: archive_store crashing_client memory_map
  by unfold_locales (blast dest: crashing.get_result crashing.get_keeps crashing.put_result crashing.put_keeps crashing.list_result
      crashing.list_keeps)+

abbreviation sample_codec :: chain_codec where
  "sample_codec \<equiv> record_codec (re_sha (sv_retention staging_sample)) ''events'' ''event''"

definition sample_values :: "jsval list" where
  "sample_values = [record_value run_record]"

lemma sample_archive_env: "archive_env staging_sample ''t1''"
proof -
  have "\<not> blank ''t1''" by code_simp
  then show ?thesis using reads_integers_sample sample_hex by (simp add: archive_env_def staging_sample_def sample_env_def)
qed

lemma sample_hot: "hot run_append ''t1'' = [run_record]"
  by (simp add: hot_def run_append_def belongs_def run_record_def sample_event_def)

lemma sample_drainable: "drainable staging_sample run_append ''t1''"
proof -
  have "storable staging_sample run_record" by code_simp
  moreover have "checkpoints_of run_append ''t1'' = []" by (simp add: run_append_def checkpoints_of_def empty_store_def)
  ultimately show ?thesis using sample_archive_env run_reachable(2)
    by (simp add: drainable_def sample_hot staging_sample_def max_safe_integer_def)
qed

lemma sample_values_facts:
  "\<forall>v \<in> set sample_values. archivable staging_sample ''event'' ''t1'' v" "sample_values \<noteq> []" "extends [] sample_values"
  "''event'' \<noteq> proto_key" "int (length (chain_values []) + length sample_values) \<le> max_safe_integer"
  using drainable_facts(2,3) [OF sample_drainable]
  by (simp_all add: sample_values_def sample_hot extends_def chain_end_def proto_key_def max_safe_integer_def)

definition sample_keys_prefix :: string where
  "sample_keys_prefix = tenantPrefix ''k'' sample_codec ''t1''"

definition sample_block :: sealed_block where
  "sample_block = new_block staging_sample sample_values"

lemma empty_archive: "archive_holds staging_sample ''event'' K K ''t1'' [] (memory_map empty_objects)"
  by (simp add: archive_holds_def chain_blocks_def manifest_keys_def max_safe_integer_def)

definition archived_store :: memory_objects where
  "archived_store = snd (sealSegment staging_sample steady_client ''k'' sample_codec sample_values empty_objects)"

lemma sample_archived:
  "archive_holds staging_sample ''event'' sample_keys_prefix sample_keys_prefix ''t1'' [sample_block] (memory_map archived_store)"
  "\<not> prefix sample_keys_prefix k \<Longrightarrow> memory_map archived_store k = None"
proof -
  obtain p where s: "sealSegment staging_sample steady_client ''k'' sample_codec sample_values empty_objects =
      (Inr (block_manifest staging_sample sample_keys_prefix ''t1'' (new_block staging_sample sample_values)), p)"
    and h: "archive_holds staging_sample ''event'' sample_keys_prefix sample_keys_prefix ''t1'' ([] @ [new_block staging_sample sample_values]) (memory_map p)"
    by (rule steady_archive.seal_new [OF empty_archive sample_keys_prefix_def sample_archive_env sample_values_facts(1,4,5,2,3)])
  from s h show "archive_holds staging_sample ''event'' sample_keys_prefix sample_keys_prefix ''t1'' [sample_block] (memory_map archived_store)"
    by (simp add: archived_store_def sample_block_def)
  from steady_archive.seal_outcome(1) [OF empty_archive sample_keys_prefix_def sample_archive_env sample_values_facts(1,4,5) s]
  show "\<not> prefix sample_keys_prefix k \<Longrightarrow> memory_map archived_store k = None" by (simp add: archived_store_def s)
qed

theorem verified_archive_is_chain_witness:
  "\<exists>v p rs. verifyArchive staging_sample steady_client ''k'' sample_codec ''t1'' archived_store = (Inr v, p) \<and>
     in_sequence 0 JNull rs \<and> length rs = 1 \<and> av_recordCount v = int (length rs)"
proof -
  have "\<not> blank ''t1''" by code_simp
  from steady_archive.verify_blocks [OF sample_archived(1) [unfolded sample_keys_prefix_def] sample_archive_env this sample_values_facts(4)]
  obtain p where p: "verifyArchive staging_sample steady_client ''k'' sample_codec ''t1'' archived_store = (Inr \<lparr>av_ok = True,
      av_segmentCount = int (length [sample_block]), av_recordCount = int (length (chain_values [sample_block])),
      av_verification = (if [sample_block] = [] then None else Some VerOk), av_reason = None\<rparr>, p)" .
  from verified_archive_is_chain [OF steady_archive.archive_store_axioms p] p show ?thesis
    by (auto simp: sample_block_def new_block_def sample_values_def)
qed


theorem sealed_records_read_back_witness:
  "\<exists>m p1 ws p2. sealSegment staging_sample steady_client ''k'' sample_codec sample_values empty_objects = (Inr m, p1) \<and>
     readSegment staging_sample steady_client sample_codec m p1 = (Inr ws, p2) \<and> map canonicalJson ws = map canonicalJson sample_values"
  using sealed_records_read_back [OF steady_archive.steady_archive_store_axioms sample_keys_prefix_def empty_archive sample_archive_env
      sample_values_facts(1,4,5,2,3)] by blast

theorem drain_resumes_witness:
  "\<exists>r p1 ms p2 v p3.
    archiveAuditStoreTenant (createObjectAuditArchive staging_sample crashing_client (Some ''k'')) (memory_pages run_append ''t1'') ''t1'' (Some (NInt 1)) empty_objects = Some (r, p1) \<and>
    archiveAuditStoreTenant (createObjectAuditArchive staging_sample steady_client (Some ''k'')) (memory_pages run_append ''t1'') ''t1'' (Some (NInt 2)) p1 = Some (Inr ms, p2) \<and>
    verifyArchive staging_sample steady_client ''k'' (event_codec (re_sha (sv_retention staging_sample))) ''t1'' p2 = (Inr v, p3) \<and> av_ok v \<and> av_recordCount v = 1"
proof -
  have "manifest_keys (memory_map empty_objects) (tenantPrefix ''k'' (event_codec (re_sha (sv_retention staging_sample))) ''t1'') = {}"
    by (simp add: manifest_keys_def)
  from drain_resumes [OF crashing_archive.archive_store_axioms steady_archive.steady_archive_store_axioms sample_drainable _ _ this, of 1 2]
  show ?thesis by (simp add: sample_hot)
qed

text \<open>The manifest of the first tenant's segment, copied below the prefix of the second.\<close>

definition steered_store :: memory_objects where
  "steered_store = archived_store\<lparr>mo_objects := (block_key (tenantPrefix ''k'' sample_codec ''t2'') sample_block @ MANIFEST_SUFFIX,
     utf8_encode (block_text staging_sample sample_keys_prefix ''t1'' sample_block)) # mo_objects archived_store\<rparr>"

theorem manifests_steer_verification_witness:
  "\<exists>p. verifyArchive staging_sample steady_client ''k'' sample_codec ''t2'' steered_store =
     (Inr \<lparr>av_ok = True, av_segmentCount = 1, av_recordCount = 1, av_verification = Some VerOk, av_reason = None\<rparr>, p)"
proof -
  let ?K2 = "tenantPrefix ''k'' sample_codec ''t2''"
  let ?k = "block_key ?K2 sample_block @ MANIFEST_SUFFIX"
  have keys: "sample_keys_prefix = ''k/t1/events/''" "?K2 = ''k/t2/events/''" "\<not> blank ''t2''"
    unfolding sample_keys_prefix_def by code_simp+
  note h = sample_archived(1) [unfolded archive_holds_def]
  have map: "memory_map steered_store = (memory_map archived_store)(?k \<mapsto> utf8_encode (block_text staging_sample sample_keys_prefix ''t1'' sample_block))"
    by (auto simp: memory_map_def steered_store_def)
  have "\<not> prefix sample_keys_prefix k" if "prefix ?K2 k" for k using that unfolding keys by (auto simp: prefix_def)
  then have "memory_map archived_store k = None" if "prefix ?K2 k" for k using sample_archived(2) that by blast
  then have "manifest_keys (memory_map steered_store) ?K2 = {?k}"
    using block_key_prefix(2) [of ?K2 sample_block] unfolding map by (auto simp: manifest_keys_def suffix_def split: if_splits)
  moreover have "prefix sample_keys_prefix (block_key sample_keys_prefix sample_block)" by (rule block_key_prefix)
  then have "block_key sample_keys_prefix sample_block \<noteq> ?k"
    using \<open>\<And>k. prefix ?K2 k \<Longrightarrow> \<not> prefix sample_keys_prefix k\<close> block_key_prefix(2) [of ?K2 sample_block] by metis
  ultimately have "archive_holds staging_sample ''event'' ?K2 sample_keys_prefix ''t1'' [sample_block] (memory_map steered_store)"
    using h unfolding archive_holds_def map by simp
  from manifests_steer_verification [OF steady_archive.steady_archive_store_axioms sample_archive_env keys(3) sample_values_facts(4) this]
  show ?thesis by (simp add: sample_block_def new_block_def sample_values_def)
qed

end
