(* ===== verification/Spec2Isabelle.thy ===== *)
theory Spec2Isabelle
  imports Prelude JsDate JsValue Canonical JsonText Events AuditChain Commits Retention MemoryStore
    Delivery Outbox OutboxQueue SqlOutbox SqlQueue SqlText SqlRuns Dispatcher
    Actions Staging StagingArchive StagingText StagingRecords StagingSafety StagingSteps StagingEpochs
    Coordinator EpochSafety FileEvidence FileSafety FileStore
    ObjectArchive ArchiveSegments ArchiveBlocks ArchiveSealing ArchiveDrain
begin

text \<open>
  Veritio records governance evidence: audit events and evidence edges are normalised,
  redacted, hashed over canonical JSON and linked into per-tenant hash chains; evidence
  commits bind record manifests under a Merkle root; retention checkpoints crop verified
  prefixes, and disposition receipts document the deletion of the archived copies. This
  development models that core of the TypeScript implementation and proves what makes it
  trustworthy.

  \<^bold>\<open>Theories.\<close>
  \<^item> \<open>Prelude\<close>: JavaScript errors as values of a sum type, sequencing, character classes and the
    string predicates behind the regular expressions, safe integers, list lemmas.
  \<^item> \<open>JsDate\<close>: decimal numerals and \<open>Date.prototype.toISOString\<close>.
  \<^item> \<open>JsValue\<close>: values of type \<open>unknown\<close>, property order, \<open>JSON.stringify\<close> and its injectivity.
  \<^item> \<open>Canonical\<close> (\<^verbatim>\<open>sdks/typescript/src/index.ts\<close>): \<open>normalizeForJson\<close>, \<open>canonicalJson\<close>,
    \<open>redactMetadata\<close>, \<open>sanitizeDigestEnvelope\<close>. The text determines the normal form; redaction
    leaks no sensitive value.
  \<^item> \<open>JsonText\<close>: \<open>JSON.parse\<close> as a scanner and a stack machine over tokens.
  \<^item> \<open>Events\<close> (\<^verbatim>\<open>index.ts\<close>): records of the data model, \<open>createAuditEvent\<close>, \<open>createEvidenceEdge\<close>, the
    hash functions; the locale \<open>hashed_document\<close>: a hash determines its document up to an
    exhibited collision.
  \<^item> \<open>AuditChain\<close> (\<^verbatim>\<open>index.ts\<close>, \<^verbatim>\<open>export-bundle-chain-modes.ts\<close>, \<^verbatim>\<open>export-bundle-deps.ts\<close>): the strict and
    the scoped chain verifiers; the locales \<open>keyed_walk\<close>, \<open>chain_walk\<close> and \<open>sealed_chain\<close>.
  \<^item> \<open>Commits\<close> (\<^verbatim>\<open>index.ts\<close>): evidence commits, their manifests and Merkle roots.
  \<^item> \<open>Retention\<close> (\<^verbatim>\<open>retention.ts\<close>): checkpoints, dispositions, signatures, anchored verification.
  \<^item> \<open>MemoryStore\<close> (\<^verbatim>\<open>index.ts\<close>): the reference store \<open>MemoryAuditStore\<close> with all its methods.
    Every reachable store verifies from its checkpoints, keeps its history and isolates tenants.
  \<^item> \<open>Delivery\<close> (\<^verbatim>\<open>storage/src/delivery-safety.ts\<close>, the ledger of \<^verbatim>\<open>outbox-dispatcher.ts\<close>): the
    delivery safety policy and the rolling window ledger, which refines the history of sends.
  \<^item> \<open>Outbox\<close> (\<^verbatim>\<open>storage/src/outbox-shared.ts\<close>, \<^verbatim>\<open>outbox-types.ts\<close>, \<^verbatim>\<open>outbox-file.ts\<close>): the row helpers and
    the operations of the file outbox on its snapshot.
  \<^item> \<open>OutboxQueue\<close>: the row invariant, the step relation of the file outbox and an abstract queue
    of work in phases which it refines; one active lease per tenant, no evidence lost.
  \<^item> \<open>SqlOutbox\<close> (\<^verbatim>\<open>storage/src/outbox-sql.ts\<close>): the statements of the SQL outbox, with their text
    and their effect on the queue table, and the adapter's operations over them. \<open>SqlText\<close>: the
    placeholders of every statement are the parameters passed. \<open>SqlQueue\<close>: what a table that shows valid
    rows does under each operation. \<open>SqlRuns\<close>: runs of the adapter refine the same abstract queue, keep
    one lease holder per tenant, lose no evidence, and settle like the file adapter.
  \<^item> \<open>Dispatcher\<close> (\<^verbatim>\<open>storage/src/outbox-dispatcher.ts\<close>): dispatch passes over an adapter and a target;
    their bounds, the rolling ceilings across passes, and delivery of the due rows.
  \<^item> \<open>Actions\<close>: operations that change a state and may throw, host callbacks as brackets, triples.
  \<^item> \<open>Staging\<close> (\<^verbatim>\<open>storage/src/retention-staging-archive.ts\<close>): the data and the interface of the
    derived staging archive.
  \<^item> \<open>StagingArchive\<close> (the same file): keys, bytes, the guards of inputs, manifests and segments, and the
    seven operations of the archive over an injected object client. \<open>StagingText\<close>: encodings, batches and
    keys are injective and inverse. \<open>StagingRecords\<close>: manifests and records are read back from their bytes.
    \<open>StagingSafety\<close>: the locales \<open>object_store\<close> and \<open>reliable_store\<close> of what the archive relies on, and what a
    verified epoch holds. \<open>StagingSteps\<close>: sealing and deleting as sequences of writes cut off anywhere.
    \<open>StagingEpochs\<close>: the promises of the archive, and the client of the tests as an instance.
  \<^item> \<open>Coordinator\<close> (\<^verbatim>\<open>storage/src/retention-coordinator.ts\<close>): \<open>runRetentionEpoch\<close> over an injected
    store, archive and host, with the lease, the policy fences and every stage of a run.
  \<^item> \<open>EpochSafety\<close>: the locale \<open>checkpointing\<close> of what a run needs from its store, interpreted on the
    memory store: a run deletes staged copies only after a durable crop, records a receipt only
    after their absence is confirmed, and replays a finished epoch without changing anything.

  \<^item> \<open>FileEvidence\<close> (\<^verbatim>\<open>storage/src/file-store.ts\<close>): the file-backed store of one tenant, its lock, its
    appends with failing writes, and batches closed by a commit. \<open>FileSafety\<close>: the locale \<open>record_log\<close>
    and the invariant of a directory under every run. \<open>FileStore\<close>: directories verify, commits are backed by
    stored records, appends agree with \<open>MemoryAuditStore\<close>, batches can be repeated.

  \<^item> \<open>ObjectArchive\<close> (\<^verbatim>\<open>storage/src/object-archive-chain.ts\<close>, \<^verbatim>\<open>object-archive.ts\<close>): the cold tier on object
    storage: segments and manifests of both chains, sealing, listing, reading, verifying, and the drain of an
    audit store. \<open>ArchiveSegments\<close>: the locales \<open>archive_store\<close> and \<open>steady_archive_store\<close> of its client, which
    those of the staging archive give, and what a verified archive holds. \<open>ArchiveBlocks\<close>: the invariant
    \<open>archive_holds\<close> of sealed blocks. \<open>ArchiveSealing\<close>: every operation on an archive that has it, with any
    outcome of the client's calls. \<open>ArchiveDrain\<close>: what the archive promises, with the drain of \<open>MemoryStore\<close>.

  \<^bold>\<open>How the code is modelled.\<close> A function that may throw returns \<open>js_error + 'a\<close> with the message
  of the source. A string is a list of UTF-16 code units below 256. A field of a typed record
  that the code treats as an exact integer is an \<open>int\<close>; where the code tests
  \<open>Number.isInteger\<close> on an argument it is a \<open>jsnumber\<close>. An untrusted argument is a \<open>jsval\<close>.
  Loops are recursive functions. All of them terminate and none needs fuel, except two that are partial
  functions: the loop that cuts the records of an epoch into segments, proved to return for every chunk
  size the guard accepts, and the drain of an audit store, proved to return for every page size on a
  memory store whatever the object client does.

  \<^bold>\<open>Parameters.\<close> SHA-256 is the function \<open>sha\<close> from the hashed text to the hex digest; a property
  that needs the digest to have 64 hex digits says so, and a property that rests on collision
  resistance exhibits the two texts instead. The clock, identifiers, \<open>Date.parse\<close> and the
  signature verifier are parameters as well, and so are the injected store, archive and host callbacks
  of the coordinator, whose laws are the assumptions of the locale \<open>checkpointing\<close>, and the object client of
  the staging archive, whose laws are those of \<open>object_store\<close>, and of the object archive, \<open>archive_store\<close>. Of a SQL
  database the collation, the envelope of results and the reading of number literals are parameters
  (\<open>sql_engine\<close>); \<open>engine_ok\<close> and \<open>collates_times\<close> are what the adapter relies on.

  \<^bold>\<open>Not modelled.\<close> Export bundles, governed change, provenance, templates and risk scores; the
  SQL and Mongo audit stores and the read models; transport, command line and framework adapters.
\<close>

end
